(* ===== verification/Prelude.thy ===== *)
theory Prelude
  imports Complex_Main "HOL-Library.AList" "HOL-Library.Char_ord" "HOL-Library.List_Lexorder"
begin

text \<open>
  Shared vocabulary of the development.

  \<^item> Every exception of \<open>src/datacrystal/_errors.py\<close>, of
    \<open>contract/applier.py\<close> and of \<open>deltalog.py\<close>, and the builtin Python exceptions the
    modelled code raises, is a constructor of \<open>error\<close>; a fallible operation returns
    \<open>error + 'a\<close>, \<open>Inl\<close> for the raise. Messages are diagnostics and are not modelled.
  \<^item> A Python \<open>dict\<close> is an association list with distinct keys: \<open>AList.update\<close> overwrites in
    place or appends, \<open>AList.delete\<close> removes, so insertion order is kept.
  \<^item> \<open>bitmap\<close> is a \<open>pyroaring.BitMap64\<close>: the finite set of its members, iterated in
    ascending order (\<open>sorted_list_of_set\<close>).
\<close>

section \<open>Errors and results\<close>

datatype error =
    StoreClosedError | StoreLockedError | LeaseLostError | WrongThreadError
  | EntityEscapeError | FrozenEntityError | NotAnEntityError | UniqueViolationError
  | SchemaMismatchError | SchemaSkewError | ConflictError | UnregisteredTypeError
  | NewerStoreError | CorruptRecordError | MixedTemporalIndexError | QueryError
  | DeletedEntityError | DanglingRefError | UnknownActorError | SponsorRequiredError
  | UncommittedActorError | WriteDeniedError | ReadDeniedError
  | DataCrystalError
  | DeltaFormatError | DeltaGapError | DeltaLogConfigError
  | PyTypeError | PyValueError | PyKeyError | PyIndexError | PyAttributeError | PyRuntimeError
  | PyNotImplementedError | PyAssertionError | PyOSError | DecimalInvalidOperation
  | PyOverflowError | PyStructError | MsgspecError | SqliteIntegrityError

type_synonym 'a res = "error + 'a"

text \<open>\<open>bind_res m f\<close> runs \<open>f\<close> on the value of \<open>m\<close> unless \<open>m\<close> raised.\<close>

definition bind_res :: "'a res \<Rightarrow> ('a \<Rightarrow> 'b res) \<Rightarrow> 'b res" where
  "bind_res m f = (case m of Inl e \<Rightarrow> Inl e | Inr x \<Rightarrow> f x)"

definition guard_res :: "bool \<Rightarrow> error \<Rightarrow> unit res" where
  "guard_res ok e = (if ok then Inr () else Inl e)"

text \<open>The loop that applies a fallible step to each element and stops at the first raise.\<close>

fun fold_res :: "('a \<Rightarrow> 's \<Rightarrow> 's res) \<Rightarrow> 'a list \<Rightarrow> 's \<Rightarrow> 's res" where
  "fold_res f [] s = Inr s"
| "fold_res f (x # xs) s = (case f x s of Inl e \<Rightarrow> Inl e | Inr s' \<Rightarrow> fold_res f xs s')"

fun map_res :: "('a \<Rightarrow> 'b res) \<Rightarrow> 'a list \<Rightarrow> 'b list res" where
  "map_res f [] = Inr []"
| "map_res f (x # xs) =
     (case f x of Inl e \<Rightarrow> Inl e
      | Inr y \<Rightarrow> (case map_res f xs of Inl e \<Rightarrow> Inl e | Inr ys \<Rightarrow> Inr (y # ys)))"

named_theorems res_simps

lemma bind_res_simps [simp, res_simps]:
  "bind_res (Inl e) f = Inl e"
  "bind_res (Inr x) f = f x"
  by (simp_all add: bind_res_def)

lemma bind_res_Inr [res_simps]:
  "bind_res m f = Inr y \<longleftrightarrow> (\<exists>x. m = Inr x \<and> f x = Inr y)"
  by (cases m) auto

lemma bind_res_Inl [res_simps]:
  "bind_res m f = Inl e \<longleftrightarrow> m = Inl e \<or> (\<exists>x. m = Inr x \<and> f x = Inl e)"
  by (cases m) auto

lemma bind_res_assoc: "bind_res (bind_res m f) g = bind_res m (\<lambda>x. bind_res (f x) g)"
  by (cases m) auto

lemma guard_res_simps [simp, res_simps]:
  "guard_res ok e = Inr u \<longleftrightarrow> ok"
  "guard_res ok e = Inl e' \<longleftrightarrow> \<not> ok \<and> e = e'"
  by (auto simp: guard_res_def)

lemma guard_res_eval [simp]:
  "guard_res True e = Inr ()" "guard_res False e = Inl e"
  by (simp_all add: guard_res_def)

lemma fold_res_append:
  "fold_res f (xs @ ys) s = bind_res (fold_res f xs s) (fold_res f ys)"
  by (induction xs arbitrary: s) (auto split: sum.splits)

lemma fold_res_invariant:
  assumes "fold_res f xs s = Inr t" and "P s"
    and "\<And>x s t. x \<in> set xs \<Longrightarrow> P s \<Longrightarrow> f x s = Inr t \<Longrightarrow> P t"
  shows "P t"
  using assms
proof (induction xs arbitrary: s)
  case Nil
  then show ?case by simp
next
  case (Cons x xs)
  from Cons.prems(1) obtain s' where s': "f x s = Inr s'" "fold_res f xs s' = Inr t"
    by (auto split: sum.splits)
  moreover have "P s'"
    using Cons.prems(2) Cons.prems(3) [of x s s'] s' by simp
  ultimately show ?case
    using Cons.IH [of s'] Cons.prems(3) by auto
qed

lemma map_res_Inr_length: "map_res f xs = Inr ys \<Longrightarrow> length ys = length xs"
  by (induction xs arbitrary: ys) (auto split: sum.splits)

lemma map_res_Inr_nth:
  "map_res f xs = Inr ys \<Longrightarrow> i < length xs \<Longrightarrow> f (xs ! i) = Inr (ys ! i)"
proof (induction xs arbitrary: ys i)
  case Nil
  then show ?case by simp
next
  case (Cons x xs)
  then show ?case by (cases i) (auto split: sum.splits)
qed

lemma map_res_total: "(\<And>x. x \<in> set xs \<Longrightarrow> f x = Inr (g x)) \<Longrightarrow> map_res f xs = Inr (map g xs)"
  by (induction xs) auto

lemma map_res_cong [fundef_cong]:
  "xs = ys \<Longrightarrow> (\<And>x. x \<in> set ys \<Longrightarrow> f x = g x) \<Longrightarrow> map_res f xs = map_res g ys"
proof (induction xs arbitrary: ys)
  case Nil
  then show ?case by simp
next
  case (Cons x xs)
  have "f x = g x" and "map_res f xs = map_res g xs"
    using Cons by auto
  then show ?case
    using Cons.prems(1) by (metis map_res.simps(2))
qed

section \<open>Dictionaries\<close>

type_synonym ('k, 'v) dict = "('k \<times> 'v) list"

abbreviation dict_get :: "('k, 'v) dict \<Rightarrow> 'k \<Rightarrow> 'v option" where
  "dict_get d k \<equiv> map_of d k"

abbreviation dict_keys :: "('k, 'v) dict \<Rightarrow> 'k list" where
  "dict_keys d \<equiv> map fst d"

definition dict_getd :: "('k, 'v) dict \<Rightarrow> 'k \<Rightarrow> 'v \<Rightarrow> 'v" where
  "dict_getd d k v = (case dict_get d k of None \<Rightarrow> v | Some x \<Rightarrow> x)"

definition dict_wf :: "('k, 'v) dict \<Rightarrow> bool" where
  "dict_wf d \<longleftrightarrow> distinct (dict_keys d)"

named_theorems dict_simps

lemma dict_wf_Nil [simp]: "dict_wf []"
  by (simp add: dict_wf_def)

lemma dict_wf_update [simp]: "dict_wf d \<Longrightarrow> dict_wf (AList.update k v d)"
  by (simp add: dict_wf_def distinct_update)

lemma dict_wf_delete [simp]: "dict_wf d \<Longrightarrow> dict_wf (AList.delete k d)"
  by (simp add: dict_wf_def distinct_delete)

lemma dict_get_update [simp, dict_simps]:
  "dict_get (AList.update k v d) k' = (if k' = k then Some v else dict_get d k')"
  by (simp add: update_conv')

lemma dict_get_delete [simp, dict_simps]:
  "dict_get (AList.delete k d) k' = (if k' = k then None else dict_get d k')"
  by (simp add: delete_conv')

lemma dict_getd_update [simp, dict_simps]:
  "dict_getd (AList.update k v d) k' x = (if k' = k then v else dict_getd d k' x)"
  by (simp add: dict_getd_def)

lemma dict_wf_in_set: "dict_wf d \<Longrightarrow> (k, v) \<in> set d \<longleftrightarrow> dict_get d k = Some v"
  by (metis dict_wf_def map_of_is_SomeI map_of_SomeD)

lemma dict_wf_map [simp]: "dict_wf (map (\<lambda>(k, v). (k, f k v)) d) \<longleftrightarrow> dict_wf d"
  by (simp add: dict_wf_def o_def case_prod_beta)

lemma dict_get_map: "dict_get (map (\<lambda>(k, v). (k, f k v)) d) k = map_option (f k) (dict_get d k)"
  by (induction d) auto

section \<open>Bitmaps\<close>

type_synonym bitmap = "nat set"

abbreviation bm_iter :: "bitmap \<Rightarrow> nat list" where
  "bm_iter b \<equiv> sorted_list_of_set b"

text \<open>A dict of postings: \<open>d.setdefault(k, BitMap64()).add(o)\<close> and \<open>discard\<close> if present.\<close>

definition post_add :: "('k, bitmap) dict \<Rightarrow> 'k \<Rightarrow> nat \<Rightarrow> ('k, bitmap) dict" where
  "post_add d k o' = AList.update k (insert o' (dict_getd d k {})) d"

definition post_discard :: "('k, bitmap) dict \<Rightarrow> 'k \<Rightarrow> nat \<Rightarrow> ('k, bitmap) dict" where
  "post_discard d k o' =
     (case dict_get d k of None \<Rightarrow> d | Some b \<Rightarrow> AList.update k (b - {o'}) d)"

lemma post_wf [simp]:
  "dict_wf d \<Longrightarrow> dict_wf (post_add d k o')"
  "dict_wf d \<Longrightarrow> dict_wf (post_discard d k o')"
  by (simp_all add: post_add_def post_discard_def split: option.splits)

lemma post_add_getd [simp, dict_simps]:
  "dict_getd (post_add d k o') k' {} = (if k' = k then insert o' (dict_getd d k {}) else dict_getd d k' {})"
  by (simp add: post_add_def)

lemma post_discard_getd [simp, dict_simps]:
  "dict_getd (post_discard d k o') k' {} = (if k' = k then dict_getd d k {} - {o'} else dict_getd d k' {})"
  by (auto simp: post_discard_def dict_getd_def split: option.splits)

lemma post_add_get: "dict_get (post_add d k o') k' = None \<longleftrightarrow> k' \<noteq> k \<and> dict_get d k' = None"
  by (auto simp: post_add_def)

lemma post_discard_get: "dict_get (post_discard d k o') k' = None \<longleftrightarrow> dict_get d k' = None"
  by (auto simp: post_discard_def split: option.splits)

lemma fold_post_add_getd:
  "dict_getd (fold (\<lambda>k d. post_add d k o') ks d) k' {} =
     (if k' \<in> set ks then insert o' (dict_getd d k' {}) else dict_getd d k' {})"
  by (induction ks arbitrary: d) auto

lemma fold_post_discard_getd:
  "dict_getd (fold (\<lambda>k d. post_discard d k o') ks d) k' {} =
     (if k' \<in> set ks then dict_getd d k' {} - {o'} else dict_getd d k' {})"
  by (induction ks arbitrary: d) auto

lemma fold_post_wf [simp]:
  "dict_wf d \<Longrightarrow> dict_wf (fold (\<lambda>k d. post_add d k o') ks d)"
  "dict_wf d \<Longrightarrow> dict_wf (fold (\<lambda>k d. post_discard d k o') ks d)"
  by (induction ks arbitrary: d) auto

text \<open>
  \<open>dict_put_all kf xs d\<close>: the loop \<open>for x in xs: d[kf(x)] = x\<close>, later elements winning.
\<close>

definition dict_put_all :: "('a \<Rightarrow> 'k) \<Rightarrow> 'a list \<Rightarrow> ('k, 'a) dict \<Rightarrow> ('k, 'a) dict" where
  "dict_put_all kf xs d = fold (\<lambda>x d. AList.update (kf x) x d) xs d"

definition dict_pop_all :: "'k list \<Rightarrow> ('k, 'v) dict \<Rightarrow> ('k, 'v) dict" where
  "dict_pop_all ks d = fold AList.delete ks d"

definition last_with :: "('a \<Rightarrow> 'k) \<Rightarrow> 'a list \<Rightarrow> 'k \<Rightarrow> 'a option" where
  "last_with kf xs k = find (\<lambda>x. kf x = k) (rev xs)"

lemma last_with_Nil [simp]: "last_with kf [] k = None"
  by (simp add: last_with_def)

lemma find_append: "find P (xs @ ys) = (case find P xs of None \<Rightarrow> find P ys | Some x \<Rightarrow> Some x)"
  by (induction xs) auto

lemma last_with_snoc [simp]:
  "last_with kf (xs @ [x]) k = (if kf x = k then Some x else last_with kf xs k)"
  by (simp add: last_with_def)

lemma last_with_Cons:
  "last_with kf (x # xs) k =
     (case last_with kf xs k of None \<Rightarrow> (if kf x = k then Some x else None) | Some y \<Rightarrow> Some y)"
  by (simp add: last_with_def find_append split: option.splits)

lemma last_with_None: "last_with kf xs k = None \<longleftrightarrow> k \<notin> kf ` set xs"
  by (auto simp: last_with_def find_None_iff)

lemma last_with_Some: "last_with kf xs k = Some x \<Longrightarrow> x \<in> set xs \<and> kf x = k"
  by (auto simp: last_with_def find_Some_iff) (metis length_rev nth_mem set_rev)

lemma last_with_distinct:
  "distinct (map kf xs) \<Longrightarrow> x \<in> set xs \<Longrightarrow> last_with kf xs (kf x) = Some x"
  by (cases "last_with kf xs (kf x)")
     (auto simp: last_with_None dest!: last_with_Some dest: eq_key_imp_eq_value inj_onD simp: distinct_map)

lemma dict_get_put_all [dict_simps]:
  "dict_get (dict_put_all kf xs d) k =
     (case last_with kf xs k of None \<Rightarrow> dict_get d k | Some x \<Rightarrow> Some x)"
  by (induction xs rule: rev_induct) (auto simp: dict_put_all_def split: option.splits)

lemma dict_get_pop_all [dict_simps]:
  "dict_get (dict_pop_all ks d) k = (if k \<in> set ks then None else dict_get d k)"
  by (induction ks arbitrary: d) (auto simp: dict_pop_all_def)

lemma dict_wf_put_all [simp]: "dict_wf d \<Longrightarrow> dict_wf (dict_put_all kf xs d)"
  by (induction xs arbitrary: d) (auto simp: dict_put_all_def)

lemma dict_wf_pop_all [simp]: "dict_wf d \<Longrightarrow> dict_wf (dict_pop_all ks d)"
  by (induction ks arbitrary: d) (auto simp: dict_pop_all_def)

lemma dict_values_set: "dict_wf d \<Longrightarrow> v \<in> set (map snd d) \<longleftrightarrow> (\<exists>k. dict_get d k = Some v)"
  by (auto simp: dict_wf_in_set [symmetric] intro: rev_image_eqI)

section \<open>Decimal text\<close>

text \<open>\<open>str(n)\<close> of a non-negative int and \<open>int(s)\<close> (blanks, a sign, digits with single underscores).\<close>

fun str_of_nat :: "nat \<Rightarrow> string" where
  "str_of_nat n =
     (if n < 10 then [char_of (48 + n)] else str_of_nat (n div 10) @ [char_of (48 + n mod 10)])"

declare str_of_nat.simps [simp del]

definition char_digit :: "char \<Rightarrow> nat option" where
  "char_digit c = (let k = of_char c :: nat in if 48 \<le> k \<and> k \<le> 57 then Some (k - 48) else None)"

fun text_digits :: "bool \<Rightarrow> nat \<Rightarrow> string \<Rightarrow> nat option" where
  "text_digits after acc [] = (if after then Some acc else None)"
| "text_digits after acc (c # cs) =
     (case char_digit c of
        Some d \<Rightarrow> text_digits True (acc * 10 + d) cs
      | None \<Rightarrow> if c = CHR ''_'' \<and> after then text_digits False acc cs else None)"

definition is_blank :: "char \<Rightarrow> bool" where
  "is_blank c \<longleftrightarrow> (let k = of_char c :: nat in k = 32 \<or> 9 \<le> k \<and> k \<le> 13 \<or> 28 \<le> k \<and> k \<le> 31)"

definition strip_blanks :: "string \<Rightarrow> string" where
  "strip_blanks s = rev (dropWhile is_blank (rev (dropWhile is_blank s)))"

definition int_of_text :: "string \<Rightarrow> int res" where
  "int_of_text s =
     (let t = strip_blanks s in
      case (case t of
              c # cs \<Rightarrow> if c = CHR ''-'' then map_option (\<lambda>n. - int n) (text_digits False 0 cs)
                        else if c = CHR ''+'' then map_option int (text_digits False 0 cs)
                        else map_option int (text_digits False 0 t)
            | [] \<Rightarrow> None)
      of None \<Rightarrow> Inl PyValueError | Some i \<Rightarrow> Inr i)"

lemma char_digit_of: "(d :: nat) < 10 \<Longrightarrow> char_digit (char_of (48 + d)) = Some d"
  by (simp add: char_digit_def)

lemma text_digits_str_of_nat:
  "text_digits after acc (str_of_nat n @ cs) = text_digits True (acc * 10 ^ length (str_of_nat n) + n) cs"
proof (induction n arbitrary: after acc cs rule: str_of_nat.induct)
  case (1 n)
  show ?case
  proof (cases "n < 10")
    case True
    then show ?thesis
      by (subst (1 2) str_of_nat.simps) (simp add: char_digit_of)
  next
    case False
    have "str_of_nat n = str_of_nat (n div 10) @ [char_of (48 + n mod 10)]"
      using False by (subst str_of_nat.simps) simp
    then show ?thesis
      using 1 [OF False] by (simp add: char_digit_of algebra_simps)
  qed
qed

lemma str_of_nat_digits: "c \<in> set (str_of_nat n) \<Longrightarrow> \<exists>d < (10 :: nat). c = char_of (48 + d)"
proof (induction n rule: str_of_nat.induct)
  case (1 n)
  show ?case
  proof (cases "n < 10")
    case True
    then show ?thesis using "1.prems" by (subst (asm) str_of_nat.simps) auto
  next
    case False
    then have "c \<in> set (str_of_nat (n div 10)) \<or> c = char_of (48 + n mod 10)"
      using "1.prems" by (subst (asm) str_of_nat.simps) auto
    then show ?thesis
    proof
      assume "c \<in> set (str_of_nat (n div 10))"
      then show ?thesis by (rule "1.IH" [OF False])
    next
      assume "c = char_of (48 + n mod 10)"
      then show ?thesis by (intro exI [of _ "n mod 10"]) simp
    qed
  qed
qed

lemma str_of_nat_nonempty [simp]: "str_of_nat n \<noteq> []"
  by (subst str_of_nat.simps) simp

lemma digit_not_blank: "(d :: nat) < 10 \<Longrightarrow> \<not> is_blank (char_of (48 + d))"
  by (simp add: is_blank_def)

lemma strip_blanks_digits: "strip_blanks (str_of_nat n) = str_of_nat n"
proof -
  have nb: "\<not> is_blank c" if "c \<in> set (str_of_nat n)" for c
    using str_of_nat_digits [OF that] digit_not_blank by blast
  have 1: "dropWhile is_blank (str_of_nat n) = str_of_nat n"
    using nb by (cases "str_of_nat n") auto
  have "hd (rev (str_of_nat n)) \<in> set (str_of_nat n)"
    by (metis hd_in_set rev_is_Nil_conv set_rev str_of_nat_nonempty)
  then have 2: "dropWhile is_blank (rev (str_of_nat n)) = rev (str_of_nat n)"
    using nb by (simp add: dropWhile_eq_self_iff)
  show ?thesis
    unfolding strip_blanks_def 1 2 by simp
qed

lemma int_of_text_str [simp]: "int_of_text (str_of_nat n) = Inr (int n)"
proof -
  obtain c cs where s: "str_of_nat n = c # cs"
    by (cases "str_of_nat n") auto
  obtain d :: nat where d: "d < 10" "c = char_of (48 + d)"
    using str_of_nat_digits [of c n] s by auto
  have "(of_char c :: nat) = 48 + d"
    using d by simp
  then have "c \<noteq> CHR ''-''" "c \<noteq> CHR ''+''"
    by auto
  then show ?thesis
    using text_digits_str_of_nat [of False 0 n "[]"] strip_blanks_digits [of n]
    unfolding s int_of_text_def by (simp add: Let_def)
qed

section \<open>Joining and splitting\<close>

text \<open>\<open>sep.join(xs)\<close> and \<open>s.split(sep)\<close> for a one-character separator.\<close>

fun join_with :: "'a \<Rightarrow> 'a list list \<Rightarrow> 'a list" where
  "join_with sep [] = []"
| "join_with sep [x] = x"
| "join_with sep (x # y # xs) = x @ sep # join_with sep (y # xs)"

fun split_on :: "'a \<Rightarrow> 'a list \<Rightarrow> 'a list list" where
  "split_on sep [] = [[]]"
| "split_on sep (c # cs) =
     (if c = sep then [] # split_on sep cs
      else case split_on sep cs of [] \<Rightarrow> [[c]] | p # ps \<Rightarrow> (c # p) # ps)"

lemma split_on_nonempty [simp]: "split_on sep s \<noteq> []"
  by (induction s) (auto split: list.splits)

lemma split_on_plain: "sep \<notin> set x \<Longrightarrow> split_on sep x = [x]"
  by (induction x) auto

lemma split_on_append: "sep \<notin> set x \<Longrightarrow> split_on sep (x @ sep # s) = x # split_on sep s"
  by (induction x) auto

lemma split_join:
  "xs \<noteq> [] \<Longrightarrow> \<forall>x \<in> set xs. sep \<notin> set x \<Longrightarrow> split_on sep (join_with sep xs) = xs"
  by (induction sep xs rule: join_with.induct) (auto simp: split_on_plain split_on_append)

lemma join_empty: "\<forall>x \<in> set xs. x \<noteq> [] \<Longrightarrow> join_with sep xs = [] \<longleftrightarrow> xs = []"
  by (induction sep xs rule: join_with.induct) auto

section \<open>Slices\<close>

text \<open>\<open>xs[i:]\<close> and \<open>xs[:n]\<close> for non-negative bounds.\<close>

lemma drop_take_window: "take n (drop i xs) = drop i (take (i + n) xs)"
  by (simp add: drop_take)

lemma filter_prefix_take:
  "n \<le> length xs \<Longrightarrow> take n (xs @ ys) = take n xs"
  by simp

end
