(* ===== verification/Values.thy ===== *)
theory Values
  imports Prelude "HOL-Library.Word" "HOL-Library.Product_Lexorder"
begin

text \<open>
  The Python values a store handles, live and decoded, with Python's \<open>==\<close>, hashing and ordering.

  \<^item> \<open>pyval\<close>: one constructor per type the engine distinguishes. \<open>PEnt\<close> is a live entity (its
    address), \<open>PLazy\<close> a \<open>Lazy\<close> handle (identity, \<open>_oid\<close>, target), \<open>PHandle\<close> a \<open>BlobHandle\<close>,
    \<open>PSource\<close> a \<open>BlobSource\<close> with the chunks of its two read passes, \<open>PRef\<close> and \<open>PBlobTok\<close> the
    decoded \<open>RefToken\<close> and \<open>BlobToken\<close>. Floats are the finite doubles, as rationals; a Decimal is
    its (sign, coefficient, exponent) triple or NaN; an aware datetime is its UTC instant, a naive
    one its wall-clock instant, both in microseconds.
  \<^item> \<open>key\<close>: a hashable value up to \<open>==\<close>, which is what a dict key or a set element is. Python's
    \<open>1 == 1.0 == True == Decimal(1)\<close> is one key \<open>KNum 1\<close>. Tuples are not used as keys.
  \<^item> \<open>py_eq\<close>, \<open>py_lt\<close>, \<open>py_le\<close>: the comparison operators, \<open>TypeError\<close> included.
\<close>

section \<open>Values\<close>

type_synonym bytes = "8 word list"

datatype decimal = DecFinite bool nat int | DecNaN

datatype pyval =
    PNone | PBool bool | PInt int | PFloat rat | PStr string | PBytes bytes
  | PDec decimal | PDate int | PTime bool int | PDateTime bool int
  | PRef nat | PBlobTok nat nat bytes
  | PEnt nat | PLazy nat "nat option" "nat option"
  | PHandle nat nat bytes | PSource nat "bytes list" "bytes list"
  | PDataclass nat | PExt int bytes
  | PSet "pyval list" | PTuple "pyval list" | PList "pyval list"
  | PDict "(pyval \<times> pyval) list"

fun dec_value :: "decimal \<Rightarrow> rat option" where
  "dec_value (DecFinite neg c e) = Some ((if neg then -1 else 1) * of_nat c * 10 powi e)"
| "dec_value DecNaN = None"

text \<open>The numeric tower: bool, int, float and Decimal compare by value.\<close>

fun num_of :: "pyval \<Rightarrow> rat option" where
  "num_of (PBool b) = Some (if b then 1 else 0)"
| "num_of (PInt i) = Some (of_int i)"
| "num_of (PFloat r) = Some r"
| "num_of (PDec d) = dec_value d"
| "num_of _ = None"

section \<open>Keys: hashable values up to equality\<close>

datatype key =
    KNone | KNum rat | KStr string | KBytes bytes | KDate int
  | KTime bool int | KDateTime bool int
  | KRef nat | KBlob nat | KEnt nat | KObj nat | KNaN

fun key_of :: "pyval \<Rightarrow> key option" where
  "key_of PNone = Some KNone"
| "key_of (PBool b) = Some (KNum (if b then 1 else 0))"
| "key_of (PInt i) = Some (KNum (of_int i))"
| "key_of (PFloat r) = Some (KNum r)"
| "key_of (PStr s) = Some (KStr s)"
| "key_of (PBytes b) = Some (KBytes b)"
| "key_of (PDec d) = Some (case dec_value d of None \<Rightarrow> KNaN | Some r \<Rightarrow> KNum r)"
| "key_of (PDate d) = Some (KDate d)"
| "key_of (PTime a t) = Some (KTime a t)"
| "key_of (PDateTime a t) = Some (KDateTime a t)"
| "key_of (PRef oid) = Some (KRef oid)"
| "key_of (PBlobTok oid n h) = Some (KBlob oid)"
| "key_of (PEnt a) = Some (KEnt a)"
| "key_of (PLazy i oid tgt) = Some (KObj i)"
| "key_of _ = None"

text \<open>
  The kinds that are mutually orderable; a naive and an aware datetime are of different kinds.
\<close>

fun kind_of :: "key \<Rightarrow> nat" where
  "kind_of KNone = 0"
| "kind_of (KNum _) = 1"
| "kind_of (KStr _) = 2"
| "kind_of (KBytes _) = 3"
| "kind_of (KDate _) = 4"
| "kind_of (KTime a _) = (if a then 6 else 5)"
| "kind_of (KDateTime a _) = (if a then 8 else 7)"
| "kind_of (KRef _) = 9"
| "kind_of (KBlob _) = 10"
| "kind_of (KEnt _) = 11"
| "kind_of (KObj _) = 12"
| "kind_of KNaN = 13"

definition orderable :: "key \<Rightarrow> bool" where
  "orderable k \<longleftrightarrow> 1 \<le> kind_of k \<and> kind_of k \<le> 8"

definition comparable :: "key \<Rightarrow> key \<Rightarrow> bool" where
  "comparable a b \<longleftrightarrow> kind_of a = kind_of b \<and> orderable a"

text \<open>Within one kind this is Python's order; across kinds it only serves to make it total.\<close>

fun key_num :: "key \<Rightarrow> rat" where
  "key_num (KNum r) = r"
| "key_num (KDate d) = of_int d"
| "key_num (KTime a t) = of_int t"
| "key_num (KDateTime a t) = of_int t"
| "key_num (KRef n) = of_nat n"
| "key_num (KBlob n) = of_nat n"
| "key_num (KEnt n) = of_nat n"
| "key_num (KObj n) = of_nat n"
| "key_num _ = 0"

fun key_text :: "key \<Rightarrow> string" where
  "key_text (KStr s) = s"
| "key_text _ = []"

fun key_bytes :: "key \<Rightarrow> bytes" where
  "key_bytes (KBytes b) = b"
| "key_bytes _ = []"

definition key_rank :: "key \<Rightarrow> nat \<times> rat \<times> string \<times> bytes" where
  "key_rank k = (kind_of k, key_num k, key_text k, key_bytes k)"

lemma key_rank_inj: "key_rank a = key_rank b \<Longrightarrow> a = b"
  by (cases a; cases b) (auto simp: key_rank_def split: if_splits)

instantiation key :: linorder
begin

definition less_eq_key :: "key \<Rightarrow> key \<Rightarrow> bool" where
  "a \<le> b \<longleftrightarrow> key_rank a \<le> key_rank b"

definition less_key :: "key \<Rightarrow> key \<Rightarrow> bool" where
  "a < b \<longleftrightarrow> key_rank a < key_rank b"

instance
proof
  fix x y z :: key
  show "(x < y) = (x \<le> y \<and> \<not> y \<le> x)"
    by (auto simp: less_eq_key_def less_key_def)
  show "x \<le> x"
    by (simp add: less_eq_key_def)
  show "x \<le> y \<Longrightarrow> y \<le> z \<Longrightarrow> x \<le> z"
    by (auto simp: less_eq_key_def)
  show "x \<le> y \<Longrightarrow> y \<le> x \<Longrightarrow> x = y"
    by (auto simp: less_eq_key_def intro: key_rank_inj)
  show "x \<le> y \<or> y \<le> x"
    by (auto simp: less_eq_key_def)
qed

end

lemma less_key_simps [simp]:
  "KNum a < KNum b \<longleftrightarrow> a < b"
  "KStr s < KStr t \<longleftrightarrow> s < t"
  "KNum a \<le> KNum b \<longleftrightarrow> a \<le> b"
  "KStr s \<le> KStr t \<longleftrightarrow> s \<le> t"
  "KDate d < KDate e \<longleftrightarrow> d < e"
  "KDate d \<le> KDate e \<longleftrightarrow> d \<le> e"
  by (auto simp: less_key_def less_eq_key_def key_rank_def less_prod_def less_eq_prod_def)

section \<open>Equality\<close>

definition scalar_eq :: "pyval \<Rightarrow> pyval \<Rightarrow> bool" where
  "scalar_eq a b =
     (case (num_of a, num_of b) of
        (Some x, Some y) \<Rightarrow> x = y
      | (None, None) \<Rightarrow>
          (case (a, b) of
             (PDec _, _) \<Rightarrow> False
           | (PBlobTok i _ _, PBlobTok j _ _) \<Rightarrow> i = j
           | (PLazy i _ _, PLazy j _ _) \<Rightarrow> i = j
           | _ \<Rightarrow> a = b)
      | _ \<Rightarrow> False)"

text \<open>Containers compare elementwise, dicts as sets of items.\<close>

definition dict_find :: "(pyval \<times> pyval) list \<Rightarrow> pyval \<Rightarrow> pyval option" where
  "dict_find d k = map_option snd (find (\<lambda>(k', _). scalar_eq k k') d)"

function (sequential) py_eq :: "pyval \<Rightarrow> pyval \<Rightarrow> bool"
  and py_eqs :: "pyval list \<Rightarrow> pyval list \<Rightarrow> bool"
  and py_items_in :: "(pyval \<times> pyval) list \<Rightarrow> (pyval \<times> pyval) list \<Rightarrow> bool" where
  "py_eq (PList xs) b = (case b of PList ys \<Rightarrow> py_eqs xs ys | _ \<Rightarrow> False)"
| "py_eq (PTuple xs) b = (case b of PTuple ys \<Rightarrow> py_eqs xs ys | _ \<Rightarrow> False)"
| "py_eq (PDict d) b =
     (case b of PDict e \<Rightarrow> length d = length e \<and> py_items_in d e | _ \<Rightarrow> False)"
| "py_eq a b = scalar_eq a b"
| "py_eqs [] ys = (ys = [])"
| "py_eqs (x # xs) ys = (case ys of [] \<Rightarrow> False | y # ys' \<Rightarrow> py_eq x y \<and> py_eqs xs ys')"
| "py_items_in [] e = True"
| "py_items_in (kv # d) e =
     ((case dict_find e (fst kv) of None \<Rightarrow> False | Some w \<Rightarrow> py_eq (snd kv) w) \<and> py_items_in d e)"
  by pat_completeness auto
termination
  by (relation "measure (\<lambda>x. case x of
        Inl (a, _) \<Rightarrow> size a
      | Inr (Inl (xs, _)) \<Rightarrow> size_list size xs
      | Inr (Inr (d, _)) \<Rightarrow> size_list (\<lambda>kv. size (fst kv) + size (snd kv) + 1) d)")
     (auto simp: size_prod_simp)

text \<open>For hashable values equality is equality of keys, except that NaN equals nothing.\<close>

lemma py_eq_key:
  assumes "key_of a = Some k" and "key_of b = Some l"
  shows "py_eq a b \<longleftrightarrow> k = l \<and> k \<noteq> KNaN"
  using assms
  by (cases a; cases b)
     (auto simp: scalar_eq_def split: if_splits option.splits elim!: dec_value.elims)

lemma py_eq_unhashable:
  assumes "key_of a = Some k" and "key_of b = None"
    and "b \<notin> range (\<lambda>(i, n, h). PHandle i n h)"
  shows "\<not> py_eq a b"
  using assms
  by (cases a; cases b) (auto simp: scalar_eq_def split: option.splits)

section \<open>Ordering\<close>

text \<open>
  \<open>order_key strict\<close> is \<open><\<close> or \<open><=\<close> on two hashable values; values of different kinds, or of a
  kind without an order, raise \<open>TypeError\<close>, and a Decimal NaN raises \<open>InvalidOperation\<close>.
\<close>

definition order_key :: "bool \<Rightarrow> key \<Rightarrow> key \<Rightarrow> bool res" where
  "order_key strict a b =
     (if a = KNaN \<and> (kind_of b = 1 \<or> b = KNaN) \<or> b = KNaN \<and> kind_of a = 1
      then Inl DecimalInvalidOperation
      else if comparable a b then Inr (if strict then a < b else a \<le> b)
      else Inl PyTypeError)"

function (sequential) py_order :: "bool \<Rightarrow> pyval \<Rightarrow> pyval \<Rightarrow> bool res"
  and py_orders :: "bool \<Rightarrow> pyval list \<Rightarrow> pyval list \<Rightarrow> bool res" where
  "py_order strict (PList xs) b =
     (case b of PList ys \<Rightarrow> py_orders strict xs ys | _ \<Rightarrow> Inl PyTypeError)"
| "py_order strict (PTuple xs) b =
     (case b of PTuple ys \<Rightarrow> py_orders strict xs ys | _ \<Rightarrow> Inl PyTypeError)"
| "py_order strict a b =
     (case (key_of a, key_of b) of
        (Some k, Some l) \<Rightarrow> order_key strict k l
      | _ \<Rightarrow> Inl PyTypeError)"
| "py_orders strict [] ys = Inr (strict \<longrightarrow> ys \<noteq> [])"
| "py_orders strict (x # xs) ys =
     (case ys of [] \<Rightarrow> Inr False
      | y # ys' \<Rightarrow> if py_eq x y then py_orders strict xs ys' else py_order strict x y)"
  by pat_completeness auto
termination
  by (relation "measure (\<lambda>x. case x of
        Inl (_, a, _) \<Rightarrow> size a
      | Inr (_, xs, _) \<Rightarrow> size_list size xs)") auto

definition py_lt :: "pyval \<Rightarrow> pyval \<Rightarrow> bool res" where
  "py_lt a b = py_order True a b"

definition py_le :: "pyval \<Rightarrow> pyval \<Rightarrow> bool res" where
  "py_le a b = py_order False a b"

lemma py_order_key:
  assumes "key_of a = Some k" and "key_of b = Some l"
  shows "py_order strict a b = order_key strict k l"
  using assms by (cases a) auto

lemma order_key_comparable [simp]:
  "comparable a b \<Longrightarrow> order_key strict a b = Inr (if strict then a < b else a \<le> b)"
  by (cases b) (auto simp: order_key_def comparable_def orderable_def split: if_splits)

lemma order_key_Inr:
  "order_key strict a b = Inr r \<longleftrightarrow> comparable a b \<and> r = (if strict then a < b else a \<le> b)"
  by (cases b) (auto simp: order_key_def comparable_def orderable_def split: if_splits)

lemma comparable_sym: "comparable a b \<longleftrightarrow> comparable b a"
  by (auto simp: comparable_def orderable_def)

lemma comparable_trans: "comparable a b \<Longrightarrow> comparable b c \<Longrightarrow> comparable a c"
  by (auto simp: comparable_def)

lemma comparable_not_special: "comparable a b \<Longrightarrow> a \<noteq> KNone \<and> a \<noteq> KNaN \<and> b \<noteq> KNone \<and> b \<noteq> KNaN"
  by (auto simp: comparable_def orderable_def)

section \<open>Sorting keys\<close>

text \<open>
  \<open>sorted(keys)\<close> on at least two keys compares across every pair of kinds that occur, so it raises
  exactly when the keys are not of one orderable kind.
\<close>

definition homogeneous :: "key list \<Rightarrow> bool" where
  "homogeneous ks \<longleftrightarrow> (case ks of [] \<Rightarrow> True | k # ks' \<Rightarrow> ks' = [] \<or> (\<forall>l \<in> set ks'. comparable k l))"

lemma homogeneousD:
  "homogeneous ks \<Longrightarrow> a \<in> set ks \<Longrightarrow> b \<in> set ks \<Longrightarrow> a \<noteq> b \<Longrightarrow> comparable a b"
  by (cases ks) (auto simp: homogeneous_def, (metis comparable_sym comparable_trans)+)

text \<open>The first offending comparison decides which exception surfaces: NaN among numbers or a kind mix.\<close>

definition py_sorted :: "key list \<Rightarrow> key list res" where
  "py_sorted ks =
     (if homogeneous ks then Inr (sort ks)
      else if \<forall>k \<in> set ks. kind_of k = 1 \<or> k = KNaN then Inl DecimalInvalidOperation
      else Inl PyTypeError)"

lemma py_sorted_Inr: "py_sorted ks = Inr rs \<longleftrightarrow> homogeneous ks \<and> rs = sort ks"
  by (auto simp: py_sorted_def)

end
