(* ===== verification/Ids.thy ===== *)
theory Ids
  imports Prelude
begin

text \<open>
  \<open>_ids.py\<close> (the partitioned id space and its allocator) and \<open>_state.py\<close> (entity lifecycle states
  and the dirty flip). Ids are unbounded Python ints that start positive, modelled as \<open>nat\<close>.
\<close>

section \<open>Id space\<close>

definition FORMAT_VERSION :: nat where "FORMAT_VERSION = 2"
definition CID_BASE :: nat where "CID_BASE = 1"
definition OID_BASE :: nat where "OID_BASE = 1099511627776"
definition TID_BASE :: nat where "TID_BASE = 1"

lemma OID_BASE_pow: "OID_BASE = 2 ^ 40"
  by (simp add: OID_BASE_def)

definition is_oid :: "nat \<Rightarrow> bool" where
  "is_oid v \<longleftrightarrow> v \<ge> OID_BASE"

definition is_cid :: "nat \<Rightarrow> bool" where
  "is_cid v \<longleftrightarrow> CID_BASE \<le> v \<and> v < OID_BASE"

record id_alloc =
  next_oid_of :: nat
  next_cid_of :: nat
  next_tid_of :: nat

definition fresh_alloc :: id_alloc where
  "fresh_alloc = \<lparr>next_oid_of = OID_BASE, next_cid_of = CID_BASE, next_tid_of = TID_BASE\<rparr>"

definition next_oid :: "id_alloc \<Rightarrow> nat \<times> id_alloc" where
  "next_oid a = (next_oid_of a, a\<lparr>next_oid_of := next_oid_of a + 1\<rparr>)"

definition next_cid :: "id_alloc \<Rightarrow> nat \<times> id_alloc" where
  "next_cid a = (next_cid_of a, a\<lparr>next_cid_of := next_cid_of a + 1\<rparr>)"

definition next_tid :: "id_alloc \<Rightarrow> nat \<times> id_alloc" where
  "next_tid a = (next_tid_of a, a\<lparr>next_tid_of := next_tid_of a + 1\<rparr>)"

datatype id_request = WantOid | WantCid | WantTid

fun alloc_run :: "id_alloc \<Rightarrow> id_request list \<Rightarrow> (id_request \<times> nat) list \<times> id_alloc" where
  "alloc_run a [] = ([], a)"
| "alloc_run a (r # rs) =
     (let (v, a') = (case r of WantOid \<Rightarrow> next_oid a | WantCid \<Rightarrow> next_cid a | WantTid \<Rightarrow> next_tid a);
          (vs, a'') = alloc_run a' rs
      in ((r, v) # vs, a''))"

definition watermark_of :: "id_alloc \<Rightarrow> id_request \<Rightarrow> nat" where
  "watermark_of a r =
     (case r of WantOid \<Rightarrow> next_oid_of a | WantCid \<Rightarrow> next_cid_of a | WantTid \<Rightarrow> next_tid_of a)"

lemma alloc_run_ge:
  "(r, v) \<in> set (fst (alloc_run a rs)) \<Longrightarrow>
     watermark_of a r \<le> v \<and> v < watermark_of (snd (alloc_run a rs)) r"
proof (induction rs arbitrary: a)
  case Nil
  then show ?case by simp
next
  case (Cons q rs)
  define a' where "a' = snd (case q of WantOid \<Rightarrow> next_oid a | WantCid \<Rightarrow> next_cid a | WantTid \<Rightarrow> next_tid a)"
  have mono: "watermark_of b s \<le> watermark_of (snd (alloc_run b qs)) s" for b s qs
  proof (induction qs arbitrary: b)
    case Nil
    then show ?case by simp
  next
    case (Cons t qs)
    show ?case
      using Cons [of "snd (case t of WantOid \<Rightarrow> next_oid b | WantCid \<Rightarrow> next_cid b | WantTid \<Rightarrow> next_tid b)"]
      by (cases t; cases s)
         (auto simp: next_oid_def next_cid_def next_tid_def watermark_of_def Let_def split: prod.splits)
  qed
  have step: "watermark_of a s \<le> watermark_of a' s" for s
    by (cases q; cases s) (auto simp: a'_def next_oid_def next_cid_def next_tid_def watermark_of_def)
  have run: "snd (alloc_run a (q # rs)) = snd (alloc_run a' rs)"
    by (cases q) (auto simp: a'_def Let_def split: prod.splits)
  from Cons.prems consider "(r, v) \<in> set (fst (alloc_run a' rs))"
    | "r = q" "v = watermark_of a q" "v < watermark_of a' q"
    by (cases q) (auto simp: a'_def Let_def next_oid_def next_cid_def next_tid_def watermark_of_def
        split: prod.splits)
  then show ?case
  proof cases
    case 1
    from Cons.IH [OF this] step [of r] run show ?thesis by auto
  next
    case 2
    then show ?thesis using mono [of a' q rs] run by auto
  qed
qed

lemma alloc_run_distinct: "distinct (fst (alloc_run a rs))"
proof (induction rs arbitrary: a)
  case Nil
  then show ?case by simp
next
  case (Cons q rs)
  define p where "p = (case q of WantOid \<Rightarrow> next_oid a | WantCid \<Rightarrow> next_cid a | WantTid \<Rightarrow> next_tid a)"
  have lt: "fst p < watermark_of (snd p) q"
    by (cases q) (auto simp: p_def next_oid_def next_cid_def next_tid_def watermark_of_def)
  have "(q, fst p) \<notin> set (fst (alloc_run (snd p) rs))"
    using alloc_run_ge [of q "fst p" "snd p" rs] lt by auto
  moreover have "fst (alloc_run a (q # rs)) = (q, fst p) # fst (alloc_run (snd p) rs)"
    by (auto simp: p_def Let_def split: prod.splits)
  ultimately show ?case using Cons [of "snd p"] by simp
qed

section \<open>Entity lifecycle\<close>

datatype estate = STATE_NEW | STATE_CLEAN | STATE_DIRTY | STATE_DELETED

text \<open>
  \<open>touch\<close> runs before a mutation lands. \<open>first_write\<close> is what \<open>store._on_first_write\<close> does for a
  CLEAN entity: nothing, or the thread or closed-store refusal (\<open>Inr ()\<close> when the store is gone).
\<close>

definition touch :: "unit res \<Rightarrow> estate \<Rightarrow> estate res" where
  "touch first_write st =
     (if st = STATE_DELETED then Inl DeletedEntityError
      else if st = STATE_CLEAN then bind_res first_write (\<lambda>_. Inr STATE_DIRTY)
      else Inr st)"

lemma touch_Inr: "touch fw st = Inr st' \<Longrightarrow> st \<noteq> STATE_DELETED \<and> (st' = STATE_NEW \<or> st' = STATE_DIRTY)"
  by (cases st) (auto simp: touch_def bind_res_Inr)

lemma touch_idem: "touch fw st = Inr st' \<Longrightarrow> touch fw' st' = Inr st'"
  by (drule touch_Inr) (auto simp: touch_def)

end
