(* ===== verification/Permissions.thy ===== *)
theory Permissions
  imports Values Ids
begin

text \<open>
  \<open>_permissions.py\<close> and the principal of \<open>_actors.py\<close>: the ladder, the label verbs \<open>share\<close>,
  \<open>unshare\<close>, \<open>protect\<close>, and the normative predicates of ADR-008 that the commit gate, the
  readable-set compiler and every read surface share.
\<close>

section \<open>Ladder, labels, principals\<close>

definition WORLD :: int where "WORLD = 0"
definition NO_STANDING :: int where "NO_STANDING = -1"
definition VIEWER :: int where "VIEWER = 0"
definition AGENT :: int where "AGENT = 100"
definition AUTOMATION :: int where "AUTOMATION = 200"
definition STAFF :: int where "STAFF = 300"
definition CURATOR :: int where "CURATOR = 400"
definition ADMIN :: int where "ADMIN = 500"
definition EXECUTIVE :: int where "EXECUTIVE = 600"

lemmas ladder_defs = WORLD_def NO_STANDING_def VIEWER_def AGENT_def AUTOMATION_def STAFF_def
  CURATOR_def ADMIN_def EXECUTIVE_def

record principal =
  uid :: int
  memberships :: "(int, int) dict"

text \<open>The four \<open>_dc_\<close> columns of a protected record (\<open>Permissions\<close>, \<open>_Labels\<close>).\<close>

record labels =
  lb_owner :: int
  lb_groups :: "int list"
  lb_read :: int
  lb_write :: int

definition PERM_FIELDS :: "string list" where
  "PERM_FIELDS = [''_dc_owner'', ''_dc_groups'', ''_dc_read_floor'', ''_dc_write_floor'']"

definition legacy_labels :: labels where
  "legacy_labels = \<lparr>lb_owner = 0, lb_groups = [WORLD], lb_read = VIEWER, lb_write = ADMIN\<rparr>"

definition birth_defaults :: labels where
  "birth_defaults = \<lparr>lb_owner = 0, lb_groups = [], lb_read = VIEWER, lb_write = VIEWER\<rparr>"

definition root_principal :: "int \<Rightarrow> (int, int) dict option \<Rightarrow> principal" where
  "root_principal u ms =
     \<lparr>uid = u, memberships = AList.update WORLD EXECUTIVE (case ms of None \<Rightarrow> [] | Some m \<Rightarrow> m)\<rparr>"

section \<open>The normative predicates\<close>

definition level :: "principal \<Rightarrow> int \<Rightarrow> int" where
  "level p g = dict_getd (memberships p) g (if g = WORLD then VIEWER else NO_STANDING)"

definition is_owner :: "principal \<Rightarrow> int \<Rightarrow> bool" where
  "is_owner p owner \<longleftrightarrow> uid p \<noteq> 0 \<and> owner = uid p"

text \<open>\<open>max(xs, default=d)\<close>\<close>

definition py_max :: "int list \<Rightarrow> int \<Rightarrow> int" where
  "py_max xs d = (case xs of [] \<Rightarrow> d | x # ys \<Rightarrow> fold max ys x)"

definition authority_towards :: "principal \<Rightarrow> int \<Rightarrow> int list \<Rightarrow> int" where
  "authority_towards p owner groups =
     (let levels = map (level p) groups;
          levels' = (if is_owner p owner \<and> levels = []
                     then levels @ [py_max (map snd (memberships p)) VIEWER] else levels)
      in py_max levels' NO_STANDING)"

definition is_root :: "principal \<Rightarrow> bool" where
  "is_root p \<longleftrightarrow> uid p \<noteq> 0 \<and> dict_getd (memberships p) WORLD VIEWER \<ge> EXECUTIVE"

definition can_read_row :: "principal \<Rightarrow> int \<Rightarrow> int list \<Rightarrow> int \<Rightarrow> bool" where
  "can_read_row p owner groups read_floor =
     (if is_root p then True
      else is_owner p owner \<or> authority_towards p owner groups \<ge> read_floor)"

section \<open>Label verbs\<close>

text \<open>
  What a verb is applied to: an entity instance, a snapshot view, or anything else. The entity
  carries its class flags, its lifecycle state and its label columns.
\<close>

datatype rec_kind = RecEntity | RecView | RecOther

record staged_rec =
  sr_kind :: rec_kind
  sr_protected :: bool
  sr_frozen :: bool
  sr_state :: estate
  sr_labels :: labels

definition staged_check :: "staged_rec \<Rightarrow> unit res" where
  "staged_check r =
     (if sr_kind r \<noteq> RecEntity
      then (if sr_kind r = RecView then Inl PyAttributeError else Inl NotAnEntityError)
      else if \<not> sr_protected r then Inl PyTypeError
      else if sr_frozen r then Inl FrozenEntityError
      else Inr ())"

definition check_level :: "pyval \<Rightarrow> int res" where
  "check_level v =
     (case v of PInt n \<Rightarrow> if n < VIEWER then Inl PyValueError else Inr n | _ \<Rightarrow> Inl PyTypeError)"

definition check_group :: "pyval \<Rightarrow> int res" where
  "check_group v = (case v of PInt n \<Rightarrow> Inr n | _ \<Rightarrow> Inl PyTypeError)"

text \<open>A label column write goes through the entity hook: touch, then the mutation.\<close>

definition set_labels :: "unit res \<Rightarrow> (labels \<Rightarrow> labels) \<Rightarrow> staged_rec \<Rightarrow> staged_rec res" where
  "set_labels fw f r =
     bind_res (touch fw (sr_state r)) (\<lambda>st. Inr (r\<lparr>sr_state := st, sr_labels := f (sr_labels r)\<rparr>))"

definition share :: "unit res \<Rightarrow> staged_rec \<Rightarrow> pyval \<Rightarrow> pyval \<Rightarrow> pyval \<Rightarrow> staged_rec res" where
  "share fw r grp read write =
     bind_res (staged_check r) (\<lambda>_.
     bind_res (check_group grp) (\<lambda>g.
     bind_res (check_level read) (\<lambda>rl.
     bind_res (check_level write) (\<lambda>wl.
     bind_res (set_labels fw (\<lambda>l. l\<lparr>lb_read := rl\<rparr>) r) (\<lambda>r1.
     bind_res (set_labels fw (\<lambda>l. l\<lparr>lb_write := wl\<rparr>) r1) (\<lambda>r2.
       if g \<notin> set (lb_groups (sr_labels r2))
       then set_labels fw (\<lambda>l. l\<lparr>lb_groups := lb_groups l @ [g]\<rparr>) r2
       else Inr r2))))))"

definition unshare :: "unit res \<Rightarrow> staged_rec \<Rightarrow> pyval \<Rightarrow> staged_rec res" where
  "unshare fw r grp =
     bind_res (staged_check r) (\<lambda>_.
     bind_res (check_group grp) (\<lambda>g.
       if g \<in> set (lb_groups (sr_labels r))
       then set_labels fw (\<lambda>l. l\<lparr>lb_groups := remove1 g (lb_groups l)\<rparr>) r
       else Inr r))"

definition protect :: "unit res \<Rightarrow> staged_rec \<Rightarrow> pyval option \<Rightarrow> pyval option \<Rightarrow> staged_rec res" where
  "protect fw r read write =
     bind_res (staged_check r) (\<lambda>_.
       if read = None \<and> write = None then Inl PyTypeError
       else
       bind_res (case read of None \<Rightarrow> Inr None | Some v \<Rightarrow> map_sum id Some (check_level v)) (\<lambda>rl.
       bind_res (case write of None \<Rightarrow> Inr None | Some v \<Rightarrow> map_sum id Some (check_level v)) (\<lambda>wl.
       bind_res (case rl of None \<Rightarrow> Inr r | Some n \<Rightarrow> set_labels fw (\<lambda>l. l\<lparr>lb_read := n\<rparr>) r) (\<lambda>r1.
         case wl of None \<Rightarrow> Inr r1 | Some n \<Rightarrow> set_labels fw (\<lambda>l. l\<lparr>lb_write := n\<rparr>) r1))))"

section \<open>Facts about the predicates\<close>

lemma py_max_Cons [simp]: "py_max (x # xs) d = (if xs = [] then x else max x (py_max xs d))"
proof -
  have swap: "fold max ys (max a b) = max a (fold max ys b)" for ys :: "int list" and a b
    by (induction ys arbitrary: b) (auto, metis max.left_commute)
  have "fold max ys (max y x) = max x (fold max ys y)" for ys y
    using swap [of ys x y] by (simp add: max.commute)
  then show ?thesis
    by (cases xs) (auto simp: py_max_def)
qed

lemma py_max_Nil [simp]: "py_max [] d = d"
  by (simp add: py_max_def)

lemma py_max_ge: "n \<le> py_max xs d \<longleftrightarrow> (if xs = [] then n \<le> d else (\<exists>x \<in> set xs. n \<le> x))"
  by (induction xs) (auto simp: le_max_iff_disj)

lemma NO_STANDING_le_level_floor: "level p g \<ge> NO_STANDING \<or> g \<in> dom (dict_get (memberships p))"
  by (auto simp: level_def dict_getd_def ladder_defs split: option.splits)

text \<open>Authority clears a floor when some shared group does, or the unshared owner's best does.\<close>

lemma authority_ge:
  "f \<le> authority_towards p owner groups \<longleftrightarrow>
     (if groups \<noteq> [] then \<exists>g \<in> set groups. f \<le> level p g
      else if is_owner p owner then f \<le> py_max (map snd (memberships p)) VIEWER
      else f \<le> NO_STANDING)"
  by (auto simp: authority_towards_def py_max_ge)

lemma can_read_row_root: "is_root p \<Longrightarrow> can_read_row p owner groups fl"
  by (simp add: can_read_row_def)

lemma can_read_row_owner: "is_owner p owner \<Longrightarrow> can_read_row p owner groups fl"
  by (simp add: can_read_row_def)

lemma can_read_row_other:
  "\<not> is_root p \<Longrightarrow> \<not> is_owner p owner \<Longrightarrow>
     can_read_row p owner groups fl \<longleftrightarrow>
       (if groups = [] then fl \<le> NO_STANDING else \<exists>g \<in> set groups. fl \<le> level p g)"
  by (simp add: can_read_row_def authority_ge)

lemma root_principal_is_root: "is_root (root_principal u ms) \<longleftrightarrow> u \<noteq> 0"
  by (simp add: is_root_def root_principal_def)

lemma anonymous_not_root: "uid p = 0 \<Longrightarrow> \<not> is_root p"
  by (simp add: is_root_def)

lemma anonymous_owns_nothing: "uid p = 0 \<Longrightarrow> \<not> is_owner p owner"
  by (simp add: is_owner_def)

section \<open>Facts about the verbs\<close>

lemma set_labels_Inr:
  "set_labels fw f r = Inr r' \<longleftrightarrow>
     (\<exists>st. touch fw (sr_state r) = Inr st \<and> r' = r\<lparr>sr_state := st, sr_labels := f (sr_labels r)\<rparr>)"
  by (auto simp: set_labels_def bind_res_Inr)

lemma check_level_Inr: "check_level v = Inr n \<longleftrightarrow> v = PInt n \<and> VIEWER \<le> n"
  by (cases v) (auto simp: check_level_def)

lemma check_group_Inr: "check_group v = Inr n \<longleftrightarrow> v = PInt n"
  by (cases v) (auto simp: check_group_def)

lemma share_Inr:
  assumes "share fw r grp read write = Inr r'"
  shows "\<exists>g rl wl. grp = PInt g \<and> read = PInt rl \<and> write = PInt wl \<and> VIEWER \<le> rl \<and> VIEWER \<le> wl \<and>
           sr_state r \<noteq> STATE_DELETED \<and> sr_state r' \<in> {STATE_NEW, STATE_DIRTY} \<and>
           sr_labels r' = (sr_labels r)\<lparr>lb_read := rl, lb_write := wl, lb_groups :=
             (if g \<in> set (lb_groups (sr_labels r)) then lb_groups (sr_labels r)
              else lb_groups (sr_labels r) @ [g])\<rparr>"
proof -
  from assms obtain g rl wl r1 r2 where
    v: "grp = PInt g" "read = PInt rl" "write = PInt wl" "VIEWER \<le> rl" "VIEWER \<le> wl" and
    r1: "set_labels fw (\<lambda>l. l\<lparr>lb_read := rl\<rparr>) r = Inr r1" and
    r2: "set_labels fw (\<lambda>l. l\<lparr>lb_write := wl\<rparr>) r1 = Inr r2" and
    r3: "(if g \<notin> set (lb_groups (sr_labels r2))
          then set_labels fw (\<lambda>l. l\<lparr>lb_groups := lb_groups l @ [g]\<rparr>) r2 else Inr r2) = Inr r'"
    unfolding share_def by (auto simp: bind_res_Inr check_level_Inr check_group_Inr)
  from r1 obtain s1 where s1: "touch fw (sr_state r) = Inr s1"
    and r1': "r1 = r\<lparr>sr_state := s1, sr_labels := (sr_labels r)\<lparr>lb_read := rl\<rparr>\<rparr>"
    by (auto simp: set_labels_Inr)
  from r2 touch_idem [OF s1] r1' have r2': "r2 = r1\<lparr>sr_labels := (sr_labels r1)\<lparr>lb_write := wl\<rparr>\<rparr>"
    by (auto simp: set_labels_Inr)
  from r3 touch_idem [OF s1] r1' r2' have
    "r' = (if g \<notin> set (lb_groups (sr_labels r))
           then r2\<lparr>sr_labels := (sr_labels r2)\<lparr>lb_groups := lb_groups (sr_labels r2) @ [g]\<rparr>\<rparr> else r2)"
    by (auto simp: set_labels_Inr split: if_splits)
  with v s1 touch_Inr [OF s1] r1' r2' show ?thesis by auto
qed

lemma staged_check_Inr:
  "staged_check r = Inr u \<longleftrightarrow> sr_kind r = RecEntity \<and> sr_protected r \<and> \<not> sr_frozen r"
  by (auto simp: staged_check_def)

end
