(* ===== verification/Entity.thy ===== *)
theory Entity
  imports Permissions
begin

text \<open>
  \<open>_entity.py\<close>: field metadata harvested from type hints, the class metadata \<open>TypeInfo\<close>, and the
  injected permission columns. A type hint is a \<open>hint\<close> tree; \<open>typing.get_type_hints\<close> supplies the
  map from field names to hints. \<open>resolve_spec\<close> is the definition-time check of one field.
\<close>

section \<open>Hints and markers\<close>

type_synonym row = "(string, pyval) dict"

datatype marker =
    MIndex | MUnique | MSortedIndex | MBlob | MFullText "string option"
  | MRenamedFrom string | MGlue "row \<Rightarrow> pyval res" | MForeign

datatype container = CList | CTuple | CSet | CFrozenset | CDict

text \<open>
  \<open>HOther args\<close> is any other form: \<open>Any\<close>, \<open>object\<close>, a plain class, an unknown generic with its
  arguments. \<open>HEntity name protected\<close> is an entity class.
\<close>

datatype hint =
    HStr | HInt | HFloat | HBool | HBytes | HNoneType | HDatetime | HDate | HTime | HDecimal
  | HEntity string bool
  | HEllipsis
  | HAnnotated hint "marker list"
  | HLazy "hint list"
  | HUnion "hint list"
  | HContainer container "hint list"
  | HOther "hint list"

definition HAny :: hint where "HAny = HOther []"

text \<open>\<open>hint in _INDEXABLE_TYPES\<close>, \<open>hint in _REF_FREE_LEAVES\<close>\<close>

definition indexable_type :: "hint \<Rightarrow> bool" where
  "indexable_type h \<longleftrightarrow> (case h of HStr \<Rightarrow> True | HInt \<Rightarrow> True | HFloat \<Rightarrow> True | HBool \<Rightarrow> True
     | HDatetime \<Rightarrow> True | HDate \<Rightarrow> True | HDecimal \<Rightarrow> True | _ \<Rightarrow> False)"

definition ref_free_leaf :: "hint \<Rightarrow> bool" where
  "ref_free_leaf h \<longleftrightarrow> (case h of HStr \<Rightarrow> True | HInt \<Rightarrow> True | HFloat \<Rightarrow> True | HBool \<Rightarrow> True
     | HBytes \<Rightarrow> True | HDatetime \<Rightarrow> True | HDate \<Rightarrow> True | HTime \<Rightarrow> True | HDecimal \<Rightarrow> True
     | HNoneType \<Rightarrow> True | _ \<Rightarrow> False)"

definition is_none_type :: "hint \<Rightarrow> bool" where
  "is_none_type h \<longleftrightarrow> (case h of HNoneType \<Rightarrow> True | _ \<Rightarrow> False)"

definition is_decimal_type :: "hint \<Rightarrow> bool" where
  "is_decimal_type h \<longleftrightarrow> (case h of HDecimal \<Rightarrow> True | _ \<Rightarrow> False)"

definition is_bytes_type :: "hint \<Rightarrow> bool" where
  "is_bytes_type h \<longleftrightarrow> (case h of HBytes \<Rightarrow> True | _ \<Rightarrow> False)"

definition is_indexable :: "hint \<Rightarrow> bool" where
  "is_indexable h =
     (if indexable_type h then True
      else case h of
        HUnion args \<Rightarrow>
          (let args' = filter (\<lambda>a. \<not> is_none_type a) args
           in args' \<noteq> [] \<and> list_all indexable_type args')
      | _ \<Rightarrow> False)"

definition hint_is_decimal :: "hint \<Rightarrow> bool" where
  "hint_is_decimal h =
     (if is_decimal_type h then True
      else case h of
        HUnion args \<Rightarrow> (case filter (\<lambda>a. \<not> is_none_type a) args of [a] \<Rightarrow> is_decimal_type a | _ \<Rightarrow> False)
      | _ \<Rightarrow> False)"

definition is_bytes_or_optional :: "hint \<Rightarrow> bool" where
  "is_bytes_or_optional h =
     (if is_bytes_type h then True
      else case h of
        HUnion args \<Rightarrow> (case filter (\<lambda>a. \<not> is_none_type a) args of [a] \<Rightarrow> is_bytes_type a | _ \<Rightarrow> False)
      | _ \<Rightarrow> False)"

definition is_list_of_indexable :: "hint \<Rightarrow> bool" where
  "is_list_of_indexable h =
     (case h of HContainer CList [e] \<Rightarrow> indexable_type e | _ \<Rightarrow> False)"

definition is_list_of_scalar :: "hint \<Rightarrow> bool" where
  "is_list_of_scalar h =
     (case h of
        HUnion args \<Rightarrow>
          (case filter (\<lambda>a. \<not> is_none_type a) args of [a] \<Rightarrow> is_list_of_indexable a | _ \<Rightarrow> False)
      | _ \<Rightarrow> is_list_of_indexable h)"

text \<open>\<open>_strip_annotated\<close> unwraps nested \<open>Annotated\<close> and collects the markers, outermost first.\<close>

fun strip_annotated :: "hint \<Rightarrow> marker list \<Rightarrow> hint \<times> marker list" where
  "strip_annotated (HAnnotated h ms) acc = strip_annotated h (acc @ ms)"
| "strip_annotated h acc = (h, acc)"

text \<open>\<open>get_args\<close> of a hint that is neither \<open>Annotated\<close> nor \<open>Lazy\<close>.\<close>

fun contains_lazy :: "hint \<Rightarrow> bool" where
  "contains_lazy (HLazy args) = True"
| "contains_lazy (HAnnotated h ms) = contains_lazy h"
| "contains_lazy (HUnion args) = list_ex contains_lazy args"
| "contains_lazy (HContainer c args) = list_ex contains_lazy args"
| "contains_lazy (HOther args) = list_ex contains_lazy args"
| "contains_lazy _ = False"

fun may_hold_entity :: "hint \<Rightarrow> bool" where
  "may_hold_entity (HAnnotated h ms) = may_hold_entity h"
| "may_hold_entity (HContainer c args) =
     (let args' = filter (\<lambda>a. a \<noteq> HEllipsis) args
      in args' = [] \<or> list_ex may_hold_entity args')"
| "may_hold_entity (HUnion args) = list_ex may_hold_entity args"
| "may_hold_entity h = (\<not> ref_free_leaf h)"

text \<open>\<open>_check_r11_lazy_only\<close>: a direct reference to a protected class is refused outside \<open>Lazy\<close>.\<close>

fun check_r11_lazy_only :: "hint \<Rightarrow> unit res" where
  "check_r11_lazy_only (HAnnotated h ms) = check_r11_lazy_only h"
| "check_r11_lazy_only (HLazy args) = Inr ()"
| "check_r11_lazy_only (HContainer c args) =
     map_sum id (\<lambda>_. ()) (map_res check_r11_lazy_only (filter (\<lambda>a. a \<noteq> HEllipsis) args))"
| "check_r11_lazy_only (HUnion args) =
     map_sum id (\<lambda>_. ()) (map_res check_r11_lazy_only args)"
| "check_r11_lazy_only (HEntity name prot) = (if prot then Inl PyTypeError else Inr ())"
| "check_r11_lazy_only _ = Inr ()"

section \<open>Field markers and field specs\<close>

record field_markers =
  fm_indexed :: bool
  fm_unique :: bool
  fm_sorted :: bool
  fm_blob :: bool
  fm_fulltext :: "string option option"
  fm_renamed :: "string option"
  fm_glued :: "(row \<Rightarrow> pyval res) option"

fun fulltext_of :: "marker \<Rightarrow> string option option" where
  "fulltext_of (MFullText lang) = Some lang"
| "fulltext_of _ = None"

fun renamed_of :: "marker \<Rightarrow> string option" where
  "renamed_of (MRenamedFrom old) = Some old"
| "renamed_of _ = None"

fun glue_of :: "marker \<Rightarrow> (row \<Rightarrow> pyval res) option" where
  "glue_of (MGlue fn) = Some fn"
| "glue_of _ = None"

text \<open>\<open>next((m for m in markers if ...), None)\<close>\<close>

fun first_some :: "('a \<Rightarrow> 'b option) \<Rightarrow> 'a list \<Rightarrow> 'b option" where
  "first_some f [] = None"
| "first_some f (x # xs) = (case f x of None \<Rightarrow> first_some f xs | Some y \<Rightarrow> Some y)"

definition harvest_markers :: "marker list \<Rightarrow> field_markers" where
  "harvest_markers ms =
     \<lparr>fm_indexed = list_ex (\<lambda>m. case m of MIndex \<Rightarrow> True | _ \<Rightarrow> False) ms,
      fm_unique = list_ex (\<lambda>m. case m of MUnique \<Rightarrow> True | _ \<Rightarrow> False) ms,
      fm_sorted = list_ex (\<lambda>m. case m of MSortedIndex \<Rightarrow> True | _ \<Rightarrow> False) ms,
      fm_blob = list_ex (\<lambda>m. case m of MBlob \<Rightarrow> True | _ \<Rightarrow> False) ms,
      fm_fulltext = first_some fulltext_of ms,
      fm_renamed = first_some renamed_of ms,
      fm_glued = first_some glue_of ms\<rparr>"

definition any_index :: "field_markers \<Rightarrow> bool" where
  "any_index f \<longleftrightarrow> fm_indexed f \<or> fm_unique f \<or> fm_sorted f"

record fieldspec =
  fs_name :: string
  fs_lazy_refs :: bool
  fs_indexed :: bool
  fs_unique :: bool
  fs_fulltext :: bool
  fs_fulltext_language :: "string option"
  fs_multivalued :: bool
  fs_renamed_from :: "string option"
  fs_glue :: "(row \<Rightarrow> pyval res) option"
  fs_sorted :: bool
  fs_blob :: bool
  fs_entity_ref :: bool
  fs_decimal :: bool

definition check_blob_field :: "hint \<Rightarrow> field_markers \<Rightarrow> unit res" where
  "check_blob_field core f =
     (if \<not> is_bytes_or_optional core then Inl PyTypeError
      else if any_index f then Inl PyTypeError
      else if fm_fulltext f \<noteq> None \<or> fm_renamed f \<noteq> None \<or> fm_glued f \<noteq> None then Inl PyTypeError
      else Inr ())"

definition check_index_markers :: "hint \<Rightarrow> field_markers \<Rightarrow> bool \<Rightarrow> unit res" where
  "check_index_markers core f is_list =
     (if (fm_indexed f \<or> fm_unique f) \<and> \<not> (is_indexable core \<or> is_list) then Inl PyTypeError
      else if fm_sorted f \<and> \<not> is_indexable core then Inl PyTypeError
      else if fm_unique f \<and> is_list then Inl PyTypeError
      else Inr ())"

definition check_rename_and_glue :: "field_markers \<Rightarrow> unit res" where
  "check_rename_and_glue f =
     (if fm_renamed f \<noteq> None \<and> any_index f then Inl PyTypeError
      else if fm_glued f \<noteq> None \<and> any_index f then Inl PyTypeError
      else if fm_glued f \<noteq> None \<and> fm_renamed f \<noteq> None then Inl PyTypeError
      else Inr ())"

definition resolve_spec :: "string \<Rightarrow> hint \<Rightarrow> fieldspec res" where
  "resolve_spec name h =
     (let (core, markers) = strip_annotated h [] in
      bind_res (check_r11_lazy_only core) (\<lambda>_.
      let found = harvest_markers markers; is_list = is_list_of_scalar core in
      bind_res (if fm_blob found then check_blob_field core found else Inr ()) (\<lambda>_.
      bind_res (check_index_markers core found is_list) (\<lambda>_.
      bind_res (check_rename_and_glue found) (\<lambda>_.
      Inr \<lparr>fs_name = name, fs_lazy_refs = contains_lazy core, fs_indexed = fm_indexed found,
           fs_unique = fm_unique found, fs_fulltext = (fm_fulltext found \<noteq> None),
           fs_fulltext_language = (case fm_fulltext found of None \<Rightarrow> None | Some l \<Rightarrow> l),
           fs_multivalued = (fm_indexed found \<and> is_list),
           fs_renamed_from = fm_renamed found, fs_glue = fm_glued found,
           fs_sorted = fm_sorted found, fs_blob = fm_blob found,
           fs_entity_ref = may_hold_entity core, fs_decimal = hint_is_decimal core\<rparr>)))))"

definition resolve_specs :: "(string, hint) dict \<Rightarrow> string list \<Rightarrow> fieldspec list res" where
  "resolve_specs hints field_names = map_res (\<lambda>n. resolve_spec n (dict_getd hints n HAny)) field_names"

section \<open>Class metadata\<close>

record typeinfo =
  ti_name :: string
  ti_field_names :: "string list"
  ti_frozen :: bool
  ti_protected :: bool
  ti_specs :: "fieldspec list"
  ti_defaults :: row

text \<open>The dict of \<open>TypeInfo.spec\<close>: a later field of the same name would win.\<close>

definition ti_spec :: "typeinfo \<Rightarrow> string \<Rightarrow> fieldspec option" where
  "ti_spec ti name = find (\<lambda>s. fs_name s = name) (rev (ti_specs ti))"

definition data_field_names :: "typeinfo \<Rightarrow> string list" where
  "data_field_names ti =
     (if \<not> ti_protected ti then ti_field_names ti
      else filter (\<lambda>n. n \<notin> set PERM_FIELDS) (ti_field_names ti))"

definition has_entity_refs :: "typeinfo \<Rightarrow> bool" where
  "has_entity_refs ti = list_ex fs_entity_ref (ti_specs ti)"

definition indexed_fields :: "typeinfo \<Rightarrow> fieldspec list" where
  "indexed_fields ti = filter (\<lambda>s. fs_indexed s \<or> fs_unique s \<or> fs_sorted s) (ti_specs ti)"

text \<open>
  \<open>_check_reserved\<close> and \<open>_inject_perm_columns\<close>: \<open>annotations\<close> are the class's own annotations in
  declaration order, \<open>inherited\<close> the fields a dataclass parent brings in front of them.
\<close>

definition check_reserved :: "string \<Rightarrow> unit res" where
  "check_reserved name =
     (if take 4 name = ''_dc_'' \<or> name = ''dc_permissions'' then Inl PyTypeError else Inr ())"

definition perm_hints :: "(string, hint) dict" where
  "perm_hints =
     [(''_dc_owner'', HAnnotated HInt [MIndex]),
      (''_dc_groups'', HAnnotated (HContainer CList [HInt]) [MIndex]),
      (''_dc_read_floor'', HAnnotated HInt [MSortedIndex]),
      (''_dc_write_floor'', HInt)]"

definition perm_defaults :: row where
  "perm_defaults =
     [(''_dc_owner'', PInt 0), (''_dc_groups'', PList []),
      (''_dc_read_floor'', PInt VIEWER), (''_dc_write_floor'', PInt VIEWER)]"

definition inject_perm_columns :: "(string, hint) dict \<Rightarrow> (string, hint) dict" where
  "inject_perm_columns annotations = fold (\<lambda>(n, h). AList.update n h) perm_hints annotations"

definition make_entity ::
  "string \<Rightarrow> bool \<Rightarrow> (string, hint) dict \<Rightarrow> (string, hint) dict \<Rightarrow> row \<Rightarrow> bool \<Rightarrow> bool \<Rightarrow> bool \<Rightarrow>
     typeinfo res" where
  "make_entity typename already inherited annotations defaults has_dc_permissions frozen protected =
     (if already then Inl PyTypeError else
     bind_res (map_res check_reserved (dict_keys annotations)) (\<lambda>_.
     if has_dc_permissions then Inl PyTypeError
     else
     let annotations' = (if protected then inject_perm_columns annotations else annotations);
         hints = fold (\<lambda>(n, h). AList.update n h) annotations' inherited;
         field_names = dict_keys hints;
         injected = (if protected then PERM_FIELDS else []) in
     bind_res (map_res check_reserved (filter (\<lambda>n. n \<notin> set injected) field_names)) (\<lambda>_.
     bind_res (resolve_specs hints field_names) (\<lambda>specs.
     Inr \<lparr>ti_name = typename, ti_field_names = field_names, ti_frozen = frozen,
          ti_protected = protected, ti_specs = specs,
          ti_defaults = (if protected then fold (\<lambda>(n, v). AList.update n v) perm_defaults defaults
                         else defaults)\<rparr>))))"

section \<open>What an accepted field guarantees\<close>

lemma map_res_unit: "map_sum id (\<lambda>_. ()) (map_res f xs) = Inr u \<longleftrightarrow> (\<forall>x \<in> set xs. \<exists>y. f x = Inr y)"
  by (induction xs) (auto split: sum.splits)

definition spec_wf :: "fieldspec \<Rightarrow> bool" where
  "spec_wf s \<longleftrightarrow>
     (fs_blob s \<longrightarrow> \<not> fs_indexed s \<and> \<not> fs_unique s \<and> \<not> fs_sorted s \<and>
        fs_renamed_from s = None \<and> fs_glue s = None \<and> \<not> fs_fulltext s) \<and>
     (fs_multivalued s \<longrightarrow> fs_indexed s \<and> \<not> fs_unique s \<and> \<not> fs_sorted s) \<and>
     (fs_renamed_from s \<noteq> None \<or> fs_glue s \<noteq> None \<longrightarrow>
        \<not> fs_indexed s \<and> \<not> fs_unique s \<and> \<not> fs_sorted s) \<and>
     \<not> (fs_renamed_from s \<noteq> None \<and> fs_glue s \<noteq> None)"

lemma list_of_indexable_shape: "is_list_of_indexable a \<Longrightarrow> \<exists>e. a = HContainer CList [e]"
  by (cases a) (auto simp: is_list_of_indexable_def split: container.splits list.splits)

lemma list_of_scalar_not_indexable: "is_list_of_scalar h \<Longrightarrow> \<not> is_indexable h"
proof (cases h)
  case (HUnion args)
  assume "is_list_of_scalar h"
  with HUnion obtain a where a: "filter (\<lambda>a. \<not> is_none_type a) args = [a]" "is_list_of_indexable a"
    by (auto simp: is_list_of_scalar_def split: list.splits)
  then have "\<not> indexable_type a"
    using list_of_indexable_shape [of a] by (auto simp: indexable_type_def)
  with HUnion a show ?thesis by (simp add: is_indexable_def indexable_type_def)
qed (simp_all add: is_list_of_scalar_def is_list_of_indexable_def is_indexable_def indexable_type_def)

lemma check_index_markers_Inr:
  "check_index_markers core f il = Inr u \<longleftrightarrow>
     (fm_indexed f \<or> fm_unique f \<longrightarrow> is_indexable core \<or> il) \<and>
     (fm_sorted f \<longrightarrow> is_indexable core) \<and> \<not> (fm_unique f \<and> il)"
  by (auto simp: check_index_markers_def)

lemma check_rename_and_glue_Inr:
  "check_rename_and_glue f = Inr u \<longleftrightarrow>
     (fm_renamed f \<noteq> None \<or> fm_glued f \<noteq> None \<longrightarrow> \<not> any_index f) \<and>
     (fm_glued f = None \<or> fm_renamed f = None)"
  unfolding check_rename_and_glue_def by (cases "fm_renamed f"; cases "fm_glued f") simp_all

lemma check_blob_field_Inr:
  "check_blob_field core f = Inr u \<longleftrightarrow>
     is_bytes_or_optional core \<and> \<not> any_index f \<and>
     fm_fulltext f = None \<and> fm_renamed f = None \<and> fm_glued f = None"
  unfolding check_blob_field_def by simp

lemma resolve_spec_Inr:
  assumes "resolve_spec name h = Inr s"
  shows "fs_name s = name" and "spec_wf s"
    and "fs_entity_ref s = may_hold_entity (fst (strip_annotated h []))"
    and "fs_lazy_refs s = contains_lazy (fst (strip_annotated h []))"
    and "check_r11_lazy_only (fst (strip_annotated h [])) = Inr ()"
proof -
  define core where "core = fst (strip_annotated h [])"
  define f where "f = harvest_markers (snd (strip_annotated h []))"
  define il where "il = is_list_of_scalar core"
  from assms have
    r11: "check_r11_lazy_only core = Inr ()" and
    blob: "fm_blob f \<Longrightarrow> check_blob_field core f = Inr ()" and
    idx: "check_index_markers core f il = Inr ()" and
    ren: "check_rename_and_glue f = Inr ()" and
    s: "s = \<lparr>fs_name = name, fs_lazy_refs = contains_lazy core, fs_indexed = fm_indexed f,
           fs_unique = fm_unique f, fs_fulltext = (fm_fulltext f \<noteq> None),
           fs_fulltext_language = (case fm_fulltext f of None \<Rightarrow> None | Some l \<Rightarrow> l),
           fs_multivalued = (fm_indexed f \<and> il),
           fs_renamed_from = fm_renamed f, fs_glue = fm_glued f,
           fs_sorted = fm_sorted f, fs_blob = fm_blob f,
           fs_entity_ref = may_hold_entity core, fs_decimal = hint_is_decimal core\<rparr>"
    unfolding resolve_spec_def Let_def case_prod_beta core_def [symmetric] f_def [symmetric] il_def [symmetric]
    by (auto simp: bind_res_Inr split: if_splits)
  from s show "fs_name s = name" "fs_entity_ref s = may_hold_entity (fst (strip_annotated h []))"
    "fs_lazy_refs s = contains_lazy (fst (strip_annotated h []))"
    by (simp_all add: core_def)
  from r11 show "check_r11_lazy_only (fst (strip_annotated h [])) = Inr ()"
    by (simp add: core_def)
  have "il \<Longrightarrow> \<not> is_indexable core"
    by (simp add: il_def list_of_scalar_not_indexable)
  then show "spec_wf s"
    using blob idx ren s
    unfolding spec_wf_def check_index_markers_Inr check_rename_and_glue_Inr check_blob_field_Inr any_index_def
    by auto
qed

lemma resolve_specs_Inr:
  "resolve_specs hints names = Inr specs \<Longrightarrow> map fs_name specs = names \<and> list_all spec_wf specs"
proof (induction names arbitrary: specs)
  case Nil
  then show ?case by (simp add: resolve_specs_def)
next
  case (Cons n names)
  from Cons.prems obtain s ss where s: "resolve_spec n (dict_getd hints n HAny) = Inr s"
    and ss: "resolve_specs hints names = Inr ss" and specs: "specs = s # ss"
    by (auto simp: resolve_specs_def split: sum.splits)
  show ?case
    using Cons.IH [OF ss] resolve_spec_Inr [OF s] specs by simp
qed

definition typeinfo_wf :: "typeinfo \<Rightarrow> bool" where
  "typeinfo_wf ti \<longleftrightarrow> map fs_name (ti_specs ti) = ti_field_names ti \<and> distinct (ti_field_names ti) \<and>
     list_all spec_wf (ti_specs ti)"

lemma fold_update_keys_distinct:
  "distinct (dict_keys d) \<Longrightarrow> distinct (dict_keys (fold (\<lambda>(n, h). AList.update n h) xs d))"
  by (induction xs arbitrary: d) (auto simp: distinct_update)

lemma make_entity_wf:
  assumes "make_entity tn already inh anns defs hp frozen prot = Inr ti" and "distinct (dict_keys inh)"
  shows "typeinfo_wf ti" and "ti_protected ti = prot" and "ti_frozen ti = frozen"
  using assms resolve_specs_Inr
  by (auto simp: make_entity_def bind_res_Inr typeinfo_wf_def Let_def fold_update_keys_distinct
      split: if_splits)

end
