(* ===== verification/Conditions.thy ===== *)
theory Conditions
  imports Entity
begin

text \<open>
  \<open>_conditions.py\<close>: the condition AST with its composition rules, its evaluation on one row
  (attribute reads come from a dict, which is a live entity's fields or a decoded \<open>_RawView\<close>), the
  result window and the ordering helpers of \<open>query\<close>, \<open>pluck\<close> and the snapshot reads. The raw forms
  of \<open>_store.py\<close> (\<open>_raw_value\<close>, \<open>_raw_condition\<close>, \<open>_order_rows\<close>) are here too.
\<close>

section \<open>The condition AST\<close>

datatype cmp_op = OpEq | OpNe | OpLt | OpLe | OpGt | OpGe | OpIn | OpContains | OpStartswith

datatype cond =
    Pred string string cmp_op pyval
  | And "cond list"
  | Or "cond list"
  | Not cond

text \<open>A value that may or may not be a condition, as the operand of \<open>&\<close> and \<open>|\<close>.\<close>

datatype operand = OpCond cond | OpValue pyval

definition require_condition :: "operand \<Rightarrow> cond res" where
  "require_condition x = (case x of OpCond c \<Rightarrow> Inr c | OpValue v \<Rightarrow> Inl QueryError)"

fun flatten_and :: "cond \<Rightarrow> cond list" where
  "flatten_and (And ps) = ps"
| "flatten_and c = [c]"

fun flatten_or :: "cond \<Rightarrow> cond list" where
  "flatten_or (Or ps) = ps"
| "flatten_or c = [c]"

definition cond_and :: "cond \<Rightarrow> operand \<Rightarrow> cond res" where
  "cond_and c x = bind_res (require_condition x) (\<lambda>d. Inr (And (flatten_and c @ flatten_and d)))"

definition cond_or :: "cond \<Rightarrow> operand \<Rightarrow> cond res" where
  "cond_or c x = bind_res (require_condition x) (\<lambda>d. Inr (Or (flatten_or c @ flatten_or d)))"

fun collect_classes :: "cond \<Rightarrow> string set" where
  "collect_classes (Pred cls f op v) = {cls}"
| "collect_classes (And ps) = (\<Union>p \<in> set ps. collect_classes p)"
| "collect_classes (Or ps) = (\<Union>p \<in> set ps. collect_classes p)"
| "collect_classes (Not p) = collect_classes p"

definition entity_class :: "cond \<Rightarrow> string res" where
  "entity_class c =
     (if card (collect_classes c) \<noteq> 1 then Inl QueryError else Inr (the_elem (collect_classes c)))"

section \<open>Building predicates\<close>

definition is_float :: "pyval \<Rightarrow> bool" where
  "is_float v \<longleftrightarrow> (case v of PFloat r \<Rightarrow> True | _ \<Rightarrow> False)"

definition refuse_float_against_decimal :: "typeinfo \<Rightarrow> string \<Rightarrow> pyval \<Rightarrow> unit res" where
  "refuse_float_against_decimal ti field value =
     (let literals = (case value of PTuple vs \<Rightarrow> vs | _ \<Rightarrow> [value]) in
      if \<not> list_ex is_float literals then Inr ()
      else case ti_spec ti field of
        None \<Rightarrow> Inr ()
      | Some s \<Rightarrow> if fs_decimal s then Inl PyTypeError else Inr ())"

definition mk_pred :: "typeinfo \<Rightarrow> string \<Rightarrow> cmp_op \<Rightarrow> pyval \<Rightarrow> cond res" where
  "mk_pred ti field op value =
     bind_res (refuse_float_against_decimal ti field value) (\<lambda>_. Inr (Pred (ti_name ti) field op value))"

definition require_str :: "pyval \<Rightarrow> unit res" where
  "require_str v = (case v of PStr s \<Rightarrow> Inr () | _ \<Rightarrow> Inl QueryError)"

definition field_in :: "typeinfo \<Rightarrow> string \<Rightarrow> pyval list \<Rightarrow> cond res" where
  "field_in ti field values = mk_pred ti field OpIn (PTuple values)"

definition field_contains :: "typeinfo \<Rightarrow> string \<Rightarrow> pyval \<Rightarrow> cond res" where
  "field_contains ti field v = bind_res (require_str v) (\<lambda>_. mk_pred ti field OpContains v)"

definition field_startswith :: "typeinfo \<Rightarrow> string \<Rightarrow> pyval \<Rightarrow> cond res" where
  "field_startswith ti field v = bind_res (require_str v) (\<lambda>_. mk_pred ti field OpStartswith v)"

section \<open>Evaluation\<close>

definition get_attr :: "row \<Rightarrow> string \<Rightarrow> pyval res" where
  "get_attr r f = (case dict_get r f of None \<Rightarrow> Inl PyAttributeError | Some v \<Rightarrow> Inr v)"

fun str_prefix :: "string \<Rightarrow> string \<Rightarrow> bool" where
  "str_prefix [] s = True"
| "str_prefix (c # p) s = (case s of [] \<Rightarrow> False | d # s' \<Rightarrow> c = d \<and> str_prefix p s')"

fun str_infix :: "string \<Rightarrow> string \<Rightarrow> bool" where
  "str_infix needle [] = (needle = [])"
| "str_infix needle (c # s) = (str_prefix needle (c # s) \<or> str_infix needle s)"

definition pred_contains :: "pyval \<Rightarrow> pyval \<Rightarrow> bool res" where
  "pred_contains value actual =
     (case actual of
        PList xs \<Rightarrow> Inr (list_ex (\<lambda>x. py_eq x value) xs)
      | PTuple xs \<Rightarrow> Inr (list_ex (\<lambda>x. py_eq x value) xs)
      | PStr s \<Rightarrow> (case value of PStr needle \<Rightarrow> Inr (str_infix needle s) | _ \<Rightarrow> Inl PyTypeError)
      | _ \<Rightarrow> Inr False)"

definition pred_startswith :: "pyval \<Rightarrow> pyval \<Rightarrow> bool res" where
  "pred_startswith value actual =
     (case actual of
        PStr s \<Rightarrow> (case value of PStr p \<Rightarrow> Inr (str_prefix p s) | _ \<Rightarrow> Inl PyTypeError)
      | _ \<Rightarrow> Inr False)"

text \<open>Python maps \<open>a > b\<close> to the reflected \<open>b < a\<close> of these types.\<close>

definition pred_ordered :: "cmp_op \<Rightarrow> pyval \<Rightarrow> pyval \<Rightarrow> bool res" where
  "pred_ordered op value actual =
     (if actual = PNone \<or> value = PNone then Inr False
      else if op = OpLt then py_lt actual value
      else if op = OpLe then py_le actual value
      else if op = OpGt then py_lt value actual
      else py_le value actual)"

definition pred_in :: "pyval \<Rightarrow> pyval \<Rightarrow> bool res" where
  "pred_in value actual =
     (case value of PTuple vs \<Rightarrow> Inr (list_ex (\<lambda>v. py_eq v actual) vs) | _ \<Rightarrow> Inl PyTypeError)"

definition eval_pred :: "cmp_op \<Rightarrow> pyval \<Rightarrow> pyval \<Rightarrow> bool res" where
  "eval_pred op value actual =
     (if op = OpEq then Inr (py_eq actual value)
      else if op = OpNe then Inr (\<not> py_eq actual value)
      else if op = OpIn then pred_in value actual
      else if op = OpContains then pred_contains value actual
      else if op = OpStartswith then pred_startswith value actual
      else pred_ordered op value actual)"

fun evaluate :: "cond \<Rightarrow> row \<Rightarrow> bool res"
  and evaluate_all :: "cond list \<Rightarrow> row \<Rightarrow> bool res"
  and evaluate_any :: "cond list \<Rightarrow> row \<Rightarrow> bool res" where
  "evaluate (Pred cls f op v) r = bind_res (get_attr r f) (eval_pred op v)"
| "evaluate (And ps) r = evaluate_all ps r"
| "evaluate (Or ps) r = evaluate_any ps r"
| "evaluate (Not p) r = bind_res (evaluate p r) (\<lambda>b. Inr (\<not> b))"
| "evaluate_all [] r = Inr True"
| "evaluate_all (p # ps) r = bind_res (evaluate p r) (\<lambda>b. if b then evaluate_all ps r else Inr False)"
| "evaluate_any [] r = Inr False"
| "evaluate_any (p # ps) r = bind_res (evaluate p r) (\<lambda>b. if b then Inr True else evaluate_any ps r)"

section \<open>The result window\<close>

text \<open>\<open>limit\<close> and \<open>offset\<close> are checked by exact type, so a \<open>bool\<close> is refused too.\<close>

definition validate_window :: "pyval \<Rightarrow> pyval \<Rightarrow> (nat option \<times> nat) res" where
  "validate_window limit offset =
     (case offset of
        PInt i \<Rightarrow>
          if i < 0 then Inl PyValueError
          else (case limit of
                  PNone \<Rightarrow> Inr (None, nat i)
                | PInt n \<Rightarrow> if n < 0 then Inl PyValueError else Inr (Some (nat n), nat i)
                | _ \<Rightarrow> Inl PyTypeError)
      | _ \<Rightarrow> Inl PyTypeError)"

definition apply_window :: "'a list \<Rightarrow> nat option \<Rightarrow> nat \<Rightarrow> 'a list" where
  "apply_window xs limit offset =
     (let ys = (if offset \<noteq> 0 then drop offset xs else xs)
      in case limit of None \<Rightarrow> ys | Some n \<Rightarrow> take n ys)"

text \<open>\<open>itertools.islice(xs, start, stop)\<close>, one element at a time.\<close>

fun islice :: "'a list \<Rightarrow> nat \<Rightarrow> nat option \<Rightarrow> 'a list" where
  "islice [] start stop = []"
| "islice (x # xs) start stop =
     (if stop = Some 0 then []
      else case start of
        0 \<Rightarrow> x # islice xs 0 (map_option (\<lambda>n. n - 1) stop)
      | Suc i \<Rightarrow> islice xs i (map_option (\<lambda>n. n - 1) stop))"

definition window_iter :: "'a list \<Rightarrow> nat option \<Rightarrow> nat \<Rightarrow> 'a list" where
  "window_iter candidate limit offset =
     islice candidate offset (case limit of None \<Rightarrow> None | Some n \<Rightarrow> Some (offset + n))"

lemma islice_take_drop:
  "islice xs start stop = (case stop of None \<Rightarrow> drop start xs | Some n \<Rightarrow> drop start (take n xs))"
proof (induction xs arbitrary: start stop)
  case Nil
  then show ?case by (simp split: option.splits)
next
  case (Cons x xs)
  then show ?case
    by (cases start; cases stop) (auto simp: take_Cons' drop_Cons' split: nat.splits)
qed

lemma window_iter_apply: "window_iter xs limit offset = apply_window xs limit offset"
  by (cases limit) (auto simp: window_iter_def apply_window_def islice_take_drop drop_take)

section \<open>Ordering\<close>

text \<open>
  \<open>list.sort(key=..., reverse=...)\<close> is stable in both directions: a reversed sort keeps the original
  order of equal elements. It only uses \<open><\<close>, and raises what that raises.
\<close>

fun insort_vals :: "('a \<Rightarrow> pyval) \<Rightarrow> 'a \<Rightarrow> 'a list \<Rightarrow> 'a list res" where
  "insort_vals f x [] = Inr [x]"
| "insort_vals f x (y # ys) =
     bind_res (py_lt (f y) (f x)) (\<lambda>b.
       if b then bind_res (insort_vals f x ys) (\<lambda>zs. Inr (y # zs)) else Inr (x # y # ys))"

fun sort_asc :: "('a \<Rightarrow> pyval) \<Rightarrow> 'a list \<Rightarrow> 'a list res" where
  "sort_asc f [] = Inr []"
| "sort_asc f (x # xs) = bind_res (sort_asc f xs) (insort_vals f x)"

definition sort_vals :: "('a \<Rightarrow> pyval) \<Rightarrow> bool \<Rightarrow> 'a list \<Rightarrow> 'a list res" where
  "sort_vals f descending xs =
     (if descending then bind_res (sort_asc f (rev xs)) (\<lambda>ys. Inr (rev ys)) else sort_asc f xs)"

definition order_by_values :: "nat list \<Rightarrow> (nat \<Rightarrow> pyval) \<Rightarrow> bool \<Rightarrow> nat list res" where
  "order_by_values matched value_of descending =
     (let present = filter (\<lambda>oid. value_of oid \<noteq> PNone) matched;
          absent = filter (\<lambda>oid. value_of oid = PNone) matched
      in bind_res (sort_vals value_of descending present) (\<lambda>ys. Inr (ys @ absent)))"

text \<open>\<open>_order_rows\<close>: decoded \<open>(oid, row)\<close> pairs; \<open>row[field]\<close> of a missing field is a \<open>KeyError\<close>.\<close>

definition order_rows :: "(nat \<times> row) list \<Rightarrow> string \<Rightarrow> bool \<Rightarrow> (nat \<times> row) list res" where
  "order_rows rows field descending =
     (if list_ex (\<lambda>(_, r). dict_get r field = None) rows then Inl PyKeyError
      else
        let value_of = (\<lambda>(_, r). dict_getd r field PNone);
            present = filter (\<lambda>r. value_of r \<noteq> PNone) rows;
            absent = filter (\<lambda>r. value_of r = PNone) rows
        in bind_res (sort_vals value_of descending present) (\<lambda>ys. Inr (ys @ absent)))"

text \<open>The frozen \<open>order_by\<close> contract: \<open>(field, direction)\<close> or a bare field.\<close>

datatype order_item = ItField string string | ItValue pyval
datatype order_arg = OrderPair "order_item list" | OrderSingle order_item

definition order_name :: "order_item \<Rightarrow> string res" where
  "order_name it =
     (case it of ItField cls n \<Rightarrow> Inr n
      | ItValue v \<Rightarrow> (case v of PStr n \<Rightarrow> Inr n | _ \<Rightarrow> Inl QueryError))"

definition parse_order_by :: "order_arg \<Rightarrow> typeinfo \<Rightarrow> (string \<times> bool) res" where
  "parse_order_by order_by ti =
     bind_res
       (case order_by of
          OrderPair items \<Rightarrow> (case items of [f, d] \<Rightarrow> Inr (f, d) | _ \<Rightarrow> Inl QueryError)
        | OrderSingle f \<Rightarrow> Inr (f, ItValue (PStr ''asc'')))
       (\<lambda>(field_ref, direction).
     bind_res (order_name field_ref) (\<lambda>name.
       if name \<notin> set (ti_field_names ti) then Inl QueryError
       else if direction \<noteq> ItValue (PStr ''asc'') \<and> direction \<noteq> ItValue (PStr ''desc'')
       then Inl QueryError
       else if (case ti_spec ti name of None \<Rightarrow> False | Some s \<Rightarrow> fs_multivalued s) then Inl QueryError
       else Inr (name, direction = ItValue (PStr ''desc''))))"

section \<open>Decode-level conditions\<close>

text \<open>
  \<open>_raw_value\<close> maps an entity or \<open>Lazy\<close> literal to the \<open>RefToken\<close> it decodes to; \<open>oid_of a\<close> is the
  OID of the live entity at \<open>a\<close>.
\<close>

definition raw_value :: "(nat \<Rightarrow> nat option) \<Rightarrow> pyval \<Rightarrow> pyval res" where
  "raw_value oid_of v =
     (case v of
        PEnt a \<Rightarrow> (case oid_of a of None \<Rightarrow> Inl QueryError | Some oid \<Rightarrow> Inr (PRef oid))
      | PLazy i oid tgt \<Rightarrow>
          (case tgt of
             Some a \<Rightarrow> (case oid_of a of None \<Rightarrow> Inl QueryError | Some oid' \<Rightarrow> Inr (PRef oid'))
           | None \<Rightarrow> (case oid of None \<Rightarrow> Inl QueryError | Some oid' \<Rightarrow> Inr (PRef oid')))
      | _ \<Rightarrow> Inr v)"

fun raw_condition :: "(nat \<Rightarrow> nat option) \<Rightarrow> cond \<Rightarrow> cond res"
  and raw_conditions :: "(nat \<Rightarrow> nat option) \<Rightarrow> cond list \<Rightarrow> cond list res" where
  "raw_condition oid_of (Pred cls f op v) =
     (if op = OpIn then
        (case v of
           PTuple vs \<Rightarrow> bind_res (map_res (raw_value oid_of) vs) (\<lambda>ws. Inr (Pred cls f OpIn (PTuple ws)))
         | _ \<Rightarrow> Inl PyTypeError)
      else bind_res (raw_value oid_of v) (\<lambda>w. Inr (Pred cls f op w)))"
| "raw_condition oid_of (And ps) = bind_res (raw_conditions oid_of ps) (\<lambda>qs. Inr (And qs))"
| "raw_condition oid_of (Or ps) = bind_res (raw_conditions oid_of ps) (\<lambda>qs. Inr (Or qs))"
| "raw_condition oid_of (Not p) = bind_res (raw_condition oid_of p) (\<lambda>q. Inr (Not q))"
| "raw_conditions oid_of [] = Inr []"
| "raw_conditions oid_of (p # ps) =
     bind_res (raw_condition oid_of p) (\<lambda>q. bind_res (raw_conditions oid_of ps) (\<lambda>qs. Inr (q # qs)))"

section \<open>Sorting lemmas\<close>

text \<open>On hashable values of one orderable kind the sort is HOL's stable \<open>sort_key\<close>.\<close>

definition keyed :: "('a \<Rightarrow> pyval) \<Rightarrow> ('a \<Rightarrow> key) \<Rightarrow> 'a list \<Rightarrow> bool" where
  "keyed f g xs \<longleftrightarrow> (\<forall>x \<in> set xs. key_of (f x) = Some (g x))"

definition pairwise_comparable :: "('a \<Rightarrow> key) \<Rightarrow> 'a list \<Rightarrow> bool" where
  "pairwise_comparable g xs \<longleftrightarrow> length xs \<le> 1 \<or> (\<forall>x \<in> set xs. \<forall>y \<in> set xs. comparable (g x) (g y))"

lemma py_lt_keyed:
  "key_of a = Some k \<Longrightarrow> key_of b = Some l \<Longrightarrow> comparable k l \<Longrightarrow> py_lt a b = Inr (k < l)"
  by (simp add: py_lt_def py_order_key)

lemma insort_vals_key:
  assumes "keyed f g (x # xs)" and "\<forall>y \<in> set xs. comparable (g y) (g x)"
  shows "insort_vals f x xs = Inr (insort_key g x xs)"
  using assms
proof (induction xs)
  case Nil
  then show ?case by simp
next
  case (Cons y ys)
  have "py_lt (f y) (f x) = Inr (g y < g x)"
    using Cons.prems by (intro py_lt_keyed) (auto simp: keyed_def)
  then show ?case
    using Cons by (auto simp: keyed_def)
qed

lemma sort_asc_key:
  assumes "keyed f g xs" and "pairwise_comparable g xs"
  shows "sort_asc f xs = Inr (sort_key g xs)"
  using assms
proof (induction xs)
  case Nil
  then show ?case by simp
next
  case (Cons x xs)
  have "keyed f g xs" "pairwise_comparable g xs"
    using Cons.prems by (auto simp: keyed_def pairwise_comparable_def)
  then have IH: "sort_asc f xs = Inr (sort_key g xs)" by (rule Cons.IH)
  have "insort_vals f x (sort_key g xs) = Inr (insort_key g x (sort_key g xs))"
    using Cons.prems
    by (intro insort_vals_key) (auto simp: keyed_def pairwise_comparable_def)
  with IH show ?case by simp
qed

lemma sort_vals_key:
  assumes "keyed f g xs" and "pairwise_comparable g xs"
  shows "sort_vals f desc xs =
    Inr (if desc then rev (sort_key g (rev xs)) else sort_key g xs)"
proof -
  have "keyed f g (rev xs)" "pairwise_comparable g (rev xs)"
    using assms by (auto simp: keyed_def pairwise_comparable_def)
  then show ?thesis
    using assms by (simp add: sort_vals_def sort_asc_key)
qed

end
