(* ===== verification/Indexes.thy ===== *)
theory Indexes
  imports Conditions
begin

text \<open>
  \<open>_indexes.py\<close>, the index of one entity class: \<open>ClassIndexes\<close> with its incremental insert, un-index
  and remove, the bulk build, and the deferred rebuild of the un-index memory after a cache load.

  The invariant relates an index to the table it indexes, a partial map from OIDs to the indexed
  values: \<open>ci_rep ci tab\<close> says that the extent is the table's domain, that every posting is exactly
  the set of OIDs whose row has that key, that a sorted run is the strictly sorted list of the
  column's non-None keys, and that the un-index memory is the table itself unless it awaits a
  rebuild. \<open>uniq_rep\<close> says the same of the value-to-OID maps of \<open>Unique\<close> fields.
\<close>

section \<open>State\<close>

type_synonym column = "(key, bitmap) dict"
type_synonym holders = "(key, nat) dict"

record class_indexes =
  ci_extent :: bitmap
  ci_eq :: "(string, column) dict"
  ci_unique :: "(string, holders) dict"
  ci_list_fields :: "string list"
  ci_sorted_fields :: "string list"
  ci_sorted_keys :: "(string, key list) dict"
  ci_building :: bool
  ci_unique_fields :: "string list"
  ci_last_values :: "(nat, row) dict"
  ci_needs_lv_rebuild :: bool

definition new_class_indexes ::
  "string list \<Rightarrow> string list \<Rightarrow> string list \<Rightarrow> string list \<Rightarrow> class_indexes" where
  "new_class_indexes indexed_fs unique_fs list_fs sorted_fs =
     \<lparr>ci_extent = {},
      ci_eq = fold (\<lambda>f d. AList.update f [] d) indexed_fs [],
      ci_unique = fold (\<lambda>f d. AList.update f [] d) unique_fs [],
      ci_list_fields = list_fs, ci_sorted_fields = sorted_fs,
      ci_sorted_keys = fold (\<lambda>f d. AList.update f [] d) sorted_fs [],
      ci_building = False, ci_unique_fields = unique_fs,
      ci_last_values = [], ci_needs_lv_rebuild = False\<rparr>"

definition begin_bulk :: "class_indexes \<Rightarrow> class_indexes" where
  "begin_bulk ci = ci\<lparr>ci_building := True\<rparr>"

section \<open>Keys of a value\<close>

definition hash_key :: "pyval \<Rightarrow> key res" where
  "hash_key v = (case key_of v of None \<Rightarrow> Inl PyTypeError | Some k \<Rightarrow> Inr k)"

text \<open>\<open>set(value)\<close> of a multi-valued field.\<close>

definition elem_keys :: "pyval \<Rightarrow> key list res" where
  "elem_keys v =
     (case v of
        PList xs \<Rightarrow> bind_res (map_res hash_key xs) (\<lambda>ks. Inr (remdups ks))
      | PTuple xs \<Rightarrow> bind_res (map_res hash_key xs) (\<lambda>ks. Inr (remdups ks))
      | PStr s \<Rightarrow> Inr (remdups (map (\<lambda>c. KStr [c]) s))
      | _ \<Rightarrow> Inl PyTypeError)"

text \<open>A Python object that has the given key: what iterating a dict of postings yields back.\<close>

fun val_of_key :: "key \<Rightarrow> pyval" where
  "val_of_key KNone = PNone"
| "val_of_key (KNum r) = (if of_int \<lfloor>r\<rfloor> = r then PInt \<lfloor>r\<rfloor> else PFloat r)"
| "val_of_key (KStr s) = PStr s"
| "val_of_key (KBytes b) = PBytes b"
| "val_of_key (KDate d) = PDate d"
| "val_of_key (KTime a t) = PTime a t"
| "val_of_key (KDateTime a t) = PDateTime a t"
| "val_of_key (KRef n) = PRef n"
| "val_of_key (KBlob n) = PBlobTok n 0 []"
| "val_of_key (KEnt a) = PEnt a"
| "val_of_key (KObj i) = PLazy i None None"
| "val_of_key KNaN = PDec DecNaN"

lemma key_of_val_of_key [simp]: "key_of (val_of_key k) = Some k"
  by (cases k) auto

section \<open>Sorted runs\<close>

definition guard_temporal_comparable :: "key \<Rightarrow> key \<Rightarrow> unit res" where
  "guard_temporal_comparable new_key existing_key =
     (case (new_key, existing_key) of
        (KDateTime a s, KDateTime b t) \<Rightarrow> if a \<noteq> b then Inl MixedTemporalIndexError else Inr ()
      | _ \<Rightarrow> Inr ())"

definition sorted_run :: "key list \<Rightarrow> key list res" where
  "sorted_run ks =
     (case py_sorted ks of
        Inr run \<Rightarrow> Inr run
      | Inl e \<Rightarrow> (if e = PyTypeError then Inl MixedTemporalIndexError
                  else if e = DecimalInvalidOperation then Inl PyValueError else Inl e))"

text \<open>\<open>bisect.insort\<close> compares the new key with run members, so it raises iff they are not comparable.\<close>

definition py_insort :: "key list \<Rightarrow> key \<Rightarrow> key list res" where
  "py_insort run k =
     (if run = [] then Inr [k]
      else bind_res (order_key True k (hd run)) (\<lambda>_. Inr (insort k run)))"

definition derive_runs :: "class_indexes \<Rightarrow> class_indexes res" where
  "derive_runs ci =
     fold_res (\<lambda>f c.
       bind_res (sorted_run (filter (\<lambda>k. k \<noteq> KNone) (dict_keys (dict_getd (ci_eq c) f []))))
         (\<lambda>run. Inr (c\<lparr>ci_sorted_keys := AList.update f run (ci_sorted_keys c)\<rparr>)))
       (ci_sorted_fields ci) ci"

definition finalize_build :: "class_indexes \<Rightarrow> class_indexes res" where
  "finalize_build ci = bind_res (derive_runs ci) (\<lambda>c. Inr (c\<lparr>ci_building := False\<rparr>))"

section \<open>The un-index memory\<close>

definition lv_add_scalar :: "string \<Rightarrow> key \<Rightarrow> nat \<Rightarrow> (nat, row) dict \<Rightarrow> (nat, row) dict" where
  "lv_add_scalar f k oid lv =
     AList.update oid (AList.update f (val_of_key k) (dict_getd lv oid [])) lv"

definition lv_add_elem :: "string \<Rightarrow> key \<Rightarrow> nat \<Rightarrow> (nat, row) dict \<Rightarrow> (nat, row) dict" where
  "lv_add_elem f k oid lv =
     (let entry = dict_getd lv oid [] in
      AList.update oid
        (if k \<noteq> KNone
         then AList.update f
                (PList ((case dict_getd entry f (PList []) of PList vs \<Rightarrow> vs | _ \<Rightarrow> []) @ [val_of_key k])) entry
         else entry) lv)"

definition rebuild_last_values :: "class_indexes \<Rightarrow> class_indexes" where
  "rebuild_last_values ci =
     (let from_eq =
        fold (\<lambda>(f, col) lv.
          fold (\<lambda>(k, bm) lv.
            fold (\<lambda>oid lv.
              if f \<in> set (ci_list_fields ci) then lv_add_elem f k oid lv else lv_add_scalar f k oid lv)
              (bm_iter bm) lv) col lv) (ci_eq ci) [];
        from_unique =
        fold (\<lambda>f lv.
          if dict_get (ci_eq ci) f = None
          then fold (\<lambda>(k, oid) lv. lv_add_scalar f k oid lv) (dict_getd (ci_unique ci) f []) lv
          else lv) (ci_unique_fields ci) from_eq
      in ci\<lparr>ci_last_values := from_unique, ci_needs_lv_rebuild := False\<rparr>)"

definition ensure_last_values :: "class_indexes \<Rightarrow> class_indexes" where
  "ensure_last_values ci = (if ci_needs_lv_rebuild ci then rebuild_last_values ci else ci)"

text \<open>
  \<open>committed_labels\<close>: owner, groups and read floor from the memory; a row without the columns is a
  \<open>KeyError\<close>.
\<close>

fun int_of_val :: "pyval \<Rightarrow> int res" where
  "int_of_val (PInt i) = Inr i"
| "int_of_val (PBool b) = Inr (if b then 1 else 0)"
| "int_of_val _ = Inl PyTypeError"

definition label_groups :: "pyval option \<Rightarrow> int list res" where
  "label_groups v =
     (case v of
        None \<Rightarrow> Inr []
      | Some PNone \<Rightarrow> Inr []
      | Some (PList xs) \<Rightarrow> map_res int_of_val xs
      | Some _ \<Rightarrow> Inl PyTypeError)"

definition committed_labels ::
  "class_indexes \<Rightarrow> nat \<Rightarrow> ((int \<times> int list \<times> int) option \<times> class_indexes) res" where
  "committed_labels ci oid =
     (let ci' = ensure_last_values ci in
      case dict_get (ci_last_values ci') oid of
        None \<Rightarrow> Inr (None, ci')
      | Some r \<Rightarrow>
          (case (dict_get r ''_dc_owner'', dict_get r ''_dc_read_floor'') of
             (Some ov, Some fv) \<Rightarrow>
               bind_res (int_of_val ov) (\<lambda>owner.
               bind_res (label_groups (dict_get r ''_dc_groups'')) (\<lambda>groups.
               bind_res (int_of_val fv) (\<lambda>fl. Inr (Some (owner, groups, fl), ci'))))
           | _ \<Rightarrow> Inl PyKeyError))"

section \<open>Un-index, insert, remove\<close>

definition set_col :: "string \<Rightarrow> column \<Rightarrow> class_indexes \<Rightarrow> class_indexes" where
  "set_col f col ci = ci\<lparr>ci_eq := AList.update f col (ci_eq ci)\<rparr>"

definition unindex_field :: "nat \<Rightarrow> string \<times> pyval \<Rightarrow> class_indexes \<Rightarrow> class_indexes res" where
  "unindex_field oid fv ci =
     (let f = fst fv; value = snd fv in
      if f \<in> set (ci_list_fields ci) then
        (if value = PNone then Inr ci
         else case dict_get (ci_eq ci) f of
           None \<Rightarrow> Inl PyKeyError
         | Some col \<Rightarrow>
             bind_res (elem_keys value) (\<lambda>ks.
               Inr (set_col f (fold (\<lambda>k c. post_discard c k oid) ks col) ci)))
      else
        bind_res
          (case dict_get (ci_eq ci) f of
             None \<Rightarrow> Inr ci
           | Some col \<Rightarrow> bind_res (hash_key value) (\<lambda>k. Inr (set_col f (post_discard col k oid) ci)))
          (\<lambda>ci1.
        if f \<in> set (ci_unique_fields ci1) \<and> value \<noteq> PNone then
          (case dict_get (ci_unique ci1) f of
             None \<Rightarrow> Inl PyKeyError
           | Some holder \<Rightarrow>
               bind_res (hash_key value) (\<lambda>k.
                 Inr (if dict_get holder k = Some oid
                      then ci1\<lparr>ci_unique := AList.update f (AList.delete k holder) (ci_unique ci1)\<rparr>
                      else ci1)))
        else Inr ci1))"

definition unindex :: "nat \<Rightarrow> row \<Rightarrow> class_indexes \<Rightarrow> class_indexes res" where
  "unindex oid old ci = fold_res (unindex_field oid) old ci"

definition enter_sorted_run :: "string \<Rightarrow> pyval \<Rightarrow> key \<Rightarrow> class_indexes \<Rightarrow> class_indexes res" where
  "enter_sorted_run f value k ci =
     (if f \<notin> set (ci_sorted_fields ci) \<or> value = PNone \<or> ci_building ci then Inr ci
      else case dict_get (ci_sorted_keys ci) f of
        None \<Rightarrow> Inl PyKeyError
      | Some run \<Rightarrow>
          bind_res (if run \<noteq> [] then guard_temporal_comparable k (hd run) else Inr ()) (\<lambda>_.
          bind_res (py_insort run k) (\<lambda>run'.
            Inr (ci\<lparr>ci_sorted_keys := AList.update f run' (ci_sorted_keys ci)\<rparr>))))"

definition index_list_field :: "nat \<Rightarrow> string \<Rightarrow> pyval \<Rightarrow> class_indexes \<Rightarrow> class_indexes res" where
  "index_list_field oid f value ci =
     (if value = PNone then Inr ci
      else case dict_get (ci_eq ci) f of
        None \<Rightarrow> Inl PyKeyError
      | Some col \<Rightarrow>
          bind_res (elem_keys value) (\<lambda>ks.
            Inr (set_col f (fold (\<lambda>k c. post_add c k oid) ks col) ci)))"

definition index_scalar_field :: "nat \<Rightarrow> string \<Rightarrow> pyval \<Rightarrow> class_indexes \<Rightarrow> class_indexes res" where
  "index_scalar_field oid f value ci =
     bind_res
       (case dict_get (ci_eq ci) f of
          None \<Rightarrow> Inr ci
        | Some col \<Rightarrow>
            bind_res (hash_key value) (\<lambda>k.
            bind_res (if dict_get col k = None then enter_sorted_run f value k ci else Inr ci) (\<lambda>ci1.
              Inr (set_col f (post_add col k oid) ci1))))
       (\<lambda>ci2.
     if f \<in> set (ci_unique_fields ci2) \<and> value \<noteq> PNone then
       (case dict_get (ci_unique ci2) f of
          None \<Rightarrow> Inl PyKeyError
        | Some holder \<Rightarrow>
            bind_res (hash_key value) (\<lambda>k.
              Inr (ci2\<lparr>ci_unique := AList.update f (AList.update k oid holder) (ci_unique ci2)\<rparr>)))
     else Inr ci2)"

definition index_field :: "nat \<Rightarrow> string \<times> pyval \<Rightarrow> class_indexes \<Rightarrow> class_indexes res" where
  "index_field oid fv ci =
     (if fst fv \<in> set (ci_list_fields ci) then index_list_field oid (fst fv) (snd fv) ci
      else index_scalar_field oid (fst fv) (snd fv) ci)"

text \<open>The snapshot kept for the next un-index copies a list, so later in-place mutation cannot reach it.\<close>

definition copy_list :: "pyval \<Rightarrow> pyval" where
  "copy_list v = (case v of PTuple xs \<Rightarrow> PList xs | PStr s \<Rightarrow> PList (map (\<lambda>c. PStr [c]) s) | _ \<Rightarrow> v)"

definition lv_snapshot :: "class_indexes \<Rightarrow> row \<Rightarrow> row" where
  "lv_snapshot ci values = map (\<lambda>(f, v). (f, if f \<in> set (ci_list_fields ci) then copy_list v else v)) values"

definition pop_old :: "nat \<Rightarrow> class_indexes \<Rightarrow> class_indexes res" where
  "pop_old oid ci =
     (case dict_get (ci_last_values ci) oid of
        None \<Rightarrow> Inr ci
      | Some old \<Rightarrow>
          unindex oid old (ci\<lparr>ci_last_values := AList.delete oid (ci_last_values ci)\<rparr>))"

definition ci_insert :: "nat \<Rightarrow> row \<Rightarrow> class_indexes \<Rightarrow> class_indexes res" where
  "ci_insert oid values ci =
     bind_res (pop_old oid (ensure_last_values ci)) (\<lambda>ci1.
     bind_res (fold_res (index_field oid) values (ci1\<lparr>ci_extent := insert oid (ci_extent ci1)\<rparr>)) (\<lambda>ci2.
       Inr (ci2\<lparr>ci_last_values := AList.update oid (lv_snapshot ci2 values) (ci_last_values ci2)\<rparr>)))"

definition ci_remove :: "nat \<Rightarrow> class_indexes \<Rightarrow> class_indexes res" where
  "ci_remove oid ci =
     bind_res (pop_old oid (ensure_last_values ci)) (\<lambda>ci1.
       Inr (ci1\<lparr>ci_extent := ci_extent ci1 - {oid}\<rparr>))"

definition seal :: "class_indexes \<Rightarrow> class_indexes" where
  "seal ci = ci\<lparr>ci_last_values := [], ci_needs_lv_rebuild := False\<rparr>"

end
