(* ===== verification/Index_Inv.thy ===== *)
theory Index_Inv
  imports Indexes
begin

text \<open>
  The invariant of one class's index and its preservation by insert and remove: the incremental
  index is the index of the table it was fed.
\<close>

section \<open>Observations\<close>

definition col_of :: "class_indexes \<Rightarrow> string \<Rightarrow> column" where
  "col_of ci f = dict_getd (ci_eq ci) f []"

definition posting :: "class_indexes \<Rightarrow> string \<Rightarrow> key \<Rightarrow> bitmap" where
  "posting ci f k = dict_getd (col_of ci f) k {}"

definition col_keys :: "class_indexes \<Rightarrow> string \<Rightarrow> key set" where
  "col_keys ci f = dom (dict_get (col_of ci f))"

definition holder :: "class_indexes \<Rightarrow> string \<Rightarrow> key \<Rightarrow> nat option" where
  "holder ci f k = dict_get (dict_getd (ci_unique ci) f []) k"

definition run_of :: "class_indexes \<Rightarrow> string \<Rightarrow> key list" where
  "run_of ci f = dict_getd (ci_sorted_keys ci) f []"

definition field_keys :: "string list \<Rightarrow> string \<Rightarrow> pyval \<Rightarrow> key list res" where
  "field_keys ls f v =
     (if f \<in> set ls then (if v = PNone then Inr [] else elem_keys v)
      else bind_res (hash_key v) (\<lambda>k. Inr [k]))"

definition val_has_key :: "string list \<Rightarrow> string \<Rightarrow> pyval \<Rightarrow> key \<Rightarrow> bool" where
  "val_has_key ls f v k \<longleftrightarrow> (case field_keys ls f v of Inl e \<Rightarrow> False | Inr ks \<Rightarrow> k \<in> set ks)"

definition row_has_key :: "string list \<Rightarrow> row \<Rightarrow> string \<Rightarrow> key \<Rightarrow> bool" where
  "row_has_key ls r f k \<longleftrightarrow> (case dict_get r f of None \<Rightarrow> False | Some v \<Rightarrow> val_has_key ls f v k)"

definition row_holds :: "string list \<Rightarrow> string list \<Rightarrow> row \<Rightarrow> string \<Rightarrow> key \<Rightarrow> bool" where
  "row_holds us ls r f k \<longleftrightarrow>
     f \<in> set us \<and> f \<notin> set ls \<and> k \<noteq> KNone \<and> row_has_key ls r f k"

text \<open>The fields an operation never touches, and the columns it may only refill.\<close>

definition same_frame :: "class_indexes \<Rightarrow> class_indexes \<Rightarrow> bool" where
  "same_frame ci ci' \<longleftrightarrow>
     ci_list_fields ci' = ci_list_fields ci \<and> ci_sorted_fields ci' = ci_sorted_fields ci \<and>
     ci_building ci' = ci_building ci \<and> ci_unique_fields ci' = ci_unique_fields ci \<and>
     ci_last_values ci' = ci_last_values ci \<and> ci_needs_lv_rebuild ci' = ci_needs_lv_rebuild ci \<and>
     ci_extent ci' = ci_extent ci \<and>
     (\<forall>f. dict_get (ci_eq ci') f = None \<longleftrightarrow> dict_get (ci_eq ci) f = None) \<and>
     (\<forall>f. dict_get (ci_unique ci') f = None \<longleftrightarrow> dict_get (ci_unique ci) f = None) \<and>
     (\<forall>f. dict_get (ci_sorted_keys ci') f = None \<longleftrightarrow> dict_get (ci_sorted_keys ci) f = None)"

lemma same_frame_refl [simp, intro]: "same_frame ci ci"
  by (simp add: same_frame_def)

lemma same_frame_trans: "same_frame a b \<Longrightarrow> same_frame b c \<Longrightarrow> same_frame a c"
  by (simp add: same_frame_def)

lemma hash_key_None [simp]: "hash_key PNone = Inr KNone"
  by (simp add: hash_key_def)

lemma hash_key_KNone: "hash_key v = Inr KNone \<longleftrightarrow> v = PNone"
  by (cases v) (auto simp: hash_key_def split: option.splits)

lemma hash_key_None_iff: "hash_key v = Inr k \<Longrightarrow> v = PNone \<longleftrightarrow> k = KNone"
  by (metis hash_key_KNone hash_key_None sum.inject(2))

lemma set_col_simps [simp]:
  "col_of (set_col f c ci) g = (if g = f then c else col_of ci g)"
  "ci_unique (set_col f c ci) = ci_unique ci"
  "ci_sorted_keys (set_col f c ci) = ci_sorted_keys ci"
  "ci_unique_fields (set_col f c ci) = ci_unique_fields ci"
  "ci_list_fields (set_col f c ci) = ci_list_fields ci"
  by (simp_all add: set_col_def col_of_def)

lemma same_frame_set_col:
  "dict_get (ci_eq ci) f = Some c \<Longrightarrow> same_frame ci (set_col f c' ci)"
  by (auto simp: same_frame_def set_col_def)

lemma same_frame_unique:
  "dict_get (ci_unique ci) f = Some h \<Longrightarrow>
     same_frame ci (ci\<lparr>ci_unique := AList.update f h' (ci_unique ci)\<rparr>)"
  by (auto simp: same_frame_def)

lemma posting_set_col: "posting (set_col f c ci) g k = (if g = f then dict_getd c k {} else posting ci g k)"
  by (simp add: posting_def)

lemma col_keys_set_col: "col_keys (set_col f c ci) g = (if g = f then dom (dict_get c) else col_keys ci g)"
  by (simp add: col_keys_def)

lemma holder_set_col [simp]: "holder (set_col f c ci) = holder ci"
  by (simp add: holder_def fun_eq_iff)

lemma run_of_set_col [simp]: "run_of (set_col f c ci) = run_of ci"
  by (simp add: run_of_def fun_eq_iff)

lemma holder_update_unique:
  "holder (ci\<lparr>ci_unique := AList.update f h (ci_unique ci)\<rparr>) g k =
     (if g = f then dict_get h k else holder ci g k)"
  by (simp add: holder_def)

lemma posting_update_unique [simp]:
  "posting (ci\<lparr>ci_unique := u\<rparr>) = posting ci"
  "col_keys (ci\<lparr>ci_unique := u\<rparr>) = col_keys ci"
  "run_of (ci\<lparr>ci_unique := u\<rparr>) = run_of ci"
  "col_of (ci\<lparr>ci_unique := u\<rparr>) = col_of ci"
  by (simp_all add: posting_def col_keys_def run_of_def col_of_def fun_eq_iff)

lemma dom_post_add: "dom (dict_get (post_add c k oid)) = insert k (dom (dict_get c))"
  by (auto simp: post_add_def dom_def)

lemma dom_post_discard: "dom (dict_get (post_discard c k oid)) = dom (dict_get c)"
  by (auto simp: post_discard_def dom_def split: option.splits if_splits)

lemma fold_post_add_keys:
  "dom (dict_get (fold (\<lambda>k c. post_add c k oid) ks c)) = dom (dict_get c) \<union> set ks"
  by (induction ks arbitrary: c) (auto simp: dom_post_add)

lemma fold_post_discard_keys:
  "dom (dict_get (fold (\<lambda>k c. post_discard c k oid) ks c)) = dom (dict_get c)"
  by (induction ks arbitrary: c) (auto simp: dom_post_discard)

section \<open>One field\<close>

lemma col_of_Some: "dict_get (ci_eq ci) f = Some c \<Longrightarrow> col_of ci f = c"
  by (simp add: col_of_def dict_getd_def)

lemma col_of_None: "dict_get (ci_eq ci) f = None \<Longrightarrow> col_of ci f = []"
  by (simp add: col_of_def dict_getd_def)

lemma holder_Some: "dict_get (ci_unique ci) f = Some h \<Longrightarrow> holder ci f = dict_get h"
  by (simp add: holder_def dict_getd_def fun_eq_iff)

text \<open>Un-indexing a list field, the eq column of a scalar field, and its unique holder, one at a time.\<close>

definition discards :: "nat \<Rightarrow> string \<Rightarrow> (key \<Rightarrow> bool) \<Rightarrow> class_indexes \<Rightarrow> class_indexes \<Rightarrow> bool" where
  "discards oid f K ci ci' \<longleftrightarrow>
     same_frame ci ci' \<and> ci_sorted_keys ci' = ci_sorted_keys ci \<and>
     (\<forall>g. col_keys ci' g = col_keys ci g) \<and>
     (\<forall>g k. posting ci' g k = (if g = f \<and> K k then posting ci g k - {oid} else posting ci g k))"

lemma posting_no_col [simp]: "dict_get (ci_eq ci) f = None \<Longrightarrow> posting ci f k = {}"
  by (simp add: posting_def col_of_None dict_getd_def)

lemma unindex_list_effect:
  assumes "unindex_field oid (f, v) ci = Inr ci'" and "f \<in> set (ci_list_fields ci)"
  shows "discards oid f (val_has_key (ci_list_fields ci) f v) ci ci' \<and> ci_unique ci' = ci_unique ci"
proof (cases "v = PNone")
  case True
  with assms show ?thesis
    by (auto simp: unindex_field_def discards_def val_has_key_def field_keys_def)
next
  case False
  with assms obtain c ks where c: "dict_get (ci_eq ci) f = Some c" and ks: "elem_keys v = Inr ks"
    and ci': "ci' = set_col f (fold (\<lambda>k c. post_discard c k oid) ks c) ci"
    by (auto simp: unindex_field_def bind_res_Inr split: option.splits)
  have "val_has_key (ci_list_fields ci) f v = (\<lambda>k. k \<in> set ks)"
    using False assms(2) ks by (auto simp: val_has_key_def field_keys_def)
  then show ?thesis
    using c ci'
    by (auto simp: discards_def same_frame_set_col posting_set_col col_keys_set_col
        fold_post_discard_getd fold_post_discard_keys col_of_Some posting_def col_keys_def)
qed

lemma unindex_scalar_effect:
  assumes "unindex_field oid (f, v) ci = Inr ci'" and nl: "f \<notin> set (ci_list_fields ci)"
  obtains ci1 where
    "discards oid f (val_has_key (ci_list_fields ci) f v) ci ci1" and "ci_unique ci1 = ci_unique ci"
    and "if f \<in> set (ci_unique_fields ci) \<and> v \<noteq> PNone
         then \<exists>h k. dict_get (ci_unique ci) f = Some h \<and> hash_key v = Inr k \<and>
           ci' = (if dict_get h k = Some oid
                  then ci1\<lparr>ci_unique := AList.update f (AList.delete k h) (ci_unique ci)\<rparr> else ci1)
         else ci' = ci1"
proof -
  define step1 where "step1 = (case dict_get (ci_eq ci) f of
             None \<Rightarrow> Inr ci
           | Some col \<Rightarrow> bind_res (hash_key v) (\<lambda>k. Inr (set_col f (post_discard col k oid) ci)))"
  from assms obtain ci1 where s1: "step1 = Inr ci1" and
    s2: "(if f \<in> set (ci_unique_fields ci1) \<and> v \<noteq> PNone then
          (case dict_get (ci_unique ci1) f of
             None \<Rightarrow> Inl PyKeyError
           | Some hs \<Rightarrow>
               bind_res (hash_key v) (\<lambda>k.
                 Inr (if dict_get hs k = Some oid
                      then ci1\<lparr>ci_unique := AList.update f (AList.delete k hs) (ci_unique ci1)\<rparr>
                      else ci1)))
        else Inr ci1) = Inr ci'"
    unfolding unindex_field_def Let_def fst_conv snd_conv by (auto simp: step1_def bind_res_Inr)
  have eff: "discards oid f (val_has_key (ci_list_fields ci) f v) ci ci1 \<and> ci_unique ci1 = ci_unique ci
      \<and> ci_unique_fields ci1 = ci_unique_fields ci"
  proof (cases "dict_get (ci_eq ci) f")
    case None
    then show ?thesis using s1 by (auto simp: step1_def discards_def)
  next
    case (Some c)
    with s1 obtain k where k: "hash_key v = Inr k" and ci1: "ci1 = set_col f (post_discard c k oid) ci"
      by (auto simp: step1_def bind_res_Inr)
    have "val_has_key (ci_list_fields ci) f v = (\<lambda>k'. k' = k)"
      using nl k by (auto simp: val_has_key_def field_keys_def)
    then show ?thesis
      using Some ci1
      by (auto simp: discards_def same_frame_set_col posting_set_col col_keys_set_col
          dom_post_discard col_of_Some posting_def col_keys_def)
  qed
  show thesis
    by (rule that [of ci1])
       (use eff s2 in \<open>auto simp: bind_res_Inr split: if_splits option.splits\<close>)
qed

lemma unindex_field_effect:
  assumes "unindex_field oid (f, v) ci = Inr ci'"
  shows "discards oid f (val_has_key (ci_list_fields ci) f v) ci ci'"
    and "holder ci' g k =
      (if g = f \<and> row_holds (ci_unique_fields ci) (ci_list_fields ci) [(f, v)] f k \<and>
          holder ci g k = Some oid then None else holder ci g k)"
proof -
  have both: "discards oid f (val_has_key (ci_list_fields ci) f v) ci ci' \<and>
     (holder ci' g k =
      (if g = f \<and> row_holds (ci_unique_fields ci) (ci_list_fields ci) [(f, v)] f k \<and>
          holder ci g k = Some oid then None else holder ci g k))"
  proof (cases "f \<in> set (ci_list_fields ci)")
    case True
    then show ?thesis
      using unindex_list_effect [OF assms True] by (simp add: row_holds_def holder_def)
  next
    case False
    from assms False obtain ci1 where
      d: "discards oid f (val_has_key (ci_list_fields ci) f v) ci ci1" and u: "ci_unique ci1 = ci_unique ci"
      and r: "if f \<in> set (ci_unique_fields ci) \<and> v \<noteq> PNone
         then \<exists>h k. dict_get (ci_unique ci) f = Some h \<and> hash_key v = Inr k \<and>
           ci' = (if dict_get h k = Some oid
                  then ci1\<lparr>ci_unique := AList.update f (AList.delete k h) (ci_unique ci)\<rparr> else ci1)
         else ci' = ci1"
      by (rule unindex_scalar_effect)
    have h1: "holder ci1 = holder ci" by (simp add: holder_def u fun_eq_iff)
    show ?thesis
    proof (cases "f \<in> set (ci_unique_fields ci) \<and> v \<noteq> PNone")
      case False
      then have "\<not> row_holds (ci_unique_fields ci) (ci_list_fields ci) [(f, v)] f k"
        using \<open>f \<notin> set (ci_list_fields ci)\<close>
        by (auto simp: row_holds_def row_has_key_def val_has_key_def field_keys_def)
      with False r d h1 show ?thesis by auto
    next
      case True
      with r obtain h k0 where h: "dict_get (ci_unique ci) f = Some h" and k0: "hash_key v = Inr k0" and
        ci': "ci' = (if dict_get h k0 = Some oid
                  then ci1\<lparr>ci_unique := AList.update f (AList.delete k0 h) (ci_unique ci)\<rparr> else ci1)"
        by auto
      have "k0 \<noteq> KNone" using True hash_key_None_iff [OF k0] by simp
      then have rh: "row_holds (ci_unique_fields ci) (ci_list_fields ci) [(f, v)] f k \<longleftrightarrow> k = k0"
        using True k0 \<open>f \<notin> set (ci_list_fields ci)\<close>
        by (auto simp: row_holds_def row_has_key_def val_has_key_def field_keys_def)
      have h1': "dict_get (ci_unique ci1) f = Some h" using h u by simp
      have "discards oid f (val_has_key (ci_list_fields ci) f v) ci ci'"
        using d ci' same_frame_unique [OF h1', of "AList.delete k0 h"] u
        by (auto simp: discards_def intro: same_frame_trans)
      moreover have "holder ci' g k =
          (if g = f \<and> k = k0 \<and> holder ci g k = Some oid then None else holder ci g k)"
        using ci' h1 h u holder_Some [OF h] holder_update_unique [where ci = ci1 and f = f and h = "AList.delete k0 h" and g = g and k = k]
        by auto
      ultimately show ?thesis using rh by simp
    qed
  qed
  from both show "discards oid f (val_has_key (ci_list_fields ci) f v) ci ci'" by simp
  from both show "holder ci' g k =
      (if g = f \<and> row_holds (ci_unique_fields ci) (ci_list_fields ci) [(f, v)] f k \<and>
          holder ci g k = Some oid then None else holder ci g k)" by simp
qed

section \<open>Sorted runs\<close>

lemma homogeneous_set:
  "distinct xs \<Longrightarrow> homogeneous xs \<longleftrightarrow> (\<forall>a \<in> set xs. \<forall>b \<in> set xs. a \<noteq> b \<longrightarrow> comparable a b)"
proof (cases xs)
  case Nil
  then show ?thesis by (simp add: homogeneous_def)
next
  case (Cons x ys)
  assume d: "distinct xs"
  show ?thesis
  proof
    assume "homogeneous xs"
    then show "\<forall>a \<in> set xs. \<forall>b \<in> set xs. a \<noteq> b \<longrightarrow> comparable a b"
      by (auto intro: homogeneousD)
  next
    assume "\<forall>a \<in> set xs. \<forall>b \<in> set xs. a \<noteq> b \<longrightarrow> comparable a b"
    then show "homogeneous xs" using Cons d by (auto simp: homogeneous_def)
  qed
qed

lemma homogeneous_insort:
  assumes "distinct run" "homogeneous run" "k \<notin> set run" "run \<noteq> [] \<Longrightarrow> comparable k (hd run)"
  shows "homogeneous (insort k run)"
proof -
  have "comparable k b" if "b \<in> set run" for b
  proof -
    have "comparable k (hd run)" using that assms(4) by (cases run) auto
    moreover have "hd run = b \<or> comparable (hd run) b"
      using that assms(1,2) by (cases run) (auto intro: homogeneousD)
    ultimately show ?thesis by (auto intro: comparable_trans)
  qed
  moreover have "distinct (insort k run)" using assms by (simp add: distinct_insort)
  ultimately show ?thesis
    using assms(1,2) by (auto simp: homogeneous_set set_insort_key comparable_sym)
qed

definition run_ok :: "class_indexes \<Rightarrow> string \<Rightarrow> bool" where
  "run_ok ci f \<longleftrightarrow>
     set (run_of ci f) = col_keys ci f - {KNone} \<and> sorted (run_of ci f) \<and> distinct (run_of ci f) \<and>
     homogeneous (run_of ci f)"

definition runs_ok :: "class_indexes \<Rightarrow> bool" where
  "runs_ok ci \<longleftrightarrow> (\<forall>f \<in> set (ci_sorted_fields ci). run_ok ci f)"

lemma run_ok_cong:
  "run_of ci' f = run_of ci f \<Longrightarrow> col_keys ci' f = col_keys ci f \<Longrightarrow> run_ok ci' f = run_ok ci f"
  by (simp add: run_ok_def)

text \<open>The shape every index of a well-formed class has.\<close>

definition ci_shape :: "class_indexes \<Rightarrow> bool" where
  "ci_shape ci \<longleftrightarrow>
     (\<forall>f \<in> set (ci_sorted_fields ci). f \<notin> set (ci_list_fields ci) \<and>
        dict_get (ci_eq ci) f \<noteq> None \<and> dict_get (ci_sorted_keys ci) f \<noteq> None) \<and>
     (\<forall>f \<in> set (ci_list_fields ci). dict_get (ci_eq ci) f \<noteq> None \<and> f \<notin> set (ci_unique_fields ci)) \<and>
     (\<forall>f \<in> set (ci_unique_fields ci). dict_get (ci_unique ci) f \<noteq> None)"

lemma ci_shape_frame: "same_frame ci ci' \<Longrightarrow> ci_shape ci \<Longrightarrow> ci_shape ci'"
  by (auto simp: ci_shape_def same_frame_def)

lemma discards_runs_ok: "discards oid f K ci ci' \<Longrightarrow> runs_ok ci \<Longrightarrow> runs_ok ci'"
  by (auto simp: discards_def runs_ok_def same_frame_def run_ok_def run_of_def)

definition enters :: "string \<Rightarrow> key \<Rightarrow> class_indexes \<Rightarrow> class_indexes \<Rightarrow> bool" where
  "enters f k ci ci' \<longleftrightarrow>
     same_frame ci ci' \<and> ci_eq ci' = ci_eq ci \<and> ci_unique ci' = ci_unique ci \<and>
     (\<forall>g. g \<noteq> f \<longrightarrow> run_of ci' g = run_of ci g) \<and>
     (f \<in> set (ci_sorted_fields ci) \<and> \<not> ci_building ci \<and> k \<noteq> KNone \<longrightarrow>
        run_of ci' f = insort k (run_of ci f) \<and> (run_of ci f \<noteq> [] \<longrightarrow> comparable k (hd (run_of ci f)))) \<and>
     (k = KNone \<longrightarrow> run_of ci' f = run_of ci f)"

lemma py_insort_Inr:
  "py_insort run k = Inr run' \<longleftrightarrow> run' = insort k run \<and> (run \<noteq> [] \<longrightarrow> comparable k (hd run))"
  by (auto simp: py_insort_def bind_res_Inr order_key_Inr)

lemma enter_sorted_run_effect:
  assumes "enter_sorted_run f v k ci = Inr ci'" and "hash_key v = Inr k"
  shows "enters f k ci ci'"
proof -
  have vk: "v = PNone \<longleftrightarrow> k = KNone" using assms(2) by (rule hash_key_None_iff)
  show ?thesis
  proof (cases "f \<notin> set (ci_sorted_fields ci) \<or> v = PNone \<or> ci_building ci")
    case True
    then show ?thesis using assms(1) vk by (auto simp: enter_sorted_run_def enters_def)
  next
    case False
    with assms(1) obtain run where run: "dict_get (ci_sorted_keys ci) f = Some run"
      and c: "run \<noteq> [] \<longrightarrow> comparable k (hd run)"
      and ci': "ci' = ci\<lparr>ci_sorted_keys := AList.update f (insort k run) (ci_sorted_keys ci)\<rparr>"
      by (auto simp: enter_sorted_run_def bind_res_Inr py_insort_Inr split: option.splits)
    have "run_of ci f = run" using run by (simp add: run_of_def dict_getd_def)
    with run c ci' False vk show ?thesis
      by (auto simp: enters_def same_frame_def run_of_def)
  qed
qed

section \<open>Indexing one field\<close>

definition adds :: "nat \<Rightarrow> string \<Rightarrow> (key \<Rightarrow> bool) \<Rightarrow> class_indexes \<Rightarrow> class_indexes \<Rightarrow> bool" where
  "adds oid f K ci ci' \<longleftrightarrow>
     same_frame ci ci' \<and>
     (\<forall>g. col_keys ci' g =
        (if g = f \<and> dict_get (ci_eq ci) f \<noteq> None then col_keys ci g \<union> {k. K k} else col_keys ci g)) \<and>
     (\<forall>g k. posting ci' g k =
        (if g = f \<and> dict_get (ci_eq ci) f \<noteq> None \<and> K k then insert oid (posting ci g k)
         else posting ci g k)) \<and>
     (ci_shape ci \<and> \<not> ci_building ci \<and> runs_ok ci \<longrightarrow> runs_ok ci')"

lemma index_list_effect:
  assumes "index_field oid (f, v) ci = Inr ci'" and "f \<in> set (ci_list_fields ci)"
  shows "adds oid f (val_has_key (ci_list_fields ci) f v) ci ci' \<and> ci_unique ci' = ci_unique ci"
proof (cases "v = PNone")
  case True
  with assms show ?thesis
    by (auto simp: index_field_def index_list_field_def adds_def val_has_key_def field_keys_def)
next
  case False
  with assms obtain c ks where c: "dict_get (ci_eq ci) f = Some c" and ks: "elem_keys v = Inr ks"
    and ci': "ci' = set_col f (fold (\<lambda>k c. post_add c k oid) ks c) ci"
    by (auto simp: index_field_def index_list_field_def bind_res_Inr split: option.splits)
  have K: "val_has_key (ci_list_fields ci) f v = (\<lambda>k. k \<in> set ks)"
    using False assms(2) ks by (auto simp: val_has_key_def field_keys_def)
  have runs: "runs_ok ci'" if "ci_shape ci" "runs_ok ci"
  proof -
    have "f \<notin> set (ci_sorted_fields ci)" using that(1) assms(2) by (auto simp: ci_shape_def)
    then show ?thesis
      using that(2) ci' unfolding runs_ok_def
      by (auto simp: set_col_def run_ok_def run_of_def col_keys_def col_of_def)
  qed
  show ?thesis
    using c ci' K runs
    by (auto simp: adds_def same_frame_set_col posting_set_col col_keys_set_col
        fold_post_add_getd fold_post_add_keys col_of_Some posting_def col_keys_def)
qed

lemma enters_keeps:
  assumes "enters f k ci ci'"
  shows "same_frame ci ci'" "ci_eq ci' = ci_eq ci" "ci_unique ci' = ci_unique ci"
    "col_of ci' = col_of ci" "posting ci' = posting ci" "col_keys ci' = col_keys ci"
  using assms by (simp_all add: enters_def posting_def col_keys_def col_of_def fun_eq_iff)

lemma run_ok_enter:
  assumes "enters f k ci ci1" and "ci_shape ci" and "\<not> ci_building ci" and "runs_ok ci"
    and "k \<notin> col_keys ci f" and "dict_get (ci_eq ci1) f = Some c"
  shows "runs_ok (set_col f (post_add c k oid) ci1)"
proof -
  let ?ci2 = "set_col f (post_add c k oid) ci1"
  have c1: "col_of ci1 f = c" using assms(6) by (rule col_of_Some)
  have keys: "col_keys ?ci2 g = (if g = f then insert k (col_keys ci f) else col_keys ci g)" for g
    using enters_keeps [OF assms(1)] c1
    by (simp add: col_keys_set_col dom_post_add) (simp add: col_keys_def)
  have sf: "ci_sorted_fields ?ci2 = ci_sorted_fields ci"
    using enters_keeps(1) [OF assms(1)] by (simp add: set_col_def same_frame_def)
  have "run_ok ?ci2 g" if g: "g \<in> set (ci_sorted_fields ci)" for g
  proof (cases "g = f")
    case False
    have "run_of ?ci2 g = run_of ci g" using False assms(1) by (simp add: enters_def)
    moreover have "col_keys ?ci2 g = col_keys ci g" using False keys by simp
    ultimately have "run_ok ?ci2 g = run_ok ci g" by (rule run_ok_cong)
    then show ?thesis using g assms(4) by (simp add: runs_ok_def)
  next
    case True
    have ok: "run_ok ci f" using g True assms(4) by (simp add: runs_ok_def)
    show ?thesis
    proof (cases "k = KNone")
      case True
      then have "run_of ?ci2 f = run_of ci f" using assms(1) by (simp add: enters_def)
      then show ?thesis using ok keys [of f] True \<open>g = f\<close> by (simp add: run_ok_def)
    next
      case False
      then have r: "run_of ?ci2 f = insort k (run_of ci f)"
        and cmp: "run_of ci f \<noteq> [] \<longrightarrow> comparable k (hd (run_of ci f))"
        using assms(1,3) g True by (auto simp: enters_def)
      have nk: "k \<notin> set (run_of ci f)" using ok assms(5) by (simp add: run_ok_def)
      have "homogeneous (insort k (run_of ci f))"
        using ok nk cmp by (intro homogeneous_insort) (auto simp: run_ok_def)
      then show ?thesis
        using ok keys [of f] False r nk \<open>g = f\<close>
        by (auto simp: run_ok_def set_insort_key sorted_insort distinct_insort)
    qed
  qed
  then show ?thesis by (simp add: runs_ok_def sf)
qed

lemma index_scalar_effect:
  assumes "index_scalar_field oid f v ci = Inr ci'" and nl: "f \<notin> set (ci_list_fields ci)"
  obtains ci1 where
    "adds oid f (val_has_key (ci_list_fields ci) f v) ci ci1" and "ci_unique ci1 = ci_unique ci"
    and "if f \<in> set (ci_unique_fields ci) \<and> v \<noteq> PNone
         then \<exists>h k. dict_get (ci_unique ci) f = Some h \<and> hash_key v = Inr k \<and>
           ci' = ci1\<lparr>ci_unique := AList.update f (AList.update k oid h) (ci_unique ci)\<rparr>
         else ci' = ci1"
proof -
  define step1 where "step1 = (case dict_get (ci_eq ci) f of
          None \<Rightarrow> Inr ci
        | Some col \<Rightarrow>
            bind_res (hash_key v) (\<lambda>k.
            bind_res (if dict_get col k = None then enter_sorted_run f v k ci else Inr ci) (\<lambda>ci1.
              Inr (set_col f (post_add col k oid) ci1))))"
  from assms obtain ci1 where s1: "step1 = Inr ci1" and
    s2: "(if f \<in> set (ci_unique_fields ci1) \<and> v \<noteq> PNone then
       (case dict_get (ci_unique ci1) f of
          None \<Rightarrow> Inl PyKeyError
        | Some hs \<Rightarrow>
            bind_res (hash_key v) (\<lambda>k.
              Inr (ci1\<lparr>ci_unique := AList.update f (AList.update k oid hs) (ci_unique ci1)\<rparr>)))
     else Inr ci1) = Inr ci'"
    unfolding index_scalar_field_def by (auto simp: step1_def bind_res_Inr)
  have eff: "adds oid f (val_has_key (ci_list_fields ci) f v) ci ci1 \<and> ci_unique ci1 = ci_unique ci
      \<and> ci_unique_fields ci1 = ci_unique_fields ci"
  proof (cases "dict_get (ci_eq ci) f")
    case None
    then show ?thesis using s1 by (auto simp: step1_def adds_def)
  next
    case (Some c)
    with s1 obtain k cie where k: "hash_key v = Inr k"
      and cie: "(if dict_get c k = None then enter_sorted_run f v k ci else Inr ci) = Inr cie"
      and ci1: "ci1 = set_col f (post_add c k oid) cie"
      by (auto simp: step1_def bind_res_Inr)
    have K: "val_has_key (ci_list_fields ci) f v = (\<lambda>k'. k' = k)"
      using nl k by (auto simp: val_has_key_def field_keys_def)
    have cf: "col_of ci f = c" using Some by (rule col_of_Some)
    have keep: "same_frame ci cie \<and> ci_eq cie = ci_eq ci \<and> ci_unique cie = ci_unique ci \<and>
        posting cie = posting ci \<and> col_keys cie = col_keys ci \<and> col_of cie = col_of ci"
      using cie enters_keeps [OF enter_sorted_run_effect [OF _ k]] by (auto split: if_splits)
    have runs: "runs_ok ci1" if "ci_shape ci" "\<not> ci_building ci" "runs_ok ci"
    proof (cases "dict_get c k")
      case None
      then have "enters f k ci cie" using cie k by (auto intro: enter_sorted_run_effect)
      moreover have "k \<notin> col_keys ci f" using None cf by (simp add: col_keys_def domIff)
      moreover have "dict_get (ci_eq cie) f = Some c" using keep Some by simp
      ultimately show ?thesis using that ci1 by (auto intro: run_ok_enter)
    next
      case (Some b)
      then have e: "cie = ci" using cie by simp
      have "col_keys ci1 g = col_keys ci g" for g
        using ci1 e cf Some by (auto simp: col_keys_set_col dom_post_add) (auto simp: col_keys_def)
      then show ?thesis
        using that(3) ci1 e by (auto simp: runs_ok_def run_ok_def set_col_def run_of_def)
    qed
    have "same_frame ci ci1"
      using keep ci1 Some same_frame_set_col [of cie f c "post_add c k oid"]
      by (auto intro: same_frame_trans)
    then show ?thesis
      using Some ci1 keep K cf runs
      by (auto simp: adds_def posting_set_col col_keys_set_col dom_post_add same_frame_def
          posting_def col_keys_def)
  qed
  show thesis
    by (rule that [of ci1])
       (use eff s2 in \<open>auto simp: bind_res_Inr split: if_splits option.splits\<close>)
qed

lemma adds_unique_update:
  assumes "adds oid f K ci ci1" and "dict_get (ci_unique ci1) f = Some h"
  shows "adds oid f K ci (ci1\<lparr>ci_unique := AList.update f h' (ci_unique ci1)\<rparr>)"
  using assms same_frame_unique [OF assms(2), of h']
  by (auto simp: adds_def runs_ok_def run_ok_def intro: same_frame_trans)

lemma index_field_effect:
  assumes "index_field oid (f, v) ci = Inr ci'"
  shows "adds oid f (val_has_key (ci_list_fields ci) f v) ci ci' \<and>
    (holder ci' g k =
      (if g = f \<and> row_holds (ci_unique_fields ci) (ci_list_fields ci) [(f, v)] f k
       then Some oid else holder ci g k))"
proof (cases "f \<in> set (ci_list_fields ci)")
  case True
  then show ?thesis
    using index_list_effect [OF assms True] by (simp add: row_holds_def holder_def)
next
  case False
  then have "index_scalar_field oid f v ci = Inr ci'" using assms by (simp add: index_field_def)
  from this False obtain ci1 where
    d: "adds oid f (val_has_key (ci_list_fields ci) f v) ci ci1" and u: "ci_unique ci1 = ci_unique ci"
    and r: "if f \<in> set (ci_unique_fields ci) \<and> v \<noteq> PNone
         then \<exists>h k. dict_get (ci_unique ci) f = Some h \<and> hash_key v = Inr k \<and>
           ci' = ci1\<lparr>ci_unique := AList.update f (AList.update k oid h) (ci_unique ci)\<rparr>
         else ci' = ci1"
    by (rule index_scalar_effect)
  have h1: "holder ci1 = holder ci" by (simp add: holder_def u fun_eq_iff)
  show ?thesis
  proof (cases "f \<in> set (ci_unique_fields ci) \<and> v \<noteq> PNone")
    case nu: False
    then have "\<not> row_holds (ci_unique_fields ci) (ci_list_fields ci) [(f, v)] f k"
      using False by (auto simp: row_holds_def row_has_key_def val_has_key_def field_keys_def)
    with nu r d h1 show ?thesis by auto
  next
    case True
    with r obtain h k0 where h: "dict_get (ci_unique ci) f = Some h" and k0: "hash_key v = Inr k0" and
      ci': "ci' = ci1\<lparr>ci_unique := AList.update f (AList.update k0 oid h) (ci_unique ci)\<rparr>"
      by auto
    have "k0 \<noteq> KNone" using True hash_key_None_iff [OF k0] by simp
    then have rh: "row_holds (ci_unique_fields ci) (ci_list_fields ci) [(f, v)] f k \<longleftrightarrow> k = k0"
      using True k0 False by (auto simp: row_holds_def row_has_key_def val_has_key_def field_keys_def)
    have h1': "dict_get (ci_unique ci1) f = Some h" using h u by simp
    have "adds oid f (val_has_key (ci_list_fields ci) f v) ci ci'"
      using adds_unique_update [OF d h1'] ci' u by simp
    moreover have "holder ci' g k = (if g = f \<and> k = k0 then Some oid else holder ci g k)"
      using ci' h1 h u holder_Some [OF h]
        holder_update_unique [where ci = ci1 and f = f and h = "AList.update k0 oid h" and g = g and k = k]
      by auto
    ultimately show ?thesis using rh by simp
  qed
qed

section \<open>A whole row\<close>

lemma row_has_key_Cons:
  "fst fv \<notin> set (dict_keys r) \<Longrightarrow>
     row_has_key ls (fv # r) g k \<longleftrightarrow>
       (if g = fst fv then val_has_key ls g (snd fv) k else row_has_key ls r g k)"
  by (cases fv) (auto simp: row_has_key_def)

lemma row_has_key_Nil [simp]: "\<not> row_has_key ls [] g k"
  by (simp add: row_has_key_def)

lemma row_has_key_notin: "g \<notin> set (dict_keys r) \<Longrightarrow> \<not> row_has_key ls r g k"
  by (auto simp: row_has_key_def split: option.splits dest: map_of_SomeD simp: rev_image_eqI)

lemma unindex_row_effect:
  assumes "fold_res (unindex_field oid) old ci = Inr ci'" and "distinct (dict_keys old)"
  shows "same_frame ci ci' \<and> ci_sorted_keys ci' = ci_sorted_keys ci \<and>
     (\<forall>g. col_keys ci' g = col_keys ci g) \<and> (runs_ok ci \<longrightarrow> runs_ok ci') \<and>
     (\<forall>g k. posting ci' g k =
        (if row_has_key (ci_list_fields ci) old g k then posting ci g k - {oid} else posting ci g k)) \<and>
     (\<forall>g k. holder ci' g k =
        (if row_holds (ci_unique_fields ci) (ci_list_fields ci) old g k \<and> holder ci g k = Some oid
         then None else holder ci g k))"
  using assms
proof (induction old arbitrary: ci)
  case Nil
  then show ?case by (simp add: row_holds_def)
next
  case (Cons fv old)
  obtain f v where fv: "fv = (f, v)" by (cases fv)
  from Cons.prems(1) obtain c1 where s1: "unindex_field oid (f, v) ci = Inr c1"
    and s2: "fold_res (unindex_field oid) old c1 = Inr ci'"
    by (auto simp: fv split: sum.splits)
  have d: "f \<notin> set (dict_keys old)" "distinct (dict_keys old)" using Cons.prems(2) fv by auto
  note e1 = unindex_field_effect [OF s1]
  note IH = Cons.IH [OF s2 d(2)]
  have fr: "same_frame ci c1" using e1(1) by (simp add: discards_def)
  have ls: "ci_list_fields c1 = ci_list_fields ci" "ci_unique_fields c1 = ci_unique_fields ci"
    using fr by (simp_all add: same_frame_def)
  have single: "row_holds us l [(f, v)] f k \<longleftrightarrow> f \<in> set us \<and> f \<notin> set l \<and> k \<noteq> KNone \<and> val_has_key l f v k"
    for us l k by (simp add: row_holds_def row_has_key_def)
  have hold: "row_holds us l (fv # old) g k \<longleftrightarrow>
      (if g = f then row_holds us l [(f, v)] f k else row_holds us l old g k)" for us l g k
    using d(1) fv by (auto simp: row_holds_def row_has_key_Cons single)
  have nold: "\<not> row_has_key l old f k" for l k using d(1) by (rule row_has_key_notin)
  then have nhold: "\<not> row_holds us l old f k" for us l k by (simp add: row_holds_def)
  show ?case
  proof (intro conjI allI)
    show "same_frame ci ci'" using fr IH same_frame_trans by blast
    show "ci_sorted_keys ci' = ci_sorted_keys ci" using e1(1) IH by (simp add: discards_def)
    show "col_keys ci' g = col_keys ci g" for g using e1(1) IH by (simp add: discards_def)
    show "runs_ok ci \<longrightarrow> runs_ok ci'" using e1(1) IH discards_runs_ok by blast
    show "posting ci' g k = (if row_has_key (ci_list_fields ci) (fv # old) g k
        then posting ci g k - {oid} else posting ci g k)" for g k
      using e1(1) IH ls d(1) nold fv by (auto simp: discards_def row_has_key_Cons)
    show "holder ci' g k = (if row_holds (ci_unique_fields ci) (ci_list_fields ci) (fv # old) g k \<and>
        holder ci g k = Some oid then None else holder ci g k)" for g k
      using e1(2) [of g k] IH ls hold nhold by auto
  qed
qed

lemma index_row_effect:
  assumes "fold_res (index_field oid) r ci = Inr ci'" and "distinct (dict_keys r)"
  shows "same_frame ci ci' \<and>
     (ci_shape ci \<and> \<not> ci_building ci \<and> runs_ok ci \<longrightarrow> runs_ok ci') \<and>
     (\<forall>g k. posting ci' g k =
        (if dict_get (ci_eq ci) g \<noteq> None \<and> row_has_key (ci_list_fields ci) r g k
         then insert oid (posting ci g k) else posting ci g k)) \<and>
     (\<forall>g k. holder ci' g k =
        (if row_holds (ci_unique_fields ci) (ci_list_fields ci) r g k then Some oid else holder ci g k))"
  using assms
proof (induction r arbitrary: ci)
  case Nil
  then show ?case by (simp add: row_holds_def)
next
  case (Cons fv r)
  obtain f v where fv: "fv = (f, v)" by (cases fv)
  from Cons.prems(1) obtain c1 where s1: "index_field oid (f, v) ci = Inr c1"
    and s2: "fold_res (index_field oid) r c1 = Inr ci'"
    by (auto simp: fv split: sum.splits)
  have d: "f \<notin> set (dict_keys r)" "distinct (dict_keys r)" using Cons.prems(2) fv by auto
  have e1: "adds oid f (val_has_key (ci_list_fields ci) f v) ci c1"
    using index_field_effect [OF s1] by blast
  have e2: "holder c1 g k =
      (if g = f \<and> row_holds (ci_unique_fields ci) (ci_list_fields ci) [(f, v)] f k
       then Some oid else holder ci g k)" for g k
    using index_field_effect [OF s1] by blast
  note IH = Cons.IH [OF s2 d(2)]
  have fr: "same_frame ci c1" using e1 by (simp add: adds_def)
  have ls: "ci_list_fields c1 = ci_list_fields ci" "ci_unique_fields c1 = ci_unique_fields ci"
      "ci_building c1 = ci_building ci" "(dict_get (ci_eq c1) g = None) = (dict_get (ci_eq ci) g = None)" for g
    using fr by (simp_all add: same_frame_def)
  have single: "row_holds us l [(f, v)] f k \<longleftrightarrow> f \<in> set us \<and> f \<notin> set l \<and> k \<noteq> KNone \<and> val_has_key l f v k"
    for us l k by (simp add: row_holds_def row_has_key_def)
  have hold: "row_holds us l (fv # r) g k \<longleftrightarrow>
      (if g = f then row_holds us l [(f, v)] f k else row_holds us l r g k)" for us l g k
    using d(1) fv by (auto simp: row_holds_def row_has_key_Cons single)
  have nr: "\<not> row_has_key l r f k" for l k using d(1) by (rule row_has_key_notin)
  then have nhold: "\<not> row_holds us l r f k" for us l k by (simp add: row_holds_def)
  show ?case
  proof (intro conjI allI)
    show "same_frame ci ci'" using fr IH same_frame_trans by blast
    show "ci_shape ci \<and> \<not> ci_building ci \<and> runs_ok ci \<longrightarrow> runs_ok ci'"
      using e1 IH ls ci_shape_frame [OF fr] by (auto simp: adds_def)
    show "posting ci' g k = (if dict_get (ci_eq ci) g \<noteq> None \<and> row_has_key (ci_list_fields ci) (fv # r) g k
        then insert oid (posting ci g k) else posting ci g k)" for g k
      using e1 IH ls d(1) nr fv by (auto simp: adds_def row_has_key_Cons)
    show "holder ci' g k = (if row_holds (ci_unique_fields ci) (ci_list_fields ci) (fv # r) g k
        then Some oid else holder ci g k)" for g k
      using e2 [of g k] IH ls hold nhold by auto
  qed
qed

end
