(* ===== verification/Index_Rep.thy ===== *)
theory Index_Rep
  imports Index_Inv
begin

text \<open>
  What a class index represents. \<open>ci_rep ci tab\<close>: the index \<open>ci\<close> is the index of the table \<open>tab\<close>
  (OID to the row of maintained values). \<open>uniq_rep ci tab fin\<close>: a holder of a unique key has that key
  in the table, and every OID of \<open>fin\<close> that has a unique key is its holder. Inside one commit a key
  may move between entities in any order, so \<open>fin\<close> is the set of OIDs whose row is already final.
\<close>

section \<open>The representation\<close>

type_synonym table = "nat \<rightharpoonup> row"

definition row_ok :: "string list \<Rightarrow> row \<Rightarrow> bool" where
  "row_ok ls r \<longleftrightarrow> dict_wf r \<and>
     (\<forall>(f, v) \<in> set r. case field_keys ls f v of Inl e \<Rightarrow> False
        | Inr ks \<Rightarrow> f \<in> set ls \<longrightarrow> KNone \<notin> set ks)"

definition tab_has :: "string list \<Rightarrow> table \<Rightarrow> nat \<Rightarrow> string \<Rightarrow> key \<Rightarrow> bool" where
  "tab_has ls tab oid f k \<longleftrightarrow> (case tab oid of None \<Rightarrow> False | Some r \<Rightarrow> row_has_key ls r f k)"

definition tracked :: "class_indexes \<Rightarrow> string \<Rightarrow> key \<Rightarrow> bool" where
  "tracked ci f k \<longleftrightarrow> dict_get (ci_eq ci) f \<noteq> None \<or> f \<in> set (ci_unique_fields ci) \<and> k \<noteq> KNone"

definition lv_rep :: "class_indexes \<Rightarrow> table \<Rightarrow> (nat, row) dict \<Rightarrow> bool" where
  "lv_rep ci tab lv \<longleftrightarrow>
     (\<forall>oid. dict_wf (dict_getd lv oid [])) \<and>
     (\<forall>oid f k. tracked ci f k \<longrightarrow>
        row_has_key (ci_list_fields ci) (dict_getd lv oid []) f k = tab_has (ci_list_fields ci) tab oid f k)"

definition postings_rep :: "class_indexes \<Rightarrow> table \<Rightarrow> bool" where
  "postings_rep ci tab \<longleftrightarrow>
     (\<forall>f k. dict_get (ci_eq ci) f \<noteq> None \<longrightarrow>
        posting ci f k = {oid. tab_has (ci_list_fields ci) tab oid f k})"

definition ci_core :: "class_indexes \<Rightarrow> table \<Rightarrow> bool" where
  "ci_core ci tab \<longleftrightarrow>
     ci_shape ci \<and> finite (dom tab) \<and> ci_extent ci = dom tab \<and>
     (\<forall>oid r. tab oid = Some r \<longrightarrow> row_ok (ci_list_fields ci) r) \<and>
     postings_rep ci tab \<and> lv_rep ci tab (ci_last_values (ensure_last_values ci))"

text \<open>During a bulk build the sorted runs are not maintained.\<close>

definition ci_rep :: "class_indexes \<Rightarrow> table \<Rightarrow> bool" where
  "ci_rep ci tab \<longleftrightarrow> ci_core ci tab \<and> \<not> ci_building ci \<and> runs_ok ci"

definition uniq_key :: "class_indexes \<Rightarrow> string \<Rightarrow> key \<Rightarrow> bool" where
  "uniq_key ci f k \<longleftrightarrow> f \<in> set (ci_unique_fields ci) \<and> k \<noteq> KNone"

definition uniq_rep :: "class_indexes \<Rightarrow> table \<Rightarrow> nat set \<Rightarrow> bool" where
  "uniq_rep ci tab fin \<longleftrightarrow>
     (\<forall>f k oid. uniq_key ci f k \<longrightarrow>
        (holder ci f k = Some oid \<longrightarrow> tab_has (ci_list_fields ci) tab oid f k) \<and>
        (tab_has (ci_list_fields ci) tab oid f k \<and> oid \<in> fin \<longrightarrow> holder ci f k = Some oid))"

lemma tab_has_update:
  "tab_has ls (tab(o' \<mapsto> r)) oid f k \<longleftrightarrow> (if oid = o' then row_has_key ls r f k else tab_has ls tab oid f k)"
  by (simp add: tab_has_def)

lemma tab_has_delete: "tab_has ls (tab(o' := None)) oid f k \<longleftrightarrow> oid \<noteq> o' \<and> tab_has ls tab oid f k"
  by (simp add: tab_has_def)

lemma ensure_last_values_frame [simp]:
  "ci_extent (ensure_last_values ci) = ci_extent ci"
  "ci_eq (ensure_last_values ci) = ci_eq ci"
  "ci_unique (ensure_last_values ci) = ci_unique ci"
  "ci_list_fields (ensure_last_values ci) = ci_list_fields ci"
  "ci_sorted_fields (ensure_last_values ci) = ci_sorted_fields ci"
  "ci_sorted_keys (ensure_last_values ci) = ci_sorted_keys ci"
  "ci_unique_fields (ensure_last_values ci) = ci_unique_fields ci"
  "ci_building (ensure_last_values ci) = ci_building ci"
  "\<not> ci_needs_lv_rebuild (ensure_last_values ci)"
  by (simp_all add: ensure_last_values_def rebuild_last_values_def Let_def)

lemma ensure_last_values_id [simp]: "\<not> ci_needs_lv_rebuild ci \<Longrightarrow> ensure_last_values ci = ci"
  by (simp add: ensure_last_values_def)

lemma observe_ensure [simp]:
  "posting (ensure_last_values ci) = posting ci"
  "holder (ensure_last_values ci) = holder ci"
  "runs_ok (ensure_last_values ci) = runs_ok ci"
  "ci_shape (ensure_last_values ci) = ci_shape ci"
  "tracked (ensure_last_values ci) = tracked ci"
  by (simp_all add: posting_def col_of_def holder_def runs_ok_def run_ok_def run_of_def col_keys_def
      ci_shape_def tracked_def fun_eq_iff)

text \<open>Observations ignore the un-index memory and the extent.\<close>

lemma observe_lv [simp]:
  "posting (ci\<lparr>ci_last_values := l\<rparr>) = posting ci" "posting (ci\<lparr>ci_extent := e\<rparr>) = posting ci"
  "holder (ci\<lparr>ci_last_values := l\<rparr>) = holder ci" "holder (ci\<lparr>ci_extent := e\<rparr>) = holder ci"
  "runs_ok (ci\<lparr>ci_last_values := l\<rparr>) = runs_ok ci" "runs_ok (ci\<lparr>ci_extent := e\<rparr>) = runs_ok ci"
  "ci_shape (ci\<lparr>ci_last_values := l\<rparr>) = ci_shape ci" "ci_shape (ci\<lparr>ci_extent := e\<rparr>) = ci_shape ci"
  "tracked (ci\<lparr>ci_last_values := l\<rparr>) = tracked ci" "tracked (ci\<lparr>ci_extent := e\<rparr>) = tracked ci"
  by (simp_all add: posting_def col_of_def holder_def runs_ok_def run_ok_def run_of_def col_keys_def
      ci_shape_def tracked_def fun_eq_iff)

lemma tracked_frame: "same_frame ci ci' \<Longrightarrow> tracked ci' = tracked ci"
  by (simp add: tracked_def same_frame_def fun_eq_iff)

section \<open>The snapshot kept for the next un-index\<close>

lemma map_res_val: "map_res f (map g xs) = map_res (\<lambda>x. f (g x)) xs"
  by (induction xs) (auto split: sum.splits)

lemma elem_keys_copy_list: "elem_keys v = Inr ks \<Longrightarrow> elem_keys (copy_list v) = Inr ks"
proof (cases v)
  case (PStr s)
  have "map_res (\<lambda>x. hash_key (PStr [x])) s = Inr (map (\<lambda>c. KStr [c]) s)"
    by (rule map_res_total) (simp add: hash_key_def)
  moreover assume "elem_keys v = Inr ks"
  ultimately show ?thesis
    using PStr by (simp add: elem_keys_def copy_list_def map_res_val)
qed (auto simp: elem_keys_def copy_list_def)

lemma val_has_key_copy_list:
  assumes "field_keys ls f v = Inr ks"
  shows "val_has_key ls f (if f \<in> set ls then copy_list v else v) k = val_has_key ls f v k"
proof (cases "f \<in> set ls \<and> v \<noteq> PNone")
  case True
  have "elem_keys v = Inr ks" using assms True by (simp add: field_keys_def)
  moreover have "copy_list v \<noteq> PNone"
    using True by (simp add: copy_list_def split: pyval.splits)
  ultimately show ?thesis
    using True elem_keys_copy_list by (simp add: val_has_key_def field_keys_def)
next
  case False
  then show ?thesis by (auto simp: copy_list_def)
qed

lemma row_has_key_snapshot:
  assumes "row_ok (ci_list_fields ci) r"
  shows "row_has_key (ci_list_fields ci) (lv_snapshot ci r) f k = row_has_key (ci_list_fields ci) r f k"
proof (cases "dict_get r f")
  case None
  then show ?thesis
    by (simp add: row_has_key_def lv_snapshot_def dict_get_map)
next
  case (Some v)
  then have "(f, v) \<in> set r" by (rule map_of_SomeD)
  with assms obtain ks where "field_keys (ci_list_fields ci) f v = Inr ks"
    by (cases "field_keys (ci_list_fields ci) f v") (auto simp: row_ok_def)
  then show ?thesis
    using Some val_has_key_copy_list
    by (simp add: row_has_key_def lv_snapshot_def dict_get_map)
qed

lemma dict_wf_snapshot: "dict_wf (lv_snapshot ci r) = dict_wf r"
  by (simp add: lv_snapshot_def)

section \<open>Un-indexing, inserting, removing\<close>

lemma row_has_key_getd: "dict_get lv oid = None \<Longrightarrow> \<not> row_has_key ls (dict_getd lv oid []) f k"
  by (simp add: dict_getd_def)

lemma pop_old_effect:
  assumes "pop_old oid ci = Inr ci1" and "dict_wf (dict_getd (ci_last_values ci) oid [])"
  defines "old \<equiv> dict_getd (ci_last_values ci) oid []"
  shows "same_frame (ci\<lparr>ci_last_values := AList.delete oid (ci_last_values ci)\<rparr>)
           (ci1\<lparr>ci_last_values := AList.delete oid (ci_last_values ci)\<rparr>)"
    and "\<forall>o'. dict_get (ci_last_values ci1) o' = (if o' = oid then None else dict_get (ci_last_values ci) o')"
    and "runs_ok ci \<longrightarrow> runs_ok ci1"
    and "posting ci1 g k = (if row_has_key (ci_list_fields ci) old g k
           then posting ci g k - {oid} else posting ci g k)"
    and "holder ci1 g k = (if row_holds (ci_unique_fields ci) (ci_list_fields ci) old g k \<and>
           holder ci g k = Some oid then None else holder ci g k)"
proof -
  let ?lv = "AList.delete oid (ci_last_values ci)"
  have "same_frame (ci\<lparr>ci_last_values := ?lv\<rparr>) (ci1\<lparr>ci_last_values := ?lv\<rparr>) \<and>
    (\<forall>o'. dict_get (ci_last_values ci1) o' = (if o' = oid then None else dict_get (ci_last_values ci) o')) \<and>
    (runs_ok ci \<longrightarrow> runs_ok ci1) \<and>
    (posting ci1 g k = (if row_has_key (ci_list_fields ci) old g k
           then posting ci g k - {oid} else posting ci g k)) \<and>
    (holder ci1 g k = (if row_holds (ci_unique_fields ci) (ci_list_fields ci) old g k \<and>
           holder ci g k = Some oid then None else holder ci g k))"
  proof (cases "dict_get (ci_last_values ci) oid")
    case None
    then have "ci1 = ci" "old = []" using assms(1) by (simp_all add: pop_old_def old_def dict_getd_def)
    then show ?thesis using None by (simp add: row_holds_def)
  next
    case (Some o1)
    then have o1: "o1 = old" by (simp add: old_def dict_getd_def)
    have "fold_res (unindex_field oid) old (ci\<lparr>ci_last_values := ?lv\<rparr>) = Inr ci1"
      using assms(1) Some o1 by (simp add: pop_old_def unindex_def)
    moreover have "distinct (dict_keys old)" using assms(2) by (simp add: old_def dict_wf_def)
    ultimately have eff: "same_frame (ci\<lparr>ci_last_values := ?lv\<rparr>) ci1 \<and>
       (runs_ok (ci\<lparr>ci_last_values := ?lv\<rparr>) \<longrightarrow> runs_ok ci1) \<and>
       (\<forall>g k. posting ci1 g k = (if row_has_key (ci_list_fields ci) old g k
          then posting ci g k - {oid} else posting ci g k)) \<and>
       (\<forall>g k. holder ci1 g k = (if row_holds (ci_unique_fields ci) (ci_list_fields ci) old g k \<and>
          holder ci g k = Some oid then None else holder ci g k))"
      using unindex_row_effect [where ci = "ci\<lparr>ci_last_values := ?lv\<rparr>" and oid = oid] by simp
    then have lv: "ci_last_values ci1 = ?lv" by (simp add: same_frame_def)
    then have "same_frame (ci\<lparr>ci_last_values := ?lv\<rparr>) (ci1\<lparr>ci_last_values := ?lv\<rparr>)"
      using eff by (simp add: same_frame_def)
    then show ?thesis using eff lv by simp
  qed
  then show "same_frame (ci\<lparr>ci_last_values := AList.delete oid (ci_last_values ci)\<rparr>)
           (ci1\<lparr>ci_last_values := AList.delete oid (ci_last_values ci)\<rparr>)"
    and "\<forall>o'. dict_get (ci_last_values ci1) o' = (if o' = oid then None else dict_get (ci_last_values ci) o')"
    and "runs_ok ci \<longrightarrow> runs_ok ci1"
    and "posting ci1 g k = (if row_has_key (ci_list_fields ci) old g k
           then posting ci g k - {oid} else posting ci g k)"
    and "holder ci1 g k = (if row_holds (ci_unique_fields ci) (ci_list_fields ci) old g k \<and>
           holder ci g k = Some oid then None else holder ci g k)"
    by simp_all
qed

text \<open>The two indexes have the same fixed parts; their memory and extent may differ.\<close>

definition same_shape :: "class_indexes \<Rightarrow> class_indexes \<Rightarrow> bool" where
  "same_shape ci ci' \<longleftrightarrow>
     ci_list_fields ci' = ci_list_fields ci \<and> ci_sorted_fields ci' = ci_sorted_fields ci \<and>
     ci_building ci' = ci_building ci \<and> ci_unique_fields ci' = ci_unique_fields ci \<and>
     tracked ci' = tracked ci \<and> (ci_shape ci \<longrightarrow> ci_shape ci') \<and>
     (\<forall>f. dict_get (ci_eq ci') f = None \<longleftrightarrow> dict_get (ci_eq ci) f = None)"

lemma pop_old_shape:
  assumes "pop_old oid ci = Inr ci1" and "dict_wf (dict_getd (ci_last_values ci) oid [])"
  shows "same_shape ci ci1" and "ci_extent ci1 = ci_extent ci"
    and "ci_needs_lv_rebuild ci1 = ci_needs_lv_rebuild ci"
proof -
  let ?lv = "AList.delete oid (ci_last_values ci)"
  note fr = pop_old_effect(1) [OF assms]
  have "ci_shape (ci\<lparr>ci_last_values := ?lv\<rparr>) \<longrightarrow> ci_shape (ci1\<lparr>ci_last_values := ?lv\<rparr>)"
    using ci_shape_frame [OF fr] by blast
  moreover have "tracked (ci1\<lparr>ci_last_values := ?lv\<rparr>) = tracked (ci\<lparr>ci_last_values := ?lv\<rparr>)"
    by (rule tracked_frame [OF fr])
  ultimately show "same_shape ci ci1" using fr by (simp add: same_shape_def same_frame_def)
  show "ci_extent ci1 = ci_extent ci" "ci_needs_lv_rebuild ci1 = ci_needs_lv_rebuild ci"
    using fr by (simp_all add: same_frame_def)
qed

lemma same_shape_simps:
  assumes "same_shape ci ci'"
  shows "ci_list_fields ci' = ci_list_fields ci" "ci_sorted_fields ci' = ci_sorted_fields ci"
    "ci_building ci' = ci_building ci" "ci_unique_fields ci' = ci_unique_fields ci"
    "tracked ci' = tracked ci" "ci_shape ci \<Longrightarrow> ci_shape ci'"
    "dict_get (ci_eq ci') f = None \<longleftrightarrow> dict_get (ci_eq ci) f = None"
    "uniq_key ci' = uniq_key ci"
  using assms by (auto simp: same_shape_def uniq_key_def fun_eq_iff)

lemma same_shape_trans: "same_shape a b \<Longrightarrow> same_shape b c \<Longrightarrow> same_shape a c"
  by (simp add: same_shape_def)

lemma same_shape_ensure: "same_shape ci (ensure_last_values ci)"
  by (simp add: same_shape_def)

lemma uniq_key_tracked: "uniq_key ci f k \<Longrightarrow> tracked ci f k"
  by (auto simp: uniq_key_def tracked_def)

lemma row_holds_uniq:
  "ci_shape ci \<Longrightarrow> row_holds (ci_unique_fields ci) (ci_list_fields ci) r f k \<longleftrightarrow>
     uniq_key ci f k \<and> row_has_key (ci_list_fields ci) r f k"
  by (auto simp: row_holds_def uniq_key_def ci_shape_def)

lemma pop_old_rep:
  assumes rep: "ci_core ci tab" and pop: "pop_old oid (ensure_last_values ci) = Inr ci1"
  shows "same_shape ci ci1" and "ci_extent ci1 = dom tab" and "\<not> ci_needs_lv_rebuild ci1"
    and "runs_ok ci \<longrightarrow> runs_ok ci1" and "postings_rep ci1 (tab(oid := None))"
    and "lv_rep ci1 (tab(oid := None)) (ci_last_values ci1)"
    and "uniq_rep ci tab fin \<Longrightarrow> uniq_rep ci1 (tab(oid := None)) (insert oid fin)"
proof -
  let ?ci0 = "ensure_last_values ci"
  let ?lv = "ci_last_values ?ci0"
  let ?old = "dict_getd ?lv oid []"
  let ?ls = "ci_list_fields ci"
  have lv: "\<And>o'. dict_wf (dict_getd ?lv o' [])"
    "\<And>o' f k. tracked ci f k \<Longrightarrow> row_has_key ?ls (dict_getd ?lv o' []) f k = tab_has ?ls tab o' f k"
    using rep by (simp_all add: ci_core_def lv_rep_def)
  note eff = pop_old_effect [OF pop lv(1)] and shp = pop_old_shape [OF pop lv(1)]
  show sh: "same_shape ci ci1" using same_shape_trans [OF same_shape_ensure shp(1)] .
  note fr = same_shape_simps [OF sh]
  show "ci_extent ci1 = dom tab" using shp(2) rep by (simp add: ci_core_def)
  show "\<not> ci_needs_lv_rebuild ci1" using shp(3) by simp
  show "runs_ok ci \<longrightarrow> runs_ok ci1" using eff(3) by simp
  show "postings_rep ci1 (tab(oid := None))"
    unfolding postings_rep_def
  proof (intro allI impI)
    fix f k assume "dict_get (ci_eq ci1) f \<noteq> None"
    then have eq: "dict_get (ci_eq ci) f \<noteq> None" using fr(7) by simp
    then have "tracked ci f k" by (simp add: tracked_def)
    moreover have "posting ci f k = {oid. tab_has ?ls tab oid f k}"
      using rep eq by (simp add: ci_core_def postings_rep_def)
    ultimately show "posting ci1 f k = {o'. tab_has (ci_list_fields ci1) (tab(oid := None)) o' f k}"
      using eff(4) [of f k] lv(2) [of f k oid] fr(1) by (auto simp: tab_has_delete)
  qed
  have get: "dict_getd (ci_last_values ci1) o' [] = (if o' = oid then [] else dict_getd ?lv o' [])" for o'
    using eff(2) by (simp add: dict_getd_def)
  show "lv_rep ci1 (tab(oid := None)) (ci_last_values ci1)"
    using lv fr by (simp add: lv_rep_def get tab_has_delete)
  assume u: "uniq_rep ci tab fin"
  have shape: "ci_shape ci" using rep by (simp add: ci_core_def)
  show "uniq_rep ci1 (tab(oid := None)) (insert oid fin)"
    unfolding uniq_rep_def fr(8) fr(1)
  proof (intro allI impI)
    fix f k o' assume uk: "uniq_key ci f k"
    then have "row_holds (ci_unique_fields ci) ?ls ?old f k \<longleftrightarrow> tab_has ?ls tab oid f k"
      using lv(2) [OF uniq_key_tracked [OF uk]] shape by (simp add: row_holds_uniq)
    then have "holder ci1 f k = (if tab_has ?ls tab oid f k \<and> holder ci f k = Some oid
        then None else holder ci f k)"
      using eff(5) [of f k] by simp
    moreover have "holder ci f k = Some o' \<longrightarrow> tab_has ?ls tab o' f k"
      and "tab_has ?ls tab o' f k \<and> o' \<in> fin \<longrightarrow> holder ci f k = Some o'"
      using u uk unfolding uniq_rep_def by blast+
    ultimately show "(holder ci1 f k = Some o' \<longrightarrow> tab_has ?ls (tab(oid := None)) o' f k) \<and>
        (tab_has ?ls (tab(oid := None)) o' f k \<and> o' \<in> insert oid fin \<longrightarrow> holder ci1 f k = Some o')"
      by (auto simp: tab_has_delete)
  qed
qed

lemma lv_rep_extent: "lv_rep (ci\<lparr>ci_extent := e\<rparr>) = lv_rep ci"
  by (simp add: lv_rep_def fun_eq_iff)

lemma postings_rep_extent: "postings_rep (ci\<lparr>ci_extent := e\<rparr>) = postings_rep ci"
  by (simp add: postings_rep_def fun_eq_iff)

lemma uniq_rep_extent: "uniq_rep (ci\<lparr>ci_extent := e\<rparr>) = uniq_rep ci"
  by (simp add: uniq_rep_def uniq_key_def fun_eq_iff)

lemma ci_remove_core:
  assumes rep: "ci_core ci tab" and rm: "ci_remove oid ci = Inr ci'"
  shows "ci_core ci' (tab(oid := None))" and "runs_ok ci \<longrightarrow> runs_ok ci'" and "same_shape ci ci'"
    and "uniq_rep ci tab fin \<Longrightarrow> uniq_rep ci' (tab(oid := None)) (insert oid fin)"
proof -
  obtain ci1 where pop: "pop_old oid (ensure_last_values ci) = Inr ci1"
    and ci': "ci' = ci1\<lparr>ci_extent := ci_extent ci1 - {oid}\<rparr>"
    using rm by (auto simp: ci_remove_def bind_res_Inr)
  note p = pop_old_rep [OF rep pop] and fr = same_shape_simps [OF pop_old_rep(1) [OF rep pop]]
  have "ci_shape ci1" "finite (dom tab)"
    and rows: "tab o' = Some r \<Longrightarrow> row_ok (ci_list_fields ci1) r" for o' r
    using fr rep by (simp_all add: ci_core_def)
  then show "ci_core ci' (tab(oid := None))"
    using p(2,3,5,6) unfolding ci' ci_core_def
    by (simp add: lv_rep_extent postings_rep_extent)
  show "runs_ok ci \<longrightarrow> runs_ok ci'" using p(4) ci' by simp
  show "same_shape ci ci'"
    using p(1) ci' by (simp add: same_shape_def)
  show "uniq_rep ci tab fin \<Longrightarrow> uniq_rep ci' (tab(oid := None)) (insert oid fin)"
    using p(7) ci' by (simp add: uniq_rep_extent)
qed

lemma observe_insert_frame:
  assumes "same_frame ci ci'"
  shows "same_shape ci ci'"
  using ci_shape_frame [OF assms] tracked_frame [OF assms] assms
  unfolding same_shape_def same_frame_def by blast

lemma ci_insert_steps:
  assumes rep: "ci_core ci tab" and ins: "ci_insert oid r ci = Inr ci'" and ok: "row_ok (ci_list_fields ci) r"
  shows "same_shape ci ci'" and "ci_extent ci' = insert oid (dom tab)" and "\<not> ci_needs_lv_rebuild ci'"
    and "\<not> ci_building ci \<longrightarrow> runs_ok ci \<longrightarrow> runs_ok ci'" and "postings_rep ci' (tab(oid \<mapsto> r))"
    and "lv_rep ci' (tab(oid \<mapsto> r)) (ci_last_values ci')"
    and "\<exists>ci1. pop_old oid (ensure_last_values ci) = Inr ci1 \<and>
      (\<forall>f k. holder ci' f k = (if uniq_key ci f k \<and> row_has_key (ci_list_fields ci) r f k
         then Some oid else holder ci1 f k))"
proof -
  let ?ls = "ci_list_fields ci"
  obtain ci1 ci2 where pop: "pop_old oid (ensure_last_values ci) = Inr ci1"
    and idx: "fold_res (index_field oid) r (ci1\<lparr>ci_extent := insert oid (ci_extent ci1)\<rparr>) = Inr ci2"
    and ci': "ci' = ci2\<lparr>ci_last_values := AList.update oid (lv_snapshot ci2 r) (ci_last_values ci2)\<rparr>"
    using ins by (auto simp: ci_insert_def bind_res_Inr)
  let ?c = "ci1\<lparr>ci_extent := insert oid (ci_extent ci1)\<rparr>"
  note p = pop_old_rep [OF rep pop] and fr = same_shape_simps [OF pop_old_rep(1) [OF rep pop]]
  have dw: "distinct (dict_keys r)" using ok by (simp add: row_ok_def dict_wf_def)
  note eff = index_row_effect [OF idx dw]
  have f2: "same_frame ?c ci2" using eff by blast
  have sh2: "same_shape ci1 ci2" using observe_insert_frame [OF f2] by (simp add: same_shape_def)
  note fr2 = same_shape_simps [OF sh2]
  have e2: "ci_extent ci2 = insert oid (ci_extent ci1)" "ci_last_values ci2 = ci_last_values ci1"
     "ci_needs_lv_rebuild ci2 = ci_needs_lv_rebuild ci1"
    using f2 by (simp_all add: same_frame_def)
  show sh: "same_shape ci ci'"
    using same_shape_trans [OF p(1) sh2] ci' by (simp add: same_shape_def)
  show "ci_extent ci' = insert oid (dom tab)" using ci' e2 p(2) by simp
  show "\<not> ci_needs_lv_rebuild ci'" using ci' e2 p(3) by simp
  have "ci_shape ci1" "ci_building ci1 = ci_building ci" using fr rep by (simp_all add: ci_core_def)
  then show "\<not> ci_building ci \<longrightarrow> runs_ok ci \<longrightarrow> runs_ok ci'" using eff p(4) ci' by simp
  show "postings_rep ci' (tab(oid \<mapsto> r))"
    unfolding postings_rep_def
  proof (intro allI impI)
    fix f k assume "dict_get (ci_eq ci') f \<noteq> None"
    then have eq: "dict_get (ci_eq ci1) f \<noteq> None" using ci' fr2(7) by simp
    then have "posting ci1 f k = {o'. tab_has ?ls (tab(oid := None)) o' f k}"
      using p(5) fr(1) by (simp add: postings_rep_def)
    moreover have "posting ci2 f k = (if row_has_key ?ls r f k
        then insert oid (posting ci1 f k) else posting ci1 f k)"
      using eff eq fr(1) by simp
    ultimately show "posting ci' f k = {o'. tab_has (ci_list_fields ci') (tab(oid \<mapsto> r)) o' f k}"
      using ci' fr fr2 by (auto simp: tab_has_update tab_has_delete)
  qed
  have ls2: "ci_list_fields ci2 = ?ls" using fr fr2 by simp
  have get: "dict_getd (ci_last_values ci') o' [] =
      (if o' = oid then lv_snapshot ci2 r else dict_getd (ci_last_values ci1) o' [])" for o'
    using ci' e2 by (simp add: dict_getd_def)
  have snap: "row_has_key ?ls (lv_snapshot ci2 r) f k = row_has_key ?ls r f k" for f k
    using row_has_key_snapshot [of ci2 r] ok ls2 by simp
  have lv1: "dict_wf (dict_getd (ci_last_values ci1) o' [])"
    "tracked ci f k \<Longrightarrow> row_has_key ?ls (dict_getd (ci_last_values ci1) o' []) f k =
       tab_has ?ls (tab(oid := None)) o' f k" for o' f k
    using p(6) fr unfolding lv_rep_def by auto
  show "lv_rep ci' (tab(oid \<mapsto> r)) (ci_last_values ci')"
    unfolding lv_rep_def same_shape_simps [OF sh] get
  proof (intro conjI allI impI)
    show "dict_wf (if o' = oid then lv_snapshot ci2 r else dict_getd (ci_last_values ci1) o' [])" for o'
      using lv1(1) ok by (simp add: dict_wf_snapshot row_ok_def)
  next
    fix o' f k assume "tracked ci f k"
    then show "row_has_key ?ls (if o' = oid then lv_snapshot ci2 r
        else dict_getd (ci_last_values ci1) o' []) f k = tab_has ?ls (tab(oid \<mapsto> r)) o' f k"
      using snap [of f k] lv1(2) [of f k o'] by (simp add: tab_has_update tab_has_delete)
  qed
  have "holder ci' f k = (if uniq_key ci f k \<and> row_has_key ?ls r f k then Some oid else holder ci1 f k)" for f k
  proof -
    have "ci_shape ci1" using fr rep by (simp add: ci_core_def)
    then have "row_holds (ci_unique_fields ci1) (ci_list_fields ci1) r f k \<longleftrightarrow>
        uniq_key ci f k \<and> row_has_key ?ls r f k"
      using row_holds_uniq [of ci1 r f k] fr by simp
    then show ?thesis using eff ci' by simp
  qed
  then show "\<exists>ci1. pop_old oid (ensure_last_values ci) = Inr ci1 \<and>
      (\<forall>f k. holder ci' f k = (if uniq_key ci f k \<and> row_has_key (ci_list_fields ci) r f k
         then Some oid else holder ci1 f k))"
    using pop by blast
qed

lemma ci_insert_core:
  assumes rep: "ci_core ci tab" and ins: "ci_insert oid r ci = Inr ci'" and ok: "row_ok (ci_list_fields ci) r"
  shows "ci_core ci' (tab(oid \<mapsto> r))"
proof -
  note st = ci_insert_steps [OF assms] and fr = same_shape_simps [OF ci_insert_steps(1) [OF assms]]
  have "ci_shape ci'" using fr rep by (simp_all add: ci_core_def)
  moreover have "row_ok (ci_list_fields ci') r'" if "(tab(oid \<mapsto> r)) o' = Some r'" for o' r'
    using that fr rep ok by (auto simp: ci_core_def split: if_splits)
  moreover have "finite (dom (tab(oid \<mapsto> r)))" using rep by (simp add: ci_core_def)
  ultimately show ?thesis using st(2,3,5,6) unfolding ci_core_def by simp
qed

lemma ci_insert_uniq:
  assumes rep: "ci_core ci tab" and ins: "ci_insert oid r ci = Inr ci'" and ok: "row_ok (ci_list_fields ci) r"
    and u: "uniq_rep ci tab fin"
    and free: "\<And>f k o'. uniq_key ci f k \<Longrightarrow> row_has_key (ci_list_fields ci) r f k \<Longrightarrow> o' \<in> fin \<Longrightarrow>
      o' \<noteq> oid \<Longrightarrow> \<not> tab_has (ci_list_fields ci) tab o' f k"
  shows "uniq_rep ci' (tab(oid \<mapsto> r)) (insert oid fin)"
proof -
  let ?ls = "ci_list_fields ci"
  note fr = same_shape_simps [OF ci_insert_steps(1) [OF rep ins ok]]
  obtain ci1 where pop: "pop_old oid (ensure_last_values ci) = Inr ci1"
    and h: "\<And>f k. holder ci' f k = (if uniq_key ci f k \<and> row_has_key ?ls r f k
         then Some oid else holder ci1 f k)"
    using ci_insert_steps(7) [OF rep ins ok] by auto
  note p = pop_old_rep [OF rep pop]
  have u1: "uniq_rep ci1 (tab(oid := None)) (insert oid fin)" by (rule p(7) [OF u])
  note f1 = same_shape_simps [OF p(1)]
  show ?thesis
    unfolding uniq_rep_def fr(8) fr(1)
  proof (intro allI impI)
    fix f k o' assume uk: "uniq_key ci f k"
    have "holder ci1 f k = Some o' \<longrightarrow> tab_has ?ls (tab(oid := None)) o' f k"
      and "tab_has ?ls (tab(oid := None)) o' f k \<and> o' \<in> insert oid fin \<longrightarrow> holder ci1 f k = Some o'"
      using u1 uk unfolding uniq_rep_def f1(8) f1(1) by blast+
    then have a: "holder ci1 f k = Some o' \<Longrightarrow> o' \<noteq> oid \<and> tab_has ?ls tab o' f k"
      and b: "o' \<noteq> oid \<Longrightarrow> tab_has ?ls tab o' f k \<Longrightarrow> o' \<in> fin \<Longrightarrow> holder ci1 f k = Some o'"
      by (simp_all add: tab_has_delete)
    show "(holder ci' f k = Some o' \<longrightarrow> tab_has ?ls (tab(oid \<mapsto> r)) o' f k) \<and>
        (tab_has ?ls (tab(oid \<mapsto> r)) o' f k \<and> o' \<in> insert oid fin \<longrightarrow> holder ci' f k = Some o')"
    proof (cases "row_has_key ?ls r f k")
      case True
      then have "holder ci' f k = Some oid" using h uk by simp
      then show ?thesis using free [OF uk True, of o'] True unfolding tab_has_update by auto
    next
      case False
      then have "holder ci' f k = holder ci1 f k" using h by simp
      then show ?thesis using a b False by (simp add: tab_has_update)
    qed
  qed
qed

section \<open>A batch\<close>

text \<open>
  The writes of one commit to one class: every entry is inserted, then every deletion removed. An OID
  occurs once in a batch.
\<close>

definition ci_step :: "nat \<times> row option \<Rightarrow> class_indexes \<Rightarrow> class_indexes res" where
  "ci_step s ci = (case snd s of Some r \<Rightarrow> ci_insert (fst s) r ci | None \<Rightarrow> ci_remove (fst s) ci)"

definition tab_steps :: "(nat \<times> row option) list \<Rightarrow> table \<Rightarrow> table" where
  "tab_steps steps tab = fold (\<lambda>(oid, r) t. t(oid := r)) steps tab"

definition tab_unique :: "class_indexes \<Rightarrow> table \<Rightarrow> bool" where
  "tab_unique ci tab \<longleftrightarrow>
     (\<forall>f k a b. uniq_key ci f k \<and> tab_has (ci_list_fields ci) tab a f k \<and>
        tab_has (ci_list_fields ci) tab b f k \<longrightarrow> a = b)"

lemma tab_steps_simps [simp]:
  "tab_steps [] tab = tab"
  "tab_steps ((oid, r) # steps) tab = tab_steps steps (tab(oid := r))"
  by (simp_all add: tab_steps_def)

lemma tab_steps_other: "oid \<notin> fst ` set steps \<Longrightarrow> tab_steps steps tab oid = tab oid"
  by (induction steps arbitrary: tab) auto

lemma tab_steps_append: "tab_steps (s @ t) tab = tab_steps t (tab_steps s tab)"
  by (simp add: tab_steps_def)

lemma tab_has_steps_other:
  "oid \<notin> fst ` set steps \<Longrightarrow> tab_has ls (tab_steps steps tab) oid f k = tab_has ls tab oid f k"
  by (simp add: tab_has_def tab_steps_other)

lemma uniq_rep_mono: "uniq_rep ci tab fin \<Longrightarrow> fin' \<subseteq> fin \<Longrightarrow> uniq_rep ci tab fin'"
  unfolding uniq_rep_def by blast

lemma ci_step_rep:
  assumes "ci_core ci tab" and "ci_step (oid, ro) ci = Inr ci'"
    and "\<And>r. ro = Some r \<Longrightarrow> row_ok (ci_list_fields ci) r"
  shows "ci_core ci' (tab(oid := ro))" and "same_shape ci ci'"
    and "\<not> ci_building ci \<longrightarrow> runs_ok ci \<longrightarrow> runs_ok ci'"
proof -
  have "ci_core ci' (tab(oid := ro)) \<and> same_shape ci ci' \<and>
      (\<not> ci_building ci \<longrightarrow> runs_ok ci \<longrightarrow> runs_ok ci')"
  proof (cases ro)
    case None
    then show ?thesis
      using assms(1,2) ci_remove_core(1,2,3) by (simp add: ci_step_def)
  next
    case (Some r)
    then have "ci_insert oid r ci = Inr ci'" "row_ok (ci_list_fields ci) r"
      using assms(2,3) by (simp_all add: ci_step_def)
    then show ?thesis
      using assms(1) Some ci_insert_core ci_insert_steps(1,4) by simp
  qed
  then show "ci_core ci' (tab(oid := ro))" "same_shape ci ci'"
    "\<not> ci_building ci \<longrightarrow> runs_ok ci \<longrightarrow> runs_ok ci'" by simp_all
qed

lemma ci_steps_rep:
  assumes "ci_core ci tab" and "fold_res ci_step steps ci = Inr ci'"
    and "\<And>oid r. (oid, Some r) \<in> set steps \<Longrightarrow> row_ok (ci_list_fields ci) r"
  shows "ci_core ci' (tab_steps steps tab) \<and> same_shape ci ci' \<and>
    (\<not> ci_building ci \<longrightarrow> runs_ok ci \<longrightarrow> runs_ok ci')"
  using assms
proof (induction steps arbitrary: ci tab)
  case Nil
  then show ?case by (simp add: same_shape_def)
next
  case (Cons s steps)
  obtain oid ro where s: "s = (oid, ro)" by (cases s)
  obtain c1 where c1: "ci_step (oid, ro) ci = Inr c1" and r: "fold_res ci_step steps c1 = Inr ci'"
    using Cons.prems(2) s by (auto split: sum.splits)
  have ok: "row_ok (ci_list_fields ci) r" if "ro = Some r" for r
    using Cons.prems(3) [of oid r] s that by simp
  note st = ci_step_rep [OF Cons.prems(1) c1 ok]
  have oks: "row_ok (ci_list_fields c1) r" if "(o', Some r) \<in> set steps" for o' r
    using Cons.prems(3) [of o' r] that same_shape_simps(1) [OF st(2)] by simp
  have "ci_core ci' (tab_steps steps (tab(oid := ro))) \<and> same_shape c1 ci' \<and>
      (\<not> ci_building c1 \<longrightarrow> runs_ok c1 \<longrightarrow> runs_ok ci')"
    by (rule Cons.IH [OF st(1) r oks])
  moreover have "tab_steps (s # steps) tab = tab_steps steps (tab(oid := ro))" by (simp only: s tab_steps_simps)
  moreover note st(3) same_shape_simps(3) [OF st(2)]
  ultimately show ?case using same_shape_trans [OF st(2)] by (metis (full_types))
qed

lemma tab_unique_shape: "same_shape ci ci' \<Longrightarrow> tab_unique ci' = tab_unique ci"
  by (simp add: tab_unique_def same_shape_simps fun_eq_iff)

lemma ci_step_uniq:
  assumes "ci_core ci tab" and "ci_step (oid, ro) ci = Inr ci'"
    and "\<And>r. ro = Some r \<Longrightarrow> row_ok (ci_list_fields ci) r"
    and "uniq_rep ci tab fin"
    and "\<And>f k o'. uniq_key ci f k \<Longrightarrow> tab_has (ci_list_fields ci) (tab(oid := ro)) oid f k \<Longrightarrow> o' \<in> fin \<Longrightarrow>
      o' \<noteq> oid \<Longrightarrow> \<not> tab_has (ci_list_fields ci) tab o' f k"
  shows "uniq_rep ci' (tab(oid := ro)) (insert oid fin)"
proof (cases ro)
  case None
  then show ?thesis
    using assms(1,2,4) ci_remove_core(4) by (simp add: ci_step_def)
next
  case (Some r)
  then have ins: "ci_insert oid r ci = Inr ci'" and ok: "row_ok (ci_list_fields ci) r"
    using assms(2,3) by (simp_all add: ci_step_def)
  show ?thesis
    unfolding Some
    by (rule ci_insert_uniq [OF assms(1) ins ok assms(4)]) (use assms(5) Some in \<open>simp add: tab_has_update\<close>)
qed

lemma ci_steps_uniq:
  assumes "ci_core ci tab" and "fold_res ci_step steps ci = Inr ci'"
    and "\<And>oid r. (oid, Some r) \<in> set steps \<Longrightarrow> row_ok (ci_list_fields ci) r"
    and "distinct (map fst steps)" and "uniq_rep ci tab fin" and "fin \<inter> fst ` set steps = {}"
    and "tab_unique ci (tab_steps steps tab)"
  shows "uniq_rep ci' (tab_steps steps tab) (fin \<union> fst ` set steps)"
  using assms
proof (induction steps arbitrary: ci tab fin)
  case Nil
  then show ?case by simp
next
  case (Cons s steps)
  obtain oid ro where s: "s = (oid, ro)" by (cases s)
  let ?t1 = "tab(oid := ro)"
  obtain c1 where c1: "ci_step (oid, ro) ci = Inr c1" and r: "fold_res ci_step steps c1 = Inr ci'"
    using Cons.prems(2) s by (auto split: sum.splits)
  have ok: "row_ok (ci_list_fields ci) r" if "ro = Some r" for r
    using Cons.prems(3) [of oid r] s that by simp
  note st = ci_step_rep [OF Cons.prems(1) c1 ok]
  have o_notin: "oid \<notin> fst ` set steps" using Cons.prems(4) s by auto
  have uniq: "tab_unique ci (tab_steps steps ?t1)" using Cons.prems(7) s by simp
  have u1: "uniq_rep c1 ?t1 (insert oid fin)"
  proof (rule ci_step_uniq [OF Cons.prems(1) c1 ok Cons.prems(5)])
    fix f k o' assume uk: "uniq_key ci f k" and h: "tab_has (ci_list_fields ci) ?t1 oid f k"
      and o': "o' \<in> fin" "o' \<noteq> oid"
    have n: "o' \<notin> fst ` set steps" using o' Cons.prems(6) by auto
    show "\<not> tab_has (ci_list_fields ci) tab o' f k"
    proof
      assume "tab_has (ci_list_fields ci) tab o' f k"
      then have "tab_has (ci_list_fields ci) ?t1 o' f k" using o'(2) by (simp add: tab_has_def)
      then have "o' = oid"
        using uniq uk h tab_has_steps_other [OF n, of _ ?t1] tab_has_steps_other [OF o_notin, of _ ?t1]
        unfolding tab_unique_def by blast
      then show False using o'(2) by simp
    qed
  qed
  have oks: "row_ok (ci_list_fields c1) r" if "(o', Some r) \<in> set steps" for o' r
    using Cons.prems(3) [of o' r] that same_shape_simps(1) [OF st(2)] by simp
  have d: "insert oid fin \<inter> fst ` set steps = {}" "distinct (map fst steps)"
    using Cons.prems(4,6) s o_notin by auto
  have uniq1: "tab_unique c1 (tab_steps steps ?t1)"
    using uniq by (simp only: tab_unique_shape [OF st(2)])
  have "uniq_rep ci' (tab_steps steps ?t1) (insert oid fin \<union> fst ` set steps)"
    by (rule Cons.IH [OF st(1) r oks d(2) u1 d(1) uniq1])
  moreover have "tab_steps (s # steps) tab = tab_steps steps ?t1" by (simp only: s tab_steps_simps)
  moreover have "fin \<union> fst ` set (s # steps) = insert oid fin \<union> fst ` set steps" using s by simp
  ultimately show ?case by (simp only:)
qed

text \<open>A consistent index stays consistent over a batch whose result has no duplicate unique key.\<close>

lemma ci_batch:
  assumes "ci_rep ci tab" and "uniq_rep ci tab UNIV" and "fold_res ci_step steps ci = Inr ci'"
    and "\<And>oid r. (oid, Some r) \<in> set steps \<Longrightarrow> row_ok (ci_list_fields ci) r"
    and "distinct (map fst steps)" and "tab_unique ci (tab_steps steps tab)"
  shows "ci_rep ci' (tab_steps steps tab)" and "uniq_rep ci' (tab_steps steps tab) UNIV"
    and "same_shape ci ci'"
proof -
  have core: "ci_core ci tab" using assms(1) by (simp add: ci_rep_def)
  note st = ci_steps_rep [OF core assms(3,4)]
  show sh: "same_shape ci ci'" using st by simp
  show "ci_rep ci' (tab_steps steps tab)"
    using st assms(1) same_shape_simps(3) [OF sh] by (simp add: ci_rep_def)
  have "uniq_rep ci tab (- (fst ` set steps))" by (rule uniq_rep_mono [OF assms(2)]) simp
  then have "uniq_rep ci' (tab_steps steps tab) (- (fst ` set steps) \<union> fst ` set steps)"
    by (intro ci_steps_uniq [OF core assms(3,4,5) _ _ assms(6)]) auto
  then show "uniq_rep ci' (tab_steps steps tab) UNIV" by (simp add: Un_commute)
qed

end
