(* ===== verification/Index_Load.thy ===== *)
theory Index_Load
  imports Index_Rep
begin

text \<open>
  The un-index memory rebuilt after a cache load (\<open>_rebuild_last_values\<close>) is the memory that
  incremental maintenance would have kept: the first write after a load starts from the same index.
\<close>

section \<open>The memory as a set of (field, key, OID) triples\<close>

definition lv_add :: "string list \<Rightarrow> string \<times> key \<times> nat \<Rightarrow> (nat, row) dict \<Rightarrow> (nat, row) dict" where
  "lv_add ls t lv =
     (case t of (f, k, oid) \<Rightarrow> if f \<in> set ls then lv_add_elem f k oid lv else lv_add_scalar f k oid lv)"

definition lv_is :: "string list \<Rightarrow> (nat, row) dict \<Rightarrow> (string \<times> key \<times> nat) set \<Rightarrow> bool" where
  "lv_is ls lv S \<longleftrightarrow>
     (\<forall>oid. dict_wf (dict_getd lv oid []) \<and>
        (\<forall>f \<in> set ls. \<forall>v. dict_get (dict_getd lv oid []) f = Some v \<longrightarrow>
           (\<exists>ks. v = PList (map val_of_key ks))) \<and>
        (\<forall>f k. row_has_key ls (dict_getd lv oid []) f k \<longleftrightarrow> (f, k, oid) \<in> S))"

lemma hash_key_val_of_key [simp]: "hash_key (val_of_key k) = Inr k"
  by (simp add: hash_key_def)

lemma elem_keys_vals: "elem_keys (PList (map val_of_key ks)) = Inr (remdups ks)"
proof -
  have "map_res hash_key (map val_of_key ks) = Inr ks"
    by (induction ks) auto
  then show ?thesis by (simp add: elem_keys_def)
qed

lemma lv_is_Nil: "lv_is ls [] {}"
  by (simp add: lv_is_def dict_getd_def)

lemma row_has_key_update:
  "row_has_key ls (AList.update f v r) g k \<longleftrightarrow>
     (if g = f then val_has_key ls f v k else row_has_key ls r g k)"
  by (simp add: row_has_key_def)

lemma val_has_key_list: "f \<in> set ls \<Longrightarrow> val_has_key ls f (PList (map val_of_key ks)) k \<longleftrightarrow> k \<in> set ks"
  by (simp add: val_has_key_def field_keys_def elem_keys_vals)

lemma val_has_key_scalar: "f \<notin> set ls \<Longrightarrow> val_has_key ls f (val_of_key k') k \<longleftrightarrow> k = k'"
  by (simp add: val_has_key_def field_keys_def)

lemma lv_add_scalar_is:
  assumes "lv_is ls lv S" and "f \<notin> set ls" and "\<And>k'. (f, k', oid) \<in> S \<Longrightarrow> k' = k"
  shows "lv_is ls (lv_add_scalar f k oid lv) (insert (f, k, oid) S)"
proof -
  have h: "row_has_key ls (dict_getd lv o' []) g k' \<longleftrightarrow> (g, k', o') \<in> S" for o' g k'
    using assms(1) by (simp add: lv_is_def)
  have w: "dict_wf (dict_getd lv o' [])" for o' using assms(1) by (simp add: lv_is_def)
  have l: "\<exists>ks. v = PList (map val_of_key ks)"
    if "g \<in> set ls" "dict_get (dict_getd lv o' []) g = Some v" for o' g v
    using assms(1) that unfolding lv_is_def by blast
  show ?thesis
    unfolding lv_is_def lv_add_scalar_def
  proof (intro allI conjI ballI impI)
    fix o' show "dict_wf (dict_getd (AList.update oid (AList.update f (val_of_key k) (dict_getd lv oid [])) lv) o' [])"
      using w by simp
    fix g v
    show "\<exists>ks. v = PList (map val_of_key ks)"
      if "g \<in> set ls" "dict_get (dict_getd (AList.update oid (AList.update f (val_of_key k) (dict_getd lv oid [])) lv) o' []) g = Some v"
      using that l assms(2) by (auto split: if_splits)
    fix k'
    show "row_has_key ls (dict_getd (AList.update oid (AList.update f (val_of_key k) (dict_getd lv oid [])) lv) o' []) g k'
        \<longleftrightarrow> (g, k', o') \<in> insert (f, k, oid) S"
      using h [of o' g k'] assms(2,3) by (auto simp: row_has_key_update val_has_key_scalar)
  qed
qed

lemma lv_add_elem_is:
  assumes "lv_is ls lv S" and "f \<in> set ls" and "k \<noteq> KNone"
  shows "lv_is ls (lv_add_elem f k oid lv) (insert (f, k, oid) S)"
proof -
  have h: "row_has_key ls (dict_getd lv o' []) g k' \<longleftrightarrow> (g, k', o') \<in> S" for o' g k'
    using assms(1) by (simp add: lv_is_def)
  have w: "dict_wf (dict_getd lv o' [])" for o' using assms(1) by (simp add: lv_is_def)
  have l: "\<exists>ks. v = PList (map val_of_key ks)"
    if "g \<in> set ls" "dict_get (dict_getd lv o' []) g = Some v" for o' g v
    using assms(1) that unfolding lv_is_def by blast
  let ?e = "dict_getd lv oid []"
  obtain ks where ks: "dict_getd ?e f (PList []) = PList (map val_of_key ks)"
    using l [OF assms(2), of oid] by (cases "dict_get ?e f") (auto simp: dict_getd_def intro: exI [of _ "[]"])
  have in_ks: "k' \<in> set ks \<longleftrightarrow> (f, k', oid) \<in> S" for k'
  proof (cases "dict_get ?e f")
    case None
    then have "ks = []" using ks by (simp add: dict_getd_def)
    moreover have "(f, k', oid) \<notin> S" using h [of oid f k'] None by (simp add: row_has_key_def)
    ultimately show ?thesis by simp
  next
    case (Some v)
    then have "v = PList (map val_of_key ks)" using ks by (simp add: dict_getd_def)
    then show ?thesis
      using h [of oid f k'] Some val_has_key_list [OF assms(2)] by (simp add: row_has_key_def)
  qed
  have lv': "lv_add_elem f k oid lv = AList.update oid (AList.update f (PList (map val_of_key (ks @ [k]))) ?e) lv"
    using assms(3) ks by (simp add: lv_add_elem_def)
  show ?thesis
    unfolding lv_is_def lv'
  proof (intro allI conjI ballI impI)
    fix o' show "dict_wf (dict_getd (AList.update oid (AList.update f (PList (map val_of_key (ks @ [k]))) ?e) lv) o' [])"
      using w by simp
    fix g v
    show "\<exists>ks. v = PList (map val_of_key ks)"
      if "g \<in> set ls" "dict_get (dict_getd (AList.update oid (AList.update f (PList (map val_of_key (ks @ [k]))) ?e) lv) o' []) g = Some v"
      using that l by (auto split: if_splits simp flip: map_append)
    fix k'
    show "row_has_key ls (dict_getd (AList.update oid (AList.update f (PList (map val_of_key (ks @ [k]))) ?e) lv) o' []) g k'
        \<longleftrightarrow> (g, k', o') \<in> insert (f, k, oid) S"
      using h [of o' g k'] in_ks [of k'] val_has_key_list [OF assms(2), of "ks @ [k]"]
      by (auto simp: row_has_key_update)
  qed
qed

definition lv_functional :: "string list \<Rightarrow> (string \<times> key \<times> nat) set \<Rightarrow> bool" where
  "lv_functional ls S \<longleftrightarrow>
     (\<forall>f k oid. (f, k, oid) \<in> S \<longrightarrow>
        (if f \<in> set ls then k \<noteq> KNone else (\<forall>k'. (f, k', oid) \<in> S \<longrightarrow> k' = k)))"

lemma lv_adds_is:
  assumes "lv_is ls lv S" and "lv_functional ls (S \<union> set ts)"
  shows "lv_is ls (fold (lv_add ls) ts lv) (S \<union> set ts)"
  using assms
proof (induction ts arbitrary: lv S)
  case Nil
  then show ?case by simp
next
  case (Cons t ts)
  obtain f k oid where t: "t = (f, k, oid)" by (cases t) auto
  have fk: "if f \<in> set ls then k \<noteq> KNone else (\<forall>k'. (f, k', oid) \<in> S \<union> set (t # ts) \<longrightarrow> k' = k)"
    using Cons.prems(2) t unfolding lv_functional_def by simp
  have "lv_is ls (lv_add ls t lv) (insert t S)"
  proof (cases "f \<in> set ls")
    case True
    then show ?thesis
      using lv_add_elem_is [OF Cons.prems(1) True] fk t by (simp add: lv_add_def)
  next
    case False
    have "\<And>k'. (f, k', oid) \<in> S \<Longrightarrow> k' = k" using fk False by simp
    then show ?thesis
      using lv_add_scalar_is [OF Cons.prems(1) False] False t by (simp add: lv_add_def)
  qed
  moreover have "insert t S \<union> set ts = S \<union> set (t # ts)" by simp
  ultimately show ?case
    using Cons.IH [of "lv_add ls t lv" "insert t S"] Cons.prems(2) by simp
qed

section \<open>The rebuild\<close>

definition eq_triples :: "class_indexes \<Rightarrow> (string \<times> key \<times> nat) list" where
  "eq_triples ci =
     concat (map (\<lambda>(f, col). concat (map (\<lambda>(k, bm). map (\<lambda>oid. (f, k, oid)) (bm_iter bm)) col)) (ci_eq ci))"

definition unique_triples :: "class_indexes \<Rightarrow> (string \<times> key \<times> nat) list" where
  "unique_triples ci =
     concat (map (\<lambda>f. if dict_get (ci_eq ci) f = None
       then map (\<lambda>(k, oid). (f, k, oid)) (dict_getd (ci_unique ci) f []) else []) (ci_unique_fields ci))"

lemma fold_concat_map: "fold g (concat (map h xs)) s = fold (\<lambda>x. fold g (h x)) xs s"
  by (induction xs arbitrary: s) auto

lemma fold_cong_set: "(\<And>x s. x \<in> set xs \<Longrightarrow> f x s = g x s) \<Longrightarrow> fold f xs s = fold g xs s"
  by (induction xs arbitrary: s) auto

lemma rebuild_eq_triples:
  "fold (\<lambda>(f, col) lv.
      fold (\<lambda>(k, bm) lv.
        fold (\<lambda>oid lv.
          if f \<in> set (ci_list_fields ci) then lv_add_elem f k oid lv else lv_add_scalar f k oid lv)
          (bm_iter bm) lv) col lv) (ci_eq ci) lv0 =
   fold (lv_add (ci_list_fields ci)) (eq_triples ci) lv0"
  unfolding eq_triples_def fold_concat_map
  by (rule fold_cong_set) (auto simp: fold_concat_map fold_map lv_add_def o_def split_def intro!: fold_cong_set)

lemma rebuild_unique_triples:
  assumes "\<forall>f \<in> set (ci_unique_fields ci). f \<notin> set (ci_list_fields ci)"
  shows "fold (\<lambda>f lv.
          if dict_get (ci_eq ci) f = None
          then fold (\<lambda>(k, oid) lv. lv_add_scalar f k oid lv) (dict_getd (ci_unique ci) f []) lv
          else lv) (ci_unique_fields ci) lv0 =
   fold (lv_add (ci_list_fields ci)) (unique_triples ci) lv0"
  unfolding unique_triples_def fold_concat_map
  by (rule fold_cong_set) (use assms in \<open>auto simp: fold_map lv_add_def o_def split_def intro!: fold_cong_set\<close>)

lemma set_eq_triples:
  assumes "dict_wf (ci_eq ci)" and "\<And>f. dict_wf (col_of ci f)" and "\<And>f k. finite (posting ci f k)"
  shows "(f, k, oid) \<in> set (eq_triples ci) \<longleftrightarrow> oid \<in> posting ci f k"
proof -
  have "(f, k, oid) \<in> set (eq_triples ci) \<longleftrightarrow>
      (\<exists>col bm. (f, col) \<in> set (ci_eq ci) \<and> (k, bm) \<in> set col \<and> oid \<in> set (bm_iter bm))"
    by (simp add: eq_triples_def split_def image_iff) force
  also have "\<dots> \<longleftrightarrow> (\<exists>bm. (k, bm) \<in> set (col_of ci f) \<and> oid \<in> set (bm_iter bm))"
  proof (cases "dict_get (ci_eq ci) f")
    case None
    then show ?thesis using dict_wf_in_set [OF assms(1)] by (simp add: col_of_def dict_getd_def)
  next
    case (Some c)
    then show ?thesis using dict_wf_in_set [OF assms(1)] by (simp add: col_of_Some)
  qed
  also have "\<dots> \<longleftrightarrow> oid \<in> posting ci f k"
  proof (cases "dict_get (col_of ci f) k")
    case None
    then show ?thesis using dict_wf_in_set [OF assms(2)] by (simp add: posting_def dict_getd_def)
  next
    case (Some bm)
    then have "posting ci f k = bm" by (simp add: posting_def dict_getd_def)
    then show ?thesis using Some dict_wf_in_set [OF assms(2)] assms(3) [of f k] by simp
  qed
  finally show ?thesis .
qed

lemma set_unique_triples:
  assumes "\<And>f. dict_wf (dict_getd (ci_unique ci) f [])"
  shows "(f, k, oid) \<in> set (unique_triples ci) \<longleftrightarrow>
     f \<in> set (ci_unique_fields ci) \<and> dict_get (ci_eq ci) f = None \<and> holder ci f k = Some oid"
proof -
  have "(f, k, oid) \<in> set (unique_triples ci) \<longleftrightarrow>
      f \<in> set (ci_unique_fields ci) \<and> dict_get (ci_eq ci) f = None \<and>
      (k, oid) \<in> set (dict_getd (ci_unique ci) f [])"
    by (simp add: unique_triples_def split_def image_iff)
  then show ?thesis
    using dict_wf_in_set [OF assms, of k oid f] by (simp add: holder_def)
qed

definition dicts_wf :: "class_indexes \<Rightarrow> bool" where
  "dicts_wf ci \<longleftrightarrow> dict_wf (ci_eq ci) \<and> (\<forall>f. dict_wf (col_of ci f)) \<and>
     dict_wf (ci_unique ci) \<and> set (dict_keys (ci_unique ci)) = set (ci_unique_fields ci) \<and>
     (\<forall>f. dict_wf (dict_getd (ci_unique ci) f []) \<and> holder ci f KNone = None)"

lemma dicts_wf_frame [simp]:
  "dicts_wf (ci\<lparr>ci_extent := e\<rparr>) = dicts_wf ci" "dicts_wf (ci\<lparr>ci_last_values := l\<rparr>) = dicts_wf ci"
  "dicts_wf (ci\<lparr>ci_needs_lv_rebuild := b\<rparr>) = dicts_wf ci" "dicts_wf (ci\<lparr>ci_building := b\<rparr>) = dicts_wf ci"
  "dicts_wf (ci\<lparr>ci_sorted_keys := s\<rparr>) = dicts_wf ci" "dicts_wf (ensure_last_values ci) = dicts_wf ci"
  by (simp_all add: dicts_wf_def col_of_def holder_def)

lemma dicts_wf_set_col:
  "dicts_wf ci \<Longrightarrow> dict_wf c \<Longrightarrow> dicts_wf (set_col f c ci)"
  by (simp add: dicts_wf_def) (simp add: set_col_def)

lemma dicts_wf_unique:
  assumes "dicts_wf ci" and "dict_get (ci_unique ci) f = Some h0" and "dict_wf h" and "dict_get h KNone = None"
  shows "dicts_wf (ci\<lparr>ci_unique := AList.update f h (ci_unique ci)\<rparr>)"
proof -
  have "f \<in> set (ci_unique_fields ci)"
    using assms(1,2) map_of_SomeD [OF assms(2)] by (force simp: dicts_wf_def)
  moreover have "set (dict_keys (AList.update f h (ci_unique ci))) = insert f (set (dict_keys (ci_unique ci)))"
    by (auto simp: update_conv' simp flip: dom_map_of_conv_image_fst)
  ultimately show ?thesis
    using assms by (auto simp: dicts_wf_def holder_update_unique)
qed

lemma dicts_wf_getD:
  assumes "dicts_wf ci"
  shows "dict_get (ci_eq ci) f = Some c \<Longrightarrow> dict_wf c"
    and "dict_get (ci_unique ci) f = Some h \<Longrightarrow> dict_wf h \<and> dict_get h KNone = None"
proof -
  show "dict_wf c" if "dict_get (ci_eq ci) f = Some c"
    using assms that by (metis col_of_Some dicts_wf_def)
  show "dict_wf h \<and> dict_get h KNone = None" if "dict_get (ci_unique ci) f = Some h"
    using assms that holder_Some [OF that] unfolding dicts_wf_def by (metis dict_getd_def option.simps(5))
qed

lemma dicts_wf_unindex_field:
  assumes "unindex_field oid fv ci = Inr ci'" and "dicts_wf ci"
  shows "dicts_wf ci'"
proof (cases "fst fv \<in> set (ci_list_fields ci)")
  case True
  then show ?thesis
    using assms by (auto simp: unindex_field_def Let_def bind_res_Inr dest: dicts_wf_getD(1)
        intro!: dicts_wf_set_col split: if_splits option.splits)
next
  case False
  define m where "m = (case dict_get (ci_eq ci) (fst fv) of
             None \<Rightarrow> Inr ci
           | Some col \<Rightarrow> bind_res (hash_key (snd fv)) (\<lambda>k. Inr (set_col (fst fv) (post_discard col k oid) ci)))"
  obtain c1 where m: "m = Inr c1" and r: "(if fst fv \<in> set (ci_unique_fields c1) \<and> snd fv \<noteq> PNone then
          (case dict_get (ci_unique c1) (fst fv) of
             None \<Rightarrow> Inl PyKeyError
           | Some hs \<Rightarrow>
               bind_res (hash_key (snd fv)) (\<lambda>k.
                 Inr (if dict_get hs k = Some oid
                      then c1\<lparr>ci_unique := AList.update (fst fv) (AList.delete k hs) (ci_unique c1)\<rparr>
                      else c1)))
        else Inr c1) = Inr ci'"
    using assms(1) False unfolding unindex_field_def Let_def by (auto simp: m_def bind_res_Inr)
  have "dicts_wf c1"
    using m assms(2) by (auto simp: m_def bind_res_Inr intro!: dicts_wf_set_col dest: dicts_wf_getD(1) split: option.splits)
  then show ?thesis
    using r by (auto simp: bind_res_Inr intro!: dicts_wf_unique dest: dicts_wf_getD(2) split: if_splits option.splits)
qed

lemma dicts_wf_enter_run: "enter_sorted_run f v k ci = Inr ci' \<Longrightarrow> dicts_wf ci \<Longrightarrow> dicts_wf ci'"
  by (auto simp: enter_sorted_run_def bind_res_Inr split: if_splits option.splits)

lemma dicts_wf_index_field:
  assumes "index_field oid fv ci = Inr ci'" and "dicts_wf ci"
  shows "dicts_wf ci'"
proof (cases "fst fv \<in> set (ci_list_fields ci)")
  case True
  then show ?thesis
    using assms by (auto simp: index_field_def index_list_field_def bind_res_Inr dest: dicts_wf_getD(1)
        intro!: dicts_wf_set_col split: if_splits option.splits)
next
  case False
  define m where "m = (case dict_get (ci_eq ci) (fst fv) of
          None \<Rightarrow> Inr ci
        | Some col \<Rightarrow>
            bind_res (hash_key (snd fv)) (\<lambda>k.
            bind_res (if dict_get col k = None then enter_sorted_run (fst fv) (snd fv) k ci else Inr ci) (\<lambda>ci1.
              Inr (set_col (fst fv) (post_add col k oid) ci1))))"
  obtain c1 where m: "m = Inr c1" and r: "(if fst fv \<in> set (ci_unique_fields c1) \<and> snd fv \<noteq> PNone then
       (case dict_get (ci_unique c1) (fst fv) of
          None \<Rightarrow> Inl PyKeyError
        | Some hs \<Rightarrow>
            bind_res (hash_key (snd fv)) (\<lambda>k.
              Inr (c1\<lparr>ci_unique := AList.update (fst fv) (AList.update k oid hs) (ci_unique c1)\<rparr>)))
     else Inr c1) = Inr ci'"
    using assms(1) False unfolding index_field_def index_scalar_field_def by (auto simp: m_def bind_res_Inr)
  have "dicts_wf c1"
    using m assms(2) by (auto simp: m_def bind_res_Inr intro!: dicts_wf_set_col
        dest: dicts_wf_getD(1) dicts_wf_enter_run split: option.splits if_splits)
  then show ?thesis
    using r by (auto simp: bind_res_Inr hash_key_None_iff intro!: dicts_wf_unique dest: dicts_wf_getD(2)
        split: if_splits option.splits)
qed

lemma dicts_wf_pop: "pop_old oid ci = Inr ci' \<Longrightarrow> dicts_wf ci \<Longrightarrow> dicts_wf ci'"
  by (auto simp: pop_old_def unindex_def split: option.splits
      elim!: fold_res_invariant [where P = dicts_wf] dicts_wf_unindex_field)

lemma dicts_wf_step:
  assumes "ci_step s ci = Inr ci'" and "dicts_wf ci"
  shows "dicts_wf ci'"
proof (cases "snd s")
  case None
  then show ?thesis
    using assms by (auto simp: ci_step_def ci_remove_def bind_res_Inr dest: dicts_wf_pop)
next
  case (Some r)
  then obtain c1 c2 where p: "pop_old (fst s) (ensure_last_values ci) = Inr c1"
    and f: "fold_res (index_field (fst s)) r (c1\<lparr>ci_extent := insert (fst s) (ci_extent c1)\<rparr>) = Inr c2"
    and c: "ci' = c2\<lparr>ci_last_values := AList.update (fst s) (lv_snapshot c2 r) (ci_last_values c2)\<rparr>"
    using assms(1) by (auto simp: ci_step_def ci_insert_def bind_res_Inr)
  have "dicts_wf c1" using dicts_wf_pop [OF p] assms(2) by simp
  then have "dicts_wf c2"
    by (intro fold_res_invariant [where P = dicts_wf, OF f]) (auto intro: dicts_wf_index_field)
  then show ?thesis using c by simp
qed

lemma dicts_wf_steps: "fold_res ci_step steps ci = Inr ci' \<Longrightarrow> dicts_wf ci \<Longrightarrow> dicts_wf ci'"
  by (erule fold_res_invariant [where P = dicts_wf]) (auto intro: dicts_wf_step)

lemma row_ok_listed:
  assumes "row_ok ls r" and "f \<in> set ls" shows "\<not> row_has_key ls r f KNone"
proof (cases "dict_get r f")
  case None
  then show ?thesis by (simp add: row_has_key_def)
next
  case (Some v)
  then have "(f, v) \<in> set r" by (rule map_of_SomeD)
  then show ?thesis
    using assms Some by (cases "field_keys ls f v") (auto simp: row_ok_def row_has_key_def val_has_key_def)
qed

lemma scalar_key_unique:
  "f \<notin> set ls \<Longrightarrow> row_has_key ls r f k \<Longrightarrow> row_has_key ls r f k' \<Longrightarrow> k' = k"
  by (cases "dict_get r f") (auto simp: row_has_key_def val_has_key_def field_keys_def bind_res_Inr
      split: sum.splits)

text \<open>
  The rebuilt memory is right for the table the postings and the unique map represent; the keys of a
  pure-Unique field come from the unique map, where \<open>None\<close> never is.
\<close>

lemma rebuild_last_values_rep:
  assumes shape: "ci_shape ci" and wf: "dicts_wf ci" and fin: "finite (dom tab)"
    and rows: "\<And>oid r. tab oid = Some r \<Longrightarrow> row_ok (ci_list_fields ci) r"
    and post: "postings_rep ci tab" and uniq: "uniq_rep ci tab UNIV"
  shows "lv_rep ci tab (ci_last_values (rebuild_last_values ci))"
proof -
  have none: "holder ci f KNone = None" for f using wf by (simp add: dicts_wf_def)
  let ?ls = "ci_list_fields ci"
  let ?S = "set (eq_triples ci @ unique_triples ci)"
  have finp: "finite (posting ci f k)" for f k
  proof (cases "dict_get (ci_eq ci) f = None")
    case False
    then have "posting ci f k \<subseteq> dom tab"
      using post by (auto simp: postings_rep_def tab_has_def split: option.splits)
    then show ?thesis using fin finite_subset by blast
  qed simp
  have ul: "\<forall>f \<in> set (ci_unique_fields ci). f \<notin> set ?ls" using shape by (auto simp: ci_shape_def)
  have mem: "(f, k, oid) \<in> ?S \<longleftrightarrow> tracked ci f k \<and> tab_has ?ls tab oid f k" for f k oid
  proof (cases "dict_get (ci_eq ci) f = None")
    case True
    then have "(f, k, oid) \<in> ?S \<longleftrightarrow> f \<in> set (ci_unique_fields ci) \<and> holder ci f k = Some oid"
      using set_eq_triples [of ci f k oid] set_unique_triples [of ci f k oid] wf finp
      by (simp add: dicts_wf_def)
    also have "\<dots> \<longleftrightarrow> uniq_key ci f k \<and> tab_has ?ls tab oid f k"
    proof (cases "uniq_key ci f k")
      case True
      then have "holder ci f k = Some oid \<longleftrightarrow> tab_has ?ls tab oid f k"
        using uniq unfolding uniq_rep_def by blast
      then show ?thesis using True by (simp add: uniq_key_def)
    next
      case False
      then show ?thesis using none [of f] by (auto simp: uniq_key_def)
    qed
    also have "\<dots> \<longleftrightarrow> tracked ci f k \<and> tab_has ?ls tab oid f k"
      using True by (auto simp: tracked_def uniq_key_def)
    finally show ?thesis .
  next
    case False
    then have "(f, k, oid) \<in> ?S \<longleftrightarrow> oid \<in> posting ci f k"
      using set_eq_triples [of ci f k oid] set_unique_triples [of ci f k oid] wf finp
      by (auto simp add: dicts_wf_def)
    then show ?thesis using post False by (simp add: postings_rep_def tracked_def)
  qed
  have func: "lv_functional ?ls ?S"
    unfolding lv_functional_def mem
  proof (intro allI impI)
    fix f k oid assume "tracked ci f k \<and> tab_has ?ls tab oid f k"
    then obtain r where r: "tab oid = Some r" "row_has_key ?ls r f k"
      by (auto simp: tab_has_def split: option.splits)
    have "k \<noteq> KNone" if "f \<in> set ?ls"
      using row_ok_listed [OF rows [OF r(1)] that] r(2) by blast
    moreover have "k' = k" if "f \<notin> set ?ls" "tab_has ?ls tab oid f k'" for k'
      using scalar_key_unique [OF that(1) r(2)] that(2) r(1) by (simp add: tab_has_def)
    ultimately show "if f \<in> set ?ls then k \<noteq> KNone
        else \<forall>k'. tracked ci f k' \<and> tab_has ?ls tab oid f k' \<longrightarrow> k' = k"
      by simp
  qed
  have "ci_last_values (rebuild_last_values ci) = fold (lv_add ?ls) (eq_triples ci @ unique_triples ci) []"
    by (simp add: rebuild_last_values_def Let_def rebuild_eq_triples rebuild_unique_triples [OF ul])
  then have "lv_is ?ls (ci_last_values (rebuild_last_values ci)) ?S"
    using lv_adds_is [OF lv_is_Nil, of ?ls "eq_triples ci @ unique_triples ci"] func by simp
  then show ?thesis
    unfolding lv_rep_def lv_is_def mem by blast
qed

section \<open>Deriving the sorted runs\<close>

lemma sorted_run_Inr: "sorted_run ks = Inr run \<longleftrightarrow> homogeneous ks \<and> run = sort ks"
  by (cases "py_sorted ks") (auto simp: sorted_run_def py_sorted_Inr py_sorted_def split: if_splits)

definition run_source :: "class_indexes \<Rightarrow> string \<Rightarrow> key list" where
  "run_source ci f = filter (\<lambda>k. k \<noteq> KNone) (dict_keys (col_of ci f))"

definition with_runs :: "class_indexes \<Rightarrow> string list \<Rightarrow> class_indexes" where
  "with_runs ci fs =
     ci\<lparr>ci_sorted_keys := fold (\<lambda>f. AList.update f (sort (run_source ci f))) fs (ci_sorted_keys ci)\<rparr>"

lemma with_runs_simps [simp]:
  "ci_eq (with_runs ci fs) = ci_eq ci" "ci_unique (with_runs ci fs) = ci_unique ci"
  "ci_extent (with_runs ci fs) = ci_extent ci" "ci_list_fields (with_runs ci fs) = ci_list_fields ci"
  "ci_sorted_fields (with_runs ci fs) = ci_sorted_fields ci"
  "ci_unique_fields (with_runs ci fs) = ci_unique_fields ci"
  "ci_building (with_runs ci fs) = ci_building ci" "ci_last_values (with_runs ci fs) = ci_last_values ci"
  "ci_needs_lv_rebuild (with_runs ci fs) = ci_needs_lv_rebuild ci"
  "col_of (with_runs ci fs) = col_of ci" "posting (with_runs ci fs) = posting ci"
  "holder (with_runs ci fs) = holder ci" "col_keys (with_runs ci fs) = col_keys ci"
  "run_source (with_runs ci fs) = run_source ci"
  by (simp_all add: with_runs_def col_of_def posting_def holder_def col_keys_def run_source_def fun_eq_iff)

lemma derive_runs_step:
  "fold_res (\<lambda>f c.
       bind_res (sorted_run (filter (\<lambda>k. k \<noteq> KNone) (dict_keys (dict_getd (ci_eq c) f []))))
         (\<lambda>run. Inr (c\<lparr>ci_sorted_keys := AList.update f run (ci_sorted_keys c)\<rparr>))) fs ci = Inr ci' \<longleftrightarrow>
   (\<forall>f \<in> set fs. homogeneous (run_source ci f)) \<and> ci' = with_runs ci fs"
proof (induction fs arbitrary: ci)
  case Nil
  then show ?case by (auto simp: with_runs_def)
next
  case (Cons f fs)
  have src: "filter (\<lambda>k. k \<noteq> KNone) (dict_keys (dict_getd (ci_eq ci) f [])) = run_source ci f"
    by (simp add: run_source_def col_of_def)
  let ?c = "ci\<lparr>ci_sorted_keys := AList.update f (sort (run_source ci f)) (ci_sorted_keys ci)\<rparr>"
  have c: "?c = with_runs ci [f]" "run_source ?c = run_source ci"
    by (simp_all add: with_runs_def run_source_def col_of_def fun_eq_iff)
  have "with_runs ?c fs = with_runs ci (f # fs)" using c(2) by (simp add: with_runs_def)
  moreover have "sorted_run (run_source ci f) = Inr (sort (run_source ci f))"
    if "homogeneous (run_source ci f)" using that by (simp add: sorted_run_Inr)
  moreover have "\<exists>e. sorted_run (run_source ci f) = Inl e" if "\<not> homogeneous (run_source ci f)"
    using that sorted_run_Inr [of "run_source ci f"] by (cases "sorted_run (run_source ci f)") auto
  ultimately show ?case
    using Cons.IH [of ?c] c(2) src
    by (cases "homogeneous (run_source ci f)") auto
qed

lemma derive_runs_Inr:
  "derive_runs ci = Inr ci' \<longleftrightarrow>
     (\<forall>f \<in> set (ci_sorted_fields ci). homogeneous (run_source ci f)) \<and> ci' = with_runs ci (ci_sorted_fields ci)"
  unfolding derive_runs_def by (rule derive_runs_step)

lemma fold_update_getd:
  "f \<in> set fs \<Longrightarrow> dict_getd (fold (\<lambda>f. AList.update f (g f)) fs d) f x = g f"
proof (induction fs arbitrary: d)
  case Nil
  then show ?case by simp
next
  case (Cons a fs)
  show ?case
  proof (cases "f \<in> set fs")
    case True
    then show ?thesis using Cons.IH by simp
  next
    case False
    have "dict_get (fold (\<lambda>f. AList.update f (g f)) fs d') f = dict_get d' f" for d'
      using False by (induction fs arbitrary: d') auto
    then show ?thesis using Cons.prems False by (simp add: dict_getd_def)
  qed
qed

lemma fold_update_dom: "dict_get (fold (\<lambda>f. AList.update f (g f)) fs d) f = None \<longleftrightarrow>
    f \<notin> set fs \<and> dict_get d f = None"
  by (induction fs arbitrary: d) auto

lemma homogeneous_sort: "distinct ks \<Longrightarrow> homogeneous ks \<Longrightarrow> homogeneous (sort ks)"
  by (simp add: homogeneous_set)

lemma run_source_set: "set (run_source ci f) = col_keys ci f - {KNone}"
  by (auto simp: run_source_def col_keys_def dom_map_of_conv_image_fst)

lemma with_runs_ok:
  assumes "\<And>f. dict_wf (col_of ci f)" and "\<forall>f \<in> set (ci_sorted_fields ci). homogeneous (run_source ci f)"
  shows "runs_ok (with_runs ci (ci_sorted_fields ci))"
  unfolding runs_ok_def
proof
  fix f assume "f \<in> set (ci_sorted_fields (with_runs ci (ci_sorted_fields ci)))"
  then have f: "f \<in> set (ci_sorted_fields ci)" by simp
  then have "run_of (with_runs ci (ci_sorted_fields ci)) f = sort (run_source ci f)"
    by (simp add: run_of_def with_runs_def fold_update_getd)
  moreover have "distinct (run_source ci f)"
    using assms(1) [of f] by (simp add: run_source_def dict_wf_def)
  ultimately show "run_ok (with_runs ci (ci_sorted_fields ci)) f"
    using assms(2) f run_source_set [of ci f] by (simp add: run_ok_def homogeneous_sort)
qed

lemma with_runs_shape: "ci_shape ci \<Longrightarrow> ci_shape (with_runs ci (ci_sorted_fields ci))"
  unfolding ci_shape_def with_runs_simps
  by (simp add: with_runs_def fold_update_dom)

end
