(* ===== verification/Index_Build.thy ===== *)
theory Index_Build
  imports Index_Load
begin

text \<open>
  \<open>_indexes.py\<close>: building a class's index from its records (\<open>build_class_indexes\<close> with the additive
  schema-evolution fill) and the cache form of an index (\<open>dump\<close> and \<open>load\<close>). \<open>decode\<close> is the record
  decoder of \<open>_records.py\<close>; the serialization of a bitmap (\<open>BitMap64.serialize\<close>) is a parameter.
\<close>

section \<open>Fields of a class\<close>

definition eq_index_fields :: "typeinfo \<Rightarrow> string list" where
  "eq_index_fields ti = map fs_name (filter (\<lambda>s. fs_indexed s \<or> fs_sorted s) (ti_specs ti))"

definition maintained_fields :: "typeinfo \<Rightarrow> string list" where
  "maintained_fields ti = map fs_name (filter (\<lambda>s. fs_indexed s \<or> fs_sorted s \<or> fs_unique s) (ti_specs ti))"

definition unique_field_names :: "typeinfo \<Rightarrow> string list" where
  "unique_field_names ti = map fs_name (filter fs_unique (ti_specs ti))"

definition multivalued_field_names :: "typeinfo \<Rightarrow> string list" where
  "multivalued_field_names ti = map fs_name (filter fs_multivalued (ti_specs ti))"

definition sorted_field_names :: "typeinfo \<Rightarrow> string list" where
  "sorted_field_names ti = map fs_name (filter fs_sorted (ti_specs ti))"

lemmas field_name_defs = eq_index_fields_def maintained_fields_def unique_field_names_def
  multivalued_field_names_def sorted_field_names_def

definition empty_index :: "typeinfo \<Rightarrow> class_indexes" where
  "empty_index ti =
     new_class_indexes (eq_index_fields ti) (unique_field_names ti) (multivalued_field_names ti)
       (sorted_field_names ti)"

section \<open>Scanning the lineage\<close>

definition legacy_fill :: "string \<Rightarrow> pyval option" where
  "legacy_fill name =
     (if name = ''_dc_owner'' then Some (PInt (lb_owner legacy_labels))
      else if name = ''_dc_groups'' then Some (PList (map PInt (lb_groups legacy_labels)))
      else if name = ''_dc_read_floor'' then Some (PInt (lb_read legacy_labels))
      else if name = ''_dc_write_floor'' then Some (PInt (lb_write legacy_labels))
      else None)"

definition fill_field :: "typeinfo \<Rightarrow> string list \<Rightarrow> string list \<Rightarrow> string \<Rightarrow> row \<times> string option \<Rightarrow>
    (row \<times> string option) res" where
  "fill_field ti persisted unique name acc =
     (let (fills, colliding) = acc in
      if name \<in> set persisted then Inr acc
      else case (if ti_protected ti then legacy_fill name else None) of
        Some v \<Rightarrow> Inr (AList.update name v fills, colliding)
      | None \<Rightarrow>
          (case dict_get (ti_defaults ti) name of
             None \<Rightarrow> Inl SchemaMismatchError
           | Some v \<Rightarrow>
               Inr (AList.update name v fills,
                    if name \<in> set unique \<and> v \<noteq> PNone then Some name else colliding)))"

definition schema_evolution_fill ::
  "typeinfo \<Rightarrow> string list \<Rightarrow> string list \<Rightarrow> string list \<Rightarrow> (row \<times> string option) res" where
  "schema_evolution_fill ti persisted maintained unique =
     fold_res (fill_field ti persisted unique) maintained ([], None)"

fun position_in :: "string list \<Rightarrow> string \<Rightarrow> nat" where
  "position_in [] n = 0"
| "position_in (m # ms) n = (if m = n then 0 else Suc (position_in ms n))"

definition record_entry :: "string list \<Rightarrow> string list \<Rightarrow> row \<Rightarrow> pyval list \<Rightarrow> row res" where
  "record_entry maintained persisted fills values =
     bind_res
       (map_res (\<lambda>n. let i = position_in persisted n in
            if i < length values then Inr (n, values ! i) else Inl PyIndexError)
          (filter (\<lambda>n. n \<in> set persisted) maintained))
       (\<lambda>entry. Inr (fold (\<lambda>(n, v). AList.update n v) fills entry))"

definition build_cid ::
  "(bytes \<Rightarrow> pyval list res) \<Rightarrow> typeinfo \<Rightarrow> (nat \<Rightarrow> (nat \<times> bytes) list) \<Rightarrow> nat \<times> string list \<Rightarrow>
     class_indexes \<Rightarrow> class_indexes res" where
  "build_cid decode ti scan shp ci =
     (let (cid, persisted) = shp; maintained = maintained_fields ti in
      if maintained = []
      then Inr (fold (\<lambda>(oid, p) c. c\<lparr>ci_extent := insert oid (ci_extent c)\<rparr>) (scan cid) ci)
      else
        bind_res (schema_evolution_fill ti persisted maintained (unique_field_names ti)) (\<lambda>(fills, colliding).
          fold_res (\<lambda>(oid, payload) c.
            if colliding \<noteq> None then Inl SchemaMismatchError
            else
              bind_res (decode payload) (\<lambda>values.
              bind_res (record_entry maintained persisted fills values) (\<lambda>entry. ci_insert oid entry c)))
            (scan cid) ci))"

definition build_class_indexes ::
  "(bytes \<Rightarrow> pyval list res) \<Rightarrow> typeinfo \<Rightarrow> (nat \<times> string list) list \<Rightarrow> (nat \<Rightarrow> (nat \<times> bytes) list) \<Rightarrow>
     class_indexes res" where
  "build_class_indexes decode ti lineage scan =
     bind_res (fold_res (build_cid decode ti scan) lineage (begin_bulk (empty_index ti))) finalize_build"

text \<open>The table a lineage holds: each record's maintained row, under its own shape.\<close>

definition shape_rows ::
  "(bytes \<Rightarrow> pyval list res) \<Rightarrow> typeinfo \<Rightarrow> (nat \<Rightarrow> (nat \<times> bytes) list) \<Rightarrow> nat \<times> string list \<Rightarrow>
     (nat \<times> row option) list res" where
  "shape_rows decode ti scan shp =
     bind_res (schema_evolution_fill ti (snd shp) (maintained_fields ti) (unique_field_names ti)) (\<lambda>(fills, c).
       map_res (\<lambda>(oid, payload).
         bind_res (decode payload) (\<lambda>values.
         bind_res (record_entry (maintained_fields ti) (snd shp) fills values) (\<lambda>e. Inr (oid, Some e))))
         (scan (fst shp)))"

definition lineage_rows ::
  "(bytes \<Rightarrow> pyval list res) \<Rightarrow> typeinfo \<Rightarrow> (nat \<times> string list) list \<Rightarrow> (nat \<Rightarrow> (nat \<times> bytes) list) \<Rightarrow>
     (nat \<times> row option) list res" where
  "lineage_rows decode ti lineage scan =
     bind_res (map_res (shape_rows decode ti scan) lineage) (\<lambda>rs. Inr (concat rs))"

section \<open>The cache form\<close>

record 'b index_blob =
  ib_extent :: 'b
  ib_eq :: "(string \<times> (key \<times> 'b) list) list"
  ib_unique :: "(string \<times> (key \<times> nat) list) list"
  ib_list_fields :: "string list"
  ib_sorted_fields :: "string list"

definition ci_dump :: "(bitmap \<Rightarrow> 'b) \<Rightarrow> class_indexes \<Rightarrow> 'b index_blob" where
  "ci_dump ser ci =
     \<lparr>ib_extent = ser (ci_extent ci),
      ib_eq = map (\<lambda>(f, posts). (f, map (\<lambda>(k, bm). (k, ser bm)) posts)) (ci_eq ci),
      ib_unique = ci_unique ci,
      ib_list_fields = sort (remdups (ci_list_fields ci)),
      ib_sorted_fields = sort (remdups (ci_sorted_fields ci))\<rparr>"

definition blob_matches :: "'b index_blob \<Rightarrow> typeinfo \<Rightarrow> bool" where
  "blob_matches blob ti \<longleftrightarrow>
     sort (map fst (ib_eq blob)) = sort (eq_index_fields ti) \<and>
     sort (map fst (ib_unique blob)) = sort (unique_field_names ti) \<and>
     sort (ib_list_fields blob) = sort (multivalued_field_names ti) \<and>
     sort (ib_sorted_fields blob) = sort (sorted_field_names ti)"

definition load_columns :: "('b \<Rightarrow> bitmap) \<Rightarrow> 'b index_blob \<Rightarrow> class_indexes" where
  "load_columns deser blob =
     (let ci = new_class_indexes (map fst (ib_eq blob)) (map fst (ib_unique blob))
                 (ib_list_fields blob) (ib_sorted_fields blob)
      in ci\<lparr>ci_extent := deser (ib_extent blob),
            ci_eq := fold (\<lambda>(f, posts) d.
              AList.update f (fold (\<lambda>(k, b) col. AList.update k (deser b) col) posts (dict_getd d f [])) d)
              (ib_eq blob) (ci_eq ci),
            ci_unique := fold (\<lambda>(f, items) d.
              AList.update f (fold (\<lambda>(k, oid) h. AList.update k oid h) items []) d)
              (ib_unique blob) (ci_unique ci)\<rparr>)"

definition ci_load :: "('b \<Rightarrow> bitmap) \<Rightarrow> 'b index_blob \<Rightarrow> typeinfo \<Rightarrow> class_indexes option res" where
  "ci_load deser blob ti =
     (if \<not> blob_matches blob ti then Inr None
      else bind_res (derive_runs (load_columns deser blob)) (\<lambda>ci.
        Inr (Some (ci\<lparr>ci_needs_lv_rebuild := True\<rparr>))))"

section \<open>The empty index\<close>

lemma dict_get_fold_empty:
  "dict_get (fold (\<lambda>f. AList.update f []) fs d) f = (if f \<in> set fs then Some [] else dict_get d f)"
  by (induction fs arbitrary: d) auto

lemma dict_wf_fold_empty: "dict_wf d \<Longrightarrow> dict_wf (fold (\<lambda>f. AList.update f []) fs d)"
  by (induction fs arbitrary: d) auto

lemma keys_fold_empty:
  "set (dict_keys (fold (\<lambda>f. AList.update f []) fs d)) = set fs \<union> set (dict_keys d)"
  by (simp flip: dom_map_of_conv_image_fst) (auto simp: dict_get_fold_empty)

lemma empty_index_simps [simp]:
  "ci_extent (empty_index ti) = {}" "ci_building (empty_index ti) = False"
  "ci_list_fields (empty_index ti) = multivalued_field_names ti"
  "ci_sorted_fields (empty_index ti) = sorted_field_names ti"
  "ci_unique_fields (empty_index ti) = unique_field_names ti"
  "ci_last_values (empty_index ti) = []" "ci_needs_lv_rebuild (empty_index ti) = False"
  "dict_get (ci_eq (empty_index ti)) f = (if f \<in> set (eq_index_fields ti) then Some [] else None)"
  "dict_get (ci_unique (empty_index ti)) f = (if f \<in> set (unique_field_names ti) then Some [] else None)"
  "dict_get (ci_sorted_keys (empty_index ti)) f = (if f \<in> set (sorted_field_names ti) then Some [] else None)"
  by (simp_all add: empty_index_def new_class_indexes_def dict_get_fold_empty)

lemma empty_index_observe [simp]:
  "col_of (empty_index ti) f = []" "posting (empty_index ti) f k = {}"
  "holder (empty_index ti) f k = None"
  by (simp_all add: col_of_def posting_def holder_def dict_getd_def)

lemma empty_index_shape:
  assumes "typeinfo_wf ti" shows "ci_shape (empty_index ti)"
proof -
  have d: "distinct (map fs_name (ti_specs ti))" and wf: "\<And>s. s \<in> set (ti_specs ti) \<Longrightarrow> spec_wf s"
    using assms by (auto simp: typeinfo_wf_def list_all_iff)
  have same: "s = t" if "s \<in> set (ti_specs ti)" "t \<in> set (ti_specs ti)" "fs_name s = fs_name t" for s t
    using d that by (auto simp: distinct_map inj_on_def)
  have mv: "s \<in> set (ti_specs ti) \<Longrightarrow> fs_multivalued s \<Longrightarrow> fs_indexed s \<and> \<not> fs_unique s \<and> \<not> fs_sorted s" for s
    using wf by (auto simp: spec_wf_def)
  show ?thesis
    unfolding ci_shape_def empty_index_simps
  proof (intro conjI ballI)
    fix f assume "f \<in> set (sorted_field_names ti)"
    then obtain s where s: "s \<in> set (ti_specs ti)" "fs_sorted s" "f = fs_name s"
      by (auto simp: sorted_field_names_def)
    show "f \<notin> set (multivalued_field_names ti)"
    proof
      assume "f \<in> set (multivalued_field_names ti)"
      then obtain t where t: "t \<in> set (ti_specs ti)" "fs_multivalued t" "f = fs_name t"
        by (auto simp: multivalued_field_names_def)
      have "s = t" by (rule same) (use s t in simp_all)
      then show False using s mv [OF t(1,2)] by simp
    qed
    show "(if f \<in> set (eq_index_fields ti) then Some [] else None) \<noteq> None"
      using s by (auto simp: eq_index_fields_def)
    show "(if f \<in> set (sorted_field_names ti) then Some [] else None) \<noteq> None"
      using s by (auto simp: sorted_field_names_def)
  next
    fix f assume "f \<in> set (multivalued_field_names ti)"
    then obtain t where t: "t \<in> set (ti_specs ti)" "fs_multivalued t" "f = fs_name t"
      by (auto simp: multivalued_field_names_def)
    show "(if f \<in> set (eq_index_fields ti) then Some [] else None) \<noteq> None"
      using t mv by (auto simp: eq_index_fields_def)
    show "f \<notin> set (unique_field_names ti)"
    proof
      assume "f \<in> set (unique_field_names ti)"
      then obtain s where s: "s \<in> set (ti_specs ti)" "fs_unique s" "f = fs_name s"
        by (auto simp: unique_field_names_def)
      have "s = t" by (rule same) (use s t in simp_all)
      then show False using s mv [OF t(1,2)] by simp
    qed
  next
    fix f assume "f \<in> set (unique_field_names ti)"
    then show "(if f \<in> set (unique_field_names ti) then Some [] else None) \<noteq> None" by simp
  qed
qed

lemma empty_index_dicts: "dicts_wf (empty_index ti)"
proof -
  have "dict_wf (ci_eq (empty_index ti))" "dict_wf (ci_unique (empty_index ti))"
    "set (dict_keys (ci_unique (empty_index ti))) = set (unique_field_names ti)"
    using keys_fold_empty [of "unique_field_names ti" "[]"]
    by (simp_all add: empty_index_def new_class_indexes_def dict_wf_fold_empty)
  then show ?thesis by (simp add: dicts_wf_def dict_getd_def)
qed

lemma empty_index_core:
  assumes "typeinfo_wf ti"
  shows "ci_core (empty_index ti) Map.empty" and "uniq_rep (empty_index ti) Map.empty UNIV"
  using empty_index_shape [OF assms]
  by (simp_all add: ci_core_def uniq_rep_def postings_rep_def lv_rep_def tab_has_def dict_getd_def)

lemma observe_building [simp]:
  "ci_shape (ci\<lparr>ci_building := b\<rparr>) = ci_shape ci" "runs_ok (ci\<lparr>ci_building := b\<rparr>) = runs_ok ci"
  "posting (ci\<lparr>ci_building := b\<rparr>) = posting ci" "holder (ci\<lparr>ci_building := b\<rparr>) = holder ci"
  "tracked (ci\<lparr>ci_building := b\<rparr>) = tracked ci"
  by (simp_all add: ci_shape_def runs_ok_def run_ok_def run_of_def col_keys_def col_of_def posting_def
      holder_def tracked_def fun_eq_iff)

lemma ensure_building: "ci_last_values (ensure_last_values (ci\<lparr>ci_building := b\<rparr>)) = ci_last_values (ensure_last_values ci)"
  by (simp add: ensure_last_values_def rebuild_last_values_def Let_def cong: if_cong)

lemma core_building [simp]:
  "ci_core (ci\<lparr>ci_building := b\<rparr>) = ci_core ci" "uniq_rep (ci\<lparr>ci_building := b\<rparr>) = uniq_rep ci"
  "tab_unique (ci\<lparr>ci_building := b\<rparr>) = tab_unique ci"
  by (simp_all add: ci_core_def postings_rep_def lv_rep_def ensure_building uniq_rep_def uniq_key_def
      tab_unique_def fun_eq_iff)

section \<open>The scanned index is the index of the scanned table\<close>

lemma fold_res_concat:
  "fold_res f (concat xss) s = fold_res (\<lambda>xs. fold_res f xs) xss s"
proof (induction xss arbitrary: s)
  case Nil
  then show ?case by simp
next
  case (Cons xs xss)
  then show ?case by (cases "fold_res f xs s") (auto simp: fold_res_append)
qed

lemma build_rows_step:
  assumes "fold_res (\<lambda>(oid, payload) c.
            if colliding \<noteq> None then Inl SchemaMismatchError
            else
              bind_res (decode payload) (\<lambda>values.
              bind_res (record_entry m persisted fills values) (\<lambda>entry. ci_insert oid entry c)))
            recs ci = Inr ci'"
  shows "\<exists>rows. map_res (\<lambda>(oid, payload).
         bind_res (decode payload) (\<lambda>values.
         bind_res (record_entry m persisted fills values) (\<lambda>e. Inr (oid, Some e)))) recs = Inr rows \<and>
         fold_res ci_step rows ci = Inr ci'"
  using assms
proof (induction recs arbitrary: ci)
  case Nil
  then show ?case by simp
next
  case (Cons rc recs)
  obtain oid p where rc: "rc = (oid, p)" by (cases rc)
  show ?case
  proof (cases "colliding = None")
    case False
    then show ?thesis using Cons.prems rc by simp
  next
    case True
    obtain vs e c1 where d: "decode p = Inr vs" "record_entry m persisted fills vs = Inr e"
      and i: "ci_insert oid e ci = Inr c1"
      using Cons.prems rc True
      by (cases "decode p"; cases "record_entry m persisted fills (projr (decode p))";
          cases "ci_insert oid (projr (record_entry m persisted fills (projr (decode p)))) ci") auto
    with Cons.prems rc True have "fold_res (\<lambda>(oid, payload) c.
            if colliding \<noteq> None then Inl SchemaMismatchError
            else
              bind_res (decode payload) (\<lambda>values.
              bind_res (record_entry m persisted fills values) (\<lambda>entry. ci_insert oid entry c)))
            recs c1 = Inr ci'" by simp
    from Cons.IH [OF this] obtain rows where
      "map_res (\<lambda>(oid, payload).
         bind_res (decode payload) (\<lambda>values.
         bind_res (record_entry m persisted fills values) (\<lambda>e. Inr (oid, Some e)))) recs = Inr rows"
      "fold_res ci_step rows c1 = Inr ci'" by blast
    moreover have "ci_step (oid, Some e) ci = Inr c1" using i by (simp add: ci_step_def)
    ultimately show ?thesis using d rc by simp
  qed
qed

lemma build_cid_steps:
  assumes "build_cid decode ti scan shp ci = Inr ci'" and "maintained_fields ti \<noteq> []"
  shows "\<exists>rows. shape_rows decode ti scan shp = Inr rows \<and> fold_res ci_step rows ci = Inr ci'"
proof -
  obtain cid persisted where shp: "shp = (cid, persisted)" by (cases shp)
  obtain fills colliding where
    "schema_evolution_fill ti persisted (maintained_fields ti) (unique_field_names ti) = Inr (fills, colliding)"
    and "fold_res (\<lambda>(oid, payload) c.
            if colliding \<noteq> None then Inl SchemaMismatchError
            else
              bind_res (decode payload) (\<lambda>values.
              bind_res (record_entry (maintained_fields ti) persisted fills values) (\<lambda>entry. ci_insert oid entry c)))
            (scan cid) ci = Inr ci'"
    using assms shp by (auto simp: build_cid_def bind_res_Inr Let_def)
  with build_rows_step show ?thesis by (fastforce simp: shape_rows_def shp)
qed

lemma build_lineage_steps:
  assumes "fold_res (build_cid decode ti scan) lineage ci = Inr ci'" and "maintained_fields ti \<noteq> []"
  shows "\<exists>rows. lineage_rows decode ti lineage scan = Inr rows \<and> fold_res ci_step rows ci = Inr ci'"
  using assms(1)
proof (induction lineage arbitrary: ci)
  case Nil
  then show ?case by (simp add: lineage_rows_def)
next
  case (Cons shp lineage)
  obtain c1 where c1: "build_cid decode ti scan shp ci = Inr c1"
    and r: "fold_res (build_cid decode ti scan) lineage c1 = Inr ci'"
    using Cons.prems by (auto split: sum.splits)
  obtain r1 where r1: "shape_rows decode ti scan shp = Inr r1" "fold_res ci_step r1 ci = Inr c1"
    using build_cid_steps [OF c1 assms(2)] by blast
  obtain rs where rs: "lineage_rows decode ti lineage scan = Inr rs" "fold_res ci_step rs c1 = Inr ci'"
    using Cons.IH [OF r] by blast
  have "lineage_rows decode ti (shp # lineage) scan = Inr (r1 @ rs)"
    using r1(1) rs(1) by (auto simp: lineage_rows_def bind_res_Inr)
  moreover have "fold_res ci_step (r1 @ rs) ci = Inr ci'"
    using r1(2) rs(2) by (simp add: fold_res_append)
  ultimately show ?case by blast
qed

lemma runs_after_build:
  assumes "ci_core ci tab" and "dicts_wf ci" and "finalize_build ci = Inr ci'"
  shows "ci_rep ci' tab" and "uniq_rep ci tab fin \<Longrightarrow> uniq_rep ci' tab fin"
    and "dicts_wf ci'" and "same_shape (ci\<lparr>ci_building := False\<rparr>) ci'"
proof -
  let ?w = "with_runs ci (ci_sorted_fields ci)"
  have h: "\<forall>f \<in> set (ci_sorted_fields ci). homogeneous (run_source ci f)" and ci': "ci' = ?w\<lparr>ci_building := False\<rparr>"
    using assms(3) by (auto simp: finalize_build_def bind_res_Inr derive_runs_Inr)
  have r: "runs_ok ?w" using assms(2) by (intro with_runs_ok h) (simp add: dicts_wf_def)
  have sh: "ci_shape ?w" using assms(1) by (simp add: ci_core_def with_runs_shape)
  have lv: "ci_last_values (ensure_last_values ?w) = ci_last_values (ensure_last_values ci)"
    by (simp add: with_runs_def ensure_last_values_def rebuild_last_values_def Let_def cong: if_cong)
  have t: "tracked ?w = tracked ci" by (simp add: tracked_def fun_eq_iff)
  have "ci_core ?w tab"
    using assms(1) sh by (simp add: ci_core_def lv lv_rep_def postings_rep_def t)
  then show "ci_rep ci' tab" using r ci' by (simp add: ci_rep_def)
  have u: "uniq_rep ?w = uniq_rep ci" by (simp add: uniq_rep_def uniq_key_def fun_eq_iff)
  show "uniq_rep ci tab fin \<Longrightarrow> uniq_rep ci' tab fin"
    using u by (simp add: ci')
  have "dicts_wf ?w" using assms(2) by (simp add: dicts_wf_def)
  then show "dicts_wf ci'" by (simp add: ci')
  show "same_shape (ci\<lparr>ci_building := False\<rparr>) ci'"
    using sh t by (simp add: ci' same_shape_def)
qed

lemma fold_extent:
  "fold (\<lambda>(oid, p) c. c\<lparr>ci_extent := insert oid (ci_extent c)\<rparr>) recs ci =
     ci\<lparr>ci_extent := fst ` set recs \<union> ci_extent ci\<rparr>"
  by (induction recs arbitrary: ci) auto

lemma build_extent_only:
  assumes "maintained_fields ti = []"
  shows "fold_res (build_cid decode ti scan) lineage ci =
     Inr (ci\<lparr>ci_extent := (\<Union>shp \<in> set lineage. fst ` set (scan (fst shp))) \<union> ci_extent ci\<rparr>)"
proof (induction lineage arbitrary: ci)
  case Nil
  then show ?case by simp
next
  case (Cons shp lineage)
  have "build_cid decode ti scan shp ci = Inr (ci\<lparr>ci_extent := fst ` set (scan (fst shp)) \<union> ci_extent ci\<rparr>)"
    by (cases shp) (simp add: build_cid_def assms fold_extent)
  then show ?case using Cons.IH by (simp add: Un_ac)
qed

lemma steps_dom:
  "\<forall>(oid, ro) \<in> set rows. ro \<noteq> None \<Longrightarrow> dom (tab_steps rows tab) = dom tab \<union> fst ` set rows"
proof (induction rows arbitrary: tab)
  case Nil
  then show ?case by simp
next
  case (Cons r rows)
  obtain oid e where r: "r = (oid, Some e)" using Cons.prems by (cases r) auto
  have "dom (tab_steps rows (tab(oid \<mapsto> e))) = dom (tab(oid \<mapsto> e)) \<union> fst ` set rows"
    using Cons.prems by (intro Cons.IH) simp
  then show ?case using r by (auto simp only: tab_steps_simps list.simps dom_fun_upd) auto
qed

lemma steps_values:
  "\<forall>(oid, ro) \<in> set rows. ro = Some [] \<Longrightarrow> \<forall>oid r. tab oid = Some r \<longrightarrow> r = [] \<Longrightarrow>
     tab_steps rows tab oid = Some r \<Longrightarrow> r = []"
proof (induction rows arbitrary: tab)
  case Nil
  then show ?case by simp
next
  case (Cons x rows)
  obtain o' where x: "x = (o', Some [])" using Cons.prems(1) by (cases x) auto
  have 1: "\<forall>(oid, ro) \<in> set rows. ro = Some []" using Cons.prems(1) by simp
  have 2: "\<forall>oid r. (tab(o' \<mapsto> [])) oid = Some r \<longrightarrow> r = []" using Cons.prems(2) by simp
  have 3: "tab_steps rows (tab(o' \<mapsto> [])) oid = Some r" using Cons.prems(3) unfolding x tab_steps_simps .
  show ?case by (rule Cons.IH [OF 1 2 3])
qed

lemma map_res_Inr_set: "map_res f xs = Inr ys \<Longrightarrow> y \<in> set ys \<Longrightarrow> \<exists>x \<in> set xs. f x = Inr y"
  by (induction xs arbitrary: ys) (auto split: sum.splits)

lemma map_res_Inr_image: "map_res f xs = Inr ys \<Longrightarrow> set ys = {y. \<exists>x \<in> set xs. f x = Inr y}"
proof (induction xs arbitrary: ys)
  case Nil
  then show ?case by simp
next
  case (Cons x xs)
  then show ?case by (cases "f x"; cases "map_res f xs") auto
qed

lemma no_maintained_rows:
  assumes "maintained_fields ti = []" and "lineage_rows decode ti lineage scan = Inr rows"
  shows "fst ` set rows = (\<Union>shp \<in> set lineage. fst ` set (scan (fst shp)))"
    and "\<forall>(oid, ro) \<in> set rows. ro = Some []"
proof -
  obtain rs where rs: "map_res (shape_rows decode ti scan) lineage = Inr rs" and rows: "rows = concat rs"
    using assms(2) by (auto simp: lineage_rows_def bind_res_Inr)
  have one: "fst ` set r = fst ` set (scan (fst shp)) \<and> (\<forall>x \<in> set r. snd x = Some [])"
    if "shape_rows decode ti scan shp = Inr r" for shp r
  proof -
    let ?f = "\<lambda>(oid, payload). bind_res (decode payload) (\<lambda>values. Inr (oid, Some []))"
    have m: "map_res ?f (scan (fst shp)) = Inr r"
      using that by (simp add: shape_rows_def assms(1) schema_evolution_fill_def record_entry_def)
    have "map fst r = map fst xs \<and> (\<forall>x \<in> set r. snd x = Some [])" if "map_res ?f xs = Inr r" for xs r
      using that by (induction xs arbitrary: r) (auto simp: bind_res_Inr split: sum.splits)
    from this [OF m] show ?thesis by (metis set_map)
  qed
  have fwd: "\<exists>shp \<in> set lineage. shape_rows decode ti scan shp = Inr r" if "r \<in> set rs" for r
    using map_res_Inr_set [OF rs that] .
  have bwd: "\<exists>r \<in> set rs. shape_rows decode ti scan shp = Inr r" if shp: "shp \<in> set lineage" for shp
  proof -
    obtain i where i: "i < length lineage" "lineage ! i = shp" using shp by (auto simp: in_set_conv_nth)
    then have "shape_rows decode ti scan shp = Inr (rs ! i)" using map_res_Inr_nth [OF rs i(1)] by simp
    then show ?thesis using i(1) map_res_Inr_length [OF rs] by auto
  qed
  have member: "\<exists>r shp. r \<in> set rs \<and> x \<in> set r \<and> shp \<in> set lineage \<and> shape_rows decode ti scan shp = Inr r"
    if x: "x \<in> set rows" for x
  proof -
    obtain r where "r \<in> set rs" "x \<in> set r" using x by (auto simp: rows)
    then show ?thesis using fwd by blast
  qed
  show "\<forall>(oid, ro) \<in> set rows. ro = Some []"
  proof
    fix x assume "x \<in> set rows"
    from member [OF this] obtain r shp where "x \<in> set r" "shape_rows decode ti scan shp = Inr r" by blast
    then have "snd x = Some []" using one by blast
    then show "case x of (oid, ro) \<Rightarrow> ro = Some []" by (cases x) simp
  qed
  show "fst ` set rows = (\<Union>shp \<in> set lineage. fst ` set (scan (fst shp)))"
  proof
    show "fst ` set rows \<subseteq> (\<Union>shp \<in> set lineage. fst ` set (scan (fst shp)))"
    proof
      fix oid assume "oid \<in> fst ` set rows"
      then obtain x where x: "x \<in> set rows" "oid = fst x" by blast
      from member [OF x(1)] obtain r shp where "x \<in> set r" "shp \<in> set lineage"
        "shape_rows decode ti scan shp = Inr r" by blast
      then show "oid \<in> (\<Union>shp \<in> set lineage. fst ` set (scan (fst shp)))" using one [of shp r] x(2) by blast
    qed
    show "(\<Union>shp \<in> set lineage. fst ` set (scan (fst shp))) \<subseteq> fst ` set rows"
    proof
      fix oid assume "oid \<in> (\<Union>shp \<in> set lineage. fst ` set (scan (fst shp)))"
      then obtain shp where shp: "shp \<in> set lineage" "oid \<in> fst ` set (scan (fst shp))" by blast
      obtain r where r: "r \<in> set rs" "shape_rows decode ti scan shp = Inr r" using bwd [OF shp(1)] by blast
      have "oid \<in> fst ` set r" using one [OF r(2)] shp(2) by simp
      then show "oid \<in> fst ` set rows" using r(1) unfolding rows by auto
    qed
  qed
qed

lemma build_class_indexes_rep:
  assumes wf: "typeinfo_wf ti" and build: "build_class_indexes decode ti lineage scan = Inr ci"
    and rows: "lineage_rows decode ti lineage scan = Inr rows" and d: "distinct (map fst rows)"
    and ok: "\<And>oid r. (oid, Some r) \<in> set rows \<Longrightarrow> row_ok (multivalued_field_names ti) r"
    and u: "tab_unique (empty_index ti) (tab_steps rows Map.empty)"
  shows "ci_rep ci (tab_steps rows Map.empty)" and "uniq_rep ci (tab_steps rows Map.empty) UNIV"
    and "dicts_wf ci"
proof -
  let ?t = "tab_steps rows Map.empty"
  let ?e = "begin_bulk (empty_index ti)"
  obtain c where c: "fold_res (build_cid decode ti scan) lineage ?e = Inr c"
    and fin: "finalize_build c = Inr ci"
    using build by (auto simp: build_class_indexes_def bind_res_Inr)
  have e0: "ci_core ?e Map.empty" "uniq_rep ?e Map.empty UNIV" "dicts_wf ?e"
    using empty_index_core [OF wf] empty_index_dicts by (simp_all add: begin_bulk_def)
  have "ci_core c ?t \<and> uniq_rep c ?t UNIV \<and> dicts_wf c"
  proof (cases "maintained_fields ti = []")
    case False
    then have steps: "fold_res ci_step rows ?e = Inr c"
      using build_lineage_steps [OF c False] rows by auto
    have ok': "row_ok (ci_list_fields ?e) r" if "(oid, Some r) \<in> set rows" for oid r
      using ok [OF that] by (simp add: begin_bulk_def)
    have "uniq_rep ?e Map.empty (- (fst ` set rows))" by (rule uniq_rep_mono [OF e0(2)]) simp
    then have "uniq_rep c ?t (- (fst ` set rows) \<union> fst ` set rows)"
      by (intro ci_steps_uniq [OF e0(1) steps ok' d]) (use u in \<open>auto simp: begin_bulk_def\<close>)
    then show ?thesis
      using ci_steps_rep [OF e0(1) steps ok'] dicts_wf_steps [OF steps e0(3)] by (simp add: Un_commute)
  next
    case True
    note nm = no_maintained_rows [OF True rows]
    have c': "c = ?e\<lparr>ci_extent := fst ` set rows\<rparr>"
      using c build_extent_only [OF True, of decode scan lineage ?e] nm(1) by (simp add: begin_bulk_def)
    have no: "eq_index_fields ti = []" "unique_field_names ti = []"
      using True by (auto simp: field_name_defs filter_empty_conv)
    have "\<forall>(oid, ro) \<in> set rows. ro \<noteq> None" using nm(2) by auto
    from steps_dom [OF this] have dm: "dom ?t = fst ` set rows" by simp
    have vals: "?t oid = Some r \<Longrightarrow> r = []" for oid r
      by (rule steps_values [OF nm(2)]) simp_all
    have okr: "?t oid = Some r \<Longrightarrow> row_ok ls r" for oid r ls
      using vals [of oid r] by (simp add: row_ok_def)
    have "ci_shape c" "ci_extent c = dom ?t" "finite (dom ?t)"
      using e0(1) c' dm by (simp_all add: ci_core_def)
    moreover have "postings_rep c ?t" "lv_rep c ?t (ci_last_values (ensure_last_values c))"
      using c' no by (simp_all add: postings_rep_def lv_rep_def tracked_def dict_getd_def begin_bulk_def)
    ultimately have "ci_core c ?t" using okr by (simp add: ci_core_def)
    moreover have "uniq_rep c ?t UNIV"
      using c' no by (simp add: uniq_rep_def uniq_key_def begin_bulk_def)
    moreover have "dicts_wf c" using e0(3) c' by simp
    ultimately show ?thesis by simp
  qed
  then show "ci_rep ci ?t" "uniq_rep ci ?t UNIV" "dicts_wf ci"
    using runs_after_build [OF _ _ fin] by blast+
qed

section \<open>Loading a dumped index\<close>

lemma same_list_fields:
  assumes "set ls' = set ls"
  shows "field_keys ls' = field_keys ls" "row_has_key ls' = row_has_key ls" "row_ok ls' = row_ok ls"
    "tab_has ls' = tab_has ls"
proof -
  show fk: "field_keys ls' = field_keys ls" using assms by (simp add: field_keys_def fun_eq_iff)
  have "val_has_key ls' = val_has_key ls" by (simp add: val_has_key_def fk fun_eq_iff)
  then show rk: "row_has_key ls' = row_has_key ls" by (simp add: row_has_key_def fun_eq_iff cong: option.case_cong)
  show "row_ok ls' = row_ok ls" by (simp add: row_ok_def fk assms fun_eq_iff cong: sum.case_cong)
  show "tab_has ls' = tab_has ls" by (simp add: tab_has_def rk fun_eq_iff cong: option.case_cong)
qed

lemma fold_update_map:
  "distinct (map fst xs) \<Longrightarrow> set (map fst xs) \<inter> set (dict_keys acc) = {} \<Longrightarrow>
     fold (\<lambda>(k, b) d. AList.update k (g b) d) xs acc = acc @ map (\<lambda>(k, b). (k, g b)) xs"
proof (induction xs arbitrary: acc)
  case Nil
  then show ?case by simp
next
  case (Cons x xs)
  obtain k b where x: "x = (k, b)" by (cases x)
  have "k \<notin> fst ` set acc" using Cons.prems(2) x by simp
  then have "AList.update k (g b) acc = acc @ [(k, g b)]" by (induction acc) auto
  then show ?case using Cons.IH [of "acc @ [(k, g b)]"] Cons.prems x by auto
qed

lemma fold_update_id: "dict_wf xs \<Longrightarrow> fold (\<lambda>(k, b) d. AList.update k b d) xs [] = xs"
  using fold_update_map [of xs "[]" "\<lambda>b. b"] by (simp add: dict_wf_def split_def)

lemma fold_outer_get:
  assumes "distinct (map fst xs)"
  shows "dict_get (fold (\<lambda>(f, p) d. AList.update f (h p (dict_getd d f [])) d) xs d) f =
    (case dict_get xs f of None \<Rightarrow> dict_get d f | Some p \<Rightarrow> Some (h p (dict_getd d f [])))"
  using assms
proof (induction xs arbitrary: d)
  case Nil
  then show ?case by simp
next
  case (Cons x xs)
  obtain g p where x: "x = (g, p)" by (cases x)
  have IH: "dict_get (fold (\<lambda>(f, p) d. AList.update f (h p (dict_getd d f [])) d) xs (AList.update g (h p (dict_getd d g [])) d)) f =
    (case dict_get xs f of None \<Rightarrow> dict_get (AList.update g (h p (dict_getd d g [])) d) f
     | Some q \<Rightarrow> Some (h q (dict_getd (AList.update g (h p (dict_getd d g [])) d) f [])))"
    using Cons.IH [of "AList.update g (h p (dict_getd d g [])) d"] Cons.prems x by simp
  show ?case
  proof (cases "f = g")
    case True
    then have "dict_get xs f = None" using Cons.prems x by (auto simp: map_of_eq_None_iff)
    then show ?thesis using IH x True by simp
  next
    case False
    then show ?thesis using IH x by (simp split: option.splits)
  qed
qed

lemma dict_wf_outer:
  "dict_wf d \<Longrightarrow> dict_wf (fold (\<lambda>(f, p) d. AList.update f (h p (dict_getd d f [])) d) xs d)"
  by (induction xs arbitrary: d) auto

definition finite_posts :: "class_indexes \<Rightarrow> bool" where
  "finite_posts ci \<longleftrightarrow> finite (ci_extent ci) \<and> (\<forall>f. \<forall>(k, bm) \<in> set (col_of ci f). finite bm)"

lemma load_columns_dump:
  assumes wf: "dicts_wf ci" and fp: "finite_posts ci" and rt: "\<And>b. finite b \<Longrightarrow> deser (ser b) = b"
  defines "lc \<equiv> load_columns deser (ci_dump ser ci)"
  shows "dict_get (ci_eq lc) f = dict_get (ci_eq ci) f" and "dict_get (ci_unique lc) f = dict_get (ci_unique ci) f"
    and "ci_extent lc = ci_extent ci" and "dict_wf (ci_eq lc)" and "dict_wf (ci_unique lc)"
    and "ci_list_fields lc = sort (remdups (ci_list_fields ci))"
    and "ci_sorted_fields lc = sort (remdups (ci_sorted_fields ci))"
    and "ci_unique_fields lc = map fst (ci_unique ci)"
    and "ci_building lc = False"
proof -
  have de: "distinct (map fst (ci_eq ci))" "distinct (map fst (ci_unique ci))"
    using wf by (simp_all add: dicts_wf_def dict_wf_def)
  let ?col = "\<lambda>posts col. fold (\<lambda>(k, b) col. AList.update k (deser b) col) posts col"
  let ?ser = "\<lambda>posts. map (\<lambda>(k, bm). (k, ser bm)) posts"
  have col: "?col (?ser c) [] = c" if "dict_get (ci_eq ci) g = Some c" for g c
  proof -
    have "dict_wf c" using dicts_wf_getD(1) [OF wf that] .
    moreover have "\<forall>(k, bm) \<in> set c. finite bm"
      using fp col_of_Some [OF that] unfolding finite_posts_def by metis
    ultimately show ?thesis
      using fold_update_map [of "?ser c" "[]" deser] rt
      by (auto simp: dict_wf_def split_def o_def intro!: map_idI)
  qed
  have base: "dict_getd (fold (\<lambda>f. AList.update f []) fs []) g [] = []" for fs and g :: string
    by (simp add: dict_getd_def dict_get_fold_empty)
  have eq: "ci_eq lc = fold (\<lambda>(f, p) d. AList.update f (?col p (dict_getd d f [])) d)
      (map (\<lambda>(f, c). (f, ?ser c)) (ci_eq ci)) (fold (\<lambda>f. AList.update f []) (map fst (ci_eq ci)) [])"
    by (simp add: lc_def load_columns_def ci_dump_def new_class_indexes_def Let_def split_def o_def)
  have "dict_get (ci_eq lc) f = (case dict_get (ci_eq ci) f of
      None \<Rightarrow> dict_get (fold (\<lambda>f. AList.update f []) (map fst (ci_eq ci)) []) f
    | Some c \<Rightarrow> Some (?col (?ser c) []))"
    unfolding eq using de(1)
    by (subst fold_outer_get) (simp_all add: split_def o_def base map_of_map [unfolded split_def] split: option.splits)
  also have "\<dots> = dict_get (ci_eq ci) f"
  proof (cases "dict_get (ci_eq ci) f")
    case None
    then have "f \<notin> set (map fst (ci_eq ci))" by (simp add: map_of_eq_None_iff)
    then show ?thesis unfolding None by (simp add: dict_get_fold_empty)
  qed (use col in simp)
  finally show "dict_get (ci_eq lc) f = dict_get (ci_eq ci) f" .
  have un: "ci_unique lc = fold (\<lambda>(f, p) d. AList.update f ((\<lambda>p q. fold (\<lambda>(k, oid) h. AList.update k oid h) p []) p (dict_getd d f [])) d)
      (ci_unique ci) (fold (\<lambda>f. AList.update f []) (map fst (ci_unique ci)) [])"
    by (simp add: lc_def load_columns_def ci_dump_def new_class_indexes_def Let_def split_def)
  have "dict_get (ci_unique lc) f = (case dict_get (ci_unique ci) f of
      None \<Rightarrow> dict_get (fold (\<lambda>f. AList.update f []) (map fst (ci_unique ci)) []) f
    | Some c \<Rightarrow> Some (fold (\<lambda>(k, oid) h. AList.update k oid h) c []))"
    unfolding un using de(2) by (subst fold_outer_get) simp_all
  also have "\<dots> = dict_get (ci_unique ci) f"
  proof (cases "dict_get (ci_unique ci) f")
    case None
    then have "f \<notin> set (map fst (ci_unique ci))" by (simp add: map_of_eq_None_iff)
    then show ?thesis unfolding None by (simp add: dict_get_fold_empty)
  qed (use dicts_wf_getD(2) [OF wf, of f] in \<open>simp add: fold_update_id\<close>)
  finally show "dict_get (ci_unique lc) f = dict_get (ci_unique ci) f" .
  show "ci_extent lc = ci_extent ci"
    using rt fp by (simp add: lc_def load_columns_def ci_dump_def Let_def finite_posts_def)
  show "dict_wf (ci_eq lc)" unfolding eq by (intro dict_wf_outer dict_wf_fold_empty) simp
  show "dict_wf (ci_unique lc)" unfolding un by (intro dict_wf_outer dict_wf_fold_empty) simp
  show "ci_list_fields lc = sort (remdups (ci_list_fields ci))"
    "ci_sorted_fields lc = sort (remdups (ci_sorted_fields ci))"
    "ci_unique_fields lc = map fst (ci_unique ci)" "ci_building lc = False"
    by (simp_all add: lc_def load_columns_def ci_dump_def new_class_indexes_def Let_def)
qed

lemma dict_getd_get_cong: "dict_get d f = dict_get e f \<Longrightarrow> dict_getd d f x = dict_getd e f x"
  by (simp add: dict_getd_def)

text \<open>
  A dumped and reloaded index represents the same table, and its un-index memory, rebuilt at the first
  write, is the one that table calls for.
\<close>

lemma load_dump_rep:
  assumes rep: "ci_rep ci tab" and u: "uniq_rep ci tab UNIV" and wf: "dicts_wf ci" and fp: "finite_posts ci"
    and rt: "\<And>b. finite b \<Longrightarrow> deser (ser b) = b" and m: "blob_matches (ci_dump ser ci) ti"
  shows "\<exists>ci'. ci_load deser (ci_dump ser ci) ti = Inr (Some ci') \<and>
     ci_rep ci' tab \<and> uniq_rep ci' tab UNIV \<and> dicts_wf ci' \<and>
     (\<forall>f k. posting ci' f k = posting ci f k \<and> holder ci' f k = holder ci f k)"
proof -
  define lc where "lc = load_columns deser (ci_dump ser ci)"
  note ld = load_columns_dump [where deser = deser and ser = ser, OF wf fp rt, folded lc_def]
  let ?fs = "ci_sorted_fields lc"
  let ?w = "with_runs lc ?fs"
  let ?ci' = "?w\<lparr>ci_needs_lv_rebuild := True\<rparr>"
  have core: "ci_core ci tab" "\<not> ci_building ci" "runs_ok ci" using rep by (simp_all add: ci_rep_def)
  have shape: "ci_shape ci" and fin: "finite (dom tab)" and ext: "ci_extent ci = dom tab"
    and rows: "\<And>oid r. tab oid = Some r \<Longrightarrow> row_ok (ci_list_fields ci) r" and post: "postings_rep ci tab"
    using core(1) by (simp_all add: ci_core_def)
  have sets: "set (ci_list_fields lc) = set (ci_list_fields ci)" "set ?fs = set (ci_sorted_fields ci)"
    "set (ci_unique_fields lc) = set (ci_unique_fields ci)"
    using wf by (simp_all add: ld dicts_wf_def)
  note ls = same_list_fields [OF sets(1)]
  have col: "col_of lc f = col_of ci f" for f using dict_getd_get_cong [OF ld(1)] by (simp add: col_of_def)
  have hold: "holder lc f k = holder ci f k" for f k
    using dict_getd_get_cong [OF ld(2)] by (simp add: holder_def)
  have po: "posting lc f k = posting ci f k" for f k by (simp add: posting_def col)
  have "dict_get (ci_unique lc) = dict_get (ci_unique ci)" using ld(2) by (simp add: fun_eq_iff)
  then have "set (dict_keys (ci_unique lc)) = set (dict_keys (ci_unique ci))"
    by (metis dom_map_of_conv_image_fst set_map)
  then have dwf: "dicts_wf lc"
    using wf ld(4,5) dict_getd_get_cong [OF ld(2)] sets(3) hold
    by (simp add: dicts_wf_def col ld(8))
  have "homogeneous (run_source lc f)" if f: "f \<in> set ?fs" for f
  proof -
    have ok: "run_ok ci f" using core(3) f sets(2) by (simp add: runs_ok_def)
    then have s: "set (run_source lc f) = set (run_of ci f)"
      by (simp add: run_ok_def run_source_set col_keys_def col)
    have d: "distinct (run_source lc f)"
      using wf by (simp add: run_source_def dicts_wf_def dict_wf_def col)
    have "distinct (run_of ci f)" "homogeneous (run_of ci f)" using ok by (simp_all add: run_ok_def)
    then show ?thesis unfolding homogeneous_set [OF d] s by (simp add: homogeneous_set)
  qed
  then have homog: "\<forall>f \<in> set ?fs. homogeneous (run_source lc f)" by blast
  then have "derive_runs lc = Inr ?w" by (simp add: derive_runs_Inr)
  then have load: "ci_load deser (ci_dump ser ci) ti = Inr (Some ?ci')"
    using m by (simp add: ci_load_def lc_def [symmetric])
  have run: "runs_ok ?w" using dwf by (intro with_runs_ok homog) (simp add: dicts_wf_def)
  have shp: "ci_shape ?w"
    using shape sets ld(1,2) unfolding ci_shape_def with_runs_simps
    by (simp add: with_runs_def fold_update_dom)
  have obs: "runs_ok ?ci'" "ci_shape ?ci'" "posting ?ci' = posting lc" "holder ?ci' = holder lc"
    using run shp by (simp_all add: runs_ok_def run_ok_def run_of_def col_keys_def col_of_def ci_shape_def
        posting_def holder_def fun_eq_iff)
  have dw: "dicts_wf ?ci'"
    using dwf by (simp add: with_runs_def)
  have post': "postings_rep ?ci' tab"
    using post ld(1) po by (simp add: postings_rep_def obs ls)
  have uk: "uniq_key ?ci' = uniq_key ci" using sets(3) by (simp add: uniq_key_def fun_eq_iff)
  have "tab_has (ci_list_fields ?ci') = tab_has (ci_list_fields ci)" using ls(4) by simp
  then have u': "uniq_rep ?ci' tab UNIV"
    using u unfolding uniq_rep_def uk obs(4) hold by (simp only:)
  have lv: "lv_rep ?ci' tab (ci_last_values (rebuild_last_values ?ci'))"
    by (rule rebuild_last_values_rep [OF obs(2) dw fin _ post' u']) (simp add: ls rows)
  have "ci_rep ?ci' tab"
    using obs fin ext ld(3,9) rows post' lv
    by (simp add: ci_rep_def ci_core_def ls ensure_last_values_def)
  then show ?thesis using load u' dw obs po hold by (intro exI [of _ ?ci']) simp
qed

end
