(* ===== verification/Index_Manager.thy ===== *)
theory Index_Manager
  imports Index_Build
begin

text \<open>
  \<open>_indexes.py\<close>, the index manager of a store: the per-class indexes with their lazily loaded cache
  blobs, the checks of a commit's first phase, the folds of its last, and the reverse-reference index.

  \<^item> A class is identified by its type name. An entry \<open>(oid, ti, values)\<close> is one buffered write.
  \<^item> \<open>im_env\<close> holds what the manager is constructed with: the lineage of a class, the scan of the
    backend, all CIDs, the record decoder, and pyroaring's bitmap serialization.
  \<^item> \<open>im_check_unique\<close> returns the manager it leaves, since it builds indexes on the way; an
    exception of \<open>ci_insert\<close> in the last phase leaves an index half updated, of which the model only
    says that it was raised.
\<close>

section \<open>State\<close>

record im_env =
  env_lineage :: "typeinfo \<Rightarrow> (nat \<times> string list) list"
  env_scan :: "nat \<Rightarrow> (nat \<times> bytes) list"
  env_all_cids :: "nat list"
  env_decode :: "bytes \<Rightarrow> pyval list res"
  env_ser :: "bitmap \<Rightarrow> bytes"
  env_deser :: "bytes \<Rightarrow> bitmap"

type_synonym reverse_blob = "(nat \<times> bytes) list"

record index_manager =
  im_by_cls :: "(string, class_indexes) dict"
  im_cache :: "(string, bytes index_blob) dict option"
  im_reverse :: "(nat, bitmap) dict option"
  im_reverse_refs :: "(nat, bitmap) dict"
  im_reverse_blob :: "reverse_blob option"
  im_refs_dirty :: bool

definition new_manager ::
    "(string, bytes index_blob) dict option \<Rightarrow> reverse_blob option \<Rightarrow> index_manager" where
  "new_manager cache rblob =
     \<lparr>im_by_cls = [], im_cache = cache, im_reverse = None, im_reverse_refs = [],
      im_reverse_blob = rblob, im_refs_dirty = False\<rparr>"

type_synonym index_entry = "nat \<times> typeinfo \<times> row"

section \<open>Per-class indexes\<close>

definition im_ensure :: "im_env \<Rightarrow> typeinfo \<Rightarrow> index_manager \<Rightarrow> (class_indexes \<times> index_manager) res" where
  "im_ensure env ti im =
     (case dict_get (im_by_cls im) (ti_name ti) of
        Some ci \<Rightarrow> Inr (ci, im)
      | None \<Rightarrow>
          bind_res
            (case im_cache im of
               None \<Rightarrow> Inr None
             | Some blobs \<Rightarrow>
                 (case dict_get blobs (ti_name ti) of
                    None \<Rightarrow> Inr None
                  | Some blob \<Rightarrow> ci_load (env_deser env) blob ti))
            (\<lambda>cached.
              bind_res
                (case cached of
                   Some ci \<Rightarrow> Inr ci
                 | None \<Rightarrow> build_class_indexes (env_decode env) ti (env_lineage env ti) (env_scan env))
                (\<lambda>ci. Inr (ci, im\<lparr>im_by_cls := AList.update (ti_name ti) ci (im_by_cls im)\<rparr>))))"

definition dump_for_cache :: "im_env \<Rightarrow> index_manager \<Rightarrow> (string, bytes index_blob) dict" where
  "dump_for_cache env im = map (\<lambda>(tn, ci). (tn, ci_dump (env_ser env) ci)) (im_by_cls im)"

section \<open>First-phase checks\<close>

type_synonym seen_keys = "(string \<times> string \<times> key, nat) dict"

definition check_unique_field ::
    "nat \<Rightarrow> typeinfo \<Rightarrow> row \<Rightarrow> nat set \<Rightarrow> class_indexes \<Rightarrow> string \<Rightarrow> seen_keys \<Rightarrow> seen_keys res" where
  "check_unique_field oid ti values deleted ci f seen =
     (let value = dict_getd values f PNone in
      if value = PNone then Inr seen
      else case dict_get (ci_unique ci) f of
        None \<Rightarrow> Inl PyKeyError
      | Some held \<Rightarrow>
          bind_res (hash_key value) (\<lambda>k.
            let existing = (case dict_get held k of
                  Some e \<Rightarrow> if e \<in> deleted then None else Some e
                | None \<Rightarrow> None)
            in
            if existing \<noteq> None \<and> existing \<noteq> Some oid then Inl UniqueViolationError
            else
              let prior = dict_get seen (ti_name ti, f, k) in
              if prior \<noteq> None \<and> prior \<noteq> Some oid then Inl UniqueViolationError
              else Inr (AList.update (ti_name ti, f, k) oid seen)))"

fun check_unique_entries ::
    "im_env \<Rightarrow> nat set \<Rightarrow> index_entry list \<Rightarrow> seen_keys \<Rightarrow> index_manager \<Rightarrow> unit res \<times> index_manager" where
  "check_unique_entries env deleted [] seen im = (Inr (), im)"
| "check_unique_entries env deleted ((oid, ti, values) # entries) seen im =
     (if unique_field_names ti = [] then check_unique_entries env deleted entries seen im
      else case im_ensure env ti im of
        Inl e \<Rightarrow> (Inl e, im)
      | Inr (ci, im1) \<Rightarrow>
          (case fold_res (check_unique_field oid ti values deleted ci) (unique_field_names ti) seen of
             Inl e \<Rightarrow> (Inl e, im1)
           | Inr seen1 \<Rightarrow> check_unique_entries env deleted entries seen1 im1))"

definition im_check_unique ::
    "im_env \<Rightarrow> index_entry list \<Rightarrow> nat set \<Rightarrow> index_manager \<Rightarrow> unit res \<times> index_manager" where
  "im_check_unique env entries deleted im = check_unique_entries env deleted entries [] im"

type_synonym first_keys = "(string \<times> string, key) dict"

definition check_temporal_field ::
    "typeinfo \<Rightarrow> row \<Rightarrow> class_indexes option \<Rightarrow> string \<Rightarrow> first_keys \<Rightarrow> first_keys res" where
  "check_temporal_field ti values ci f first =
     (case dict_getd values f PNone of
        PDec DecNaN \<Rightarrow> Inl PyValueError
      | PDateTime aware t \<Rightarrow>
          (let value = KDateTime aware t;
               existing = (case dict_get first (ti_name ti, f) of
                   Some k \<Rightarrow> Some k
                 | None \<Rightarrow>
                     (case ci of None \<Rightarrow> None
                      | Some c \<Rightarrow>
                          (case dict_get (ci_sorted_keys c) f of
                             Some (k # _) \<Rightarrow> Some k
                           | _ \<Rightarrow> None)))
           in case existing of
                Some k \<Rightarrow> bind_res (guard_temporal_comparable value k) (\<lambda>_. Inr first)
              | None \<Rightarrow> Inr (AList.update (ti_name ti, f) value first))
      | _ \<Rightarrow> Inr first)"

definition im_check_sorted_temporal :: "index_entry list \<Rightarrow> index_manager \<Rightarrow> unit res" where
  "im_check_sorted_temporal entries im =
     bind_res
       (fold_res
          (\<lambda>(oid, ti, values) first.
             fold_res (check_temporal_field ti values (dict_get (im_by_cls im) (ti_name ti)))
               (sorted_field_names ti) first)
          entries [])
       (\<lambda>_. Inr ())"

section \<open>Last-phase folds\<close>

definition invalidate_stale_blob :: "typeinfo \<Rightarrow> index_manager \<Rightarrow> index_manager" where
  "invalidate_stale_blob ti im =
     im\<lparr>im_cache := map_option (AList.delete (ti_name ti)) (im_cache im)\<rparr>"

definition maintained_row :: "typeinfo \<Rightarrow> row \<Rightarrow> row" where
  "maintained_row ti values = filter (\<lambda>(f, v). f \<in> set (maintained_fields ti)) values"

definition drop_reverse_blob :: "bool \<Rightarrow> index_manager \<Rightarrow> index_manager" where
  "drop_reverse_blob changed im =
     (if changed \<and> im_reverse im = None \<and> im_reverse_blob im \<noteq> None
      then im\<lparr>im_reverse_blob := None\<rparr> else im)"

definition im_apply_entry :: "index_entry \<Rightarrow> index_manager \<Rightarrow> index_manager res" where
  "im_apply_entry entry im =
     (case entry of (oid, ti, values) \<Rightarrow>
        (case dict_get (im_by_cls im) (ti_name ti) of
           None \<Rightarrow> Inr (invalidate_stale_blob ti im)
         | Some ci \<Rightarrow>
             bind_res (ci_insert oid (maintained_row ti values) ci) (\<lambda>ci'.
               Inr (im\<lparr>im_by_cls := AList.update (ti_name ti) ci' (im_by_cls im)\<rparr>))))"

definition im_apply :: "index_entry list \<Rightarrow> index_manager \<Rightarrow> index_manager res" where
  "im_apply entries im = fold_res im_apply_entry entries (drop_reverse_blob (entries \<noteq> []) im)"

definition im_delete_entry :: "nat \<times> typeinfo \<Rightarrow> index_manager \<Rightarrow> index_manager res" where
  "im_delete_entry entry im =
     (case entry of (oid, ti) \<Rightarrow>
        (case dict_get (im_by_cls im) (ti_name ti) of
           None \<Rightarrow> Inr (invalidate_stale_blob ti im)
         | Some ci \<Rightarrow>
             bind_res (ci_remove oid ci) (\<lambda>ci'.
               Inr (im\<lparr>im_by_cls := AList.update (ti_name ti) ci' (im_by_cls im)\<rparr>))))"

definition im_apply_deletes :: "(nat \<times> typeinfo) list \<Rightarrow> index_manager \<Rightarrow> index_manager res" where
  "im_apply_deletes deletes im = fold_res im_delete_entry deletes im"

section \<open>The reverse-reference index\<close>

lemma size_dict_values:
  "sum_list (map size (map snd d)) + length d \<le> size_list (size_prod size size) (d :: (pyval \<times> pyval) list)"
  by (induction d) (auto simp: size_prod_simp)

lemma size_dict_stack:
  "sum_list (map (size \<circ> snd) d) + length d < Suc (Suc (size_list (size_prod size size) (d :: (pyval \<times> pyval) list)))"
  using size_dict_values [of d] by simp

lemma size_list_values: "size_list size xs = sum_list (map size xs) + length xs"
  by (induction xs) auto

text \<open>
  \<open>harvest_loop\<close>: \<open>stack\<close> is the Python list with its top at the head; a list is pushed element
  by element, so its last element is popped first. The dict key is not visited.
\<close>

function harvest_loop :: "pyval list \<Rightarrow> nat set \<Rightarrow> nat set" where
  "harvest_loop [] out = out"
| "harvest_loop (v # stack) out =
     (case v of
        PRef oid \<Rightarrow> harvest_loop stack (insert oid out)
      | PList xs \<Rightarrow> harvest_loop (rev xs @ stack) out
      | PDict d \<Rightarrow> harvest_loop (rev (map snd d) @ stack) out
      | _ \<Rightarrow> harvest_loop stack out)"
  by pat_completeness auto
termination
  by (relation "measure (\<lambda>(stack, out). sum_list (map size stack) + length stack)")
    (auto simp: size_list_values rev_map [symmetric] sum_list_rev size_dict_stack)

definition harvest_ref_oids :: "pyval list \<Rightarrow> nat set" where
  "harvest_ref_oids values = harvest_loop (rev values) {}"

definition reverse_built :: "index_manager \<Rightarrow> bool" where
  "reverse_built im \<longleftrightarrow> im_reverse im \<noteq> None"

type_synonym postings = "(nat, bitmap) dict"

definition post_refs :: "nat \<Rightarrow> nat set \<Rightarrow> postings \<Rightarrow> postings" where
  "post_refs referrer targets rv = fold (\<lambda>t d. post_add d t referrer) (bm_iter targets) rv"

definition reverse_record ::
    "im_env \<Rightarrow> nat \<times> bytes \<Rightarrow> postings \<times> postings \<Rightarrow> (postings \<times> postings) res" where
  "reverse_record env rec acc =
     (case (rec, acc) of ((oid, payload), (rv, refs)) \<Rightarrow>
        bind_res (env_decode env payload) (\<lambda>values.
          let targets = harvest_ref_oids values in
          if targets = {} then Inr (rv, refs)
          else Inr (post_refs oid targets rv, AList.update oid targets refs)))"

definition ensure_reverse :: "im_env \<Rightarrow> index_manager \<Rightarrow> (postings \<times> index_manager) res" where
  "ensure_reverse env im =
     (case im_reverse im of
        Some rv \<Rightarrow> Inr (rv, im)
      | None \<Rightarrow>
          (case im_reverse_blob im of
             Some blob \<Rightarrow>
               (let rv = fold (\<lambda>(t, b) d. AList.update t (env_deser env b) d) blob []
                in Inr (rv, im\<lparr>im_reverse_blob := None, im_reverse := Some rv,
                                im_reverse_refs := [], im_refs_dirty := True\<rparr>))
           | None \<Rightarrow>
               bind_res
                 (fold_res (\<lambda>cid acc. fold_res (reverse_record env) (env_scan env cid) acc)
                    (env_all_cids env) ([], []))
                 (\<lambda>(rv, refs).
                   Inr (rv, im\<lparr>im_reverse := Some rv, im_reverse_refs := refs\<rparr>))))"

definition dump_reverse :: "im_env \<Rightarrow> index_manager \<Rightarrow> reverse_blob option" where
  "dump_reverse env im =
     map_option (map (\<lambda>(t, bm). (t, env_ser env bm))) (im_reverse im)"

definition rebuild_reverse_refs :: "index_manager \<Rightarrow> index_manager" where
  "rebuild_reverse_refs im =
     im\<lparr>im_reverse_refs :=
          fold (\<lambda>(target, referrers) refs.
                  fold (\<lambda>referrer refs. post_add refs referrer target) (bm_iter referrers) refs)
            (case im_reverse im of None \<Rightarrow> [] | Some rv \<Rightarrow> rv) [],
        im_refs_dirty := False\<rparr>"

definition drop_edges :: "nat \<Rightarrow> nat set \<Rightarrow> postings \<Rightarrow> postings" where
  "drop_edges referrer old rv = fold (\<lambda>t d. post_discard d t referrer) (bm_iter old) rv"

definition fold_ref_entry :: "nat \<times> nat set \<Rightarrow> postings \<times> postings \<Rightarrow> postings \<times> postings" where
  "fold_ref_entry entry acc =
     (case (entry, acc) of ((referrer, targets), (rv, refs)) \<Rightarrow>
        let rv1 = (case dict_get refs referrer of
              None \<Rightarrow> rv | Some old \<Rightarrow> drop_edges referrer old rv)
        in if targets \<noteq> {} then (post_refs referrer targets rv1, AList.update referrer targets refs)
           else (rv1, AList.delete referrer refs))"

definition settled :: "index_manager \<Rightarrow> index_manager" where
  "settled im = (if im_refs_dirty im then rebuild_reverse_refs im else im)"

definition apply_reverse :: "(nat \<times> nat set) list \<Rightarrow> index_manager \<Rightarrow> index_manager" where
  "apply_reverse ref_entries im =
     (case im_reverse im of
        None \<Rightarrow> im
      | Some rv \<Rightarrow>
          (let im1 = settled im;
               (rv', refs') = fold fold_ref_entry ref_entries (rv, im_reverse_refs im1)
           in im1\<lparr>im_reverse := Some rv', im_reverse_refs := refs'\<rparr>))"

definition remove_referrer :: "nat \<Rightarrow> postings \<times> postings \<Rightarrow> postings \<times> postings" where
  "remove_referrer d acc =
     (case acc of (rv, refs) \<Rightarrow>
        (case dict_get refs d of
           None \<Rightarrow> (rv, refs)
         | Some old \<Rightarrow> (drop_edges d old rv, AList.delete d refs)))"

definition remove_reverse :: "nat list \<Rightarrow> index_manager \<Rightarrow> index_manager" where
  "remove_reverse deleted_oids im0 =
     (let im = drop_reverse_blob (deleted_oids \<noteq> []) im0 in
      case im_reverse im of
        None \<Rightarrow> im
      | Some rv \<Rightarrow>
          (let im1 = settled im;
               (rv', refs') = fold remove_referrer deleted_oids (rv, im_reverse_refs im1)
           in im1\<lparr>im_reverse := Some rv', im_reverse_refs := refs'\<rparr>))"

section \<open>The harvest finds every reference\<close>

function (sequential) refs_of :: "pyval \<Rightarrow> nat set" where
  "refs_of (PRef oid) = {oid}"
| "refs_of (PList xs) = (\<Union>x \<in> set xs. refs_of x)"
| "refs_of (PDict d) = (\<Union>x \<in> set (map snd d). refs_of x)"
| "refs_of v = {}"
  by pat_completeness auto
termination
proof (relation "measure size")
  fix d :: "(pyval \<times> pyval) list" and x
  assume "x \<in> set (map snd d)"
  then have "size x \<le> sum_list (map size (map snd d))"
    by (intro member_le_sum_list) auto
  then show "(x, PDict d) \<in> measure size"
    using size_dict_values [of d] by simp
qed (auto simp: less_Suc_eq_le intro: size_list_estimation')

lemma harvest_loop_refs: "harvest_loop stack out = out \<union> (\<Union>v \<in> set stack. refs_of v)"
proof (induction stack out rule: harvest_loop.induct)
  case (1 out)
  then show ?case by simp
next
  case (2 v stack out)
  then show ?case by (cases v) auto
qed

lemma harvest_refs: "harvest_ref_oids values = (\<Union>v \<in> set values. refs_of v)"
  by (simp add: harvest_ref_oids_def harvest_loop_refs)

lemma finite_refs_of: "finite (refs_of v)"
  by (induction v rule: refs_of.induct) auto

lemma finite_harvest: "finite (harvest_ref_oids values)"
  by (simp add: harvest_refs finite_refs_of)

section \<open>The reverse index is exact\<close>

text \<open>
  \<open>G r\<close> is the set of OIDs the record \<open>r\<close> references. The postings are its inverse, and the diff
  memory is \<open>G\<close> itself unless it awaits a rebuild after a cache load.
\<close>

definition rev_posts :: "postings \<Rightarrow> (nat \<Rightarrow> nat set) \<Rightarrow> bool" where
  "rev_posts rv G \<longleftrightarrow> (\<forall>t. dict_getd rv t {} = {r. t \<in> G r})"

definition refs_mem :: "postings \<Rightarrow> (nat \<Rightarrow> nat set) \<Rightarrow> bool" where
  "refs_mem refs G \<longleftrightarrow> (\<forall>r. dict_getd refs r {} = G r)"

definition small_graph :: "(nat \<Rightarrow> nat set) \<Rightarrow> bool" where
  "small_graph G \<longleftrightarrow> (\<forall>r. finite (G r)) \<and> finite {r. G r \<noteq> {}}"

definition reverse_ok :: "index_manager \<Rightarrow> (nat \<Rightarrow> nat set) \<Rightarrow> bool" where
  "reverse_ok im G \<longleftrightarrow> small_graph G \<and>
     (\<forall>rv. im_reverse im = Some rv \<longrightarrow>
        dict_wf rv \<and> rev_posts rv G \<and> (\<not> im_refs_dirty im \<longrightarrow> refs_mem (im_reverse_refs im) G))"

lemma post_refs_getd:
  assumes "finite ts"
  shows "dict_getd (post_refs r ts rv) t {} = (if t \<in> ts then insert r (dict_getd rv t {}) else dict_getd rv t {})"
  using assms by (simp add: post_refs_def fold_post_add_getd)

lemma drop_edges_getd:
  assumes "finite ts"
  shows "dict_getd (drop_edges r ts rv) t {} = (if t \<in> ts then dict_getd rv t {} - {r} else dict_getd rv t {})"
  using assms by (simp add: drop_edges_def fold_post_discard_getd)

lemma edges_wf [simp]:
  "dict_wf rv \<Longrightarrow> dict_wf (post_refs r ts rv)" "dict_wf rv \<Longrightarrow> dict_wf (drop_edges r ts rv)"
  by (simp_all add: post_refs_def drop_edges_def)

lemma fold_ref_entry_ok:
  assumes "dict_wf rv" and "rev_posts rv G" and "refs_mem refs G" and "small_graph G" and "finite ts"
    and "fold_ref_entry (r, ts) (rv, refs) = (rv', refs')"
  shows "dict_wf rv' \<and> rev_posts rv' (G(r := ts)) \<and> refs_mem refs' (G(r := ts)) \<and> small_graph (G(r := ts))"
proof -
  define rv1 where "rv1 = (case dict_get refs r of None \<Rightarrow> rv | Some old \<Rightarrow> drop_edges r old rv)"
  have old: "dict_getd refs r {} = G r" and fin: "finite (G r)"
    using assms(3,4) by (auto simp: refs_mem_def small_graph_def)
  have rv1: "dict_wf rv1" "dict_getd rv1 t {} = {x. x \<noteq> r \<and> t \<in> G x}" for t
    using assms(1,2) old fin
    by (auto simp: rv1_def rev_posts_def dict_getd_def [of refs] drop_edges_getd split: option.splits)
  have res: "rv' = (if ts \<noteq> {} then post_refs r ts rv1 else rv1)"
    "refs' = (if ts \<noteq> {} then AList.update r ts refs else AList.delete r refs)"
    using assms(6) by (auto simp: fold_ref_entry_def rv1_def Let_def split: if_splits)
  have "dict_wf rv'"
    using rv1(1) by (simp add: res)
  moreover have "rev_posts rv' (G(r := ts))"
    unfolding rev_posts_def
  proof
    fix t
    show "dict_getd rv' t {} = {x. t \<in> (G(r := ts)) x}"
    proof (cases "t \<in> ts")
      case True
      then have "dict_getd rv' t {} = insert r {x. x \<noteq> r \<and> t \<in> G x}"
        using rv1(2) assms(5) by (auto simp: res post_refs_getd)
      then show ?thesis
        using True by auto
    next
      case False
      then have "dict_getd rv' t {} = {x. x \<noteq> r \<and> t \<in> G x}"
        using rv1(2) assms(5) by (auto simp: res post_refs_getd)
      then show ?thesis
        using False by auto
    qed
  qed
  moreover have "refs_mem refs' (G(r := ts))"
    using assms(3) by (auto simp: res refs_mem_def dict_getd_def)
  moreover have "small_graph (G(r := ts))"
  proof -
    have "{x. (G(r := ts)) x \<noteq> {}} \<subseteq> insert r {x. G x \<noteq> {}}"
      by auto
    moreover have "finite (insert r {x. G x \<noteq> {}})"
      using assms(4) by (simp add: small_graph_def)
    ultimately have "finite {x. (G(r := ts)) x \<noteq> {}}"
      by (rule finite_subset)
    moreover have "finite ((G(r := ts)) x)" for x
      using assms(4,5) by (simp add: small_graph_def)
    ultimately show ?thesis
      unfolding small_graph_def by blast
  qed
  ultimately show ?thesis
    by blast
qed

lemma fold_ref_entries_ok:
  assumes "dict_wf rv" and "rev_posts rv G" and "refs_mem refs G" and "small_graph G"
    and "\<forall>(r, ts) \<in> set entries. finite ts" and "fold fold_ref_entry entries (rv, refs) = (rv', refs')"
  shows "dict_wf rv' \<and> rev_posts rv' (fold (\<lambda>(r, ts) G. G(r := ts)) entries G)
    \<and> refs_mem refs' (fold (\<lambda>(r, ts) G. G(r := ts)) entries G) \<and> small_graph (fold (\<lambda>(r, ts) G. G(r := ts)) entries G)"
  using assms
proof (induction entries arbitrary: rv refs G)
  case Nil
  then show ?case by simp
next
  case (Cons e entries)
  obtain r ts rv1 refs1 where e: "e = (r, ts)" and s: "fold_ref_entry (r, ts) (rv, refs) = (rv1, refs1)"
    by (metis surj_pair)
  have "finite ts"
    using Cons.prems(5) by (simp add: e)
  then have ok: "dict_wf rv1" "rev_posts rv1 (G(r := ts))" "refs_mem refs1 (G(r := ts))" "small_graph (G(r := ts))"
    using fold_ref_entry_ok [OF Cons.prems(1-4) _ s] by blast+
  have rest: "\<forall>(r, ts) \<in> set entries. finite ts" "fold fold_ref_entry entries (rv1, refs1) = (rv', refs')"
    using Cons.prems(5,6) by (simp_all add: e s)
  show ?case
    using Cons.IH [OF ok(1-4) rest] by (simp add: e del: fun_upd_apply)
qed

lemma refs_mem_delete:
  "G r = {} \<Longrightarrow> refs_mem refs G \<Longrightarrow> refs_mem (AList.delete r refs) G"
  by (auto simp: refs_mem_def dict_getd_def)

lemma remove_referrer_ok:
  assumes "dict_wf rv" and "rev_posts rv G" and "refs_mem refs G" and "small_graph G"
    and "remove_referrer d (rv, refs) = (rv', refs')"
  shows "dict_wf rv' \<and> rev_posts rv' (G(d := {})) \<and> refs_mem refs' (G(d := {})) \<and> small_graph (G(d := {}))"
proof (cases "dict_get refs d")
  case None
  then have "G d = {}"
    using assms(3) by (auto simp: refs_mem_def dict_getd_def dest: spec [of _ d])
  then have same: "G(d := {}) = G"
    by (simp add: fun_upd_idem)
  have "rv' = rv" "refs' = refs"
    using assms(5) None by (simp_all add: remove_referrer_def)
  then show ?thesis
    using assms(1-4) same by simp
next
  case (Some old)
  then have same: "remove_referrer d (rv, refs) = fold_ref_entry (d, {}) (rv, refs)"
    by (simp add: remove_referrer_def fold_ref_entry_def)
  show ?thesis
    by (rule fold_ref_entry_ok [OF assms(1-4)]) (use assms(5) same in auto)
qed

lemma remove_referrers_ok:
  assumes "dict_wf rv" and "rev_posts rv G" and "refs_mem refs G" and "small_graph G"
    and "fold remove_referrer ds (rv, refs) = (rv', refs')"
  shows "dict_wf rv' \<and> rev_posts rv' (fold (\<lambda>d G. G(d := {})) ds G)
    \<and> refs_mem refs' (fold (\<lambda>d G. G(d := {})) ds G) \<and> small_graph (fold (\<lambda>d G. G(d := {})) ds G)"
  using assms
proof (induction ds arbitrary: rv refs G)
  case Nil
  then show ?case by simp
next
  case (Cons d ds)
  obtain rv1 refs1 where s: "remove_referrer d (rv, refs) = (rv1, refs1)"
    by fastforce
  have ok: "dict_wf rv1" "rev_posts rv1 (G(d := {}))" "refs_mem refs1 (G(d := {}))" "small_graph (G(d := {}))"
    using remove_referrer_ok [OF Cons.prems(1-4) s] by blast+
  have rest: "fold remove_referrer ds (rv1, refs1) = (rv', refs')"
    using Cons.prems(5) by (simp add: s)
  show ?case
    using Cons.IH [OF ok rest] by (simp del: fun_upd_apply)
qed

text \<open>The rebuild after a cache load inverts the postings.\<close>

lemma fold_post_refs_getd:
  "\<forall>(t, rs) \<in> set rv. finite rs \<Longrightarrow>
   dict_getd (fold (\<lambda>(t, rs) refs. post_refs t rs refs) rv refs) r {} =
     dict_getd refs r {} \<union> {t. \<exists>rs. (t, rs) \<in> set rv \<and> r \<in> rs}"
proof (induction rv arbitrary: refs)
  case Nil
  then show ?case by simp
next
  case (Cons e rv)
  obtain t rs where e: "e = (t, rs)"
    by fastforce
  have "dict_getd (fold (\<lambda>(t, rs) refs. post_refs t rs refs) (e # rv) refs) r {} =
      dict_getd (post_refs t rs refs) r {} \<union> {t. \<exists>rs. (t, rs) \<in> set rv \<and> r \<in> rs}"
    using Cons by (simp add: e)
  also have "dict_getd (post_refs t rs refs) r {} = dict_getd refs r {} \<union> (if r \<in> rs then {t} else {})"
    using Cons.prems by (simp add: e post_refs_getd)
  finally show ?case
    by (auto simp: e)
qed

lemma posting_finite:
  assumes "dict_wf rv" and "rev_posts rv G" and "small_graph G" and "(t, rs) \<in> set rv"
  shows "finite rs" and "rs = {r. t \<in> G r}"
proof -
  have "dict_get rv t = Some rs"
    using assms(1,4) by (simp add: dict_wf_def)
  then show eq: "rs = {r. t \<in> G r}"
    using assms(2) by (auto simp: rev_posts_def dict_getd_def dest: spec [of _ t])
  have "rs \<subseteq> {r. G r \<noteq> {}}"
    using eq by auto
  then show "finite rs"
    using assms(3) by (auto simp: small_graph_def intro: finite_subset)
qed

lemma rebuild_refs_mem:
  assumes "im_reverse im = Some rv" and "dict_wf rv" and "rev_posts rv G" and "small_graph G"
  shows "refs_mem (im_reverse_refs (rebuild_reverse_refs im)) G"
  unfolding refs_mem_def
proof
  fix r
  note fin = posting_finite [OF assms(2-4)]
  have "dict_getd (im_reverse_refs (rebuild_reverse_refs im)) r {} = {t. \<exists>rs. (t, rs) \<in> set rv \<and> r \<in> rs}"
    using fold_post_refs_getd [of rv "[]" r] fin(1)
    by (auto simp: rebuild_reverse_refs_def assms(1) post_refs_def [abs_def] dict_getd_def)
  also have "\<dots> = {t. r \<in> dict_getd rv t {}}"
    using dict_wf_in_set [OF assms(2)] by (auto simp: dict_getd_def split: option.splits)
  also have "\<dots> = G r"
    using assms(3) by (auto simp: rev_posts_def)
  finally show "dict_getd (im_reverse_refs (rebuild_reverse_refs im)) r {} = G r" .
qed

lemma settled_ok:
  assumes "reverse_ok im G" and "im_reverse im = Some rv"
  shows "refs_mem (im_reverse_refs (settled im)) G"
    and "\<not> im_refs_dirty (settled im)" and "im_reverse (settled im) = Some rv"
  using assms rebuild_refs_mem [OF assms(2)]
  by (auto simp: reverse_ok_def settled_def rebuild_reverse_refs_def)

definition graph_write :: "(nat \<times> nat set) list \<Rightarrow> (nat \<Rightarrow> nat set) \<Rightarrow> (nat \<Rightarrow> nat set)" where
  "graph_write entries G = fold (\<lambda>(r, ts) G. G(r := ts)) entries G"

definition graph_drop :: "nat list \<Rightarrow> (nat \<Rightarrow> nat set) \<Rightarrow> (nat \<Rightarrow> nat set)" where
  "graph_drop ds G = fold (\<lambda>d G. G(d := {})) ds G"

lemma small_graph_update: "small_graph G \<Longrightarrow> finite ts \<Longrightarrow> small_graph (G(r := ts))"
proof -
  assume G: "small_graph G" and ts: "finite ts"
  have "{x. (G(r := ts)) x \<noteq> {}} \<subseteq> insert r {x. G x \<noteq> {}}"
    by auto
  moreover have "finite (insert r {x. G x \<noteq> {}})"
    using G by (simp add: small_graph_def)
  ultimately have "finite {x. (G(r := ts)) x \<noteq> {}}"
    by (rule finite_subset)
  moreover have "finite ((G(r := ts)) x)" for x
    using G ts by (simp add: small_graph_def)
  ultimately show ?thesis
    unfolding small_graph_def by blast
qed

lemma small_graph_write: "small_graph G \<Longrightarrow> \<forall>(r, ts) \<in> set entries. finite ts \<Longrightarrow> small_graph (graph_write entries G)"
  unfolding graph_write_def
  by (induction entries arbitrary: G) (auto intro: small_graph_update simp del: fun_upd_apply)

lemma small_graph_drop: "small_graph G \<Longrightarrow> small_graph (graph_drop ds G)"
  unfolding graph_drop_def
  by (induction ds arbitrary: G) (auto intro: small_graph_update simp del: fun_upd_apply)

lemma apply_reverse_ok:
  assumes "reverse_ok im G" and "\<forall>(r, ts) \<in> set entries. finite ts"
  shows "reverse_ok (apply_reverse entries im) (graph_write entries G)"
proof (cases "im_reverse im")
  case None
  then show ?thesis
    using assms by (auto simp: reverse_ok_def apply_reverse_def small_graph_write)
next
  case (Some rv)
  obtain rv' refs' where f: "fold fold_ref_entry entries (rv, im_reverse_refs (settled im)) = (rv', refs')"
    by fastforce
  have base: "dict_wf rv" "rev_posts rv G" "small_graph G"
    using assms(1) Some by (simp_all add: reverse_ok_def)
  note ok = fold_ref_entries_ok [OF base(1,2) settled_ok(1) [OF assms(1) Some] base(3) assms(2) f]
  show ?thesis
    using ok Some by (simp add: reverse_ok_def apply_reverse_def Let_def f graph_write_def)
qed

lemma drop_reverse_blob_ok: "reverse_ok (drop_reverse_blob b im) G = reverse_ok im G"
  by (simp add: reverse_ok_def drop_reverse_blob_def)

lemma remove_reverse_ok:
  assumes "reverse_ok im G"
  shows "reverse_ok (remove_reverse ds im) (graph_drop ds G)"
proof (cases "im_reverse (drop_reverse_blob (ds \<noteq> []) im)")
  case None
  then show ?thesis
    using assms by (auto simp: reverse_ok_def remove_reverse_def Let_def small_graph_drop drop_reverse_blob_def)
next
  case (Some rv)
  let ?im = "drop_reverse_blob (ds \<noteq> []) im"
  have im: "reverse_ok ?im G"
    using assms by (simp add: drop_reverse_blob_ok)
  obtain rv' refs' where f: "fold remove_referrer ds (rv, im_reverse_refs (settled ?im)) = (rv', refs')"
    by fastforce
  have base: "dict_wf rv" "rev_posts rv G" "small_graph G"
    using im Some by (simp_all add: reverse_ok_def)
  note ok = remove_referrers_ok [OF base(1,2) settled_ok(1) [OF im Some] base(3) f]
  show ?thesis
    using ok Some by (simp add: reverse_ok_def remove_reverse_def Let_def f graph_drop_def)
qed

text \<open>The scan: the graph of the records themselves.\<close>

definition payload_refs :: "im_env \<Rightarrow> bytes \<Rightarrow> nat set" where
  "payload_refs env p = (case env_decode env p of Inl e \<Rightarrow> {} | Inr values \<Rightarrow> harvest_ref_oids values)"

definition all_rows :: "im_env \<Rightarrow> (nat \<times> bytes) list" where
  "all_rows env = concat (map (env_scan env) (env_all_cids env))"

definition scan_graph :: "im_env \<Rightarrow> nat \<Rightarrow> nat set" where
  "scan_graph env = graph_write (map (\<lambda>(oid, p). (oid, payload_refs env p)) (all_rows env)) (\<lambda>_. {})"

lemma reverse_record_entry:
  assumes "reverse_record env (oid, p) (rv, refs) = Inr acc" and "dict_get refs oid = None"
  shows "acc = fold_ref_entry (oid, payload_refs env p) (rv, refs)"
proof -
  obtain vs where d: "env_decode env p = Inr vs"
    using assms(1) by (auto simp: reverse_record_def bind_res_Inr)
  have "AList.delete oid refs = refs"
    using assms(2) by (metis delete_id map_of_eq_None_iff)
  then show ?thesis
    using assms by (simp add: reverse_record_def fold_ref_entry_def payload_refs_def d Let_def split: if_splits)
qed

lemma fold_entry_key:
  "fold_ref_entry (r, ts) (rv, refs) = (rv', refs') \<Longrightarrow> r' \<noteq> r \<Longrightarrow> dict_get refs' r' = dict_get refs r'"
  by (auto simp: fold_ref_entry_def Let_def update_conv' delete_conv' split: if_splits)

lemma fold_reverse_records:
  assumes "fold_res (reverse_record env) rows (rv, refs) = Inr (rv', refs')"
    and "distinct (map fst rows)" and "\<forall>(oid, p) \<in> set rows. dict_get refs oid = None"
  shows "fold fold_ref_entry (map (\<lambda>(oid, p). (oid, payload_refs env p)) rows) (rv, refs) = (rv', refs')"
  using assms
proof (induction rows arbitrary: rv refs)
  case Nil
  then show ?case by simp
next
  case (Cons e rows)
  obtain oid p where e: "e = (oid, p)"
    by fastforce
  obtain acc where acc: "reverse_record env (oid, p) (rv, refs) = Inr acc"
    and rest: "fold_res (reverse_record env) rows acc = Inr (rv', refs')"
    using Cons.prems(1) by (cases "reverse_record env (oid, p) (rv, refs)") (simp_all add: e)
  obtain rv1 refs1 where a: "acc = (rv1, refs1)"
    by fastforce
  have entry: "fold_ref_entry (oid, payload_refs env p) (rv, refs) = (rv1, refs1)"
    using reverse_record_entry [OF acc] Cons.prems(3) by (simp add: e a)
  have "\<forall>(oid', p') \<in> set rows. dict_get refs1 oid' = None"
  proof (clarify)
    fix oid' p'
    assume m: "(oid', p') \<in> set rows"
    then have "oid' \<noteq> oid"
      using Cons.prems(2) by (force simp: e)
    then show "dict_get refs1 oid' = None"
      using fold_entry_key [OF entry] Cons.prems(3) m by auto
  qed
  then show ?case
    using Cons.IH [of rv1 refs1] rest Cons.prems(2) by (simp add: e a entry)
qed

lemma fold_res_concat_map:
  "fold_res (\<lambda>c acc. fold_res f (g c) acc) cs acc = fold_res f (concat (map g cs)) acc"
  by (induction cs arbitrary: acc) (auto simp: fold_res_append bind_res_def split: sum.splits)

lemma scanned_reverse_ok:
  assumes "ensure_reverse env im = Inr (rv, im')" and "im_reverse im = None" and "im_reverse_blob im = None"
    and "distinct (map fst (all_rows env))" and "\<not> im_refs_dirty im"
  shows "reverse_ok im' (scan_graph env) \<and> im_reverse im' = Some rv"
proof -
  obtain refs where f: "fold_res (reverse_record env) (all_rows env) ([], []) = Inr (rv, refs)"
    and im': "im' = im\<lparr>im_reverse := Some rv, im_reverse_refs := refs\<rparr>"
    using assms(1-3) by (auto simp: ensure_reverse_def bind_res_Inr fold_res_concat_map all_rows_def)
  let ?es = "map (\<lambda>(oid, p). (oid, payload_refs env p)) (all_rows env)"
  have g: "fold fold_ref_entry ?es ([], []) = (rv, refs)"
    using fold_reverse_records [OF f assms(4)] by simp
  have fin: "\<forall>(r, ts) \<in> set ?es. finite ts"
    by (auto simp: payload_refs_def finite_harvest split: sum.splits)
  have start: "dict_wf []" "rev_posts [] (\<lambda>_. {})" "refs_mem [] (\<lambda>_. {})" "small_graph (\<lambda>_. {})"
    by (simp_all add: dict_wf_def rev_posts_def refs_mem_def small_graph_def dict_getd_def)
  show ?thesis
    using fold_ref_entries_ok [OF start fin g] by (simp add: im' reverse_ok_def scan_graph_def graph_write_def)
qed

end
