(* ===== verification/Index_Commit.thy ===== *)
theory Index_Commit
  imports Index_Manager
begin

text \<open>
  The index manager over a commit: what the checks of the first phase establish is what the folds of
  the last phase need, so that every index the manager holds, and every cache blob it still trusts,
  is exact for the records of the store before and after.

  \<^item> \<open>T tn\<close> is the table of the class named \<open>tn\<close>: its stored rows, cut to the maintained fields.
  \<^item> \<open>manager_ok\<close> is the invariant, \<open>source_ok\<close> what it asks of the records, \<open>commit_folds\<close> the four
    calls of the last phase in their order.
\<close>

section \<open>The invariant\<close>

definition index_fits :: "typeinfo \<Rightarrow> class_indexes \<Rightarrow> bool" where
  "index_fits ti ci \<longleftrightarrow> set (ci_list_fields ci) = set (multivalued_field_names ti) \<and>
     set (ci_unique_fields ci) = set (unique_field_names ti)"

definition index_for :: "typeinfo \<Rightarrow> class_indexes \<Rightarrow> table \<Rightarrow> bool" where
  "index_for ti ci tab \<longleftrightarrow> index_fits ti ci \<and> ci_rep ci tab \<and> uniq_rep ci tab UNIV \<and> dicts_wf ci"

definition blob_ok :: "im_env \<Rightarrow> bytes index_blob \<Rightarrow> table \<Rightarrow> bool" where
  "blob_ok env b tab \<longleftrightarrow>
     (\<exists>ci. b = ci_dump (env_ser env) ci \<and> ci_rep ci tab \<and> uniq_rep ci tab UNIV \<and> dicts_wf ci \<and> finite_posts ci)"

definition manager_ok :: "im_env \<Rightarrow> (string \<Rightarrow> typeinfo) \<Rightarrow> (string \<Rightarrow> table) \<Rightarrow> index_manager \<Rightarrow> bool" where
  "manager_ok env cls T im \<longleftrightarrow>
     (\<forall>tn ci. dict_get (im_by_cls im) tn = Some ci \<longrightarrow> index_for (cls tn) ci (T tn)) \<and>
     (\<forall>blobs tn b. im_cache im = Some blobs \<longrightarrow> dict_get blobs tn = Some b \<longrightarrow>
        dict_get (im_by_cls im) tn = None \<longrightarrow> blob_ok env b (T tn))"

definition source_ok :: "im_env \<Rightarrow> typeinfo \<Rightarrow> table \<Rightarrow> bool" where
  "source_ok env ti tab \<longleftrightarrow> typeinfo_wf ti \<and>
     (\<exists>rows. lineage_rows (env_decode env) ti (env_lineage env ti) (env_scan env) = Inr rows \<and>
        distinct (map fst rows) \<and> (\<forall>oid r. (oid, Some r) \<in> set rows \<longrightarrow> row_ok (multivalued_field_names ti) r) \<and>
        tab = tab_steps rows Map.empty) \<and> tab_unique (empty_index ti) tab"

definition ser_ok :: "im_env \<Rightarrow> bool" where
  "ser_ok env \<longleftrightarrow> (\<forall>b. finite b \<longrightarrow> env_deser env (env_ser env b) = b)"

lemma tab_unique_fits:
  assumes "index_fits ti ci"
  shows "tab_unique ci = tab_unique (empty_index ti)"
proof -
  have "tab_has (ci_list_fields ci) = tab_has (multivalued_field_names ti)"
    using assms by (intro same_list_fields(4)) (simp add: index_fits_def)
  moreover have "uniq_key ci = uniq_key (empty_index ti)"
    using assms by (simp add: uniq_key_def index_fits_def fun_eq_iff)
  ultimately show ?thesis
    by (simp add: tab_unique_def fun_eq_iff)
qed

lemma sort_set_eq: "sort xs = sort ys \<Longrightarrow> set xs = set (ys :: string list)"
  by (metis set_sort)

lemma loaded_fits:
  assumes "ci_load deser (ci_dump ser ci) ti = Inr (Some ci')" and "dicts_wf ci" and "finite_posts ci"
    and "\<And>b. finite b \<Longrightarrow> deser (ser b) = b"
  shows "index_fits ti ci'"
proof -
  let ?blob = "ci_dump ser ci"
  have m: "blob_matches ?blob ti"
    using assms(1) by (auto simp: ci_load_def split: if_splits)
  obtain c where c: "derive_runs (load_columns deser ?blob) = Inr c" and ci': "ci' = c\<lparr>ci_needs_lv_rebuild := True\<rparr>"
    using assms(1) m by (auto simp: ci_load_def bind_res_Inr)
  have "ci_list_fields c = ci_list_fields (load_columns deser ?blob)
      \<and> ci_unique_fields c = ci_unique_fields (load_columns deser ?blob)"
    using c by (auto simp: derive_runs_Inr)
  moreover have "ci_list_fields (load_columns deser ?blob) = ib_list_fields ?blob"
    "ci_unique_fields (load_columns deser ?blob) = map fst (ib_unique ?blob)"
    by (simp_all add: load_columns_def new_class_indexes_def Let_def)
  moreover have "set (ib_list_fields ?blob) = set (multivalued_field_names ti)"
    "set (map fst (ib_unique ?blob)) = set (unique_field_names ti)"
    using m unfolding blob_matches_def by (blast dest: sort_set_eq)+
  ultimately show ?thesis
    by (simp add: index_fits_def ci')
qed

lemma finalize_frame:
  "finalize_build c = Inr ci \<Longrightarrow> ci_list_fields ci = ci_list_fields c \<and> ci_unique_fields ci = ci_unique_fields c"
  by (auto simp: finalize_build_def derive_runs_Inr bind_res_Inr)

lemma built_fits:
  assumes wf: "typeinfo_wf ti" and build: "build_class_indexes decode ti lineage scan = Inr ci"
    and rows: "lineage_rows decode ti lineage scan = Inr rows"
    and ok: "\<And>oid r. (oid, Some r) \<in> set rows \<Longrightarrow> row_ok (multivalued_field_names ti) r"
  shows "index_fits ti ci"
proof -
  let ?e = "begin_bulk (empty_index ti)"
  obtain c where c: "fold_res (build_cid decode ti scan) lineage ?e = Inr c" and fin: "finalize_build c = Inr ci"
    using build by (auto simp: build_class_indexes_def bind_res_Inr)
  have core: "ci_core ?e Map.empty"
    using empty_index_core [OF wf] by (simp add: begin_bulk_def)
  have "ci_list_fields c = multivalued_field_names ti \<and> ci_unique_fields c = unique_field_names ti"
  proof (cases "maintained_fields ti = []")
    case True
    then show ?thesis
      using c build_extent_only [OF True, of decode scan lineage ?e] by (auto simp: begin_bulk_def)
  next
    case False
    then have steps: "fold_res ci_step rows ?e = Inr c"
      using build_lineage_steps [OF c False] rows by auto
    have "same_shape ?e c"
      using ci_steps_rep [OF core steps] ok by (simp add: begin_bulk_def)
    then show ?thesis
      by (simp add: same_shape_simps begin_bulk_def)
  qed
  then show ?thesis
    using finalize_frame [OF fin] by (simp add: index_fits_def)
qed

lemma ensured_index_ok:
  assumes "manager_ok env cls T im" and "cls (ti_name ti) = ti" and "source_ok env ti (T (ti_name ti))"
    and "ser_ok env" and "im_ensure env ti im = Inr (ci, im')"
  shows "manager_ok env cls T im'" and "index_for ti ci (T (ti_name ti))"
    and "dict_get (im_by_cls im') (ti_name ti) = Some ci"
    and "dict_get (im_by_cls im) tn = Some c \<Longrightarrow> dict_get (im_by_cls im') tn = Some c"
    and "im_cache im' = im_cache im"
proof -
  let ?tn = "ti_name ti"
  have "manager_ok env cls T im' \<and> index_for ti ci (T ?tn) \<and> dict_get (im_by_cls im') ?tn = Some ci
      \<and> (dict_get (im_by_cls im) tn = Some c \<longrightarrow> dict_get (im_by_cls im') tn = Some c) \<and> im_cache im' = im_cache im"
  proof (cases "dict_get (im_by_cls im) ?tn")
    case (Some c')
    then have "ci = c'" "im' = im"
      using assms(5) by (simp_all add: im_ensure_def)
    moreover have "index_for ti c' (T ?tn)"
      using assms(1,2) Some by (auto simp: manager_ok_def dest: spec [of _ ?tn])
    ultimately show ?thesis
      using assms(1) Some by simp
  next
    case None
    have im': "im' = im\<lparr>im_by_cls := AList.update ?tn ci (im_by_cls im)\<rparr>"
      using assms(5) None by (auto simp: im_ensure_def bind_res_Inr split: option.splits)
    have rt: "\<And>b. finite b \<Longrightarrow> env_deser env (env_ser env b) = b"
      using assms(4) by (simp add: ser_ok_def)
    have "(\<exists>blobs b. im_cache im = Some blobs \<and> dict_get blobs ?tn = Some b \<and> ci_load (env_deser env) b ti = Inr (Some ci))
        \<or> build_class_indexes (env_decode env) ti (env_lineage env ti) (env_scan env) = Inr ci"
      using assms(5) None by (fastforce simp: im_ensure_def bind_res_Inr split: option.splits)
    then have "index_for ti ci (T ?tn)"
    proof
      assume "\<exists>blobs b. im_cache im = Some blobs \<and> dict_get blobs ?tn = Some b \<and> ci_load (env_deser env) b ti = Inr (Some ci)"
      then obtain blobs b where b: "im_cache im = Some blobs" "dict_get blobs ?tn = Some b"
        and load: "ci_load (env_deser env) b ti = Inr (Some ci)"
        by blast
      have "blob_ok env b (T ?tn)"
        using assms(1) b None by (simp add: manager_ok_def)
      then obtain c where c: "b = ci_dump (env_ser env) c" "ci_rep c (T ?tn)" "uniq_rep c (T ?tn) UNIV" "dicts_wf c"
        "finite_posts c"
        by (auto simp: blob_ok_def)
      have m: "blob_matches (ci_dump (env_ser env) c) ti"
        using load by (auto simp: c(1) ci_load_def split: if_splits)
      have "ci_rep ci (T ?tn)" "uniq_rep ci (T ?tn) UNIV" "dicts_wf ci"
        using load_dump_rep [where deser = "env_deser env", OF c(2-5) rt m] load by (auto simp: c(1))
      then show ?thesis
        using loaded_fits [where deser = "env_deser env", OF load [unfolded c(1)] c(4,5) rt] by (simp add: index_for_def)
    next
      assume build: "build_class_indexes (env_decode env) ti (env_lineage env ti) (env_scan env) = Inr ci"
      obtain rows where rows: "lineage_rows (env_decode env) ti (env_lineage env ti) (env_scan env) = Inr rows"
        "distinct (map fst rows)" "\<forall>oid r. (oid, Some r) \<in> set rows \<longrightarrow> row_ok (multivalued_field_names ti) r"
        and T: "T ?tn = tab_steps rows Map.empty" and wf: "typeinfo_wf ti" and u: "tab_unique (empty_index ti) (T ?tn)"
        using assms(3) by (auto simp: source_ok_def)
      have ok: "\<And>oid r. (oid, Some r) \<in> set rows \<Longrightarrow> row_ok (multivalued_field_names ti) r"
        using rows(3) by blast
      show ?thesis
        using build_class_indexes_rep [OF wf build rows(1,2) ok u [unfolded T]] built_fits [OF wf build rows(1) ok]
        by (simp add: index_for_def T)
    qed
    moreover from this have "manager_ok env cls T im'"
      using assms(1,2) None unfolding manager_ok_def im' by auto
    ultimately show ?thesis
      using None by (auto simp: im')
  qed
  then show "manager_ok env cls T im'" and "index_for ti ci (T ?tn)" and "dict_get (im_by_cls im') ?tn = Some ci"
    and "dict_get (im_by_cls im) tn = Some c \<Longrightarrow> dict_get (im_by_cls im') tn = Some c"
    and "im_cache im' = im_cache im"
    by blast+
qed

section \<open>What the unique check establishes\<close>

definition claims :: "row \<Rightarrow> string \<Rightarrow> key \<Rightarrow> bool" where
  "claims vals f k \<longleftrightarrow> dict_getd vals f PNone \<noteq> PNone \<and> hash_key (dict_getd vals f PNone) = Inr k"

definition claimed :: "index_entry list \<Rightarrow> string \<Rightarrow> string \<Rightarrow> key \<Rightarrow> nat \<Rightarrow> bool" where
  "claimed entries tn f k oid \<longleftrightarrow>
     (\<exists>ti vals. (oid, ti, vals) \<in> set entries \<and> ti_name ti = tn \<and> f \<in> set (unique_field_names ti) \<and> claims vals f k)"

definition free_for :: "class_indexes \<Rightarrow> nat set \<Rightarrow> string \<Rightarrow> key \<Rightarrow> nat \<Rightarrow> bool" where
  "free_for ci deleted f k oid \<longleftrightarrow> (\<forall>e. holder ci f k = Some e \<longrightarrow> e \<in> deleted \<or> e = oid)"

lemma claimed_Cons:
  "claimed ((oid', ti, vals) # entries) tn f k oid \<longleftrightarrow>
     (oid = oid' \<and> ti_name ti = tn \<and> f \<in> set (unique_field_names ti) \<and> claims vals f k) \<or> claimed entries tn f k oid"
  by (auto simp: claimed_def)

lemma check_unique_field_Inr:
  assumes "check_unique_field oid ti vals deleted ci f seen = Inr seen1"
  shows "(\<forall>x p. dict_get seen x = Some p \<longrightarrow> dict_get seen1 x = Some p)
    \<and> (\<forall>k. claims vals f k \<longrightarrow> free_for ci deleted f k oid \<and> dict_get seen1 (ti_name ti, f, k) = Some oid)"
proof (cases "dict_getd vals f PNone = PNone")
  case True
  then show ?thesis
    using assms by (simp add: check_unique_field_def claims_def)
next
  case False
  obtain held k where h: "dict_get (ci_unique ci) f = Some held" and k: "hash_key (dict_getd vals f PNone) = Inr k"
    using assms False by (auto simp: check_unique_field_def bind_res_Inr Let_def split: option.splits)
  have ho: "holder ci f k = dict_get held k"
    by (simp add: holder_def dict_getd_def h)
  have prior: "dict_get seen (ti_name ti, f, k) = None \<or> dict_get seen (ti_name ti, f, k) = Some oid"
    and ex: "free_for ci deleted f k oid"
    and s1: "seen1 = AList.update (ti_name ti, f, k) oid seen"
    using assms False h k ho
    by (auto simp: check_unique_field_def Let_def free_for_def split: option.splits if_splits)
  show ?thesis
    using prior ex k by (auto simp: s1 claims_def)
qed

lemma check_unique_fields_Inr:
  assumes "fold_res (check_unique_field oid ti vals deleted ci) fs seen = Inr seen1"
  shows "(\<forall>x p. dict_get seen x = Some p \<longrightarrow> dict_get seen1 x = Some p)
    \<and> (\<forall>f \<in> set fs. \<forall>k. claims vals f k \<longrightarrow> free_for ci deleted f k oid \<and> dict_get seen1 (ti_name ti, f, k) = Some oid)"
  using assms
proof (induction fs arbitrary: seen)
  case Nil
  then show ?case by simp
next
  case (Cons f fs)
  obtain s1 where s1: "check_unique_field oid ti vals deleted ci f seen = Inr s1"
    and rest: "fold_res (check_unique_field oid ti vals deleted ci) fs s1 = Inr seen1"
    using Cons.prems by (auto split: sum.splits)
  show ?case
    using check_unique_field_Inr [OF s1] Cons.IH [OF rest] by simp
qed

definition entries_known :: "im_env \<Rightarrow> (string \<Rightarrow> typeinfo) \<Rightarrow> (string \<Rightarrow> table) \<Rightarrow> index_entry list \<Rightarrow> bool" where
  "entries_known env cls T entries \<longleftrightarrow>
     (\<forall>(oid, ti, vals) \<in> set entries. cls (ti_name ti) = ti \<and> source_ok env ti (T (ti_name ti)))"

lemma check_unique_entries_ok:
  assumes "check_unique_entries env deleted entries seen im = (Inr (), im')"
    and "manager_ok env cls T im" and "ser_ok env" and "entries_known env cls T entries"
  shows "manager_ok env cls T im' \<and>
    (\<forall>tn ci. dict_get (im_by_cls im) tn = Some ci \<longrightarrow> dict_get (im_by_cls im') tn = Some ci) \<and>
    (\<forall>tn f k oid. claimed entries tn f k oid \<longrightarrow>
       (\<exists>ci. dict_get (im_by_cls im') tn = Some ci \<and> free_for ci deleted f k oid) \<and>
       (\<forall>p. dict_get seen (tn, f, k) = Some p \<longrightarrow> p = oid) \<and>
       (\<forall>oid'. claimed entries tn f k oid' \<longrightarrow> oid' = oid))"
  using assms
proof (induction entries arbitrary: seen im)
  case Nil
  then show ?case by (simp add: claimed_def)
next
  case (Cons e entries)
  obtain oid ti vals where e: "e = (oid, ti, vals)"
    by (metis surj_pair)
  have known: "cls (ti_name ti) = ti" "source_ok env ti (T (ti_name ti))" "entries_known env cls T entries"
    using Cons.prems(4) by (auto simp: entries_known_def e)
  show ?case
  proof (cases "unique_field_names ti = []")
    case True
    then show ?thesis
      using Cons.IH [of seen im] Cons.prems known(3) by (simp add: e claimed_Cons)
  next
    case False
    obtain ci im1 where ens: "im_ensure env ti im = Inr (ci, im1)"
      using Cons.prems(1) False by (auto simp: e split: sum.splits)
    note ok = ensured_index_ok [OF Cons.prems(2) known(1,2) Cons.prems(3) ens]
    obtain seen1 where s1: "fold_res (check_unique_field oid ti vals deleted ci) (unique_field_names ti) seen = Inr seen1"
      and rest: "check_unique_entries env deleted entries seen1 im1 = (Inr (), im')"
      using Cons.prems(1) False ens by (auto simp: e split: sum.splits)
    note fs = check_unique_fields_Inr [OF s1]
    note ih = Cons.IH [OF rest ok(1) Cons.prems(3) known(3)]
    have mono: "dict_get (im_by_cls im') tn = Some c" if "dict_get (im_by_cls im) tn = Some c" for tn c
      using ih ok(4) [OF that] by blast
    have built: "dict_get (im_by_cls im') (ti_name ti) = Some ci"
      using ih ok(3) by blast
    show ?thesis
    proof (intro conjI allI impI)
      show "manager_ok env cls T im'"
        using ih by blast
    next
      fix tn c
      assume "dict_get (im_by_cls im) tn = Some c"
      then show "dict_get (im_by_cls im') tn = Some c"
        by (rule mono)
    next
      fix tn f k o1
      assume c: "claimed (e # entries) tn f k o1"
      then consider "o1 = oid" "ti_name ti = tn" "f \<in> set (unique_field_names ti)" "claims vals f k"
        | "claimed entries tn f k o1"
        by (auto simp: e claimed_Cons)
      then show "\<exists>ci. dict_get (im_by_cls im') tn = Some ci \<and> free_for ci deleted f k o1"
      proof cases
        case 1
        then show ?thesis
          using fs built by blast
      next
        case 2
        then show ?thesis
          using ih by blast
      qed
    next
      fix tn f k o1 p
      assume c: "claimed (e # entries) tn f k o1" and p: "dict_get seen (tn, f, k) = Some p"
      have "dict_get seen1 (tn, f, k) = Some p"
        using fs p by blast
      then show "p = o1"
        using c fs ih by (auto simp: e claimed_Cons)
    next
      fix tn f k o1 o2
      assume c: "claimed (e # entries) tn f k o1" "claimed (e # entries) tn f k o2"
      show "o2 = o1"
        using c fs ih unfolding e claimed_Cons by (metis option.inject)
    qed
  qed
qed

section \<open>The folds, class by class\<close>

type_synonym commit_step = "nat \<times> typeinfo \<times> row option"

definition commit_steps :: "index_entry list \<Rightarrow> (nat \<times> typeinfo) list \<Rightarrow> commit_step list" where
  "commit_steps entries deletes =
     map (\<lambda>(oid, ti, vals). (oid, ti, Some (maintained_row ti vals))) entries @
     map (\<lambda>(oid, ti). (oid, ti, None)) deletes"

definition class_steps :: "string \<Rightarrow> commit_step list \<Rightarrow> (nat \<times> row option) list" where
  "class_steps tn steps = map (\<lambda>(oid, ti, r). (oid, r)) (filter (\<lambda>(oid, ti, r). ti_name ti = tn) steps)"

definition im_step :: "commit_step \<Rightarrow> index_manager \<Rightarrow> index_manager res" where
  "im_step s im =
     (case s of (oid, ti, r) \<Rightarrow>
        (case dict_get (im_by_cls im) (ti_name ti) of
           None \<Rightarrow> Inr (invalidate_stale_blob ti im)
         | Some ci \<Rightarrow>
             bind_res (ci_step (oid, r) ci) (\<lambda>ci'.
               Inr (im\<lparr>im_by_cls := AList.update (ti_name ti) ci' (im_by_cls im)\<rparr>))))"

definition commit_folds ::
    "index_entry list \<Rightarrow> (nat \<times> nat set) list \<Rightarrow> (nat \<times> typeinfo) list \<Rightarrow> index_manager \<Rightarrow> index_manager res" where
  "commit_folds entries ref_entries deletes im =
     bind_res (im_apply entries im) (\<lambda>im1.
     bind_res (im_apply_deletes deletes (apply_reverse ref_entries im1)) (\<lambda>im2.
     Inr (remove_reverse (map fst deletes) im2)))"

definition class_evolves :: "commit_step list \<Rightarrow> index_manager \<Rightarrow> index_manager \<Rightarrow> bool" where
  "class_evolves steps im im' \<longleftrightarrow>
     (\<forall>tn. dict_get (im_by_cls im) tn = None \<longrightarrow> dict_get (im_by_cls im') tn = None) \<and>
     (\<forall>tn ci. dict_get (im_by_cls im) tn = Some ci \<longrightarrow>
        (\<exists>ci'. dict_get (im_by_cls im') tn = Some ci' \<and> fold_res ci_step (class_steps tn steps) ci = Inr ci')) \<and>
     (\<forall>blobs' tn b. im_cache im' = Some blobs' \<longrightarrow> dict_get blobs' tn = Some b \<longrightarrow>
        (\<exists>blobs. im_cache im = Some blobs \<and> dict_get blobs tn = Some b) \<and>
        (dict_get (im_by_cls im) tn = None \<longrightarrow> class_steps tn steps = []))"

lemma class_steps_simps [simp]:
  "class_steps tn [] = []"
  "class_steps tn ((oid, ti, r) # steps) = (if ti_name ti = tn then [(oid, r)] else []) @ class_steps tn steps"
  "class_steps tn (s1 @ s2) = class_steps tn s1 @ class_steps tn s2"
  by (simp_all add: class_steps_def)

lemma class_evolves_Nil:
  "im_by_cls im' = im_by_cls im \<Longrightarrow> im_cache im' = im_cache im \<Longrightarrow> class_evolves [] im im'"
  by (simp add: class_evolves_def)

lemma class_evolves_trans:
  assumes "class_evolves s1 a b" and "class_evolves s2 b c"
  shows "class_evolves (s1 @ s2) a c"
  unfolding class_evolves_def
proof (intro conjI allI impI)
  fix tn
  assume "dict_get (im_by_cls a) tn = None"
  then show "dict_get (im_by_cls c) tn = None"
    using assms by (simp add: class_evolves_def)
next
  fix tn ci
  assume "dict_get (im_by_cls a) tn = Some ci"
  then obtain ci1 where "dict_get (im_by_cls b) tn = Some ci1" "fold_res ci_step (class_steps tn s1) ci = Inr ci1"
    using assms(1) unfolding class_evolves_def by metis
  moreover from this obtain ci2 where "dict_get (im_by_cls c) tn = Some ci2"
    "fold_res ci_step (class_steps tn s2) ci1 = Inr ci2"
    using assms(2) unfolding class_evolves_def by metis
  ultimately show "\<exists>ci'. dict_get (im_by_cls c) tn = Some ci' \<and> fold_res ci_step (class_steps tn (s1 @ s2)) ci = Inr ci'"
    by (simp add: fold_res_append)
next
  fix blobs' tn b'
  assume "im_cache c = Some blobs'" and "dict_get blobs' tn = Some b'"
  then obtain blobs where "im_cache b = Some blobs" "dict_get blobs tn = Some b'"
    using assms(2) unfolding class_evolves_def by metis
  then show "\<exists>blobs. im_cache a = Some blobs \<and> dict_get blobs tn = Some b'"
    using assms(1) unfolding class_evolves_def by metis
next
  fix blobs' tn b'
  assume c: "im_cache c = Some blobs'" "dict_get blobs' tn = Some b'" and a: "dict_get (im_by_cls a) tn = None"
  obtain blobs where "im_cache b = Some blobs" "dict_get blobs tn = Some b'"
    using c assms(2) unfolding class_evolves_def by metis
  moreover have "dict_get (im_by_cls b) tn = None"
    using a assms(1) by (simp add: class_evolves_def)
  ultimately have "class_steps tn s1 = []" "class_steps tn s2 = []"
    using a c assms unfolding class_evolves_def by metis+
  then show "class_steps tn (s1 @ s2) = []"
    by simp
qed

lemma im_step_evolves:
  assumes "im_step s im = Inr im'"
  shows "class_evolves [s] im im'"
proof -
  obtain oid ti r where s: "s = (oid, ti, r)"
    by (metis surj_pair)
  show ?thesis
  proof (cases "dict_get (im_by_cls im) (ti_name ti)")
    case None
    then show ?thesis
      using assms by (auto simp: s im_step_def class_evolves_def invalidate_stale_blob_def split: if_splits)
  next
    case (Some ci)
    then obtain ci' where "ci_step (oid, r) ci = Inr ci'"
      and "im' = im\<lparr>im_by_cls := AList.update (ti_name ti) ci' (im_by_cls im)\<rparr>"
      using assms by (auto simp: s im_step_def bind_res_Inr)
    then show ?thesis
      using Some by (auto simp: s class_evolves_def)
  qed
qed

lemma im_steps_evolve: "fold_res im_step steps im = Inr im' \<Longrightarrow> class_evolves steps im im'"
proof (induction steps arbitrary: im)
  case Nil
  then show ?case by (simp add: class_evolves_def)
next
  case (Cons s steps)
  obtain im1 where "im_step s im = Inr im1" and "fold_res im_step steps im1 = Inr im'"
    using Cons.prems by (auto split: sum.splits)
  then have "class_evolves ([s] @ steps) im im'"
    by (intro class_evolves_trans [OF im_step_evolves Cons.IH])
  then show ?case
    by simp
qed

lemma fold_res_map: "fold_res f (map g xs) s = fold_res (\<lambda>x. f (g x)) xs s"
  by (induction xs arbitrary: s) (simp_all split: sum.splits)

lemma im_entry_steps:
  "im_apply_entry (oid, ti, vals) im = im_step (oid, ti, Some (maintained_row ti vals)) im"
  "im_delete_entry (oid, ti) im = im_step (oid, ti, None) im"
  by (auto simp: im_apply_entry_def im_delete_entry_def im_step_def ci_step_def split: option.splits)

lemma reverse_frame [simp]:
  "im_by_cls (apply_reverse res im) = im_by_cls im" "im_cache (apply_reverse res im) = im_cache im"
  "im_by_cls (remove_reverse ds im) = im_by_cls im" "im_cache (remove_reverse ds im) = im_cache im"
  "im_by_cls (drop_reverse_blob b im) = im_by_cls im" "im_cache (drop_reverse_blob b im) = im_cache im"
  by (auto simp: apply_reverse_def remove_reverse_def settled_def rebuild_reverse_refs_def drop_reverse_blob_def
      Let_def split: option.splits prod.splits)

lemma commit_folds_evolve:
  assumes "commit_folds entries ref_entries deletes im = Inr im'"
  shows "class_evolves (commit_steps entries deletes) im im'"
proof -
  let ?s1 = "map (\<lambda>(oid, ti, vals). (oid, ti, Some (maintained_row ti vals))) entries"
  let ?s2 = "map (\<lambda>(oid, ti). (oid, ti, None)) deletes :: commit_step list"
  obtain im1 im2 where a: "im_apply entries im = Inr im1"
    and d: "im_apply_deletes deletes (apply_reverse ref_entries im1) = Inr im2"
    and im': "im' = remove_reverse (map fst deletes) im2"
    using assms by (auto simp: commit_folds_def bind_res_Inr)
  let ?im0 = "drop_reverse_blob (entries \<noteq> []) im"
  have e1: "im_apply_entry = (\<lambda>e. im_step (case e of (oid, ti, vals) \<Rightarrow> (oid, ti, Some (maintained_row ti vals))))"
    by (auto simp: im_entry_steps fun_eq_iff)
  have "fold_res im_step ?s1 ?im0 = Inr im1"
    using a unfolding im_apply_def e1 fold_res_map .
  then have 1: "class_evolves ([] @ ?s1) im im1"
    by (intro class_evolves_trans [OF class_evolves_Nil im_steps_evolve]) simp_all
  have e2: "im_delete_entry = (\<lambda>e. im_step (case e of (oid, ti) \<Rightarrow> (oid, ti, None)))"
    by (auto simp: im_entry_steps fun_eq_iff)
  have "fold_res im_step ?s2 (apply_reverse ref_entries im1) = Inr im2"
    using d unfolding im_apply_deletes_def e2 fold_res_map .
  then have 2: "class_evolves ([] @ ?s2) im1 im2"
    by (intro class_evolves_trans [OF class_evolves_Nil im_steps_evolve]) simp_all
  have 3: "class_evolves [] im2 im'"
    by (rule class_evolves_Nil) (simp_all add: im')
  show ?thesis
    using class_evolves_trans [OF class_evolves_trans [OF 1 2] 3] by (simp add: commit_steps_def)
qed

section \<open>The commit keeps the indexes exact\<close>

definition commit_wf ::
    "(string \<Rightarrow> typeinfo) \<Rightarrow> (string \<Rightarrow> table) \<Rightarrow> index_entry list \<Rightarrow> (nat \<times> typeinfo) list \<Rightarrow> bool" where
  "commit_wf cls T entries deletes \<longleftrightarrow> distinct (map fst entries @ map fst deletes) \<and>
     (\<forall>(oid, ti, vals) \<in> set entries. row_ok (multivalued_field_names ti) (maintained_row ti vals)) \<and>
     (\<forall>(d, ti) \<in> set deletes. \<forall>tn. T tn d \<noteq> None \<longrightarrow> tn = ti_name ti)"

lemma tab_steps_at: "distinct (map fst steps) \<Longrightarrow> (oid, r) \<in> set steps \<Longrightarrow> tab_steps steps tab oid = r"
proof (induction steps arbitrary: tab)
  case Nil
  then show ?case by simp
next
  case (Cons s steps)
  obtain o' r' where s: "s = (o', r')"
    by fastforce
  show ?case
  proof (cases "(oid, r) = s")
    case True
    then have "oid \<notin> fst ` set steps"
      using Cons.prems(1) by (auto simp: s)
    then show ?thesis
      using True by (simp add: s tab_steps_other)
  next
    case False
    then have "(oid, r) \<in> set steps" "distinct (map fst steps)"
      using Cons.prems by (auto simp: s)
    then show ?thesis
      using Cons.IH by (simp add: s del: fun_upd_apply)
  qed
qed

lemma class_steps_set:
  "(oid, r) \<in> set (class_steps tn (commit_steps entries deletes)) \<longleftrightarrow>
     (\<exists>ti vals. (oid, ti, vals) \<in> set entries \<and> ti_name ti = tn \<and> r = Some (maintained_row ti vals)) \<or>
     (\<exists>ti. (oid, ti) \<in> set deletes \<and> ti_name ti = tn \<and> r = None)"
  by (force simp: class_steps_def commit_steps_def)

lemma class_steps_distinct:
  assumes "distinct (map fst entries @ map fst deletes)"
  shows "distinct (map fst (class_steps tn (commit_steps entries deletes)))"
proof -
  have "map fst (commit_steps entries deletes) = map fst entries @ map fst deletes"
    by (simp add: commit_steps_def comp_def case_prod_beta)
  then have "distinct (map fst (commit_steps entries deletes))"
    using assms by simp
  moreover have "map fst (class_steps tn steps) = map fst (filter (\<lambda>(oid, ti, r). ti_name ti = tn) steps)" for steps
    by (induction steps) (auto simp: class_steps_def)
  ultimately show ?thesis
    by (simp add: distinct_map_filter)
qed

lemma maintained_key_claims:
  assumes "row_has_key ls (maintained_row ti vals) f k" and "f \<notin> set ls" and "k \<noteq> KNone"
    and "dict_wf (maintained_row ti vals)"
  shows "claims vals f k"
proof -
  obtain v where v: "dict_get (maintained_row ti vals) f = Some v" and k: "hash_key v = Inr k"
    using assms(1,2) by (auto simp: row_has_key_def val_has_key_def field_keys_def bind_res_Inr split: option.splits sum.splits)
  have keep: "dict_get (filter (\<lambda>(f, v). P f) vals) f = (if P f then dict_get vals f else None)" for P
    by (induction vals) auto
  have "dict_get vals f = Some v"
    using v keep [of "\<lambda>f. f \<in> set (maintained_fields ti)"] by (auto simp: maintained_row_def split: if_splits)
  moreover have "v \<noteq> PNone"
    using k assms(3) by (auto simp: hash_key_def)
  ultimately show ?thesis
    using k by (simp add: claims_def dict_getd_def)
qed

lemma unique_not_multivalued:
  assumes "typeinfo_wf ti" and "f \<in> set (unique_field_names ti)"
  shows "f \<notin> set (multivalued_field_names ti)"
proof
  assume "f \<in> set (multivalued_field_names ti)"
  then obtain s s' where s: "s \<in> set (ti_specs ti)" "fs_multivalued s" "fs_name s = f"
    and s': "s' \<in> set (ti_specs ti)" "fs_unique s'" "fs_name s' = f"
    using assms(2) by (auto simp: multivalued_field_names_def unique_field_names_def)
  have "distinct (map fs_name (ti_specs ti))"
    using assms(1) by (simp add: typeinfo_wf_def)
  then have "s = s'"
    using s s' by (metis distinct_map inj_on_eq_iff)
  moreover have "spec_wf s"
    using assms(1) s(1) by (simp add: typeinfo_wf_def list_all_iff)
  ultimately show False
    using s(2) s'(2) by (simp add: spec_wf_def)
qed

lemma committed_unique:
  assumes fits: "index_for (cls tn) ci (T tn)" and wf: "commit_wf cls T entries deletes"
    and known: "entries_known env cls T entries"
    and free: "\<And>f k oid. claimed entries tn f k oid \<Longrightarrow> free_for ci (fst ` set deletes) f k oid"
    and one: "\<And>f k a b. claimed entries tn f k a \<Longrightarrow> claimed entries tn f k b \<Longrightarrow> b = a"
  shows "tab_unique ci (tab_steps (class_steps tn (commit_steps entries deletes)) (T tn))"
  unfolding tab_unique_def
proof (intro allI impI)
  let ?steps = "class_steps tn (commit_steps entries deletes)"
  let ?T = "tab_steps ?steps (T tn)"
  have d: "distinct (map fst ?steps)"
    using wf class_steps_distinct by (simp add: commit_wf_def)
  have origin: "claimed entries tn f k a \<or> holder ci f k = Some a \<and> a \<notin> fst ` set ?steps \<and> T tn a \<noteq> None"
    if u: "uniq_key ci f k" and h: "tab_has (ci_list_fields ci) ?T a f k" for f k a
  proof (cases "a \<in> fst ` set ?steps")
    case True
    then obtain r where r: "(a, r) \<in> set ?steps"
      by force
    then have "?T a = r"
      by (rule tab_steps_at [OF d])
    then obtain row where row: "r = Some row" "row_has_key (ci_list_fields ci) row f k"
      using h by (auto simp: tab_has_def split: option.splits)
    then obtain ti vals where e: "(a, ti, vals) \<in> set entries" "ti_name ti = tn" "row = maintained_row ti vals"
      using r by (auto simp: class_steps_set)
    have ti: "cls tn = ti" "typeinfo_wf ti"
      using known e by (auto simp: entries_known_def source_ok_def)
    have f: "f \<in> set (unique_field_names ti)" "set (ci_list_fields ci) = set (multivalued_field_names ti)"
      using u fits ti by (auto simp: uniq_key_def index_for_def index_fits_def)
    have "f \<notin> set (ci_list_fields ci)"
      using unique_not_multivalued [OF ti(2) f(1)] f(2) by simp
    moreover have "dict_wf (maintained_row ti vals)"
      using wf e(1) by (auto simp: commit_wf_def row_ok_def)
    ultimately have "claims vals f k"
      using maintained_key_claims [of "ci_list_fields ci" ti vals f k] row(2) u e(3) by (simp add: uniq_key_def)
    then show ?thesis
      using e f(1) unfolding claimed_def by blast
  next
    case False
    then have old: "tab_has (ci_list_fields ci) (T tn) a f k"
      using h by (simp add: tab_has_steps_other)
    have "uniq_rep ci (T tn) UNIV"
      using fits by (simp add: index_for_def)
    then have "holder ci f k = Some a"
      using u old unfolding uniq_rep_def by blast
    moreover have "T tn a \<noteq> None"
      using old by (auto simp: tab_has_def split: option.splits)
    ultimately show ?thesis
      using False by blast
  qed
  have clash: "a = b"
    if c: "claimed entries tn f k a" and b: "holder ci f k = Some b" "b \<notin> fst ` set ?steps" "T tn b \<noteq> None" for f k a b
  proof (rule ccontr)
    assume "a \<noteq> b"
    then have "b \<in> fst ` set deletes"
      using free [OF c] b(1) by (auto simp: free_for_def)
    then obtain ti where ti: "(b, ti) \<in> set deletes"
      by force
    then have "tn = ti_name ti"
      using wf b(3) by (auto simp: commit_wf_def)
    then have "(b, None) \<in> set ?steps"
      using ti by (auto simp: class_steps_set)
    then show False
      using b(2) by force
  qed
  fix f k a b
  assume "uniq_key ci f k \<and> tab_has (ci_list_fields ci) ?T a f k \<and> tab_has (ci_list_fields ci) ?T b f k"
  then have u: "uniq_key ci f k" and ha: "tab_has (ci_list_fields ci) ?T a f k" and hb: "tab_has (ci_list_fields ci) ?T b f k"
    by blast+
  consider "claimed entries tn f k a" "claimed entries tn f k b"
    | "claimed entries tn f k a" "holder ci f k = Some b" "b \<notin> fst ` set ?steps" "T tn b \<noteq> None"
    | "claimed entries tn f k b" "holder ci f k = Some a" "a \<notin> fst ` set ?steps" "T tn a \<noteq> None"
    | "holder ci f k = Some a" "holder ci f k = Some b"
    using origin [OF u ha] origin [OF u hb] by blast
  then show "a = b"
  proof cases
    case 1
    then show ?thesis by (rule one [symmetric])
  next
    case 2
    then show ?thesis by (rule clash)
  next
    case 3
    then show ?thesis by (rule clash [symmetric])
  next
    case 4
    then show ?thesis by simp
  qed
qed

lemma commit_keeps_manager_ok:
  assumes ok: "manager_ok env cls T im" and ser: "ser_ok env" and known: "entries_known env cls T entries"
    and wf: "commit_wf cls T entries deletes"
    and check: "im_check_unique env entries (set (map fst deletes)) im = (Inr (), im1)"
    and folds: "commit_folds entries ref_entries deletes im1 = Inr im2"
  shows "manager_ok env cls (\<lambda>tn. tab_steps (class_steps tn (commit_steps entries deletes)) (T tn)) im2"
proof -
  let ?steps = "commit_steps entries deletes"
  let ?T = "\<lambda>tn. tab_steps (class_steps tn ?steps) (T tn)"
  have chk: "check_unique_entries env (fst ` set deletes) entries [] im = (Inr (), im1)"
    using check by (simp add: im_check_unique_def)
  note post = check_unique_entries_ok [OF chk ok ser known]
  note ev = commit_folds_evolve [OF folds, unfolded class_evolves_def]
  have ok1: "manager_ok env cls T im1"
    using post by blast
  have built: "index_for (cls tn) ci' (?T tn)" if ci': "dict_get (im_by_cls im2) tn = Some ci'" for tn ci'
  proof -
    obtain ci where ci: "dict_get (im_by_cls im1) tn = Some ci" and f: "fold_res ci_step (class_steps tn ?steps) ci = Inr ci'"
      using ev ci' by (metis not_None_eq option.inject)
    have "index_for (cls tn) ci (T tn)"
      using ok1 ci by (simp add: manager_ok_def)
    then have fits: "index_fits (cls tn) ci" "ci_rep ci (T tn)" "uniq_rep ci (T tn) UNIV" "dicts_wf ci"
      and for_ci: "index_for (cls tn) ci (T tn)"
      by (simp_all add: index_for_def)
    have "free_for ci (fst ` set deletes) f k oid" if "claimed entries tn f k oid" for f k oid
      using post that ci by (metis option.inject)
    then have u: "tab_unique ci (?T tn)"
      by (rule committed_unique [where cls = cls and T = T, OF for_ci wf known]) (use post in blast)+
    have rows: "row_ok (ci_list_fields ci) r" if step: "(oid, Some r) \<in> set (class_steps tn ?steps)" for oid r
    proof -
      obtain ti vals where e: "(oid, ti, vals) \<in> set entries" "ti_name ti = tn" "r = maintained_row ti vals"
        using step by (auto simp: class_steps_set)
      have "row_ok (multivalued_field_names ti) r"
        using wf e by (auto simp: commit_wf_def)
      moreover have "cls tn = ti"
        using known e by (auto simp: entries_known_def)
      ultimately show ?thesis
        using same_list_fields(3) [of "ci_list_fields ci" "multivalued_field_names ti"] fits(1)
        by (simp add: index_fits_def)
    qed
    have d: "distinct (map fst (class_steps tn ?steps))"
      using wf class_steps_distinct by (simp add: commit_wf_def)
    note b = ci_batch [OF fits(2,3) f rows d u]
    have "index_fits (cls tn) ci'"
      using fits(1) same_shape_simps(1,4) [OF b(3)] by (simp add: index_fits_def)
    then show ?thesis
      using b(1,2) dicts_wf_steps [OF f fits(4)] by (simp add: index_for_def)
  qed
  have blobs: "blob_ok env b (?T tn)"
    if b: "im_cache im2 = Some blobs" "dict_get blobs tn = Some b" "dict_get (im_by_cls im2) tn = None" for blobs tn b
  proof -
    have none: "dict_get (im_by_cls im1) tn = None"
      using ev b(3) by (metis not_None_eq)
    obtain blobs1 where b1: "im_cache im1 = Some blobs1" "dict_get blobs1 tn = Some b" and c: "class_steps tn ?steps = []"
      using ev b(1,2) none by blast
    then have "blob_ok env b (T tn)"
      using ok1 none by (simp add: manager_ok_def)
    then show ?thesis
      by (simp add: c)
  qed
  show ?thesis
    unfolding manager_ok_def using built blobs by blast
qed

end
