(* ===== verification/Records.thy ===== *)
theory Records
  imports Values
begin

text \<open>
  The record codec, \<open>_records.py\<close>.

  \<^item> \<open>swizzle\<close> maps a live value tree to the tree msgspec encodes: references, temporal values,
    decimals and blob descriptors become \<open>PExt\<close> values (\<open>msgspec.msgpack.Ext\<close>). \<open>oid_for\<close> maps
    the address of an entity to its OID.
  \<^item> msgspec is not part of the repository: \<open>enc\<close> and \<open>dec\<close> are its encoder and its decoder
    without the hook, arguments of the definitions. \<open>unhook\<close> is the decoder's call of \<open>_ext_hook\<close>
    on every extension of the tree.
  \<^item> \<open>text_forms\<close> holds \<open>isoformat\<close>/\<open>fromisoformat\<close> of the temporal types and \<open>str\<close> and the
    constructor of \<open>Decimal\<close>; \<open>text_ok\<close> states their documented inverse property.
  \<^item> \<open>struct\<close> packing and \<open>crc32\<close> are defined on bytes. An OID is packed as a signed 64-bit word;
    payloads with a negative OID, which the engine never writes, are outside the model.
\<close>

section \<open>Bytes\<close>

fun be_bytes :: "nat \<Rightarrow> nat \<Rightarrow> bytes" where
  "be_bytes 0 n = []"
| "be_bytes (Suc k) n = be_bytes k (n div 256) @ [word_of_nat (n mod 256)]"

definition be_val :: "bytes \<Rightarrow> nat" where
  "be_val bs = fold (\<lambda>b acc. acc * 256 + unat b) bs 0"

definition pack_q :: "nat \<Rightarrow> bytes res" where
  "pack_q n = (if n < 2 ^ 63 then Inr (be_bytes 8 n) else Inl PyStructError)"

definition pack_Q :: "nat \<Rightarrow> bytes res" where
  "pack_Q n = (if n < 2 ^ 64 then Inr (be_bytes 8 n) else Inl PyStructError)"

definition unpack_q :: "bytes \<Rightarrow> int res" where
  "unpack_q bs =
     (if length bs \<noteq> 8 then Inl PyStructError
      else let n = int (be_val bs) in Inr (if n < 2 ^ 63 then n else n - 2 ^ 64))"

definition ascii_encode :: "string \<Rightarrow> bytes" where
  "ascii_encode s = map (\<lambda>c. word_of_nat (of_char c)) s"

definition ascii_decode :: "bytes \<Rightarrow> string res" where
  "ascii_decode bs =
     (if \<forall>b \<in> set bs. unat b < 128 then Inr (map (\<lambda>b. char_of (unat b)) bs) else Inl PyValueError)"

text \<open>\<open>zlib.crc32\<close>: the reflected polynomial \<open>0xEDB88320\<close>, bit by bit, with a running value.\<close>

unbundle bit_operations_syntax

definition crc32_bit :: "32 word \<Rightarrow> 32 word" where
  "crc32_bit c = (if odd c then drop_bit 1 c XOR 0xEDB88320 else drop_bit 1 c)"

definition crc32_byte :: "8 word \<Rightarrow> 32 word \<Rightarrow> 32 word" where
  "crc32_byte b c = (crc32_bit ^^ 8) (c XOR ucast b)"

definition crc32 :: "bytes \<Rightarrow> 32 word \<Rightarrow> 32 word" where
  "crc32 bs running = NOT (fold crc32_byte bs (NOT running))"

definition crc :: "bytes \<Rightarrow> nat" where
  "crc payload = unat (crc32 payload 0)"

lemma crc32_append: "crc32 (a @ b) r = crc32 b (crc32 a r)"
  by (simp add: crc32_def)

lemma crc32_chunks: "fold crc32 chunks r = crc32 (concat chunks) r"
proof (induction chunks arbitrary: r)
  case Nil
  then show ?case by (simp add: crc32_def)
next
  case (Cons c cs)
  then show ?case by (simp add: crc32_append)
qed

section \<open>Extensions\<close>

definition REF_EXT_CODE :: int where "REF_EXT_CODE = 1"
definition NAIVE_DATETIME_EXT_CODE :: int where "NAIVE_DATETIME_EXT_CODE = 2"
definition DATE_EXT_CODE :: int where "DATE_EXT_CODE = 3"
definition TIME_EXT_CODE :: int where "TIME_EXT_CODE = 4"
definition BLOB_EXT_CODE :: int where "BLOB_EXT_CODE = 5"
definition DECIMAL_EXT_CODE :: int where "DECIMAL_EXT_CODE = 6"

lemmas ext_codes = REF_EXT_CODE_def NAIVE_DATETIME_EXT_CODE_def DATE_EXT_CODE_def TIME_EXT_CODE_def
  BLOB_EXT_CODE_def DECIMAL_EXT_CODE_def

record text_forms =
  iso_of :: "pyval \<Rightarrow> string"
  datetime_of :: "string \<Rightarrow> pyval res"
  date_of :: "string \<Rightarrow> pyval res"
  time_of :: "string \<Rightarrow> pyval res"
  decimal_str :: "decimal \<Rightarrow> string"
  decimal_of :: "string \<Rightarrow> pyval res"

definition ascii_text :: "string \<Rightarrow> bool" where
  "ascii_text s \<longleftrightarrow> (\<forall>c \<in> set s. (of_char c :: nat) < 128)"

definition text_ok :: "text_forms \<Rightarrow> bool" where
  "text_ok tf \<longleftrightarrow>
     (\<forall>t. datetime_of tf (iso_of tf (PDateTime False t)) = Inr (PDateTime False t)
          \<and> ascii_text (iso_of tf (PDateTime False t)))
   \<and> (\<forall>d. date_of tf (iso_of tf (PDate d)) = Inr (PDate d) \<and> ascii_text (iso_of tf (PDate d)))
   \<and> (\<forall>a t. time_of tf (iso_of tf (PTime a t)) = Inr (PTime a t) \<and> ascii_text (iso_of tf (PTime a t)))
   \<and> (\<forall>d. decimal_of tf (decimal_str tf d) = Inr (PDec d) \<and> ascii_text (decimal_str tf d))"

definition ref_ext :: "nat \<Rightarrow> pyval res" where
  "ref_ext oid = bind_res (pack_q oid) (\<lambda>bs. Inr (PExt REF_EXT_CODE bs))"

definition blob_ext :: "nat \<Rightarrow> nat \<Rightarrow> bytes \<Rightarrow> pyval res" where
  "blob_ext oid n h =
     bind_res (pack_q oid) (\<lambda>a. bind_res (pack_Q n) (\<lambda>b. Inr (PExt BLOB_EXT_CODE (a @ b @ h))))"

definition decimal_ext :: "text_forms \<Rightarrow> decimal \<Rightarrow> pyval" where
  "decimal_ext tf d = PExt DECIMAL_EXT_CODE (ascii_encode (decimal_str tf d))"

section \<open>Swizzling\<close>

fun refuse_blob_values :: "pyval \<Rightarrow> unit res" where
  "refuse_blob_values (PHandle oid n h) = Inl PyTypeError"
| "refuse_blob_values (PSource i a b) = Inl PyTypeError"
| "refuse_blob_values _ = Inr ()"

definition lazy_ref_ext :: "(nat \<Rightarrow> nat res) \<Rightarrow> nat option \<Rightarrow> nat option \<Rightarrow> pyval res" where
  "lazy_ref_ext oid_for lazy_oid target =
     (case target of
        Some t \<Rightarrow> bind_res (oid_for t) ref_ext
      | None \<Rightarrow> (case lazy_oid of None \<Rightarrow> Inl PyTypeError | Some oid \<Rightarrow> ref_ext oid))"

fun swizzle_leaf :: "text_forms \<Rightarrow> pyval \<Rightarrow> pyval res" where
  "swizzle_leaf tf (PDateTime aware t) =
     Inr (if aware then PDateTime aware t
          else PExt NAIVE_DATETIME_EXT_CODE (ascii_encode (iso_of tf (PDateTime aware t))))"
| "swizzle_leaf tf (PDate d) = Inr (PExt DATE_EXT_CODE (ascii_encode (iso_of tf (PDate d))))"
| "swizzle_leaf tf (PTime a t) = Inr (PExt TIME_EXT_CODE (ascii_encode (iso_of tf (PTime a t))))"
| "swizzle_leaf tf (PDec d) = Inr (decimal_ext tf d)"
| "swizzle_leaf tf (PDataclass i) = Inl PyTypeError"
| "swizzle_leaf tf (PSet xs) = Inl PyTypeError"
| "swizzle_leaf tf v = Inr v"

function (sequential) swizzle :: "text_forms \<Rightarrow> (nat \<Rightarrow> nat res) \<Rightarrow> pyval \<Rightarrow> pyval res"
  and swizzle_items :: "text_forms \<Rightarrow> (nat \<Rightarrow> nat res) \<Rightarrow> (pyval \<times> pyval) list \<Rightarrow> (pyval \<times> pyval) list res" where
  "swizzle tf oid_for PNone = Inr PNone"
| "swizzle tf oid_for (PBool b) = Inr (PBool b)"
| "swizzle tf oid_for (PInt i) = Inr (PInt i)"
| "swizzle tf oid_for (PFloat r) = Inr (PFloat r)"
| "swizzle tf oid_for (PStr s) = Inr (PStr s)"
| "swizzle tf oid_for (PBytes b) = Inr (PBytes b)"
| "swizzle tf oid_for (PEnt a) = bind_res (oid_for a) ref_ext"
| "swizzle tf oid_for (PLazy i lazy_oid target) = lazy_ref_ext oid_for lazy_oid target"
| "swizzle tf oid_for (PList xs) = bind_res (map_res (swizzle tf oid_for) xs) (\<lambda>ys. Inr (PList ys))"
| "swizzle tf oid_for (PTuple xs) = bind_res (map_res (swizzle tf oid_for) xs) (\<lambda>ys. Inr (PList ys))"
| "swizzle tf oid_for (PDict d) = bind_res (swizzle_items tf oid_for d) (\<lambda>e. Inr (PDict e))"
| "swizzle tf oid_for v = bind_res (refuse_blob_values v) (\<lambda>_. swizzle_leaf tf v)"
| "swizzle_items tf oid_for [] = Inr []"
| "swizzle_items tf oid_for (kv # d) =
     bind_res (swizzle tf oid_for (snd kv)) (\<lambda>w.
     bind_res (swizzle_items tf oid_for d) (\<lambda>e. Inr ((fst kv, w) # e)))"
  by pat_completeness auto
termination
  by (relation "measure (\<lambda>x. case x of
        Inl (_, _, v) \<Rightarrow> size v
      | Inr (_, _, d) \<Rightarrow> size_list (\<lambda>kv. size (fst kv) + size (snd kv) + 1) d)")
     (auto simp: size_prod_simp less_Suc_eq_le intro: size_list_estimation')

section \<open>Payloads\<close>

text \<open>
  \<open>encode_values\<close> is the loop of \<open>encode_payload\<close>: \<open>blobs\<close> tells the positions of the \<open>dc.Blob\<close>
  fields; \<open>sink\<close> stores a blob value in the caller's state \<open>'s\<close> and answers its descriptor.
\<close>

type_synonym 's blob_sink = "pyval \<Rightarrow> 's \<Rightarrow> (nat \<times> nat \<times> bytes) res \<times> 's"

definition encode_blob_value :: "'s blob_sink \<Rightarrow> pyval \<Rightarrow> 's \<Rightarrow> pyval res \<times> 's" where
  "encode_blob_value sink v s =
     (case v of
        PHandle oid n h \<Rightarrow> (blob_ext oid n h, s)
      | _ \<Rightarrow> (case sink v s of
                (Inl e, s') \<Rightarrow> (Inl e, s')
              | (Inr (oid, n, h), s') \<Rightarrow> (blob_ext oid n h, s')))"

fun encode_values ::
    "text_forms \<Rightarrow> (nat \<Rightarrow> nat res) \<Rightarrow> (nat \<Rightarrow> bool) \<Rightarrow> 's blob_sink \<Rightarrow> nat \<Rightarrow> pyval list \<Rightarrow> 's
       \<Rightarrow> pyval list res \<times> 's" where
  "encode_values tf oid_for blobs sink i [] s = (Inr [], s)"
| "encode_values tf oid_for blobs sink i (v # vs) s =
     (case (if blobs i \<and> v \<noteq> PNone then encode_blob_value sink v s else (swizzle tf oid_for v, s)) of
        (Inl e, s') \<Rightarrow> (Inl e, s')
      | (Inr w, s') \<Rightarrow>
          (case encode_values tf oid_for blobs sink (Suc i) vs s' of
             (Inl e, s'') \<Rightarrow> (Inl e, s'')
           | (Inr ws, s'') \<Rightarrow> (Inr (w # ws), s'')))"

definition encode_payload ::
    "(pyval \<Rightarrow> bytes res) \<Rightarrow> text_forms \<Rightarrow> (nat \<Rightarrow> nat res) \<Rightarrow> (nat \<Rightarrow> bool) \<Rightarrow> 's blob_sink
       \<Rightarrow> pyval list \<Rightarrow> 's \<Rightarrow> bytes res \<times> 's" where
  "encode_payload enc tf oid_for blobs sink values s =
     (case encode_values tf oid_for blobs sink 0 values s of
        (Inl e, s') \<Rightarrow> (Inl e, s')
      | (Inr ws, s') \<Rightarrow> (enc (PList ws), s'))"

fun fingerprint_value :: "text_forms \<Rightarrow> (nat \<Rightarrow> nat res) \<Rightarrow> pyval \<Rightarrow> pyval res" where
  "fingerprint_value tf oid_for (PBlobTok oid n h) = blob_ext oid n h"
| "fingerprint_value tf oid_for v = swizzle tf oid_for v"

definition fingerprint_payload ::
    "(pyval \<Rightarrow> bytes res) \<Rightarrow> text_forms \<Rightarrow> (nat \<Rightarrow> nat res) \<Rightarrow> pyval list \<Rightarrow> bytes res" where
  "fingerprint_payload enc tf oid_for values =
     bind_res (map_res (fingerprint_value tf oid_for) values) (\<lambda>ws. enc (PList ws))"

section \<open>Decoding\<close>

definition ext_hook :: "text_forms \<Rightarrow> int \<Rightarrow> bytes \<Rightarrow> pyval res" where
  "ext_hook tf code data =
     (if code = REF_EXT_CODE then bind_res (unpack_q data) (\<lambda>oid. Inr (PRef (nat oid)))
      else if code = NAIVE_DATETIME_EXT_CODE then bind_res (ascii_decode data) (datetime_of tf)
      else if code = DATE_EXT_CODE then bind_res (ascii_decode data) (date_of tf)
      else if code = TIME_EXT_CODE then bind_res (ascii_decode data) (time_of tf)
      else if code = DECIMAL_EXT_CODE then bind_res (ascii_decode data) (decimal_of tf)
      else if code = BLOB_EXT_CODE then
        (if length data < 16 then Inl PyStructError
         else bind_res (unpack_q (take 8 data)) (\<lambda>oid.
                Inr (PBlobTok (nat oid) (be_val (take 8 (drop 8 data))) (drop 16 data))))
      else Inr (PExt code data))"

function (sequential) unhook :: "text_forms \<Rightarrow> pyval \<Rightarrow> pyval res"
  and unhook_items :: "text_forms \<Rightarrow> (pyval \<times> pyval) list \<Rightarrow> (pyval \<times> pyval) list res" where
  "unhook tf (PExt code data) = ext_hook tf code data"
| "unhook tf (PList xs) = bind_res (map_res (unhook tf) xs) (\<lambda>ys. Inr (PList ys))"
| "unhook tf (PDict d) = bind_res (unhook_items tf d) (\<lambda>e. Inr (PDict e))"
| "unhook tf v = Inr v"
| "unhook_items tf [] = Inr []"
| "unhook_items tf (kv # d) =
     bind_res (unhook tf (fst kv)) (\<lambda>k.
     bind_res (unhook tf (snd kv)) (\<lambda>w.
     bind_res (unhook_items tf d) (\<lambda>e. Inr ((k, w) # e))))"
  by pat_completeness auto
termination
  by (relation "measure (\<lambda>x. case x of
        Inl (_, v) \<Rightarrow> size v
      | Inr (_, d) \<Rightarrow> size_list (\<lambda>kv. size (fst kv) + size (snd kv) + 1) d)")
     (auto simp: size_prod_simp less_Suc_eq_le intro: size_list_estimation')

definition decode_payload :: "(bytes \<Rightarrow> pyval res) \<Rightarrow> text_forms \<Rightarrow> bytes \<Rightarrow> pyval res" where
  "decode_payload dec tf payload = bind_res (dec payload) (unhook tf)"

definition no_oid :: "nat \<Rightarrow> nat res" where
  "no_oid a = Inl PyTypeError"

definition encode_scalar_tree :: "(pyval \<Rightarrow> bytes res) \<Rightarrow> text_forms \<Rightarrow> pyval \<Rightarrow> bytes res" where
  "encode_scalar_tree enc tf tree = bind_res (swizzle tf no_oid tree) enc"

definition decode_scalar_tree :: "(bytes \<Rightarrow> pyval res) \<Rightarrow> text_forms \<Rightarrow> bytes \<Rightarrow> pyval res" where
  "decode_scalar_tree dec tf payload = bind_res (dec payload) (unhook tf)"

section \<open>Round trip\<close>

text \<open>What a persisted value reads back as: references become tokens, tuples become lists.\<close>

function (sequential) decoded :: "(nat \<Rightarrow> nat res) \<Rightarrow> pyval \<Rightarrow> pyval"
  and decoded_items :: "(nat \<Rightarrow> nat res) \<Rightarrow> (pyval \<times> pyval) list \<Rightarrow> (pyval \<times> pyval) list" where
  "decoded oid_for (PEnt a) = (case oid_for a of Inl e \<Rightarrow> PNone | Inr oid \<Rightarrow> PRef oid)"
| "decoded oid_for (PLazy i lazy_oid target) =
     (case target of
        Some t \<Rightarrow> (case oid_for t of Inl e \<Rightarrow> PNone | Inr oid \<Rightarrow> PRef oid)
      | None \<Rightarrow> (case lazy_oid of None \<Rightarrow> PNone | Some oid \<Rightarrow> PRef oid))"
| "decoded oid_for (PList xs) = PList (map (decoded oid_for) xs)"
| "decoded oid_for (PTuple xs) = PList (map (decoded oid_for) xs)"
| "decoded oid_for (PDict d) = PDict (decoded_items oid_for d)"
| "decoded oid_for v = v"
| "decoded_items oid_for [] = []"
| "decoded_items oid_for (kv # d) = (fst kv, decoded oid_for (snd kv)) # decoded_items oid_for d"
  by pat_completeness auto
termination
  by (relation "measure (\<lambda>x. case x of
        Inl (_, v) \<Rightarrow> size v
      | Inr (_, d) \<Rightarrow> size_list (\<lambda>kv. size (fst kv) + size (snd kv) + 1) d)")
     (auto simp: size_prod_simp less_Suc_eq_le intro: size_list_estimation')

text \<open>
  The trees msgspec reads back as it wrote them, and the live values whose swizzled tree is one:
  64-bit ints, text or int dict keys, no extension of the user's under the engine's codes.
\<close>

definition int_native :: "int \<Rightarrow> bool" where
  "int_native i \<longleftrightarrow> - (2 ^ 63) \<le> i \<and> i < 2 ^ 64"

fun key_native :: "pyval \<Rightarrow> bool" where
  "key_native (PStr s) = True"
| "key_native (PInt i) = int_native i"
| "key_native _ = False"

function (sequential) wire_native :: "pyval \<Rightarrow> bool"
  and wire_items :: "(pyval \<times> pyval) list \<Rightarrow> bool" where
  "wire_native PNone = True"
| "wire_native (PBool b) = True"
| "wire_native (PInt i) = int_native i"
| "wire_native (PFloat r) = True"
| "wire_native (PStr s) = True"
| "wire_native (PBytes b) = True"
| "wire_native (PDateTime aware t) = aware"
| "wire_native (PExt code data) = (0 \<le> code \<and> code < 128)"
| "wire_native (PList xs) = (\<forall>x \<in> set xs. wire_native x)"
| "wire_native (PDict d) = (distinct (map fst d) \<and> wire_items d)"
| "wire_native v = False"
| "wire_items [] = True"
| "wire_items (kv # d) = (key_native (fst kv) \<and> wire_native (snd kv) \<and> wire_items d)"
  by pat_completeness auto
termination
  by (relation "measure (\<lambda>x. case x of
        Inl v \<Rightarrow> size v
      | Inr d \<Rightarrow> size_list (\<lambda>kv. size (fst kv) + size (snd kv) + 1) d)")
     (auto simp: size_prod_simp less_Suc_eq_le intro: size_list_estimation')

function (sequential) persistable :: "pyval \<Rightarrow> bool"
  and persistable_items :: "(pyval \<times> pyval) list \<Rightarrow> bool" where
  "persistable (PInt i) = int_native i"
| "persistable (PExt code data) = (6 < code \<and> code < 128)"
| "persistable (PList xs) = (\<forall>x \<in> set xs. persistable x)"
| "persistable (PTuple xs) = (\<forall>x \<in> set xs. persistable x)"
| "persistable (PDict d) = (distinct (map fst d) \<and> persistable_items d)"
| "persistable (PRef oid) = False"
| "persistable (PBlobTok oid n h) = False"
| "persistable v = True"
| "persistable_items [] = True"
| "persistable_items (kv # d) = (key_native (fst kv) \<and> persistable (snd kv) \<and> persistable_items d)"
  by pat_completeness auto
termination
  by (relation "measure (\<lambda>x. case x of
        Inl v \<Rightarrow> size v
      | Inr d \<Rightarrow> size_list (\<lambda>kv. size (fst kv) + size (snd kv) + 1) d)")
     (auto simp: size_prod_simp less_Suc_eq_le intro: size_list_estimation')

lemma length_be_bytes [simp]: "length (be_bytes k n) = k"
  by (induction k arbitrary: n) auto

lemma be_val_snoc: "be_val (bs @ [b]) = be_val bs * 256 + unat b"
  by (simp add: be_val_def)

lemma be_val_bytes: "be_val (be_bytes k n) = n mod 256 ^ k"
proof (induction k arbitrary: n)
  case 0
  then show ?case by (simp add: be_val_def)
next
  case (Suc k)
  have "unat (word_of_nat (n mod 256) :: 8 word) = n mod 256"
    by (simp add: unat_of_nat)
  then show ?case
    by (simp add: be_val_snoc Suc mod_mult2_eq mult.commute)
qed

lemma pack_q_unpack: "pack_q n = Inr bs \<Longrightarrow> unpack_q bs = Inr (int n) \<and> length bs = 8"
  by (auto simp: pack_q_def unpack_q_def be_val_bytes Let_def split: if_splits)

lemma pack_Q_val: "pack_Q n = Inr bs \<Longrightarrow> be_val bs = n \<and> length bs = 8"
  by (auto simp: pack_Q_def be_val_bytes split: if_splits)

lemma ascii_round: "ascii_text s \<Longrightarrow> ascii_decode (ascii_encode s) = Inr s"
proof -
  assume a: "ascii_text s"
  have u: "unat (word_of_nat (of_char c) :: 8 word) = of_char c" for c :: char
  proof -
    have "(of_char c :: nat) < 256"
      by simp
    then show ?thesis by (simp add: unat_of_nat)
  qed
  show ?thesis
    using a by (auto simp: ascii_decode_def ascii_encode_def ascii_text_def u intro!: map_idI)
qed

lemma ref_ext_Inr: "ref_ext oid = Inr w \<Longrightarrow> unhook tf w = Inr (PRef oid) \<and> wire_native w"
  by (auto simp: ref_ext_def bind_res_Inr ext_hook_def ext_codes dest!: pack_q_unpack)

lemma blob_ext_Inr: "blob_ext oid n h = Inr w \<Longrightarrow> unhook tf w = Inr (PBlobTok oid n h) \<and> wire_native w"
  by (auto simp: blob_ext_def bind_res_Inr ext_hook_def ext_codes dest!: pack_q_unpack pack_Q_val)

lemma text_okD:
  assumes "text_ok tf"
  shows "ascii_decode (ascii_encode (iso_of tf (PDateTime False t))) = Inr (iso_of tf (PDateTime False t))"
    "ascii_decode (ascii_encode (iso_of tf (PDate d))) = Inr (iso_of tf (PDate d))"
    "ascii_decode (ascii_encode (iso_of tf (PTime a u))) = Inr (iso_of tf (PTime a u))"
    "ascii_decode (ascii_encode (decimal_str tf c)) = Inr (decimal_str tf c)"
    "datetime_of tf (iso_of tf (PDateTime False t)) = Inr (PDateTime False t)"
    "date_of tf (iso_of tf (PDate d)) = Inr (PDate d)"
    "time_of tf (iso_of tf (PTime a u)) = Inr (PTime a u)"
    "decimal_of tf (decimal_str tf c) = Inr (PDec c)"
  using assms by (simp_all add: text_ok_def ascii_round)

lemma unhook_leaf_ext:
  assumes "text_ok tf"
  shows "unhook tf (PExt NAIVE_DATETIME_EXT_CODE (ascii_encode (iso_of tf (PDateTime False t)))) = Inr (PDateTime False t)"
    "unhook tf (PExt DATE_EXT_CODE (ascii_encode (iso_of tf (PDate d)))) = Inr (PDate d)"
    "unhook tf (PExt TIME_EXT_CODE (ascii_encode (iso_of tf (PTime a u)))) = Inr (PTime a u)"
    "unhook tf (decimal_ext tf c) = Inr (PDec c)"
  by (simp_all add: text_okD [OF assms] ext_hook_def ext_codes decimal_ext_def)

lemma map_res_rel:
  assumes "map_res f xs = Inr ws"
    and "\<And>x w. x \<in> set xs \<Longrightarrow> f x = Inr w \<Longrightarrow> g w = Inr (h x) \<and> P w"
  shows "map_res g ws = Inr (map h xs) \<and> (\<forall>w \<in> set ws. P w)"
  using assms
proof (induction xs arbitrary: ws)
  case Nil
  then show ?case by simp
next
  case (Cons x xs)
  obtain w ws' where w: "f x = Inr w" "map_res f xs = Inr ws'" "ws = w # ws'"
    using Cons.prems(1) by (auto split: sum.splits)
  moreover have "g w = Inr (h x) \<and> P w"
    using Cons.prems(2) [of x w] w by simp
  moreover have "map_res g ws' = Inr (map h xs) \<and> (\<forall>w \<in> set ws'. P w)"
    by (rule Cons.IH [OF w(2)]) (rule Cons.prems(2), simp_all)
  ultimately show ?case by simp
qed

lemma swizzle_keys: "swizzle_items tf oid_for d = Inr e \<Longrightarrow> map fst e = map fst d"
  by (induction d arbitrary: e) (auto simp: bind_res_Inr)

lemma unhook_key: "key_native k \<Longrightarrow> unhook tf k = Inr k"
  by (cases k) auto

lemma decimal_ext_native [simp]: "wire_native (decimal_ext tf d)"
  by (simp add: decimal_ext_def ext_codes)

lemma swizzle_unhook:
  shows "text_ok tf \<Longrightarrow> swizzle tf oid_for v = Inr w \<Longrightarrow> persistable v \<Longrightarrow>
      unhook tf w = Inr (decoded oid_for v) \<and> wire_native w"
    and "text_ok tf \<Longrightarrow> swizzle_items tf oid_for d = Inr e \<Longrightarrow> persistable_items d \<Longrightarrow>
      unhook_items tf e = Inr (decoded_items oid_for d) \<and> wire_items e"
proof (induction tf oid_for v and tf oid_for d arbitrary: w and e rule: swizzle_swizzle_items.induct)
  case (9 tf oid_for xs)
  obtain ws where ws: "map_res (swizzle tf oid_for) xs = Inr ws" "w = PList ws"
    using 9 by (auto simp: bind_res_Inr)
  show ?case
    using map_res_rel [OF ws(1), of "unhook tf" "decoded oid_for" wire_native] "9.IH" "9.prems" ws(2)
    by auto
next
  case (10 tf oid_for xs)
  obtain ws where ws: "map_res (swizzle tf oid_for) xs = Inr ws" "w = PList ws"
    using 10 by (auto simp: bind_res_Inr)
  show ?case
    using map_res_rel [OF ws(1), of "unhook tf" "decoded oid_for" wire_native] "10.IH" "10.prems" ws(2)
    by auto
qed (auto simp: bind_res_Inr lazy_ref_ext_def unhook_key swizzle_keys unhook_leaf_ext(4)
      text_okD ext_codes ext_hook_def
      split: option.splits dest!: ref_ext_Inr)

text \<open>One field of a record, blob position or not, reads back as the value or its descriptor.\<close>

definition stored_field ::
    "(nat \<Rightarrow> nat res) \<Rightarrow> (nat \<Rightarrow> bool) \<Rightarrow> 's blob_sink \<Rightarrow> nat \<Rightarrow> pyval \<Rightarrow> pyval \<Rightarrow> bool" where
  "stored_field oid_for blobs sink i v u \<longleftrightarrow>
     (if blobs i \<and> v \<noteq> PNone
      then (case v of
              PHandle oid n h \<Rightarrow> u = PBlobTok oid n h
            | _ \<Rightarrow> \<exists>s s' oid n h. sink v s = (Inr (oid, n, h), s') \<and> u = PBlobTok oid n h)
      else u = decoded oid_for v)"

lemma encode_blob_value_Inr:
  assumes "encode_blob_value sink v s = (Inr w, s')"
  shows "\<exists>oid n h. blob_ext oid n h = Inr w \<and>
    (case v of PHandle oid' n' h' \<Rightarrow> oid' = oid \<and> n' = n \<and> h' = h
     | _ \<Rightarrow> \<exists>s s'. sink v s = (Inr (oid, n, h), s'))"
proof (cases "\<exists>oid n h. v = PHandle oid n h")
  case True
  then show ?thesis using assms by (auto simp: encode_blob_value_def)
next
  case False
  then have "encode_blob_value sink v s = (case sink v s of (Inl e, s') \<Rightarrow> (Inl e, s')
      | (Inr (oid, n, h), s') \<Rightarrow> (blob_ext oid n h, s'))"
    by (cases v) (auto simp: encode_blob_value_def)
  then obtain oid n h s1 where "sink v s = (Inr (oid, n, h), s1)" "blob_ext oid n h = Inr w"
    using assms by (auto split: prod.splits sum.splits)
  then show ?thesis
    using False by (intro exI [of _ oid] exI [of _ n] exI [of _ h]) (cases v, auto)
qed

lemma encode_field:
  assumes "text_ok tf" and "blobs i \<and> v \<noteq> PNone \<or> persistable v"
    and "(if blobs i \<and> v \<noteq> PNone then encode_blob_value sink v s else (swizzle tf oid_for v, s)) = (Inr w, s')"
  shows "wire_native w \<and> (\<exists>u. unhook tf w = Inr u \<and> stored_field oid_for blobs sink i v u)"
proof (cases "blobs i \<and> v \<noteq> PNone")
  case True
  then have "encode_blob_value sink v s = (Inr w, s')"
    using assms(3) by simp
  from encode_blob_value_Inr [OF this] obtain oid n h where
    w: "blob_ext oid n h = Inr w" and v: "(case v of PHandle oid' n' h' \<Rightarrow> oid' = oid \<and> n' = n \<and> h' = h
     | _ \<Rightarrow> \<exists>s s'. sink v s = (Inr (oid, n, h), s'))"
    by blast
  have "stored_field oid_for blobs sink i v (PBlobTok oid n h)"
    using True v by (cases v) (auto simp: stored_field_def)
  then show ?thesis
    using blob_ext_Inr [OF w, of tf] by auto
next
  case False
  then have "swizzle tf oid_for v = Inr w" "persistable v"
    using assms(2,3) by auto
  then show ?thesis
    using swizzle_unhook(1) [OF assms(1), of oid_for v w] False by (auto simp: stored_field_def)
qed

lemma encode_values_Inr:
  assumes "text_ok tf" and "encode_values tf oid_for blobs sink i vs s = (Inr ws, s')"
    and "\<forall>j < length vs. blobs (i + j) \<and> vs ! j \<noteq> PNone \<or> persistable (vs ! j)"
  shows "(\<forall>w \<in> set ws. wire_native w) \<and>
    (\<exists>us. map_res (unhook tf) ws = Inr us \<and> length us = length vs \<and>
      (\<forall>j < length vs. stored_field oid_for blobs sink (i + j) (vs ! j) (us ! j)))"
  using assms(2,3)
proof (induction vs arbitrary: i s ws)
  case Nil
  then show ?case by simp
next
  case (Cons v vs)
  obtain w s1 ws1 where
    w: "(if blobs i \<and> v \<noteq> PNone then encode_blob_value sink v s else (swizzle tf oid_for v, s)) = (Inr w, s1)"
    and ws1: "encode_values tf oid_for blobs sink (Suc i) vs s1 = (Inr ws1, s')" and ws: "ws = w # ws1"
    using Cons.prems(1) by (auto split: prod.splits sum.splits)
  have v: "blobs i \<and> v \<noteq> PNone \<or> persistable v"
    using Cons.prems(2) [rule_format, of 0] by simp
  have rest: "\<forall>j < length vs. blobs (Suc i + j) \<and> vs ! j \<noteq> PNone \<or> persistable (vs ! j)"
    using Cons.prems(2) by (auto dest: spec [of _ "Suc _"])
  obtain us where us: "map_res (unhook tf) ws1 = Inr us" "length us = length vs"
    "\<forall>j < length vs. stored_field oid_for blobs sink (Suc i + j) (vs ! j) (us ! j)"
    "\<forall>w \<in> set ws1. wire_native w"
    using Cons.IH [OF ws1 rest] by blast
  obtain u where u: "unhook tf w = Inr u" "stored_field oid_for blobs sink i v u" "wire_native w"
    using encode_field [where blobs = blobs and i = i, OF assms(1) v w] by blast
  have "stored_field oid_for blobs sink (i + j) ((v # vs) ! j) ((u # us) ! j)" if "j < Suc (length vs)" for j
    using us(3) u(2) that by (cases j) auto
  then show ?case
    using us u by (intro conjI exI [of _ "u # us"]) (auto simp: ws)
qed

lemma payload_round:
  assumes "text_ok tf" and "\<forall>w bs. wire_native w \<longrightarrow> enc w = Inr bs \<longrightarrow> dec bs = Inr w"
    and "encode_payload enc tf oid_for blobs sink vs s = (Inr bs, s')"
    and "\<forall>i < length vs. blobs i \<and> vs ! i \<noteq> PNone \<or> persistable (vs ! i)"
  shows "\<exists>us. decode_payload dec tf bs = Inr (PList us) \<and> length us = length vs \<and>
    (\<forall>i < length vs. stored_field oid_for blobs sink i (vs ! i) (us ! i))"
proof -
  obtain ws where ws: "encode_values tf oid_for blobs sink 0 vs s = (Inr ws, s')" "enc (PList ws) = Inr bs"
    using assms(3) by (auto simp: encode_payload_def split: prod.splits sum.splits)
  note enc = encode_values_Inr [OF assms(1) ws(1)]
  have "\<forall>j < length vs. blobs (0 + j) \<and> vs ! j \<noteq> PNone \<or> persistable (vs ! j)"
    using assms(4) by simp
  from enc [OF this] obtain us where "\<forall>w \<in> set ws. wire_native w" and
    us: "map_res (unhook tf) ws = Inr us" "length us = length vs"
      "\<forall>j < length vs. stored_field oid_for blobs sink j (vs ! j) (us ! j)"
    by auto
  then have "dec bs = Inr (PList ws)"
    using assms(2) [rule_format, OF _ ws(2)] by simp
  then have "decode_payload dec tf bs = Inr (PList us)"
    by (simp add: decode_payload_def us(1))
  then show ?thesis
    using us by blast
qed

text \<open>A ref-free tree, such as an index-cache blob, reads back with tuples as lists.\<close>

lemma scalar_tree_round:
  assumes "text_ok tf" and "\<forall>w bs. wire_native w \<longrightarrow> enc w = Inr bs \<longrightarrow> dec bs = Inr w"
    and "encode_scalar_tree enc tf tree = Inr bs" and "persistable tree"
  shows "decode_scalar_tree dec tf bs = Inr (decoded no_oid tree)"
proof -
  obtain w where w: "swizzle tf no_oid tree = Inr w" "enc w = Inr bs"
    using assms(3) by (auto simp: encode_scalar_tree_def bind_res_Inr)
  have "unhook tf w = Inr (decoded no_oid tree) \<and> wire_native w"
    by (rule swizzle_unhook(1) [OF assms(1) w(1) assms(4)])
  then show ?thesis
    using assms(2) [rule_format, OF _ w(2)] by (simp add: decode_scalar_tree_def)
qed

end
