(* ===== verification/Index_Cache.thy ===== *)
theory Index_Cache
  imports Records
begin

text \<open>
  \<open>_index_cache.py\<close>: the sidecar file that carries the built indexes from one session to the next.

  \<^item> The file is \<open>sc_file\<close>, None when it is missing or unreadable; \<open>sc_tmp\<close> is the temporary file a
    write goes through. \<open>write_fault\<close> names the points at which a write can die.
  \<^item> The trees are values of the record codec; msgspec is the parameter \<open>enc\<close> / \<open>dec\<close>.
\<close>

definition CACHE_FORMAT :: int where "CACHE_FORMAT = 2"

record sidecar =
  sc_file :: "bytes option"
  sc_tmp :: "bytes option"

definition cache_doc :: "int \<Rightarrow> pyval \<Rightarrow> pyval \<Rightarrow> pyval" where
  "cache_doc watermark blobs reverse =
     PDict [(PStr ''format'', PInt CACHE_FORMAT), (PStr ''watermark'', PInt watermark),
            (PStr ''classes'', blobs), (PStr ''reverse'', reverse)]"

definition doc_get :: "(pyval \<times> pyval) list \<Rightarrow> string \<Rightarrow> pyval" where
  "doc_get doc name = dict_getd doc (PStr name) PNone"

text \<open>The errors \<open>read\<close> catches: \<open>msgspec.DecodeError\<close> and \<open>ValueError\<close>.\<close>

definition caught_by_read :: "error \<Rightarrow> bool" where
  "caught_by_read e \<longleftrightarrow> e = MsgspecError \<or> e = PyValueError"

definition read_doc :: "int \<Rightarrow> pyval \<Rightarrow> (pyval \<times> pyval) option" where
  "read_doc watermark tree =
     (case tree of
        PDict doc \<Rightarrow>
          (if \<not> py_eq (doc_get doc ''format'') (PInt CACHE_FORMAT) then None
           else if \<not> py_eq (doc_get doc ''watermark'') (PInt watermark) then None
           else (case doc_get doc ''classes'' of
                   PDict classes \<Rightarrow> Some (PDict classes, doc_get doc ''reverse'')
                 | _ \<Rightarrow> None))
      | _ \<Rightarrow> None)"

definition cache_read ::
    "(bytes \<Rightarrow> pyval res) \<Rightarrow> text_forms \<Rightarrow> int \<Rightarrow> sidecar \<Rightarrow> (pyval \<times> pyval) option res" where
  "cache_read dec tf watermark sc =
     (case sc_file sc of
        None \<Rightarrow> Inr None
      | Some raw \<Rightarrow>
          (case decode_scalar_tree dec tf raw of
             Inl e \<Rightarrow> if caught_by_read e then Inr None else Inl e
           | Inr tree \<Rightarrow> Inr (read_doc watermark tree)))"

datatype write_fault = Written | DiesInTmp nat | DiesBeforeRename

definition cache_write ::
    "(pyval \<Rightarrow> bytes res) \<Rightarrow> text_forms \<Rightarrow> write_fault \<Rightarrow> int \<Rightarrow> pyval \<Rightarrow> pyval \<Rightarrow> sidecar \<Rightarrow> unit res \<times> sidecar" where
  "cache_write enc tf fault watermark blobs reverse sc =
     (case encode_scalar_tree enc tf (cache_doc watermark blobs reverse) of
        Inl e \<Rightarrow> (Inl e, sc)
      | Inr payload \<Rightarrow>
          (case fault of
             DiesInTmp n \<Rightarrow> (Inl PyOSError, sc\<lparr>sc_tmp := Some (take n payload)\<rparr>)
           | DiesBeforeRename \<Rightarrow> (Inl PyOSError, sc\<lparr>sc_tmp := Some payload\<rparr>)
           | Written \<Rightarrow> (Inr (), sc\<lparr>sc_file := Some payload, sc_tmp := None\<rparr>)))"

section \<open>What a read returns\<close>

lemma read_doc_stamped:
  "read_doc wm (cache_doc w (PDict classes) reverse) = (if wm = w then Some (PDict classes, reverse) else None)"
  by (auto simp: read_doc_def cache_doc_def doc_get_def dict_getd_def CACHE_FORMAT_def scalar_eq_def)

lemma decoded_doc:
  "decoded no_oid (cache_doc w blobs reverse) = cache_doc w (decoded no_oid blobs) (decoded no_oid reverse)"
  by (simp add: cache_doc_def)

lemma persistable_doc:
  "int_native w \<Longrightarrow> persistable (PDict classes) \<Longrightarrow> persistable reverse \<Longrightarrow> persistable (cache_doc w (PDict classes) reverse)"
  by (simp add: cache_doc_def CACHE_FORMAT_def int_native_def)

text \<open>What a write that reports success leaves is read back exactly at its own watermark.\<close>

lemma cache_round:
  assumes "text_ok tf" and "\<forall>w bs. wire_native w \<longrightarrow> enc w = Inr bs \<longrightarrow> dec bs = Inr w"
    and "cache_write enc tf Written w (PDict classes) reverse sc = (Inr (), sc')"
    and "int_native w" and "persistable (PDict classes)" and "persistable reverse"
  shows "cache_read dec tf wm sc' =
    Inr (if wm = w then Some (decoded no_oid (PDict classes), decoded no_oid reverse) else None)"
proof -
  obtain payload where p: "encode_scalar_tree enc tf (cache_doc w (PDict classes) reverse) = Inr payload"
    and sc': "sc_file sc' = Some payload"
    using assms(3) by (auto simp: cache_write_def split: sum.splits)
  have "decode_scalar_tree dec tf payload = Inr (decoded no_oid (cache_doc w (PDict classes) reverse))"
    by (rule scalar_tree_round [OF assms(1,2) p persistable_doc [OF assms(4-6)]])
  then show ?thesis
    by (simp add: cache_read_def sc' decoded_doc read_doc_stamped)
qed

text \<open>A write that dies leaves the file, and so what any read of it returns, as it was.\<close>

lemma cache_write_atomic:
  "cache_write enc tf fault w blobs reverse sc = (Inl e, sc') \<Longrightarrow> sc_file sc' = sc_file sc"
  by (auto simp: cache_write_def split: sum.splits write_fault.splits)

lemma cache_read_file: "sc_file sc' = sc_file sc \<Longrightarrow> cache_read dec tf w sc' = cache_read dec tf w sc"
  by (simp add: cache_read_def)

end
