(* ===== verification/Planner.thy ===== *)
theory Planner
  imports Index_Build Permissions
begin

text \<open>
  \<open>_indexes.py\<close>: the deterministic query planner. \<open>plan\<close> splits a condition into a candidate bitmap
  and a residual condition; \<open>range_slice\<close> bisects a sorted run; \<open>readable_bitmap\<close> is the bitmap form
  of the row-level read predicate; \<open>order_via_index\<close> and \<open>windowed_index_order\<close> order OIDs from the
  postings. The binary search is Python's \<open>bisect\<close> module, written out.
\<close>

section \<open>Range slices\<close>

text \<open>\<open>bisect_left\<close> goes right of a key below the value, \<open>bisect_right\<close> unless the value is below the key.\<close>

definition key_order :: "key \<Rightarrow> pyval \<Rightarrow> bool res" where
  "key_order k v = (case key_of v of None \<Rightarrow> Inl PyTypeError | Some l \<Rightarrow> order_key True k l)"

definition value_order :: "pyval \<Rightarrow> key \<Rightarrow> bool res" where
  "value_order v k = (case key_of v of None \<Rightarrow> Inl PyTypeError | Some l \<Rightarrow> order_key True l k)"

function bisect_by :: "(key \<Rightarrow> bool res) \<Rightarrow> key list \<Rightarrow> nat \<Rightarrow> nat \<Rightarrow> nat res" where
  "bisect_by right ks lo hi =
     (if lo < hi
      then bind_res (right (ks ! ((lo + hi) div 2))) (\<lambda>b.
        if b then bisect_by right ks ((lo + hi) div 2 + 1) hi else bisect_by right ks lo ((lo + hi) div 2))
      else Inr lo)"
  by pat_completeness auto
termination
  by (relation "measure (\<lambda>(_, _, lo, hi). hi - lo)") auto

declare bisect_by.simps [simp del]

definition bisect_left :: "key list \<Rightarrow> pyval \<Rightarrow> nat res" where
  "bisect_left ks v = bisect_by (\<lambda>k. key_order k v) ks 0 (length ks)"

definition bisect_right :: "key list \<Rightarrow> pyval \<Rightarrow> nat res" where
  "bisect_right ks v = bisect_by (\<lambda>k. bind_res (value_order v k) (\<lambda>b. Inr (\<not> b))) ks 0 (length ks)"

definition get_posting :: "column \<Rightarrow> key \<Rightarrow> bitmap res" where
  "get_posting col k = (case dict_get col k of None \<Rightarrow> Inl PyKeyError | Some bm \<Rightarrow> Inr bm)"

definition range_slice :: "class_indexes \<Rightarrow> string \<Rightarrow> cmp_op \<Rightarrow> pyval \<Rightarrow> bitmap res" where
  "range_slice ci f op v =
     (if v = PNone then Inr {}
      else case (dict_get (ci_sorted_keys ci) f, dict_get (ci_eq ci) f) of
        (Some run, Some col) \<Rightarrow>
          bind_res
            (if op = OpGe then bind_res (bisect_left run v) (\<lambda>i. Inr (i, length run))
             else if op = OpGt then bind_res (bisect_right run v) (\<lambda>i. Inr (i, length run))
             else if op = OpLe then bind_res (bisect_right run v) (\<lambda>i. Inr (0, i))
             else bind_res (bisect_left run v) (\<lambda>i. Inr (0, i)))
            (\<lambda>(lo, hi).
              fold_res (\<lambda>k acc. bind_res (get_posting col k) (\<lambda>bm. Inr (acc \<union> bm)))
                (drop lo (take hi run)) {})
      | _ \<Rightarrow> Inl PyKeyError)"

section \<open>The planner\<close>

type_synonym planned = "bitmap option \<times> cond option"

definition ordering_op :: "cmp_op \<Rightarrow> bool" where
  "ordering_op op \<longleftrightarrow> op \<in> {OpGe, OpGt, OpLe, OpLt}"

definition string_match_op :: "cmp_op \<Rightarrow> bool" where
  "string_match_op op \<longleftrightarrow> op \<in> {OpContains, OpStartswith}"

definition matches_string_key :: "cmp_op \<Rightarrow> pyval \<Rightarrow> key \<Rightarrow> bool res" where
  "matches_string_key op needle k =
     (case k of
        KStr s \<Rightarrow>
          (case needle of
             PStr n \<Rightarrow> Inr (if op = OpContains then str_infix n s else str_prefix n s)
           | _ \<Rightarrow> Inl PyTypeError)
      | _ \<Rightarrow> Inr False)"

definition column_lookup :: "column \<Rightarrow> pyval \<Rightarrow> bitmap res" where
  "column_lookup col v = bind_res (hash_key v) (\<lambda>k. Inr (dict_getd col k {}))"

definition holder_lookup :: "holders \<Rightarrow> pyval \<Rightarrow> bitmap res" where
  "holder_lookup h v =
     bind_res (hash_key v) (\<lambda>k. Inr (case dict_get h k of None \<Rightarrow> {} | Some oid \<Rightarrow> {oid}))"

definition union_over :: "(pyval \<Rightarrow> bitmap res) \<Rightarrow> pyval \<Rightarrow> bitmap res" where
  "union_over look v =
     (case v of
        PTuple vs \<Rightarrow> fold_res (\<lambda>x acc. bind_res (look x) (\<lambda>bm. Inr (acc \<union> bm))) vs {}
      | _ \<Rightarrow> Inl PyTypeError)"

definition match_keys :: "cmp_op \<Rightarrow> pyval \<Rightarrow> ('v \<Rightarrow> bitmap) \<Rightarrow> (key \<times> 'v) list \<Rightarrow> bitmap res" where
  "match_keys op needle oids entries =
     fold_res (\<lambda>(k, x) acc. bind_res (matches_string_key op needle k) (\<lambda>b. Inr (if b then acc \<union> oids x else acc)))
       entries {}"

definition plan_list_field :: "cond \<Rightarrow> cmp_op \<Rightarrow> pyval \<Rightarrow> column \<Rightarrow> planned res" where
  "plan_list_field cond op v col =
     (if op = OpContains then bind_res (column_lookup col v) (\<lambda>bm. Inr (Some bm, None))
      else Inr (None, Some cond))"

definition plan_eq_indexed ::
  "cond \<Rightarrow> string \<Rightarrow> cmp_op \<Rightarrow> pyval \<Rightarrow> class_indexes \<Rightarrow> column \<Rightarrow> planned option res" where
  "plan_eq_indexed cond f op v ci col =
     (if ordering_op op \<and> f \<in> set (ci_sorted_fields ci)
      then bind_res (range_slice ci f op v) (\<lambda>bm. Inr (Some (Some bm, None)))
      else if f \<in> set (ci_list_fields ci)
      then bind_res (plan_list_field cond op v col) (\<lambda>p. Inr (Some p))
      else if op = OpEq then bind_res (column_lookup col v) (\<lambda>bm. Inr (Some (Some bm, None)))
      else if op = OpIn then bind_res (union_over (column_lookup col) v) (\<lambda>bm. Inr (Some (Some bm, None)))
      else if string_match_op op
      then bind_res (match_keys op v (\<lambda>bm. bm) col) (\<lambda>bm. Inr (Some (Some bm, None)))
      else Inr None)"

definition plan_unique_only ::
  "cmp_op \<Rightarrow> pyval \<Rightarrow> holders \<Rightarrow> planned option res" where
  "plan_unique_only op v h =
     (if op = OpEq then bind_res (holder_lookup h v) (\<lambda>bm. Inr (Some (Some bm, None)))
      else if op = OpIn then bind_res (union_over (holder_lookup h) v) (\<lambda>bm. Inr (Some (Some bm, None)))
      else if string_match_op op
      then bind_res (match_keys op v (\<lambda>oid. {oid}) h) (\<lambda>bm. Inr (Some (Some bm, None)))
      else Inr None)"

definition plan_pred :: "string \<Rightarrow> string \<Rightarrow> cmp_op \<Rightarrow> pyval \<Rightarrow> class_indexes \<Rightarrow> planned res" where
  "plan_pred cls f op v ci =
     (let cond = Pred cls f op v in
      bind_res (case dict_get (ci_eq ci) f of
          None \<Rightarrow> Inr None
        | Some col \<Rightarrow> plan_eq_indexed cond f op v ci col) (\<lambda>first.
      case first of
        Some p \<Rightarrow> Inr p
      | None \<Rightarrow>
          bind_res (case dict_get (ci_unique ci) f of
              None \<Rightarrow> Inr None
            | Some h \<Rightarrow> plan_unique_only op v h) (\<lambda>second.
          case second of Some p \<Rightarrow> Inr p | None \<Rightarrow> Inr (None, Some cond))))"

definition meet_bitmaps :: "bitmap option \<Rightarrow> bitmap option \<Rightarrow> bitmap option" where
  "meet_bitmaps acc sub =
     (case sub of None \<Rightarrow> acc
      | Some b \<Rightarrow> (case acc of None \<Rightarrow> Some b | Some a \<Rightarrow> Some (a \<inter> b)))"

definition pack_residuals :: "cond list \<Rightarrow> cond option" where
  "pack_residuals rs = (case rs of [] \<Rightarrow> None | [r] \<Rightarrow> Some r | _ \<Rightarrow> Some (And rs))"

fun plan :: "cond \<Rightarrow> class_indexes \<Rightarrow> planned res"
  and plan_all :: "cond list \<Rightarrow> class_indexes \<Rightarrow> bitmap option \<Rightarrow> cond list \<Rightarrow> (bitmap option \<times> cond list) res"
  and plan_any :: "cond list \<Rightarrow> class_indexes \<Rightarrow> bitmap \<Rightarrow> bitmap option res" where
  "plan (Pred cls f op v) ci = plan_pred cls f op v ci"
| "plan (And ps) ci =
     bind_res (plan_all ps ci None []) (\<lambda>(bm, rs). Inr (bm, pack_residuals rs))"
| "plan (Or ps) ci =
     bind_res (plan_any ps ci {}) (\<lambda>bm.
       Inr (case bm of None \<Rightarrow> (None, Some (Or ps)) | Some acc \<Rightarrow> (Some acc, None)))"
| "plan (Not p) ci = Inr (None, Some (Not p))"
| "plan_all [] ci bm rs = Inr (bm, rs)"
| "plan_all (p # ps) ci bm rs =
     bind_res (plan p ci) (\<lambda>(sub, r).
       plan_all ps ci (meet_bitmaps bm sub) (case r of None \<Rightarrow> rs | Some c \<Rightarrow> rs @ [c]))"
| "plan_any [] ci acc = Inr (Some acc)"
| "plan_any (p # ps) ci acc =
     bind_res (plan p ci) (\<lambda>(sub, r).
       case (sub, r) of
         (Some bm, None) \<Rightarrow> plan_any ps ci (acc \<union> bm)
       | _ \<Rightarrow> Inr None)"

section \<open>explain\<close>

record query_plan =
  qp_typename :: string
  qp_condition :: "cond option"
  qp_indexed :: bool
  qp_residual :: "cond option"
  qp_candidates :: nat
  qp_extent :: nat

definition explain_plan ::
  "string \<Rightarrow> class_indexes \<Rightarrow> cond option \<Rightarrow> bitmap option \<Rightarrow> query_plan res" where
  "explain_plan typename ci cnd readable =
     (let visible = (\<lambda>bm. case readable of None \<Rightarrow> bm | Some r \<Rightarrow> bm \<inter> r);
          extent = card (visible (ci_extent ci)) in
      case cnd of
        None \<Rightarrow> Inr \<lparr>qp_typename = typename, qp_condition = None, qp_indexed = False,
                    qp_residual = None, qp_candidates = extent, qp_extent = extent\<rparr>
      | Some c \<Rightarrow>
          bind_res (plan c ci) (\<lambda>(bm, r).
            Inr \<lparr>qp_typename = typename, qp_condition = Some c, qp_indexed = (bm \<noteq> None), qp_residual = r,
                 qp_candidates = card (visible (case bm of None \<Rightarrow> ci_extent ci | Some b \<Rightarrow> b)),
                 qp_extent = extent\<rparr>))"

section \<open>The readable rows of a class\<close>

definition readable_bitmap :: "principal \<Rightarrow> class_indexes \<Rightarrow> bitmap option res" where
  "readable_bitmap p ci =
     (if is_root p then Inr None
      else
        bind_res
          (if uid p \<noteq> 0
           then (case dict_get (ci_eq ci) ''_dc_owner'' of
                   None \<Rightarrow> Inl PyKeyError
                 | Some col \<Rightarrow> Inr (dict_getd col (KNum (of_int (uid p))) {}))
           else Inr {})
          (\<lambda>owned.
        let ms = (if dict_get (memberships p) WORLD = None
                  then AList.update WORLD VIEWER (memberships p) else memberships p) in
        case dict_get (ci_eq ci) ''_dc_groups'' of
          None \<Rightarrow> Inl PyKeyError
        | Some groups \<Rightarrow>
            bind_res
              (fold_res (\<lambda>(g, lvl) acc.
                 let in_group = dict_getd groups (KNum (of_int g)) {} in
                 if in_group = {} then Inr acc
                 else bind_res (range_slice ci ''_dc_read_floor'' OpLe (PInt lvl)) (\<lambda>bm.
                        Inr (acc \<union> (in_group \<inter> bm)))) ms owned)
              (\<lambda>acc. Inr (Some acc))))"

section \<open>Ordering from the postings\<close>

definition ordered_keys :: "class_indexes \<Rightarrow> string \<Rightarrow> bool \<Rightarrow> column \<Rightarrow> key list res" where
  "ordered_keys ci f descending col =
     (if f \<in> set (ci_sorted_fields ci)
      then (case dict_get (ci_sorted_keys ci) f of
              None \<Rightarrow> Inl PyKeyError
            | Some run \<Rightarrow> Inr (if descending then rev run else run))
      else bind_res (py_sorted (filter (\<lambda>k. k \<noteq> KNone) (dict_keys col))) (\<lambda>ks.
             Inr (if descending then rev ks else ks)))"

definition order_via_index :: "class_indexes \<Rightarrow> bitmap \<Rightarrow> string \<Rightarrow> bool \<Rightarrow> nat list res" where
  "order_via_index ci matched f descending =
     (case dict_get (ci_eq ci) f of
        None \<Rightarrow> Inl PyKeyError
      | Some col \<Rightarrow>
          bind_res (ordered_keys ci f descending col) (\<lambda>ks.
          bind_res (fold_res (\<lambda>k out. bind_res (get_posting col k) (\<lambda>bm. Inr (out @ bm_iter (bm \<inter> matched)))) ks [])
            (\<lambda>out. Inr (case dict_get col KNone of
                         None \<Rightarrow> out | Some bm \<Rightarrow> out @ bm_iter (bm \<inter> matched)))))"

text \<open>The loop over keys, leaving it as soon as the window is filled.\<close>

fun window_keys :: "column \<Rightarrow> bitmap \<Rightarrow> nat \<Rightarrow> key list \<Rightarrow> nat list \<Rightarrow> (bool \<times> nat list) res" where
  "window_keys col matched stop [] out = Inr (False, out)"
| "window_keys col matched stop (k # ks) out =
     bind_res (get_posting col k) (\<lambda>bm.
       let out' = out @ bm_iter (bm \<inter> matched) in
       if length out' \<ge> stop then Inr (True, out') else window_keys col matched stop ks out')"

definition windowed_index_order ::
  "class_indexes \<Rightarrow> bitmap \<Rightarrow> string \<Rightarrow> bool \<Rightarrow> nat option \<Rightarrow> nat \<Rightarrow> nat list res" where
  "windowed_index_order ci matched f descending limit offset =
     (case limit of
        None \<Rightarrow>
          bind_res (order_via_index ci matched f descending) (\<lambda>ordered.
            Inr (if offset \<noteq> 0 then drop offset ordered else ordered))
      | Some n \<Rightarrow>
          let stop = offset + n in
          (case dict_get (ci_eq ci) f of
             None \<Rightarrow> Inl PyKeyError
           | Some col \<Rightarrow>
               bind_res (ordered_keys ci f descending col) (\<lambda>ks.
               bind_res (window_keys col matched stop ks []) (\<lambda>(full, out).
                 if full then Inr (drop offset (take stop out))
                 else
                   let out' = (case dict_get col KNone of
                       None \<Rightarrow> out
                     | Some bm \<Rightarrow> if length out < stop then out @ bm_iter (bm \<inter> matched) else out)
                   in Inr (drop offset (take stop out'))))))"

end
