(* ===== verification/Planner_Lemmas.thy ===== *)
theory Planner_Lemmas
  imports Planner
begin

text \<open>
  What the planner's pieces compute: the bisections find the boundary, a range slice is the set of
  OIDs whose key satisfies the comparison, a planned condition is equivalent to the original one, the
  readable bitmap is the set of rows \<open>can_read_row\<close> admits, and the windowed order is a slice of the
  full one.
\<close>

section \<open>Bisection\<close>

lemma bisect_by_boundary:
  assumes "\<And>i. i < length ks \<Longrightarrow> right (ks ! i) = Inr (P i)"
    and "\<And>i j. i \<le> j \<Longrightarrow> j < length ks \<Longrightarrow> P j \<Longrightarrow> P i"
    and "lo \<le> hi" and "hi \<le> length ks"
    and "\<And>i. i < lo \<Longrightarrow> P i" and "\<And>i. hi \<le> i \<Longrightarrow> i < length ks \<Longrightarrow> \<not> P i"
  shows "\<exists>m. bisect_by right ks lo hi = Inr m \<and> m \<le> length ks \<and>
    (\<forall>i < length ks. P i \<longleftrightarrow> i < m)"
  using assms(3-)
proof (induction "hi - lo" arbitrary: lo hi rule: less_induct)
  case less
  show ?case
  proof (cases "lo < hi")
    case False
    then have "lo = hi" using less.prems(1) by simp
    then have "bisect_by right ks lo hi = Inr lo" by (simp add: bisect_by.simps)
    moreover have "P i \<longleftrightarrow> i < lo" if "i < length ks" for i
      using less.prems(3) [of i] less.prems(4) [of i] that \<open>lo = hi\<close> by (cases "i < lo") auto
    ultimately show ?thesis using less.prems(2) \<open>lo = hi\<close> by (intro exI [of _ lo]) simp
  next
    case True
    let ?m = "(lo + hi) div 2"
    have m: "?m < length ks" "lo \<le> ?m" "?m < hi" using True less.prems(2) by auto
    have r: "right (ks ! ?m) = Inr (P ?m)" using m(1) by (rule assms(1))
    show ?thesis
    proof (cases "P ?m")
      case True
      have below: "P i" if "i < ?m + 1" for i
        using assms(2) [of i ?m] that m(1) True by simp
      have "hi - (?m + 1) < hi - lo" using m by simp
      from less.hyps [OF this] obtain m' where
        "bisect_by right ks (?m + 1) hi = Inr m'" "m' \<le> length ks" "\<forall>i < length ks. P i \<longleftrightarrow> i < m'"
        using m less.prems below by auto
      then show ?thesis using r True \<open>lo < hi\<close> bisect_by.simps [of right ks lo hi] by simp
    next
      case False
      have above: "\<not> P i" if "?m \<le> i" "i < length ks" for i
        using assms(2) [of ?m i] that False by blast
      have "?m - lo < hi - lo" using m by simp
      from less.hyps [OF this] obtain m' where
        "bisect_by right ks lo ?m = Inr m'" "m' \<le> length ks" "\<forall>i < length ks. P i \<longleftrightarrow> i < m'"
        using m less.prems above by auto
      then show ?thesis using r False \<open>lo < hi\<close> bisect_by.simps [of right ks lo hi] by simp
    qed
  qed
qed

text \<open>On a homogeneous run and a comparable bound both bisections succeed.\<close>

definition run_comparable :: "key list \<Rightarrow> key \<Rightarrow> bool" where
  "run_comparable run l \<longleftrightarrow> (\<forall>k \<in> set run. comparable k l)"

lemma bisect_left_split:
  assumes "key_of v = Some l" and "sorted run" and "run_comparable run l"
  shows "\<exists>m. bisect_left run v = Inr m \<and> m \<le> length run \<and> (\<forall>i < length run. run ! i < l \<longleftrightarrow> i < m)"
  unfolding bisect_left_def
proof (rule bisect_by_boundary)
  show "key_order (run ! i) v = Inr (run ! i < l)" if "i < length run" for i
    using assms that by (simp add: key_order_def run_comparable_def)
  show "run ! j < l \<Longrightarrow> run ! i < l" if "i \<le> j" "j < length run" for i j
    using sorted_nth_mono [OF assms(2) that] by simp
qed auto

lemma bisect_right_split:
  assumes "key_of v = Some l" and "sorted run" and "run_comparable run l"
  shows "\<exists>m. bisect_right run v = Inr m \<and> m \<le> length run \<and> (\<forall>i < length run. run ! i \<le> l \<longleftrightarrow> i < m)"
  unfolding bisect_right_def
proof (rule bisect_by_boundary)
  show "bind_res (value_order v (run ! i)) (\<lambda>b. Inr (\<not> b)) = Inr (run ! i \<le> l)" if "i < length run" for i
  proof -
    have "comparable l (run ! i)" using assms(3) that comparable_sym [of l] by (simp add: run_comparable_def)
    then show ?thesis using assms(1) by (auto simp: value_order_def)
  qed
  show "run ! j \<le> l \<Longrightarrow> run ! i \<le> l" if "i \<le> j" "j < length run" for i j
    using sorted_nth_mono [OF assms(2) that] by simp
qed auto

definition op_rel :: "cmp_op \<Rightarrow> key \<Rightarrow> key \<Rightarrow> bool" where
  "op_rel op k l \<longleftrightarrow>
     (if op = OpGe then l \<le> k else if op = OpGt then l < k else if op = OpLe then k \<le> l else k < l)"

lemma set_take_nth: "set (take n xs) = {xs ! i |i. i < n \<and> i < length xs}"
proof -
  have "x \<in> set (take n xs) \<longleftrightarrow> (\<exists>i < length xs. i < n \<and> xs ! i = x)" for x
    by (auto simp: in_set_conv_nth)
  then show ?thesis by auto
qed

lemma set_drop_nth: "set (drop n xs) = {xs ! i |i. n \<le> i \<and> i < length xs}"
proof -
  have "set (drop n xs) = {xs ! (n + i) |i. i < length xs - n}"
    by (auto simp: set_conv_nth)
  also have "\<dots> = {xs ! i |i. n \<le> i \<and> i < length xs}"
    by (auto, metis add.commute le_add_diff_inverse2 less_diff_conv)
  finally show ?thesis .
qed

lemma fold_union_postings:
  assumes "\<And>k. k \<in> set ks \<Longrightarrow> dict_get col k \<noteq> None"
  shows "fold_res (\<lambda>k acc. bind_res (get_posting col k) (\<lambda>bm. Inr (acc \<union> bm))) ks acc =
    Inr (acc \<union> (\<Union>k \<in> set ks. dict_getd col k {}))"
  using assms
proof (induction ks arbitrary: acc)
  case Nil
  then show ?case by simp
next
  case (Cons k ks)
  obtain bm where "dict_get col k = Some bm" using Cons.prems [of k] by auto
  then show ?case using Cons by (simp add: get_posting_def dict_getd_def Un_assoc)
qed

lemma range_slice_value:
  assumes f: "f \<in> set (ci_sorted_fields ci)" and shape: "ci_shape ci" and runs: "runs_ok ci"
    and v: "v \<noteq> PNone" "key_of v = Some l" and cmp: "run_comparable (run_of ci f) l"
    and op: "ordering_op op"
  shows "range_slice ci f op v = Inr {oid. \<exists>k. k \<noteq> KNone \<and> op_rel op k l \<and> oid \<in> posting ci f k}"
proof -
  let ?run = "run_of ci f"
  obtain col where col: "dict_get (ci_eq ci) f = Some col" and run: "dict_get (ci_sorted_keys ci) f = Some ?run"
    using f shape by (auto simp: ci_shape_def run_of_def dict_getd_def)
  have ok: "set ?run = col_keys ci f - {KNone}" "sorted ?run"
    using runs f by (simp_all add: runs_ok_def run_ok_def)
  have keys: "dict_get col k \<noteq> None" if "k \<in> set ?run" for k
    using that ok(1) col by (auto simp: col_keys_def col_of_Some domIff)
  have slice: "fold_res (\<lambda>k acc. bind_res (get_posting col k) (\<lambda>bm. Inr (acc \<union> bm))) (drop lo (take hi ?run)) {} =
      Inr {oid. \<exists>k. k \<noteq> KNone \<and> op_rel op k l \<and> oid \<in> posting ci f k}"
    if "set (drop lo (take hi ?run)) = {k \<in> set ?run. op_rel op k l}" for lo hi
  proof -
    have "(\<Union>k \<in> {k \<in> set ?run. op_rel op k l}. dict_getd col k {}) =
        {oid. \<exists>k. k \<noteq> KNone \<and> op_rel op k l \<and> oid \<in> posting ci f k}"
      using ok(1) col
      by (auto simp: posting_def col_of_Some col_keys_def dict_getd_def domIff split: option.splits)
    then show ?thesis
      using that keys by (subst fold_union_postings) auto
  qed
  obtain ml where ml: "bisect_left ?run v = Inr ml" "\<And>i. i < length ?run \<Longrightarrow> ?run ! i < l \<longleftrightarrow> i < ml"
    using bisect_left_split [OF v(2) ok(2) cmp] by blast
  obtain mr where mr: "bisect_right ?run v = Inr mr" "\<And>i. i < length ?run \<Longrightarrow> ?run ! i \<le> l \<longleftrightarrow> i < mr"
    using bisect_right_split [OF v(2) ok(2) cmp] by blast
  have ge: "set (drop ml (take (length ?run) ?run)) = {k \<in> set ?run. l \<le> k}"
    using ml(2) by (auto simp: set_drop_nth in_set_conv_nth not_less [symmetric])
  have gt: "set (drop mr (take (length ?run) ?run)) = {k \<in> set ?run. l < k}"
    using mr(2) by (auto simp: set_drop_nth in_set_conv_nth not_le [symmetric])
  have le: "set (drop 0 (take mr ?run)) = {k \<in> set ?run. k \<le> l}"
    using mr(2) by (auto simp: set_take_nth in_set_conv_nth)
  have lt: "set (drop 0 (take ml ?run)) = {k \<in> set ?run. k < l}"
    using ml(2) by (auto simp: set_take_nth in_set_conv_nth)
  consider "op = OpGe" | "op = OpGt" | "op = OpLe" | "op = OpLt"
    using op by (auto simp: ordering_op_def)
  then show ?thesis
  proof cases
    case 1
    then show ?thesis
      using v(1) col run ml(1) slice [of ml "length ?run"] ge by (simp add: range_slice_def op_rel_def)
  next
    case 2
    then show ?thesis
      using v(1) col run mr(1) slice [of mr "length ?run"] gt by (simp add: range_slice_def op_rel_def)
  next
    case 3
    then show ?thesis
      using v(1) col run mr(1) slice [of 0 mr] le by (simp add: range_slice_def op_rel_def)
  next
    case 4
    then show ?thesis
      using v(1) col run ml(1) slice [of 0 ml] lt by (simp add: range_slice_def op_rel_def)
  qed
qed

text \<open>A slice that answers had a bound comparable with the whole run.\<close>

lemma bisect_by_probes:
  "bisect_by right ks lo hi = Inr m \<Longrightarrow> lo < hi \<Longrightarrow> \<exists>b. right (ks ! ((lo + hi) div 2)) = Inr b"
  by (subst (asm) bisect_by.simps) (auto simp: bind_res_Inr)

lemma range_slice_comparable:
  assumes f: "f \<in> set (ci_sorted_fields ci)" and shape: "ci_shape ci" and runs: "runs_ok ci"
    and v: "v \<noteq> PNone" and ans: "range_slice ci f op v = Inr bm" and ne: "run_of ci f \<noteq> []"
  shows "\<exists>l. key_of v = Some l \<and> run_comparable (run_of ci f) l"
proof -
  let ?run = "run_of ci f"
  obtain col where col: "dict_get (ci_eq ci) f = Some col" and run: "dict_get (ci_sorted_keys ci) f = Some ?run"
    using f shape by (auto simp: ci_shape_def run_of_def dict_getd_def)
  have "(\<exists>m. bisect_left ?run v = Inr m) \<or> (\<exists>m. bisect_right ?run v = Inr m)"
    using ans v col run by (auto simp: range_slice_def bind_res_Inr split: if_splits)
  then have probe: "\<exists>l. key_of v = Some l \<and> comparable (?run ! (length ?run div 2)) l"
  proof
    assume "\<exists>m. bisect_left ?run v = Inr m"
    then obtain b where "key_order (?run ! ((0 + length ?run) div 2)) v = Inr b"
      using ne unfolding bisect_left_def by (meson bisect_by_probes length_greater_0_conv)
    then show ?thesis by (auto simp: key_order_def order_key_Inr split: option.splits)
  next
    assume "\<exists>m. bisect_right ?run v = Inr m"
    then obtain b where "bind_res (value_order v (?run ! ((0 + length ?run) div 2))) (\<lambda>b. Inr (\<not> b)) = Inr b"
      using ne unfolding bisect_right_def by (meson bisect_by_probes length_greater_0_conv)
    then show ?thesis
      by (auto simp: value_order_def order_key_Inr bind_res_Inr comparable_sym split: option.splits)
  qed
  then obtain l where l: "key_of v = Some l" "comparable (?run ! (length ?run div 2)) l" by blast
  have mem: "?run ! (length ?run div 2) \<in> set ?run" using ne by simp
  have "homogeneous ?run" using runs f by (simp add: runs_ok_def run_ok_def)
  then have "comparable k l" if "k \<in> set ?run" for k
    using homogeneousD [OF _ that mem] l(2) comparable_trans by (cases "k = ?run ! (length ?run div 2)") blast+
  then show ?thesis using l(1) by (auto simp: run_comparable_def)
qed

section \<open>A planned condition\<close>

text \<open>
  \<open>sound_plan p c oid full\<close>: if the condition evaluates on the full row, the plan agrees with it.
\<close>

definition in_candidates :: "nat \<Rightarrow> bitmap option \<Rightarrow> bool" where
  "in_candidates oid bm \<longleftrightarrow> (case bm of None \<Rightarrow> True | Some b \<Rightarrow> oid \<in> b)"

definition residual_true :: "cond option \<Rightarrow> row \<Rightarrow> bool" where
  "residual_true r full \<longleftrightarrow> (case r of None \<Rightarrow> True | Some c \<Rightarrow> evaluate c full = Inr True)"

definition sound_plan :: "planned \<Rightarrow> cond \<Rightarrow> nat \<Rightarrow> row \<Rightarrow> bool" where
  "sound_plan p c oid full \<longleftrightarrow>
     (\<forall>b. evaluate c full = Inr b \<longrightarrow> b = (in_candidates oid (fst p) \<and> residual_true (snd p) full))"

text \<open>The literals the index answers exactly: hashed by value, and \<open>None\<close> not against a pure-Unique field.\<close>

definition literal_ok :: "class_indexes \<Rightarrow> string \<Rightarrow> pyval \<Rightarrow> bool" where
  "literal_ok ci f v \<longleftrightarrow> key_of v \<noteq> Some KNaN \<and> (dict_get (ci_eq ci) f = None \<longrightarrow> v \<noteq> PNone)"

fun cond_ok :: "class_indexes \<Rightarrow> cond \<Rightarrow> bool" where
  "cond_ok ci (Pred cls f op v) =
     (if op = OpIn then (case v of PTuple vs \<Rightarrow> list_all (literal_ok ci f) vs | _ \<Rightarrow> True)
      else if op = OpEq \<or> op = OpContains then literal_ok ci f v else True)"
| "cond_ok ci (And ps) = list_all (cond_ok ci) ps"
| "cond_ok ci (Or ps) = list_all (cond_ok ci) ps"
| "cond_ok ci (Not p) = True"

text \<open>The indexed row is the full row restricted to the maintained fields; a list field holds a list.\<close>

definition covers :: "class_indexes \<Rightarrow> row \<Rightarrow> row \<Rightarrow> bool" where
  "covers ci r full \<longleftrightarrow>
     (\<forall>f. dict_get (ci_eq ci) f \<noteq> None \<or> f \<in> set (ci_unique_fields ci) \<longrightarrow>
        dict_get r f = dict_get full f \<and> dict_get r f \<noteq> None) \<and>
     (\<forall>f \<in> set (ci_list_fields ci). \<forall>v. dict_get r f = Some v \<longrightarrow>
        v = PNone \<or> (\<exists>xs. v = PList xs) \<or> (\<exists>xs. v = PTuple xs))"

lemma scalar_has_key:
  "f \<notin> set ls \<Longrightarrow> dict_get r f = Some w \<Longrightarrow> row_has_key ls r f k \<longleftrightarrow> hash_key w = Inr k"
  by (auto simp: row_has_key_def val_has_key_def field_keys_def bind_res_def split: sum.splits)

lemma row_ok_scalar:
  assumes "row_ok ls r" and "f \<notin> set ls" and "dict_get r f = Some w"
  shows "\<exists>k. key_of w = Some k"
proof -
  have "(f, w) \<in> set r" using assms(3) by (rule map_of_SomeD)
  then have "field_keys ls f w \<noteq> Inl e" for e using assms(1) by (auto simp: row_ok_def)
  then show ?thesis
    using assms(2) by (cases "key_of w") (auto simp: field_keys_def hash_key_def)
qed

lemma hash_key_Inr: "hash_key v = Inr k \<longleftrightarrow> key_of v = Some k"
  by (auto simp: hash_key_def split: option.splits)

lemma fold_union_Inr:
  "fold_res (\<lambda>x acc. bind_res (look x) (\<lambda>bm. Inr (acc \<union> bm))) vs acc = Inr bm \<longleftrightarrow>
     (\<forall>v \<in> set vs. \<exists>s. look v = Inr s) \<and> bm = acc \<union> (\<Union>v \<in> set vs. projr (look v))"
proof (induction vs arbitrary: acc)
  case Nil
  then show ?case by auto
next
  case (Cons v vs)
  then show ?case by (cases "look v") auto
qed

lemma match_keys_Inr:
  "match_keys op v oids entries = Inr bm \<Longrightarrow>
     (\<forall>(k, x) \<in> set entries. \<exists>r. matches_string_key op v k = Inr r) \<and>
     bm = (\<Union>(k, x) \<in> {(k, x) \<in> set entries. matches_string_key op v k = Inr True}. oids x)"
proof -
  have "fold_res (\<lambda>(k, x) acc. bind_res (matches_string_key op v k) (\<lambda>b. Inr (if b then acc \<union> oids x else acc)))
      entries acc = Inr bm \<Longrightarrow>
     (\<forall>(k, x) \<in> set entries. \<exists>r. matches_string_key op v k = Inr r) \<and>
     bm = acc \<union> (\<Union>(k, x) \<in> {(k, x) \<in> set entries. matches_string_key op v k = Inr True}. oids x)" for acc
  proof (induction entries arbitrary: acc)
    case Nil
    then show ?case by simp
  next
    case (Cons e entries)
    obtain k x where e: "e = (k, x)" by (cases e)
    from Cons.prems e obtain r where r: "matches_string_key op v k = Inr r"
      and rest: "fold_res (\<lambda>(k, x) acc. bind_res (matches_string_key op v k) (\<lambda>b. Inr (if b then acc \<union> oids x else acc)))
        entries (if r then acc \<union> oids x else acc) = Inr bm"
      by (cases "matches_string_key op v k") auto
    show ?case using Cons.IH [OF rest] r e by (cases r) auto
  qed
  then show "match_keys op v oids entries = Inr bm \<Longrightarrow> ?thesis"
    unfolding match_keys_def by fastforce
qed

text \<open>Evaluation on a hashable value is a test on its key.\<close>

lemma eval_eq_key:
  "key_of w = Some k \<Longrightarrow> key_of v = Some l \<Longrightarrow> l \<noteq> KNaN \<Longrightarrow> eval_pred OpEq v w = Inr (k = l)"
  using py_eq_key [of w k v l] by (auto simp: eval_pred_def)

lemma eval_in_key:
  assumes "key_of w = Some k" and "\<And>v. v \<in> set vs \<Longrightarrow> \<exists>l. key_of v = Some l \<and> l \<noteq> KNaN"
  shows "eval_pred OpIn (PTuple vs) w = Inr (\<exists>v \<in> set vs. key_of v = Some k)"
proof -
  have "py_eq v w \<longleftrightarrow> key_of v = Some k" if "v \<in> set vs" for v
  proof -
    from assms(2) [OF that] obtain l where "key_of v = Some l" "l \<noteq> KNaN" by auto
    then show ?thesis using py_eq_key [of v l w k] assms(1) by auto
  qed
  then have "list_ex (\<lambda>v. py_eq v w) vs \<longleftrightarrow> (\<exists>v \<in> set vs. key_of v = Some k)"
    by (auto simp: list_ex_iff)
  then show ?thesis by (simp add: eval_pred_def pred_in_def)
qed

lemma eval_match_key:
  assumes "key_of w = Some k" and "string_match_op op"
  shows "eval_pred op v w = matches_string_key op v k"
proof -
  have "op = OpContains \<or> op = OpStartswith" using assms(2) by (auto simp: string_match_op_def)
  then show ?thesis
  proof
    assume "op = OpContains"
    then show ?thesis using assms(1)
      by (cases w) (auto simp: eval_pred_def pred_contains_def matches_string_key_def split: option.splits pyval.splits)
  next
    assume "op = OpStartswith"
    then show ?thesis using assms(1)
      by (cases w) (auto simp: eval_pred_def pred_startswith_def matches_string_key_def split: option.splits pyval.splits)
  qed
qed

lemma eval_order_key:
  assumes "key_of w = Some k" and "key_of v = Some l" and "w \<noteq> PNone" and "v \<noteq> PNone"
    and "ordering_op op" and "comparable k l"
  shows "eval_pred op v w = Inr (op_rel op k l)"
proof -
  have c: "comparable l k" using assms(6) comparable_sym by blast
  have lt: "py_lt w v = Inr (k < l)" "py_lt v w = Inr (l < k)" "py_le w v = Inr (k \<le> l)" "py_le v w = Inr (l \<le> k)"
    using assms(1,2,6) c by (simp_all add: py_lt_def py_le_def py_order_key)
  consider "op = OpGe" | "op = OpGt" | "op = OpLe" | "op = OpLt"
    using assms(5) by (auto simp: ordering_op_def)
  then show ?thesis
    by cases (use assms(3,4) lt in \<open>simp_all add: eval_pred_def pred_ordered_def op_rel_def\<close>)
qed

lemma eval_order_None:
  "ordering_op op \<Longrightarrow> w = PNone \<or> v = PNone \<Longrightarrow> eval_pred op v w = Inr False"
  by (auto simp: ordering_op_def eval_pred_def pred_ordered_def)

text \<open>The column of a scalar field and the holder map of a Unique one answer the same lookups.\<close>

definition answers :: "(nat \<Rightarrow> key \<Rightarrow> bool) \<Rightarrow> (key \<Rightarrow> bool) \<Rightarrow> (pyval \<Rightarrow> bitmap res) \<Rightarrow> bool" where
  "answers has good look \<longleftrightarrow>
     (\<forall>v s. look v = Inr s \<longrightarrow> (\<exists>l. key_of v = Some l \<and> (good l \<longrightarrow> (\<forall>oid. oid \<in> s \<longleftrightarrow> has oid l))))"

lemma answers_eq:
  assumes "answers has good look" and "look v = Inr s" and "key_of v \<noteq> Some KNaN"
    and "\<And>l. key_of v = Some l \<Longrightarrow> good l" and "key_of w = Some k" and "\<And>l. has oid l \<longleftrightarrow> l = k"
  shows "eval_pred OpEq v w = Inr (oid \<in> s)"
proof -
  obtain l where l: "key_of v = Some l" "good l \<longrightarrow> (\<forall>oid. oid \<in> s \<longleftrightarrow> has oid l)"
    using assms(1,2) unfolding answers_def by blast
  then have "oid \<in> s \<longleftrightarrow> k = l" using assms(4,6) by auto
  then show ?thesis using eval_eq_key [OF assms(5) l(1)] assms(3) l(1) by auto
qed

lemma answers_in:
  assumes "answers has good look" and "union_over look v = Inr s"
    and "\<And>vs x. v = PTuple vs \<Longrightarrow> x \<in> set vs \<Longrightarrow> key_of x \<noteq> Some KNaN \<and> (\<forall>l. key_of x = Some l \<longrightarrow> good l)"
    and "key_of w = Some k" and "\<And>l. has oid l \<longleftrightarrow> l = k"
  shows "eval_pred OpIn v w = Inr (oid \<in> s)"
proof -
  obtain vs where vs: "v = PTuple vs"
    and look: "\<And>x. x \<in> set vs \<Longrightarrow> \<exists>t. look x = Inr t" and s: "s = (\<Union>x \<in> set vs. projr (look x))"
    using assms(2) by (auto simp: union_over_def fold_union_Inr split: pyval.splits)
  have each: "\<exists>l. key_of x = Some l \<and> l \<noteq> KNaN \<and> (oid \<in> projr (look x) \<longleftrightarrow> l = k)" if x: "x \<in> set vs" for x
  proof -
    obtain t where t: "look x = Inr t" using look [OF x] by blast
    then obtain l where l: "key_of x = Some l" "good l \<longrightarrow> (\<forall>oid. oid \<in> t \<longleftrightarrow> has oid l)"
      using assms(1) unfolding answers_def by blast
    then show ?thesis using t assms(3) [OF vs x] assms(5) by auto
  qed
  have "eval_pred OpIn (PTuple vs) w = Inr (\<exists>x \<in> set vs. key_of x = Some k)"
    using each by (intro eval_in_key [OF assms(4)]) blast
  moreover have "(\<exists>x \<in> set vs. key_of x = Some k) \<longleftrightarrow> oid \<in> s"
    unfolding s using each by fastforce
  ultimately show ?thesis using vs by simp
qed

lemma column_answers:
  assumes "postings_rep ci tab" and "dict_get (ci_eq ci) f = Some col"
  shows "answers (\<lambda>oid l. tab_has (ci_list_fields ci) tab oid f l) (\<lambda>l. True) (column_lookup col)"
proof -
  have p: "posting ci f k = {oid. tab_has (ci_list_fields ci) tab oid f k}" for k
    using assms by (simp add: postings_rep_def)
  have g: "dict_getd col k {} = posting ci f k" for k using assms(2) by (simp add: posting_def col_of_Some)
  show ?thesis
    unfolding answers_def column_lookup_def
    by (auto simp: bind_res_Inr hash_key_Inr g p)
qed

lemma holder_answers:
  assumes "uniq_rep ci tab UNIV" and "dict_get (ci_unique ci) f = Some h" and "f \<in> set (ci_unique_fields ci)"
  shows "answers (\<lambda>oid l. tab_has (ci_list_fields ci) tab oid f l) (\<lambda>l. l \<noteq> KNone) (holder_lookup h)"
proof -
  have u: "holder ci f k = Some oid \<longleftrightarrow> tab_has (ci_list_fields ci) tab oid f k" if "k \<noteq> KNone" for oid k
    using assms(1,3) that unfolding uniq_rep_def uniq_key_def by blast
  have g: "dict_get h k = holder ci f k" for k using assms(2) by (simp add: holder_Some)
  show ?thesis
    unfolding answers_def
  proof (intro allI impI)
    fix v s assume "holder_lookup h v = Inr s"
    then obtain l where l: "key_of v = Some l" and s: "s = (case holder ci f l of None \<Rightarrow> {} | Some oid \<Rightarrow> {oid})"
      by (auto simp: holder_lookup_def bind_res_Inr hash_key_Inr g)
    have "oid \<in> s \<longleftrightarrow> holder ci f l = Some oid" for oid
      using s by (auto split: option.splits)
    then show "\<exists>l. key_of v = Some l \<and> (l \<noteq> KNone \<longrightarrow>
        (\<forall>oid. (oid \<in> s) = tab_has (ci_list_fields ci) tab oid f l))"
      using l u by auto
  qed
qed

lemma match_column:
  assumes "postings_rep ci tab" and "dict_get (ci_eq ci) f = Some col" and "dict_wf col"
    and "match_keys op v (\<lambda>bm. bm) col = Inr s" and "\<And>l. tab_has (ci_list_fields ci) tab oid f l \<longleftrightarrow> l = k"
  shows "oid \<in> s \<longleftrightarrow> matches_string_key op v k = Inr True"
proof -
  have p: "oid \<in> posting ci f l \<longleftrightarrow> l = k" for l
    using assms(1,2,5) by (simp add: postings_rep_def)
  have s: "s = (\<Union>(l, x) \<in> {(l, x) \<in> set col. matches_string_key op v l = Inr True}. x)"
    using match_keys_Inr [OF assms(4)] by blast
  have "oid \<in> s \<longleftrightarrow> (\<exists>l bm. (l, bm) \<in> set col \<and> matches_string_key op v l = Inr True \<and> oid \<in> bm)"
    unfolding s by auto
  also have "\<dots> \<longleftrightarrow> (\<exists>l. matches_string_key op v l = Inr True \<and> oid \<in> posting ci f l)"
  proof -
    have "oid \<in> posting ci f l \<longleftrightarrow> (\<exists>bm. (l, bm) \<in> set col \<and> oid \<in> bm)" for l
      using dict_wf_in_set [OF assms(3)] assms(2)
      by (cases "dict_get col l") (simp_all add: posting_def col_of_Some dict_getd_def)
    then show ?thesis by blast
  qed
  finally show ?thesis using p by simp
qed

lemma match_holders:
  assumes "uniq_rep ci tab UNIV" and "dict_get (ci_unique ci) f = Some h" and "f \<in> set (ci_unique_fields ci)"
    and "dict_wf h" and "match_keys op v (\<lambda>oid. {oid}) h = Inr s"
    and "\<And>l. tab_has (ci_list_fields ci) tab oid f l \<longleftrightarrow> l = k"
  shows "oid \<in> s \<longleftrightarrow> matches_string_key op v k = Inr True"
proof -
  have u: "holder ci f l = Some oid \<longleftrightarrow> l = k" if "l \<noteq> KNone" for l
    using assms(1,3,6) that unfolding uniq_rep_def uniq_key_def by blast
  have s: "s = (\<Union>(l, x) \<in> {(l, x) \<in> set h. matches_string_key op v l = Inr True}. {x})"
    using match_keys_Inr [OF assms(5)] by blast
  have "oid \<in> s \<longleftrightarrow> (\<exists>l. (l, oid) \<in> set h \<and> matches_string_key op v l = Inr True)"
    unfolding s by auto
  also have "\<dots> \<longleftrightarrow> (\<exists>l. holder ci f l = Some oid \<and> matches_string_key op v l = Inr True)"
    using dict_wf_in_set [OF assms(4)] assms(2) by (simp add: holder_Some)
  also have "\<dots> \<longleftrightarrow> matches_string_key op v k = Inr True"
  proof -
    have "l \<noteq> KNone" if "matches_string_key op v l = Inr True" for l
      using that by (auto simp: matches_string_key_def)
    then show ?thesis using u by blast
  qed
  finally show ?thesis .
qed

lemma sound_planI:
  assumes "get_attr full f = Inr w" and "\<And>b. eval_pred op v w = Inr b \<Longrightarrow> b \<longleftrightarrow> oid \<in> s"
  shows "sound_plan (Some s, None) (Pred cls f op v) oid full"
  using assms by (simp add: sound_plan_def in_candidates_def residual_true_def)

lemma sound_plan_residual: "sound_plan (None, Some c) c oid full"
  by (auto simp: sound_plan_def in_candidates_def residual_true_def)

text \<open>What the index knows of one row: the keys it is posted under are those of the row.\<close>

definition knows :: "class_indexes \<Rightarrow> table \<Rightarrow> nat \<Rightarrow> row \<Rightarrow> row \<Rightarrow> bool" where
  "knows ci tab oid r full \<longleftrightarrow>
     ci_rep ci tab \<and> uniq_rep ci tab UNIV \<and> dicts_wf ci \<and> tab oid = Some r \<and> covers ci r full"

lemma knowsD:
  assumes "knows ci tab oid r full"
  shows "ci_rep ci tab" "uniq_rep ci tab UNIV" "dicts_wf ci" "tab oid = Some r" "covers ci r full"
    "ci_shape ci" "runs_ok ci" "postings_rep ci tab" "row_ok (ci_list_fields ci) r"
proof -
  show k: "ci_rep ci tab" "uniq_rep ci tab UNIV" "dicts_wf ci" "tab oid = Some r" "covers ci r full"
    using assms by (simp_all add: knows_def)
  then show "ci_shape ci" "runs_ok ci" "postings_rep ci tab"
    by (simp_all add: ci_rep_def ci_core_def)
  have "\<forall>oid r. tab oid = Some r \<longrightarrow> row_ok (ci_list_fields ci) r"
    using k(1) unfolding ci_rep_def ci_core_def by blast
  then show "row_ok (ci_list_fields ci) r" using k(4) by blast
qed

lemma knows_scalar:
  assumes "knows ci tab oid r full" and "dict_get (ci_eq ci) f \<noteq> None \<or> f \<in> set (ci_unique_fields ci)"
    and "f \<notin> set (ci_list_fields ci)"
  obtains w k where "get_attr full f = Inr w" and "key_of w = Some k"
    and "\<And>l. tab_has (ci_list_fields ci) tab oid f l \<longleftrightarrow> l = k"
proof -
  have "dict_get r f = dict_get full f \<and> dict_get r f \<noteq> None"
    using assms(1,2) unfolding knows_def covers_def by blast
  then obtain w where w: "dict_get r f = Some w" "dict_get full f = Some w" by (metis option.exhaust)
  obtain k where k: "key_of w = Some k"
    using row_ok_scalar [OF knowsD(9) [OF assms(1)] assms(3) w(1)] by blast
  show thesis
  proof (rule that [of w k])
    show "get_attr full f = Inr w" using w(2) by (simp add: get_attr_def)
    show "tab_has (ci_list_fields ci) tab oid f l \<longleftrightarrow> l = k" for l
      using assms(1,3) w(1) k
      by (auto simp: knows_def tab_has_def scalar_has_key hash_key_Inr)
  qed (rule k)
qed

lemma list_contains_sound:
  assumes kn: "knows ci tab oid r full" and col: "dict_get (ci_eq ci) f = Some col"
    and f: "f \<in> set (ci_list_fields ci)" and lit: "key_of v \<noteq> Some KNaN"
    and look: "column_lookup col v = Inr s"
  shows "sound_plan (Some s, None) (Pred cls f OpContains v) oid full"
proof -
  let ?ls = "ci_list_fields ci"
  have "dict_get (ci_eq ci) f \<noteq> None" using col by simp
  then have "dict_get r f = dict_get full f \<and> dict_get r f \<noteq> None"
    using kn unfolding knows_def covers_def by blast
  then obtain w where w: "dict_get r f = Some w" "dict_get full f = Some w" by (metis option.exhaust)
  have shape: "w = PNone \<or> (\<exists>xs. w = PList xs) \<or> (\<exists>xs. w = PTuple xs)"
    using kn f w(1) unfolding knows_def covers_def by blast
  have ok: "row_ok ?ls r" "postings_rep ci tab" "tab oid = Some r"
    using knowsD [OF kn] by simp_all
  obtain l where l: "key_of v = Some l" "oid \<in> s \<longleftrightarrow> tab_has ?ls tab oid f l"
    using column_answers [OF ok(2) col] look unfolding answers_def by blast
  have th: "tab_has ?ls tab oid f l \<longleftrightarrow> val_has_key ?ls f w l"
    using ok(3) w(1) by (simp add: tab_has_def row_has_key_def)
  have fk: "\<exists>ks. field_keys ?ls f w = Inr ks"
    using ok(1) map_of_SomeD [OF w(1)] by (cases "field_keys ?ls f w") (auto simp: row_ok_def)
  have elems: "list_ex (\<lambda>x. py_eq x v) xs \<longleftrightarrow> l \<in> set ks" if "map_res hash_key xs = Inr ks" for xs ks
  proof -
    have "list_ex (\<lambda>x. py_eq x v) xs \<longleftrightarrow> l \<in> set ks"
      using that lit l(1)
    proof (induction xs arbitrary: ks)
      case Nil
      then show ?case by simp
    next
      case (Cons x xs)
      then obtain k ks' where "hash_key x = Inr k" "map_res hash_key xs = Inr ks'" "ks = k # ks'"
        by (auto split: sum.splits)
      then show ?case using Cons py_eq_key [of x k v l] by (auto simp: hash_key_Inr)
    qed
    then show ?thesis .
  qed
  show ?thesis
  proof (rule sound_planI)
    show "get_attr full f = Inr w" using w(2) by (simp add: get_attr_def)
    fix b assume "eval_pred OpContains v w = Inr b"
    then show "b \<longleftrightarrow> oid \<in> s"
      using shape fk elems f
      by (auto simp: eval_pred_def pred_contains_def l(2) th val_has_key_def field_keys_def elem_keys_def bind_res_Inr)
  qed
qed

lemma sorted_slice_sound:
  assumes kn: "knows ci tab oid r full" and f: "f \<in> set (ci_sorted_fields ci)" and op: "ordering_op op"
    and ans: "range_slice ci f op v = Inr s"
  shows "sound_plan (Some s, None) (Pred cls f op v) oid full"
proof -
  note kd = knowsD [OF kn]
  have fields: "dict_get (ci_eq ci) f \<noteq> None" "f \<notin> set (ci_list_fields ci)"
    using kd(6) f by (auto simp: ci_shape_def)
  obtain w k where w: "get_attr full f = Inr w" "key_of w = Some k"
    "\<And>l. tab_has (ci_list_fields ci) tab oid f l \<longleftrightarrow> l = k"
    using knows_scalar [OF kn _ fields(2)] fields(1) by blast
  have p: "oid \<in> posting ci f l \<longleftrightarrow> l = k" for l
    using kd(8) fields(1) w(3) by (simp add: postings_rep_def)
  have wk: "w = PNone \<longleftrightarrow> k = KNone"
    using hash_key_None_iff [of w k] w(2) by (simp add: hash_key_Inr)
  show ?thesis
  proof (rule sound_planI [OF w(1)])
    fix b assume ev: "eval_pred op v w = Inr b"
    show "b \<longleftrightarrow> oid \<in> s"
    proof (cases "v = PNone")
      case True
      then show ?thesis using ans ev eval_order_None [OF op, of w v] by (simp add: range_slice_def)
    next
      case False
      show ?thesis
      proof (cases "run_of ci f = []")
        case True
        have "set (run_of ci f) = col_keys ci f - {KNone}" using kd(7) f by (simp add: runs_ok_def run_ok_def)
        then have "col_keys ci f - {KNone} = {}" unfolding True by simp
        moreover have "k \<in> col_keys ci f"
          using p [of k] by (auto simp: posting_def col_keys_def dict_getd_def split: option.splits)
        ultimately have "k = KNone" by auto
        then have "b = False" using ev eval_order_None [OF op, of w v] wk by simp
        moreover have "s = {}"
        proof -
          obtain col where "dict_get (ci_eq ci) f = Some col" using fields(1) by auto
          moreover have "dict_get (ci_sorted_keys ci) f = Some []"
            using kd(6) f True by (auto simp: ci_shape_def run_of_def dict_getd_def)
          ultimately show ?thesis using ans False by (auto simp: range_slice_def bind_res_Inr split: if_splits)
        qed
        ultimately show ?thesis by simp
      next
        case ne: False
        obtain l where l: "key_of v = Some l" "run_comparable (run_of ci f) l"
          using range_slice_comparable [OF f kd(6) kd(7) False ans ne] by blast
        have s: "s = {oid. \<exists>k. k \<noteq> KNone \<and> op_rel op k l \<and> oid \<in> posting ci f k}"
          using range_slice_value [OF f kd(6) kd(7) False l op] ans by simp
        show ?thesis
        proof (cases "k = KNone")
          case True
          then show ?thesis using ev eval_order_None [OF op, of w v] wk s p by auto
        next
          case kn: False
          have "k \<in> col_keys ci f"
            using p [of k] by (auto simp: posting_def col_keys_def dict_getd_def split: option.splits)
          then have "k \<in> set (run_of ci f)"
            using kd(7) f kn by (simp add: runs_ok_def run_ok_def)
          then have c: "comparable k l" using l(2) by (simp add: run_comparable_def)
          have "w \<noteq> PNone" using wk kn by simp
          then have "b \<longleftrightarrow> op_rel op k l"
            using ev eval_order_key [OF w(2) l(1) _ False op c] by simp
          then show ?thesis using s p kn by auto
        qed
      qed
    qed
  qed
qed

lemma plan_eq_indexed_sound:
  assumes kn: "knows ci tab oid r full" and col: "dict_get (ci_eq ci) f = Some col"
    and pl: "plan_eq_indexed (Pred cls f op v) f op v ci col = Inr (Some p)"
    and ok: "cond_ok ci (Pred cls f op v)"
  shows "sound_plan p (Pred cls f op v) oid full"
proof -
  note kd = knowsD [OF kn]
  have dw: "dict_wf col" using dicts_wf_getD(1) [OF kd(3) col] .
  consider (slice) s where "ordering_op op" "f \<in> set (ci_sorted_fields ci)" "range_slice ci f op v = Inr s" "p = (Some s, None)"
    | (lst) s where "f \<in> set (ci_list_fields ci)" "op = OpContains" "column_lookup col v = Inr s" "p = (Some s, None)"
    | (rest) "p = (None, Some (Pred cls f op v))"
    | (eq) s where "f \<notin> set (ci_list_fields ci)" "op = OpEq" "column_lookup col v = Inr s" "p = (Some s, None)"
    | (isin) s where "f \<notin> set (ci_list_fields ci)" "op = OpIn" "union_over (column_lookup col) v = Inr s" "p = (Some s, None)"
    | (strs) s where "f \<notin> set (ci_list_fields ci)" "string_match_op op" "match_keys op v (\<lambda>bm. bm) col = Inr s" "p = (Some s, None)"
    using pl by (auto simp: plan_eq_indexed_def plan_list_field_def bind_res_Inr split: if_splits)
  then show ?thesis
  proof cases
    case slice
    then show ?thesis using sorted_slice_sound [OF kn slice(2,1,3)] by simp
  next
    case lst
    then show ?thesis
      using list_contains_sound [OF kn col lst(1) _ lst(3)] ok by (simp add: literal_ok_def)
  next
    case rest
    then show ?thesis by (simp add: sound_plan_residual)
  next
    case eq
    obtain w k where w: "get_attr full f = Inr w" "key_of w = Some k"
      "\<And>l. tab_has (ci_list_fields ci) tab oid f l \<longleftrightarrow> l = k"
      using knows_scalar [OF kn _ eq(1)] col by blast
    have lit: "key_of v \<noteq> Some KNaN" using ok eq(2) by (simp add: literal_ok_def)
    have "eval_pred OpEq v w = Inr (oid \<in> s)"
      by (rule answers_eq [OF column_answers [OF kd(8) col] eq(3) lit TrueI w(2) w(3)])
    then show ?thesis unfolding eq(4) eq(2) by (intro sound_planI [OF w(1)]) simp
  next
    case isin
    obtain w k where w: "get_attr full f = Inr w" "key_of w = Some k"
      "\<And>l. tab_has (ci_list_fields ci) tab oid f l \<longleftrightarrow> l = k"
      using knows_scalar [OF kn _ isin(1)] col by blast
    have "eval_pred OpIn v w = Inr (oid \<in> s)"
      by (rule answers_in [OF column_answers [OF kd(8) col] isin(3) _ w(2)])
         (use ok isin(2) w(3) in \<open>auto simp: literal_ok_def list_all_iff\<close>)
    then show ?thesis unfolding isin(4) isin(2) by (intro sound_planI [OF w(1)]) simp
  next
    case strs
    obtain w k where w: "get_attr full f = Inr w" "key_of w = Some k"
      "\<And>l. tab_has (ci_list_fields ci) tab oid f l \<longleftrightarrow> l = k"
      using knows_scalar [OF kn _ strs(1)] col by blast
    have "oid \<in> s \<longleftrightarrow> matches_string_key op v k = Inr True"
      by (rule match_column [OF kd(8) col dw strs(3) w(3)])
    then show ?thesis
      unfolding strs(4) using eval_match_key [OF w(2) strs(2), of v] by (intro sound_planI [OF w(1)]) auto
  qed
qed

end
