(* ===== verification/Plan_Sound.thy ===== *)
theory Plan_Sound
  imports Planner_Lemmas
begin

text \<open>
  The planner as a whole: a plan is equivalent to its condition on every indexed row, the readable
  bitmap is the set of rows the read predicate admits, and ordering through the index is ordering the
  rows.
\<close>

lemma plan_unique_only_sound:
  assumes kn: "knows ci tab oid r full" and h: "dict_get (ci_unique ci) f = Some h"
    and uf: "f \<in> set (ci_unique_fields ci)"
    and pl: "plan_unique_only op v h = Inr (Some p)"
    and ok: "cond_ok ci (Pred cls f op v)" and neq: "op = OpEq \<or> op = OpIn \<Longrightarrow> dict_get (ci_eq ci) f = None"
  shows "sound_plan p (Pred cls f op v) oid full"
proof -
  note kd = knowsD [OF kn]
  have nl: "f \<notin> set (ci_list_fields ci)" using kd(6) uf by (auto simp: ci_shape_def)
  have dw: "dict_wf h" using dicts_wf_getD(2) [OF kd(3) h] by simp
  obtain w k where w: "get_attr full f = Inr w" "key_of w = Some k"
    "\<And>l. tab_has (ci_list_fields ci) tab oid f l \<longleftrightarrow> l = k"
    using knows_scalar [OF kn _ nl] uf by blast
  note an = holder_answers [OF kd(2) h uf]
  consider (eq) s where "op = OpEq" "holder_lookup h v = Inr s" "p = (Some s, None)"
    | (isin) s where "op = OpIn" "union_over (holder_lookup h) v = Inr s" "p = (Some s, None)"
    | (strs) s where "string_match_op op" "match_keys op v (\<lambda>oid. {oid}) h = Inr s" "p = (Some s, None)"
    using pl by (auto simp: plan_unique_only_def bind_res_Inr split: if_splits)
  then show ?thesis
  proof cases
    case eq
    have lit: "key_of v \<noteq> Some KNaN" "v \<noteq> PNone" using ok eq(1) neq by (simp_all add: literal_ok_def)
    have "l \<noteq> KNone" if "key_of v = Some l" for l
      using that lit(2) hash_key_None_iff [of v l] by (simp add: hash_key_Inr)
    then have "eval_pred OpEq v w = Inr (oid \<in> s)"
      by (rule answers_eq [OF an eq(2) lit(1) _ w(2) w(3)])
    then show ?thesis unfolding eq(3) eq(1) by (intro sound_planI [OF w(1)]) simp
  next
    case isin
    have "key_of x \<noteq> Some KNaN \<and> (\<forall>l. key_of x = Some l \<longrightarrow> l \<noteq> KNone)" if "v = PTuple vs" "x \<in> set vs" for vs x
    proof -
      have "literal_ok ci f x" using ok isin(1) that by (simp add: list_all_iff)
      then have "key_of x \<noteq> Some KNaN" "x \<noteq> PNone" using neq isin(1) by (simp_all add: literal_ok_def)
      then show ?thesis using hash_key_None_iff [of x] by (simp add: hash_key_Inr)
    qed
    then have "eval_pred OpIn v w = Inr (oid \<in> s)"
      by (rule answers_in [OF an isin(2) _ w(2) w(3)])
    then show ?thesis unfolding isin(3) isin(1) by (intro sound_planI [OF w(1)]) simp
  next
    case strs
    have "oid \<in> s \<longleftrightarrow> matches_string_key op v k = Inr True"
      by (rule match_holders [OF kd(2) h uf dw strs(2) w(3)])
    then show ?thesis
      unfolding strs(3) using eval_match_key [OF w(2) strs(1), of v] by (intro sound_planI [OF w(1)]) auto
  qed
qed

lemma plan_eq_indexed_None:
  "plan_eq_indexed c f op v ci col = Inr None \<Longrightarrow> op \<noteq> OpEq \<and> op \<noteq> OpIn"
  by (auto simp: plan_eq_indexed_def plan_list_field_def bind_res_Inr split: if_splits)

lemma plan_pred_sound:
  assumes kn: "knows ci tab oid r full" and pl: "plan_pred cls f op v ci = Inr p"
    and ok: "cond_ok ci (Pred cls f op v)"
  shows "sound_plan p (Pred cls f op v) oid full"
proof -
  note kd = knowsD [OF kn]
  have uf: "f \<in> set (ci_unique_fields ci)" if "dict_get (ci_unique ci) f = Some h" for h
    using kd(3) map_of_SomeD [OF that] unfolding dicts_wf_def by force
  define first where "first = (case dict_get (ci_eq ci) f of None \<Rightarrow> Inr None
        | Some col \<Rightarrow> plan_eq_indexed (Pred cls f op v) f op v ci col)"
  obtain a where a: "first = Inr a" using pl
    by (cases first) (auto simp: plan_pred_def first_def Let_def)
  show ?thesis
  proof (cases a)
    case (Some q)
    then obtain col where "dict_get (ci_eq ci) f = Some col"
        "plan_eq_indexed (Pred cls f op v) f op v ci col = Inr (Some q)"
      using a by (auto simp: first_def split: option.splits)
    moreover have "p = q" using pl a Some by (simp add: plan_pred_def first_def Let_def)
    ultimately show ?thesis using plan_eq_indexed_sound [OF kn _ _ ok] by blast
  next
    case None
    have neq: "dict_get (ci_eq ci) f = None" if "op = OpEq \<or> op = OpIn"
      using a None that plan_eq_indexed_None by (fastforce simp: first_def split: option.splits)
    define second where "second = (case dict_get (ci_unique ci) f of None \<Rightarrow> Inr None
        | Some h \<Rightarrow> plan_unique_only op v h)"
    have p: "bind_res second (\<lambda>second. case second of Some p \<Rightarrow> Inr p | None \<Rightarrow> Inr (None, Some (Pred cls f op v))) = Inr p"
      using pl a None by (simp add: plan_pred_def first_def second_def Let_def)
    then obtain b where b: "second = Inr b" by (cases second) auto
    show ?thesis
    proof (cases b)
      case None
      then show ?thesis using p b by (auto simp: sound_plan_residual)
    next
      case (Some q)
      then obtain h where "dict_get (ci_unique ci) f = Some h" "plan_unique_only op v h = Inr (Some q)"
        using b by (auto simp: second_def split: option.splits)
      moreover have "p = q" using p b Some by simp
      ultimately show ?thesis using plan_unique_only_sound [OF kn _ uf _ ok neq] by blast
    qed
  qed
qed

text \<open>A conjunction of residuals is true iff each of them is.\<close>

lemma evaluate_all_True: "evaluate_all rs full = Inr True \<longleftrightarrow> (\<forall>c \<in> set rs. evaluate c full = Inr True)"
  by (induction rs) (auto simp: bind_res_Inr split: if_splits)

lemma pack_residuals_true:
  "residual_true (pack_residuals rs) full \<longleftrightarrow> (\<forall>c \<in> set rs. evaluate c full = Inr True)"
  by (auto simp: pack_residuals_def residual_true_def evaluate_all_True bind_res_Inr split: list.splits)

lemma meet_candidates:
  "in_candidates oid (meet_bitmaps acc sub) \<longleftrightarrow> in_candidates oid acc \<and> in_candidates oid sub"
  by (auto simp: in_candidates_def meet_bitmaps_def split: option.splits)

lemma plan_all_grows:
  "plan_all ps ci bm rs = Inr (bm', rs') \<Longrightarrow>
     (in_candidates oid bm' \<longrightarrow> in_candidates oid bm) \<and> set rs \<subseteq> set rs'"
proof (induction ps arbitrary: bm rs)
  case Nil
  then show ?case by simp
next
  case (Cons q ps)
  then obtain sub res where
    "plan_all ps ci (meet_bitmaps bm sub) (case res of None \<Rightarrow> rs | Some c \<Rightarrow> rs @ [c]) = Inr (bm', rs')"
    by (auto simp: bind_res_Inr)
  from Cons.IH [OF this] show ?case by (auto simp: meet_candidates split: option.splits)
qed

lemma plan_any_grows: "plan_any ps ci acc = Inr (Some acc') \<Longrightarrow> acc \<subseteq> acc'"
proof (induction ps arbitrary: acc)
  case Nil
  then show ?case by simp
next
  case (Cons q ps)
  then obtain bm where "plan_any ps ci (acc \<union> bm) = Inr (Some acc')"
    by (auto simp: bind_res_Inr split: option.splits)
  from Cons.IH [OF this] show ?case by simp
qed

lemma plan_sound_aux:
  shows "plan c ci = Inr p \<Longrightarrow> knows ci tab oid r full \<Longrightarrow> cond_ok ci c \<Longrightarrow> sound_plan p c oid full"
    and "plan_all ps ci bm rs = Inr (bm', rs') \<Longrightarrow> knows ci tab oid r full \<Longrightarrow> list_all (cond_ok ci) ps \<Longrightarrow>
      evaluate_all ps full = Inr b \<Longrightarrow>
        (b \<and> in_candidates oid bm \<and> (\<forall>c \<in> set rs. evaluate c full = Inr True)) =
        (in_candidates oid bm' \<and> (\<forall>c \<in> set rs'. evaluate c full = Inr True))"
    and "plan_any ps ci acc = Inr (Some acc') \<Longrightarrow> knows ci tab oid r full \<Longrightarrow> list_all (cond_ok ci) ps \<Longrightarrow>
      acc \<subseteq> acc' \<and> (\<forall>b. evaluate_any ps full = Inr b \<longrightarrow> (b \<or> oid \<in> acc) = (oid \<in> acc'))"
proof (induction c ci and ps ci bm rs and ps ci acc
    arbitrary: p and bm' rs' b and acc' rule: plan_plan_all_plan_any.induct)
  case (1 cls f op v ci)
  then show ?case using plan_pred_sound by simp
next
  case (2 ps ci)
  then obtain bm rs where pa: "plan_all ps ci None [] = Inr (bm, rs)" and p: "p = (bm, pack_residuals rs)"
    by (auto simp: bind_res_Inr)
  have "b = (in_candidates oid bm \<and> (\<forall>c \<in> set rs. evaluate c full = Inr True))"
    if "evaluate_all ps full = Inr b" for b
    using "2.IH" [OF pa "2.prems"(2) _ that] "2.prems"(3) by (auto simp: in_candidates_def)
  then show ?case by (simp add: sound_plan_def p pack_residuals_true)
next
  case (3 ps ci)
  then obtain o1 where pa: "plan_any ps ci {} = Inr o1"
    and p: "p = (case o1 of None \<Rightarrow> (None, Some (Or ps)) | Some acc \<Rightarrow> (Some acc, None))"
    by (auto simp: bind_res_Inr)
  show ?case
  proof (cases o1)
    case None
    then show ?thesis using p by (simp add: sound_plan_residual)
  next
    case (Some acc)
    then show ?thesis
      using "3.IH" [of acc] pa "3.prems" p by (simp add: sound_plan_def in_candidates_def residual_true_def)
  qed
next
  case (4 q ci)
  then show ?case by (auto simp: sound_plan_residual)
next
  case (5 ci bm rs)
  then show ?case by simp
next
  case (6 q ps ci bm rs)
  obtain sub res where pq: "plan q ci = Inr (sub, res)"
    and rest: "plan_all ps ci (meet_bitmaps bm sub) (case res of None \<Rightarrow> rs | Some c \<Rightarrow> rs @ [c]) = Inr (bm', rs')"
    using "6.prems"(1) by (auto simp: bind_res_Inr)
  obtain bq where bq: "evaluate q full = Inr bq"
    and b: "(if bq then evaluate_all ps full else Inr False) = Inr b"
    using "6.prems"(4) by (auto simp: bind_res_Inr)
  have sq: "bq = (in_candidates oid sub \<and> residual_true res full)"
    using "6.IH"(1) [OF pq "6.prems"(2)] "6.prems"(3) bq by (simp add: sound_plan_def)
  let ?rs = "case res of None \<Rightarrow> rs | Some c \<Rightarrow> rs @ [c]"
  have rs: "(\<forall>c \<in> set ?rs. evaluate c full = Inr True) \<longleftrightarrow>
      (\<forall>c \<in> set rs. evaluate c full = Inr True) \<and> residual_true res full"
    by (auto simp: residual_true_def split: option.splits)
  show ?case
  proof (cases bq)
    case True
    then have "evaluate_all ps full = Inr b" using b by simp
    from "6.IH"(2) [OF rest "6.prems"(2) _ this] show ?thesis
      using "6.prems"(3) sq True rs by (auto simp: meet_candidates)
  next
    case False
    then have nb: "\<not> b" using b by simp
    have "\<not> (in_candidates oid bm' \<and> (\<forall>c \<in> set rs'. evaluate c full = Inr True))"
      using False sq rs plan_all_grows [OF rest, of oid] by (auto simp: meet_candidates)
    then show ?thesis using nb by simp
  qed
next
  case (7 ci acc)
  then show ?case by simp
next
  case (8 q ps ci acc)
  then obtain bm where pq: "plan q ci = Inr (Some bm, None)" and rest: "plan_any ps ci (acc \<union> bm) = Inr (Some acc')"
    by (auto simp: bind_res_Inr split: option.splits)
  have sq: "bq = (oid \<in> bm)" if "evaluate q full = Inr bq" for bq
    using "8.IH"(1) [OF pq "8.prems"(2)] "8.prems"(3) that
    by (simp add: sound_plan_def in_candidates_def residual_true_def)
  have IH: "acc \<union> bm \<subseteq> acc' \<and> (\<forall>b. evaluate_any ps full = Inr b \<longrightarrow> (b \<or> oid \<in> acc \<union> bm) = (oid \<in> acc'))"
    by (rule "8.IH"(2) [OF refl _ _ rest "8.prems"(2)]) (use "8.prems"(3) in simp_all)
  show ?case
    using IH sq by (auto simp: bind_res_Inr split: if_splits)
qed

section \<open>The window\<close>

text \<open>\<open>keyed_oids\<close> is what the loop over keys appends; postings are all present.\<close>

definition keyed_oids :: "column \<Rightarrow> bitmap \<Rightarrow> key list \<Rightarrow> nat list" where
  "keyed_oids col matched ks = concat (map (\<lambda>k. bm_iter (dict_getd col k {} \<inter> matched)) ks)"

lemma order_loop:
  "fold_res (\<lambda>k out. bind_res (get_posting col k) (\<lambda>bm. Inr (out @ bm_iter (bm \<inter> matched)))) ks out = Inr res \<longleftrightarrow>
     (\<forall>k \<in> set ks. dict_get col k \<noteq> None) \<and> res = out @ keyed_oids col matched ks"
proof (induction ks arbitrary: out)
  case Nil
  then show ?case by (auto simp: keyed_oids_def)
next
  case (Cons k ks)
  then show ?case
    by (cases "dict_get col k") (auto simp: get_posting_def keyed_oids_def dict_getd_def)
qed

lemma window_loop:
  assumes "\<forall>k \<in> set ks. dict_get col k \<noteq> None"
  shows "\<exists>full out'. window_keys col matched stop ks out = Inr (full, out') \<and>
    (if full then stop \<le> length out' \<and> (\<exists>rest. out @ keyed_oids col matched ks = out' @ rest)
     else out' = out @ keyed_oids col matched ks)"
  using assms
proof (induction ks arbitrary: out)
  case Nil
  then show ?case by (auto simp: keyed_oids_def intro: exI [of _ False])
next
  case (Cons k ks)
  obtain bm where bm: "dict_get col k = Some bm" using Cons.prems by auto
  let ?out = "out @ bm_iter (bm \<inter> matched)"
  have g: "dict_getd col k {} = bm" using bm by (simp add: dict_getd_def)
  show ?case
  proof (cases "stop \<le> length ?out")
    case True
    then show ?thesis using bm g by (auto simp: get_posting_def keyed_oids_def)
  next
    case False
    obtain full out' where w: "window_keys col matched stop ks ?out = Inr (full, out')"
      and r: "if full then stop \<le> length out' \<and> (\<exists>rest. ?out @ keyed_oids col matched ks = out' @ rest)
        else out' = ?out @ keyed_oids col matched ks"
      using Cons.IH [of ?out] Cons.prems by auto
    have "window_keys col matched stop (k # ks) out = Inr (full, out')"
      using bm False w by (simp add: get_posting_def Let_def)
    moreover have "out @ keyed_oids col matched (k # ks) = ?out @ keyed_oids col matched ks"
      using g by (simp add: keyed_oids_def)
    ultimately show ?thesis using r by (intro exI [of _ full] exI [of _ out']) auto
  qed
qed

lemma window_is_slice:
  assumes "order_via_index ci matched f descending = Inr ordered"
  shows "windowed_index_order ci matched f descending limit offset = Inr (apply_window ordered limit offset)"
proof (cases limit)
  case None
  then show ?thesis using assms by (simp add: windowed_index_order_def apply_window_def)
next
  case (Some n)
  obtain col ks where col: "dict_get (ci_eq ci) f = Some col" and ks: "ordered_keys ci f descending col = Inr ks"
    and pres: "\<forall>k \<in> set ks. dict_get col k \<noteq> None"
    and ordered: "ordered = keyed_oids col matched ks @
      (case dict_get col KNone of None \<Rightarrow> [] | Some bm \<Rightarrow> bm_iter (bm \<inter> matched))"
    using assms by (auto simp: order_via_index_def bind_res_Inr order_loop split: option.splits)
  let ?stop = "offset + n"
  let ?tail = "case dict_get col KNone of None \<Rightarrow> [] | Some bm \<Rightarrow> bm_iter (bm \<inter> matched)"
  obtain full out where w: "window_keys col matched ?stop ks [] = Inr (full, out)"
    and r: "if full then ?stop \<le> length out \<and> (\<exists>rest. keyed_oids col matched ks = out @ rest)
      else out = keyed_oids col matched ks"
    using window_loop [OF pres, of matched ?stop "[]"] unfolding append_Nil by blast
  have win: "apply_window ordered limit offset = drop offset (take ?stop ordered)"
    using Some by (simp add: apply_window_def drop_take)
  show ?thesis
  proof (cases full)
    case True
    then have "take ?stop ordered = take ?stop out" using r ordered by auto
    then show ?thesis
      using True Some col ks w win by (simp add: windowed_index_order_def Let_def)
  next
    case False
    then have o: "out = keyed_oids col matched ks" using r by simp
    have "take ?stop ordered = take ?stop (case dict_get col KNone of
                       None \<Rightarrow> out
                     | Some bm \<Rightarrow> if length out < ?stop then out @ bm_iter (bm \<inter> matched) else out)"
      using ordered o by (auto split: option.splits)
    then show ?thesis
      using False Some col ks w win by (simp add: windowed_index_order_def Let_def)
  qed
qed

section \<open>The readable rows\<close>

text \<open>A protected class indexes the label columns, and a labelled row has int labels.\<close>

definition protected_index :: "class_indexes \<Rightarrow> bool" where
  "protected_index ci \<longleftrightarrow>
     dict_get (ci_eq ci) ''_dc_owner'' \<noteq> None \<and> ''_dc_owner'' \<notin> set (ci_list_fields ci) \<and>
     dict_get (ci_eq ci) ''_dc_groups'' \<noteq> None \<and> ''_dc_groups'' \<in> set (ci_list_fields ci) \<and>
     ''_dc_read_floor'' \<in> set (ci_sorted_fields ci)"

definition labelled_row :: "row \<Rightarrow> int \<Rightarrow> int list \<Rightarrow> int \<Rightarrow> bool" where
  "labelled_row r owner groups read_floor \<longleftrightarrow>
     dict_get r ''_dc_owner'' = Some (PInt owner) \<and>
     dict_get r ''_dc_groups'' = Some (PList (map PInt groups)) \<and>
     dict_get r ''_dc_read_floor'' = Some (PInt read_floor)"

lemma int_list_keys: "map_res hash_key (map PInt gs) = Inr (map (\<lambda>g. KNum (of_int g)) gs)"
  by (induction gs) (auto simp: hash_key_def)

lemma groups_has_key:
  assumes "labelled_row r ow gs fl" and "''_dc_groups'' \<in> set ls"
  shows "row_has_key ls r ''_dc_groups'' (KNum (of_int g)) \<longleftrightarrow> g \<in> set gs"
  using assms by (auto simp: labelled_row_def row_has_key_def val_has_key_def field_keys_def elem_keys_def int_list_keys)

lemma posting_scalar:
  assumes "postings_rep ci tab" and "dict_get (ci_eq ci) f \<noteq> None" and "f \<notin> set (ci_list_fields ci)"
    and "tab oid = Some r" and "dict_get r f = Some w" and "key_of w = Some l"
  shows "oid \<in> posting ci f k \<longleftrightarrow> k = l"
proof -
  have "posting ci f k = {oid. tab_has (ci_list_fields ci) tab oid f k}"
    using assms(1,2) unfolding postings_rep_def by blast
  moreover have "tab_has (ci_list_fields ci) tab oid f k \<longleftrightarrow> k = l"
    using assms(4,6) scalar_has_key [OF assms(3,5)] by (auto simp: tab_has_def hash_key_Inr)
  ultimately show ?thesis by simp
qed

lemma floor_slice:
  assumes rep: "ci_rep ci tab" and pi: "protected_index ci" and row: "tab oid = Some r" "labelled_row r ow gs fl"
    and sl: "range_slice ci ''_dc_read_floor'' OpLe (PInt lvl) = Inr bm"
  shows "oid \<in> bm \<longleftrightarrow> fl \<le> lvl"
proof -
  let ?f = "''_dc_read_floor''"
  have core: "ci_shape ci" "runs_ok ci" "postings_rep ci tab"
    using rep by (simp_all add: ci_rep_def ci_core_def)
  have f: "?f \<in> set (ci_sorted_fields ci)" using pi by (simp add: protected_index_def)
  then have eqf: "dict_get (ci_eq ci) ?f \<noteq> None" "?f \<notin> set (ci_list_fields ci)"
    using core(1) by (auto simp: ci_shape_def)
  have "dict_get r ?f = Some (PInt fl)" "key_of (PInt fl) = Some (KNum (of_int fl))"
    using row(2) by (simp_all add: labelled_row_def)
  then have p: "oid \<in> posting ci ?f k \<longleftrightarrow> k = KNum (of_int fl)" for k
    by (rule posting_scalar [OF core(3) eqf row(1)])
  have "KNum (of_int fl) \<in> col_keys ci ?f"
  proof -
    have "oid \<in> posting ci ?f (KNum (of_int fl))" using p by simp
    then show ?thesis by (auto simp: posting_def col_keys_def dict_getd_def split: option.splits)
  qed
  moreover have "set (run_of ci ?f) = col_keys ci ?f - {KNone}"
    using core(2) f unfolding runs_ok_def run_ok_def by blast
  ultimately have "KNum (of_int fl) \<in> set (run_of ci ?f)" by simp
  then have "run_of ci ?f \<noteq> []" by (metis empty_iff empty_set)
  from range_slice_comparable [OF f core(1,2) _ sl this] have c: "run_comparable (run_of ci ?f) (KNum (of_int lvl))"
    by auto
  have "bm = {oid. \<exists>k. k \<noteq> KNone \<and> op_rel OpLe k (KNum (of_int lvl)) \<and> oid \<in> posting ci ?f k}"
    using range_slice_value [OF f core(1,2) _ _ c, of "PInt lvl" OpLe] sl by (simp add: ordering_op_def)
  then show ?thesis using p by (auto simp: op_rel_def)
qed

definition effective_memberships :: "principal \<Rightarrow> (int, int) dict" where
  "effective_memberships p =
     (if dict_get (memberships p) WORLD = None then AList.update WORLD VIEWER (memberships p) else memberships p)"

lemma effective_level:
  "level p g = dict_getd (effective_memberships p) g NO_STANDING"
  by (cases "dict_get (memberships p) WORLD") (auto simp: level_def effective_memberships_def dict_getd_def)

lemma readable_loop:
  assumes rep: "ci_rep ci tab" and pi: "protected_index ci" and row: "tab oid = Some r" "labelled_row r ow gs fl"
    and g: "dict_get (ci_eq ci) ''_dc_groups'' = Some groups"
  shows "fold_res (\<lambda>(g, lvl) acc.
                 let in_group = dict_getd groups (KNum (of_int g)) {} in
                 if in_group = {} then Inr acc
                 else bind_res (range_slice ci ''_dc_read_floor'' OpLe (PInt lvl)) (\<lambda>bm.
                        Inr (acc \<union> (in_group \<inter> bm)))) ms acc = Inr out \<Longrightarrow>
    oid \<in> out \<longleftrightarrow> oid \<in> acc \<or> (\<exists>(g, lvl) \<in> set ms. g \<in> set gs \<and> fl \<le> lvl)"
proof (induction ms arbitrary: acc)
  case Nil
  then show ?case by simp
next
  case (Cons m ms)
  obtain g lvl where m: "m = (g, lvl)" by (cases m)
  let ?in = "dict_getd groups (KNum (of_int g)) {}"
  have "postings_rep ci tab" "''_dc_groups'' \<in> set (ci_list_fields ci)"
    using rep pi by (simp_all add: ci_rep_def ci_core_def protected_index_def)
  then have "posting ci ''_dc_groups'' (KNum (of_int g)) =
      {oid. tab_has (ci_list_fields ci) tab oid ''_dc_groups'' (KNum (of_int g))}"
    and gh: "row_has_key (ci_list_fields ci) r ''_dc_groups'' (KNum (of_int g)) \<longleftrightarrow> g \<in> set gs"
    using g groups_has_key [OF row(2)] unfolding postings_rep_def by blast+
  moreover have "posting ci ''_dc_groups'' (KNum (of_int g)) = ?in" using g by (simp add: posting_def col_of_Some)
  ultimately have member: "oid \<in> ?in \<longleftrightarrow> g \<in> set gs" using row(1) gh by (simp add: tab_has_def)
  obtain acc' where rest: "fold_res (\<lambda>(g, lvl) acc.
                 let in_group = dict_getd groups (KNum (of_int g)) {} in
                 if in_group = {} then Inr acc
                 else bind_res (range_slice ci ''_dc_read_floor'' OpLe (PInt lvl)) (\<lambda>bm.
                        Inr (acc \<union> (in_group \<inter> bm)))) ms acc' = Inr out"
    and acc': "oid \<in> acc' \<longleftrightarrow> oid \<in> acc \<or> (g \<in> set gs \<and> fl \<le> lvl)"
  proof (cases "?in = {}")
    case True
    then have "g \<notin> set gs" using member by auto
    then show thesis using that [of acc] Cons.prems m True by simp
  next
    case False
    then obtain bm where bm: "range_slice ci ''_dc_read_floor'' OpLe (PInt lvl) = Inr bm"
      using Cons.prems m by (cases "range_slice ci ''_dc_read_floor'' OpLe (PInt lvl)") (auto simp: Let_def)
    show thesis
    proof (rule that [of "acc \<union> (?in \<inter> bm)"])
      show "oid \<in> acc \<union> (?in \<inter> bm) \<longleftrightarrow> oid \<in> acc \<or> (g \<in> set gs \<and> fl \<le> lvl)"
        using member floor_slice [OF rep pi row bm] by simp
    qed (use Cons.prems m False bm in simp)
  qed
  show ?case using Cons.IH [OF rest] acc' m by auto
qed

lemma readable_bitmap_row:
  assumes rep: "ci_rep ci tab" and pi: "protected_index ci" and row: "tab oid = Some r" "labelled_row r ow gs fl"
    and wf: "dict_wf (memberships p)" and lvl: "VIEWER \<le> fl"
    and ans: "readable_bitmap p ci = Inr bm"
  shows "in_candidates oid bm \<longleftrightarrow> can_read_row p ow gs fl"
proof (cases "is_root p")
  case True
  then show ?thesis using ans by (simp add: readable_bitmap_def in_candidates_def can_read_row_def)
next
  case False
  let ?f = "''_dc_owner''"
  obtain ocol groups where oc: "dict_get (ci_eq ci) ?f = Some ocol"
    and g: "dict_get (ci_eq ci) ''_dc_groups'' = Some groups"
    using pi by (auto simp: protected_index_def)
  let ?owned = "if uid p \<noteq> 0 then dict_getd ocol (KNum (of_int (uid p))) {} else {}"
  obtain out where bm: "bm = Some out" and loop: "fold_res (\<lambda>(g, lvl) acc.
                 let in_group = dict_getd groups (KNum (of_int g)) {} in
                 if in_group = {} then Inr acc
                 else bind_res (range_slice ci ''_dc_read_floor'' OpLe (PInt lvl)) (\<lambda>bm.
                        Inr (acc \<union> (in_group \<inter> bm)))) (effective_memberships p) ?owned = Inr out"
    using ans False oc g
    by (cases "uid p = 0") (auto simp: readable_bitmap_def Let_def bind_res_Inr effective_memberships_def)
  have "postings_rep ci tab" "?f \<notin> set (ci_list_fields ci)"
    using rep pi by (simp_all add: ci_rep_def ci_core_def protected_index_def)
  moreover have "dict_get (ci_eq ci) ?f \<noteq> None" using oc by simp
  moreover have "dict_get r ?f = Some (PInt ow)" using row(2) by (simp add: labelled_row_def)
  ultimately have "oid \<in> posting ci ?f k \<longleftrightarrow> k = KNum (of_int ow)" for k
    using posting_scalar [of ci tab ?f oid r "PInt ow"] row(1) by simp
  then have own: "oid \<in> ?owned \<longleftrightarrow> is_owner p ow"
    using oc by (auto simp: is_owner_def posting_def col_of_Some)
  have dwf: "dict_wf (effective_memberships p)" using wf by (simp add: effective_memberships_def)
  have "(\<exists>(g, l) \<in> set (effective_memberships p). g \<in> set gs \<and> fl \<le> l) \<longleftrightarrow> (\<exists>g \<in> set gs. fl \<le> level p g)"
    using dict_wf_in_set [OF dwf] lvl
    by (auto simp: effective_level dict_getd_def ladder_defs split: option.splits) fastforce+
  then have "oid \<in> out \<longleftrightarrow> is_owner p ow \<or> (\<exists>g \<in> set gs. fl \<le> level p g)"
    using readable_loop [OF rep pi row g loop] own by simp
  moreover have "\<not> fl \<le> NO_STANDING" using lvl by (simp add: ladder_defs)
  ultimately show ?thesis
    using False bm can_read_row_other [of p ow gs fl] can_read_row_owner [of p ow gs fl]
    by (cases "is_owner p ow"; cases "gs = []") (auto simp: in_candidates_def)
qed

end
