(* ===== verification/Samples.thy ===== *)
theory Samples
  imports Plan_Sound
begin

text \<open>
  A small concrete class with one Unique, one SortedIndex and one multi-valued Index field, and its
  index after two inserts. The closed instances of the properties evaluate on it.
\<close>

definition plain_spec :: "string \<Rightarrow> fieldspec" where
  "plain_spec n =
     \<lparr>fs_name = n, fs_lazy_refs = False, fs_indexed = False, fs_unique = False, fs_fulltext = False,
      fs_fulltext_language = None, fs_multivalued = False, fs_renamed_from = None, fs_glue = None,
      fs_sorted = False, fs_blob = False, fs_entity_ref = False, fs_decimal = False\<rparr>"

definition sample_ti :: typeinfo where
  "sample_ti =
     \<lparr>ti_name = ''Person'', ti_field_names = [''name'', ''age'', ''tags''], ti_frozen = False,
      ti_protected = False,
      ti_specs = [(plain_spec ''name'')\<lparr>fs_unique := True\<rparr>, (plain_spec ''age'')\<lparr>fs_sorted := True\<rparr>,
                  (plain_spec ''tags'')\<lparr>fs_indexed := True, fs_multivalued := True\<rparr>],
      ti_defaults = [(''tags'', PNone)]\<rparr>"

definition sample_row :: row where
  "sample_row = [(''name'', PStr ''ada''), (''age'', PInt 36), (''tags'', PList [PStr ''x''])]"

definition sample_row2 :: row where
  "sample_row2 = [(''name'', PStr ''bob''), (''age'', PInt 41), (''tags'', PNone)]"

lemma sample_ti_wf: "typeinfo_wf sample_ti"
  by (simp add: typeinfo_wf_def sample_ti_def plain_spec_def spec_wf_def)

lemma sample_fields [simp]:
  "eq_index_fields sample_ti = [''age'', ''tags'']" "unique_field_names sample_ti = [''name'']"
  "multivalued_field_names sample_ti = [''tags'']" "sorted_field_names sample_ti = [''age'']"
  "maintained_fields sample_ti = [''name'', ''age'', ''tags'']"
  by (simp_all add: field_name_defs sample_ti_def plain_spec_def)

lemma sample_rows_ok: "row_ok [''tags''] sample_row" "row_ok [''tags''] sample_row2"
  by (simp_all add: row_ok_def sample_row_def sample_row2_def dict_wf_def field_keys_def hash_key_def elem_keys_def)

definition sample_index :: class_indexes where
  "sample_index =
     \<lparr>ci_extent = {7, 8}, ci_eq = [(''age'', [(KNum 36, {7}), (KNum 41, {8})]), (''tags'', [(KStr ''x'', {7})])],
      ci_unique = [(''name'', [(KStr ''ada'', 7), (KStr ''bob'', 8)])],
      ci_list_fields = [''tags''], ci_sorted_fields = [''age''],
      ci_sorted_keys = [(''age'', [KNum 36, KNum 41])], ci_building = False, ci_unique_fields = [''name''],
      ci_last_values = [(7, sample_row), (8, sample_row2)], ci_needs_lv_rebuild = False\<rparr>"

lemmas index_eval = ci_step_def ci_insert_def pop_old_def index_field_def index_list_field_def index_scalar_field_def
  hash_key_def elem_keys_def enter_sorted_run_def guard_temporal_comparable_def py_insort_def set_col_def
  post_add_def dict_getd_def lv_snapshot_def copy_list_def comparable_def orderable_def

lemma sample_inserts:
  "fold_res ci_step [(7, Some sample_row), (8, Some sample_row2)] (empty_index sample_ti) = Inr sample_index"
  by (simp add: index_eval sample_row_def sample_row2_def empty_index_def new_class_indexes_def sample_index_def
      insert_commute)

definition sample_table :: table where
  "sample_table = tab_steps [(7, Some sample_row), (8, Some sample_row2)] Map.empty"

lemma sample_table_simps [simp]:
  "sample_table 7 = Some sample_row" "sample_table 8 = Some sample_row2"
  "sample_table oid = (if oid = 8 then Some sample_row2 else if oid = 7 then Some sample_row else None)"
  by (simp_all add: sample_table_def)

lemma sample_unique: "tab_unique (empty_index sample_ti) sample_table"
  by (auto simp: tab_unique_def uniq_key_def tab_has_def row_has_key_def val_has_key_def field_keys_def
      sample_row_def sample_row2_def hash_key_def split: if_splits)

lemma sample_rep:
  "ci_rep sample_index sample_table" "uniq_rep sample_index sample_table UNIV" "dicts_wf sample_index"
proof -
  let ?e = "empty_index sample_ti"
  have "runs_ok ?e" by (simp add: runs_ok_def run_ok_def run_of_def dict_getd_def col_keys_def homogeneous_def)
  then have e: "ci_rep ?e Map.empty" "uniq_rep ?e Map.empty UNIV" "dicts_wf ?e"
    using empty_index_core [OF sample_ti_wf] empty_index_dicts by (simp_all add: ci_rep_def)
  have ok: "row_ok (ci_list_fields ?e) r" if "(oid, Some r) \<in> set [(7, Some sample_row), (8, Some sample_row2)]" for oid r
    using that sample_rows_ok by auto
  note b = ci_batch [OF e(1,2) sample_inserts ok]
  show "ci_rep sample_index sample_table" "uniq_rep sample_index sample_table UNIV"
    using b sample_unique by (simp_all add: sample_table_def)
  show "dicts_wf sample_index" by (rule dicts_wf_steps [OF sample_inserts e(3)])
qed

lemma sample_knows: "knows sample_index sample_table 7 sample_row sample_row"
  using sample_rep
  by (simp add: knows_def covers_def) (simp add: sample_index_def sample_row_def)

section \<open>A protected class\<close>

definition guarded_ti :: typeinfo where
  "guarded_ti =
     \<lparr>ti_name = ''Note'', ti_field_names = PERM_FIELDS, ti_frozen = False, ti_protected = True,
      ti_specs = [(plain_spec ''_dc_owner'')\<lparr>fs_indexed := True\<rparr>,
                  (plain_spec ''_dc_groups'')\<lparr>fs_indexed := True, fs_multivalued := True\<rparr>,
                  (plain_spec ''_dc_read_floor'')\<lparr>fs_sorted := True\<rparr>, plain_spec ''_dc_write_floor''],
      ti_defaults = perm_defaults\<rparr>"

definition guarded_row :: row where
  "guarded_row = [(''_dc_owner'', PInt 5), (''_dc_groups'', PList [PInt 3]), (''_dc_read_floor'', PInt 300)]"

lemma guarded_ti_wf: "typeinfo_wf guarded_ti"
  by (simp add: typeinfo_wf_def guarded_ti_def plain_spec_def spec_wf_def PERM_FIELDS_def)

lemma guarded_fields [simp]:
  "eq_index_fields guarded_ti = [''_dc_owner'', ''_dc_groups'', ''_dc_read_floor'']"
  "unique_field_names guarded_ti = []" "multivalued_field_names guarded_ti = [''_dc_groups'']"
  "sorted_field_names guarded_ti = [''_dc_read_floor'']"
  by (simp_all add: field_name_defs guarded_ti_def plain_spec_def)

definition guarded_index :: class_indexes where
  "guarded_index =
     \<lparr>ci_extent = {9}, ci_eq = [(''_dc_owner'', [(KNum 5, {9})]), (''_dc_groups'', [(KNum 3, {9})]),
        (''_dc_read_floor'', [(KNum 300, {9})])],
      ci_unique = [], ci_list_fields = [''_dc_groups''], ci_sorted_fields = [''_dc_read_floor''],
      ci_sorted_keys = [(''_dc_read_floor'', [KNum 300])], ci_building = False, ci_unique_fields = [],
      ci_last_values = [(9, guarded_row)], ci_needs_lv_rebuild = False\<rparr>"

lemma guarded_insert: "ci_insert 9 guarded_row (empty_index guarded_ti) = Inr guarded_index"
  by (simp add: index_eval guarded_row_def empty_index_def new_class_indexes_def guarded_index_def)

lemma guarded_rep: "ci_rep guarded_index [9 \<mapsto> guarded_row]"
proof -
  let ?e = "empty_index guarded_ti"
  have "runs_ok ?e" by (simp add: runs_ok_def run_ok_def run_of_def dict_getd_def col_keys_def homogeneous_def)
  then have e: "ci_rep ?e Map.empty" using empty_index_core [OF guarded_ti_wf] by (simp add: ci_rep_def)
  have ok: "row_ok (ci_list_fields ?e) guarded_row"
    by (simp add: row_ok_def guarded_row_def dict_wf_def field_keys_def hash_key_def elem_keys_def)
  have "fold_res ci_step [(9, Some guarded_row)] ?e = Inr guarded_index"
    using guarded_insert by (simp add: ci_step_def)
  then have "ci_core guarded_index (tab_steps [(9, Some guarded_row)] Map.empty) \<and> runs_ok guarded_index"
    using ci_steps_rep [of ?e Map.empty "[(9, Some guarded_row)]" guarded_index] e ok by (simp add: ci_rep_def)
  then show ?thesis by (simp add: ci_rep_def guarded_index_def)
qed

lemma guarded_protected: "protected_index guarded_index"
  by (simp add: protected_index_def guarded_index_def)

end
