(* ===== verification/Storage.thy ===== *)
theory Storage
  imports Ids Values
begin

text \<open>
  The storage seam: \<open>_storage/protocol.py\<close> and the in-memory backend \<open>_storage/memory.py\<close>.

  \<^item> The records, blobs and batches are the protocol's dataclasses. \<open>open_chunks\<close> of a streamed
    blob is its one read by \<open>apply\<close>: the chunks it yields and the exception that ends it, if any.
  \<^item> \<open>mem_*\<close> are the methods of \<open>MemoryBackend\<close> and \<open>_MemoryReadView\<close>; the lock is not modelled
    (every method is one atomic step). \<open>mem_apply\<close> returns its outcome and the new state.
  \<^item> \<open>sha\<close> is \<open>hashlib.sha256(_).digest()\<close>, an argument wherever bytes are hashed.
  \<^item> The locale \<open>storage_backend\<close> is the protocol's contract as the engine relies on it: one commit
    is atomic, upserts win by the last record, deletes remove, blobs and types accumulate. Its
    lemmas describe the state after any sequence of commits; \<open>mem\<close> is its instance here.
\<close>

section \<open>Protocol data\<close>

record stored_record =
  sr_oid :: nat
  sr_cid :: nat
  sr_tid :: nat
  sr_payload :: bytes

record stored_blob =
  bl_oid :: nat
  bl_tid :: nat
  bl_size :: nat
  bl_hash :: bytes
  bl_data :: bytes

record streamed_blob =
  ss_oid :: nat
  ss_tid :: nat
  ss_size :: nat
  ss_hash :: bytes
  ss_chunks :: "bytes list"
  ss_fault :: "error option"

type_synonym type_row = "nat \<times> string \<times> string list"

record commit_batch =
  cb_tid :: nat
  cb_records :: "stored_record list"
  cb_types :: "type_row list"
  cb_meta :: "(string, string) dict"
  cb_deletes :: "nat list"
  cb_blobs :: "stored_blob list"
  cb_streams :: "streamed_blob list"

record boot_info =
  bi_meta :: "(string, string) dict"
  bi_types :: "type_row list"

section \<open>The in-memory backend\<close>

record mem_backend =
  mb_meta :: "(string, string) dict"
  mb_types :: "type_row list"
  mb_objects :: "(nat, stored_record) dict"
  mb_blobs :: "(nat, stored_blob) dict"

definition mem_new :: mem_backend where
  "mem_new = \<lparr>mb_meta = [(''format_version'', str_of_nat FORMAT_VERSION)],
     mb_types = [], mb_objects = [], mb_blobs = []\<rparr>"

definition mem_boot :: "mem_backend \<Rightarrow> boot_info res" where
  "mem_boot m =
     (case dict_get (mb_meta m) ''format_version'' of
        None \<Rightarrow> Inl PyKeyError
      | Some v \<Rightarrow> bind_res (int_of_text v) (\<lambda>stored.
          if stored > int FORMAT_VERSION then Inl NewerStoreError
          else Inr \<lparr>bi_meta = mb_meta m, bi_types = mb_types m\<rparr>))"

text \<open>\<open>{oid: objects[oid] for oid in oids if oid in objects}\<close>\<close>

definition mem_load_many :: "nat list \<Rightarrow> mem_backend \<Rightarrow> (nat, stored_record) dict" where
  "mem_load_many oids m =
     fold (\<lambda>oid d. case dict_get (mb_objects m) oid of None \<Rightarrow> d | Some r \<Rightarrow> AList.update oid r d)
       oids []"

definition mem_scan_type :: "nat \<Rightarrow> mem_backend \<Rightarrow> stored_record list" where
  "mem_scan_type cid m = sort_key sr_oid (filter (\<lambda>r. sr_cid r = cid) (map snd (mb_objects m)))"

definition mem_load_blob :: "nat \<Rightarrow> mem_backend \<Rightarrow> stored_blob option" where
  "mem_load_blob oid m = dict_get (mb_blobs m) oid"

text \<open>Drain a streamed blob, refusing a size or a hash other than the declared ones.\<close>

definition materialize :: "(bytes \<Rightarrow> bytes) \<Rightarrow> streamed_blob \<Rightarrow> stored_blob res" where
  "materialize sha sb =
     (case ss_fault sb of Some e \<Rightarrow> Inl e
      | None \<Rightarrow>
          let data = concat (ss_chunks sb) in
          if length data \<noteq> ss_size sb then Inl PyValueError
          else if sha data \<noteq> ss_hash sb then Inl PyValueError
          else Inr \<lparr>bl_oid = ss_oid sb, bl_tid = ss_tid sb, bl_size = ss_size sb,
                    bl_hash = ss_hash sb, bl_data = data\<rparr>)"

definition mem_apply :: "(bytes \<Rightarrow> bytes) \<Rightarrow> commit_batch \<Rightarrow> mem_backend \<Rightarrow> unit res \<times> mem_backend" where
  "mem_apply sha b m =
     (case map_res (materialize sha) (cb_streams b) of
        Inl e \<Rightarrow> (Inl e, m)
      | Inr streamed \<Rightarrow>
          (Inr (),
           m\<lparr>mb_types := mb_types m @ cb_types b,
             mb_objects := dict_pop_all (cb_deletes b)
               (dict_put_all sr_oid (cb_records b) (mb_objects m)),
             mb_blobs := dict_put_all bl_oid streamed (dict_put_all bl_oid (cb_blobs b) (mb_blobs m)),
             mb_meta := fold (\<lambda>(k, v). AList.update k v) (cb_meta b) (mb_meta m)\<rparr>))"

section \<open>Read views\<close>

record mem_view =
  mv_meta :: "(string, string) dict"
  mv_types :: "type_row list"
  mv_objects :: "(nat, stored_record) dict"
  mv_blobs :: "(nat, stored_blob) dict"

definition mem_read_view :: "mem_backend \<Rightarrow> mem_view" where
  "mem_read_view m =
     \<lparr>mv_meta = mb_meta m, mv_types = mb_types m, mv_objects = mb_objects m, mv_blobs = mb_blobs m\<rparr>"

definition view_boot :: "mem_view \<Rightarrow> boot_info" where
  "view_boot v = \<lparr>bi_meta = mv_meta v, bi_types = mv_types v\<rparr>"

definition view_load_many :: "nat list \<Rightarrow> mem_view \<Rightarrow> (nat, stored_record) dict" where
  "view_load_many oids v =
     fold (\<lambda>oid d. case dict_get (mv_objects v) oid of None \<Rightarrow> d | Some r \<Rightarrow> AList.update oid r d)
       oids []"

definition view_scan_type :: "nat \<Rightarrow> mem_view \<Rightarrow> stored_record list" where
  "view_scan_type cid v = sort_key sr_oid (filter (\<lambda>r. sr_cid r = cid) (map snd (mv_objects v)))"

definition view_load_blob :: "nat \<Rightarrow> mem_view \<Rightarrow> stored_blob option" where
  "view_load_blob oid v = dict_get (mv_blobs v) oid"

text \<open>
  \<open>_MemoryBlobStream\<close> is \<open>io.BytesIO\<close> over a copy of the bytes. \<open>bs_closed\<close> is set and
  \<open>bs_released\<close>, the number of \<open>on_close\<close> calls, grows with every \<open>close()\<close>. \<open>whence\<close> is
  0, 1 or 2; a relative seek that ends before the start is clamped to it.
\<close>

record mem_stream =
  bs_data :: bytes
  bs_pos :: nat
  bs_closed :: bool
  bs_released :: nat

definition view_open_blob_stream :: "nat \<Rightarrow> mem_view \<Rightarrow> mem_stream res" where
  "view_open_blob_stream oid v =
     (case dict_get (mv_blobs v) oid of
        None \<Rightarrow> Inl DanglingRefError
      | Some b \<Rightarrow> Inr \<lparr>bs_data = bl_data b, bs_pos = 0, bs_closed = False, bs_released = 0\<rparr>)"

definition bytesio_read :: "nat \<Rightarrow> mem_stream \<Rightarrow> (bytes \<times> mem_stream) res" where
  "bytesio_read n s =
     (if bs_closed s then Inl PyValueError
      else let chunk = take n (drop (bs_pos s) (bs_data s))
           in Inr (chunk, s\<lparr>bs_pos := bs_pos s + length chunk\<rparr>))"

definition bytesio_seek :: "int \<Rightarrow> nat \<Rightarrow> mem_stream \<Rightarrow> (nat \<times> mem_stream) res" where
  "bytesio_seek off whence s =
     (if bs_closed s then Inl PyValueError
      else if whence = 0 then
        (if off < 0 then Inl PyValueError else Inr (nat off, s\<lparr>bs_pos := nat off\<rparr>))
      else if whence = 1 then
        (let p = nat (int (bs_pos s) + off) in Inr (p, s\<lparr>bs_pos := p\<rparr>))
      else if whence = 2 then
        (let p = nat (int (length (bs_data s)) + off) in Inr (p, s\<lparr>bs_pos := p\<rparr>))
      else Inl PyValueError)"

definition mem_stream_close :: "mem_stream \<Rightarrow> mem_stream" where
  "mem_stream_close s = s\<lparr>bs_closed := True, bs_released := bs_released s + 1\<rparr>"

section \<open>Facts of the in-memory backend\<close>

lemma get_load_many:
  "dict_get (fold (\<lambda>oid d. case f oid of None \<Rightarrow> d | Some r \<Rightarrow> AList.update oid r d) oids d) k =
     (if k \<in> set oids \<and> f k \<noteq> None then f k else dict_get d k)"
  by (induction oids arbitrary: d) (auto split: option.splits)

lemma mem_load_many_wf: "dict_wf (mem_load_many oids m)"
proof -
  have "dict_wf d \<Longrightarrow> dict_wf (fold (\<lambda>oid d. case dict_get (mb_objects m) oid of None \<Rightarrow> d | Some r \<Rightarrow> AList.update oid r d) oids d)" for d
    by (induction oids arbitrary: d) (auto split: option.split)
  then show ?thesis
    by (simp add: mem_load_many_def)
qed

lemma mem_load_many_get:
  "dict_get (mem_load_many oids m) oid = (if oid \<in> set oids then dict_get (mb_objects m) oid else None)"
  by (simp add: mem_load_many_def get_load_many)

text \<open>The state is well formed when the dicts are, and every record is filed under its own OID.\<close>

definition mem_ok :: "mem_backend \<Rightarrow> bool" where
  "mem_ok m \<longleftrightarrow> dict_wf (mb_meta m) \<and> dict_wf (mb_objects m) \<and> dict_wf (mb_blobs m)
     \<and> (\<forall>(k, r) \<in> set (mb_objects m). sr_oid r = k) \<and> (\<forall>(k, b) \<in> set (mb_blobs m). bl_oid b = k)"

lemma mem_okD:
  assumes "mem_ok m"
  shows "dict_wf (mb_objects m)" "dict_wf (mb_blobs m)" "dict_wf (mb_meta m)"
    "dict_get (mb_objects m) oid = Some r \<Longrightarrow> sr_oid r = oid"
    "dict_get (mb_blobs m) oid = Some b \<Longrightarrow> bl_oid b = oid"
  using assms by (auto simp: mem_ok_def dest: map_of_SomeD)

lemma dict_filed:
  assumes "dict_wf d"
  shows "(\<forall>(k, r) \<in> set d. g r = k) \<longleftrightarrow> (\<forall>k r. dict_get d k = Some r \<longrightarrow> g r = k)"
  using dict_wf_in_set [OF assms] by blast

lemma mem_new_ok: "mem_ok mem_new"
  by (simp add: mem_ok_def mem_new_def dict_wf_def)

lemma mem_scan_set:
  assumes "mem_ok m"
  shows "r \<in> set (mem_scan_type cid m) \<longleftrightarrow> dict_get (mb_objects m) (sr_oid r) = Some r \<and> sr_cid r = cid"
proof -
  have "r \<in> set (map snd (mb_objects m)) \<longleftrightarrow> dict_get (mb_objects m) (sr_oid r) = Some r"
    using mem_okD(4) [OF assms] dict_values_set [OF mem_okD(1) [OF assms], of r] by metis
  then show ?thesis
    unfolding mem_scan_type_def set_sort set_filter by blast
qed

lemma filed_keys:
  "(\<forall>(k, r) \<in> set d. g r = k) \<Longrightarrow> map g (map snd d) = dict_keys d"
  by (induction d) auto

lemma mem_scan_order:
  assumes "mem_ok m"
  shows "sorted (map sr_oid (mem_scan_type cid m))" and "distinct (map sr_oid (mem_scan_type cid m))"
proof -
  show "sorted (map sr_oid (mem_scan_type cid m))"
    by (simp add: mem_scan_type_def)
  have "distinct (map sr_oid (map snd (mb_objects m)))"
    using assms unfolding mem_ok_def dict_wf_def by (metis filed_keys)
  then have "distinct (map sr_oid (filter (\<lambda>r. sr_cid r = cid) (map snd (mb_objects m))))"
    by (rule distinct_map_filter)
  then show "distinct (map sr_oid (mem_scan_type cid m))"
    by (simp add: mem_scan_type_def distinct_map)
qed

lemma fold_meta_get:
  "dict_get (fold (\<lambda>(k, v). AList.update k v) kvs d) k =
     (case last_with fst kvs k of None \<Rightarrow> dict_get d k | Some (_, v) \<Rightarrow> Some v)"
  by (induction kvs rule: rev_induct) (auto split: option.splits)

lemma fold_meta_wf: "dict_wf d \<Longrightarrow> dict_wf (fold (\<lambda>(k, v). AList.update k v) kvs d)"
  by (induction kvs arbitrary: d) auto

lemma materialize_oids:
  "map_res (materialize sha) sbs = Inr st \<Longrightarrow> map bl_oid st = map ss_oid sbs"
  by (induction sbs arbitrary: st)
     (auto simp: materialize_def Let_def split: sum.splits option.splits if_splits)

lemma mem_apply_ok:
  assumes "mem_ok m" and "mem_apply sha b m = (r, m')"
  shows "mem_ok m'"
proof (cases "map_res (materialize sha) (cb_streams b)")
  case (Inl e)
  then show ?thesis using assms by (simp add: mem_apply_def)
next
  case (Inr st)
  note wf = mem_okD [OF assms(1)]
  have m': "m' = m\<lparr>mb_types := mb_types m @ cb_types b,
             mb_objects := dict_pop_all (cb_deletes b)
               (dict_put_all sr_oid (cb_records b) (mb_objects m)),
             mb_blobs := dict_put_all bl_oid st (dict_put_all bl_oid (cb_blobs b) (mb_blobs m)),
             mb_meta := fold (\<lambda>(k, v). AList.update k v) (cb_meta b) (mb_meta m)\<rparr>"
    using assms(2) Inr by (simp add: mem_apply_def)
  have w: "dict_wf (mb_objects m')" "dict_wf (mb_blobs m')" "dict_wf (mb_meta m')"
    using wf(1-3) by (simp_all add: m' fold_meta_wf)
  have "dict_get (mb_objects m') k = Some r \<Longrightarrow> sr_oid r = k" for k r
    using wf(4) by (auto simp: m' dict_simps split: if_splits option.splits dest: last_with_Some)
  moreover have "dict_get (mb_blobs m') k = Some r \<Longrightarrow> bl_oid r = k" for k r
    using wf(5) by (auto simp: m' dict_simps split: if_splits option.splits dest: last_with_Some)
  ultimately show ?thesis
    unfolding mem_ok_def by (simp add: w dict_filed)
qed

section \<open>The contract\<close>

text \<open>
  What a committed batch does to one OID, and a batch whose type rows have ordinary field names.
\<close>

definition batch_effect :: "commit_batch \<Rightarrow> nat \<Rightarrow> stored_record option \<Rightarrow> stored_record option" where
  "batch_effect b oid old =
     (if oid \<in> set (cb_deletes b) then None
      else case last_with sr_oid (cb_records b) oid of None \<Rightarrow> old | Some r \<Rightarrow> Some r)"

definition batch_meta :: "commit_batch \<Rightarrow> string \<Rightarrow> string option \<Rightarrow> string option" where
  "batch_meta b k old =
     (case last_with fst (cb_meta b) k of None \<Rightarrow> old | Some (_, v) \<Rightarrow> Some v)"

definition plain_types :: "type_row list \<Rightarrow> bool" where
  "plain_types ts \<longleftrightarrow> (\<forall>(cid, name, fields) \<in> set ts. \<forall>f \<in> set fields. f \<noteq> [] \<and> char_of (31 :: nat) \<notin> set f)"

definition plain_batch :: "commit_batch \<Rightarrow> bool" where
  "plain_batch b \<longleftrightarrow> plain_types (cb_types b)"

text \<open>A run of commits that stops at the first failure.\<close>

definition run_commits ::
    "(commit_batch \<Rightarrow> 's \<Rightarrow> unit res \<times> 's) \<Rightarrow> commit_batch list \<Rightarrow> 's \<Rightarrow> 's res" where
  "run_commits commit =
     fold_res (\<lambda>b s. case commit b s of (Inl e, _) \<Rightarrow> Inl e | (Inr _, t) \<Rightarrow> Inr t)"

locale storage_backend =
  fixes inv :: "'s \<Rightarrow> bool"
    and find :: "'s \<Rightarrow> nat \<Rightarrow> stored_record option"
    and blob :: "'s \<Rightarrow> nat \<Rightarrow> stored_blob option"
    and meta_at :: "'s \<Rightarrow> string \<Rightarrow> string option"
    and type_set :: "'s \<Rightarrow> type_row set"
    and load_many :: "nat list \<Rightarrow> 's \<Rightarrow> (nat, stored_record) dict res"
    and scan_type :: "nat \<Rightarrow> 's \<Rightarrow> stored_record list res"
    and commit :: "commit_batch \<Rightarrow> 's \<Rightarrow> unit res \<times> 's"
  assumes commit_fails: "inv s \<Longrightarrow> commit b s = (Inl e, t) \<Longrightarrow> t = s"
    and commit_inv: "inv s \<Longrightarrow> plain_batch b \<Longrightarrow> commit b s = (Inr u, t) \<Longrightarrow> inv t"
    and commit_find:
      "inv s \<Longrightarrow> plain_batch b \<Longrightarrow> commit b s = (Inr u, t) \<Longrightarrow> find t oid = batch_effect b oid (find s oid)"
    and commit_meta:
      "inv s \<Longrightarrow> plain_batch b \<Longrightarrow> commit b s = (Inr u, t) \<Longrightarrow> meta_at t k = batch_meta b k (meta_at s k)"
    and commit_types:
      "inv s \<Longrightarrow> plain_batch b \<Longrightarrow> commit b s = (Inr u, t) \<Longrightarrow> type_set t = type_set s \<union> set (cb_types b)"
    and commit_blob:
      "inv s \<Longrightarrow> plain_batch b \<Longrightarrow> commit b s = (Inr u, t) \<Longrightarrow>
         oid \<notin> bl_oid ` set (cb_blobs b) \<Longrightarrow> oid \<notin> ss_oid ` set (cb_streams b) \<Longrightarrow> blob t oid = blob s oid"
    and find_filed: "inv s \<Longrightarrow> find s oid = Some r \<Longrightarrow> sr_oid r = oid"
    and load_many_find:
      "inv s \<Longrightarrow> \<exists>d. load_many oids s = Inr d \<and>
         (\<forall>oid. dict_get d oid = (if oid \<in> set oids then find s oid else None))"
    and load_many_wf: "load_many oids s = Inr d \<Longrightarrow> dict_wf d"
    and scan_type_find:
      "inv s \<Longrightarrow> \<exists>rs. scan_type cid s = Inr rs \<and> sorted (map sr_oid rs) \<and> distinct (map sr_oid rs)
         \<and> (\<forall>r. r \<in> set rs \<longleftrightarrow> find s (sr_oid r) = Some r \<and> sr_cid r = cid)"
begin

lemma run_inv_find:
  assumes "run_commits commit bs s = Inr t" and "inv s" and "\<forall>b \<in> set bs. plain_batch b"
  shows "inv t \<and> find t oid = fold (\<lambda>b. batch_effect b oid) bs (find s oid)
    \<and> meta_at t k = fold (\<lambda>b. batch_meta b k) bs (meta_at s k)
    \<and> type_set t = type_set s \<union> (\<Union>b \<in> set bs. set (cb_types b))"
  using assms
proof (induction bs arbitrary: s)
  case Nil
  then show ?case by (simp add: run_commits_def)
next
  case (Cons b bs)
  obtain u where u: "commit b s = (Inr (), u)" "run_commits commit bs u = Inr t"
    using Cons.prems(1) by (auto simp: run_commits_def split: prod.splits sum.splits)
  have pl: "plain_batch b" and pls: "\<forall>b \<in> set bs. plain_batch b"
    using Cons.prems(3) by auto
  note step = commit_inv [OF Cons.prems(2) pl u(1)] commit_find [OF Cons.prems(2) pl u(1)]
    commit_meta [OF Cons.prems(2) pl u(1)] commit_types [OF Cons.prems(2) pl u(1)]
  show ?case
    using Cons.IH [OF u(2) step(1) pls] step by auto
qed

text \<open>An OID no batch of the run names is untouched, whatever else the run did.\<close>

lemma run_frame:
  assumes "run_commits commit bs s = Inr t" and "inv s" and "\<forall>b \<in> set bs. plain_batch b"
    and "\<forall>b \<in> set bs. oid \<notin> set (cb_deletes b) \<and> oid \<notin> sr_oid ` set (cb_records b)"
  shows "find t oid = find s oid"
proof -
  have "fold (\<lambda>b. batch_effect b oid) bs x = x" for x
    using assms(4)
  proof (induction bs arbitrary: x)
    case Nil
    then show ?case by simp
  next
    case (Cons b bs)
    have "last_with sr_oid (cb_records b) oid = None"
      using Cons.prems by (simp add: last_with_None)
    then have "batch_effect b oid x = x"
      using Cons.prems by (simp add: batch_effect_def)
    then show ?case
      using Cons by simp
  qed
  then show ?thesis
    using run_inv_find [OF assms(1-3)] by metis
qed

lemma scan_commit:
  assumes "inv s" and "plain_batch b" and "commit b s = (Inr u, t)"
    and "scan_type cid t = Inr rs"
  shows "r \<in> set rs \<longleftrightarrow> sr_cid r = cid \<and> batch_effect b (sr_oid r) (find s (sr_oid r)) = Some r"
  using scan_type_find [OF commit_inv [OF assms(1-3)], of cid] assms(4)
    commit_find [OF assms(1-3), of "sr_oid r"] by auto

end

interpretation mem: storage_backend mem_ok "\<lambda>m. dict_get (mb_objects m)" "\<lambda>m. dict_get (mb_blobs m)"
  "\<lambda>m. dict_get (mb_meta m)" "\<lambda>m. set (mb_types m)"
  "\<lambda>oids m. Inr (mem_load_many oids m)" "\<lambda>cid m. Inr (mem_scan_type cid m)" "mem_apply sha"
  for sha
proof
  fix s b t e u oid k
  show "mem_apply sha b s = (Inl e, t) \<Longrightarrow> t = s"
    by (auto simp: mem_apply_def split: sum.splits)
  show "mem_ok s \<Longrightarrow> mem_apply sha b s = (Inr u, t) \<Longrightarrow> mem_ok t"
    by (rule mem_apply_ok)
  show "mem_apply sha b s = (Inr u, t) \<Longrightarrow>
      dict_get (mb_objects t) oid = batch_effect b oid (dict_get (mb_objects s) oid)"
    by (auto simp: mem_apply_def batch_effect_def dict_simps split: sum.splits)
  show "mem_apply sha b s = (Inr u, t) \<Longrightarrow>
      dict_get (mb_meta t) k = batch_meta b k (dict_get (mb_meta s) k)"
    by (auto simp: mem_apply_def batch_meta_def fold_meta_get split: sum.splits)
  show "mem_apply sha b s = (Inr u, t) \<Longrightarrow> set (mb_types t) = set (mb_types s) \<union> set (cb_types b)"
    by (auto simp: mem_apply_def split: sum.splits)
next
  fix s b t u oid
  assume a: "mem_apply sha b s = (Inr u, t)" and n: "oid \<notin> bl_oid ` set (cb_blobs b)"
    "oid \<notin> ss_oid ` set (cb_streams b)"
  then obtain st where st: "map_res (materialize sha) (cb_streams b) = Inr st"
    and t: "mb_blobs t = dict_put_all bl_oid st (dict_put_all bl_oid (cb_blobs b) (mb_blobs s))"
    by (auto simp: mem_apply_def split: sum.splits)
  have "bl_oid ` set st = ss_oid ` set (cb_streams b)"
    using materialize_oids [OF st] by (metis set_map)
  then have "last_with bl_oid st oid = None" "last_with bl_oid (cb_blobs b) oid = None"
    using n by (simp_all add: last_with_None)
  then show "dict_get (mb_blobs t) oid = dict_get (mb_blobs s) oid"
    by (simp add: t dict_simps)
next
  fix s oid r
  show "mem_ok s \<Longrightarrow> dict_get (mb_objects s) oid = Some r \<Longrightarrow> sr_oid r = oid"
    by (rule mem_okD(4))
next
  fix s oids cid
  show "\<exists>d. Inr (mem_load_many oids s) = (Inr d :: (nat, stored_record) dict res) \<and>
      (\<forall>oid. dict_get d oid = (if oid \<in> set oids then dict_get (mb_objects s) oid else None))"
    by (simp add: mem_load_many_get)
  show "Inr (mem_load_many oids s) = (Inr d :: (nat, stored_record) dict res) \<Longrightarrow> dict_wf d" for d
    using mem_load_many_wf by auto
  show "mem_ok s \<Longrightarrow> \<exists>rs. Inr (mem_scan_type cid s) = (Inr rs :: stored_record list res) \<and> sorted (map sr_oid rs) \<and>
      distinct (map sr_oid rs) \<and>
      (\<forall>r. r \<in> set rs \<longleftrightarrow> dict_get (mb_objects s) (sr_oid r) = Some r \<and> sr_cid r = cid)"
    using mem_scan_set mem_scan_order by auto
qed

end
