(* ===== verification/Sqlite.thy ===== *)
theory Sqlite
  imports Storage Records
begin

text \<open>
  The durable backend, \<open>_storage/sqlite.py\<close>, over a model of its four tables.

  \<^item> A table is a dict from its primary key to the row's other columns. The connection, WAL and the
    durability pragmas are SQLite's and are not modelled; \<open>BEGIN IMMEDIATE\<close> \<open>..\<close> \<open>COMMIT\<close> or
    \<open>ROLLBACK\<close> is \<open>transaction\<close>. \<open>db_unique_names\<close> tells whether the \<open>types\<close> table still has the
    legacy \<open>UNIQUE(name)\<close>. Integers are assumed to fit SQLite's 64 bits.
  \<^item> \<open>sq_*\<close> are the module's functions and the methods of \<open>SqliteBackend\<close>; \<open>SqliteReadView\<close>
    runs the same functions on its own snapshot of the tables.
  \<^item> \<open>sq\<close> interprets the protocol's contract; \<open>sq_simulates_mem\<close> shows the backend and the
    in-memory fake the tests run on to be observably the same.
\<close>

record object_row =
  or_cid :: nat
  or_tid :: nat
  or_payload :: bytes
  or_crc :: nat

record blob_row =
  br_tid :: nat
  br_size :: nat
  br_hash :: bytes
  br_crc :: nat
  br_data :: bytes

record sqlite_db =
  db_meta :: "(string, string) dict"
  db_types :: "(nat, string \<times> string) dict"
  db_unique_names :: bool
  db_objects :: "(nat, object_row) dict"
  db_blobs :: "(nat, blob_row) dict"

definition LOAD_CHUNK :: nat where "LOAD_CHUNK = 500"

abbreviation unit_sep :: char where "unit_sep \<equiv> char_of (31 :: nat)"

section \<open>Reads\<close>

definition check_crc :: "bytes \<Rightarrow> nat \<Rightarrow> unit res" where
  "check_crc payload stored_crc =
     (if crc payload \<noteq> stored_crc then Inl CorruptRecordError else Inr ())"

definition row_record :: "nat \<Rightarrow> object_row \<Rightarrow> stored_record" where
  "row_record oid r =
     \<lparr>sr_oid = oid, sr_cid = or_cid r, sr_tid = or_tid r, sr_payload = or_payload r\<rparr>"

definition load_rows ::
    "(nat \<times> object_row) list \<Rightarrow> (nat, stored_record) dict \<Rightarrow> (nat, stored_record) dict res" where
  "load_rows =
     fold_res (\<lambda>(oid, r) out. bind_res (check_crc (or_payload r) (or_crc r))
       (\<lambda>_. Inr (AList.update oid (row_record oid r) out)))"

definition chunk_starts :: "nat \<Rightarrow> nat list" where
  "chunk_starts n = map (\<lambda>i. i * LOAD_CHUNK) [0..<(n + LOAD_CHUNK - 1) div LOAD_CHUNK]"

definition sq_load_many :: "nat list \<Rightarrow> sqlite_db \<Rightarrow> (nat, stored_record) dict res" where
  "sq_load_many oids db =
     fold_res
       (\<lambda>start out.
          let chunk = take LOAD_CHUNK (drop start oids)
          in load_rows (filter (\<lambda>(oid, r). oid \<in> set chunk) (db_objects db)) out)
       (chunk_starts (length oids)) []"

definition sq_scan_type :: "nat \<Rightarrow> sqlite_db \<Rightarrow> stored_record list res" where
  "sq_scan_type cid db =
     map_res
       (\<lambda>(oid, r). bind_res (check_crc (or_payload r) (or_crc r)) (\<lambda>_. Inr (row_record oid r)))
       (sort_key fst (filter (\<lambda>(oid, r). or_cid r = cid) (db_objects db)))"

definition sq_load_blob :: "nat \<Rightarrow> sqlite_db \<Rightarrow> stored_blob option res" where
  "sq_load_blob oid db =
     (case dict_get (db_blobs db) oid of
        None \<Rightarrow> Inr None
      | Some r \<Rightarrow>
          if crc (br_data r) \<noteq> br_crc r then Inl CorruptRecordError
          else Inr (Some \<lparr>bl_oid = oid, bl_tid = br_tid r, bl_size = br_size r,
                          bl_hash = br_hash r, bl_data = br_data r\<rparr>))"

definition type_row_of :: "nat \<times> string \<times> string \<Rightarrow> type_row" where
  "type_row_of row =
     (case row of (cid, name, joined) \<Rightarrow>
        (cid, name, if joined \<noteq> [] then split_on unit_sep joined else []))"

definition read_meta_and_types :: "sqlite_db \<Rightarrow> boot_info" where
  "read_meta_and_types db =
     \<lparr>bi_meta = db_meta db, bi_types = map type_row_of (sort_key fst (db_types db))\<rparr>"

section \<open>Boot\<close>

definition transaction :: "('d \<Rightarrow> 'd res) \<Rightarrow> 'd \<Rightarrow> unit res \<times> 'd" where
  "transaction body db = (case body db of Inl e \<Rightarrow> (Inl e, db) | Inr db' \<Rightarrow> (Inr (), db'))"

definition drop_types_unique_constraint :: "sqlite_db \<Rightarrow> sqlite_db" where
  "drop_types_unique_constraint db =
     (if db_unique_names db then db\<lparr>db_unique_names := False\<rparr> else db)"

definition sq_boot :: "sqlite_db \<Rightarrow> boot_info res \<times> sqlite_db" where
  "sq_boot db =
     (let db1 = drop_types_unique_constraint db in
      case dict_get (db_meta db1) ''format_version'' of
        None \<Rightarrow>
          (let db2 = db1\<lparr>db_meta := AList.update ''format_version'' (str_of_nat FORMAT_VERSION) (db_meta db1)\<rparr>
           in (Inr (read_meta_and_types db2), db2))
      | Some v \<Rightarrow>
          (case int_of_text v of
             Inl e \<Rightarrow> (Inl e, db1)
           | Inr stored_version \<Rightarrow>
               if stored_version > int FORMAT_VERSION then (Inl NewerStoreError, db1)
               else (Inr (read_meta_and_types db1), db1)))"

section \<open>Writes\<close>

definition insert_type :: "type_row \<Rightarrow> sqlite_db \<Rightarrow> sqlite_db res" where
  "insert_type row db =
     (case row of (cid, name, fs) \<Rightarrow>
        if cid \<in> set (dict_keys (db_types db)) then Inl SqliteIntegrityError
        else if db_unique_names db \<and> name \<in> set (map (fst \<circ> snd) (db_types db))
        then Inl SqliteIntegrityError
        else Inr (db\<lparr>db_types := db_types db @ [(cid, name, join_with unit_sep fs)]\<rparr>))"

definition put_object :: "stored_record \<Rightarrow> sqlite_db \<Rightarrow> sqlite_db" where
  "put_object r db =
     db\<lparr>db_objects := AList.update (sr_oid r)
          \<lparr>or_cid = sr_cid r, or_tid = sr_tid r, or_payload = sr_payload r,
           or_crc = crc (sr_payload r)\<rparr> (db_objects db)\<rparr>"

definition put_blob :: "stored_blob \<Rightarrow> sqlite_db \<Rightarrow> sqlite_db" where
  "put_blob b db =
     db\<lparr>db_blobs := AList.update (bl_oid b)
          \<lparr>br_tid = bl_tid b, br_size = bl_size b, br_hash = bl_hash b,
           br_crc = crc (bl_data b), br_data = bl_data b\<rparr> (db_blobs db)\<rparr>"

text \<open>
  The fill loop of one streamed blob: \<open>cell\<close> is the zeroed cell, written in place from the front;
  the state is the cell, the bytes hashed so far, the count and the running checksum.
\<close>

fun fill_chunks ::
    "nat \<Rightarrow> bytes list \<Rightarrow> bytes \<times> bytes \<times> nat \<times> 32 word \<Rightarrow> (bytes \<times> bytes \<times> nat \<times> 32 word) res" where
  "fill_chunks sz [] st = Inr st"
| "fill_chunks sz (chunk # chunks) (cell, hashed, written, running) =
     (if written + length chunk > sz then Inl PyValueError
      else fill_chunks sz chunks
        (take written cell @ chunk @ drop (written + length chunk) cell,
         hashed @ chunk, written + length chunk, crc32 chunk running))"

definition fill_stream :: "(bytes \<Rightarrow> bytes) \<Rightarrow> streamed_blob \<Rightarrow> sqlite_db \<Rightarrow> sqlite_db res" where
  "fill_stream sha sb db =
     bind_res (fill_chunks (ss_size sb) (ss_chunks sb) (replicate (ss_size sb) 0, [], 0, 0))
       (\<lambda>(cell, hashed, written, running).
          case ss_fault sb of Some e \<Rightarrow> Inl e
          | None \<Rightarrow>
              if written \<noteq> ss_size sb then Inl PyValueError
              else if sha hashed \<noteq> ss_hash sb then Inl PyValueError
              else Inr (db\<lparr>db_blobs := AList.update (ss_oid sb)
                     \<lparr>br_tid = ss_tid sb, br_size = ss_size sb, br_hash = ss_hash sb,
                      br_crc = unat running, br_data = cell\<rparr> (db_blobs db)\<rparr>))"

definition delete_object :: "nat \<Rightarrow> sqlite_db \<Rightarrow> sqlite_db" where
  "delete_object oid db = db\<lparr>db_objects := AList.delete oid (db_objects db)\<rparr>"

definition sq_apply_body :: "(bytes \<Rightarrow> bytes) \<Rightarrow> commit_batch \<Rightarrow> sqlite_db \<Rightarrow> sqlite_db res" where
  "sq_apply_body sha b db =
     bind_res (fold_res insert_type (cb_types b) db) (\<lambda>db1.
     let db2 = fold put_object (cb_records b) db1;
         db3 = fold put_blob (cb_blobs b) db2
     in bind_res (fold_res (fill_stream sha) (cb_streams b) db3) (\<lambda>db4.
     let db5 = fold delete_object (cb_deletes b) db4
     in Inr (db5\<lparr>db_meta := fold (\<lambda>(k, v). AList.update k v) (cb_meta b) (db_meta db5)\<rparr>)))"

definition sq_apply :: "(bytes \<Rightarrow> bytes) \<Rightarrow> commit_batch \<Rightarrow> sqlite_db \<Rightarrow> unit res \<times> sqlite_db" where
  "sq_apply sha b = transaction (sq_apply_body sha b)"

section \<open>The blob reader\<close>

text \<open>
  \<open>_SqliteBlobReader\<close> over a \<open>sqlite3.Blob\<close>: the cell, its cursor and whether the connection behind
  it is still open, the bytes the logical cursor sits past the end, and the release count.
\<close>

record blob_reader =
  rd_data :: bytes
  rd_pos :: nat
  rd_conn_open :: bool
  rd_overshoot :: nat
  rd_closed :: bool
  rd_released :: nat

definition sq_open_blob_stream :: "nat \<Rightarrow> sqlite_db \<Rightarrow> blob_reader res" where
  "sq_open_blob_stream oid db =
     (case dict_get (db_blobs db) oid of
        None \<Rightarrow> Inl DanglingRefError
      | Some r \<Rightarrow> Inr \<lparr>rd_data = br_data r, rd_pos = 0, rd_conn_open = True, rd_overshoot = 0,
                      rd_closed = False, rd_released = 0\<rparr>)"

definition reader_readinto :: "nat \<Rightarrow> blob_reader \<Rightarrow> (bytes \<times> blob_reader) res" where
  "reader_readinto n r =
     (if rd_overshoot r > 0 then Inr ([], r)
      else if \<not> rd_conn_open r then Inl StoreClosedError
      else let chunk = take n (drop (rd_pos r) (rd_data r))
           in Inr (chunk, r\<lparr>rd_pos := rd_pos r + length chunk\<rparr>))"

definition reader_tell :: "blob_reader \<Rightarrow> nat res" where
  "reader_tell r =
     (if \<not> rd_conn_open r then Inl StoreClosedError else Inr (rd_pos r + rd_overshoot r))"

definition reader_seek :: "int \<Rightarrow> nat \<Rightarrow> blob_reader \<Rightarrow> (nat \<times> blob_reader) res" where
  "reader_seek off whence r =
     bind_res
       (if whence = 0 then Inr off
        else if whence = 1 then bind_res (reader_tell r) (\<lambda>p. Inr (int p + off))
        else if whence = 2 then Inr (int (length (rd_data r)) + off)
        else Inl PyValueError)
       (\<lambda>target.
          if target < 0 then Inl PyValueError
          else if \<not> rd_conn_open r then Inl StoreClosedError
          else if target > int (length (rd_data r)) then
            Inr (nat target, r\<lparr>rd_pos := length (rd_data r),
                               rd_overshoot := nat target - length (rd_data r)\<rparr>)
          else Inr (nat target, r\<lparr>rd_pos := nat target, rd_overshoot := 0\<rparr>))"

definition reader_close :: "blob_reader \<Rightarrow> blob_reader" where
  "reader_close r =
     (if rd_closed r then r else r\<lparr>rd_closed := True, rd_released := rd_released r + 1\<rparr>)"

section \<open>Invariant and reads\<close>

definition row_crc_ok :: "object_row \<Rightarrow> bool" where
  "row_crc_ok r \<longleftrightarrow> or_crc r = crc (or_payload r)"

definition blob_crc_ok :: "blob_row \<Rightarrow> bool" where
  "blob_crc_ok r \<longleftrightarrow> br_crc r = crc (br_data r)"

definition db_ok :: "sqlite_db \<Rightarrow> bool" where
  "db_ok db \<longleftrightarrow> dict_wf (db_meta db) \<and> dict_wf (db_types db) \<and> dict_wf (db_objects db) \<and> dict_wf (db_blobs db)
     \<and> (\<forall>oid r. dict_get (db_objects db) oid = Some r \<longrightarrow> row_crc_ok r)
     \<and> (\<forall>oid r. dict_get (db_blobs db) oid = Some r \<longrightarrow> blob_crc_ok r)"

definition sq_find :: "sqlite_db \<Rightarrow> nat \<Rightarrow> stored_record option" where
  "sq_find db oid = map_option (row_record oid) (dict_get (db_objects db) oid)"

definition row_blob :: "nat \<Rightarrow> blob_row \<Rightarrow> stored_blob" where
  "row_blob oid r = \<lparr>bl_oid = oid, bl_tid = br_tid r, bl_size = br_size r, bl_hash = br_hash r, bl_data = br_data r\<rparr>"

definition sq_blob :: "sqlite_db \<Rightarrow> nat \<Rightarrow> stored_blob option" where
  "sq_blob db oid = map_option (row_blob oid) (dict_get (db_blobs db) oid)"

definition sq_types :: "sqlite_db \<Rightarrow> type_row set" where
  "sq_types db = type_row_of ` set (db_types db)"

lemma db_okD:
  assumes "db_ok db"
  shows "dict_wf (db_meta db)" "dict_wf (db_types db)" "dict_wf (db_objects db)" "dict_wf (db_blobs db)"
    "dict_get (db_objects db) oid = Some r \<Longrightarrow> or_crc r = crc (or_payload r)"
    "dict_get (db_blobs db) oid = Some br \<Longrightarrow> br_crc br = crc (br_data br)"
  using assms by (auto simp: db_ok_def row_crc_ok_def blob_crc_ok_def)

lemma check_crc_ok [simp]: "check_crc p (crc p) = Inr ()"
  by (simp add: check_crc_def)

lemma row_record_simps [simp]: "sr_oid (row_record oid r) = oid" "sr_cid (row_record oid r) = or_cid r"
  by (simp_all add: row_record_def)

lemma load_rows_ok:
  assumes "\<forall>(oid, r) \<in> set rows. or_crc r = crc (or_payload r)"
  shows "load_rows rows out = Inr (fold (\<lambda>(oid, r). AList.update oid (row_record oid r)) rows out)"
  using assms
proof (induction rows arbitrary: out)
  case Nil
  then show ?case by (simp add: load_rows_def)
next
  case (Cons x rows)
  obtain oid r where x: "x = (oid, r)"
    by (cases x)
  then show ?case
    using Cons by (simp add: load_rows_def)
qed

lemma get_fold_rows:
  "distinct (map fst rows) \<Longrightarrow>
   dict_get (fold (\<lambda>(oid, r). AList.update oid (row_record oid r)) rows out) k =
     (case dict_get rows k of Some r \<Rightarrow> Some (row_record k r) | None \<Rightarrow> dict_get out k)"
proof (induction rows arbitrary: out)
  case Nil
  then show ?case by simp
next
  case (Cons x rows)
  obtain a b where x: "x = (a, b)"
    by (cases x)
  then have "dict_get rows a = None"
    using Cons.prems by (simp add: map_of_eq_None_iff)
  then show ?case
    using Cons.IH [of "AList.update a (row_record a b) out"] Cons.prems
    by (simp add: x split: option.split)
qed

lemma get_filter_rows:
  "dict_wf d \<Longrightarrow> dict_get (filter (\<lambda>(oid, r). oid \<in> S) d) k = (if k \<in> S then dict_get d k else None)"
  by (induction d) (auto simp: dict_wf_def map_of_eq_None_iff)

lemma chunk_starts_cover:
  assumes "i < n"
  shows "i div LOAD_CHUNK * LOAD_CHUNK \<in> set (chunk_starts n)"
proof -
  have "i div LOAD_CHUNK < (n + LOAD_CHUNK - 1) div LOAD_CHUNK"
    using assms by (simp add: LOAD_CHUNK_def)
  then show ?thesis
    unfolding chunk_starts_def set_map set_upt by (intro imageI) simp
qed

lemma chunks_set:
  "(\<Union>start \<in> set (chunk_starts (length oids)). set (take LOAD_CHUNK (drop start oids))) = set oids"
proof
  show "(\<Union>start \<in> set (chunk_starts (length oids)). set (take LOAD_CHUNK (drop start oids))) \<subseteq> set oids"
    by (auto dest!: in_set_takeD in_set_dropD)
  show "set oids \<subseteq> (\<Union>start \<in> set (chunk_starts (length oids)). set (take LOAD_CHUNK (drop start oids)))"
  proof
    fix x
    assume "x \<in> set oids"
    then obtain i where i: "i < length oids" "x = oids ! i"
      by (auto simp: in_set_conv_nth)
    define s where "s = i div LOAD_CHUNK * LOAD_CHUNK"
    have s: "s \<le> i" "i - s < LOAD_CHUNK"
      by (simp_all add: s_def LOAD_CHUNK_def minus_div_mult_eq_mod)
    have "take LOAD_CHUNK (drop s oids) ! (i - s) = x" "i - s < length (take LOAD_CHUNK (drop s oids))"
      using i s by simp_all
    then have "x \<in> set (take LOAD_CHUNK (drop s oids))"
      by (metis nth_mem)
    then show "x \<in> (\<Union>start \<in> set (chunk_starts (length oids)). set (take LOAD_CHUNK (drop start oids)))"
      using chunk_starts_cover [OF i(1)] by (auto simp: s_def)
  qed
qed

lemma sq_load_chunks:
  assumes "db_ok db"
  shows "\<exists>d. fold_res (\<lambda>start out.
          let chunk = take LOAD_CHUNK (drop start oids)
          in load_rows (filter (\<lambda>(oid, r). oid \<in> set chunk) (db_objects db)) out) starts out = Inr d \<and>
      (\<forall>k. dict_get d k =
         (if k \<in> (\<Union>start \<in> set starts. set (take LOAD_CHUNK (drop start oids))) \<and> sq_find db k \<noteq> None
          then sq_find db k else dict_get out k))"
proof (induction starts arbitrary: out)
  case Nil
  then show ?case by simp
next
  case (Cons st starts)
  define S where "S = set (take LOAD_CHUNK (drop st oids))"
  define rows where "rows = filter (\<lambda>(oid, r). oid \<in> S) (db_objects db)"
  define out' where "out' = fold (\<lambda>(oid, r). AList.update oid (row_record oid r)) rows out"
  have wf: "dict_wf (db_objects db)"
    by (rule db_okD(3) [OF assms])
  have "or_crc r = crc (or_payload r)" if "(oid, r) \<in> set rows" for oid r
    using that db_okD(5) [OF assms, of oid r] dict_wf_in_set [OF wf] by (auto simp: rows_def)
  then have load: "load_rows rows out = Inr out'"
    unfolding out'_def by (intro load_rows_ok) auto
  have "distinct (map fst rows)"
    using wf unfolding rows_def dict_wf_def by (rule distinct_map_filter)
  then have out': "dict_get out' k = (if k \<in> S \<and> sq_find db k \<noteq> None then sq_find db k else dict_get out k)" for k
    unfolding out'_def by (auto simp: get_fold_rows rows_def get_filter_rows [OF wf] sq_find_def split: option.splits)
  obtain d where d: "fold_res (\<lambda>start out.
          let chunk = take LOAD_CHUNK (drop start oids)
          in load_rows (filter (\<lambda>(oid, r). oid \<in> set chunk) (db_objects db)) out) starts out' = Inr d"
      "\<forall>k. dict_get d k =
         (if k \<in> (\<Union>start \<in> set starts. set (take LOAD_CHUNK (drop start oids))) \<and> sq_find db k \<noteq> None
          then sq_find db k else dict_get out' k)"
    using Cons.IH [of out'] by blast
  show ?case
    using d load out' by (intro exI [of _ d]) (simp add: rows_def S_def)
qed

lemma sq_load_many_find:
  assumes "db_ok db"
  shows "\<exists>d. sq_load_many oids db = Inr d \<and>
    (\<forall>oid. dict_get d oid = (if oid \<in> set oids then sq_find db oid else None))"
  using sq_load_chunks [OF assms, of oids "chunk_starts (length oids)" "[]"]
  unfolding sq_load_many_def chunks_set by auto

lemma load_rows_wf: "load_rows rows out = Inr d \<Longrightarrow> dict_wf out \<Longrightarrow> dict_wf d"
  by (induction rows arbitrary: out) (auto simp: load_rows_def bind_res_Inr split: sum.splits)

lemma sq_load_many_wf:
  assumes "sq_load_many oids db = Inr d"
  shows "dict_wf d"
proof -
  have "fold_res (\<lambda>start out. load_rows (filter (\<lambda>(oid, r). oid \<in> set (take LOAD_CHUNK (drop start oids))) (db_objects db)) out) starts out = Inr d \<Longrightarrow>
      dict_wf out \<Longrightarrow> dict_wf d" for starts out
    by (induction starts arbitrary: out) (auto split: sum.splits dest: load_rows_wf)
  then show ?thesis
    using assms by (simp add: sq_load_many_def)
qed

lemma sq_load_blob_find:
  assumes "db_ok db"
  shows "sq_load_blob oid db = Inr (sq_blob db oid)"
  using db_okD(6) [OF assms] by (auto simp: sq_load_blob_def sq_blob_def row_blob_def split: option.splits)

lemma sq_scan_rows:
  assumes "db_ok db"
  shows "sq_scan_type cid db =
    Inr (map (\<lambda>(oid, r). row_record oid r) (sort_key fst (filter (\<lambda>(oid, r). or_cid r = cid) (db_objects db))))"
proof -
  have "bind_res (check_crc (or_payload (snd x)) (or_crc (snd x))) (\<lambda>_. Inr (row_record (fst x) (snd x)))
      = Inr (row_record (fst x) (snd x))" if "x \<in> set (db_objects db)" for x
    using db_okD(5) [OF assms, of "fst x" "snd x"] dict_wf_in_set [OF db_okD(3) [OF assms], of "fst x" "snd x"] that
    by simp
  then show ?thesis
    unfolding sq_scan_type_def by (intro map_res_total) (auto simp: case_prod_beta)
qed

lemma sq_scan_find:
  assumes "db_ok db"
  shows "\<exists>rs. sq_scan_type cid db = Inr rs \<and> sorted (map sr_oid rs) \<and> distinct (map sr_oid rs)
    \<and> (\<forall>r. r \<in> set rs \<longleftrightarrow> sq_find db (sr_oid r) = Some r \<and> sr_cid r = cid)"
proof -
  define rows where "rows = sort_key fst (filter (\<lambda>(oid, r). or_cid r = cid) (db_objects db))"
  define rs where "rs = map (\<lambda>(oid, r). row_record oid r) rows"
  have m: "map sr_oid rs = map fst rows"
    by (simp add: rs_def o_def case_prod_beta)
  have "distinct (map fst (filter (\<lambda>(oid, r). or_cid r = cid) (db_objects db)))"
    using db_okD(3) [OF assms] unfolding dict_wf_def by (rule distinct_map_filter)
  then have "distinct (map fst rows)"
    by (simp add: rows_def distinct_map)
  moreover have "sorted (map fst rows)"
    by (simp add: rows_def)
  moreover have "r \<in> set rs \<longleftrightarrow> sq_find db (sr_oid r) = Some r \<and> sr_cid r = cid" for r
  proof
    assume "r \<in> set rs"
    then obtain oid row where x: "(oid, row) \<in> set (db_objects db)" "or_cid row = cid" "r = row_record oid row"
      by (auto simp: rs_def rows_def)
    then show "sq_find db (sr_oid r) = Some r \<and> sr_cid r = cid"
      using dict_wf_in_set [OF db_okD(3) [OF assms], of oid row] by (simp add: sq_find_def)
  next
    assume a: "sq_find db (sr_oid r) = Some r \<and> sr_cid r = cid"
    then obtain row where "dict_get (db_objects db) (sr_oid r) = Some row" and r: "r = row_record (sr_oid r) row"
      by (auto simp: sq_find_def)
    then have "(sr_oid r, row) \<in> set (db_objects db)"
      using dict_wf_in_set [OF db_okD(3) [OF assms]] by blast
    moreover have "or_cid row = cid"
      using a r by (metis row_record_simps(2))
    ultimately have "(sr_oid r, row) \<in> set rows"
      by (simp add: rows_def)
    then show "r \<in> set rs"
      unfolding rs_def set_map using r by (intro rev_image_eqI [of "(sr_oid r, row)"]) auto
  qed
  ultimately show ?thesis
    using sq_scan_rows [OF assms, of cid, folded rows_def, folded rs_def] by (intro exI [of _ rs]) (simp only: m simp_thms)
qed

section \<open>Applying a batch\<close>

lemma fill_chunks_Inr:
  "fill_chunks sz chunks (cell, hashed, length hashed, running) = Inr r \<Longrightarrow>
     length cell = sz \<Longrightarrow> length hashed \<le> sz \<Longrightarrow> take (length hashed) cell = hashed \<Longrightarrow>
     (\<exists>cell'. r = (cell', hashed @ concat chunks, length hashed + length (concat chunks),
                 crc32 (concat chunks) running)
       \<and> length cell' = sz \<and> length hashed + length (concat chunks) \<le> sz
       \<and> take (length hashed + length (concat chunks)) cell' = hashed @ concat chunks)"
proof (induction chunks arbitrary: cell hashed running)
  case Nil
  then show ?case by (auto simp: crc32_def)
next
  case (Cons c cs)
  have le: "length hashed + length c \<le> sz"
    using Cons.prems(1) by (auto split: if_splits)
  have run: "fill_chunks sz cs (take (length hashed) cell @ c @ drop (length hashed + length c) cell,
      hashed @ c, length (hashed @ c), crc32 c running) = Inr r"
    using Cons.prems(1) le by simp
  have "take (length (hashed @ c)) (take (length hashed) cell @ c @ drop (length hashed + length c) cell) = hashed @ c"
    using Cons.prems(2-4) le by simp
  then show ?case
    using Cons.IH [OF run] Cons.prems(2) le by (auto simp: crc32_append add.assoc)
qed

lemma fill_chunks_Inl:
  "fill_chunks sz chunks (cell, hashed, written, running) = Inl e \<Longrightarrow>
     written \<le> sz \<Longrightarrow> sz < written + length (concat chunks)"
proof (induction chunks arbitrary: cell hashed written running)
  case Nil
  then show ?case by simp
next
  case (Cons c cs)
  show ?case
  proof (cases "written + length c > sz")
    case True
    then show ?thesis by simp
  next
    case False
    then have "fill_chunks sz cs (take written cell @ c @ drop (written + length c) cell,
        hashed @ c, written + length c, crc32 c running) = Inl e"
      using Cons.prems(1) by simp
    from Cons.IH [OF this] show ?thesis
      using False by simp
  qed
qed

text \<open>The in-place fill stores exactly what the fake materializes, checksum included.\<close>

lemma fill_stream_materialize:
  "fill_stream sha sb db = Inr db' \<longleftrightarrow> (\<exists>b. materialize sha sb = Inr b \<and> db' = put_blob b db)"
proof (cases "fill_chunks (ss_size sb) (ss_chunks sb) (replicate (ss_size sb) 0, [], 0, 0)")
  case (Inl e)
  then have "ss_size sb < length (concat (ss_chunks sb))"
    using fill_chunks_Inl [of "ss_size sb" "ss_chunks sb" _ _ 0 0 e] by simp
  then show ?thesis
    using Inl by (auto simp: fill_stream_def materialize_def Let_def split: option.splits)
next
  case (Inr r)
  obtain cell' where r: "r = (cell', concat (ss_chunks sb), length (concat (ss_chunks sb)),
                 crc32 (concat (ss_chunks sb)) 0)"
    and len: "length cell' = ss_size sb"
    and cell: "take (length (concat (ss_chunks sb))) cell' = concat (ss_chunks sb)"
    using fill_chunks_Inr [of "ss_size sb" "ss_chunks sb" "replicate (ss_size sb) 0" "[]" 0 r] Inr by auto
  have c: "cell' = concat (ss_chunks sb)" if "length (concat (ss_chunks sb)) = ss_size sb"
    using cell len that by simp
  show ?thesis
  proof (cases "ss_fault sb = None \<and> length (concat (ss_chunks sb)) = ss_size sb
      \<and> sha (concat (ss_chunks sb)) = ss_hash sb")
    case True
    then show ?thesis
      using Inr r c by (auto simp: fill_stream_def materialize_def put_blob_def crc_def Let_def)
  next
    case False
    then show ?thesis
      using Inr r by (auto simp: fill_stream_def materialize_def Let_def split: option.splits)
  qed
qed

lemma fill_stream_Inr_mat:
  "materialize sha sb = Inr b \<Longrightarrow> fill_stream sha sb db = Inr (put_blob b db)"
  using fill_stream_materialize by blast

lemma fill_streams:
  "fold_res (fill_stream sha) sbs db = Inr db' \<longleftrightarrow>
     (\<exists>bs. map_res (materialize sha) sbs = Inr bs \<and> db' = fold put_blob bs db)"
proof (induction sbs arbitrary: db)
  case Nil
  then show ?case by auto
next
  case (Cons sb sbs)
  show ?case
  proof (cases "materialize sha sb")
    case (Inl e)
    then have "\<nexists>d. fill_stream sha sb db = Inr d"
      by (simp add: fill_stream_materialize)
    then obtain e' where "fill_stream sha sb db = Inl e'"
      by (cases "fill_stream sha sb db") auto
    then show ?thesis
      using Inl by simp
  next
    case (Inr b)
    then show ?thesis
      using Cons.IH [of "put_blob b db"] by (auto simp: fill_stream_Inr_mat split: sum.splits)
  qed
qed

definition object_of :: "stored_record \<Rightarrow> object_row" where
  "object_of r = \<lparr>or_cid = sr_cid r, or_tid = sr_tid r, or_payload = sr_payload r, or_crc = crc (sr_payload r)\<rparr>"

definition blob_of :: "stored_blob \<Rightarrow> blob_row" where
  "blob_of b = \<lparr>br_tid = bl_tid b, br_size = bl_size b, br_hash = bl_hash b, br_crc = crc (bl_data b), br_data = bl_data b\<rparr>"

lemma put_alt:
  "put_object r db = db\<lparr>db_objects := AList.update (sr_oid r) (object_of r) (db_objects db)\<rparr>"
  "put_blob b db = db\<lparr>db_blobs := AList.update (bl_oid b) (blob_of b) (db_blobs db)\<rparr>"
  by (simp_all add: put_object_def put_blob_def object_of_def blob_of_def)

lemma row_record_of [simp]: "row_record (sr_oid r) (object_of r) = r"
  by (simp add: row_record_def object_of_def)

lemma row_blob_of [simp]: "row_blob (bl_oid b) (blob_of b) = b"
  by (simp add: row_blob_def blob_of_def)

lemma fold_put_object:
  "fold put_object rs db =
     db\<lparr>db_objects := fold (\<lambda>r. AList.update (sr_oid r) (object_of r)) rs (db_objects db)\<rparr>"
  by (induction rs arbitrary: db) (simp_all add: put_alt)

lemma fold_put_blob:
  "fold put_blob bs db = db\<lparr>db_blobs := fold (\<lambda>b. AList.update (bl_oid b) (blob_of b)) bs (db_blobs db)\<rparr>"
  by (induction bs arbitrary: db) (simp_all add: put_alt)

lemma fold_delete_object:
  "fold delete_object oids db = db\<lparr>db_objects := dict_pop_all oids (db_objects db)\<rparr>"
  by (induction oids arbitrary: db) (simp_all add: delete_object_def dict_pop_all_def)

lemma get_fold_put:
  "dict_get (fold (\<lambda>r. AList.update (kf r) (vf r)) rs d) k =
     (case last_with kf rs k of None \<Rightarrow> dict_get d k | Some r \<Rightarrow> Some (vf r))"
  by (induction rs rule: rev_induct) (auto split: option.splits)

lemma wf_fold_put: "dict_wf d \<Longrightarrow> dict_wf (fold (\<lambda>r. AList.update (kf r) (vf r)) rs d)"
  by (induction rs arbitrary: d) auto

lemma insert_types_Inr:
  assumes "fold_res insert_type rows db = Inr db'"
  shows "db' = db\<lparr>db_types := db_types db @ map (\<lambda>(cid, name, fs). (cid, name, join_with unit_sep fs)) rows\<rparr>
     \<and> (dict_wf (db_types db) \<longrightarrow> dict_wf (db_types db'))"
  using assms
proof (induction rows arbitrary: db)
  case Nil
  then show ?case by simp
next
  case (Cons row rows)
  obtain cid name fs where row: "row = (cid, name, fs)"
    by (cases row)
  define db1 where "db1 = db\<lparr>db_types := db_types db @ [(cid, name, join_with unit_sep fs)]\<rparr>"
  obtain d where d: "insert_type row db = Inr d" "fold_res insert_type rows d = Inr db'"
    using Cons.prems by (auto split: sum.splits)
  have "d = db1" "cid \<notin> set (dict_keys (db_types db))"
    using d(1) by (auto simp: row insert_type_def db1_def split: if_splits)
  with d have 1: "insert_type row db = Inr db1" "cid \<notin> set (dict_keys (db_types db))"
    "fold_res insert_type rows db1 = Inr db'"
    by simp_all
  have "dict_wf (db_types db) \<longrightarrow> dict_wf (db_types db1)"
    using 1(2) by (auto simp: db1_def dict_wf_def)
  then show ?case
    using Cons.IH [OF 1(3)] by (intro conjI) (simp add: row db1_def, blast)
qed

lemma insert_types_fresh:
  assumes "\<not> db_unique_names db" and "distinct (map fst rows)"
    and "fst ` set rows \<inter> fst ` set (db_types db) = {}"
  shows "\<exists>db'. fold_res insert_type rows db = Inr db'"
  using assms
proof (induction rows arbitrary: db)
  case Nil
  then show ?case by simp
next
  case (Cons row rows)
  obtain cid name fs where row: "row = (cid, name, fs)"
    by (cases row)
  define db1 where "db1 = db\<lparr>db_types := db_types db @ [(cid, name, join_with unit_sep fs)]\<rparr>"
  have "insert_type row db = Inr db1"
    using Cons.prems by (auto simp: insert_type_def row db1_def)
  moreover have "\<exists>db'. fold_res insert_type rows db1 = Inr db'"
    using Cons.prems by (intro Cons.IH) (auto simp: row db1_def)
  ultimately show ?case by simp
qed

text \<open>The tables after a batch, and when the batch goes through.\<close>

lemma sq_apply_body_Inr:
  "sq_apply_body sha b db = Inr db' \<longleftrightarrow>
     (\<exists>db1 bs. fold_res insert_type (cb_types b) db = Inr db1 \<and>
        map_res (materialize sha) (cb_streams b) = Inr bs \<and>
        db' = db1\<lparr>db_objects := dict_pop_all (cb_deletes b)
                   (fold (\<lambda>r. AList.update (sr_oid r) (object_of r)) (cb_records b) (db_objects db1)),
                 db_blobs := fold (\<lambda>b. AList.update (bl_oid b) (blob_of b)) (cb_blobs b @ bs) (db_blobs db1),
                 db_meta := fold (\<lambda>(k, v). AList.update k v) (cb_meta b) (db_meta db1)\<rparr>)"
  by (auto simp: sq_apply_body_def bind_res_Inr fill_streams fold_put_object fold_put_blob
      fold_delete_object Let_def)

lemma sq_apply_Inr: "sq_apply sha b db = (Inr u, db') \<longleftrightarrow> sq_apply_body sha b db = Inr db'"
  by (auto simp: sq_apply_def transaction_def split: sum.splits)

lemma sq_apply_Inl: "sq_apply sha b db = (Inl e, db') \<Longrightarrow> db' = db"
  by (auto simp: sq_apply_def transaction_def split: sum.splits)

lemma sq_apply_effect:
  assumes "db_ok db" and "sq_apply sha b db = (Inr u, db')"
  shows "db_ok db'"
    and "sq_find db' oid = batch_effect b oid (sq_find db oid)"
    and "dict_get (db_meta db') k = batch_meta b k (dict_get (db_meta db) k)"
    and "\<exists>bs. map_res (materialize sha) (cb_streams b) = Inr bs \<and>
      sq_blob db' oid = (case last_with bl_oid (cb_blobs b @ bs) oid of None \<Rightarrow> sq_blob db oid | Some x \<Rightarrow> Some x)"
    and "db_types db' = db_types db @ map (\<lambda>(cid, name, fs). (cid, name, join_with unit_sep fs)) (cb_types b)"
proof -
  obtain db1 bs where t: "fold_res insert_type (cb_types b) db = Inr db1"
    and bs: "map_res (materialize sha) (cb_streams b) = Inr bs"
    and db': "db' = db1\<lparr>db_objects := dict_pop_all (cb_deletes b)
                   (fold (\<lambda>r. AList.update (sr_oid r) (object_of r)) (cb_records b) (db_objects db1)),
                 db_blobs := fold (\<lambda>b. AList.update (bl_oid b) (blob_of b)) (cb_blobs b @ bs) (db_blobs db1),
                 db_meta := fold (\<lambda>(k, v). AList.update k v) (cb_meta b) (db_meta db1)\<rparr>"
    using assms(2) by (auto simp: sq_apply_Inr sq_apply_body_Inr)
  note db1 = insert_types_Inr [OF t]
  note ok = db_okD [OF assms(1)]
  have same: "db_meta db1 = db_meta db" "db_objects db1 = db_objects db" "db_blobs db1 = db_blobs db"
    using db1 by auto
  show "db_types db' = db_types db @ map (\<lambda>(cid, name, fs). (cid, name, join_with unit_sep fs)) (cb_types b)"
    using db1 by (simp add: db')
  show "dict_get (db_meta db') k = batch_meta b k (dict_get (db_meta db) k)"
    by (auto simp: db' same fold_meta_get batch_meta_def)
  have obj: "dict_get (db_objects db') k = (if k \<in> set (cb_deletes b) then None else
      case last_with sr_oid (cb_records b) k of None \<Rightarrow> dict_get (db_objects db) k | Some r \<Rightarrow> Some (object_of r))" for k
    by (simp add: db' same dict_get_pop_all get_fold_put)
  have blb: "dict_get (db_blobs db') k = (case last_with bl_oid (cb_blobs b @ bs) k of
      None \<Rightarrow> dict_get (db_blobs db) k | Some x \<Rightarrow> Some (blob_of x))" for k
    by (simp add: db' same get_fold_put del: fold_append)
  show "sq_find db' oid = batch_effect b oid (sq_find db oid)"
    by (auto simp: sq_find_def obj batch_effect_def split: option.splits dest!: last_with_Some)
  show "\<exists>bs. map_res (materialize sha) (cb_streams b) = Inr bs \<and>
      sq_blob db' oid = (case last_with bl_oid (cb_blobs b @ bs) oid of None \<Rightarrow> sq_blob db oid | Some x \<Rightarrow> Some x)"
    using bs by (auto simp: sq_blob_def blb split: option.splits dest!: last_with_Some)
  have "dict_wf (db_types db1)"
    using db1 ok(2) by blast
  then have "dict_wf (db_meta db')" "dict_wf (db_types db')" "dict_wf (db_objects db')" "dict_wf (db_blobs db')"
    using ok(1,3,4) by (simp_all add: db' same fold_meta_wf wf_fold_put)
  moreover have "row_crc_ok r" if "dict_get (db_objects db') k = Some r" for k r
    using that ok(5) by (auto simp: obj row_crc_ok_def object_of_def split: if_splits option.splits)
  moreover have "blob_crc_ok r" if "dict_get (db_blobs db') k = Some r" for k r
    using that ok(6) by (auto simp: blb blob_crc_ok_def blob_of_def split: option.splits)
  ultimately show "db_ok db'"
    unfolding db_ok_def by blast
qed

lemma type_row_join:
  assumes "plain_types rows" and "(cid, name, fs) \<in> set rows"
  shows "type_row_of (cid, name, join_with unit_sep fs) = (cid, name, fs)"
proof -
  have "\<forall>f \<in> set fs. f \<noteq> [] \<and> unit_sep \<notin> set f"
    using assms by (auto simp: plain_types_def)
  then show ?thesis
    by (auto simp: type_row_of_def join_empty split_join)
qed

lemma sq_apply_types:
  assumes "db_ok db" and "plain_batch b" and "sq_apply sha b db = (Inr u, db')"
  shows "sq_types db' = sq_types db \<union> set (cb_types b)"
proof -
  have "(\<lambda>x. type_row_of (case x of (cid, name, fs) \<Rightarrow> (cid, name, join_with unit_sep fs))) ` set (cb_types b)
      = (\<lambda>x. x) ` set (cb_types b)"
    using assms(2) by (intro image_cong) (auto simp: plain_batch_def type_row_join)
  then show ?thesis
    unfolding sq_types_def sq_apply_effect(5) [OF assms(1,3)] by (simp add: image_Un image_image)
qed

interpretation sq: storage_backend db_ok sq_find sq_blob "\<lambda>db. dict_get (db_meta db)" sq_types
  sq_load_many sq_scan_type "sq_apply sha"
  for sha
proof
  fix s b t e u oid k
  show "sq_apply sha b s = (Inl e, t) \<Longrightarrow> t = s"
    by (rule sq_apply_Inl)
  assume ok: "db_ok s" and pl: "plain_batch b" and a: "sq_apply sha b s = (Inr u, t)"
  note eff = sq_apply_effect [OF ok a]
  show "db_ok t" "sq_find t oid = batch_effect b oid (sq_find s oid)"
    "dict_get (db_meta t) k = batch_meta b k (dict_get (db_meta s) k)"
    by (rule eff)+
  show "sq_types t = sq_types s \<union> set (cb_types b)"
    by (rule sq_apply_types [OF ok pl a])
  assume n: "oid \<notin> bl_oid ` set (cb_blobs b)" "oid \<notin> ss_oid ` set (cb_streams b)"
  obtain bs where bs: "map_res (materialize sha) (cb_streams b) = Inr bs"
    and t: "sq_blob t oid = (case last_with bl_oid (cb_blobs b @ bs) oid of None \<Rightarrow> sq_blob s oid | Some x \<Rightarrow> Some x)"
    using eff(4) by blast
  have "oid \<notin> bl_oid ` set (cb_blobs b @ bs)"
    using n materialize_oids [OF bs] by (metis Un_iff image_Un set_append set_map)
  then have "last_with bl_oid (cb_blobs b @ bs) oid = None"
    by (rule iffD2 [OF last_with_None])
  then show "sq_blob t oid = sq_blob s oid"
    by (simp add: t)
next
  fix s oid r
  show "sq_find s oid = Some r \<Longrightarrow> sr_oid r = oid"
    by (auto simp: sq_find_def)
next
  fix s oids d
  show "sq_load_many oids s = Inr d \<Longrightarrow> dict_wf d"
    by (rule sq_load_many_wf)
next
  fix s oids cid
  assume ok: "db_ok s"
  show "\<exists>d. sq_load_many oids s = Inr d \<and>
      (\<forall>oid. dict_get d oid = (if oid \<in> set oids then sq_find s oid else None))"
    by (rule sq_load_many_find [OF ok])
  show "\<exists>rs. sq_scan_type cid s = Inr rs \<and> sorted (map sr_oid rs) \<and> distinct (map sr_oid rs) \<and>
      (\<forall>r. r \<in> set rs \<longleftrightarrow> sq_find s (sr_oid r) = Some r \<and> sr_cid r = cid)"
    by (rule sq_scan_find [OF ok])
qed

section \<open>The backend and the fake agree\<close>

text \<open>What a client can observe of the two; the fake's type rows come in insertion order.\<close>

definition same_store :: "sqlite_db \<Rightarrow> mem_backend \<Rightarrow> bool" where
  "same_store db m \<longleftrightarrow>
     (\<forall>oid. sq_find db oid = dict_get (mb_objects m) oid) \<and> (\<forall>oid. sq_blob db oid = dict_get (mb_blobs m) oid)
     \<and> (\<forall>k. dict_get (db_meta db) k = dict_get (mb_meta m) k)
     \<and> map type_row_of (db_types db) = mb_types m"

definition fresh_types :: "commit_batch \<Rightarrow> sqlite_db \<Rightarrow> bool" where
  "fresh_types b db \<longleftrightarrow> \<not> db_unique_names db \<and> distinct (map fst (cb_types b))
     \<and> fst ` set (cb_types b) \<inter> fst ` set (db_types db) = {}"

lemma last_with_append:
  "last_with kf (xs @ ys) k = (case last_with kf ys k of None \<Rightarrow> last_with kf xs k | Some y \<Rightarrow> Some y)"
  unfolding last_with_def rev_append find_append by (rule refl)

lemma sq_simulates_mem:
  assumes "db_ok db" and "same_store db m" and "plain_batch b" and "fresh_types b db"
    and "sq_apply sha b db = (r, db')" and "mem_apply sha b m = (r', m')"
  shows "isl r \<longleftrightarrow> isl r'" and "same_store db' m'"
proof -
  obtain db1 where types: "fold_res insert_type (cb_types b) db = Inr db1"
    using insert_types_fresh [of db "cb_types b"] assms(4) by (auto simp: fresh_types_def)
  show "isl r \<longleftrightarrow> isl r'"
  proof (cases "map_res (materialize sha) (cb_streams b)")
    case (Inl e)
    then have "\<nexists>d. sq_apply_body sha b db = Inr d"
      by (simp add: sq_apply_body_Inr)
    then show ?thesis
      using assms(5,6) Inl by (auto simp: sq_apply_def transaction_def mem_apply_def split: sum.splits)
  next
    case (Inr bs)
    then have "\<exists>d. sq_apply_body sha b db = Inr d"
      using types by (simp add: sq_apply_body_Inr)
    then show ?thesis
      using assms(5,6) Inr by (auto simp: sq_apply_def transaction_def mem_apply_def split: sum.splits)
  qed
  show "same_store db' m'"
  proof (cases r)
    case (Inl e)
    then obtain e' where "r' = Inl e'"
      using \<open>isl r \<longleftrightarrow> isl r'\<close> by (cases r') auto
    then show ?thesis
      using assms(2,5,6) Inl sq_apply_Inl [of sha b db e db'] by (auto simp: mem_apply_def split: sum.splits)
  next
    case (Inr u)
    note a = assms(5) [unfolded Inr]
    note eff = sq_apply_effect [OF assms(1) a]
    obtain bs where bs1: "map_res (materialize sha) (cb_streams b) = Inr bs"
      using eff(4) by blast
    have bs: "map_res (materialize sha) (cb_streams b) = Inr bs"
      "sq_blob db' k = (case last_with bl_oid (cb_blobs b @ bs) k of None \<Rightarrow> sq_blob db k | Some x \<Rightarrow> Some x)" for k
      using eff(4) [of k] bs1 by simp_all
    obtain v where r': "r' = Inr v"
      using \<open>isl r \<longleftrightarrow> isl r'\<close> Inr by (cases r') auto
    have m': "m' = m\<lparr>mb_types := mb_types m @ cb_types b,
             mb_objects := dict_pop_all (cb_deletes b)
               (dict_put_all sr_oid (cb_records b) (mb_objects m)),
             mb_blobs := dict_put_all bl_oid bs (dict_put_all bl_oid (cb_blobs b) (mb_blobs m)),
             mb_meta := fold (\<lambda>(k, v). AList.update k v) (cb_meta b) (mb_meta m)\<rparr>"
      using assms(6) bs(1) by (simp add: mem_apply_def)
    have obs: "sq_find db oid = dict_get (mb_objects m) oid" "sq_blob db oid = dict_get (mb_blobs m) oid"
      "dict_get (db_meta db) k = dict_get (mb_meta m) k" "map type_row_of (db_types db) = mb_types m" for oid k
      using assms(2) by (auto simp: same_store_def)
    have "sq_find db' oid = dict_get (mb_objects m') oid" for oid
      by (simp add: eff(2) m' obs batch_effect_def dict_get_pop_all dict_get_put_all)
    moreover have "sq_blob db' oid = dict_get (mb_blobs m') oid" for oid
      by (simp add: bs(2) m' obs dict_get_put_all last_with_append split: option.splits)
    moreover have "dict_get (db_meta db') k = dict_get (mb_meta m') k" for k
      by (simp add: eff(3) m' obs batch_meta_def fold_meta_get)
    moreover have "map type_row_of (db_types db') = mb_types m'"
    proof -
      have "map (\<lambda>x. type_row_of (case x of (cid, name, fs) \<Rightarrow> (cid, name, join_with unit_sep fs))) (cb_types b)
          = cb_types b"
        using assms(3) by (intro map_idI) (auto simp: plain_batch_def type_row_join)
      then show ?thesis
        by (simp add: eff(5) m' obs o_def)
    qed
    ultimately show ?thesis
      by (simp add: same_store_def)
  qed
qed

section \<open>The blob reader is a \<open>BytesIO\<close>\<close>

text \<open>The reader's cursor and its overshoot are the position of a \<open>BytesIO\<close> over the same bytes.\<close>

definition reader_like :: "blob_reader \<Rightarrow> mem_stream \<Rightarrow> bool" where
  "reader_like r s \<longleftrightarrow> rd_conn_open r \<and> \<not> bs_closed s \<and> rd_data r = bs_data s
     \<and> rd_pos r \<le> length (rd_data r) \<and> (rd_overshoot r > 0 \<longrightarrow> rd_pos r = length (rd_data r))
     \<and> bs_pos s = rd_pos r + rd_overshoot r"

lemma reader_like_open:
  assumes "dict_get (db_blobs db) oid = Some r" and "dict_get (mv_blobs v) oid = Some b" and "br_data r = bl_data b"
  shows "\<exists>rd st. sq_open_blob_stream oid db = Inr rd \<and> view_open_blob_stream oid v = Inr st \<and> reader_like rd st"
  using assms by (simp add: sq_open_blob_stream_def view_open_blob_stream_def reader_like_def)

lemma reader_like_read:
  assumes "reader_like r s"
  shows "\<exists>chunk r' s'. reader_readinto n r = Inr (chunk, r') \<and> bytesio_read n s = Inr (chunk, s') \<and> reader_like r' s'"
  using assms by (auto simp: reader_like_def reader_readinto_def bytesio_read_def Let_def)

definition seek_target :: "int \<Rightarrow> nat \<Rightarrow> blob_reader \<Rightarrow> int" where
  "seek_target off whence r =
     (if whence = 0 then off
      else if whence = 1 then int (rd_pos r + rd_overshoot r) + off
      else int (length (rd_data r)) + off)"

lemma reader_like_seek:
  assumes "reader_like r s" and "whence \<le> 2" and "0 \<le> seek_target off whence r"
  shows "\<exists>p r' s'. reader_seek off whence r = Inr (p, r') \<and> bytesio_seek off whence s = Inr (p, s')
    \<and> reader_like r' s' \<and> int p = seek_target off whence r"
proof -
  have "whence = 0 \<or> whence = 1 \<or> whence = 2"
    using assms(2) by linarith
  then show ?thesis
    using assms by (auto simp: reader_like_def reader_seek_def bytesio_seek_def seek_target_def reader_tell_def Let_def)
qed

lemma reader_seek_negative:
  assumes "reader_like r s" and "whence = 1 \<or> whence = 2" and "seek_target off whence r < 0"
  shows "reader_seek off whence r = Inl PyValueError" and "\<exists>s'. bytesio_seek off whence s = Inr (0, s')"
  using assms by (auto simp: reader_like_def reader_seek_def bytesio_seek_def seek_target_def reader_tell_def Let_def)

end
