(* ===== verification/Delta.thy ===== *)
theory Delta
  imports Sqlite
begin

text \<open>
  The commit-delta contract: \<open>_pipeline.py\<close> (\<open>build_delta\<close>) and \<open>contract/applier.py\<close>
  (\<open>check_delta_header\<close>, \<open>ReferenceApplier\<close>).

  \<^item> A delta is the decoded map: every top-level key and every op key is an option, \<open>None\<close> when the
    key is missing. The values a check inspects (\<open>f\<close>, \<open>v\<close>, \<open>op\<close>, \<open>payload\<close>, \<open>prior\<close>) are Python
    values; the others have the type the producer gives them.
  \<^item> \<open>ap_apply\<close> returns its outcome with the state it leaves, since a refused op leaves the ops
    before it applied.
  \<^item> The locale \<open>delta_consumer\<close> is the consumer contract of \<open>store.attach()\<close>: idempotent skip,
    gap refusal, watermark. Its lemmas speak of whole streams with repeated deliveries.
\<close>

definition CONTRACT_VERSION :: int where "CONTRACT_VERSION = 2"
definition FORMAT_MARKER :: string where "FORMAT_MARKER = ''datacrystal-delta''"

record delta_op =
  op_kind :: "pyval option"
  op_oid :: "nat option"
  op_cid :: "nat option"
  op_payload :: "pyval option"
  op_prior :: "pyval option"

record delta =
  dl_f :: "pyval option"
  dl_v :: "pyval option"
  dl_tid :: "nat option"
  dl_actor :: "nat option"
  dl_at :: "int option"
  dl_ops :: "delta_op list option"
  dl_types :: "type_row list option"
  dl_root :: "nat option option"

definition opt_payload :: "bytes option \<Rightarrow> pyval" where
  "opt_payload b = (case b of None \<Rightarrow> PNone | Some p \<Rightarrow> PBytes p)"

section \<open>Building a delta\<close>

definition upsert_op :: "(nat, bytes) dict \<Rightarrow> stored_record \<Rightarrow> delta_op" where
  "upsert_op priors rec =
     \<lparr>op_kind = Some (PStr ''upsert''), op_oid = Some (sr_oid rec), op_cid = Some (sr_cid rec),
      op_payload = Some (PBytes (sr_payload rec)),
      op_prior = Some (opt_payload (dict_get priors (sr_oid rec)))\<rparr>"

definition delete_op :: "nat \<times> nat \<times> bytes \<Rightarrow> delta_op" where
  "delete_op d =
     (case d of (oid, cid, prior) \<Rightarrow>
       \<lparr>op_kind = Some (PStr ''delete''), op_oid = Some oid, op_cid = Some cid,
        op_payload = Some PNone, op_prior = Some (PBytes prior)\<rparr>)"

definition build_delta ::
    "nat \<Rightarrow> stored_record list \<Rightarrow> type_row list \<Rightarrow> nat option \<Rightarrow> (nat, bytes) dict
       \<Rightarrow> (nat \<times> nat \<times> bytes) list \<Rightarrow> nat \<Rightarrow> int \<Rightarrow> delta" where
  "build_delta tid records new_types root_oid priors deletes actor stamp =
     \<lparr>dl_f = Some (PStr FORMAT_MARKER), dl_v = Some (PInt CONTRACT_VERSION), dl_tid = Some tid,
      dl_actor = Some actor, dl_at = Some stamp,
      dl_ops = Some (map (upsert_op priors) records @ map delete_op deletes),
      dl_types = Some new_types, dl_root = Some root_oid\<rparr>"

section \<open>The reference applier\<close>

definition opt_get :: "pyval option \<Rightarrow> pyval" where
  "opt_get v = (case v of None \<Rightarrow> PNone | Some x \<Rightarrow> x)"

text \<open>An older version and a newer one are refused alike; only their messages differ.\<close>

definition check_delta_header :: "delta \<Rightarrow> unit res" where
  "check_delta_header d =
     (if \<not> py_eq (opt_get (dl_f d)) (PStr FORMAT_MARKER) then Inl DeltaFormatError
      else if py_eq (opt_get (dl_v d)) (PInt CONTRACT_VERSION) then Inr ()
      else Inl DeltaFormatError)"

definition has_required_keys :: "delta \<Rightarrow> bool" where
  "has_required_keys d \<longleftrightarrow>
     dl_f d \<noteq> None \<and> dl_v d \<noteq> None \<and> dl_tid d \<noteq> None \<and> dl_actor d \<noteq> None \<and> dl_at d \<noteq> None
     \<and> dl_ops d \<noteq> None \<and> dl_types d \<noteq> None \<and> dl_root d \<noteq> None"

record applier =
  ap_objects :: "(nat, bytes) dict"
  ap_types :: "(nat, string \<times> string list) dict"
  ap_root :: "nat option"
  ap_watermark :: nat

definition new_applier :: applier where
  "new_applier = \<lparr>ap_objects = [], ap_types = [], ap_root = None, ap_watermark = 0\<rparr>"

definition ap_apply_op :: "delta_op \<Rightarrow> applier \<Rightarrow> applier res" where
  "ap_apply_op op a =
     (case (op_kind op, op_oid op, op_cid op, op_payload op, op_prior op) of
        (Some kind, Some oid, Some cid, Some payload, Some prior) \<Rightarrow>
          if dict_get (ap_types a) cid = None then Inl DeltaFormatError
          else
            let current = dict_get (ap_objects a) oid in
            if \<not> py_eq prior (opt_payload current) then Inl DeltaFormatError
            else if py_eq kind (PStr ''upsert'') then
              (case payload of
                 PBytes p \<Rightarrow> Inr (a\<lparr>ap_objects := AList.update oid p (ap_objects a)\<rparr>)
               | _ \<Rightarrow> Inl DeltaFormatError)
            else if py_eq kind (PStr ''delete'') then
              (if current = None then Inl DeltaFormatError
               else Inr (a\<lparr>ap_objects := AList.delete oid (ap_objects a)\<rparr>))
            else Inl DeltaFormatError
      | _ \<Rightarrow> Inl DeltaFormatError)"

fun ap_apply_ops :: "delta_op list \<Rightarrow> applier \<Rightarrow> unit res \<times> applier" where
  "ap_apply_ops [] a = (Inr (), a)"
| "ap_apply_ops (op # ops) a =
     (case ap_apply_op op a of Inl e \<Rightarrow> (Inl e, a) | Inr a' \<Rightarrow> ap_apply_ops ops a')"

definition ap_put_types :: "type_row list \<Rightarrow> applier \<Rightarrow> applier" where
  "ap_put_types rows a =
     a\<lparr>ap_types := fold (\<lambda>(cid, name, fs). AList.update cid (name, fs)) rows (ap_types a)\<rparr>"

definition ap_advance ::
    "nat \<Rightarrow> type_row list \<Rightarrow> delta_op list \<Rightarrow> nat option \<Rightarrow> applier \<Rightarrow> bool res \<times> applier" where
  "ap_advance tid types ops rt a =
     (case ap_apply_ops ops (ap_put_types types a) of
        (Inl e, a') \<Rightarrow> (Inl e, a')
      | (Inr _, a') \<Rightarrow> (Inr True, a'\<lparr>ap_root := rt, ap_watermark := tid\<rparr>))"

definition ap_apply :: "delta \<Rightarrow> applier \<Rightarrow> bool res \<times> applier" where
  "ap_apply d a =
     (case check_delta_header d of
        Inl e \<Rightarrow> (Inl e, a)
      | Inr _ \<Rightarrow>
          (case (has_required_keys d, dl_tid d, dl_types d, dl_ops d, dl_root d) of
             (True, Some tid, Some types, Some ops, Some rt) \<Rightarrow>
               if tid \<le> ap_watermark a then (Inr False, a)
               else if tid \<noteq> ap_watermark a + 1 then (Inl DeltaGapError, a)
               else ap_advance tid types ops rt a
           | _ \<Rightarrow> (Inl DeltaFormatError, a)))"

text \<open>\<open>state_digest\<close>: the bytes hashed, in key order, and their hex digest.\<close>

definition hex_char :: "nat \<Rightarrow> char" where
  "hex_char n = (if n < 10 then char_of (48 + n) else char_of (87 + n))"

definition hex_text :: "bytes \<Rightarrow> string" where
  "hex_text bs = concat (map (\<lambda>b. [hex_char (unat b div 16), hex_char (unat b mod 16)]) bs)"

definition opt_text :: "nat option \<Rightarrow> string" where
  "opt_text r = (case r of None \<Rightarrow> ''None'' | Some n \<Rightarrow> str_of_nat n)"

definition digest_bytes :: "applier \<Rightarrow> bytes" where
  "digest_bytes a =
     ascii_encode (''wm='' @ str_of_nat (ap_watermark a) @ '';root='' @ opt_text (ap_root a))
     @ concat (map (\<lambda>cid. case dict_get (ap_types a) cid of None \<Rightarrow> []
         | Some (name, fs) \<Rightarrow> ascii_encode ('';t'' @ str_of_nat cid @ ''='' @ name @ '':'' @ join_with (CHR '','') fs))
         (sort (dict_keys (ap_types a))))
     @ concat (map (\<lambda>oid. ascii_encode ('';o'' @ str_of_nat oid @ ''='')
         @ (case dict_get (ap_objects a) oid of None \<Rightarrow> [] | Some p \<Rightarrow> p))
         (sort (dict_keys (ap_objects a))))"

definition state_digest :: "(bytes \<Rightarrow> bytes) \<Rightarrow> applier \<Rightarrow> string" where
  "state_digest sha a = hex_text (sha (digest_bytes a))"

section \<open>The consumer contract\<close>

text \<open>What a consumer is asked: the TID of a delta it accepts the shape of.\<close>

definition well_shaped :: "delta \<Rightarrow> bool" where
  "well_shaped d \<longleftrightarrow> check_delta_header d = Inr () \<and> has_required_keys d"

definition delta_tid :: "delta \<Rightarrow> nat" where
  "delta_tid d = (case dl_tid d of None \<Rightarrow> 0 | Some t \<Rightarrow> t)"

text \<open>Delivering a stream, each delta to its end, stopping at the first refusal.\<close>

definition deliver_all :: "(delta \<Rightarrow> 'c \<Rightarrow> bool res \<times> 'c) \<Rightarrow> delta list \<Rightarrow> 'c \<Rightarrow> 'c res" where
  "deliver_all feed =
     fold_res (\<lambda>d c. case feed d c of (Inl e, _) \<Rightarrow> Inl e | (Inr _, c') \<Rightarrow> Inr c')"

locale delta_consumer =
  fixes inv :: "'c \<Rightarrow> bool"
    and watermark :: "'c \<Rightarrow> nat"
    and feed :: "delta \<Rightarrow> 'c \<Rightarrow> bool res \<times> 'c"
  assumes skip: "inv c \<Longrightarrow> well_shaped d \<Longrightarrow> delta_tid d \<le> watermark c \<Longrightarrow> feed d c = (Inr False, c)"
    and gap: "inv c \<Longrightarrow> well_shaped d \<Longrightarrow> watermark c + 1 < delta_tid d \<Longrightarrow> feed d c = (Inl DeltaGapError, c)"
    and shape: "inv c \<Longrightarrow> \<not> well_shaped d \<Longrightarrow> feed d c = (Inl DeltaFormatError, c)"
    and advance: "inv c \<Longrightarrow> feed d c = (Inr True, c') \<Longrightarrow> watermark c' = delta_tid d"
    and reported: "inv c \<Longrightarrow> feed d c = (Inr False, c') \<Longrightarrow> delta_tid d \<le> watermark c"
    and keeps: "inv c \<Longrightarrow> feed d c = (Inr b, c') \<Longrightarrow> inv c'"
begin

text \<open>Applied, skipped or refused: nothing else is possible.\<close>

lemma outcome:
  assumes "inv c" and "feed d c = (Inr b, c')"
  shows "well_shaped d" and "b \<Longrightarrow> delta_tid d = watermark c + 1 \<and> watermark c' = delta_tid d"
    and "\<not> b \<Longrightarrow> delta_tid d \<le> watermark c \<and> c' = c" and "inv c'"
proof -
  show s: "well_shaped d"
    using shape [OF assms(1), of d] assms(2) by (cases "well_shaped d") auto
  show "inv c'"
    by (rule keeps [OF assms])
  show "\<not> b \<Longrightarrow> delta_tid d \<le> watermark c \<and> c' = c"
    using reported [OF assms(1), of d c'] skip [OF assms(1) s] assms(2) by auto
  assume b
  then have a: "feed d c = (Inr True, c')"
    using assms(2) by simp
  have "\<not> delta_tid d \<le> watermark c" "\<not> watermark c + 1 < delta_tid d"
    using skip [OF assms(1) s] gap [OF assms(1) s] a by auto
  then show "delta_tid d = watermark c + 1 \<and> watermark c' = delta_tid d"
    using advance [OF assms(1) a] by auto
qed

lemma deliver_Cons:
  "deliver_all feed (d # ds) c = (case feed d c of (Inl e, _) \<Rightarrow> Inl e | (Inr _, c') \<Rightarrow> deliver_all feed ds c')"
  by (auto simp: deliver_all_def split: prod.splits sum.splits)

lemma deliver_Nil [simp]: "deliver_all feed [] c = Inr c"
  by (simp add: deliver_all_def)

lemma deliver_watermark:
  assumes "deliver_all feed ds c = Inr c'" and "inv c"
  shows "inv c' \<and> watermark c \<le> watermark c' \<and> (\<forall>d \<in> set ds. well_shaped d \<and> delta_tid d \<le> watermark c')"
  using assms
proof (induction ds arbitrary: c)
  case Nil
  then show ?case by simp
next
  case (Cons d ds)
  obtain b c1 where a: "feed d c = (Inr b, c1)" and r: "deliver_all feed ds c1 = Inr c'"
    using Cons.prems(1) by (auto simp: deliver_Cons split: prod.splits sum.splits)
  note o = outcome [OF Cons.prems(2) a]
  have "watermark c \<le> watermark c1 \<and> delta_tid d \<le> watermark c1"
    using o(2,3) by (cases b) auto
  then show ?case
    using Cons.IH [OF r o(4)] o(1) by auto
qed

text \<open>A delta delivered again, in whatever order, changes nothing.\<close>

lemma redelivery:
  assumes "deliver_all feed ds c = Inr c'" and "inv c" and "set again \<subseteq> set ds"
  shows "deliver_all feed (ds @ again) c = Inr c'"
proof -
  have "deliver_all feed again c' = Inr c'"
    using assms(3)
  proof (induction again)
    case Nil
    then show ?case by simp
  next
    case (Cons d again)
    have "feed d c' = (Inr False, c')"
      using deliver_watermark [OF assms(1,2)] Cons.prems by (intro skip) auto
    then show ?case using Cons by (simp add: deliver_Cons)
  qed
  then show ?thesis
    using assms(1) by (simp add: deliver_all_def fold_res_append)
qed

text \<open>A consumer that got through a stream got exactly the TIDs from its watermark on, gapless.\<close>

lemma gapless:
  assumes "deliver_all feed ds c = Inr c'" and "inv c" and "watermark c < t" and "t \<le> watermark c'"
  shows "t \<in> delta_tid ` set ds"
  using assms
proof (induction ds arbitrary: c)
  case Nil
  then show ?case by simp
next
  case (Cons d ds)
  obtain b c1 where a: "feed d c = (Inr b, c1)" and r: "deliver_all feed ds c1 = Inr c'"
    using Cons.prems(1) by (auto simp: deliver_Cons split: prod.splits sum.splits)
  note o = outcome [OF Cons.prems(2) a]
  show ?case
  proof (cases "watermark c1 < t")
    case True
    then show ?thesis
      using Cons.IH [OF r o(4) True Cons.prems(4)] by auto
  next
    case False
    then have "t = delta_tid d"
      using o(2,3) Cons.prems(3) by (cases b) auto
    then show ?thesis by simp
  qed
qed

end

section \<open>The reference applier is a consumer\<close>

lemma ap_apply_shaped:
  assumes "well_shaped d"
  shows "ap_apply d a =
     (if delta_tid d \<le> ap_watermark a then (Inr False, a)
      else if delta_tid d \<noteq> ap_watermark a + 1 then (Inl DeltaGapError, a)
      else ap_advance (delta_tid d) (the (dl_types d)) (the (dl_ops d)) (the (dl_root d)) a)"
  using assms by (auto simp: well_shaped_def has_required_keys_def ap_apply_def delta_tid_def)

lemma ap_apply_unshaped: "\<not> well_shaped d \<Longrightarrow> ap_apply d a = (Inl DeltaFormatError, a)"
proof -
  assume n: "\<not> well_shaped d"
  show ?thesis
  proof (cases "check_delta_header d")
    case (Inl e)
    then have "e = DeltaFormatError"
      by (auto simp: check_delta_header_def split: if_splits)
    then show ?thesis using Inl by (simp add: ap_apply_def)
  next
    case (Inr u)
    then have "\<not> has_required_keys d"
      using n by (simp add: well_shaped_def)
    then show ?thesis using Inr by (simp add: ap_apply_def)
  qed
qed

text \<open>An op touches objects only, so a refused delta leaves the watermark and the root alone.\<close>

lemma ap_apply_op_frame:
  "ap_apply_op op a = Inr a' \<Longrightarrow> ap_watermark a' = ap_watermark a \<and> ap_root a' = ap_root a \<and> ap_types a' = ap_types a"
  by (auto simp: ap_apply_op_def Let_def split: option.splits if_splits pyval.splits)

lemma ap_apply_ops_frame:
  "ap_apply_ops ops a = (r, a') \<Longrightarrow> ap_watermark a' = ap_watermark a \<and> ap_root a' = ap_root a \<and> ap_types a' = ap_types a"
proof (induction ops arbitrary: a)
  case Nil
  then show ?case by simp
next
  case (Cons op ops)
  show ?case
  proof (cases "ap_apply_op op a")
    case (Inl e)
    then show ?thesis using Cons.prems by auto
  next
    case (Inr a1)
    then show ?thesis
      using Cons.IH [of a1] Cons.prems ap_apply_op_frame [OF Inr] by auto
  qed
qed

lemma ap_put_types_frame [simp]:
  "ap_watermark (ap_put_types ts a) = ap_watermark a" "ap_root (ap_put_types ts a) = ap_root a"
  "ap_objects (ap_put_types ts a) = ap_objects a"
  by (simp_all add: ap_put_types_def)

lemma ap_advance_Inl:
  "ap_advance t ts ops rt a = (Inl e, a') \<Longrightarrow> ap_watermark a' = ap_watermark a \<and> ap_root a' = ap_root a"
  by (cases "ap_apply_ops ops (ap_put_types ts a)")
     (auto simp: ap_advance_def split: sum.splits dest: ap_apply_ops_frame)

lemma ap_advance_Inr:
  "ap_advance t ts ops rt a = (Inr b, a') \<Longrightarrow> b \<and> ap_watermark a' = t"
  by (auto simp: ap_advance_def split: sum.splits prod.splits)

lemma ap_error_keeps_watermark:
  assumes "ap_apply d a = (Inl e, a')"
  shows "ap_watermark a' = ap_watermark a \<and> ap_root a' = ap_root a"
  using assms ap_apply_unshaped [of d a]
  by (cases "well_shaped d") (auto simp: ap_apply_shaped dest: ap_advance_Inl split: if_splits)

interpretation ap: delta_consumer "\<lambda>_. True" ap_watermark ap_apply
proof
  fix c d c' b
  show "\<not> well_shaped d \<Longrightarrow> ap_apply d c = (Inl DeltaFormatError, c)"
    by (rule ap_apply_unshaped)
  show "well_shaped d \<Longrightarrow> delta_tid d \<le> ap_watermark c \<Longrightarrow> ap_apply d c = (Inr False, c)"
    "well_shaped d \<Longrightarrow> ap_watermark c + 1 < delta_tid d \<Longrightarrow> ap_apply d c = (Inl DeltaGapError, c)"
    by (simp_all add: ap_apply_shaped)
  have w: "ap_apply d c = (Inr v, c') \<Longrightarrow> well_shaped d" for v
    using ap_apply_unshaped [of d c] by (cases "well_shaped d") auto
  show "ap_apply d c = (Inr True, c') \<Longrightarrow> ap_watermark c' = delta_tid d"
    using w [of True] by (auto simp: ap_apply_shaped dest: ap_advance_Inr split: if_splits)
  show "ap_apply d c = (Inr False, c') \<Longrightarrow> delta_tid d \<le> ap_watermark c"
    using w [of False] by (auto simp: ap_apply_shaped dest: ap_advance_Inr split: if_splits)
qed simp

section \<open>The applier mirrors the store\<close>

text \<open>
  \<open>mirrors f T a\<close>: the applier holds the payload of every record of the store (\<open>f\<close> its records,
  \<open>T\<close> its type rows) and every type row. \<open>commit_delta\<close> is the delta of a batch whose priors and
  tombstones were read from that store.
\<close>

definition mirrors :: "(nat \<Rightarrow> stored_record option) \<Rightarrow> type_row set \<Rightarrow> applier \<Rightarrow> bool" where
  "mirrors f T a \<longleftrightarrow> (\<forall>oid. dict_get (ap_objects a) oid = map_option sr_payload (f oid))
     \<and> (\<forall>(cid, name, fs) \<in> T. dict_get (ap_types a) cid = Some (name, fs))"

definition priors_read :: "(nat \<Rightarrow> stored_record option) \<Rightarrow> commit_batch \<Rightarrow> (nat, bytes) dict \<Rightarrow> bool" where
  "priors_read f b priors \<longleftrightarrow>
     (\<forall>r \<in> set (cb_records b). dict_get priors (sr_oid r) = map_option sr_payload (f (sr_oid r)))"

definition tombstones_read :: "(nat \<Rightarrow> stored_record option) \<Rightarrow> commit_batch \<Rightarrow> (nat \<times> nat \<times> bytes) list \<Rightarrow> bool" where
  "tombstones_read f b dels \<longleftrightarrow> map fst dels = cb_deletes b \<and>
     (\<forall>(oid, cid, prior) \<in> set dels. \<exists>r. f oid = Some r \<and> sr_cid r = cid \<and> sr_payload r = prior)"

text \<open>What the engine guarantees of a batch: one op per OID, types before their records.\<close>

definition batch_wf :: "(nat \<Rightarrow> stored_record option) \<Rightarrow> type_row set \<Rightarrow> commit_batch \<Rightarrow> bool" where
  "batch_wf f T b \<longleftrightarrow>
     distinct (map sr_oid (cb_records b)) \<and> distinct (cb_deletes b)
     \<and> sr_oid ` set (cb_records b) \<inter> set (cb_deletes b) = {}
     \<and> (\<forall>r \<in> set (cb_records b). sr_cid r \<in> fst ` (T \<union> set (cb_types b)))
     \<and> (\<forall>oid \<in> set (cb_deletes b). \<forall>r. f oid = Some r \<longrightarrow> sr_cid r \<in> fst ` (T \<union> set (cb_types b)))
     \<and> inj_on fst (T \<union> set (cb_types b)) \<and> distinct (map fst (cb_types b))"

lemma py_eq_payload [simp]: "py_eq (opt_payload x) (opt_payload y) \<longleftrightarrow> x = y"
  by (auto simp: opt_payload_def scalar_eq_def split: option.splits)

lemma scalar_eq_str [simp]: "scalar_eq (PStr s) (PStr t) \<longleftrightarrow> s = t" "scalar_eq (PInt i) (PInt j) \<longleftrightarrow> i = j"
  by (simp_all add: scalar_eq_def)

lemma ap_apply_ops_append:
  "ap_apply_ops (xs @ ys) a =
     (case ap_apply_ops xs a of (Inl e, a') \<Rightarrow> (Inl e, a') | (Inr _, a') \<Rightarrow> ap_apply_ops ys a')"
  by (induction xs arbitrary: a) (auto split: sum.splits)

lemma apply_upserts:
  assumes "distinct (map sr_oid rs)"
    and "\<forall>r \<in> set rs. dict_get (ap_types a) (sr_cid r) \<noteq> None"
    and "\<forall>r \<in> set rs. dict_get priors (sr_oid r) = dict_get (ap_objects a) (sr_oid r)"
  shows "\<exists>a'. ap_apply_ops (map (upsert_op priors) rs) a = (Inr (), a') \<and>
    (\<forall>oid. dict_get (ap_objects a') oid = (case last_with sr_oid rs oid of None \<Rightarrow> dict_get (ap_objects a) oid
        | Some r \<Rightarrow> Some (sr_payload r)))"
  using assms
proof (induction rs arbitrary: a)
  case Nil
  then show ?case by simp
next
  case (Cons r rs)
  define a1 where "a1 = a\<lparr>ap_objects := AList.update (sr_oid r) (sr_payload r) (ap_objects a)\<rparr>"
  have step: "ap_apply_op (upsert_op priors r) a = Inr a1"
    using Cons.prems by (auto simp: ap_apply_op_def upsert_op_def a1_def Let_def)
  have "\<forall>r' \<in> set rs. sr_oid r' \<noteq> sr_oid r"
    using Cons.prems(1) by (metis distinct.simps(2) image_eqI list.simps(9) set_map)
  then have "\<forall>r' \<in> set rs. dict_get priors (sr_oid r') = dict_get (ap_objects a1) (sr_oid r')"
    using Cons.prems(3) by (simp add: a1_def)
  moreover have "\<forall>r' \<in> set rs. dict_get (ap_types a1) (sr_cid r') \<noteq> None"
    using Cons.prems by (auto simp: a1_def)
  ultimately obtain a' where a': "ap_apply_ops (map (upsert_op priors) rs) a1 = (Inr (), a')"
    "\<forall>oid. dict_get (ap_objects a') oid = (case last_with sr_oid rs oid of None \<Rightarrow> dict_get (ap_objects a1) oid
        | Some r \<Rightarrow> Some (sr_payload r))"
    using Cons.IH [of a1] Cons.prems(1) by auto
  show ?case
    using a' step by (intro exI [of _ a']) (auto simp: a1_def last_with_Cons split: option.splits)
qed

lemma apply_deletes_ops:
  assumes "distinct (map fst ds)"
    and "\<forall>(oid, cid, prior) \<in> set ds. dict_get (ap_types a) cid \<noteq> None \<and> dict_get (ap_objects a) oid = Some prior"
  shows "\<exists>a'. ap_apply_ops (map delete_op ds) a = (Inr (), a') \<and>
    (\<forall>oid. dict_get (ap_objects a') oid = (if oid \<in> set (map fst ds) then None else dict_get (ap_objects a) oid))"
  using assms
proof (induction ds arbitrary: a)
  case Nil
  then show ?case by simp
next
  case (Cons d ds)
  obtain oid cid prior where d: "d = (oid, cid, prior)"
    by (cases d)
  define a1 where "a1 = a\<lparr>ap_objects := AList.delete oid (ap_objects a)\<rparr>"
  have cur: "dict_get (ap_objects a) oid = Some prior" "dict_get (ap_types a) cid \<noteq> None"
    using Cons.prems(2) by (auto simp: d)
  have "scalar_eq (PBytes prior) (opt_payload (Some prior))"
    by (simp add: opt_payload_def scalar_eq_def)
  then have step: "ap_apply_op (delete_op d) a = Inr a1"
    using cur by (auto simp: ap_apply_op_def delete_op_def a1_def Let_def d)
  have "\<forall>(oid, cid, prior) \<in> set ds. dict_get (ap_types a1) cid \<noteq> None \<and> dict_get (ap_objects a1) oid = Some prior"
    using Cons.prems by (force simp: a1_def d)
  then obtain a' where a': "ap_apply_ops (map delete_op ds) a1 = (Inr (), a')"
    "\<forall>oid. dict_get (ap_objects a') oid = (if oid \<in> set (map fst ds) then None else dict_get (ap_objects a1) oid)"
    using Cons.IH [of a1] Cons.prems(1) by auto
  show ?case
    using a' step by (intro exI [of _ a']) (auto simp: a1_def d)
qed

lemma put_types_get:
  assumes "distinct (map fst rows)"
  shows "dict_get (ap_types (ap_put_types rows a)) cid =
    (case dict_get rows cid of None \<Rightarrow> dict_get (ap_types a) cid | Some x \<Rightarrow> Some x)"
proof -
  have "dict_get (fold (\<lambda>(cid, name, fs). AList.update cid (name, fs)) rows d) cid =
      (case dict_get rows cid of None \<Rightarrow> dict_get d cid | Some x \<Rightarrow> Some x)" for d
    using assms
  proof (induction rows arbitrary: d)
    case Nil
    then show ?case by simp
  next
    case (Cons row rows)
    obtain c n f where row: "row = (c, n, f)"
      by (cases row)
    then have "dict_get rows c = None"
      using Cons.prems by (simp add: map_of_eq_None_iff)
    then show ?case
      using Cons.IH [of "AList.update c (n, f) d"] Cons.prems by (simp add: row split: option.split)
  qed
  then show ?thesis
    by (simp add: ap_put_types_def)
qed

lemma put_types_rows:
  assumes "\<forall>(cid, name, fs) \<in> T. dict_get (ap_types a) cid = Some (name, fs)"
    and "inj_on fst (T \<union> set rows)" and "distinct (map fst rows)"
    and "(cid, name, fs) \<in> T \<union> set rows"
  shows "dict_get (ap_types (ap_put_types rows a)) cid = Some (name, fs)"
proof (cases "(cid, name, fs) \<in> set rows")
  case True
  then show ?thesis
    using map_of_is_SomeI [OF assms(3)] by (simp add: put_types_get [OF assms(3)])
next
  case False
  then have t: "(cid, name, fs) \<in> T"
    using assms(4) by simp
  have "dict_get rows cid = None"
  proof (rule ccontr)
    assume "dict_get rows cid \<noteq> None"
    then obtain x where "(cid, x) \<in> set rows"
      by (auto dest: map_of_SomeD)
    then have "(cid, x) = (cid, name, fs)"
      using assms(2) t by (intro inj_onD [OF assms(2)]) auto
    then show False
      using False \<open>(cid, x) \<in> set rows\<close> by simp
  qed
  then show ?thesis
    using assms(1) t by (auto simp: put_types_get [OF assms(3)])
qed

text \<open>The next commit's delta takes a mirror of the old store to a mirror of the new one.\<close>

lemma mirror_step:
  assumes m: "mirrors f T a" and wf: "batch_wf f T b" and wm: "cb_tid b = ap_watermark a + 1"
    and pr: "priors_read f b priors" and tb: "tombstones_read f b dels"
  shows "\<exists>a'. ap_apply (build_delta (cb_tid b) (cb_records b) (cb_types b) rt priors dels actor stamp) a = (Inr True, a')
    \<and> mirrors (\<lambda>oid. batch_effect b oid (f oid)) (T \<union> set (cb_types b)) a'
    \<and> ap_root a' = rt \<and> ap_watermark a' = cb_tid b"
proof -
  define a0 where "a0 = ap_put_types (cb_types b) a"
  have types: "dict_get (ap_types a0) cid = Some (name, fs)" if "(cid, name, fs) \<in> T \<union> set (cb_types b)" for cid name fs
    unfolding a0_def using m wf that by (intro put_types_rows [of T]) (auto simp: mirrors_def batch_wf_def)
  have known: "dict_get (ap_types a0) cid \<noteq> None" if "cid \<in> fst ` (T \<union> set (cb_types b))" for cid
    using that types by force
  have objs: "dict_get (ap_objects a0) oid = map_option sr_payload (f oid)" for oid
    using m by (simp add: a0_def mirrors_def)
  obtain a1 where a1: "ap_apply_ops (map (upsert_op priors) (cb_records b)) a0 = (Inr (), a1)"
    "\<forall>oid. dict_get (ap_objects a1) oid = (case last_with sr_oid (cb_records b) oid of
        None \<Rightarrow> dict_get (ap_objects a0) oid | Some r \<Rightarrow> Some (sr_payload r))"
    using apply_upserts [of "cb_records b" a0 priors] wf pr known objs
    by (auto simp: batch_wf_def priors_read_def)
  have t1: "ap_types a1 = ap_types a0"
    using ap_apply_ops_frame [OF a1(1)] by simp
  have dist: "distinct (map fst dels)"
    using tb wf by (simp add: tombstones_read_def batch_wf_def)
  have live: "\<forall>(oid, cid, prior) \<in> set dels. dict_get (ap_types a1) cid \<noteq> None \<and> dict_get (ap_objects a1) oid = Some prior"
  proof clarify
    fix oid cid prior
    assume d: "(oid, cid, prior) \<in> set dels"
    then obtain r where r: "f oid = Some r" "sr_cid r = cid" "sr_payload r = prior"
      using tb by (auto simp: tombstones_read_def)
    have del: "oid \<in> set (cb_deletes b)"
      using d tb by (metis (mono_tags, lifting) fst_conv image_eqI set_map tombstones_read_def)
    then have "oid \<notin> sr_oid ` set (cb_records b)" "cid \<in> fst ` (T \<union> set (cb_types b))"
      using wf r by (auto simp: batch_wf_def)
    then show "dict_get (ap_types a1) cid \<noteq> None \<and> dict_get (ap_objects a1) oid = Some prior"
      using a1(2) objs r known by (simp add: t1 iffD2 [OF last_with_None])
  qed
  obtain a2 where a2: "ap_apply_ops (map delete_op dels) a1 = (Inr (), a2)"
    "\<forall>oid. dict_get (ap_objects a2) oid = (if oid \<in> set (map fst dels) then None else dict_get (ap_objects a1) oid)"
    using apply_deletes_ops [OF dist live] by blast
  have t2: "ap_types a2 = ap_types a0"
    using ap_apply_ops_frame [OF a2(1)] t1 by simp
  define a' where "a' = a2\<lparr>ap_root := rt, ap_watermark := cb_tid b\<rparr>"
  have run: "ap_apply (build_delta (cb_tid b) (cb_records b) (cb_types b) rt priors dels actor stamp) a = (Inr True, a')"
    using a1(1) a2(1) wm
    by (simp add: ap_apply_def build_delta_def check_delta_header_def opt_get_def has_required_keys_def
        ap_advance_def ap_apply_ops_append a'_def flip: a0_def)
  have "dict_get (ap_objects a') oid = map_option sr_payload (batch_effect b oid (f oid))" for oid
  proof -
    have "set (map fst dels) = set (cb_deletes b)"
      using tb by (simp only: tombstones_read_def)
    then have "dict_get (ap_objects a2) oid = (if oid \<in> set (cb_deletes b) then None else dict_get (ap_objects a1) oid)"
      using a2(2) by simp
    then show ?thesis
      using a1(2) objs by (simp add: a'_def batch_effect_def split: option.split)
  qed
  then have "mirrors (\<lambda>oid. batch_effect b oid (f oid)) (T \<union> set (cb_types b)) a'"
    using types t2 by (auto simp: mirrors_def a'_def)
  then show ?thesis
    using run by (auto simp: a'_def)
qed

section \<open>A watched store\<close>

text \<open>
  \<open>stream_run commit find types n s ds m t\<close>: commits with the TIDs \<open>n + 1, .., m\<close> take the store
  from \<open>s\<close> to \<open>t\<close> and emit the deltas \<open>ds\<close>. A commit whose second phase fails emits none and
  leaves the store and the TID as they were.
\<close>

inductive stream_run ::
    "(commit_batch \<Rightarrow> 's \<Rightarrow> unit res \<times> 's) \<Rightarrow> ('s \<Rightarrow> nat \<Rightarrow> stored_record option) \<Rightarrow> ('s \<Rightarrow> type_row set)
       \<Rightarrow> nat \<Rightarrow> 's \<Rightarrow> delta list \<Rightarrow> nat \<Rightarrow> 's \<Rightarrow> bool"
  for commit find types where
  stop: "stream_run commit find types n s [] n s"
| committed: "commit b s = (Inr u, s1) \<Longrightarrow> cb_tid b = n + 1 \<Longrightarrow> plain_batch b \<Longrightarrow> batch_wf (find s) (types s) b
    \<Longrightarrow> priors_read (find s) b priors \<Longrightarrow> tombstones_read (find s) b dels
    \<Longrightarrow> stream_run commit find types (n + 1) s1 ds m t
    \<Longrightarrow> stream_run commit find types n s
          (build_delta (cb_tid b) (cb_records b) (cb_types b) rt priors dels actor stamp # ds) m t"
| failed: "commit b s = (Inl e, s1) \<Longrightarrow> stream_run commit find types n s1 ds m t
    \<Longrightarrow> stream_run commit find types n s ds m t"

context storage_backend begin

lemma mirror_commit:
  assumes "inv s" and "plain_batch b" and "commit b s = (Inr u, t)"
    and "mirrors (find s) (type_set s) a" and "batch_wf (find s) (type_set s) b"
    and "cb_tid b = ap_watermark a + 1" and "priors_read (find s) b priors" and "tombstones_read (find s) b dels"
  shows "\<exists>a'. ap_apply (build_delta (cb_tid b) (cb_records b) (cb_types b) rt priors dels actor stamp) a = (Inr True, a')
    \<and> mirrors (find t) (type_set t) a' \<and> ap_root a' = rt \<and> ap_watermark a' = cb_tid b"
proof -
  have "find t = (\<lambda>oid. batch_effect b oid (find s oid))"
    using commit_find [OF assms(1-3)] by blast
  then show ?thesis
    using mirror_step [OF assms(4-8)] commit_types [OF assms(1-3)] by metis
qed

lemma stream_mirrors:
  assumes "stream_run commit find type_set n s ds m t"
  shows "inv s \<Longrightarrow> mirrors (find s) (type_set s) a \<Longrightarrow> ap_watermark a = n \<Longrightarrow>
    \<exists>a'. deliver_all ap_apply ds a = Inr a' \<and> mirrors (find t) (type_set t) a' \<and> ap_watermark a' = m"
  using assms
proof (induction arbitrary: a rule: stream_run.induct)
  case (stop n s)
  then show ?case by auto
next
  case (committed b s u s1 n priors dels ds m t rt actor stamp)
  obtain a1 where a1: "ap_apply (build_delta (cb_tid b) (cb_records b) (cb_types b) rt priors dels actor stamp) a = (Inr True, a1)"
    "mirrors (find s1) (type_set s1) a1" "ap_watermark a1 = n + 1"
    using mirror_commit [OF committed.prems(1) committed.hyps(3,1) committed.prems(2) committed.hyps(4)]
      committed.hyps committed.prems(3) by metis
  have "inv s1"
    by (rule commit_inv [OF committed.prems(1) committed.hyps(3,1)])
  from committed.IH [OF this a1(2,3)] show ?case
    using a1(1) by (simp add: ap.deliver_Cons)
next
  case (failed b s e s1 n ds m t)
  then have "s1 = s"
    using commit_fails by blast
  then show ?case using failed by blast
qed

end

section \<open>The digest depends on the content only\<close>

lemma dict_keys_sorted:
  assumes "dict_wf d" and "dict_wf e" and "dict_get d = dict_get e"
  shows "sort (dict_keys d) = sort (dict_keys (e :: ('k :: linorder \<times> 'v) list))"
proof -
  have "set (dict_keys d) = set (dict_keys e)"
    using assms(3) by (metis dom_map_of_conv_image_fst set_map)
  then show ?thesis
    using assms(1,2) unfolding dict_wf_def
    by (metis distinct_remdups_id sorted_list_of_set_sort_remdups)
qed

lemma digest_bytes_content:
  assumes "dict_wf (ap_types a)" and "dict_wf (ap_types b)" and "dict_wf (ap_objects a)" and "dict_wf (ap_objects b)"
    and "dict_get (ap_types a) = dict_get (ap_types b)" and "dict_get (ap_objects a) = dict_get (ap_objects b)"
    and "ap_root a = ap_root b" and "ap_watermark a = ap_watermark b"
  shows "digest_bytes a = digest_bytes b"
  using dict_keys_sorted [OF assms(1,2,5)] dict_keys_sorted [OF assms(3,4,6)]
  unfolding digest_bytes_def assms(5-8) by simp

definition ap_ok :: "applier \<Rightarrow> bool" where
  "ap_ok a \<longleftrightarrow> dict_wf (ap_types a) \<and> dict_wf (ap_objects a)"

lemma ap_ops_ok: "ap_apply_ops ops a = (r, a') \<Longrightarrow> ap_ok a \<Longrightarrow> ap_ok a'"
proof (induction ops arbitrary: a)
  case Nil
  then show ?case by simp
next
  case (Cons op ops)
  show ?case
  proof (cases "ap_apply_op op a")
    case (Inl e)
    then show ?thesis using Cons.prems by auto
  next
    case (Inr a1)
    then have "ap_ok a1"
      using Cons.prems(2)
      by (auto simp: ap_ok_def ap_apply_op_def Let_def split: option.splits if_splits pyval.splits)
    then show ?thesis using Cons.IH [of a1] Cons.prems(1) Inr by simp
  qed
qed

lemma ap_apply_keeps_ok:
  assumes "ap_apply d a = (r, a')" and "ap_ok a"
  shows "ap_ok a'"
proof -
  have t: "dict_wf (fold (\<lambda>(cid, name, fs). AList.update cid (name, fs)) rows dd)" if "dict_wf dd"
    for rows :: "type_row list" and dd
    using that by (induction rows arbitrary: dd) auto
  have "ap_ok (ap_put_types ts a)" for ts
    using assms(2) t by (simp add: ap_ok_def ap_put_types_def)
  then have adv: "ap_advance n ts ops rt a = (r', b) \<Longrightarrow> ap_ok b" for n ts ops rt r' b
    using ap_ops_ok [of ops "ap_put_types ts a"]
    by (auto simp: ap_advance_def split: prod.splits sum.splits) (simp_all add: ap_ok_def)
  show ?thesis
    using assms adv ap_apply_unshaped [of d a]
    by (cases "well_shaped d") (auto simp: ap_apply_shaped split: if_splits)
qed

end
