(* ===== verification/Delta_Log.thy ===== *)
theory Delta_Log
  imports Delta
begin

text \<open>
  The durable delta log, \<open>deltalog.py\<close>.

  \<^item> \<open>log_disk\<close> is the log directory: the manifest (as a record; its JSON text is not modelled) and
    the segment files under \<open>data/\<close>. \<open>delta_log\<close> is the live object. \<open>enc\<close> and \<open>dec\<close> are
    msgspec's encoder and decoder of a delta map.
  \<^item> \<open>io_fault\<close> is what may go wrong in one \<open>flush\<close>: nothing, a write that fails after some bytes
    reached the segment file, or a manifest that cannot be replaced. A crash is a fault after which
    only the directory survives.
  \<^item> \<open>log_inv\<close> ties the live object, the directory and the recorded history together;
    \<open>recover_history\<close> shows that reopening after any fault finds exactly the durable history.
\<close>

definition LOG_FORMAT :: string where "LOG_FORMAT = ''datacrystal-delta-log''"
definition LOG_VERSION :: int where "LOG_VERSION = 1"
definition FRAME_SIZE :: nat where "FRAME_SIZE = 8"
definition VALID_OPS :: "string list" where "VALID_OPS = [''upsert'', ''delete'']"

record segment =
  sg_name :: string
  sg_first :: nat
  sg_last :: nat
  sg_bytes :: nat

record manifest =
  mf_format :: string
  mf_version :: int
  mf_contract :: "int option"
  mf_watermark :: nat
  mf_genesis_tid :: nat
  mf_genesis_types :: "type_row list"
  mf_next_segment :: nat
  mf_segments :: "segment list"

record log_disk =
  dk_manifest :: "manifest option"
  dk_files :: "(string, bytes) dict"

record delta_log =
  lg_flush_every :: nat
  lg_max_bytes :: nat
  lg_segments :: "segment list"
  lg_next :: nat
  lg_watermark :: nat
  lg_applied :: nat
  lg_genesis_tid :: nat
  lg_genesis_types :: "type_row list"
  lg_buffer :: "(nat \<times> bytes) list"
  lg_since :: nat
  lg_flushed :: nat

section \<open>Opening\<close>

definition load_manifest :: "log_disk \<Rightarrow> delta_log \<Rightarrow> delta_log res" where
  "load_manifest dk l =
     (case dk_manifest dk of
        None \<Rightarrow> Inr l
      | Some m \<Rightarrow>
          if mf_format m \<noteq> LOG_FORMAT then Inl DeltaLogConfigError
          else if mf_version m > LOG_VERSION then Inl DeltaLogConfigError
          else if mf_contract m \<noteq> Some CONTRACT_VERSION then Inl DeltaLogConfigError
          else Inr (l\<lparr>lg_watermark := mf_watermark m, lg_applied := mf_watermark m,
                      lg_genesis_tid := mf_genesis_tid m, lg_genesis_types := mf_genesis_types m,
                      lg_next := mf_next_segment m, lg_segments := mf_segments m\<rparr>))"

text \<open>\<open>os.truncate\<close> cuts a longer file and zero-fills a shorter one.\<close>

definition truncate_bytes :: "nat \<Rightarrow> bytes \<Rightarrow> bytes" where
  "truncate_bytes n bs = take n bs @ replicate (n - length bs) 0"

definition is_segment_file :: "string \<Rightarrow> bool" where
  "is_segment_file name \<longleftrightarrow>
     take 4 name = ''seg-'' \<and> length name \<ge> 9 \<and> drop (length name - 5) name = ''.dlog''"

definition reconcile_segments :: "delta_log \<Rightarrow> log_disk \<Rightarrow> log_disk" where
  "reconcile_segments l dk =
     (let named = map sg_name (lg_segments l);
          cut = fold (\<lambda>sg files.
                  case dict_get files (sg_name sg) of
                    None \<Rightarrow> files
                  | Some bs \<Rightarrow> if length bs \<noteq> sg_bytes sg
                               then AList.update (sg_name sg) (truncate_bytes (sg_bytes sg) bs) files
                               else files)
                (lg_segments l) (dk_files dk)
      in dk\<lparr>dk_files := filter (\<lambda>(name, _). \<not> is_segment_file name \<or> name \<in> set named) cut\<rparr>)"

definition open_log :: "nat \<Rightarrow> nat \<Rightarrow> log_disk \<Rightarrow> (delta_log \<times> log_disk) res" where
  "open_log flush_every max_bytes dk =
     (if flush_every < 1 then Inl DeltaLogConfigError
      else if max_bytes < FRAME_SIZE + 1 then Inl DeltaLogConfigError
      else bind_res
        (load_manifest dk
          \<lparr>lg_flush_every = flush_every, lg_max_bytes = max_bytes, lg_segments = [], lg_next = 1,
           lg_watermark = 0, lg_applied = 0, lg_genesis_tid = 0, lg_genesis_types = [],
           lg_buffer = [], lg_since = 0, lg_flushed = 0\<rparr>)
        (\<lambda>l. Inr (l, reconcile_segments l dk)))"

section \<open>Flushing\<close>

datatype io_fault = NoFault | PartialAppend nat | ManifestFails

definition pad6 :: "nat \<Rightarrow> string" where
  "pad6 n = replicate (6 - length (str_of_nat n)) (CHR ''0'') @ str_of_nat n"

definition segment_name :: "nat \<Rightarrow> string" where
  "segment_name n = ''seg-'' @ pad6 n @ ''.dlog''"

definition frame :: "bytes \<Rightarrow> bytes res" where
  "frame raw = bind_res (pack_Q (length raw)) (\<lambda>h. Inr (h @ raw))"

definition ensure_current_segment :: "delta_log \<Rightarrow> delta_log" where
  "ensure_current_segment l =
     (if lg_segments l \<noteq> [] \<and> sg_bytes (last (lg_segments l)) < lg_max_bytes l then l
      else l\<lparr>lg_next := lg_next l + 1,
             lg_segments := lg_segments l @
               [\<lparr>sg_name = segment_name (lg_next l), sg_first = 0, sg_last = 0, sg_bytes = 0\<rparr>]\<rparr>)"

definition append_file :: "string \<Rightarrow> bytes \<Rightarrow> log_disk \<Rightarrow> log_disk" where
  "append_file name bs dk =
     dk\<lparr>dk_files := AList.update name (dict_getd (dk_files dk) name [] @ bs) (dk_files dk)\<rparr>"

definition manifest_of :: "delta_log \<Rightarrow> manifest" where
  "manifest_of l =
     \<lparr>mf_format = LOG_FORMAT, mf_version = LOG_VERSION, mf_contract = Some CONTRACT_VERSION,
      mf_watermark = lg_watermark l, mf_genesis_tid = lg_genesis_tid l,
      mf_genesis_types = lg_genesis_types l, mf_next_segment = lg_next l, mf_segments = lg_segments l\<rparr>"

definition write_manifest :: "delta_log \<Rightarrow> log_disk \<Rightarrow> log_disk" where
  "write_manifest l dk = dk\<lparr>dk_manifest := Some (manifest_of l)\<rparr>"

definition flush_log :: "io_fault \<Rightarrow> delta_log \<times> log_disk \<Rightarrow> unit res \<times> (delta_log \<times> log_disk)" where
  "flush_log fault st =
     (case st of (l0, dk) \<Rightarrow>
        let l = l0\<lparr>lg_flushed := 0\<rparr> in
        if lg_buffer l = [] then (Inr (), (l, dk))
        else
          (case map_res (\<lambda>(_, raw). frame raw) (lg_buffer l) of
             Inl e \<Rightarrow> (Inl e, (l, dk))
           | Inr frames \<Rightarrow>
               let blob = concat frames;
                   l1 = ensure_current_segment l;
                   sg = last (lg_segments l1);
                   name = sg_name sg
               in
               (case fault of
                  PartialAppend k \<Rightarrow> (Inl PyOSError, (l1, append_file name (take k blob) dk))
                | _ \<Rightarrow>
                    let dk1 = append_file name blob dk;
                        sg1 = sg\<lparr>sg_first := (if sg_first sg = 0 then fst (hd (lg_buffer l)) else sg_first sg),
                                 sg_last := fst (last (lg_buffer l)),
                                 sg_bytes := sg_bytes sg + length blob\<rparr>;
                        l2 = l1\<lparr>lg_segments := butlast (lg_segments l1) @ [sg1],
                                lg_watermark := lg_applied l1\<rparr>
                    in if fault = ManifestFails then (Inl PyOSError, (l2, dk1))
                       else (Inr (),
                             (l2\<lparr>lg_flushed := length blob, lg_buffer := [], lg_since := 0\<rparr>,
                              write_manifest l2 dk1)))))"

section \<open>Applying\<close>

definition op_valid :: "delta_op \<Rightarrow> bool res" where
  "op_valid op =
     (case op_kind op of None \<Rightarrow> Inl PyKeyError
      | Some k \<Rightarrow> Inr (\<exists>v \<in> set VALID_OPS. py_eq k (PStr v)))"

definition check_ops :: "delta_op list \<Rightarrow> unit res" where
  "check_ops ops =
     fold_res (\<lambda>op _. bind_res (op_valid op) (\<lambda>ok. guard_res ok DeltaFormatError)) ops ()"

definition log_apply ::
    "(delta \<Rightarrow> bytes res) \<Rightarrow> io_fault \<Rightarrow> delta \<Rightarrow> delta_log \<times> log_disk \<Rightarrow> bool res \<times> (delta_log \<times> log_disk)" where
  "log_apply enc fault d st =
     (case st of (l, dk) \<Rightarrow>
        (case check_delta_header d of
           Inl e \<Rightarrow> (Inl e, st)
         | Inr _ \<Rightarrow>
             (case (has_required_keys d, dl_tid d, dl_ops d) of
                (True, Some tid, Some ops) \<Rightarrow>
                  if tid \<le> lg_applied l then (Inr False, st)
                  else if tid \<noteq> lg_applied l + 1 then (Inl DeltaGapError, st)
                  else
                    (case bind_res (check_ops ops) (\<lambda>_. enc d) of
                       Inl e \<Rightarrow> (Inl e, st)
                     | Inr raw \<Rightarrow>
                         let l1 = l\<lparr>lg_buffer := lg_buffer l @ [(tid, raw)], lg_applied := tid,
                                    lg_since := lg_since l + 1\<rparr>
                         in if lg_since l1 \<ge> lg_flush_every l1
                            then (case flush_log fault (l1, dk) of
                                    (Inl e, st') \<Rightarrow> (Inl e, st')
                                  | (Inr _, st') \<Rightarrow> (Inr True, st'))
                            else (Inr True, (l1, dk)))
              | _ \<Rightarrow> (Inl DeltaFormatError, st))))"

definition bootstrap_log ::
    "nat \<Rightarrow> nat \<Rightarrow> nat \<Rightarrow> type_row list \<Rightarrow> (delta_log \<times> log_disk) res" where
  "bootstrap_log flush_every max_bytes snap_tid snap_types =
     bind_res (open_log flush_every max_bytes \<lparr>dk_manifest = None, dk_files = []\<rparr>)
       (\<lambda>(l, dk).
          let l1 = l\<lparr>lg_genesis_tid := snap_tid, lg_genesis_types := snap_types,
                     lg_watermark := snap_tid, lg_applied := snap_tid\<rparr>
          in Inr (l1, write_manifest l1 dk))"

section \<open>Replay\<close>

function iter_frames :: "nat \<Rightarrow> bytes \<Rightarrow> bytes list" where
  "iter_frames remaining f =
     (if remaining < FRAME_SIZE \<or> length f < FRAME_SIZE then []
      else
        let n = be_val (take FRAME_SIZE f);
            raw = take n (drop FRAME_SIZE f)
        in if length raw < n then []
           else raw # iter_frames (remaining - (FRAME_SIZE + n)) (drop (FRAME_SIZE + n) f))"
  by pat_completeness auto
termination
  by (relation "measure fst") (auto simp: FRAME_SIZE_def)

declare iter_frames.simps [simp del]

definition iter_segment :: "(bytes \<Rightarrow> delta res) \<Rightarrow> log_disk \<Rightarrow> segment \<Rightarrow> delta list res" where
  "iter_segment dec dk sg =
     (case dict_get (dk_files dk) (sg_name sg) of
        None \<Rightarrow> Inl PyOSError
      | Some f \<Rightarrow> map_res dec (iter_frames (sg_bytes sg) f))"

definition tid_after :: "nat \<Rightarrow> delta \<Rightarrow> bool res" where
  "tid_after after_tid d =
     (case dl_tid d of None \<Rightarrow> Inl PyKeyError | Some t \<Rightarrow> Inr (t > after_tid))"

fun filter_res :: "('a \<Rightarrow> bool res) \<Rightarrow> 'a list \<Rightarrow> 'a list res" where
  "filter_res P [] = Inr []"
| "filter_res P (x # xs) =
     bind_res (P x) (\<lambda>b. bind_res (filter_res P xs) (\<lambda>ys. Inr (if b then x # ys else ys)))"

definition replay_segments :: "(bytes \<Rightarrow> delta res) \<Rightarrow> nat \<Rightarrow> log_disk \<Rightarrow> segment list \<Rightarrow> delta list res" where
  "replay_segments dec after_tid dk sgs =
     fold_res
       (\<lambda>sg out.
          if sg_last sg \<le> after_tid then Inr out
          else bind_res (iter_segment dec dk sg) (\<lambda>ds.
               bind_res (filter_res (tid_after after_tid) ds) (\<lambda>ds'. Inr (out @ ds'))))
       sgs []"

definition replay_log :: "(bytes \<Rightarrow> delta res) \<Rightarrow> nat \<Rightarrow> delta_log \<times> log_disk \<Rightarrow> delta list res" where
  "replay_log dec after_tid st =
     (case st of (l, dk) \<Rightarrow>
        bind_res (replay_segments dec after_tid dk (lg_segments l)) (\<lambda>durable.
        bind_res (map_res dec (map snd (filter (\<lambda>(tid, _). tid > after_tid) (lg_buffer l)))) (\<lambda>buffered.
        Inr (durable @ buffered))))"

definition replayed_state :: "(bytes \<Rightarrow> delta res) \<Rightarrow> (bytes \<Rightarrow> bytes) \<Rightarrow> delta_log \<times> log_disk \<Rightarrow> string res" where
  "replayed_state dec sha st =
     (case st of (l, dk) \<Rightarrow>
        let a = ap_put_types (lg_genesis_types l) (new_applier\<lparr>ap_watermark := lg_genesis_tid l\<rparr>)
        in bind_res (replay_log dec (lg_genesis_tid l) st) (\<lambda>ds.
           bind_res (deliver_all ap_apply ds a) (\<lambda>a'. Inr (state_digest sha a'))))"

section \<open>Frames\<close>

definition frame_bytes :: "bytes \<Rightarrow> bytes" where
  "frame_bytes raw = be_bytes 8 (length raw) @ raw"

definition frames_of :: "(nat \<times> bytes) list \<Rightarrow> bytes" where
  "frames_of es = concat (map (\<lambda>(_, raw). frame_bytes raw) es)"

lemma frames_of_simps [simp]:
  "frames_of [] = []" "frames_of ((t, raw) # es) = frame_bytes raw @ frames_of es"
  "frames_of (es @ fs) = frames_of es @ frames_of fs"
  by (simp_all add: frames_of_def)

lemma frame_Inr: "length raw < 2 ^ 64 \<Longrightarrow> frame raw = Inr (frame_bytes raw)"
  by (simp add: frame_def pack_Q_def frame_bytes_def)

lemma frames_Inr:
  assumes "\<forall>(t, raw) \<in> set es. length raw < 2 ^ 64"
  shows "map_res (\<lambda>(_, raw). frame raw) es = Inr (map (\<lambda>(_, raw). frame_bytes raw) es)"
  using assms by (intro map_res_total) (auto simp: frame_Inr)

text \<open>Reading back what \<open>flush\<close> appended, up to the committed length, ignores any debris behind it.\<close>

lemma iter_frames_round:
  assumes "\<forall>(t, raw) \<in> set es. length raw < 2 ^ 64"
  shows "iter_frames (length (frames_of es)) (frames_of es @ debris) = map snd es"
  using assms
proof (induction es)
  case Nil
  then show ?case by (subst iter_frames.simps) (simp add: FRAME_SIZE_def)
next
  case (Cons e es)
  obtain t raw where e: "e = (t, raw)"
    by (cases e)
  have v: "be_val (be_bytes 8 (length raw)) = length raw"
    using Cons.prems by (simp add: be_val_bytes e)
  have "iter_frames (length (frames_of (e # es))) (frames_of (e # es) @ debris)
      = raw # iter_frames (length (frames_of es)) (frames_of es @ debris)"
    by (subst iter_frames.simps) (simp add: e frame_bytes_def FRAME_SIZE_def v Let_def)
  then show ?case
    using Cons by (simp add: e)
qed

section \<open>The invariant\<close>

definition entry_ok :: "(bytes \<Rightarrow> delta res) \<Rightarrow> nat \<times> bytes \<Rightarrow> bool" where
  "entry_ok dec e \<longleftrightarrow> length (snd e) < 2 ^ 64 \<and> (\<exists>d. dec (snd e) = Inr d \<and> dl_tid d = Some (fst e))"

definition seg_ok :: "(string, bytes) dict \<Rightarrow> segment \<Rightarrow> (nat \<times> bytes) list \<Rightarrow> bool" where
  "seg_ok files sg es \<longleftrightarrow> es \<noteq> [] \<and> dict_get files (sg_name sg) = Some (frames_of es)
     \<and> sg_bytes sg = length (frames_of es) \<and> sg_first sg = fst (hd es) \<and> sg_last sg = fst (last es)"

text \<open>\<open>log_inv dec (l, dk) es\<close>: the segments hold exactly the entries \<open>concat es\<close>, one TID after another.\<close>

definition log_inv :: "(bytes \<Rightarrow> delta res) \<Rightarrow> delta_log \<times> log_disk \<Rightarrow> (nat \<times> bytes) list list \<Rightarrow> bool" where
  "log_inv dec st es \<longleftrightarrow>
     (let l = fst st; dk = snd st in
       1 \<le> lg_flush_every l \<and> FRAME_SIZE + 1 \<le> lg_max_bytes l
     \<and> list_all2 (seg_ok (dk_files dk)) (lg_segments l) es
     \<and> (\<exists>ns. map sg_name (lg_segments l) = map segment_name ns \<and> distinct ns \<and> (\<forall>n \<in> set ns. n < lg_next l))
     \<and> lg_genesis_tid l \<le> lg_watermark l \<and> lg_watermark l \<le> lg_applied l
     \<and> map fst (concat es) = [lg_genesis_tid l + 1..<lg_watermark l + 1]
     \<and> map fst (lg_buffer l) = [lg_watermark l + 1..<lg_applied l + 1]
     \<and> (\<forall>e \<in> set (concat es @ lg_buffer l). entry_ok dec e)
     \<and> (dk_manifest dk = Some (manifest_of l) \<or>
        dk_manifest dk = None \<and> lg_segments l = [] \<and> lg_watermark l = 0 \<and> lg_genesis_tid l = 0
          \<and> lg_genesis_types l = [] \<and> lg_next l = 1)
     \<and> (\<forall>name \<in> set (dict_keys (dk_files dk)). is_segment_file name \<longrightarrow> name \<in> set (map sg_name (lg_segments l))))"

lemma log_invD:
  assumes "log_inv dec (l, dk) es"
  shows "1 \<le> lg_flush_every l" "FRAME_SIZE + 1 \<le> lg_max_bytes l"
    "list_all2 (seg_ok (dk_files dk)) (lg_segments l) es"
    "\<exists>ns. map sg_name (lg_segments l) = map segment_name ns \<and> distinct ns \<and> (\<forall>n \<in> set ns. n < lg_next l)"
    "lg_genesis_tid l \<le> lg_watermark l" "lg_watermark l \<le> lg_applied l"
    "map fst (concat es) = [lg_genesis_tid l + 1..<lg_watermark l + 1]"
    "map fst (lg_buffer l) = [lg_watermark l + 1..<lg_applied l + 1]"
    "\<forall>e \<in> set (concat es @ lg_buffer l). entry_ok dec e"
    "dk_manifest dk = Some (manifest_of l) \<or>
        dk_manifest dk = None \<and> lg_segments l = [] \<and> lg_watermark l = 0 \<and> lg_genesis_tid l = 0
          \<and> lg_genesis_types l = [] \<and> lg_next l = 1"
    "\<forall>name \<in> set (dict_keys (dk_files dk)). is_segment_file name \<longrightarrow> name \<in> set (map sg_name (lg_segments l))"
  using assms by (simp_all add: log_inv_def Let_def)

text \<open>Segment names are distinct: the padding does not change the number they spell.\<close>

lemma text_digits_zeros: "text_digits True 0 (replicate k (CHR ''0'') @ cs) = text_digits True 0 cs"
  by (induction k) (simp_all add: char_digit_def)

lemma pad6_digits: "text_digits True 0 (pad6 n) = Some n"
  unfolding pad6_def text_digits_zeros using text_digits_str_of_nat [of True 0 n "[]"] by simp

lemma segment_name_inj: "segment_name m = segment_name n \<longleftrightarrow> m = n"
proof
  assume "segment_name m = segment_name n"
  then have "pad6 m = pad6 n"
    by (simp add: segment_name_def)
  then have "Some m = Some n"
    using pad6_digits by metis
  then show "m = n"
    by simp
qed simp

lemma segment_name_file: "is_segment_file (segment_name n)"
  by (simp add: is_segment_file_def segment_name_def)

lemma names_distinct:
  "map f xs = map segment_name ns \<Longrightarrow> distinct ns \<Longrightarrow> distinct (map f xs)"
  by (simp add: distinct_map inj_on_def segment_name_inj)

section \<open>Opening and replaying\<close>

lemma filter_res_total: "(\<And>x. x \<in> set xs \<Longrightarrow> P x = Inr (Q x)) \<Longrightarrow> filter_res P xs = Inr (filter Q xs)"
  by (induction xs) auto

definition entry_delta :: "(bytes \<Rightarrow> delta res) \<Rightarrow> nat \<times> bytes \<Rightarrow> delta" where
  "entry_delta dec e = (case dec (snd e) of Inr d \<Rightarrow> d | Inl _ \<Rightarrow> undefined)"

lemma entry_dec:
  assumes "entry_ok dec e"
  shows "dec (snd e) = Inr (entry_delta dec e)" and "dl_tid (entry_delta dec e) = Some (fst e)"
  using assms by (auto simp: entry_ok_def entry_delta_def)

lemma entries_dec:
  "\<forall>e \<in> set es. entry_ok dec e \<Longrightarrow> map_res dec (map snd es) = Inr (map (entry_delta dec) es)"
  by (induction es) (auto simp: entry_dec(1))

lemma iter_segment_ok:
  assumes "seg_ok (dk_files dk) sg es" and "\<forall>e \<in> set es. entry_ok dec e"
  shows "iter_segment dec dk sg = Inr (map (entry_delta dec) es)"
proof -
  have "iter_frames (sg_bytes sg) (frames_of es) = map snd es"
  proof -
    have "\<forall>(t, raw) \<in> set es. length raw < 2 ^ 64"
      using assms(2) by (auto simp: entry_ok_def)
    then show ?thesis
      using iter_frames_round [of es "[]"] assms(1) by (simp add: seg_ok_def)
  qed
  then show ?thesis
    using assms by (simp add: iter_segment_def seg_ok_def entries_dec)
qed

lemma filter_entries:
  assumes "\<forall>e \<in> set es. entry_ok dec e"
  shows "filter_res (tid_after n) (map (entry_delta dec) es) = Inr (map (entry_delta dec) (filter (\<lambda>e. fst e > n) es))"
proof -
  have "filter_res (tid_after n) (map (entry_delta dec) es) = Inr (filter (\<lambda>d. delta_tid d > n) (map (entry_delta dec) es))"
    using assms by (intro filter_res_total) (auto simp: tid_after_def entry_dec(2) delta_tid_def)
  moreover have "filter (\<lambda>d. delta_tid d > n) (map (entry_delta dec) es) = map (entry_delta dec) (filter (\<lambda>e. fst e > n) es)"
    using assms by (induction es) (auto simp: delta_tid_def entry_dec(2))
  ultimately show ?thesis by simp
qed

lemma sorted_le_last: "sorted xs \<Longrightarrow> x \<in> set xs \<Longrightarrow> x \<le> last (xs :: nat list)"
  by (induction xs) auto

lemma replay_segments_ok:
  assumes "list_all2 (seg_ok (dk_files dk)) sgs es" and "\<forall>e \<in> set (concat es). entry_ok dec e"
    and "sorted (map fst (concat es))"
  shows "replay_segments dec n dk sgs = Inr (map (entry_delta dec) (filter (\<lambda>e. fst e > n) (concat es)))"
proof -
  define step where "step = (\<lambda>sg out.
          if sg_last sg \<le> n then Inr out
          else bind_res (iter_segment dec dk sg) (\<lambda>ds.
               bind_res (filter_res (tid_after n) ds) (\<lambda>ds'. Inr (out @ ds'))))"
  have "fold_res step sgs out = Inr (out @ map (entry_delta dec) (filter (\<lambda>e. fst e > n) (concat es)))" for out
    using assms
  proof (induction arbitrary: out rule: list_all2_induct)
    case Nil
    then show ?case by simp
  next
    case (Cons sg sgs es1 ess)
    have ok: "\<forall>e \<in> set es1. entry_ok dec e"
      using Cons.prems(1) by simp
    have last: "fst e \<le> sg_last sg" if "e \<in> set es1" for e
    proof -
      have "sorted (map fst es1)"
        using Cons.prems(2) by (simp add: sorted_append)
      then have "fst e \<le> last (map fst es1)"
        using that by (intro sorted_le_last) auto
      then show ?thesis
        using that Cons.hyps(1) by (simp add: seg_ok_def last_map)
    qed
    have "step sg out = Inr (out @ map (entry_delta dec) (filter (\<lambda>e. fst e > n) es1))"
    proof (cases "sg_last sg \<le> n")
      case True
      then have "filter (\<lambda>e. fst e > n) es1 = []"
        using last by (fastforce simp: filter_empty_conv)
      then show ?thesis using True by (simp add: step_def)
    next
      case False
      then show ?thesis
        using iter_segment_ok [OF Cons.hyps(1) ok] filter_entries [OF ok] by (simp add: step_def)
    qed
    moreover have "fold_res step sgs out' = Inr (out' @ map (entry_delta dec) (filter (\<lambda>e. fst e > n) (concat ess)))" for out'
      using Cons.prems by (intro Cons.IH) (auto simp: sorted_append)
    ultimately show ?case by simp
  qed
  then show ?thesis
    by (simp add: replay_segments_def step_def)
qed

text \<open>Replay yields the recorded deltas after the cursor, each once, in TID order.\<close>

lemma replay_exact:
  assumes "log_inv dec (l, dk) es"
  shows "replay_log dec n (l, dk) = Inr (map (entry_delta dec) (filter (\<lambda>e. fst e > n) (concat es @ lg_buffer l)))"
    and "map fst (concat es @ lg_buffer l) = [lg_genesis_tid l + 1..<lg_applied l + 1]"
proof -
  note inv = log_invD [OF assms]
  have "sorted (map fst (concat es))"
    by (simp only: inv(7) sorted_upt)
  then have seg: "replay_segments dec n dk (lg_segments l) = Inr (map (entry_delta dec) (filter (\<lambda>e. fst e > n) (concat es)))"
    using inv(3,9) by (intro replay_segments_ok) auto
  have "map_res dec (map snd (filter (\<lambda>e. fst e > n) (lg_buffer l)))
      = Inr (map (entry_delta dec) (filter (\<lambda>e. fst e > n) (lg_buffer l)))"
    using inv(9) by (intro entries_dec) auto
  then have "map_res dec (map snd (filter (\<lambda>(tid, _). tid > n) (lg_buffer l)))
      = Inr (map (entry_delta dec) (filter (\<lambda>e. fst e > n) (lg_buffer l)))"
    by (simp only: case_prod_unfold)
  then show "replay_log dec n (l, dk) = Inr (map (entry_delta dec) (filter (\<lambda>e. fst e > n) (concat es @ lg_buffer l)))"
    using seg by (simp add: replay_log_def)
  have "map fst (concat es @ lg_buffer l) = [lg_genesis_tid l + 1..<lg_watermark l + 1] @ [lg_watermark l + 1..<lg_applied l + 1]"
    using inv(7,8) by simp
  also have "\<dots> = [lg_genesis_tid l + 1..<lg_applied l + 1]"
    using upt_add_eq_append [of "lg_genesis_tid l + 1" "lg_watermark l + 1" "lg_applied l - lg_watermark l"] inv(5,6)
    by simp
  finally show "map fst (concat es @ lg_buffer l) = [lg_genesis_tid l + 1..<lg_applied l + 1]" .
qed

section \<open>Recovery\<close>

definition cut_step :: "segment \<Rightarrow> (string, bytes) dict \<Rightarrow> (string, bytes) dict" where
  "cut_step sg files =
     (case dict_get files (sg_name sg) of
        None \<Rightarrow> files
      | Some bs \<Rightarrow> if length bs \<noteq> sg_bytes sg
                   then AList.update (sg_name sg) (truncate_bytes (sg_bytes sg) bs) files
                   else files)"

lemma reconcile_alt:
  "reconcile_segments l dk =
     dk\<lparr>dk_files := filter (\<lambda>(name, _). \<not> is_segment_file name \<or> name \<in> set (map sg_name (lg_segments l)))
          (fold cut_step (lg_segments l) (dk_files dk))\<rparr>"
  by (simp add: reconcile_segments_def cut_step_def [abs_def] Let_def)

lemma dict_get_filter_key:
  "dict_get (filter (\<lambda>(k, _). P k) d) k = (if P k then dict_get d k else None)"
  by (induction d) auto

lemma cut_step_get:
  assumes "sg_name sg \<noteq> name"
  shows "dict_get (cut_step sg files) name = dict_get files name"
  using assms by (simp add: cut_step_def split: option.split)

lemma cut_fold_other:
  "name \<notin> sg_name ` set sgs \<Longrightarrow> dict_get (fold cut_step sgs files) name = dict_get files name"
  by (induction sgs arbitrary: files) (auto simp: cut_step_get)

lemma cut_step_prefix:
  assumes "dict_get files (sg_name sg) = Some (f @ debris)" and "sg_bytes sg = length f"
  shows "dict_get (cut_step sg files) (sg_name sg) = Some f"
  using assms by (auto simp: cut_step_def truncate_bytes_def)

lemma cut_fold_prefix:
  assumes "distinct (map sg_name sgs)" and "sg \<in> set sgs"
    and "dict_get files (sg_name sg) = Some (f @ debris)" and "sg_bytes sg = length f"
  shows "dict_get (fold cut_step sgs files) (sg_name sg) = Some f"
  using assms
proof (induction sgs arbitrary: files)
  case Nil
  then show ?case by simp
next
  case (Cons s sgs)
  show ?case
  proof (cases "sg = s")
    case True
    then have "sg_name sg \<notin> sg_name ` set sgs"
      using Cons.prems(1) by simp
    then show ?thesis
      using cut_step_prefix [OF Cons.prems(3,4)] True by (simp add: cut_fold_other)
  next
    case False
    then have m: "sg \<in> set sgs"
      using Cons.prems(2) by simp
    then have "sg_name s \<noteq> sg_name sg"
      using Cons.prems(1) by (metis distinct.simps(2) image_eqI list.simps(9) set_map)
    then show ?thesis
      using Cons.IH [of "cut_step s files"] Cons.prems m by (simp add: cut_step_get)
  qed
qed

text \<open>
  Whatever a crash appended behind the committed length, and whatever segment files it created that
  the manifest does not name, reopening restores the durable history.
\<close>

lemma open_recovers:
  assumes inv: "log_inv dec (l, dk) es"
    and man: "dk_manifest dk' = dk_manifest dk"
    and files: "\<forall>sg \<in> set (lg_segments l). \<forall>f. dict_get (dk_files dk) (sg_name sg) = Some f \<longrightarrow>
      (\<exists>debris. dict_get (dk_files dk') (sg_name sg) = Some (f @ debris))"
    and cfg: "1 \<le> fe" "FRAME_SIZE + 1 \<le> mb"
  shows "\<exists>l' dk''. open_log fe mb dk' = Inr (l', dk'') \<and> log_inv dec (l', dk'') es
    \<and> lg_applied l' = lg_watermark l \<and> lg_buffer l' = []"
proof -
  note i = log_invD [OF inv]
  define l0 where "l0 = \<lparr>lg_flush_every = fe, lg_max_bytes = mb, lg_segments = lg_segments l, lg_next = lg_next l,
           lg_watermark = lg_watermark l, lg_applied = lg_watermark l, lg_genesis_tid = lg_genesis_tid l,
           lg_genesis_types = lg_genesis_types l, lg_buffer = [], lg_since = 0, lg_flushed = 0\<rparr>"
  define dk'' where "dk'' = reconcile_segments l0 dk'"
  have open': "open_log fe mb dk' = Inr (l0, dk'')"
    using i(10) cfg man
    by (auto simp: open_log_def load_manifest_def l0_def dk''_def manifest_of_def FRAME_SIZE_def)
  have dist: "distinct (map sg_name (lg_segments l))"
    using i(4) names_distinct by metis
  have seg: "seg_ok (dk_files dk'') sg e" if s: "seg_ok (dk_files dk) sg e" and m: "sg \<in> set (lg_segments l)" for sg e
  proof -
    obtain debris where "dict_get (dk_files dk') (sg_name sg) = Some (frames_of e @ debris)"
      using files s m by (auto simp: seg_ok_def)
    then have "dict_get (fold cut_step (lg_segments l) (dk_files dk')) (sg_name sg) = Some (frames_of e)"
      using s by (intro cut_fold_prefix [OF dist m]) (auto simp: seg_ok_def)
    then have "dict_get (dk_files dk'') (sg_name sg) = Some (frames_of e)"
      using m by (simp add: dk''_def reconcile_alt l0_def dict_get_filter_key)
    then show ?thesis
      using s by (simp add: seg_ok_def)
  qed
  have "list_all2 (seg_ok (dk_files dk'')) (lg_segments l) es"
    using i(3) seg by (auto simp: list_all2_conv_all_nth)
  moreover have "\<forall>name \<in> set (dict_keys (dk_files dk'')). is_segment_file name \<longrightarrow> name \<in> set (map sg_name (lg_segments l))"
    by (auto simp: dk''_def reconcile_alt l0_def)
  moreover have "dk_manifest dk'' = dk_manifest dk"
    by (simp add: dk''_def reconcile_alt man)
  moreover have "manifest_of l0 = manifest_of l"
    by (simp add: manifest_of_def l0_def)
  ultimately have "log_inv dec (l0, dk'') es"
    using i cfg by (simp add: log_inv_def l0_def Let_def)
  then show ?thesis
    using open' by (intro exI [of _ l0] exI [of _ dk'']) (simp add: l0_def)
qed

section \<open>Flushing keeps the invariant\<close>

text \<open>The current segment before a flush: the last one with room, or a fresh empty one.\<close>

lemma current_segment:
  assumes inv: "log_inv dec (l, dk) es" and l1: "l1 = ensure_current_segment l"
  obtains sgs sg es0 e1 where "lg_segments l1 = sgs @ [sg]" and "list_all2 (seg_ok (dk_files dk)) sgs es0"
    and "concat es = concat es0 @ e1" and "dict_getd (dk_files dk) (sg_name sg) [] = frames_of e1"
    and "sg_bytes sg = length (frames_of e1)" and "e1 = [] \<Longrightarrow> sg_first sg = 0"
    and "e1 \<noteq> [] \<Longrightarrow> sg_first sg = fst (hd e1)" and "is_segment_file (sg_name sg)"
    and "\<exists>ns. map sg_name (lg_segments l1) = map segment_name ns \<and> distinct ns \<and> (\<forall>n \<in> set ns. n < lg_next l1)"
    and "set (map sg_name (lg_segments l)) \<subseteq> set (map sg_name (lg_segments l1))"
proof -
  note i = log_invD [OF inv]
  obtain ns where ns: "map sg_name (lg_segments l) = map segment_name ns" "distinct ns" "\<forall>n \<in> set ns. n < lg_next l"
    using i(4) by blast
  show thesis
  proof (cases "lg_segments l \<noteq> [] \<and> sg_bytes (last (lg_segments l)) < lg_max_bytes l")
    case True
    then have same: "l1 = l"
      by (simp add: l1 ensure_current_segment_def)
    obtain sgs sg where s: "lg_segments l = sgs @ [sg]"
      using True by (cases "lg_segments l" rule: rev_cases) auto
    obtain es0 e1 where e: "es = es0 @ [e1]" "list_all2 (seg_ok (dk_files dk)) sgs es0" "seg_ok (dk_files dk) sg e1"
      using i(3) by (auto simp: s list_all2_append1 list_all2_Cons1)
    have "sg_name sg \<in> set (map segment_name ns)"
      using ns(1) s by (metis in_set_conv_decomp list.simps(9) map_append)
    then have "is_segment_file (sg_name sg)"
      by (auto simp: segment_name_file)
    then show thesis
      using that [of sgs sg es0 e1] e s i(4) by (simp add: same seg_ok_def dict_getd_def)
  next
    case False
    define sg where "sg = \<lparr>sg_name = segment_name (lg_next l), sg_first = 0, sg_last = 0, sg_bytes = 0\<rparr>"
    have l1s: "lg_segments l1 = lg_segments l @ [sg]" "lg_next l1 = lg_next l + 1"
      using False by (auto simp: l1 ensure_current_segment_def sg_def)
    have new: "sg_name sg \<notin> set (map sg_name (lg_segments l))"
      using ns by (auto simp: sg_def segment_name_inj)
    have "sg_name sg \<notin> set (dict_keys (dk_files dk))"
      using i(11) new segment_name_file [of "lg_next l"] unfolding sg_def segment.select_convs by blast
    then have "dict_get (dk_files dk) (sg_name sg) = None"
      by (simp add: map_of_eq_None_iff)
    moreover have "map sg_name (lg_segments l1) = map segment_name (ns @ [lg_next l]) \<and> distinct (ns @ [lg_next l])
        \<and> (\<forall>n \<in> set (ns @ [lg_next l]). n < lg_next l1)"
      using ns by (auto simp: l1s sg_def)
    ultimately show thesis
      using that [of "lg_segments l" sg es "[]"] i(3) segment_name_file
      by (metis (no_types, lifting) dict_getd_def append_Nil2 frames_of_simps(1) l1s(1) list.size(3) map_append option.simps(4)
          segment.select_convs(1,2,4) set_append sg_def sup_ge1)
  qed
qed

lemma flush_entries:
  assumes "log_inv dec (l, dk) es"
  shows "map_res (\<lambda>(_, raw). frame raw) (lg_buffer l) = Inr (map (\<lambda>(_, raw). frame_bytes raw) (lg_buffer l))"
    and "concat (map (\<lambda>(_, raw). frame_bytes raw) (lg_buffer l)) = frames_of (lg_buffer l)"
proof -
  have "length raw < 2 ^ 64" if "(t, raw) \<in> set (lg_buffer l)" for t raw
  proof -
    have "entry_ok dec (t, raw)"
      using log_invD(9) [OF assms] that by (metis Un_iff set_append)
    then show ?thesis by (simp add: entry_ok_def)
  qed
  then show "map_res (\<lambda>(_, raw). frame raw) (lg_buffer l) = Inr (map (\<lambda>(_, raw). frame_bytes raw) (lg_buffer l))"
    by (intro frames_Inr) auto
qed (simp add: frames_of_def)

lemma flush_nonempty:
  assumes "log_inv dec (l, dk) es" and "lg_buffer l \<noteq> []"
  shows "flush_log fault (l, dk) =
     (let l1 = ensure_current_segment (l\<lparr>lg_flushed := 0\<rparr>);
          sg = last (lg_segments l1);
          blob = frames_of (lg_buffer l);
          sg1 = sg\<lparr>sg_first := (if sg_first sg = 0 then fst (hd (lg_buffer l)) else sg_first sg),
                   sg_last := fst (last (lg_buffer l)), sg_bytes := sg_bytes sg + length blob\<rparr>;
          l2 = l1\<lparr>lg_segments := butlast (lg_segments l1) @ [sg1], lg_watermark := lg_applied l1\<rparr>
      in case fault of
           PartialAppend k \<Rightarrow> (Inl PyOSError, (l1, append_file (sg_name sg) (take k blob) dk))
         | ManifestFails \<Rightarrow> (Inl PyOSError, (l2, append_file (sg_name sg) blob dk))
         | NoFault \<Rightarrow> (Inr (), (l2\<lparr>lg_flushed := length blob, lg_buffer := [], lg_since := 0\<rparr>,
                              write_manifest l2 (append_file (sg_name sg) blob dk))))"
  using assms(2) flush_entries [OF assms(1)]
  by (simp add: flush_log_def Let_def split: io_fault.split)

lemma ensure_frame:
  "ensure_current_segment (l\<lparr>lg_flushed := n\<rparr>) = (ensure_current_segment l)\<lparr>lg_flushed := n\<rparr>"
  by (simp add: ensure_current_segment_def)

lemma ensure_same:
  "lg_flush_every (ensure_current_segment l) = lg_flush_every l"
  "lg_max_bytes (ensure_current_segment l) = lg_max_bytes l"
  "lg_watermark (ensure_current_segment l) = lg_watermark l" "lg_applied (ensure_current_segment l) = lg_applied l"
  "lg_genesis_tid (ensure_current_segment l) = lg_genesis_tid l"
  "lg_genesis_types (ensure_current_segment l) = lg_genesis_types l"
  "lg_buffer (ensure_current_segment l) = lg_buffer l"
  by (simp_all add: ensure_current_segment_def)

lemma append_file_get:
  "dict_get (dk_files (append_file name bs dk)) k =
     (if k = name then Some (dict_getd (dk_files dk) name [] @ bs) else dict_get (dk_files dk) k)"
  by (simp add: append_file_def)

lemma flush_inv:
  assumes inv: "log_inv dec (l, dk) es"
  shows "\<exists>l' dk' es'. flush_log NoFault (l, dk) = (Inr (), (l', dk')) \<and> log_inv dec (l', dk') es'
    \<and> concat es' = concat es @ lg_buffer l \<and> lg_buffer l' = [] \<and> lg_applied l' = lg_applied l
    \<and> lg_watermark l' = lg_applied l \<and> lg_genesis_tid l' = lg_genesis_tid l \<and> lg_since l' \<le> lg_since l"
proof (cases "lg_buffer l = []")
  case True
  note i = log_invD [OF inv]
  have wm: "lg_watermark l = lg_applied l"
  proof -
    have "[lg_watermark l + 1..<lg_applied l + 1] = []"
      using i(8) True by (metis list.simps(8))
    then show ?thesis
      using i(6) unfolding upt_eq_Nil_conv by simp
  qed
  have "log_inv dec (l\<lparr>lg_flushed := 0\<rparr>, dk) es"
    using i by (simp add: log_inv_def manifest_of_def Let_def)
  then show ?thesis
    using True wm by (auto simp: flush_log_def intro!: exI [of _ es])
next
  case False
  note i = log_invD [OF inv]
  define l1 where "l1 = ensure_current_segment l"
  obtain sgs sg es0 e1 where s: "lg_segments l1 = sgs @ [sg]" and old: "list_all2 (seg_ok (dk_files dk)) sgs es0"
    and es: "concat es = concat es0 @ e1" and fl: "dict_getd (dk_files dk) (sg_name sg) [] = frames_of e1"
    and bytes: "sg_bytes sg = length (frames_of e1)" and f0: "e1 = [] \<Longrightarrow> sg_first sg = 0"
    and f1: "e1 \<noteq> [] \<Longrightarrow> sg_first sg = fst (hd e1)" and nm: "is_segment_file (sg_name sg)"
    and ns: "\<exists>ns. map sg_name (lg_segments l1) = map segment_name ns \<and> distinct ns \<and> (\<forall>n \<in> set ns. n < lg_next l1)"
    and sub: "set (map sg_name (lg_segments l)) \<subseteq> set (map sg_name (lg_segments l1))"
    using current_segment [OF inv l1_def] by metis
  define buf where "buf = lg_buffer l"
  define sg1 where "sg1 = sg\<lparr>sg_first := (if sg_first sg = 0 then fst (hd buf) else sg_first sg),
                   sg_last := fst (last buf), sg_bytes := sg_bytes sg + length (frames_of buf)\<rparr>"
  define l2 where "l2 = l1\<lparr>lg_flushed := 0, lg_segments := sgs @ [sg1], lg_watermark := lg_applied l1\<rparr>"
  define dk1 where "dk1 = append_file (sg_name sg) (frames_of buf) dk"
  define l' where "l' = l2\<lparr>lg_flushed := length (frames_of buf), lg_buffer := [], lg_since := 0\<rparr>"
  define dk' where "dk' = write_manifest l2 dk1"
  have same: "lg_applied l1 = lg_applied l" "lg_genesis_tid l1 = lg_genesis_tid l" "lg_watermark l1 = lg_watermark l"
    "lg_flush_every l1 = lg_flush_every l" "lg_max_bytes l1 = lg_max_bytes l" "lg_buffer l1 = buf"
    by (simp_all add: l1_def ensure_same buf_def)
  have run: "flush_log NoFault (l, dk) = (Inr (), (l', dk'))"
    unfolding flush_nonempty [OF inv False] ensure_frame l1_def [symmetric]
    by (simp add: Let_def s l'_def dk'_def l2_def dk1_def sg1_def buf_def)
  have name1: "sg_name sg1 = sg_name sg"
    by (simp add: sg1_def)
  have names: "map sg_name (lg_segments l') = map sg_name (lg_segments l1)"
    by (simp add: l'_def l2_def s name1)
  have dist: "distinct (map sg_name (lg_segments l1))"
    using ns names_distinct by metis
  have files: "dict_get (dk_files dk') k = (if k = sg_name sg then Some (frames_of (e1 @ buf)) else dict_get (dk_files dk) k)" for k
    by (simp add: dk'_def dk1_def write_manifest_def append_file_get fl)
  have "sg_name s \<noteq> sg_name sg" if "s \<in> set sgs" for s
    using dist image_eqI [of _ sg_name s "set sgs", OF refl that] by (auto simp: s)
  then have olds: "list_all2 (seg_ok (dk_files dk')) sgs es0"
    using old by (auto simp: list_all2_conv_all_nth seg_ok_def files)
  have tids: "map fst (concat es @ buf) = [lg_genesis_tid l + 1..<lg_applied l + 1]"
    using replay_exact(2) [OF inv] by (simp only: buf_def)
  have "sg_first sg1 = fst (hd (e1 @ buf))"
  proof (cases "e1 = []")
    case True
    then show ?thesis using f0 by (simp add: sg1_def)
  next
    case False
    have "fst (hd e1) \<in> set (map fst (concat es @ buf))"
      using False by (simp add: es)
    then have "fst (hd e1) \<noteq> 0"
      unfolding tids by auto
    then show ?thesis using f1 False by (simp add: sg1_def)
  qed
  then have new: "seg_ok (dk_files dk') sg1 (e1 @ buf)"
    using False by (simp add: seg_ok_def files sg1_def bytes buf_def)
  have "list_all2 (seg_ok (dk_files dk')) (lg_segments l') (es0 @ [e1 @ buf])"
    using olds new by (simp add: l'_def l2_def list_all2_appendI)
  moreover have c: "concat (es0 @ [e1 @ buf]) = concat es @ buf"
    by (simp add: es)
  moreover have "dk_manifest dk' = Some (manifest_of l')"
    by (simp add: dk'_def write_manifest_def manifest_of_def l'_def)
  moreover have "\<forall>name \<in> set (dict_keys (dk_files dk')). is_segment_file name \<longrightarrow> name \<in> set (map sg_name (lg_segments l'))"
  proof -
    have "set (dict_keys (dk_files dk')) = insert (sg_name sg) (set (dict_keys (dk_files dk)))"
      using files by (auto simp: dk'_def dk1_def write_manifest_def append_file_def dom_update simp flip: dom_map_of_conv_image_fst)
    then show ?thesis
      unfolding names using i(11) sub by (auto simp: s)
  qed
  moreover have "\<forall>e \<in> set (concat es @ buf). entry_ok dec e"
    using i(9) by (simp add: buf_def)
  moreover have "\<exists>ns. map sg_name (lg_segments l') = map segment_name ns \<and> distinct ns \<and> (\<forall>n \<in> set ns. n < lg_next l')"
    unfolding names using ns by (simp add: l'_def l2_def)
  ultimately have "log_inv dec (l', dk') (es0 @ [e1 @ buf])"
    unfolding log_inv_def Let_def fst_conv snd_conv c using i tids
    by (simp add: l'_def l2_def same del: concat_append map_append)
  then show ?thesis
    using run c by (intro exI [of _ l'] exI [of _ dk'] exI [of _ "es0 @ [e1 @ buf]"])
      (simp add: l'_def l2_def same buf_def)
qed

text \<open>
  A flush that fails after part of its bytes reached the file, or before the manifest was replaced,
  and a process that dies there: reopening finds the history of the last successful flush.
\<close>

lemma crash_recovers:
  assumes inv: "log_inv dec (l, dk) es" and run: "flush_log fault (l, dk) = (Inl e, (l', dk'))"
    and cfg: "1 \<le> fe" "FRAME_SIZE + 1 \<le> mb"
  shows "\<exists>l'' dk''. open_log fe mb dk' = Inr (l'', dk'') \<and> log_inv dec (l'', dk'') es
    \<and> lg_applied l'' = lg_watermark l \<and> lg_buffer l'' = []"
proof -
  have ne: "lg_buffer l \<noteq> []"
    using run by (auto simp: flush_log_def)
  obtain name bs where dk': "dk' = append_file name bs dk"
    using run unfolding flush_nonempty [OF inv ne] by (auto simp: Let_def split: io_fault.splits)
  show ?thesis
  proof (rule open_recovers [OF inv _ _ cfg])
    show "dk_manifest dk' = dk_manifest dk"
      by (simp add: dk' append_file_def)
    show "\<forall>sg \<in> set (lg_segments l). \<forall>f. dict_get (dk_files dk) (sg_name sg) = Some f \<longrightarrow>
      (\<exists>debris. dict_get (dk_files dk') (sg_name sg) = Some (f @ debris))"
      by (auto simp: dk' append_file_get dict_getd_def)
  qed
qed

section \<open>The log is a consumer\<close>

text \<open>What is assumed of msgspec: a delta map it encodes decodes to itself and fits a frame.\<close>

definition delta_codec :: "(delta \<Rightarrow> bytes res) \<Rightarrow> (bytes \<Rightarrow> delta res) \<Rightarrow> bool" where
  "delta_codec enc dec \<longleftrightarrow> (\<forall>d raw. enc d = Inr raw \<longrightarrow> dec raw = Inr d \<and> length raw < 2 ^ 64)"

lemma log_apply_shaped:
  assumes "well_shaped d"
  shows "log_apply enc fault d (l, dk) =
    (if delta_tid d \<le> lg_applied l then (Inr False, (l, dk))
     else if delta_tid d \<noteq> lg_applied l + 1 then (Inl DeltaGapError, (l, dk))
     else (case bind_res (check_ops (the (dl_ops d))) (\<lambda>_. enc d) of
             Inl e \<Rightarrow> (Inl e, (l, dk))
           | Inr raw \<Rightarrow>
               let l1 = l\<lparr>lg_buffer := lg_buffer l @ [(delta_tid d, raw)], lg_applied := delta_tid d,
                          lg_since := lg_since l + 1\<rparr>
               in if lg_since l1 \<ge> lg_flush_every l1
                  then (case flush_log fault (l1, dk) of
                          (Inl e, st') \<Rightarrow> (Inl e, st')
                        | (Inr _, st') \<Rightarrow> (Inr True, st'))
                  else (Inr True, (l1, dk))))"
proof -
  obtain tid ops where "check_delta_header d = Inr ()" "has_required_keys d" "dl_tid d = Some tid" "dl_ops d = Some ops"
    using assms by (auto simp: well_shaped_def has_required_keys_def)
  moreover from this have t: "delta_tid d = tid"
    by (simp add: delta_tid_def)
  ultimately show ?thesis
    unfolding t by (simp add: log_apply_def)
qed

lemma log_apply_unshaped: "\<not> well_shaped d \<Longrightarrow> log_apply enc fault d st = (Inl DeltaFormatError, st)"
proof -
  assume n: "\<not> well_shaped d"
  show ?thesis
  proof (cases "check_delta_header d")
    case (Inl e)
    then have "e = DeltaFormatError"
      by (auto simp: check_delta_header_def split: if_splits)
    then show ?thesis using Inl by (simp add: log_apply_def split: prod.split)
  next
    case (Inr u)
    then have "\<not> has_required_keys d"
      using n by (simp add: well_shaped_def)
    then show ?thesis using Inr by (simp add: log_apply_def split: prod.split)
  qed
qed

text \<open>A delta taken in is the next entry of the history, buffered or already flushed.\<close>

lemma log_apply_records:
  assumes codec: "delta_codec enc dec" and inv: "log_inv dec (l, dk) es"
    and run: "log_apply enc NoFault d (l, dk) = (Inr True, (l', dk'))"
  shows "\<exists>es' raw. log_inv dec (l', dk') es' \<and> enc d = Inr raw \<and> dec raw = Inr d
    \<and> concat es' @ lg_buffer l' = concat es @ lg_buffer l @ [(delta_tid d, raw)]
    \<and> lg_applied l' = delta_tid d \<and> delta_tid d = lg_applied l + 1 \<and> lg_genesis_tid l' = lg_genesis_tid l"
proof -
  have w: "well_shaped d"
    using run log_apply_unshaped [of d enc NoFault "(l, dk)"] by (cases "well_shaped d") auto
  note r = run [unfolded log_apply_shaped [OF w]]
  have tid: "delta_tid d = lg_applied l + 1"
    using r by (auto split: if_splits)
  obtain raw where raw: "bind_res (check_ops (the (dl_ops d))) (\<lambda>_. enc d) = Inr raw"
    using r by (auto split: if_splits sum.splits)
  then have enc: "enc d = Inr raw"
    by (auto simp: bind_res_Inr)
  then have dec: "dec raw = Inr d" "length raw < 2 ^ 64"
    using codec by (auto simp: delta_codec_def)
  define l1 where "l1 = l\<lparr>lg_buffer := lg_buffer l @ [(delta_tid d, raw)], lg_applied := delta_tid d,
                          lg_since := lg_since l + 1\<rparr>"
  note i = log_invD [OF inv]
  have "dl_tid d = Some (delta_tid d)"
    using w by (auto simp: well_shaped_def has_required_keys_def delta_tid_def)
  then have ok: "entry_ok dec (delta_tid d, raw)"
    using dec by (simp add: entry_ok_def)
  have "manifest_of l1 = manifest_of l"
    by (simp add: manifest_of_def l1_def)
  then have inv1: "log_inv dec (l1, dk) es"
    using i ok tid by (simp add: log_inv_def l1_def Let_def)
  show ?thesis
  proof (cases "lg_since l1 \<ge> lg_flush_every l1")
    case True
    obtain l2 dk2 es2 where f: "flush_log NoFault (l1, dk) = (Inr (), (l2, dk2))" "log_inv dec (l2, dk2) es2"
      "concat es2 = concat es @ lg_buffer l1" "lg_buffer l2 = []" "lg_applied l2 = lg_applied l1"
      "lg_genesis_tid l2 = lg_genesis_tid l1"
      using flush_inv [OF inv1] by blast
    have "(l', dk') = (l2, dk2)"
      using r raw True f(1) tid by (simp add: Let_def l1_def)
    then show ?thesis
      using f enc dec(1) tid by (intro exI [of _ es2] exI [of _ raw]) (simp add: l1_def)
  next
    case False
    then have "(l', dk') = (l1, dk)"
      using r raw tid by (simp add: Let_def l1_def)
    then show ?thesis
      using inv1 enc dec(1) tid by (intro exI [of _ es] exI [of _ raw]) (simp add: l1_def)
  qed
qed

interpretation dlog: delta_consumer
  "\<lambda>st. delta_codec enc dec \<and> (\<exists>es. log_inv dec st es)" "\<lambda>st. lg_applied (fst st)" "log_apply enc NoFault"
  for enc dec
proof
  fix d b
  fix c c' :: "delta_log \<times> log_disk"
  obtain l dk l' dk' where c: "c = (l, dk)" "c' = (l', dk')"
    by (cases c; cases c') auto
  show "\<not> well_shaped d \<Longrightarrow> log_apply enc NoFault d c = (Inl DeltaFormatError, c)"
    by (rule log_apply_unshaped)
  show "well_shaped d \<Longrightarrow> delta_tid d \<le> lg_applied (fst c) \<Longrightarrow> log_apply enc NoFault d c = (Inr False, c)"
    "well_shaped d \<Longrightarrow> lg_applied (fst c) + 1 < delta_tid d \<Longrightarrow> log_apply enc NoFault d c = (Inl DeltaGapError, c)"
    by (simp_all add: c log_apply_shaped)
  have w: "log_apply enc NoFault d c = (Inr v, c') \<Longrightarrow> well_shaped d" for v
    using log_apply_unshaped [of d enc NoFault c] by (cases "well_shaped d") auto
  have skip: "log_apply enc NoFault d c = (Inr False, c') \<Longrightarrow> delta_tid d \<le> lg_applied l \<and> c' = c"
    using w [of False] by (auto simp: c log_apply_shaped Let_def split: if_splits sum.splits prod.splits)
  then show "log_apply enc NoFault d c = (Inr False, c') \<Longrightarrow> delta_tid d \<le> lg_applied (fst c)"
    by (simp add: c)
  assume inv: "delta_codec enc dec \<and> (\<exists>es. log_inv dec c es)"
  then obtain es where es: "delta_codec enc dec" "log_inv dec (l, dk) es"
    by (auto simp: c)
  show "log_apply enc NoFault d c = (Inr True, c') \<Longrightarrow> lg_applied (fst c') = delta_tid d"
    using log_apply_records [OF es] by (auto simp: c)
  assume a: "log_apply enc NoFault d c = (Inr b, c')"
  show "delta_codec enc dec \<and> (\<exists>es. log_inv dec c' es)"
  proof (cases b)
    case True
    then show ?thesis using log_apply_records [OF es] a es(1) by (fastforce simp: c)
  next
    case False
    then show ?thesis using skip a inv by simp
  qed
qed

section \<open>Streams\<close>

definition empty_disk :: log_disk where
  "empty_disk = \<lparr>dk_manifest = None, dk_files = []\<rparr>"

lemma open_empty:
  assumes "1 \<le> fe" and "FRAME_SIZE + 1 \<le> mb"
  shows "\<exists>l. open_log fe mb empty_disk = Inr (l, empty_disk) \<and> log_inv dec (l, empty_disk) []
    \<and> lg_applied l = 0 \<and> lg_genesis_tid l = 0 \<and> lg_buffer l = []"
  using assms
  by (auto simp: open_log_def load_manifest_def empty_disk_def reconcile_segments_def log_inv_def Let_def FRAME_SIZE_def)

lemma bootstrap_inv:
  assumes "1 \<le> fe" and "FRAME_SIZE + 1 \<le> mb"
  shows "\<exists>l dk. bootstrap_log fe mb tid types = Inr (l, dk) \<and> log_inv dec (l, dk) []
    \<and> lg_applied l = tid \<and> lg_genesis_tid l = tid \<and> lg_genesis_types l = types \<and> lg_buffer l = []"
  using assms
  by (auto simp: bootstrap_log_def open_log_def load_manifest_def reconcile_segments_def log_inv_def Let_def
      FRAME_SIZE_def write_manifest_def manifest_of_def)

text \<open>The deltas of a stream that advance a consumer at watermark \<open>wm\<close>; the others are repeats.\<close>

fun advancing :: "nat \<Rightarrow> delta list \<Rightarrow> delta list" where
  "advancing wm [] = []"
| "advancing wm (d # ds) =
     (if delta_tid d \<le> wm then advancing wm ds else d # advancing (delta_tid d) ds)"

lemma log_stream:
  assumes "delta_codec enc dec" and "log_inv dec (l, dk) es"
    and "deliver_all (log_apply enc NoFault) ds (l, dk) = Inr (l', dk')"
  shows "\<exists>es' added. log_inv dec (l', dk') es' \<and> concat es' @ lg_buffer l' = concat es @ lg_buffer l @ added
    \<and> map (entry_delta dec) added = advancing (lg_applied l) ds \<and> lg_genesis_tid l' = lg_genesis_tid l"
  using assms(2,3)
proof (induction ds arbitrary: l dk es)
  case Nil
  then show ?case by (auto simp: deliver_all_def)
next
  case (Cons d ds)
  obtain b l1 dk1 where a: "log_apply enc NoFault d (l, dk) = (Inr b, (l1, dk1))"
    and r: "deliver_all (log_apply enc NoFault) ds (l1, dk1) = Inr (l', dk')"
    using Cons.prems(2) by (auto simp: deliver_all_def split: prod.splits sum.splits)
  have "delta_codec enc dec \<and> (\<exists>es. log_inv dec (l, dk) es)"
    using assms(1) Cons.prems(1) by blast
  note out = dlog.outcome [OF this a]
  show ?case
  proof (cases b)
    case True
    then obtain es1 raw where e1: "log_inv dec (l1, dk1) es1" "dec raw = Inr d"
      "concat es1 @ lg_buffer l1 = concat es @ lg_buffer l @ [(delta_tid d, raw)]"
      "lg_applied l1 = delta_tid d" "delta_tid d = lg_applied l + 1" "lg_genesis_tid l1 = lg_genesis_tid l"
      using log_apply_records [OF assms(1) Cons.prems(1), of d l1 dk1] a by auto
    obtain es' added where "log_inv dec (l', dk') es'" "concat es' @ lg_buffer l' = concat es1 @ lg_buffer l1 @ added"
      "map (entry_delta dec) added = advancing (lg_applied l1) ds" "lg_genesis_tid l' = lg_genesis_tid l1"
      using Cons.IH [OF e1(1) r] by blast
    moreover have "entry_delta dec (delta_tid d, raw) = d"
      using e1(2) by (simp add: entry_delta_def)
    ultimately show ?thesis
      using e1 by (intro exI [of _ es'] exI [of _ "(delta_tid d, raw) # added"]) (auto simp flip: append_assoc)
  next
    case False
    then have "l1 = l" "dk1 = dk" "delta_tid d \<le> lg_applied l"
      using out(3) by auto
    then show ?thesis
      using Cons.IH [of l dk es] Cons.prems(1) r by auto
  qed
qed

text \<open>Recording a stream in a fresh log and replaying it gives back each of its deltas once.\<close>

lemma record_replay:
  assumes "delta_codec enc dec" and "1 \<le> fe" and "FRAME_SIZE + 1 \<le> mb"
    and "open_log fe mb empty_disk = Inr st" and "deliver_all (log_apply enc NoFault) ds st = Inr st'"
  shows "replay_log dec 0 st' = Inr (advancing 0 ds)"
    and "map delta_tid (advancing 0 ds) = [1..<lg_applied (fst st') + 1]"
proof -
  obtain l where st: "st = (l, empty_disk)" and l: "log_inv dec (l, empty_disk) []" "lg_applied l = 0"
    "lg_genesis_tid l = 0" "lg_buffer l = []"
    using open_empty [OF assms(2,3), of dec] assms(4) by auto
  obtain l' dk' where st': "st' = (l', dk')"
    by (cases st')
  obtain es' added where e: "log_inv dec (l', dk') es'" "concat es' @ lg_buffer l' = added"
    "map (entry_delta dec) added = advancing 0 ds" "lg_genesis_tid l' = 0"
    using log_stream [OF assms(1) l(1) assms(5) [unfolded st st']] l by auto
  have tids: "map fst added = [1..<lg_applied l' + 1]"
    using replay_exact(2) [OF e(1)] e(2,4) by simp
  have "\<forall>x \<in> set (map fst added). x > 0"
    unfolding tids by auto
  then have "filter (\<lambda>x. fst x > 0) added = added"
    by (simp add: filter_id_conv)
  then show "replay_log dec 0 st' = Inr (advancing 0 ds)"
    using replay_exact(1) [OF e(1), of 0] e(2,3) by (simp add: st')
  have "\<forall>x \<in> set added. entry_ok dec x"
    using log_invD(9) [OF e(1)] e(2) by simp
  then have "map delta_tid (map (entry_delta dec) added) = map fst added"
    by (auto simp: delta_tid_def entry_dec(2))
  then show "map delta_tid (advancing 0 ds) = [1..<lg_applied (fst st') + 1]"
    using tids e(3) by (simp add: st')
qed

section \<open>Retrying a failed flush\<close>

text \<open>
  The in-process retry is another matter than a crash: the segment is opened in append mode, so the
  second attempt lands behind the bytes of the first while the manifest counts only its own.
\<close>

definition sample_log :: delta_log where
  "sample_log = \<lparr>lg_flush_every = 1, lg_max_bytes = 100, lg_segments = [], lg_next = 1,
     lg_watermark = 0, lg_applied = 1, lg_genesis_tid = 0, lg_genesis_types = [],
     lg_buffer = [(1, [7, 7])], lg_since = 1, lg_flushed = 0\<rparr>"

definition retried :: "unit res \<times> (delta_log \<times> log_disk)" where
  "retried = flush_log NoFault (snd (flush_log (PartialAppend 9) (sample_log, empty_disk)))"

lemma frame_two: "frame [7, 7] = Inr [0, 0, 0, 0, 0, 0, 0, 2, 7, 7]"
proof -
  have "(8 :: nat) = Suc (Suc (Suc (Suc (Suc (Suc (Suc (Suc 0)))))))"
    by simp
  then have "be_bytes 8 (length [7 :: 8 word, 7]) = [0, 0, 0, 0, 0, 0, 0, 2]"
    by (simp only: be_bytes.simps) simp
  moreover have "frame [7, 7] = Inr (frame_bytes [7, 7])"
    by (rule frame_Inr) simp
  ultimately show ?thesis
    by (simp only: frame_bytes_def append.simps)
qed

lemma retried_eval:
  "fst retried = Inr () \<and> lg_watermark (fst (snd retried)) = 1
    \<and> (\<exists>sg. lg_segments (fst (snd retried)) = [sg] \<and> sg_bytes sg = 10 \<and> sg_name sg = segment_name 1)
    \<and> dict_get (dk_files (snd (snd retried))) (segment_name 1)
        = Some ([0, 0, 0, 0, 0, 0, 0, 2, 7] @ [0, 0, 0, 0, 0, 0, 0, 2, 7, 7])"
  by (simp add: retried_def sample_log_def empty_disk_def flush_log_def frame_two
      ensure_current_segment_def append_file_def write_manifest_def Let_def dict_getd_def)

end
