(* ===== verification/Durability.thy ===== *)
theory Durability
  imports Delta_Log
begin

text \<open>
  The properties of the durable side: the two storage backends, the record codec, the delta contract
  and the delta log, each with a concrete instance of its hypotheses.
\<close>

section \<open>Sample data\<close>

definition sample_batch :: commit_batch where
  "sample_batch = \<lparr>cb_tid = 1,
     cb_records = [\<lparr>sr_oid = 7, sr_cid = 1, sr_tid = 1, sr_payload = [145, 1]\<rparr>],
     cb_types = [(1, ''Person'', [''name'', ''age''])],
     cb_meta = [(''next_tid'', ''2'')], cb_deletes = [], cb_blobs = [],
     cb_streams = [\<lparr>ss_oid = 8, ss_tid = 1, ss_size = 3, ss_hash = [3], ss_chunks = [[1], [2, 3]], ss_fault = None\<rparr>]\<rparr>"

definition delete_batch :: commit_batch where
  "delete_batch = \<lparr>cb_tid = 2, cb_records = [], cb_types = [], cb_meta = [(''next_tid'', ''3'')],
     cb_deletes = [7], cb_blobs = [], cb_streams = []\<rparr>"

text \<open>A stand-in for the hash: the length of the data.\<close>

definition length_hash :: "bytes \<Rightarrow> bytes" where
  "length_hash bs = [word_of_nat (length bs)]"

definition empty_db :: sqlite_db where
  "empty_db = \<lparr>db_meta = [(''format_version'', ''2'')], db_types = [], db_unique_names = False,
     db_objects = [], db_blobs = []\<rparr>"

definition empty_mem :: mem_backend where
  "empty_mem = \<lparr>mb_meta = [(''format_version'', ''2'')], mb_types = [], mb_objects = [], mb_blobs = []\<rparr>"

lemma empty_ok: "db_ok empty_db" "mem_ok empty_mem" "same_store empty_db empty_mem"
  by (simp_all add: empty_db_def empty_mem_def db_ok_def mem_ok_def same_store_def dict_wf_def sq_find_def sq_blob_def)

lemma sample_batch_plain: "plain_batch sample_batch" "plain_batch delete_batch"
  by (simp_all add: plain_batch_def plain_types_def sample_batch_def delete_batch_def char_of_def)

lemma sample_batch_fresh: "fresh_types sample_batch empty_db"
  by (simp add: fresh_types_def sample_batch_def empty_db_def)

lemma sample_materialize:
  "map_res (materialize length_hash) (cb_streams sample_batch)
    = Inr [\<lparr>bl_oid = 8, bl_tid = 1, bl_size = 3, bl_hash = [3], bl_data = [1, 2, 3]\<rparr>]"
  by (simp add: materialize_def sample_batch_def length_hash_def Let_def)

lemma sample_applies: "\<exists>db. sq_apply length_hash sample_batch empty_db = (Inr (), db)"
proof -
  have "\<exists>db1. fold_res insert_type (cb_types sample_batch) empty_db = Inr db1"
    by (rule insert_types_fresh) (simp_all add: sample_batch_def empty_db_def)
  then show ?thesis
    using sample_materialize by (simp add: sq_apply_Inr sq_apply_body_Inr)
qed

section \<open>Storage backends\<close>

text \<open>
  C6: the durable backend refines the in-memory fake the test suite runs on. From states that look
  alike to a client, one batch succeeds on both or fails on both, leaves states that look alike, and
  a failed batch leaves the database as it was, even when a streamed blob fails halfway.
\<close>

theorem sqlite_refines_memory:
  assumes "db_ok db" and "mem_ok m" and "same_store db m" and "plain_batch b" and "fresh_types b db"
    and "sq_apply sha b db = (r, db')" and "mem_apply sha b m = (r', m')"
  shows "(isl r \<longleftrightarrow> isl r') \<and> same_store db' m' \<and> db_ok db' \<and> mem_ok m' \<and> (isl r \<longrightarrow> db' = db \<and> m' = m)"
proof -
  have "isl r \<longleftrightarrow> isl r'" "same_store db' m'"
    by (rule sq_simulates_mem [OF assms(1,3-7)])+
  moreover have "db_ok db'"
    using assms(1,6) sq_apply_Inl sq_apply_effect(1) by (cases r) blast+
  moreover have "mem_ok m'"
    by (rule mem_apply_ok [OF assms(2,7)])
  moreover have "db' = db" if "isl r"
    using that assms(6) sq_apply_Inl by (cases r) auto
  moreover have "m' = m" if "isl r'"
    using that assms(7) by (auto simp: mem_apply_def split: sum.splits)
  ultimately show ?thesis
    by blast
qed

theorem sqlite_refines_memory_witness:
  "\<exists>db m. sq_apply length_hash sample_batch empty_db = (Inr (), db)
    \<and> mem_apply length_hash sample_batch empty_mem = (Inr (), m) \<and> same_store db m"
proof -
  obtain db where db: "sq_apply length_hash sample_batch empty_db = (Inr (), db)"
    using sample_applies by blast
  obtain r m where m: "mem_apply length_hash sample_batch empty_mem = (r, m)"
    by fastforce
  have "\<not> isl r"
    using sqlite_refines_memory [OF empty_ok sample_batch_plain(1) sample_batch_fresh db m] by simp
  then have "r = Inr ()"
    by (cases r) auto
  then show ?thesis
    using sqlite_refines_memory [OF empty_ok sample_batch_plain(1) sample_batch_fresh db m] db m by blast
qed

text \<open>
  The database after any run of commits is determined by their batches. Loading any list of OIDs,
  500 at a time, answers for each OID the last record written and not deleted since; a scan of a
  class answers its records in OID order, each once.
\<close>

theorem sqlite_history:
  assumes "db_ok db" and "\<forall>b \<in> set bs. plain_batch b" and "run_commits (sq_apply sha) bs db = Inr db'"
  shows "\<exists>d rs. sq_load_many oids db' = Inr d \<and> sq_scan_type cid db' = Inr rs
    \<and> (\<forall>oid. dict_get d oid =
        (if oid \<in> set oids then fold (\<lambda>b. batch_effect b oid) bs (sq_find db oid) else None))
    \<and> sorted (map sr_oid rs) \<and> distinct (map sr_oid rs)
    \<and> (\<forall>r. r \<in> set rs \<longleftrightarrow>
        sr_cid r = cid \<and> fold (\<lambda>b. batch_effect b (sr_oid r)) bs (sq_find db (sr_oid r)) = Some r)"
proof -
  note run = sq.run_inv_find [OF assms(3,1,2)]
  have ok: "db_ok db'" and f: "sq_find db' oid = fold (\<lambda>b. batch_effect b oid) bs (sq_find db oid)" for oid
    using run by blast+
  obtain d where d: "sq_load_many oids db' = Inr d"
    "\<forall>oid. dict_get d oid = (if oid \<in> set oids then sq_find db' oid else None)"
    using sq.load_many_find [OF ok] by blast
  obtain rs where rs: "sq_scan_type cid db' = Inr rs" "sorted (map sr_oid rs)" "distinct (map sr_oid rs)"
    "\<forall>r. r \<in> set rs \<longleftrightarrow> sq_find db' (sr_oid r) = Some r \<and> sr_cid r = cid"
    using sq.scan_type_find [OF ok, of cid] by blast
  show ?thesis
    using d rs unfolding f by (intro exI [of _ d] exI [of _ rs]) blast
qed

lemma sample_run:
  "\<exists>db. run_commits (sq_apply length_hash) [sample_batch, delete_batch] empty_db = Inr db"
proof -
  obtain db where db: "sq_apply length_hash sample_batch empty_db = (Inr (), db)"
    using sample_applies by blast
  have "\<exists>db2. sq_apply length_hash delete_batch db = (Inr (), db2)"
    by (simp add: sq_apply_Inr sq_apply_body_Inr delete_batch_def)
  then show ?thesis
    using db by (auto simp: run_commits_def)
qed

theorem sqlite_history_witness:
  "\<exists>db d. run_commits (sq_apply length_hash) [sample_batch, delete_batch] empty_db = Inr db
    \<and> sq_load_many [7] db = Inr d \<and> dict_get d 7 = None"
proof -
  obtain db where db: "run_commits (sq_apply length_hash) [sample_batch, delete_batch] empty_db = Inr db"
    using sample_run by blast
  have pl: "\<forall>b \<in> set [sample_batch, delete_batch]. plain_batch b"
    using sample_batch_plain by simp
  obtain d where "sq_load_many [7] db = Inr d"
    "dict_get d 7 = fold (\<lambda>b. batch_effect b 7) [sample_batch, delete_batch] (sq_find empty_db 7)"
    using sqlite_history [OF empty_ok(1) pl db, of "[7]" 1] by auto
  moreover have "batch_effect delete_batch 7 x = None" for x
    by (simp add: batch_effect_def delete_batch_def)
  ultimately show ?thesis
    using db by simp
qed

lemma load_rows_checked:
  "load_rows rows out = Inr d \<Longrightarrow> \<forall>(oid, r) \<in> set rows. crc (or_payload r) = or_crc r"
proof (induction rows arbitrary: out)
  case Nil
  then show ?case by simp
next
  case (Cons x rows)
  then show ?case
    by (cases x) (auto simp: load_rows_def check_crc_def bind_res_def split: if_splits sum.splits)
qed

lemma load_chunks_checked:
  assumes "fold_res (\<lambda>start out.
          let chunk = take LOAD_CHUNK (drop start oids)
          in load_rows (filter (\<lambda>(oid, r). oid \<in> set chunk) (db_objects db)) out) starts out = Inr d"
    and "start \<in> set starts" and "(oid, r) \<in> set (db_objects db)"
    and "oid \<in> set (take LOAD_CHUNK (drop start oids))"
  shows "crc (or_payload r) = or_crc r"
  using assms
proof (induction starts arbitrary: out)
  case Nil
  then show ?case by simp
next
  case (Cons st starts)
  obtain out1 where o: "load_rows (filter (\<lambda>(oid, r). oid \<in> set (take LOAD_CHUNK (drop st oids))) (db_objects db)) out = Inr out1"
    "fold_res (\<lambda>start out.
          let chunk = take LOAD_CHUNK (drop start oids)
          in load_rows (filter (\<lambda>(oid, r). oid \<in> set chunk) (db_objects db)) out) starts out1 = Inr d"
    using Cons.prems(1) by (auto simp: Let_def split: sum.splits)
  show ?case
  proof (cases "start = st")
    case True
    then show ?thesis
      using load_rows_checked [OF o(1)] Cons.prems(3,4) by auto
  next
    case False
    then show ?thesis
      using Cons.IH [OF o(2)] Cons.prems by simp
  qed
qed

text \<open>
  A damaged row is never returned. Whatever the tables hold, a load that answers has checked the
  checksum of every row it read, and a requested row whose payload does not match its checksum makes
  the load raise.
\<close>

theorem damaged_rows_raise:
  assumes "(oid, r) \<in> set (db_objects db)" and "oid \<in> set oids" and "crc (or_payload r) \<noteq> or_crc r"
  shows "\<exists>e. sq_load_many oids db = Inl e"
proof (rule ccontr)
  assume "\<nexists>e. sq_load_many oids db = Inl e"
  then obtain d where d: "sq_load_many oids db = Inr d"
    by (cases "sq_load_many oids db") auto
  obtain start where "start \<in> set (chunk_starts (length oids))" "oid \<in> set (take LOAD_CHUNK (drop start oids))"
    using chunks_set [of oids] assms(2) by blast
  then have "crc (or_payload r) = or_crc r"
    using load_chunks_checked [OF d [unfolded sq_load_many_def] _ assms(1)] by blast
  then show False
    using assms(3) by simp
qed

definition torn_db :: sqlite_db where
  "torn_db = empty_db\<lparr>db_objects := [(7, \<lparr>or_cid = 1, or_tid = 1, or_payload = [], or_crc = 5\<rparr>)]\<rparr>"

theorem damaged_rows_raise_witness: "\<exists>e. sq_load_many [9, 7] torn_db = Inl e"
proof -
  have "crc [] = 0"
    by (simp add: crc_def crc32_def)
  then show ?thesis
    by (intro damaged_rows_raise [of 7 "\<lparr>or_cid = 1, or_tid = 1, or_payload = [], or_crc = 5\<rparr>"])
      (simp_all add: torn_db_def)
qed

text \<open>
  Opening a database. The legacy uniqueness constraint on type names is dropped without touching a
  row; a database of a newer format is refused and keeps its stamp; an accepted one gets its stamp if
  it had none, and reports its meta and all its type rows in CID order.
\<close>

theorem boot_outcome:
  assumes "db_ok db" and "sq_boot db = (r, db')"
  shows "db_types db' = db_types db \<and> db_objects db' = db_objects db \<and> db_blobs db' = db_blobs db
    \<and> \<not> db_unique_names db'
    \<and> (case dict_get (db_meta db) ''format_version'' of
         None \<Rightarrow> (\<exists>i. r = Inr i) \<and> dict_get (db_meta db') ''format_version'' = Some (str_of_nat FORMAT_VERSION)
       | Some v \<Rightarrow> db_meta db' = db_meta db
           \<and> ((\<exists>i. r = Inr i) \<longleftrightarrow> (\<exists>n. int_of_text v = Inr n \<and> n \<le> int FORMAT_VERSION))
           \<and> (\<forall>n. int_of_text v = Inr n \<and> n > int FORMAT_VERSION \<longrightarrow> r = Inl NewerStoreError))
    \<and> (\<forall>i. r = Inr i \<longrightarrow> bi_meta i = db_meta db' \<and> sorted (map fst (bi_types i)) \<and> set (bi_types i) = sq_types db)"
proof -
  define db1 where "db1 = drop_types_unique_constraint db"
  have db1: "db_types db1 = db_types db" "db_objects db1 = db_objects db" "db_blobs db1 = db_blobs db"
    "db_meta db1 = db_meta db" "\<not> db_unique_names db1"
    by (simp_all add: db1_def drop_types_unique_constraint_def)
  have rows: "sorted (map fst (map type_row_of (sort_key fst (db_types db))))"
    "set (map type_row_of (sort_key fst (db_types db))) = sq_types db"
    by (simp_all add: sq_types_def type_row_of_def o_def case_prod_beta)
  show ?thesis
  proof (cases "dict_get (db_meta db) ''format_version''")
    case None
    then show ?thesis
      using assms(2) db1 rows by (auto simp: sq_boot_def Let_def read_meta_and_types_def simp flip: db1_def)
  next
    case (Some v)
    then show ?thesis
      using assms(2) db1 rows
      by (cases "int_of_text v")
        (auto simp: sq_boot_def Let_def read_meta_and_types_def split: if_splits simp flip: db1_def)
  qed
qed

definition newer_db :: sqlite_db where
  "newer_db = empty_db\<lparr>db_meta := [(''format_version'', str_of_nat 3)], db_unique_names := True\<rparr>"

theorem boot_outcome_witness:
  "\<exists>db. sq_boot newer_db = (Inl NewerStoreError, db) \<and> \<not> db_unique_names db \<and> db_meta db = db_meta newer_db"
proof -
  obtain r db where run: "sq_boot newer_db = (r, db)"
    by fastforce
  have ok: "db_ok newer_db"
    by (simp add: newer_db_def empty_db_def db_ok_def dict_wf_def)
  have v: "dict_get (db_meta newer_db) ''format_version'' = Some (str_of_nat 3)"
    by (simp add: newer_db_def)
  show ?thesis
    using boot_outcome [OF ok run] run by (auto simp: v FORMAT_VERSION_def)
qed

datatype stream_op = ReadOp nat | SeekOp int nat | TellOp

fun reader_run :: "stream_op list \<Rightarrow> blob_reader \<Rightarrow> (bytes + nat) list res" where
  "reader_run [] r = Inr []"
| "reader_run (op # ops) r =
     bind_res
       (case op of
          ReadOp n \<Rightarrow> bind_res (reader_readinto n r) (\<lambda>(bs, r'). Inr (Inl bs, r'))
        | SeekOp off whence \<Rightarrow> bind_res (reader_seek off whence r) (\<lambda>(p, r'). Inr (Inr p, r'))
        | TellOp \<Rightarrow> bind_res (reader_tell r) (\<lambda>p. Inr (Inr p, r)))
       (\<lambda>(out, r'). bind_res (reader_run ops r') (\<lambda>outs. Inr (out # outs)))"

fun bytesio_run :: "stream_op list \<Rightarrow> mem_stream \<Rightarrow> (bytes + nat) list res" where
  "bytesio_run [] s = Inr []"
| "bytesio_run (op # ops) s =
     bind_res
       (case op of
          ReadOp n \<Rightarrow> bind_res (bytesio_read n s) (\<lambda>(bs, s'). Inr (Inl bs, s'))
        | SeekOp off whence \<Rightarrow> bind_res (bytesio_seek off whence s) (\<lambda>(p, s'). Inr (Inr p, s'))
        | TellOp \<Rightarrow> (if bs_closed s then Inl PyValueError else Inr (Inr (bs_pos s), s)))
       (\<lambda>(out, s'). bind_res (bytesio_run ops s') (\<lambda>outs. Inr (out # outs)))"

lemma reader_seek_Inr:
  assumes "reader_like r s" and "reader_seek off whence r = Inr (p, r')"
  shows "\<exists>s'. bytesio_seek off whence s = Inr (p, s') \<and> reader_like r' s'"
proof -
  have w: "whence \<le> 2"
    using assms(2) by (auto simp: reader_seek_def split: if_splits)
  have "0 \<le> seek_target off whence r"
  proof (rule ccontr)
    assume "\<not> 0 \<le> seek_target off whence r"
    then show False
      using assms by (auto simp: reader_seek_def seek_target_def reader_tell_def reader_like_def split: if_splits)
  qed
  from reader_like_seek [OF assms(1) w this] show ?thesis
    using assms(2) by auto
qed

text \<open>
  Reading a blob. Any sequence of reads and seeks that a client gets through on the durable
  backend's reader gives the same bytes and positions on the in-memory fake's stream, past-the-end
  seeks included.
\<close>

theorem reader_matches_bytesio:
  assumes "reader_like r s" and "reader_run ops r = Inr outs"
  shows "bytesio_run ops s = Inr outs"
  using assms
proof (induction ops arbitrary: r s outs)
  case Nil
  then show ?case by simp
next
  case (Cons op ops)
  show ?case
  proof (cases op)
    case (ReadOp n)
    obtain chunk r' s' where c: "reader_readinto n r = Inr (chunk, r')" "bytesio_read n s = Inr (chunk, s')" "reader_like r' s'"
      using reader_like_read [OF Cons.prems(1), of n] by blast
    then show ?thesis
      using Cons.prems(2) Cons.IH [OF c(3)] by (auto simp: ReadOp bind_res_Inr)
  next
    case (SeekOp off whence)
    obtain p r' outs' where r': "reader_seek off whence r = Inr (p, r')" "reader_run ops r' = Inr outs'" "outs = Inr p # outs'"
      using Cons.prems(2) by (auto simp: SeekOp bind_res_Inr)
    then show ?thesis
      using reader_seek_Inr [OF Cons.prems(1) r'(1)] Cons.IH by (auto simp: SeekOp bind_res_Inr)
  next
    case TellOp
    then show ?thesis
      using Cons.prems Cons.IH [OF Cons.prems(1)]
      by (auto simp: reader_tell_def reader_like_def bind_res_Inr split: if_splits)
  qed
qed

definition sample_reader :: blob_reader where
  "sample_reader = \<lparr>rd_data = [1, 2, 3], rd_pos = 0, rd_conn_open = True, rd_overshoot = 0,
     rd_closed = False, rd_released = 0\<rparr>"

definition sample_stream :: mem_stream where
  "sample_stream = \<lparr>bs_data = [1, 2, 3], bs_pos = 0, bs_closed = False, bs_released = 0\<rparr>"

lemma sample_like: "reader_like sample_reader sample_stream"
  by (simp add: reader_like_def sample_reader_def sample_stream_def)

theorem reader_matches_bytesio_witness:
  "bytesio_run [SeekOp 5 0, ReadOp 1, SeekOp (-3) 1, ReadOp 4, TellOp] sample_stream
     = Inr [Inr 5, Inl [], Inr 2, Inl [3], Inr 3]"
  by (rule reader_matches_bytesio [OF sample_like])
    (simp add: sample_reader_def reader_seek_def reader_readinto_def reader_tell_def Let_def)


section \<open>The record codec\<close>

text \<open>
  C22: the codec round trip. Whatever a record holds (references, lazy handles, containers, temporal
  values, decimals, blobs), a payload that was encoded decodes to as many fields; a blob field reads
  back as the descriptor that was stored or already existed, every other field as its value, with
  references as tokens of their OIDs and tuples as lists.
\<close>

theorem codec_roundtrip:
  assumes "text_ok tf" and "\<forall>w bs. wire_native w \<longrightarrow> enc w = Inr bs \<longrightarrow> dec bs = Inr w"
    and "encode_payload enc tf oid_for blobs sink vs s = (Inr bs, s')"
    and "\<forall>i < length vs. blobs i \<and> vs ! i \<noteq> PNone \<or> persistable (vs ! i)"
  shows "\<exists>us. decode_payload dec tf bs = Inr (PList us) \<and> length us = length vs \<and>
    (\<forall>i < length vs. stored_field oid_for blobs sink i (vs ! i) (us ! i))"
  by (rule payload_round [OF assms])

text \<open>Sample text forms: a decimal integer, with a mark for what it stands for.\<close>

definition int_text :: "int \<Rightarrow> string" where
  "int_text i = (if i < 0 then CHR ''-'' # str_of_nat (nat (- i)) else str_of_nat (nat i))"

lemma strip_int_text: "strip_blanks (int_text i) = int_text i"
proof (cases "i < 0")
  case True
  have nb: "\<not> is_blank c" if "c \<in> set (int_text i)" for c
    using that True str_of_nat_digits [of c "nat (- i)"] digit_not_blank by (auto simp: int_text_def is_blank_def)
  have "hd (rev (int_text i)) \<in> set (int_text i)"
    by (metis True hd_in_set int_text_def list.distinct(1) rev_is_Nil_conv set_rev)
  then show ?thesis
    using nb True by (simp add: strip_blanks_def dropWhile_eq_self_iff int_text_def)
next
  case False
  then show ?thesis by (simp add: int_text_def strip_blanks_digits)
qed

lemma int_of_int_text [simp]: "int_of_text (int_text i) = Inr i"
proof (cases "i < 0")
  case True
  then show ?thesis
    using text_digits_str_of_nat [of False 0 "nat (- i)" "[]"] strip_int_text [of i]
    unfolding int_text_def int_of_text_def by simp
next
  case False
  then show ?thesis by (simp add: int_text_def)
qed

lemma int_text_ascii: "ascii_text (int_text i)"
  using str_of_nat_digits by (fastforce simp: ascii_text_def int_text_def)

definition plain_forms :: text_forms where
  "plain_forms = \<lparr>
     iso_of = (\<lambda>v. case v of
        PDateTime a t \<Rightarrow> int_text t
      | PDate d \<Rightarrow> int_text d
      | PTime a t \<Rightarrow> (if a then CHR ''+'' else CHR ''n'') # int_text t
      | _ \<Rightarrow> []),
     datetime_of = (\<lambda>s. bind_res (int_of_text s) (\<lambda>t. Inr (PDateTime False t))),
     date_of = (\<lambda>s. bind_res (int_of_text s) (\<lambda>d. Inr (PDate d))),
     time_of = (\<lambda>s. case s of [] \<Rightarrow> Inl PyValueError
      | c # cs \<Rightarrow> bind_res (int_of_text cs) (\<lambda>t. Inr (PTime (c = CHR ''+'') t))),
     decimal_str = (\<lambda>d. case d of
        DecNaN \<Rightarrow> ''NaN''
      | DecFinite neg c e \<Rightarrow>
          (if neg then CHR ''-'' else CHR ''+'') # str_of_nat c @ CHR ''E'' # int_text e),
     decimal_of = (\<lambda>s. if s = ''NaN'' then Inr (PDec DecNaN)
       else case split_on (CHR ''E'') (drop 1 s) of
          [c, e] \<Rightarrow> bind_res (int_of_text c) (\<lambda>n. bind_res (int_of_text e) (\<lambda>k.
             Inr (PDec (DecFinite (hd s = CHR ''-'') (nat n) k))))
        | _ \<Rightarrow> Inl DecimalInvalidOperation)\<rparr>"

lemma digits_no_E: "CHR ''E'' \<notin> set (str_of_nat n)"
proof
  assume "CHR ''E'' \<in> set (str_of_nat n)"
  then obtain d :: nat where "d < 10" "CHR ''E'' = (char_of (48 + d) :: char)"
    using str_of_nat_digits by blast
  then have "of_char (CHR ''E'') = 48 + d"
    by simp
  with \<open>d < 10\<close> show False by simp
qed

lemma plain_forms_ok: "text_ok plain_forms"
proof -
  have dec: "decimal_of plain_forms (decimal_str plain_forms d) = Inr (PDec d)" for d
  proof (cases d)
    case (DecFinite neg c e)
    have "CHR ''E'' \<notin> set (int_text e)"
      using digits_no_E by (simp add: int_text_def)
    then have "split_on (CHR ''E'') (str_of_nat c @ CHR ''E'' # int_text e) = [str_of_nat c, int_text e]"
      by (simp add: split_on_append split_on_plain digits_no_E)
    then show ?thesis
      by (simp add: plain_forms_def DecFinite)
  qed (simp add: plain_forms_def)
  have nat_ascii: "ascii_text (str_of_nat n)" for n
    using str_of_nat_digits by (fastforce simp: ascii_text_def)
  have "ascii_text (decimal_str plain_forms d)" for d
    using nat_ascii int_text_ascii by (cases d) (auto simp: plain_forms_def ascii_text_def)
  then show ?thesis
    using dec int_text_ascii by (auto simp: text_ok_def plain_forms_def ascii_text_def)
qed

definition sample_wire :: pyval where
  "sample_wire = PList [PStr ''ann'', PExt 1 (be_bytes 8 5), PExt 5 (be_bytes 8 9 @ be_bytes 8 3 @ [3])]"

definition sample_enc :: "pyval \<Rightarrow> bytes res" where
  "sample_enc w = (if w = sample_wire then Inr [1] else Inl MsgspecError)"

definition sample_dec :: "bytes \<Rightarrow> pyval res" where
  "sample_dec bs = (if bs = [1] then Inr sample_wire else Inl MsgspecError)"

definition sample_sink :: "nat blob_sink" where
  "sample_sink v n = (Inr (n, 3, [3]), n + 1)"

theorem codec_roundtrip_witness:
  "encode_payload sample_enc plain_forms (\<lambda>a. Inr 5) (\<lambda>i. i = 2) sample_sink
     [PStr ''ann'', PEnt 77, PBytes [1, 2, 3]] 9 = (Inr [1], 10) \<and>
   (\<exists>u. decode_payload sample_dec plain_forms [1] = Inr (PList [PStr ''ann'', PRef 5, u])
      \<and> stored_field (\<lambda>a. Inr 5) (\<lambda>i. i = 2) sample_sink 2 (PBytes [1, 2, 3]) u)"
proof -
  let ?vs = "[PStr ''ann'', PEnt 77, PBytes [1, 2, 3]]"
  have run: "encode_payload sample_enc plain_forms (\<lambda>a. Inr 5) (\<lambda>i. i = 2) sample_sink ?vs 9 = (Inr [1], 10)"
    by (simp add: encode_payload_def encode_blob_value_def sample_sink_def ref_ext_def blob_ext_def
        pack_q_def pack_Q_def ext_codes sample_enc_def sample_wire_def)
  have codec: "\<forall>w bs. wire_native w \<longrightarrow> sample_enc w = Inr bs \<longrightarrow> sample_dec bs = Inr w"
    by (simp add: sample_enc_def sample_dec_def)
  have ok: "\<forall>i < length ?vs. (i = 2) \<and> ?vs ! i \<noteq> PNone \<or> persistable (?vs ! i)"
    by (simp add: less_Suc_eq)
  obtain us where us: "decode_payload sample_dec plain_forms [1] = Inr (PList us)" "length us = 3"
    "\<forall>i < 3. stored_field (\<lambda>a. Inr 5) (\<lambda>i. i = 2) sample_sink i (?vs ! i) (us ! i)"
    using codec_roundtrip [OF plain_forms_ok codec run ok] by auto
  have "us ! 0 = PStr ''ann''" "us ! 1 = PRef 5"
    using us(3) [rule_format, of 0] us(3) [rule_format, of 1] by (simp_all add: stored_field_def)
  moreover have "us = [us ! 0, us ! 1, us ! 2]"
    using us(2) by (auto simp: numeral_3_eq_3 length_Suc_conv numeral_2_eq_2)
  ultimately have "us = [PStr ''ann'', PRef 5, us ! 2]"
    by metis
  then show ?thesis
    using run us(1) us(3) [rule_format, of 2] by (intro conjI exI [of _ "us ! 2"]) auto
qed

section \<open>The delta contract\<close>

text \<open>
  C20: a consumer attached to a store mirrors it. If the reference applier holds the payloads and type
  rows of a database, then delivering the deltas of any run of commits (failed ones in between emit
  none and consume no TID) succeeds, and leaves it with exactly the payloads and type rows of the new
  database, at the last TID.
\<close>

theorem consumer_mirrors_store:
  assumes "stream_run (sq_apply sha) sq_find sq_types n db ds m db'" and "db_ok db"
    and "mirrors (sq_find db) (sq_types db) a" and "ap_watermark a = n"
  shows "\<exists>a'. deliver_all ap_apply ds a = Inr a' \<and> mirrors (sq_find db') (sq_types db') a' \<and> ap_watermark a' = m"
  by (rule sq.stream_mirrors [OF assms(1-4)])

definition sample_delta :: delta where
  "sample_delta = build_delta 1 (cb_records sample_batch) (cb_types sample_batch) None [] [] 0 5"

definition sample_delete_delta :: delta where
  "sample_delete_delta = build_delta 2 [] [] None [] [(7, 1, [145, 1])] 0 6"

lemma sample_stream_run:
  "\<exists>db. stream_run (sq_apply length_hash) sq_find sq_types 0 empty_db [sample_delta, sample_delete_delta] 2 db"
proof -
  obtain db1 where c1: "sq_apply length_hash sample_batch empty_db = (Inr (), db1)"
    using sample_applies by blast
  obtain db2 where c2: "sq_apply length_hash delete_batch db1 = (Inr (), db2)"
    by (auto simp: sq_apply_Inr sq_apply_body_Inr delete_batch_def)
  have f0: "sq_find empty_db oid = None" "sq_types empty_db = {}" for oid
    by (simp_all add: sq_find_def sq_types_def empty_db_def)
  have f1: "sq_find db1 7 = Some \<lparr>sr_oid = 7, sr_cid = 1, sr_tid = 1, sr_payload = [145, 1]\<rparr>"
    using sq_apply_effect(2) [OF empty_ok(1) c1, of 7]
    by (simp add: batch_effect_def sample_batch_def last_with_Cons)
  have t1: "sq_types db1 = {(1, ''Person'', [''name'', ''age''])}"
    using sq_apply_types [OF empty_ok(1) sample_batch_plain(1) c1] by (simp add: f0 sample_batch_def)
  have s2: "stream_run (sq_apply length_hash) sq_find sq_types 1 db1 [sample_delete_delta] 2 db2"
    using stream_run.committed [where commit = "sq_apply length_hash" and n = 1 and m = 2 and priors = "[]" and dels = "[(7, 1, [145, 1])]"
        and rt = None and actor = 0 and stamp = 6 and find = sq_find and types = sq_types, OF c2 _ sample_batch_plain(2)]
      stream_run.stop [of "sq_apply length_hash" sq_find sq_types 2 db2]
    by (simp add: sample_delete_delta_def delete_batch_def batch_wf_def priors_read_def tombstones_read_def f1 t1 numeral_2_eq_2)
  have "stream_run (sq_apply length_hash) sq_find sq_types 0 empty_db [sample_delta, sample_delete_delta] 2 db2"
    using stream_run.committed [where commit = "sq_apply length_hash" and n = 0 and m = 2 and priors = "[]" and dels = "[]"
        and rt = None and actor = 0 and stamp = 5 and find = sq_find and types = sq_types, OF c1 _ sample_batch_plain(1)] s2
    by (simp add: sample_delta_def sample_batch_def batch_wf_def priors_read_def tombstones_read_def f0)
  then show ?thesis
    by blast
qed

theorem consumer_mirrors_store_witness:
  "\<exists>db a. deliver_all ap_apply [sample_delta, sample_delete_delta] new_applier = Inr a
    \<and> mirrors (sq_find db) (sq_types db) a \<and> ap_watermark a = 2"
proof -
  obtain db where db: "stream_run (sq_apply length_hash) sq_find sq_types 0 empty_db [sample_delta, sample_delete_delta] 2 db"
    using sample_stream_run by blast
  have m: "mirrors (sq_find empty_db) (sq_types empty_db) new_applier"
    by (simp add: mirrors_def new_applier_def empty_db_def sq_find_def sq_types_def)
  have "ap_watermark new_applier = 0"
    by (simp add: new_applier_def)
  then show ?thesis
    using consumer_mirrors_store [OF db empty_ok(1) m] by blast
qed

text \<open>
  Delivery may repeat. Once a stream has gone through, delivering any of its deltas again, in any
  order, succeeds and changes nothing; and a consumer that got through a stream was given every TID
  from its old watermark to its new one, none missing.
\<close>

theorem redelivery_is_harmless:
  assumes "deliver_all ap_apply ds a = Inr a'" and "set again \<subseteq> set ds"
  shows "deliver_all ap_apply (ds @ again) a = Inr a'
    \<and> (\<forall>t. ap_watermark a < t \<and> t \<le> ap_watermark a' \<longrightarrow> t \<in> delta_tid ` set ds)"
  using ap.redelivery [OF assms(1) _ assms(2)] ap.gapless [OF assms(1)] by blast

lemma sample_deltas_apply: "\<exists>a. deliver_all ap_apply [sample_delta, sample_delete_delta] new_applier = Inr a \<and> ap_watermark a = 2"
proof -
  obtain db where db: "stream_run (sq_apply length_hash) sq_find sq_types 0 empty_db [sample_delta, sample_delete_delta] 2 db"
    using sample_stream_run by blast
  have "mirrors (sq_find empty_db) (sq_types empty_db) new_applier"
    by (simp add: mirrors_def new_applier_def empty_db_def sq_find_def sq_types_def)
  from sq.stream_mirrors [OF db empty_ok(1) this] show ?thesis
    by (auto simp: new_applier_def)
qed

theorem redelivery_is_harmless_witness:
  "\<exists>a. deliver_all ap_apply ([sample_delta, sample_delete_delta] @ [sample_delete_delta, sample_delta]) new_applier = Inr a
    \<and> ap_watermark a = 2"
proof -
  obtain a where a: "deliver_all ap_apply [sample_delta, sample_delete_delta] new_applier = Inr a" "ap_watermark a = 2"
    using sample_deltas_apply by blast
  have "set [sample_delete_delta, sample_delta] \<subseteq> set [sample_delta, sample_delete_delta]"
    by simp
  then show ?thesis
    using redelivery_is_harmless [OF a(1)] a(2) by blast
qed

text \<open>
  A delta the applier refuses, whatever the reason, never moves its watermark or its root, so it
  is asked for again; and one that skips a TID is refused without any other effect.
\<close>

theorem refusal_keeps_watermark:
  assumes "ap_apply d a = (Inl e, a')"
  shows "ap_watermark a' = ap_watermark a \<and> ap_root a' = ap_root a \<and> (e = DeltaGapError \<longrightarrow> a' = a)"
proof -
  have "a' = a" if g: "e = DeltaGapError"
  proof (cases "well_shaped d")
    case False
    then show ?thesis using assms ap_apply_unshaped [of d a] by simp
  next
    case True
    have no_gap: "ap_apply_op op x = Inl e' \<Longrightarrow> e' = DeltaFormatError" for op x e'
      by (auto simp: ap_apply_op_def Let_def split: option.splits if_splits pyval.splits)
    have "ap_apply_ops ops x = (Inl e', x') \<Longrightarrow> e' = DeltaFormatError" for ops x e' x'
    proof (induction ops arbitrary: x)
      case (Cons op ops)
      then show ?case
        using no_gap by (cases "ap_apply_op op x") auto
    qed simp
    then have "ap_advance n ts ops rt a \<noteq> (Inl DeltaGapError, a')" for n ts ops rt
      by (auto simp: ap_advance_def split: prod.splits sum.splits)
    then show ?thesis
      using assms g True by (auto simp: ap_apply_shaped split: if_splits)
  qed
  then show ?thesis
    using ap_error_keeps_watermark [OF assms] by blast
qed

theorem refusal_keeps_watermark_witness:
  "ap_apply sample_delete_delta new_applier = (Inl DeltaGapError, new_applier)
    \<and> ap_watermark new_applier = ap_watermark new_applier"
proof -
  have "well_shaped sample_delete_delta" "delta_tid sample_delete_delta = 2"
    by (simp_all add: well_shaped_def sample_delete_delta_def build_delta_def check_delta_header_def
        opt_get_def has_required_keys_def delta_tid_def)
  then have "ap_apply sample_delete_delta new_applier = (Inl DeltaGapError, new_applier)"
    by (simp add: ap_apply_shaped new_applier_def)
  then show ?thesis
    using refusal_keeps_watermark by blast
qed

text \<open>
  The digest is a function of the content: two appliers with the same watermark, root, types and
  objects have the same digest, whatever the order in which their dicts were filled.
\<close>

theorem digest_of_content:
  assumes "ap_ok a" and "ap_ok b"
    and "dict_get (ap_types a) = dict_get (ap_types b)" and "dict_get (ap_objects a) = dict_get (ap_objects b)"
    and "ap_root a = ap_root b" and "ap_watermark a = ap_watermark b"
  shows "state_digest sha a = state_digest sha b"
proof -
  have "digest_bytes a = digest_bytes b"
    using assms(1,2) by (intro digest_bytes_content assms(3-6)) (simp_all add: ap_ok_def)
  then show ?thesis
    by (simp add: state_digest_def)
qed

theorem digest_of_content_witness:
  "state_digest length_hash (new_applier\<lparr>ap_objects := [(1, [2]), (3, [4])]\<rparr>)
    = state_digest length_hash (new_applier\<lparr>ap_objects := [(3, [4]), (1, [2])]\<rparr>)"
  by (rule digest_of_content) (auto simp: ap_ok_def new_applier_def dict_wf_def)

section \<open>The delta log\<close>

text \<open>
  C24: what the log records, it replays. A log created in an empty directory and fed a stream with
  any repetitions, flushed every so many deltas and rolled over any number of segment files, replays
  exactly the deltas of the stream, each once, in TID order from 1 to its watermark.
\<close>

theorem log_record_replay:
  assumes "delta_codec enc dec" and "1 \<le> fe" and "FRAME_SIZE + 1 \<le> mb"
    and "open_log fe mb empty_disk = Inr st" and "deliver_all (log_apply enc NoFault) ds st = Inr st'"
  shows "replay_log dec 0 st' = Inr (advancing 0 ds)
    \<and> map delta_tid (advancing 0 ds) = [1..<lg_applied (fst st') + 1]"
  using record_replay [OF assms] by blast

definition one_enc :: "delta \<Rightarrow> bytes res" where
  "one_enc d = (if d = sample_delta then Inr [7, 7] else Inl MsgspecError)"

definition one_dec :: "bytes \<Rightarrow> delta res" where
  "one_dec bs = (if bs = [7, 7] then Inr sample_delta else Inl MsgspecError)"

lemma one_codec: "delta_codec one_enc one_dec"
  by (simp add: delta_codec_def one_enc_def one_dec_def)

lemma sample_delta_shape:
  "well_shaped sample_delta" "delta_tid sample_delta = 1" "check_ops (the (dl_ops sample_delta)) = Inr ()"
  by (simp_all add: well_shaped_def sample_delta_def build_delta_def check_delta_header_def opt_get_def
      has_required_keys_def delta_tid_def check_ops_def op_valid_def upsert_op_def VALID_OPS_def sample_batch_def)

lemma sample_log_apply:
  assumes "log_inv one_dec (l, dk) es" and "lg_applied l = 0"
  shows "\<exists>st. log_apply one_enc NoFault sample_delta (l, dk) = (Inr True, st)"
proof -
  define l1 where "l1 = l\<lparr>lg_buffer := lg_buffer l @ [(1, [7, 7])], lg_applied := 1, lg_since := lg_since l + 1\<rparr>"
  have "lg_watermark l = 0"
    using log_invD(6) [OF assms(1)] assms(2) by simp
  moreover have "manifest_of l1 = manifest_of l"
    by (simp add: manifest_of_def l1_def)
  moreover have "entry_ok one_dec (1, [7, 7])"
    using sample_delta_shape(1,2)
    by (auto simp: entry_ok_def one_dec_def well_shaped_def has_required_keys_def delta_tid_def)
  ultimately have "log_inv one_dec (l1, dk) es"
    using log_invD [OF assms(1)] assms(2) by (simp add: log_inv_def l1_def Let_def)
  then obtain l2 dk2 where "flush_log NoFault (l1, dk) = (Inr (), (l2, dk2))"
    using flush_inv by blast
  then show ?thesis
    using assms(2) by (simp add: log_apply_shaped sample_delta_shape one_enc_def Let_def l1_def)
qed

lemma sample_recorded:
  "\<exists>st st'. open_log 1 100 empty_disk = Inr st \<and> deliver_all (log_apply one_enc NoFault) [sample_delta, sample_delta] st = Inr st'"
proof -
  obtain l where l: "open_log 1 100 empty_disk = Inr (l, empty_disk)" "log_inv one_dec (l, empty_disk) []" "lg_applied l = 0"
    using open_empty [of 1 100] by (auto simp: FRAME_SIZE_def)
  obtain st1 where st1: "log_apply one_enc NoFault sample_delta (l, empty_disk) = (Inr True, st1)"
    using sample_log_apply [OF l(2,3)] by blast
  obtain es where "log_inv one_dec st1 es" "lg_applied (fst st1) = 1"
    using log_apply_records [OF one_codec l(2), of sample_delta "fst st1" "snd st1"] st1 sample_delta_shape(2) by auto
  then have "log_apply one_enc NoFault sample_delta st1 = (Inr False, st1)"
    using dlog.skip [of one_enc one_dec st1 sample_delta] one_codec sample_delta_shape by auto
  then show ?thesis
    using l(1) st1 by (auto simp: deliver_all_def)
qed

theorem log_record_replay_witness:
  "\<exists>st st'. open_log 1 100 empty_disk = Inr st
    \<and> deliver_all (log_apply one_enc NoFault) [sample_delta, sample_delta] st = Inr st'
    \<and> replay_log one_dec 0 st' = Inr [sample_delta]"
proof -
  obtain st st' where s: "open_log 1 100 empty_disk = Inr st"
    "deliver_all (log_apply one_enc NoFault) [sample_delta, sample_delta] st = Inr st'"
    using sample_recorded by blast
  have "(1 :: nat) \<le> 1" "FRAME_SIZE + 1 \<le> 100"
    by (simp_all add: FRAME_SIZE_def)
  then have "replay_log one_dec 0 st' = Inr (advancing 0 [sample_delta, sample_delta])"
    using log_record_replay [OF one_codec _ _ s] by blast
  then have "replay_log one_dec 0 st' = Inr [sample_delta]"
    by (simp add: sample_delta_shape)
  then show ?thesis
    using s by blast
qed

text \<open>
  C14: a crash loses nothing durable. Let a flush fail at any point, after any number of its bytes
  reached the segment file or before the manifest was replaced, and the process die: reopening the
  directory, with any settings, succeeds and replays exactly the deltas of the last successful flush,
  and the watermark it reports is the last of them.
\<close>

theorem log_crash_recovery:
  assumes "log_inv dec (l, dk) es" and "flush_log fault (l, dk) = (Inl e, (l', dk'))"
    and "1 \<le> fe" and "FRAME_SIZE + 1 \<le> mb"
  shows "\<exists>l'' dk''. open_log fe mb dk' = Inr (l'', dk'')
    \<and> replay_log dec 0 (l'', dk'') = Inr (map (entry_delta dec) (concat es))
    \<and> lg_applied l'' = lg_watermark l \<and> log_inv dec (l'', dk'') es"
proof -
  obtain l'' dk'' where o: "open_log fe mb dk' = Inr (l'', dk'')" "log_inv dec (l'', dk'') es"
    "lg_applied l'' = lg_watermark l" "lg_buffer l'' = []"
    using crash_recovers [OF assms] by blast
  have "map fst (concat es) = [lg_genesis_tid l'' + 1..<lg_watermark l'' + 1]"
    using log_invD(7) [OF o(2)] .
  then have "\<forall>e \<in> set (concat es). fst e > 0"
    by (metis Suc_eq_plus1 atLeastLessThan_iff image_eqI not_gr_zero not_less_eq_eq set_map set_upt zero_le)
  then have "filter (\<lambda>e. fst e > 0) (concat es) = concat es"
    by (simp only: filter_id_conv)
  then have "replay_log dec 0 (l'', dk'') = Inr (map (entry_delta dec) (concat es))"
    using replay_exact(1) [OF o(2), of 0] o(4) by simp
  then show ?thesis
    using o by blast
qed

lemma sample_log_inv: "log_inv one_dec (sample_log, empty_disk) []"
proof -
  have "dl_tid sample_delta = Some 1"
    by (simp add: sample_delta_def build_delta_def)
  then show ?thesis
    by (simp add: log_inv_def sample_log_def empty_disk_def Let_def FRAME_SIZE_def entry_ok_def one_dec_def)
qed

lemma sample_flush_fails:
  "\<exists>l dk. flush_log (PartialAppend 3) (sample_log, empty_disk) = (Inl PyOSError, (l, dk))"
  by (simp add: flush_log_def sample_log_def frame_two Let_def)

theorem log_crash_recovery_witness:
  "\<exists>l dk l'' dk''. flush_log (PartialAppend 3) (sample_log, empty_disk) = (Inl PyOSError, (l, dk))
    \<and> open_log 1 100 dk = Inr (l'', dk'') \<and> replay_log one_dec 0 (l'', dk'') = Inr [] \<and> lg_applied l'' = 0"
proof -
  obtain l dk where run: "flush_log (PartialAppend 3) (sample_log, empty_disk) = (Inl PyOSError, (l, dk))"
    using sample_flush_fails by blast
  have cfg: "(1 :: nat) \<le> 1" "FRAME_SIZE + 1 \<le> 100"
    by (simp_all add: FRAME_SIZE_def)
  have "lg_watermark sample_log = 0"
    by (simp add: sample_log_def)
  then show ?thesis
    using log_crash_recovery [OF sample_log_inv run cfg] run by auto
qed

text \<open>
  C39: retrying in the same process is not safe. When a write fails after some bytes reached the
  segment file, the buffer is kept and the next flush (that of \<open>close()\<close>, say) appends everything
  again behind those bytes, reports success and commits a manifest whose length covers the torn
  frame: the log replays something else than the delta it recorded.
\<close>

theorem flush_retry_corrupts:
  "\<exists>l dk l' dk' sg f. flush_log (PartialAppend 9) (sample_log, empty_disk) = (Inl PyOSError, (l, dk))
    \<and> flush_log NoFault (l, dk) = (Inr (), (l', dk'))
    \<and> lg_watermark l' = 1 \<and> lg_segments l' = [sg] \<and> dict_get (dk_files dk') (sg_name sg) = Some f
    \<and> map snd (lg_buffer sample_log) = [[7, 7]] \<and> iter_frames (sg_bytes sg) f = [[7, 0]]"
proof -
  obtain l dk where run: "flush_log (PartialAppend 9) (sample_log, empty_disk) = (Inl PyOSError, (l, dk))"
    by (simp add: flush_log_def sample_log_def frame_two Let_def)
  obtain r l' dk' where r: "retried = (r, (l', dk'))"
    by (metis surj_pair)
  then have run2: "flush_log NoFault (l, dk) = (Inr (), (l', dk'))"
    using run retried_eval by (auto simp: retried_def)
  obtain sg where e: "lg_watermark l' = 1" "lg_segments l' = [sg]" "sg_bytes sg = 10" "sg_name sg = segment_name 1"
    "dict_get (dk_files dk') (segment_name 1) = Some [0, 0, 0, 0, 0, 0, 0, 2, 7, 0, 0, 0, 0, 0, 0, 0, 2, 7, 7]"
    using retried_eval by (auto simp: r)
  have "iter_frames 10 [0, 0, 0, 0, 0, 0, 0, 2, 7, 0, 0, 0, 0, 0, 0, 0, 2, 7, 7] = [[7, 0]]"
    by (subst iter_frames.simps, subst iter_frames.simps) (simp add: FRAME_SIZE_def be_val_def)
  then show ?thesis
    using run run2 e
    by (intro exI [of _ l] exI [of _ dk] exI [of _ l'] exI [of _ dk'] exI [of _ sg] exI) (auto simp: sample_log_def)
qed

end
