(* ===== verification/Maintenance.thy ===== *)
theory Maintenance
  imports Index_Commit Index_Cache Samples Durability
begin

text \<open>
  The properties of the index manager over commits and sessions: exact class indexes, an exact
  reverse index, the sidecar, and two inputs for which the maintenance goes wrong.
\<close>

section \<open>The entries of a commit\<close>

text \<open>
  \<open>_validate_before_tid\<close>: \<open>pending\<close> lists the buffered entities, each with its class and the values
  of its fields; a class without any index marker contributes no entry.
\<close>

definition relevant_fields :: "typeinfo \<Rightarrow> string list" where
  "relevant_fields ti = map fs_name (filter (\<lambda>s. fs_indexed s \<or> fs_unique s \<or> fs_sorted s) (ti_specs ti))"

definition collect_index_entries :: "(nat \<times> typeinfo \<times> row) list \<Rightarrow> index_entry list" where
  "collect_index_entries pending =
     concat (map (\<lambda>(oid, ti, vals).
       if relevant_fields ti = [] then []
       else [(oid, ti, map (\<lambda>f. (f, dict_getd vals f PNone)) (relevant_fields ti))]) pending)"

definition collect_ref_entries :: "bool \<Rightarrow> (nat \<times> pyval list) list \<Rightarrow> (nat \<times> nat set) list" where
  "collect_ref_entries built pending =
     (if built then map (\<lambda>(oid, vals). (oid, harvest_ref_oids vals)) pending else [])"

section \<open>Class indexes\<close>

text \<open>
  C11: the checks of the first phase are what the folds of the last phase need. If a commit passes the
  unique check (which may build indexes on the way) and its folds go through, every index the manager
  holds is the exact index of its class's new table, unique holders included, and every cache blob it
  still trusts was written for exactly the records its class has now.
\<close>

theorem manager_commit_exact:
  assumes "manager_ok env cls T im" and "ser_ok env" and "entries_known env cls T entries"
    and "commit_wf cls T entries deletes"
    and "im_check_unique env entries (set (map fst deletes)) im = (Inr (), im1)"
    and "commit_folds entries ref_entries deletes im1 = Inr im2"
  shows "manager_ok env cls (\<lambda>tn. tab_steps (class_steps tn (commit_steps entries deletes)) (T tn)) im2"
  by (rule commit_keeps_manager_ok [OF assms])

text \<open>A stand-in for the bitmap serialization: each element in unary.\<close>

definition unary_ser :: "bitmap \<Rightarrow> bytes" where
  "unary_ser b = concat (map (\<lambda>n. replicate n 0 @ [1]) (sorted_list_of_set b))"

fun unary_deser :: "nat \<Rightarrow> bytes \<Rightarrow> nat list" where
  "unary_deser n [] = []"
| "unary_deser n (b # bs) = (if b = 0 then unary_deser (Suc n) bs else n # unary_deser 0 bs)"

lemma unary_deser_run: "unary_deser n (replicate m 0 @ 1 # bs) = (n + m) # unary_deser 0 bs"
  by (induction m arbitrary: n) simp_all

lemma unary_round: "unary_deser 0 (concat (map (\<lambda>n. replicate n 0 @ [1]) ns)) = ns"
  by (induction ns) (simp_all add: unary_deser_run)

definition sample_env :: im_env where
  "sample_env =
     \<lparr>env_lineage = (\<lambda>ti. [(2, [''name'', ''age'', ''tags''])]),
      env_scan = (\<lambda>cid. if cid = 2 then [(7, [1]), (8, [2])] else []),
      env_all_cids = [2],
      env_decode = (\<lambda>b. if b = [1] then Inr [PStr ''ada'', PInt 36, PList [PStr ''x'']]
                         else Inr [PStr ''bob'', PInt 41, PNone]),
      env_ser = unary_ser, env_deser = (\<lambda>bs. set (unary_deser 0 bs))\<rparr>"

lemma sample_ser_ok: "ser_ok sample_env"
  by (simp add: ser_ok_def sample_env_def unary_ser_def unary_round)

definition sample_tables :: "string \<Rightarrow> table" where
  "sample_tables tn = (if tn = ''Person'' then sample_table else Map.empty)"

lemma sample_source: "source_ok sample_env sample_ti (sample_tables ''Person'')"
proof -
  have "lineage_rows (env_decode sample_env) sample_ti (env_lineage sample_env sample_ti) (env_scan sample_env) =
      Inr [(7, Some sample_row), (8, Some sample_row2)]"
    by (simp add: lineage_rows_def shape_rows_def schema_evolution_fill_def fill_field_def record_entry_def Let_def sample_env_def
        sample_row_def sample_row2_def)
  then show ?thesis
    using sample_rows_ok sample_unique
    by (auto simp: source_ok_def sample_ti_wf sample_tables_def sample_table_def)
qed

definition sample_entry :: row where
  "sample_entry = [(''name'', PStr ''bob''), (''age'', PInt 50), (''tags'', PNone)]"

theorem manager_commit_exact_witness:
  "\<exists>im1 im2. im_check_unique sample_env [(9, sample_ti, sample_entry)] {8} (new_manager None None) = (Inr (), im1)
    \<and> commit_folds [(9, sample_ti, sample_entry)] [] [(8, sample_ti)] im1 = Inr im2
    \<and> manager_ok sample_env (\<lambda>tn. sample_ti)
        (\<lambda>tn. tab_steps (class_steps tn (commit_steps [(9, sample_ti, sample_entry)] [(8, sample_ti)])) (sample_tables tn)) im2"
proof -
  let ?es = "[(9, sample_ti, sample_entry)]"
  let ?im = "new_manager None None"
  let ?im1 = "?im\<lparr>im_by_cls := [(''Person'', sample_index)]\<rparr>"
  have name: "ti_name sample_ti = ''Person''"
    by (simp add: sample_ti_def)
  have built: "build_class_indexes (env_decode sample_env) sample_ti (env_lineage sample_env sample_ti) (env_scan sample_env) =
      Inr sample_index"
    by (simp add: build_class_indexes_def build_cid_def schema_evolution_fill_def fill_field_def record_entry_def sample_env_def
        index_eval begin_bulk_def empty_index_def new_class_indexes_def ensure_last_values_def finalize_build_def
        derive_runs_def sorted_run_def py_sorted_def homogeneous_def sample_index_def sample_row_def sample_row2_def
        Let_def insert_commute)
  have check: "im_check_unique sample_env ?es (set (map fst [(8, sample_ti)])) ?im = (Inr (), ?im1)"
    by (simp add: im_check_unique_def im_ensure_def new_manager_def built name check_unique_field_def sample_entry_def
        dict_getd_def sample_index_def hash_key_def)
  have folds: "\<exists>im2. commit_folds ?es [] [(8, sample_ti)] ?im1 = Inr im2"
    by (simp add: commit_folds_def im_apply_def im_apply_entry_def im_apply_deletes_def im_delete_entry_def new_manager_def
        drop_reverse_blob_def apply_reverse_def name maintained_row_def sample_entry_def sample_index_def index_eval
        ci_remove_def unindex_def unindex_field_def post_discard_def ensure_last_values_def sample_row_def sample_row2_def
        Let_def)
  have ok: "manager_ok sample_env (\<lambda>tn. sample_ti) sample_tables ?im"
    by (simp add: manager_ok_def new_manager_def)
  have known: "entries_known sample_env (\<lambda>tn. sample_ti) sample_tables ?es"
    using sample_source by (simp add: entries_known_def name)
  have "row_ok [''tags''] (maintained_row sample_ti sample_entry)"
    by (simp add: maintained_row_def sample_entry_def row_ok_def dict_wf_def field_keys_def hash_key_def elem_keys_def)
  then have wf: "commit_wf (\<lambda>tn. sample_ti) sample_tables ?es [(8, sample_ti)]"
    by (auto simp: commit_wf_def sample_tables_def name split: if_splits)
  show ?thesis
    using check folds manager_commit_exact [OF ok sample_ser_ok known wf check] by fastforce
qed

section \<open>The reverse index\<close>

text \<open>A commit as the manager sees it: index entries, outgoing references, deletes.\<close>

type_synonym commit_view = "index_entry list \<times> (nat \<times> nat set) list \<times> (nat \<times> typeinfo) list"

definition fold_commits :: "commit_view list \<Rightarrow> index_manager \<Rightarrow> index_manager res" where
  "fold_commits = fold_res (\<lambda>(entries, refs, deletes). commit_folds entries refs deletes)"

definition graph_commits :: "commit_view list \<Rightarrow> (nat \<Rightarrow> nat set) \<Rightarrow> (nat \<Rightarrow> nat set)" where
  "graph_commits = fold (\<lambda>(entries, refs, deletes) G. graph_drop (map fst deletes) (graph_write refs G))"

lemma reverse_ok_frame:
  "im_reverse im' = im_reverse im \<Longrightarrow> im_reverse_refs im' = im_reverse_refs im \<Longrightarrow> im_refs_dirty im' = im_refs_dirty im
   \<Longrightarrow> reverse_ok im' G = reverse_ok im G"
  by (simp add: reverse_ok_def)

lemma im_step_reverse:
  "im_step st im = Inr im' \<Longrightarrow> im_reverse im' = im_reverse im \<and> im_reverse_refs im' = im_reverse_refs im
     \<and> im_refs_dirty im' = im_refs_dirty im"
  by (auto simp: im_step_def invalidate_stale_blob_def bind_res_Inr split: option.splits prod.splits)

lemma class_folds_reverse:
  shows "im_apply entries im = Inr im' \<Longrightarrow> reverse_ok im' G = reverse_ok im G \<and> im_reverse im' = im_reverse im"
    and "im_apply_deletes deletes im = Inr im' \<Longrightarrow> reverse_ok im' G = reverse_ok im G \<and> im_reverse im' = im_reverse im"
proof -
  have keep: "im_reverse b = im_reverse a \<and> im_reverse_refs b = im_reverse_refs a \<and> im_refs_dirty b = im_refs_dirty a"
    if f: "fold_res f xs a = Inr b" and st: "\<And>x im im'. f x im = Inr im' \<Longrightarrow> \<exists>s. im_step s im = Inr im'" for f xs a b
  proof (rule fold_res_invariant [where P = "\<lambda>c. im_reverse c = im_reverse a \<and> im_reverse_refs c = im_reverse_refs a
      \<and> im_refs_dirty c = im_refs_dirty a", OF f])
    fix x c d
    assume c: "im_reverse c = im_reverse a \<and> im_reverse_refs c = im_reverse_refs a \<and> im_refs_dirty c = im_refs_dirty a"
      and x: "f x c = Inr d"
    obtain s where "im_step s c = Inr d"
      using st [OF x] by blast
    from im_step_reverse [OF this] c
    show "im_reverse d = im_reverse a \<and> im_reverse_refs d = im_reverse_refs a \<and> im_refs_dirty d = im_refs_dirty a"
      by simp
  qed simp
  have ex1: "\<exists>s. im_step s im = Inr im'" if "im_apply_entry x im = Inr im'" for x im im'
    using that im_entry_steps(1) by (cases x) metis
  have ex2: "\<exists>s. im_step s im = Inr im'" if "im_delete_entry x im = Inr im'" for x im im'
    using that im_entry_steps(2) by (cases x) metis
  {
    assume "im_apply entries im = Inr im'"
    then have "im_reverse im' = im_reverse im \<and> im_reverse_refs im' = im_reverse_refs im \<and> im_refs_dirty im' = im_refs_dirty im"
      using keep [where f = im_apply_entry, OF _ ex1] by (simp add: im_apply_def drop_reverse_blob_def split: if_splits)
    then show "reverse_ok im' G = reverse_ok im G \<and> im_reverse im' = im_reverse im"
      using reverse_ok_frame by blast
  next
    assume "im_apply_deletes deletes im = Inr im'"
    then have "im_reverse im' = im_reverse im \<and> im_reverse_refs im' = im_reverse_refs im \<and> im_refs_dirty im' = im_refs_dirty im"
      using keep [where f = im_delete_entry, OF _ ex2] by (simp add: im_apply_deletes_def)
    then show "reverse_ok im' G = reverse_ok im G \<and> im_reverse im' = im_reverse im"
      using reverse_ok_frame by blast
  }
qed

lemma reverse_stays_built:
  "im_reverse im \<noteq> None \<Longrightarrow> im_reverse (apply_reverse res im) \<noteq> None"
  "im_reverse im \<noteq> None \<Longrightarrow> im_reverse (remove_reverse ds im) \<noteq> None"
  by (auto simp: apply_reverse_def remove_reverse_def drop_reverse_blob_def Let_def split: prod.splits)

lemma commit_folds_reverse:
  assumes "commit_folds entries refs deletes im = Inr im'" and "reverse_ok im G" and "im_reverse im \<noteq> None"
    and "\<forall>(r, ts) \<in> set refs. finite ts"
  shows "reverse_ok im' (graph_drop (map fst deletes) (graph_write refs G)) \<and> im_reverse im' \<noteq> None"
proof -
  obtain im1 im2 where a: "im_apply entries im = Inr im1"
    and d: "im_apply_deletes deletes (apply_reverse refs im1) = Inr im2"
    and im': "im' = remove_reverse (map fst deletes) im2"
    using assms(1) by (auto simp: commit_folds_def bind_res_Inr)
  have "reverse_ok (apply_reverse refs im1) (graph_write refs G)"
    using class_folds_reverse(1) [OF a] assms(2) by (intro apply_reverse_ok [OF _ assms(4)]) blast
  then have "reverse_ok im' (graph_drop (map fst deletes) (graph_write refs G))"
    using class_folds_reverse(2) [OF d] unfolding im' by (intro remove_reverse_ok) blast
  moreover have "im_reverse im' \<noteq> None"
    using class_folds_reverse(1) [OF a] class_folds_reverse(2) [OF d] assms(3) reverse_stays_built
    unfolding im' by metis
  ultimately show ?thesis
    by blast
qed

lemma fold_commits_reverse:
  assumes "fold_commits commits im = Inr im'" and "reverse_ok im G" and "im_reverse im \<noteq> None"
    and "\<forall>(entries, refs, deletes) \<in> set commits. \<forall>(r, ts) \<in> set refs. finite ts"
  shows "reverse_ok im' (graph_commits commits G) \<and> im_reverse im' \<noteq> None"
  using assms
proof (induction commits arbitrary: im G)
  case Nil
  then show ?case by (simp add: fold_commits_def graph_commits_def)
next
  case (Cons c commits)
  obtain entries refs deletes where c: "c = (entries, refs, deletes)"
    by (metis surj_pair)
  obtain im1 where s: "commit_folds entries refs deletes im = Inr im1" and rest: "fold_commits commits im1 = Inr im'"
    using Cons.prems(1) by (auto simp: fold_commits_def c split: sum.splits)
  have ts: "\<forall>(r, ts) \<in> set refs. finite ts"
    using Cons.prems(4) by (simp add: c)
  have one: "reverse_ok im1 (graph_drop (map fst deletes) (graph_write refs G))" "im_reverse im1 \<noteq> None"
    using commit_folds_reverse [OF s Cons.prems(2,3) ts] by blast+
  show ?case
    using Cons.IH [OF rest one] Cons.prems(4) by (simp add: graph_commits_def c)
qed

text \<open>
  C12: the reverse index is exact. Built from one scan of all records and carried through any run of
  commits, which only ever see the difference of one record's references, it answers for every OID
  exactly the records that reference it now: a rewritten record leaves the targets it dropped, a
  deleted one leaves all of them, and a deleted target keeps its now dangling referrers.
\<close>

theorem incoming_exact:
  assumes "ensure_reverse env im = Inr (rv, im1)" and "im_reverse im = None" and "im_reverse_blob im = None"
    and "\<not> im_refs_dirty im" and "distinct (map fst (all_rows env))"
    and "fold_commits commits im1 = Inr im2"
    and "\<forall>(entries, refs, deletes) \<in> set commits. \<forall>(r, ts) \<in> set refs. finite ts"
  shows "\<exists>rv2. im_reverse im2 = Some rv2 \<and>
    (\<forall>t. dict_getd rv2 t {} = {r. t \<in> graph_commits commits (scan_graph env) r})"
proof -
  have start: "reverse_ok im1 (scan_graph env)" "im_reverse im1 \<noteq> None"
    using scanned_reverse_ok [OF assms(1-3,5,4)] by auto
  show ?thesis
    using fold_commits_reverse [OF assms(6) start assms(7)] by (auto simp: reverse_ok_def rev_posts_def)
qed

definition link_ti :: typeinfo where
  "link_ti =
     \<lparr>ti_name = ''Link'', ti_field_names = [''target''], ti_frozen = False, ti_protected = False,
      ti_specs = [(plain_spec ''target'')\<lparr>fs_entity_ref := True\<rparr>], ti_defaults = []\<rparr>"

definition link_env :: "(nat \<times> bytes) list \<Rightarrow> im_env" where
  "link_env rows = sample_env\<lparr>env_lineage := (\<lambda>ti. [(3, [''target''])]),
     env_scan := (\<lambda>cid. if cid = 3 then rows else []), env_all_cids := [3],
     env_decode := (\<lambda>b. Inr (if b = [1] then [PRef 8] else [PNone]))\<rparr>"

lemma link_rows:
  "all_rows (link_env rows) = rows"
  "payload_refs (link_env rows) p = (if p = [1] then {8} else {})"
  by (simp_all add: all_rows_def link_env_def payload_refs_def harvest_refs)

lemma link_scan:
  assumes "im_reverse im = None" and "im_reverse_blob im = None"
  shows "ensure_reverse (link_env [(7, [1]), (8, [2])]) im =
    Inr ([(8, {7})], im\<lparr>im_reverse := Some [(8, {7})], im_reverse_refs := [(7, {8})]\<rparr>)"
  by (simp add: ensure_reverse_def assms link_env_def reverse_record_def harvest_refs post_refs_def post_add_def
      dict_getd_def)

theorem incoming_exact_witness:
  "\<exists>rv im1 im2 rv2.
     ensure_reverse (link_env [(7, [1]), (8, [2])]) (new_manager None None) = Inr (rv, im1) \<and>
     fold_commits [([], [(9, {8}), (7, {})], []), ([], [], [(8, link_ti)])] im1 = Inr im2 \<and>
     im_reverse im2 = Some rv2 \<and> dict_getd rv2 8 {} = {9}"
proof -
  let ?env = "link_env [(7, [1]), (8, [2])]"
  let ?cs = "[([], [(9, {8}), (7, {})], []), ([], [], [(8, link_ti)])] :: commit_view list"
  obtain im1 where e: "ensure_reverse ?env (new_manager None None) = Inr ([(8, {7})], im1)"
    using link_scan [of "new_manager None None"] by (simp add: new_manager_def)
  then have im1: "im_by_cls im1 = []"
    using link_scan [of "new_manager None None"] by (auto simp: new_manager_def)
  have "\<exists>im2. fold_commits ?cs im1 = Inr im2"
    by (simp add: fold_commits_def commit_folds_def im_apply_def im_apply_deletes_def im_delete_entry_def im1)
  then obtain im2 where f: "fold_commits ?cs im1 = Inr im2"
    by blast
  obtain rv2 where r: "im_reverse im2 = Some rv2"
    and g: "\<forall>t. dict_getd rv2 t {} = {r. t \<in> graph_commits ?cs (scan_graph ?env) r}"
    using incoming_exact [OF e _ _ _ _ f] by (auto simp: new_manager_def link_rows)
  have "graph_commits ?cs (scan_graph ?env) = (\<lambda>r. if r = 9 then {8} else {})"
    by (simp add: graph_commits_def graph_write_def graph_drop_def scan_graph_def link_rows fun_eq_iff)
  then show ?thesis
    using e f r g by auto
qed

text \<open>
  C27: the cached reverse postings can go stale. A commit drops the cached blob only through its index
  entries and its deletes, and an entity of a class without any index marker has no index entry. So
  after a commit that adds only such an entity, the reverse index is still loaded from the blob of the
  records before it, and the new referrer is missing.
\<close>

theorem stale_reverse_blob:
  "\<exists>rv0 m0 blob im1 rv im2.
     ensure_reverse (link_env [(7, [1]), (8, [2])]) (new_manager None None) = Inr (rv0, m0) \<and>
     dump_reverse (link_env [(7, [1]), (8, [2])]) m0 = Some blob \<and>
     commit_folds (collect_index_entries [(9, link_ti, [(''target'', PRef 8)])])
       (collect_ref_entries (reverse_built (new_manager None (Some blob))) [(9, [PRef 8])]) []
       (new_manager None (Some blob)) = Inr im1 \<and>
     ensure_reverse (link_env [(7, [1]), (8, [2]), (9, [1])]) im1 = Inr (rv, im2) \<and>
     8 \<in> scan_graph (link_env [(7, [1]), (8, [2]), (9, [1])]) 9 \<and> 9 \<notin> dict_getd rv 8 {}"
proof -
  let ?m0 = "(new_manager None None)\<lparr>im_reverse := Some [(8, {7})], im_reverse_refs := [(7, {8})]\<rparr>"
  let ?blob = "[(8, unary_ser {7})]"
  have e: "ensure_reverse (link_env [(7, [1]), (8, [2])]) (new_manager None None) = Inr ([(8, {7})], ?m0)"
    using link_scan [of "new_manager None None"] by (simp add: new_manager_def)
  have d: "dump_reverse (link_env [(7, [1]), (8, [2])]) ?m0 = Some ?blob"
    by (simp add: dump_reverse_def link_env_def sample_env_def)
  have none: "collect_index_entries [(9, link_ti, [(''target'', PRef 8)])] = []"
    by (simp add: collect_index_entries_def relevant_fields_def link_ti_def plain_spec_def)
  have c: "commit_folds [] [] [] (new_manager None (Some ?blob)) = Inr (new_manager None (Some ?blob))"
    by (simp add: commit_folds_def im_apply_def im_apply_deletes_def apply_reverse_def remove_reverse_def
        drop_reverse_blob_def new_manager_def)
  have l: "\<exists>im2. ensure_reverse (link_env [(7, [1]), (8, [2]), (9, [1])]) (new_manager None (Some ?blob)) = Inr ([(8, {7})], im2)"
    using unary_deser_run [of 0 7 "[]"]
    by (simp add: ensure_reverse_def new_manager_def link_env_def sample_env_def unary_ser_def Let_def)
  have g: "8 \<in> scan_graph (link_env [(7, [1]), (8, [2]), (9, [1])]) 9"
    by (simp add: scan_graph_def graph_write_def link_rows)
  have b: "collect_ref_entries (reverse_built (new_manager None (Some ?blob))) [(9, [PRef 8])] = []"
    by (simp add: collect_ref_entries_def reverse_built_def new_manager_def)
  show ?thesis
    using e d c l g none b by (fastforce simp: dict_getd_def)
qed

section \<open>A declaration the maintenance cannot keep\<close>

text \<open>
  C28: a sorted index over a union of scalars. Such a field is accepted when the class is declared, and
  a value of the other type passes both checks of the first phase; the last phase, which runs when the
  batch is already durable, then raises in the middle of its folds.
\<close>

theorem mixed_sorted_commit_raises:
  "\<exists>ti im im1 im2. make_entity ''Score'' False [] [(''v'', HAnnotated (HUnion [HInt, HStr]) [MSortedIndex])] [] False False False = Inr ti \<and>
     im = (new_manager None None)\<lparr>im_by_cls := [(''Score'', empty_index ti)]\<rparr> \<and>
     commit_folds [(7, ti, [(''v'', PInt 1)])] [] [] im = Inr im1 \<and>
     im_check_unique sample_env [(8, ti, [(''v'', PStr ''a'')])] {} im1 = (Inr (), im2) \<and>
     im_check_sorted_temporal [(8, ti, [(''v'', PStr ''a'')])] im2 = Inr () \<and>
     commit_folds [(8, ti, [(''v'', PStr ''a'')])] [] [] im2 = Inl PyTypeError"
proof -
  let ?m = "make_entity ''Score'' False [] [(''v'', HAnnotated (HUnion [HInt, HStr]) [MSortedIndex])] [] False False False"
  let ?ti = "\<lparr>ti_name = ''Score'', ti_field_names = [''v''], ti_frozen = False, ti_protected = False,
      ti_specs = [(plain_spec ''v'')\<lparr>fs_sorted := True\<rparr>], ti_defaults = []\<rparr>"
  have m: "?m = Inr ?ti"
    by (simp add: make_entity_def check_reserved_def plain_spec_def
        resolve_specs_def resolve_spec_def check_index_markers_def check_rename_and_glue_def any_index_def
        harvest_markers_def is_list_of_scalar_def is_list_of_indexable_def is_indexable_def
        indexable_type_def dict_getd_def Let_def is_none_type_def ref_free_leaf_def hint_is_decimal_def is_decimal_type_def)
  let ?ci0 = "empty_index ?ti"
  let ?ci1 = "?ci0\<lparr>ci_extent := {7}, ci_eq := [(''v'', [(KNum 1, {7})])], ci_sorted_keys := [(''v'', [KNum 1])],
      ci_last_values := [(7, [(''v'', PInt 1)])]\<rparr>"
  let ?im0 = "(new_manager None None)\<lparr>im_by_cls := [(''Score'', ?ci0)]\<rparr>"
  let ?im1 = "(new_manager None None)\<lparr>im_by_cls := [(''Score'', ?ci1)]\<rparr>"
  have ci0: "?ci0 = \<lparr>ci_extent = {}, ci_eq = [(''v'', [])], ci_unique = [], ci_list_fields = [], ci_sorted_fields = [''v''],
      ci_sorted_keys = [(''v'', [])], ci_building = False, ci_unique_fields = [], ci_last_values = [],
      ci_needs_lv_rebuild = False\<rparr>"
    by (simp add: empty_index_def new_class_indexes_def field_name_defs plain_spec_def)
  have mf: "maintained_fields ?ti = [''v'']" "unique_field_names ?ti = []" "sorted_field_names ?ti = [''v'']"
    by (simp_all add: field_name_defs plain_spec_def)
  have ins: "ci_insert 7 [(''v'', PInt 1)] ?ci0 = Inr ?ci1" "ci_insert 8 [(''v'', PStr ''a'')] ?ci1 = Inl PyTypeError"
    by (simp_all add: ci0 index_eval ensure_last_values_def order_key_def)
  have f1: "commit_folds [(7, ?ti, [(''v'', PInt 1)])] [] [] ?im0 = Inr ?im1"
    by (simp add: commit_folds_def im_apply_def im_apply_entry_def im_apply_deletes_def new_manager_def
        drop_reverse_blob_def apply_reverse_def remove_reverse_def maintained_row_def mf ins(1))
  have c1: "im_check_unique sample_env [(8, ?ti, [(''v'', PStr ''a'')])] {} ?im1 = (Inr (), ?im1)"
    by (simp add: im_check_unique_def mf)
  have c2: "im_check_sorted_temporal [(8, ?ti, [(''v'', PStr ''a'')])] ?im1 = Inr ()"
    by (simp add: im_check_sorted_temporal_def mf check_temporal_field_def dict_getd_def)
  have f2: "commit_folds [(8, ?ti, [(''v'', PStr ''a'')])] [] [] ?im1 = Inl PyTypeError"
    by (simp add: commit_folds_def im_apply_def im_apply_entry_def new_manager_def drop_reverse_blob_def
        maintained_row_def mf ins(2))
  show ?thesis
    using m f1 c1 c2 f2 by (intro exI conjI) (assumption | rule refl)+
qed


section \<open>The sidecar\<close>

text \<open>
  C26: the index cache file. What a write reported as done is read back exactly, and only at the
  watermark it was stamped with; a write that died anywhere before its rename leaves every later read
  as if it had not been tried.
\<close>

theorem sidecar_roundtrip:
  assumes "text_ok tf" and "\<forall>w bs. wire_native w \<longrightarrow> enc w = Inr bs \<longrightarrow> dec bs = Inr w"
    and "cache_write enc tf fault w (PDict classes) reverse sc = (r, sc')"
    and "int_native w" and "persistable (PDict classes)" and "persistable reverse"
  shows "cache_read dec tf wm sc' =
    (if isl r then cache_read dec tf wm sc
     else Inr (if wm = w then Some (decoded no_oid (PDict classes), decoded no_oid reverse) else None))"
proof (cases r)
  case (Inl e)
  then show ?thesis
    using cache_read_file [OF cache_write_atomic] assms(3) by auto
next
  case (Inr u)
  then have "fault = Written" "cache_write enc tf Written w (PDict classes) reverse sc = (Inr (), sc')"
    using assms(3) by (auto simp: cache_write_def split: sum.splits write_fault.splits)
  then show ?thesis
    using cache_round [OF assms(1,2) _ assms(4-6)] Inr by simp
qed

definition cache_tree :: pyval where
  "cache_tree = cache_doc 5 (PDict [(PStr ''Person'', PList [PDate 7])]) PNone"

definition cache_enc :: "pyval \<Rightarrow> bytes res" where
  "cache_enc w = (if swizzle plain_forms no_oid cache_tree = Inr w then Inr [1] else Inl MsgspecError)"

definition cache_dec :: "bytes \<Rightarrow> pyval res" where
  "cache_dec bs = (if bs = [1] then swizzle plain_forms no_oid cache_tree else Inl MsgspecError)"

theorem sidecar_roundtrip_witness:
  "cache_write cache_enc plain_forms Written 5 (PDict [(PStr ''Person'', PList [PDate 7])]) PNone \<lparr>sc_file = None, sc_tmp = None\<rparr>
     = (Inr (), \<lparr>sc_file = Some [1], sc_tmp = None\<rparr>) \<and>
   cache_read cache_dec plain_forms 5 \<lparr>sc_file = Some [1], sc_tmp = None\<rparr> =
     Inr (Some (PDict [(PStr ''Person'', PList [PDate 7])], PNone)) \<and>
   cache_read cache_dec plain_forms 6 \<lparr>sc_file = Some [1], sc_tmp = None\<rparr> = Inr None"
proof -
  let ?sc = "\<lparr>sc_file = None, sc_tmp = None\<rparr>" and ?sc' = "\<lparr>sc_file = Some [1], sc_tmp = None\<rparr>"
  let ?cl = "[(PStr ''Person'', PList [PDate 7])]"
  have codec: "\<forall>w bs. wire_native w \<longrightarrow> cache_enc w = Inr bs \<longrightarrow> cache_dec bs = Inr w"
    by (simp add: cache_enc_def cache_dec_def)
  have "\<exists>w. swizzle plain_forms no_oid cache_tree = Inr w"
    by (simp add: cache_tree_def cache_doc_def)
  then have w: "cache_write cache_enc plain_forms Written 5 (PDict ?cl) PNone ?sc = (Inr (), ?sc')"
    by (auto simp: cache_write_def encode_scalar_tree_def cache_enc_def cache_tree_def)
  have p: "int_native 5" "persistable (PDict ?cl)" "persistable PNone"
    by (simp_all add: int_native_def)
  show ?thesis
    using w sidecar_roundtrip [OF plain_forms_ok codec w p, of 5] sidecar_roundtrip [OF plain_forms_ok codec w p, of 6]
    by simp
qed

end
