(* ===== verification/Store_Gate.thy ===== *)
theory Store_Gate
  imports Delta Index_Manager Permissions
begin

text \<open>
  The write gate of \<open>_store.py\<close> (ADR-008): what a commit checks of the protected records in its
  buffers before it takes a TID.

  \<^item> A label tuple of the source is a \<open>labels\<close> record. Stored labels are decoded to ints; a stored
    column of another type is a \<open>TypeError\<close> here, at the latest where Python compares it.
  \<^item> A staged record is a \<open>gate_entry\<close>: its OID, its labels as buffered, and its memberships when it is
    an \<open>Actor\<close>. The position cache \<open>_perm_positions\<close> only saves recomputation and is left out.
\<close>

section \<open>Labels of a stored record\<close>

definition as_int :: "pyval \<Rightarrow> int res" where
  "as_int v = (case v of PInt i \<Rightarrow> Inr i | _ \<Rightarrow> Inl PyTypeError)"

definition as_list :: "pyval \<Rightarrow> pyval list res" where
  "as_list v = (case v of PList xs \<Rightarrow> Inr xs | _ \<Rightarrow> Inl PyTypeError)"

definition nth_res :: "'a list \<Rightarrow> nat \<Rightarrow> 'a res" where
  "nth_res xs i = (if i < length xs then Inr (xs ! i) else Inl PyIndexError)"

definition perm_positions :: "string list \<Rightarrow> nat list option" where
  "perm_positions persisted =
     (if \<forall>n \<in> set PERM_FIELDS. n \<in> set persisted then Some (map (position_in persisted) PERM_FIELDS) else None)"

definition labels_at :: "pyval list \<Rightarrow> nat list \<Rightarrow> labels res" where
  "labels_at vals pos =
     bind_res (bind_res (nth_res vals (pos ! 0)) as_int) (\<lambda>owner.
     bind_res (bind_res (nth_res vals (pos ! 1)) as_list) (\<lambda>gs.
     bind_res (map_res as_int gs) (\<lambda>groups.
     bind_res (bind_res (nth_res vals (pos ! 2)) as_int) (\<lambda>rd.
     bind_res (bind_res (nth_res vals (pos ! 3)) as_int) (\<lambda>wr.
       Inr \<lparr>lb_owner = owner, lb_groups = groups, lb_read = rd, lb_write = wr\<rparr>)))))"

definition prior_labels ::
    "(bytes \<Rightarrow> pyval list res) \<Rightarrow> (nat, string list) dict \<Rightarrow> stored_record \<Rightarrow> labels res" where
  "prior_labels decode shapes rec =
     (case perm_positions (dict_getd shapes (sr_cid rec) []) of
        None \<Rightarrow> Inr legacy_labels
      | Some pos \<Rightarrow> bind_res (decode (sr_payload rec)) (\<lambda>vals. labels_at vals pos))"

definition memberships_of :: "pyval \<Rightarrow> (int, int) dict res" where
  "memberships_of v =
     (case v of
        PDict d \<Rightarrow>
          fold_res (\<lambda>(k, w) ms. bind_res (as_int k) (\<lambda>g. bind_res (as_int w) (\<lambda>l. Inr (AList.update g l ms)))) d []
      | _ \<Rightarrow> Inl PyTypeError)"

definition prior_actor_memberships ::
    "(bytes \<Rightarrow> pyval list res) \<Rightarrow> (nat, string list) dict \<Rightarrow> stored_record \<Rightarrow> (int, int) dict res" where
  "prior_actor_memberships decode shapes rec =
     (let persisted = dict_getd shapes (sr_cid rec) [] in
      if ''memberships'' \<notin> set persisted then Inr []
      else bind_res (decode (sr_payload rec)) (\<lambda>vals.
           bind_res (nth_res vals (position_in persisted ''memberships'')) memberships_of))"

section \<open>The single gates\<close>

definition gate_persisted_record :: "principal \<Rightarrow> labels \<Rightarrow> labels \<Rightarrow> labels res" where
  "gate_persisted_record p staged prior =
     (if authority_towards p (lb_owner prior) (lb_groups prior) < lb_write prior then Inl WriteDeniedError
      else if lb_owner staged \<noteq> lb_owner prior then Inl WriteDeniedError
      else Inr prior)"

definition gate_new_record :: "principal \<Rightarrow> labels \<Rightarrow> labels option \<Rightarrow> labels res" where
  "gate_new_record p staged birth =
     (if uid p = 0 then Inl WriteDeniedError
      else
        let base = (case birth of
              Some b \<Rightarrow> b
            | None \<Rightarrow> \<lparr>lb_owner = lb_owner staged, lb_groups = [], lb_read = VIEWER, lb_write = VIEWER\<rparr>)
        in if lb_owner staged \<noteq> lb_owner base then Inl WriteDeniedError else Inr base)"

definition gate_label_changes :: "principal \<Rightarrow> labels \<Rightarrow> labels \<Rightarrow> unit res" where
  "gate_label_changes p staged base =
     (let ceiling = authority_towards p (lb_owner staged) (lb_groups staged) in
      if \<exists>g \<in> set (lb_groups staged) - set (lb_groups base). level p g = NO_STANDING then Inl WriteDeniedError
      else if lb_read staged \<noteq> lb_read base \<and> lb_read staged > ceiling then Inl WriteDeniedError
      else if lb_write staged \<noteq> lb_write base \<and> lb_write staged > ceiling then Inl WriteDeniedError
      else Inr ())"

definition gate_actor_memberships :: "principal \<Rightarrow> (int, int) dict \<Rightarrow> (int, int) dict \<Rightarrow> unit res" where
  "gate_actor_memberships p staged prior =
     (if list_ex (\<lambda>(g, lvl). Some lvl \<noteq> dict_get prior g \<and> lvl > level p g) staged then Inl WriteDeniedError
      else Inr ())"

definition gate_delete :: "principal \<Rightarrow> labels \<Rightarrow> unit res" where
  "gate_delete p l =
     (if authority_towards p (lb_owner l) (lb_groups l) < lb_write l then Inl WriteDeniedError else Inr ())"

section \<open>The gate of a commit\<close>

record gate_entry =
  ge_oid :: nat
  ge_labels :: labels
  ge_actor :: "pyval option"

definition gate_record ::
    "principal \<Rightarrow> (bytes \<Rightarrow> pyval list res) \<Rightarrow> (nat, string list) dict \<Rightarrow> (nat, stored_record) dict \<Rightarrow>
       (nat, labels) dict \<Rightarrow> (nat, labels) dict \<Rightarrow> gate_entry \<Rightarrow> unit res" where
  "gate_record p decode shapes records priors birth e =
     bind_res
       (case dict_get priors (ge_oid e) of
          None \<Rightarrow> gate_new_record p (ge_labels e) (dict_get birth (ge_oid e))
        | Some prior \<Rightarrow> gate_persisted_record p (ge_labels e) prior)
       (\<lambda>base.
     bind_res (gate_label_changes p (ge_labels e) base) (\<lambda>_.
       case ge_actor e of
         None \<Rightarrow> Inr ()
       | Some v \<Rightarrow>
           bind_res
             (case dict_get priors (ge_oid e) of
                None \<Rightarrow> Inr []
              | Some _ \<Rightarrow>
                  (case dict_get records (ge_oid e) of
                     None \<Rightarrow> Inl PyKeyError
                   | Some rec \<Rightarrow> prior_actor_memberships decode shapes rec))
             (\<lambda>prior. bind_res (memberships_of v) (\<lambda>ms. gate_actor_memberships p ms prior))))"

definition gate_deleted :: "principal \<Rightarrow> (nat, labels) dict \<Rightarrow> nat \<Rightarrow> unit res" where
  "gate_deleted p priors oid =
     (case dict_get priors oid of None \<Rightarrow> Inl PyKeyError | Some l \<Rightarrow> gate_delete p l)"

definition each_res :: "('a \<Rightarrow> unit res) \<Rightarrow> 'a list \<Rightarrow> unit res" where
  "each_res f xs = fold_res (\<lambda>x _. f x) xs ()"

definition read_priors ::
    "(bytes \<Rightarrow> pyval list res) \<Rightarrow> (nat, string list) dict \<Rightarrow> (nat, stored_record) dict \<Rightarrow> (nat, labels) dict res" where
  "read_priors decode shapes records =
     map_res (\<lambda>(oid, rec). bind_res (prior_labels decode shapes rec) (\<lambda>l. Inr (oid, l))) records"

definition check_write_gate ::
    "principal \<Rightarrow> (bytes \<Rightarrow> pyval list res) \<Rightarrow> (nat, string list) dict \<Rightarrow>
       (nat list \<Rightarrow> (nat, stored_record) dict res) \<Rightarrow> nat set \<Rightarrow> (nat, labels) dict \<Rightarrow>
       gate_entry list \<Rightarrow> nat list \<Rightarrow> (nat, stored_record) dict res" where
  "check_write_gate p decode shapes load new birth pending deletes =
     (if is_root p then Inr []
      else
        let persisted = map ge_oid (filter (\<lambda>e. ge_oid e \<notin> new) pending) @ deletes in
        bind_res (if persisted = [] then Inr [] else load persisted) (\<lambda>records.
        bind_res (read_priors decode shapes records) (\<lambda>priors.
        bind_res (each_res (gate_record p decode shapes records priors birth) pending) (\<lambda>_.
        bind_res (each_res (gate_deleted p priors) deletes) (\<lambda>_.
          Inr records)))))"

section \<open>What the gate admits\<close>

lemma each_res_Inr: "each_res f xs = Inr u \<longleftrightarrow> (\<forall>x \<in> set xs. f x = Inr ())"
  unfolding each_res_def by (induction xs) (auto split: sum.splits)

lemma gate_persisted_Inr:
  "gate_persisted_record p staged prior = Inr b \<longleftrightarrow>
     b = prior \<and> lb_write prior \<le> authority_towards p (lb_owner prior) (lb_groups prior) \<and> lb_owner staged = lb_owner prior"
  by (auto simp: gate_persisted_record_def)

lemma gate_label_changes_Inr:
  "gate_label_changes p staged base = Inr u \<longleftrightarrow>
     (\<forall>g \<in> set (lb_groups staged) - set (lb_groups base). level p g \<noteq> NO_STANDING) \<and>
     (lb_read staged = lb_read base \<or> lb_read staged \<le> authority_towards p (lb_owner staged) (lb_groups staged)) \<and>
     (lb_write staged = lb_write base \<or> lb_write staged \<le> authority_towards p (lb_owner staged) (lb_groups staged))"
  by (auto simp: gate_label_changes_def Let_def)

lemma gate_actor_Inr:
  "gate_actor_memberships p staged prior = Inr u \<longleftrightarrow>
     (\<forall>x \<in> set staged. dict_get prior (fst x) = Some (snd x) \<or> snd x \<le> level p (fst x))"
  unfolding gate_actor_memberships_def list_ex_iff
  by (simp add: case_prod_beta) (metis linorder_not_less)

lemma gate_delete_Inr:
  "gate_delete p l = Inr u \<longleftrightarrow> lb_write l \<le> authority_towards p (lb_owner l) (lb_groups l)"
  by (auto simp: gate_delete_def)

lemmas gate_Inr = each_res_Inr gate_persisted_Inr gate_label_changes_Inr gate_actor_Inr gate_delete_Inr

lemma read_priors_get:
  assumes "read_priors decode shapes records = Inr priors"
  shows "dict_get records oid = Some rec \<Longrightarrow> \<exists>l. prior_labels decode shapes rec = Inr l \<and> dict_get priors oid = Some l"
    and "dict_get records oid = None \<Longrightarrow> dict_get priors oid = None"
  using assms unfolding read_priors_def
  by (induction records arbitrary: priors) (auto simp: bind_res_Inr split: sum.splits if_splits)

text \<open>An admitted write, against the labels the record was last committed with.\<close>

definition write_admitted :: "principal \<Rightarrow> labels \<Rightarrow> labels \<Rightarrow> bool" where
  "write_admitted p staged base \<longleftrightarrow> lb_owner staged = lb_owner base \<and>
     (\<forall>g \<in> set (lb_groups staged) - set (lb_groups base). level p g \<noteq> NO_STANDING) \<and>
     (lb_read staged = lb_read base \<or> lb_read staged \<le> authority_towards p (lb_owner staged) (lb_groups staged)) \<and>
     (lb_write staged = lb_write base \<or> lb_write staged \<le> authority_towards p (lb_owner staged) (lb_groups staged))"

lemma gate_record_persisted:
  assumes "gate_record p decode shapes records priors birth e = Inr ()" and "dict_get priors (ge_oid e) = Some prior"
  shows "lb_write prior \<le> authority_towards p (lb_owner prior) (lb_groups prior) \<and> write_admitted p (ge_labels e) prior"
  using assms by (auto simp: gate_record_def bind_res_Inr gate_Inr write_admitted_def)

lemma gate_record_new:
  assumes "gate_record p decode shapes records priors birth e = Inr ()" and "dict_get priors (ge_oid e) = None"
    and "dict_get birth (ge_oid e) = Some b"
  shows "uid p \<noteq> 0 \<and> write_admitted p (ge_labels e) b"
  using assms
  by (auto simp: gate_record_def bind_res_Inr gate_Inr write_admitted_def gate_new_record_def Let_def split: if_splits)

lemma gate_record_actor:
  assumes "gate_record p decode shapes records priors birth e = Inr ()" and "ge_actor e = Some v"
    and "memberships_of v = Inr ms" and "(g, lvl) \<in> set ms" and "level p g < lvl"
  shows "\<exists>rec old. dict_get records (ge_oid e) = Some rec \<and>
    prior_actor_memberships decode shapes rec = Inr old \<and> dict_get old g = Some lvl"
  using assms
  by (fastforce simp: gate_record_def bind_res_Inr gate_Inr split: option.splits)

lemma check_write_gate_Inr:
  assumes "check_write_gate p decode shapes load new birth pending deletes = Inr records" and "\<not> is_root p"
  obtains priors where "read_priors decode shapes records = Inr priors"
    and "\<forall>e \<in> set pending. gate_record p decode shapes records priors birth e = Inr ()"
    and "\<forall>oid \<in> set deletes. gate_deleted p priors oid = Inr ()"
    and "map ge_oid (filter (\<lambda>e. ge_oid e \<notin> new) pending) @ deletes = [] \<and> records = [] \<or>
      load (map ge_oid (filter (\<lambda>e. ge_oid e \<notin> new) pending) @ deletes) = Inr records"
  using assms
  by (auto simp: check_write_gate_def bind_res_Inr each_res_Inr Let_def split: if_splits)

end
