(* ===== verification/Store_State.thy ===== *)
theory Store_State
  imports Store_Gate
begin

text \<open>
  The state of a \<open>Store\<close> (\<open>_store.py\<close>) and of the live entities it tracks.

  \<^item> The heap maps addresses to entities; a field holds \<open>PEnt a\<close> for the entity at \<open>a\<close> and
    \<open>PLazy i oid target\<close> for a \<open>Lazy\<close> handle. The label columns of a protected class are the record
    \<open>en_labels\<close>, every other field is in \<open>en_vals\<close>. A redacted twin has no engine slot but its flag.
  \<^item> The buffers are the source's dicts, in insertion order, from OID to address. The registry is
    weak in Python; here an entry stays until it is discarded, since no entity the model can still
    name is collected.
  \<^item> What the session is opened with is the parameter \<open>env\<close>: the codec, the hash, the known classes,
    the backend's operations, the consumers' operations. The backend's state is \<open>'s\<close>, a consumer's
    is \<open>'c\<close>; an attached consumer is filed under its identity.
  \<^item> An operation answers a value or an error and the state it leaves, also when it raised.
  \<^item> Not modelled: the thread check, the submission queue, the lazy manager's sweeps and the debug
    fingerprints.
\<close>

section \<open>Actions\<close>

type_synonym ('st, 'a) act = "'st \<Rightarrow> 'a res \<times> 'st"

definition return_act :: "'a \<Rightarrow> ('st, 'a) act" where "return_act x st = (Inr x, st)"

definition raise_act :: "error \<Rightarrow> ('st, 'a) act" where "raise_act e st = (Inl e, st)"

definition bind_act :: "('st, 'a) act \<Rightarrow> ('a \<Rightarrow> ('st, 'b) act) \<Rightarrow> ('st, 'b) act" where
  "bind_act m f st = (case m st of (Inl e, st') \<Rightarrow> (Inl e, st') | (Inr x, st') \<Rightarrow> f x st')"

definition lift_act :: "('st \<Rightarrow> 'a res) \<Rightarrow> ('st, 'a) act" where "lift_act f st = (f st, st)"

definition update_act :: "('st \<Rightarrow> 'st) \<Rightarrow> ('st, unit) act" where "update_act f st = (Inr (), f st)"

fun fold_act :: "('x \<Rightarrow> 'a \<Rightarrow> ('st, 'a) act) \<Rightarrow> 'x list \<Rightarrow> 'a \<Rightarrow> ('st, 'a) act" where
  "fold_act f [] a = return_act a"
| "fold_act f (x # xs) a = bind_act (f x a) (fold_act f xs)"

named_theorems act_simps

lemma act_eval [simp, act_simps]:
  "return_act x st = (Inr x, st)" "raise_act e st = (Inl e, st)" "lift_act f st = (f st, st)"
  "update_act g st = (Inr (), g st)"
  by (simp_all add: return_act_def raise_act_def lift_act_def update_act_def)

lemma bind_act_Inr [act_simps]:
  "bind_act m f st = (Inr y, st'') \<longleftrightarrow> (\<exists>x st'. m st = (Inr x, st') \<and> f x st' = (Inr y, st''))"
  by (auto simp: bind_act_def split: prod.splits sum.splits)

lemma bind_act_Inl [act_simps]:
  "bind_act m f st = (Inl e, st'') \<longleftrightarrow>
     m st = (Inl e, st'') \<or> (\<exists>x st'. m st = (Inr x, st') \<and> f x st' = (Inl e, st''))"
  by (auto simp: bind_act_def split: prod.splits sum.splits)

lemma bind_act_eval:
  "m st = (Inl e, st') \<Longrightarrow> bind_act m f st = (Inl e, st')"
  "m st = (Inr x, st') \<Longrightarrow> bind_act m f st = f x st'"
  by (simp_all add: bind_act_def)

text \<open>A relation every step keeps, whether it returns or raises, is kept by the whole.\<close>

lemma bind_act_rel:
  assumes "bind_act m f st = (r, st'')" and "\<And>r1 st1. m st = (r1, st1) \<Longrightarrow> R st st1"
    and "\<And>x st1 r2 st2. m st = (Inr x, st1) \<Longrightarrow> f x st1 = (r2, st2) \<Longrightarrow> R st1 st2"
    and "\<And>a b c. R a b \<Longrightarrow> R b c \<Longrightarrow> R a c"
  shows "R st st''"
proof -
  obtain r1 st1 where m: "m st = (r1, st1)"
    by fastforce
  show ?thesis
  proof (cases r1)
    case (Inl e)
    then show ?thesis
      using assms(1,2) m by (auto simp: bind_act_def)
  next
    case (Inr x)
    then have "f x st1 = (r, st'')"
      using assms(1) m by (auto simp: bind_act_def)
    then show ?thesis
      using assms(2-4) m Inr by blast
  qed
qed

lemma fold_act_rel:
  assumes "fold_act f xs a st = (r, st')" and "\<And>x a st r st'. x \<in> set xs \<Longrightarrow> f x a st = (r, st') \<Longrightarrow> R st st'"
    and "\<And>st. R st st" and "\<And>a b c. R a b \<Longrightarrow> R b c \<Longrightarrow> R a c"
  shows "R st st'"
  using assms(1,2)
proof (induction xs arbitrary: a st r st')
  case Nil
  then show ?case
    using assms(3) by simp
next
  case (Cons x xs)
  show ?case
  proof (rule bind_act_rel [OF Cons.prems(1) [unfolded fold_act.simps]])
    fix r1 st1
    assume "f x a st = (r1, st1)"
    then show "R st st1"
      by (rule Cons.prems(2) [OF list.set_intros(1)])
  next
    fix y st1 r2 st2
    assume "fold_act f xs y st1 = (r2, st2)"
    then show "R st1 st2"
      by (rule Cons.IH) (rule Cons.prems(2), auto)
  next
    fix a b c
    assume "R a b" "R b c"
    then show "R a c"
      by (rule assms(4))
  qed
qed

section \<open>Entities\<close>

record entity =
  en_ti :: typeinfo
  en_vals :: row
  en_labels :: labels
  en_oid :: "nat option"
  en_store :: "nat option"
  en_state :: estate
  en_twin :: bool

type_synonym heap = "(nat, entity) dict"

definition label_field :: "labels \<Rightarrow> string \<Rightarrow> pyval" where
  "label_field l name =
     (if name = ''_dc_owner'' then PInt (lb_owner l)
      else if name = ''_dc_groups'' then PList (map PInt (lb_groups l))
      else if name = ''_dc_read_floor'' then PInt (lb_read l)
      else PInt (lb_write l))"

definition en_field :: "entity \<Rightarrow> string \<Rightarrow> pyval" where
  "en_field e name =
     (if ti_protected (en_ti e) \<and> name \<in> set PERM_FIELDS then label_field (en_labels e) name
      else dict_getd (en_vals e) name PNone)"

definition en_values :: "entity \<Rightarrow> pyval list" where
  "en_values e = map (en_field e) (ti_field_names (en_ti e))"

definition en_row :: "entity \<Rightarrow> row" where
  "en_row e = map (\<lambda>f. (f, en_field e f)) (ti_field_names (en_ti e))"

definition stamp :: "nat \<Rightarrow> nat \<Rightarrow> estate \<Rightarrow> entity \<Rightarrow> entity" where
  "stamp oid store state e = e\<lparr>en_oid := Some oid, en_store := Some store, en_state := state\<rparr>"

definition detach :: "entity \<Rightarrow> entity" where
  "detach e = e\<lparr>en_oid := None, en_store := None, en_state := STATE_NEW\<rparr>"

section \<open>The environment and the state\<close>

record ('s, 'c) senv =
  se_self :: nat
  se_enc :: "pyval \<Rightarrow> bytes res"
  se_dec :: "bytes \<Rightarrow> pyval res"
  se_forms :: text_forms
  se_sha :: "bytes \<Rightarrow> bytes"
  se_types :: "(string, typeinfo) dict"
  se_boot :: "'s \<Rightarrow> boot_info res \<times> 's"
  se_load :: "nat list \<Rightarrow> 's \<Rightarrow> (nat, stored_record) dict res"
  se_scan :: "nat \<Rightarrow> 's \<Rightarrow> stored_record list res"
  se_apply :: "commit_batch \<Rightarrow> 's \<Rightarrow> unit res \<times> 's"
  se_feed :: "delta \<Rightarrow> 'c \<Rightarrow> bool res \<times> 'c"
  se_watermark :: "'c \<Rightarrow> nat"
  se_ser :: "bitmap \<Rightarrow> bytes"
  se_deser :: "bytes \<Rightarrow> bitmap"
  se_clock :: int
  se_strict_deletes :: bool

type_synonym buffer = "(nat, nat) dict"

record ('s, 'c) store =
  st_heap :: heap
  st_backend :: 's
  st_alloc :: id_alloc
  st_registry :: buffer
  st_new :: buffer
  st_dirty :: buffer
  st_deleted :: "(nat, typeinfo \<times> nat option) dict"
  st_cancelled_new :: buffer
  st_birth_labels :: "(nat, labels) dict"
  st_prestamp_labels :: "(nat, labels) dict"
  st_pending_upserts :: "(string \<times> string \<times> key, nat) dict"
  st_index :: index_manager
  st_root_oid :: "nat option"
  st_root_holder :: "nat option"
  st_last_tid :: nat
  st_principal :: principal
  st_acting :: "principal list"
  st_consumers :: "(nat, 'c) dict"
  st_cid_by_typename :: "(string, nat) dict"
  st_cids_by_typename :: "(string, nat list) dict"
  st_typename_by_cid :: "(nat, string) dict"
  st_persisted_fields :: "(nat, string list) dict"
  st_durable_cids :: "nat set"
  st_closed :: bool
  st_lease_lost :: bool

definition decode_fields :: "('s, 'c) senv \<Rightarrow> bytes \<Rightarrow> pyval list res" where
  "decode_fields env payload = bind_res (decode_payload (se_dec env) (se_forms env) payload) as_list"

text \<open>\<open>_lineage_for\<close>, and the index manager's view of the session.\<close>

definition lineage_for :: "('s, 'c) store \<Rightarrow> typeinfo \<Rightarrow> (nat \<times> string list) list" where
  "lineage_for st ti =
     map (\<lambda>cid. (cid, dict_getd (st_persisted_fields st) cid [])) (dict_getd (st_cids_by_typename st) (ti_name ti) [])"

definition scan_rows :: "('s, 'c) senv \<Rightarrow> 's \<Rightarrow> nat \<Rightarrow> (nat \<times> bytes) list" where
  "scan_rows env b cid =
     (case se_scan env cid b of Inl e \<Rightarrow> [] | Inr rs \<Rightarrow> map (\<lambda>r. (sr_oid r, sr_payload r)) rs)"

definition index_env :: "('s, 'c) senv \<Rightarrow> ('s, 'c) store \<Rightarrow> im_env" where
  "index_env env st =
     \<lparr>env_lineage = lineage_for st, env_scan = scan_rows env (st_backend st),
      env_all_cids = dict_keys (st_persisted_fields st), env_decode = decode_fields env,
      env_ser = se_ser env, env_deser = se_deser env\<rparr>"

text \<open>The principal in effect: the innermost \<open>acting_as\<close> scope, else the ambient one.\<close>

definition acting :: "('s, 'c) store \<Rightarrow> principal" where
  "acting st = (if st_acting st = [] then st_principal st else last (st_acting st))"

definition entity_at :: "nat \<Rightarrow> ('s, 'c) store \<Rightarrow> entity res" where
  "entity_at a st = (case dict_get (st_heap st) a of None \<Rightarrow> Inl PyKeyError | Some e \<Rightarrow> Inr e)"

definition put_entity :: "nat \<Rightarrow> entity \<Rightarrow> ('s, 'c) store \<Rightarrow> ('s, 'c) store" where
  "put_entity a e st = st\<lparr>st_heap := AList.update a e (st_heap st)\<rparr>"

definition map_entity :: "(entity \<Rightarrow> entity) \<Rightarrow> nat \<Rightarrow> ('s, 'c) store \<Rightarrow> ('s, 'c) store" where
  "map_entity f a st =
     (case dict_get (st_heap st) a of None \<Rightarrow> st | Some e \<Rightarrow> put_entity a (f e) st)"

definition buffered :: "('s, 'c) store \<Rightarrow> nat \<Rightarrow> bool" where
  "buffered st oid \<longleftrightarrow> dict_get (st_new st) oid \<noteq> None \<or> dict_get (st_dirty st) oid \<noteq> None"

definition oid_for_encode :: "('s, 'c) store \<Rightarrow> nat \<Rightarrow> nat res" where
  "oid_for_encode st a =
     bind_res (entity_at a st) (\<lambda>e. case en_oid e of None \<Rightarrow> Inl DataCrystalError | Some oid \<Rightarrow> Inr oid)"

text \<open>\<open>_guard\<close> and \<open>_assert_lease_held\<close>; the thread check is not modelled.\<close>

definition guard :: "('s, 'c) store \<Rightarrow> unit res" where
  "guard st = (if st_closed st then Inl StoreClosedError else Inr ())"

definition assert_lease_held :: "('s, 'c) store \<Rightarrow> unit res" where
  "assert_lease_held st = (if st_lease_lost st then Inl LeaseLostError else Inr ())"

lemma put_entity_simps [simp]:
  "st_heap (put_entity a e st) = AList.update a e (st_heap st)"
  "st_backend (put_entity a e st) = st_backend st" "st_alloc (put_entity a e st) = st_alloc st"
  "st_new (put_entity a e st) = st_new st" "st_dirty (put_entity a e st) = st_dirty st"
  "st_deleted (put_entity a e st) = st_deleted st" "st_index (put_entity a e st) = st_index st"
  "st_last_tid (put_entity a e st) = st_last_tid st" "st_consumers (put_entity a e st) = st_consumers st"
  by (simp_all add: put_entity_def)

end
