(* ===== verification/Store_Register.thy ===== *)
theory Store_Register
  imports Store_State
begin

text \<open>
  Registration (\<open>_store.py\<close>): the walk from an entity to the entities its fields reach, which
  adopts what was never stored, stamps birth labels and re-walks what is buffered.

  \<^item> \<open>register_loop\<close> is the \<open>while queue\<close> loop of \<open>_register_graph\<close>. Each round either marks one
    more entity of the heap as walked or drops a queue entry, so it ends on every heap, cyclic or not.
  \<^item> A round that raises leaves the entities adopted before it adopted and buffered, as in the source.
\<close>

section \<open>Walking a value\<close>

text \<open>A queue entry: the entity, and the protected entity whose field reached it.\<close>

type_synonym work = "(nat \<times> nat option) list"

definition queue_entity :: "('s, 'c) store \<Rightarrow> nat option \<Rightarrow> bool \<Rightarrow> nat \<Rightarrow> work \<Rightarrow> work res" where
  "queue_entity st container eager a queue =
     (case dict_get (st_heap st) a of
        None \<Rightarrow> Inl PyKeyError
      | Some e \<Rightarrow>
          if eager \<and> ti_protected (en_ti e) \<and> \<not> en_twin e then Inl PyTypeError
          else if (case en_oid e of None \<Rightarrow> True | Some oid \<Rightarrow> buffered st oid)
          then Inr (queue @ [(a, container)])
          else Inr queue)"

lemma fold_res_cong [fundef_cong]:
  "xs = ys \<Longrightarrow> s = t \<Longrightarrow> (\<And>x s. x \<in> set ys \<Longrightarrow> f x s = g x s) \<Longrightarrow> fold_res f xs s = fold_res g ys t"
proof (induction xs arbitrary: ys s t)
  case Nil
  then show ?case by simp
next
  case (Cons x xs)
  have "f x t = g x t" and "fold_res f xs u = fold_res g xs u" for u
    using Cons by auto
  then show ?case
    using Cons.prems(1,2) by (auto split: sum.split)
qed

function (sequential) walk_value ::
    "('s, 'c) store \<Rightarrow> nat option \<Rightarrow> bool \<Rightarrow> pyval \<Rightarrow> work \<Rightarrow> work res" where
  "walk_value st container eager (PEnt a) queue = queue_entity st container eager a queue"
| "walk_value st container eager (PLazy i oid target) queue =
     (case target of None \<Rightarrow> Inr queue | Some t \<Rightarrow> queue_entity st container eager t queue)"
| "walk_value st container eager (PList xs) queue = fold_res (walk_value st container eager) xs queue"
| "walk_value st container eager (PTuple xs) queue = fold_res (walk_value st container eager) xs queue"
| "walk_value st container eager (PDict d) queue = fold_res (walk_value st container eager) (map snd d) queue"
| "walk_value st container eager v queue = Inr queue"
  by pat_completeness auto
termination
proof (relation "measure (\<lambda>(st, container, eager, v, queue). size v)", goal_cases)
  case 1
  then show ?case by simp
next
  case (2 st container eager xs queue x s)
  then show ?case using size_list_values [of xs] member_le_sum_list [of "size x" "map size xs"] by auto
next
  case (3 st container eager xs queue x s)
  then show ?case using size_list_values [of xs] member_le_sum_list [of "size x" "map size xs"] by auto
next
  case (4 st container eager d queue x s)
  then have "size x \<le> sum_list (map size (map snd d))"
    by (intro member_le_sum_list) auto
  then show ?case using size_dict_values [of d] by simp
qed

definition queue_field_entities :: "('s, 'c) store \<Rightarrow> nat \<Rightarrow> entity \<Rightarrow> work \<Rightarrow> work res" where
  "queue_field_entities st a e queue =
     (if has_entity_refs (en_ti e)
      then fold_res (\<lambda>spec. walk_value st (if ti_protected (en_ti e) then Some a else None)
             (\<not> fs_lazy_refs spec) (en_field e (fs_name spec))) (ti_specs (en_ti e)) queue
      else Inr queue)"

section \<open>Adoption and birth labels\<close>

definition require_storable :: "entity \<Rightarrow> unit res" where
  "require_storable e =
     (if en_twin e then Inl ReadDeniedError
      else if en_state e = STATE_DELETED then Inl DeletedEntityError
      else Inr ())"

definition adopt_unregistered :: "('s, 'c) senv \<Rightarrow> nat \<Rightarrow> entity \<Rightarrow> (('s, 'c) store, nat) act" where
  "adopt_unregistered env a e st =
     (if ti_protected (en_ti e) \<and> uid (acting st) = 0 then (Inl WriteDeniedError, st)
      else case next_oid (st_alloc st) of (oid, alloc) \<Rightarrow>
        (Inr oid,
         (put_entity a (stamp oid (se_self env) (en_state e) e) st)
           \<lparr>st_alloc := alloc, st_new := AList.update oid a (st_new st)\<rparr>))"

text \<open>The labels a fresh record is born with, and the gate's baseline for it.\<close>

definition birth_base :: "int \<Rightarrow> labels option \<Rightarrow> labels \<Rightarrow> labels" where
  "birth_base u container l =
     (case container of
        Some c \<Rightarrow>
          if lb_groups l = [] \<and> lb_read l = lb_write l \<and> lb_write l = 0
          then c\<lparr>lb_owner := u\<rparr>
          else \<lparr>lb_owner = u, lb_groups = [], lb_read = VIEWER, lb_write = VIEWER\<rparr>
      | None \<Rightarrow> \<lparr>lb_owner = u, lb_groups = [], lb_read = VIEWER, lb_write = VIEWER\<rparr>)"

definition birth_stamp :: "int \<Rightarrow> labels option \<Rightarrow> labels \<Rightarrow> labels" where
  "birth_stamp u container l =
     (if container \<noteq> None \<and> lb_groups l = [] \<and> lb_read l = lb_write l \<and> lb_write l = 0
      then birth_base u container l else l\<lparr>lb_owner := u\<rparr>)"

definition labels_of :: "('s, 'c) store \<Rightarrow> nat option \<Rightarrow> labels option" where
  "labels_of st container =
     (case container of None \<Rightarrow> None | Some c \<Rightarrow> map_option en_labels (dict_get (st_heap st) c))"

definition stamp_perm_labels :: "nat \<Rightarrow> nat \<Rightarrow> nat option \<Rightarrow> ('s, 'c) store \<Rightarrow> ('s, 'c) store" where
  "stamp_perm_labels a oid container st =
     (case dict_get (st_heap st) a of
        None \<Rightarrow> st
      | Some e \<Rightarrow>
          (let u = uid (acting st); l = en_labels e; cl = labels_of st container in
           (put_entity a (e\<lparr>en_labels := birth_stamp u cl l\<rparr>) st)
             \<lparr>st_prestamp_labels := AList.update oid l (st_prestamp_labels st),
              st_birth_labels := AList.update oid (birth_base u cl l) (st_birth_labels st)\<rparr>))"

section \<open>The registration loop\<close>

definition expand ::
    "nat \<Rightarrow> nat option \<Rightarrow> bool \<Rightarrow> nat \<Rightarrow> (('s, 'c) store, work) act" where
  "expand a container fresh oid st =
     (case dict_get (st_heap st) a of
        None \<Rightarrow> (Inl PyKeyError, st)
      | Some e \<Rightarrow>
          if buffered st oid then
            (let st1 = (if fresh \<and> ti_protected (en_ti e) then stamp_perm_labels a oid container st else st);
                 e1 = (case dict_get (st_heap st1) a of None \<Rightarrow> e | Some e1 \<Rightarrow> e1)
             in (queue_field_entities st1 a e1 [], st1))
          else (Inr [], st))"

definition register_step ::
    "('s, 'c) senv \<Rightarrow> nat \<Rightarrow> nat option \<Rightarrow> nat set \<Rightarrow> (('s, 'c) store, work \<times> nat set) act" where
  "register_step env a container walked st =
     (case dict_get (st_heap st) a of
        None \<Rightarrow> (Inl PyKeyError, st)
      | Some e \<Rightarrow>
          bind_act (lift_act (\<lambda>_. require_storable e)) (\<lambda>_.
          bind_act (case en_oid e of Some oid \<Rightarrow> return_act oid | None \<Rightarrow> adopt_unregistered env a e) (\<lambda>oid.
            if oid \<in> walked then return_act ([], walked)
            else bind_act (expand a container (en_oid e = None) oid) (\<lambda>found.
                 return_act (found, insert oid walked)))) st)"

text \<open>Entities the loop may still mark: unregistered, or registered and not walked.\<close>

definition unwalked :: "nat set \<Rightarrow> ('s, 'c) store \<Rightarrow> nat set" where
  "unwalked walked st =
     {a. \<exists>e. dict_get (st_heap st) a = Some e \<and> (case en_oid e of None \<Rightarrow> True | Some oid \<Rightarrow> oid \<notin> walked)}"

lemma finite_unwalked [simp]: "finite (unwalked walked st)"
proof (rule finite_subset)
  show "unwalked walked st \<subseteq> set (dict_keys (st_heap st))"
    by (auto simp: unwalked_def dest: map_of_SomeD intro: rev_image_eqI)
qed simp

lemma stamp_perm_heap:
  "dict_get (st_heap (stamp_perm_labels a oid container st)) b =
     (if b = a then map_option (\<lambda>e. e\<lparr>en_labels := birth_stamp (uid (acting st)) (labels_of st container) (en_labels e)\<rparr>)
        (dict_get (st_heap st) a)
      else dict_get (st_heap st) b)"
  by (simp add: stamp_perm_labels_def Let_def split: option.split)

text \<open>Expanding an entity changes labels only.\<close>

lemma expand_heap:
  assumes "expand a container fresh oid st = (r, st')"
  shows "map_option en_oid (dict_get (st_heap st') b) = map_option en_oid (dict_get (st_heap st) b)"
  using assms
  by (auto simp: expand_def Let_def stamp_perm_heap option.map_comp o_def split: option.splits if_splits)

lemma unwalked_eq:
  assumes "\<And>b. map_option en_oid (dict_get (st_heap st') b) = map_option en_oid (dict_get (st_heap st) b)"
  shows "unwalked walked st' = unwalked walked st"
proof -
  have "(\<exists>e. dict_get (st_heap st') b = Some e \<and> P (en_oid e)) \<longleftrightarrow>
      (\<exists>e. dict_get (st_heap st) b = Some e \<and> P (en_oid e))" for b P
    using assms [of b] by (cases "dict_get (st_heap st') b"; cases "dict_get (st_heap st) b") auto
  then show ?thesis
    unfolding unwalked_def by (intro Collect_cong) blast
qed

lemma put_entity_get [simp]:
  "dict_get (st_heap (put_entity a e st)) b = (if b = a then Some e else dict_get (st_heap st) b)"
  by simp

lemma adopt_Inr:
  assumes "adopt_unregistered env a e st = (Inr oid, st')"
  shows "oid = next_oid_of (st_alloc st)" and "\<not> (ti_protected (en_ti e) \<and> uid (acting st) = 0)"
    and "st' = (put_entity a (stamp oid (se_self env) (en_state e) e) st)
      \<lparr>st_alloc := (st_alloc st)\<lparr>next_oid_of := oid + 1\<rparr>, st_new := AList.update oid a (st_new st)\<rparr>"
  using assms by (auto simp: adopt_unregistered_def next_oid_def split: if_splits)

text \<open>What a round that returns did to the OIDs of the heap.\<close>

lemma register_step_oids:
  assumes "register_step env a container walked st = (Inr (found, walked'), st')"
  obtains e oid where "dict_get (st_heap st) a = Some e" and "require_storable e = Inr ()"
    and "en_oid e = Some oid \<or> en_oid e = None \<and> oid = next_oid_of (st_alloc st)"
    and "\<And>b. map_option en_oid (dict_get (st_heap st') b) =
      (if b = a then Some (Some oid) else map_option en_oid (dict_get (st_heap st) b))"
    and "oid \<in> walked \<and> found = [] \<and> walked' = walked \<or> oid \<notin> walked \<and> walked' = insert oid walked"
proof -
  obtain e where e: "dict_get (st_heap st) a = Some e"
    using assms by (auto simp: register_step_def split: option.splits)
  let ?adopt = "case en_oid e of Some oid \<Rightarrow> return_act oid | None \<Rightarrow> adopt_unregistered env a e"
  obtain oid st1 where s: "require_storable e = Inr ()" "?adopt st = (Inr oid, st1)"
    and r: "(if oid \<in> walked then return_act ([], walked)
       else bind_act (expand a container (en_oid e = None) oid) (\<lambda>found. return_act (found, insert oid walked))) st1 =
      (Inr (found, walked'), st')"
    using assms e by (auto simp: register_step_def bind_act_Inr)
  have o: "en_oid e = Some oid \<and> st1 = st \<or> en_oid e = None \<and> oid = next_oid_of (st_alloc st)"
    using s(2) adopt_Inr(1) by (fastforce split: option.splits)
  have h1: "map_option en_oid (dict_get (st_heap st1) b) =
      (if b = a then Some (Some oid) else map_option en_oid (dict_get (st_heap st) b))" for b
    using s(2) e adopt_Inr(3) [of env a e st oid st1] by (auto simp: stamp_def split: option.splits)
  have h2: "map_option en_oid (dict_get (st_heap st') b) = map_option en_oid (dict_get (st_heap st1) b)" for b
    using r expand_heap by (fastforce simp: bind_act_Inr split: if_splits)
  have "oid \<in> walked \<and> found = [] \<and> walked' = walked \<or> oid \<notin> walked \<and> walked' = insert oid walked"
    using r by (auto simp: bind_act_Inr split: if_splits)
  then show thesis
    using that [OF e s(1) _ _] o h1 h2 by metis
qed

lemma register_step_unwalked:
  assumes "register_step env a container walked st = (Inr (found, walked'), st')"
  shows "unwalked walked' st' \<subset> unwalked walked st \<or> unwalked walked' st' = unwalked walked st \<and> found = []"
proof -
  obtain e oid where r: "dict_get (st_heap st) a = Some e"
    "en_oid e = Some oid \<or> en_oid e = None \<and> oid = next_oid_of (st_alloc st)"
    "\<And>b. map_option en_oid (dict_get (st_heap st') b) =
      (if b = a then Some (Some oid) else map_option en_oid (dict_get (st_heap st) b))"
    "oid \<in> walked \<and> found = [] \<and> walked' = walked \<or> oid \<notin> walked \<and> walked' = insert oid walked"
    using register_step_oids [OF assms] by metis
  have w: "b \<in> unwalked W s \<longleftrightarrow>
      (case map_option en_oid (dict_get (st_heap s) b) of None \<Rightarrow> False | Some None \<Rightarrow> True | Some (Some k) \<Rightarrow> k \<notin> W)"
    for b W and s :: "('a, 'b) store"
    by (auto simp: unwalked_def split: option.splits)
  have sub: "unwalked walked' st' \<subseteq> unwalked walked st"
    using r(1,2,4) by (auto simp: w r(3) split: option.splits if_splits)
  show ?thesis
  proof (cases "en_oid e = Some oid \<and> oid \<in> walked")
    case True
    then have "unwalked walked' st' = unwalked walked st"
      using r(1,4) by (auto simp: w r(3) split: option.splits if_splits)
    then show ?thesis
      using True r(4) by auto
  next
    case False
    then have "a \<in> unwalked walked st"
      using r(1,2) by (auto simp: w)
    moreover have "a \<notin> unwalked walked' st'"
      using r(4) by (auto simp: w r(3))
    ultimately show ?thesis
      using sub by blast
  qed
qed

function register_loop ::
    "('s, 'c) senv \<Rightarrow> work \<Rightarrow> nat set \<Rightarrow> (('s, 'c) store, nat set) act" where
  "register_loop env [] walked st = (Inr walked, st)"
| "register_loop env ((a, container) # queue) walked st =
     (case register_step env a container walked st of
        (Inl e, st') \<Rightarrow> (Inl e, st')
      | (Inr (found, walked'), st') \<Rightarrow> register_loop env (queue @ found) walked' st')"
  by pat_completeness auto
termination
proof (relation "(\<lambda>(env, queue, walked, st). card (unwalked walked st)) <*mlex*>
    measure (\<lambda>(env, queue, walked, st). length queue)", goal_cases)
  case 1
  then show ?case by (simp add: wf_mlex)
next
  case (2 env a container queue walked st r st' x found walked')
  then have "register_step env a container walked st = (Inr (found, walked'), st')"
    by simp
  from register_step_unwalked [OF this] show ?case
    using psubset_card_mono [OF finite_unwalked [of walked st], of "unwalked walked' st'"] by (auto simp: mlex_prod_def)
qed

definition register_graph ::
    "('s, 'c) senv \<Rightarrow> nat \<Rightarrow> nat set \<Rightarrow> (('s, 'c) store, nat set) act" where
  "register_graph env a walked = register_loop env [(a, None)] walked"

text \<open>\<open>return oid_of(obj)\<close>\<close>

definition registered_oid :: "nat \<Rightarrow> ('s, 'c) store \<Rightarrow> nat res" where
  "registered_oid a st = oid_for_encode st a"

definition discover_new_graphs :: "('s, 'c) senv \<Rightarrow> (('s, 'c) store, nat set) act" where
  "discover_new_graphs env st =
     fold_act (register_graph env) (map snd (st_new st) @ map snd (st_dirty st)) {} st"

end
