(* ===== verification/Store_Walk.thy ===== *)
theory Store_Walk
  imports Store_Register
begin

text \<open>
  What registration guarantees: it keeps the identity of live entities (one instance per OID, OIDs
  below the watermark, buffers that point at the instance they name), changes nothing else of the
  session, and leaves no unregistered entity in reach of a buffered one.
\<close>

section \<open>What a value reaches\<close>

function (sequential) reached :: "pyval \<Rightarrow> nat set" where
  "reached (PEnt a) = {a}"
| "reached (PLazy i oid target) = (case target of None \<Rightarrow> {} | Some t \<Rightarrow> {t})"
| "reached (PList xs) = (\<Union>x \<in> set xs. reached x)"
| "reached (PTuple xs) = (\<Union>x \<in> set xs. reached x)"
| "reached (PDict d) = (\<Union>x \<in> set (map snd d). reached x)"
| "reached v = {}"
  by pat_completeness auto
termination
proof (relation "measure size", goal_cases)
  case 1
  then show ?case by simp
next
  case (2 xs x)
  then show ?case using size_list_values [of xs] member_le_sum_list [of "size x" "map size xs"] by auto
next
  case (3 xs x)
  then show ?case using size_list_values [of xs] member_le_sum_list [of "size x" "map size xs"] by auto
next
  case (4 d x)
  then have "size x \<le> sum_list (map size (map snd d))"
    by (intro member_le_sum_list) auto
  then show ?case using size_dict_values [of d] by simp
qed

definition entity_refs :: "entity \<Rightarrow> nat set" where
  "entity_refs e =
     (if has_entity_refs (en_ti e) then (\<Union>s \<in> set (ti_specs (en_ti e)). reached (en_field e (fs_name s))) else {})"

lemma reached_label [simp]: "reached (label_field l name) = {}"
  by (auto simp: label_field_def)

lemma entity_refs_cong:
  assumes "en_ti e' = en_ti e" and "en_vals e' = en_vals e"
  shows "entity_refs e' = entity_refs e"
proof -
  have "reached (en_field e' n) = reached (en_field e n)" for n
    by (simp add: en_field_def assms)
  then show ?thesis
    by (simp add: entity_refs_def assms)
qed

text \<open>A queue that holds what it must of the entities in \<open>A\<close>.\<close>

definition settled_ref :: "('s, 'c) store \<Rightarrow> nat \<Rightarrow> bool" where
  "settled_ref st c \<longleftrightarrow> (\<exists>e oid. dict_get (st_heap st) c = Some e \<and> en_oid e = Some oid \<and> \<not> buffered st oid)"

definition queued :: "('s, 'c) store \<Rightarrow> nat set \<Rightarrow> work \<Rightarrow> bool" where
  "queued st A queue \<longleftrightarrow> (\<forall>c \<in> A. settled_ref st c \<or> c \<in> fst ` set queue)"

lemma queued_Un [simp]: "queued st (A \<union> B) q \<longleftrightarrow> queued st A q \<and> queued st B q"
  by (auto simp: queued_def)

lemma queued_mono: "queued st A q \<Longrightarrow> set q \<subseteq> set r \<Longrightarrow> queued st A r"
  by (auto simp: queued_def)

lemma queued_empty [simp]: "queued st {} q"
  by (simp add: queued_def)

lemma queue_entity_queued:
  assumes "queue_entity st container eager a queue = Inr q"
  shows "set queue \<subseteq> set q \<and> queued st {a} q"
  using assms by (auto simp: queue_entity_def queued_def settled_ref_def split: option.splits if_splits)

lemma fold_queued:
  assumes "fold_res f xs queue = Inr q"
    and "\<And>x r s. x \<in> set xs \<Longrightarrow> f x r = Inr s \<Longrightarrow> set r \<subseteq> set s \<and> queued st (A x) s"
  shows "set queue \<subseteq> set q \<and> queued st (\<Union>x \<in> set xs. A x) q"
  using assms
proof (induction xs arbitrary: queue)
  case Nil
  then show ?case by simp
next
  case (Cons x xs)
  obtain r where r: "f x queue = Inr r" "fold_res f xs r = Inr q"
    using Cons.prems(1) by (auto split: sum.splits)
  have s: "set r \<subseteq> set q \<and> queued st (\<Union>x \<in> set xs. A x) q"
    using Cons.IH [OF r(2)] Cons.prems(2) by auto
  have "set queue \<subseteq> set r \<and> queued st (A x) r"
    using Cons.prems(2) r(1) by auto
  then show ?case
    using s queued_mono [of st "A x" r q] by auto
qed

lemma walk_value_queued:
  "walk_value st container eager v queue = Inr q \<Longrightarrow> set queue \<subseteq> set q \<and> queued st (reached v) q"
proof (induction st container eager v queue arbitrary: q rule: walk_value.induct)
  case (2 st container eager i oid target queue)
  then show ?case
    using queue_entity_queued by (fastforce split: option.splits)
next
  case (3 st container eager xs queue)
  then show ?case
    using fold_queued [of "walk_value st container eager" xs queue q st reached] by (metis reached.simps(3) walk_value.simps(3))
next
  case (4 st container eager xs queue)
  then show ?case
    using fold_queued [of "walk_value st container eager" xs queue q st reached] by (metis reached.simps(4) walk_value.simps(4))
next
  case (5 st container eager d queue)
  then show ?case
    using fold_queued [of "walk_value st container eager" "map snd d" queue q st reached] by (metis reached.simps(5) walk_value.simps(5))
qed (auto dest: queue_entity_queued)

lemma queue_field_entities_queued:
  assumes "queue_field_entities st a e [] = Inr q"
  shows "queued st (entity_refs e) q"
proof (cases "has_entity_refs (en_ti e)")
  case True
  have "set [] \<subseteq> set q \<and> queued st (\<Union>s \<in> set (ti_specs (en_ti e)). reached (en_field e (fs_name s))) q"
    using assms True unfolding queue_field_entities_def
    by (intro fold_queued [of "\<lambda>spec. walk_value st (if ti_protected (en_ti e) then Some a else None)
          (\<not> fs_lazy_refs spec) (en_field e (fs_name spec))"] walk_value_queued) auto
  then show ?thesis
    using True by (simp add: entity_refs_def)
qed (simp add: entity_refs_def)

section \<open>The effect of a round\<close>

text \<open>All of the session but the heap, the NEW buffer, the label dicts and the OID watermark.\<close>

definition session :: "('s, 'c) store \<Rightarrow> ('s, 'c) store" where
  "session st = st\<lparr>st_heap := [], st_new := [], st_prestamp_labels := [], st_birth_labels := [],
     st_alloc := (st_alloc st)\<lparr>next_oid_of := 0\<rparr>\<rparr>"

lemma session_eqD:
  assumes "session st' = session st"
  shows "st_backend st' = st_backend st" "st_dirty st' = st_dirty st" "st_deleted st' = st_deleted st"
    "st_registry st' = st_registry st" "st_cancelled_new st' = st_cancelled_new st" "st_index st' = st_index st"
    "st_root_oid st' = st_root_oid st" "st_last_tid st' = st_last_tid st" "st_principal st' = st_principal st"
    "st_consumers st' = st_consumers st" "st_persisted_fields st' = st_persisted_fields st"
    "st_cid_by_typename st' = st_cid_by_typename st" "st_durable_cids st' = st_durable_cids st"
    "next_tid_of (st_alloc st') = next_tid_of (st_alloc st)" "next_cid_of (st_alloc st') = next_cid_of (st_alloc st)"
    "st_lease_lost st' = st_lease_lost st" "st_closed st' = st_closed st" "acting st' = acting st"
    "st_pending_upserts st' = st_pending_upserts st" "st_cids_by_typename st' = st_cids_by_typename st"
    "st_typename_by_cid st' = st_typename_by_cid st" "st_root_holder st' = st_root_holder st"
proof -
  have *: "f (session st') = f (session st)" for f :: "('a, 'b) store \<Rightarrow> 'x"
    using assms by simp
  show "st_backend st' = st_backend st" "st_dirty st' = st_dirty st" "st_deleted st' = st_deleted st"
    "st_registry st' = st_registry st" "st_cancelled_new st' = st_cancelled_new st" "st_index st' = st_index st"
    "st_root_oid st' = st_root_oid st" "st_last_tid st' = st_last_tid st" "st_principal st' = st_principal st"
    "st_consumers st' = st_consumers st" "st_persisted_fields st' = st_persisted_fields st"
    "st_cid_by_typename st' = st_cid_by_typename st" "st_durable_cids st' = st_durable_cids st"
    "next_tid_of (st_alloc st') = next_tid_of (st_alloc st)" "next_cid_of (st_alloc st') = next_cid_of (st_alloc st)"
    "st_lease_lost st' = st_lease_lost st" "st_closed st' = st_closed st" "acting st' = acting st"
    "st_pending_upserts st' = st_pending_upserts st" "st_cids_by_typename st' = st_cids_by_typename st"
    "st_typename_by_cid st' = st_typename_by_cid st" "st_root_holder st' = st_root_holder st"
    using * [of st_backend] * [of st_dirty] * [of st_deleted] * [of st_registry] * [of st_cancelled_new]
      * [of st_index] * [of st_root_oid] * [of st_last_tid] * [of st_principal] * [of st_consumers]
      * [of st_persisted_fields] * [of st_cid_by_typename] * [of st_durable_cids]
      * [of "\<lambda>s. next_tid_of (st_alloc s)"] * [of "\<lambda>s. next_cid_of (st_alloc s)"] * [of st_lease_lost] * [of st_closed] * [of st_acting]
      * [of st_pending_upserts] * [of st_cids_by_typename] * [of st_typename_by_cid] * [of st_root_holder]
    by (simp_all add: session_def acting_def)
qed

text \<open>Entities that agree on everything registration does not write.\<close>

definition same_content :: "entity \<Rightarrow> entity \<Rightarrow> bool" where
  "same_content e e' \<longleftrightarrow> en_ti e' = en_ti e \<and> en_vals e' = en_vals e \<and> en_state e' = en_state e \<and> en_twin e' = en_twin e"

lemma same_content_refl [simp]: "same_content e e"
  by (simp add: same_content_def)

lemma stamp_perm_session [simp]: "session (stamp_perm_labels a oid container st) = session st"
  by (simp add: session_def stamp_perm_labels_def put_entity_def Let_def split: option.split)

lemma stamp_perm_frame [simp]:
  "st_new (stamp_perm_labels a oid container st) = st_new st" "st_alloc (stamp_perm_labels a oid container st) = st_alloc st"
  "st_dirty (stamp_perm_labels a oid container st) = st_dirty st"
  by (simp_all add: stamp_perm_labels_def Let_def split: option.split)

lemma expand_effect:
  assumes "expand a container fresh oid st = (r, st')" and "dict_get (st_heap st) a = Some e"
  obtains e' where "session st' = session st" and "st_new st' = st_new st" and "st_alloc st' = st_alloc st"
    and "\<And>b. dict_get (st_heap st') b = (if b = a then Some e' else dict_get (st_heap st) b)"
    and "same_content e e'" and "en_oid e' = en_oid e" and "en_store e' = en_store e"
    and "r = (if buffered st oid then queue_field_entities st' a e' [] else Inr [])"
proof (cases "buffered st oid \<and> fresh \<and> ti_protected (en_ti e)")
  case True
  let ?e = "e\<lparr>en_labels := birth_stamp (uid (acting st)) (labels_of st container) (en_labels e)\<rparr>"
  show thesis
    using assms True by (intro that [of ?e]) (auto simp: expand_def Let_def stamp_perm_heap same_content_def)
next
  case False
  show thesis
    using assms False
    by (intro that [of e]) (auto simp: expand_def Let_def same_content_def split: if_splits)
qed

lemma adopt_effect:
  assumes "adopt_unregistered env a e st = (r, st')"
  shows "(case r of Inl err \<Rightarrow> st' = st
    | Inr oid \<Rightarrow> oid = next_oid_of (st_alloc st) \<and> next_oid_of (st_alloc st') = oid + 1
        \<and> st_new st' = AList.update oid a (st_new st) \<and> session st' = session st
        \<and> (\<forall>b. dict_get (st_heap st') b = (if b = a then Some (stamp oid (se_self env) (en_state e) e) else dict_get (st_heap st) b)))"
  using assms
  by (auto simp: adopt_unregistered_def next_oid_def session_def put_entity_def split: if_splits)

section \<open>Identity\<close>

text \<open>
  One live instance per OID, every OID below the watermark, and a buffered OID names its instance.
\<close>

definition ids_ok :: "('s, 'c) store \<Rightarrow> bool" where
  "ids_ok st \<longleftrightarrow>
     (\<forall>a e oid. dict_get (st_heap st) a = Some e \<longrightarrow> en_oid e = Some oid \<longrightarrow> oid < next_oid_of (st_alloc st)) \<and>
     (\<forall>a b e f oid. dict_get (st_heap st) a = Some e \<longrightarrow> dict_get (st_heap st) b = Some f \<longrightarrow>
        en_oid e = Some oid \<longrightarrow> en_oid f = Some oid \<longrightarrow> a = b) \<and>
     (\<forall>a oid. dict_get (st_new st) oid = Some a \<or> dict_get (st_dirty st) oid = Some a \<longrightarrow>
        (\<exists>e. dict_get (st_heap st) a = Some e \<and> en_oid e = Some oid))"

lemma ids_okD:
  assumes "ids_ok st"
  shows "dict_get (st_heap st) a = Some e \<Longrightarrow> en_oid e = Some oid \<Longrightarrow> oid < next_oid_of (st_alloc st)"
    and "dict_get (st_heap st) a = Some e \<Longrightarrow> dict_get (st_heap st) b = Some f \<Longrightarrow>
      en_oid e = Some oid \<Longrightarrow> en_oid f = Some oid \<Longrightarrow> a = b"
    and "dict_get (st_new st) oid = Some a \<or> dict_get (st_dirty st) oid = Some a \<Longrightarrow>
      \<exists>e. dict_get (st_heap st) a = Some e \<and> en_oid e = Some oid"
  using assms unfolding ids_ok_def by blast+

lemma ids_okI:
  assumes "\<And>a e oid. dict_get (st_heap st) a = Some e \<Longrightarrow> en_oid e = Some oid \<Longrightarrow> oid < next_oid_of (st_alloc st)"
    and "\<And>a b e f oid. dict_get (st_heap st) a = Some e \<Longrightarrow> dict_get (st_heap st) b = Some f \<Longrightarrow>
      en_oid e = Some oid \<Longrightarrow> en_oid f = Some oid \<Longrightarrow> a = b"
    and "\<And>a oid. dict_get (st_new st) oid = Some a \<or> dict_get (st_dirty st) oid = Some a \<Longrightarrow>
      \<exists>e. dict_get (st_heap st) a = Some e \<and> en_oid e = Some oid"
  shows "ids_ok st"
  unfolding ids_ok_def using assms by blast

text \<open>A change that keeps OIDs and buffers keeps identity.\<close>

lemma ids_ok_same:
  assumes "ids_ok st" and "\<And>b. map_option en_oid (dict_get (st_heap st') b) = map_option en_oid (dict_get (st_heap st) b)"
    and "next_oid_of (st_alloc st) \<le> next_oid_of (st_alloc st')"
    and "\<And>oid a. dict_get (st_new st') oid = Some a \<or> dict_get (st_dirty st') oid = Some a \<Longrightarrow>
      \<exists>e. dict_get (st_heap st) a = Some e \<and> en_oid e = Some oid"
  shows "ids_ok st'"
proof (rule ids_okI)
  have old: "\<exists>f. dict_get (st_heap st) a = Some f \<and> en_oid f = en_oid e" if "dict_get (st_heap st') a = Some e" for a e
    using assms(2) [of a] that by (cases "dict_get (st_heap st) a") auto
  fix a e oid
  assume e: "dict_get (st_heap st') a = Some e" "en_oid e = Some oid"
  then show "oid < next_oid_of (st_alloc st')"
    using old [OF e(1)] ids_okD(1) [OF assms(1)] assms(3) by fastforce
  fix b f
  assume "dict_get (st_heap st') b = Some f" "en_oid f = Some oid"
  then show "a = b"
    using e old [of a e] old [of b f] ids_okD(2) [OF assms(1)] by metis
next
  fix a oid
  assume "dict_get (st_new st') oid = Some a \<or> dict_get (st_dirty st') oid = Some a"
  then show "\<exists>e. dict_get (st_heap st') a = Some e \<and> en_oid e = Some oid"
    using assms(2) [of a] assms(4) by fastforce
qed

lemma buffered_below: "ids_ok st \<Longrightarrow> buffered st oid \<Longrightarrow> oid < next_oid_of (st_alloc st)"
  unfolding buffered_def by (metis ids_okD(1) ids_okD(3) not_None_eq)

text \<open>What any part of a registration, finished or not, does to a session.\<close>

definition entity_grown :: "entity option \<Rightarrow> entity option \<Rightarrow> bool" where
  "entity_grown x y \<longleftrightarrow>
     (case (x, y) of
        (None, None) \<Rightarrow> True
      | (Some e, Some e') \<Rightarrow> same_content e e' \<and> (en_oid e \<noteq> None \<longrightarrow> en_oid e' = en_oid e \<and> en_store e' = en_store e)
      | _ \<Rightarrow> False)"

definition new_grown :: "heap \<Rightarrow> nat \<Rightarrow> buffer \<Rightarrow> buffer \<Rightarrow> bool" where
  "new_grown h n d d' \<longleftrightarrow>
     (\<forall>oid < n. dict_get d' oid = dict_get d oid) \<and>
     (\<forall>oid \<ge> n. \<forall>a. dict_get d' oid = Some a \<longrightarrow>
        (\<exists>e. dict_get h a = Some e \<and> en_oid e = None \<and> \<not> en_twin e))"

definition grown :: "('s, 'c) store \<Rightarrow> ('s, 'c) store \<Rightarrow> bool" where
  "grown st st' \<longleftrightarrow> session st' = session st \<and> next_oid_of (st_alloc st) \<le> next_oid_of (st_alloc st') \<and>
     (\<forall>a. entity_grown (dict_get (st_heap st) a) (dict_get (st_heap st') a)) \<and>
     new_grown (st_heap st) (next_oid_of (st_alloc st)) (st_new st) (st_new st')"

lemma entity_grown_simps [simp]:
  "entity_grown None y \<longleftrightarrow> y = None"
  "entity_grown (Some e) y \<longleftrightarrow> (\<exists>e'. y = Some e' \<and> same_content e e' \<and>
     (en_oid e \<noteq> None \<longrightarrow> en_oid e' = en_oid e \<and> en_store e' = en_store e))"
  by (auto simp: entity_grown_def split: option.splits)

lemma entity_grown_trans: "entity_grown x y \<Longrightarrow> entity_grown y z \<Longrightarrow> entity_grown x z"
  by (cases x; cases y) (auto simp: same_content_def)

lemma grownD:
  assumes "grown st st'"
  shows "session st' = session st" and "next_oid_of (st_alloc st) \<le> next_oid_of (st_alloc st')"
    and "entity_grown (dict_get (st_heap st) a) (dict_get (st_heap st') a)"
    and "oid < next_oid_of (st_alloc st) \<Longrightarrow> dict_get (st_new st') oid = dict_get (st_new st) oid"
    and "dict_get (st_new st') oid = Some b \<Longrightarrow> \<not> oid < next_oid_of (st_alloc st) \<Longrightarrow>
      \<exists>e. dict_get (st_heap st) b = Some e \<and> en_oid e = None \<and> \<not> en_twin e"
  using assms unfolding grown_def new_grown_def linorder_not_less by blast+

definition registers :: "('s, 'c) store \<Rightarrow> ('s, 'c) store \<Rightarrow> bool" where
  "registers st st' \<longleftrightarrow> (ids_ok st \<longrightarrow> ids_ok st' \<and> grown st st')"

lemma new_below: "ids_ok st \<Longrightarrow> dict_get (st_new st) oid = Some a \<Longrightarrow> oid < next_oid_of (st_alloc st)"
  by (metis ids_okD(1,3))

lemma grown_refl [simp]: "ids_ok st \<Longrightarrow> grown st st"
  unfolding grown_def new_grown_def
proof (intro conjI allI impI)
  show "entity_grown (dict_get (st_heap st) a) (dict_get (st_heap st) a)" for a
    by (cases "dict_get (st_heap st) a") auto
qed (auto dest: new_below)

lemma grown_trans:
  assumes "grown a b" and "grown b c"
  shows "grown a c"
proof -
  have "dict_get (st_new c) oid = dict_get (st_new a) oid" if "oid < next_oid_of (st_alloc a)" for oid
    using that grownD(2,4) [OF assms(1)] grownD(4) [OF assms(2)] by simp
  moreover have "\<exists>e. dict_get (st_heap a) x = Some e \<and> en_oid e = None \<and> \<not> en_twin e"
    if x: "dict_get (st_new c) oid = Some x" "\<not> oid < next_oid_of (st_alloc a)" for oid x
  proof (cases "oid < next_oid_of (st_alloc b)")
    case True
    then show ?thesis
      using grownD(4) [OF assms(2) True] grownD(5) [OF assms(1) _ x(2)] x(1) by simp
  next
    case False
    then obtain e where e: "dict_get (st_heap b) x = Some e" "en_oid e = None" "\<not> en_twin e"
      using grownD(5) [OF assms(2) x(1)] by blast
    then show ?thesis
      using grownD(3) [OF assms(1), of x] by (cases "dict_get (st_heap a) x") (auto simp: same_content_def)
  qed
  ultimately show ?thesis
    using grownD(1,2) [OF assms(1)] grownD(1,2) [OF assms(2)]
      entity_grown_trans [OF grownD(3) [OF assms(1)] grownD(3) [OF assms(2)]]
    by (auto simp: grown_def new_grown_def)
qed

lemma registers_refl [simp]: "registers st st"
  by (simp add: registers_def)

lemma registers_trans: "registers a b \<Longrightarrow> registers b c \<Longrightarrow> registers a c"
  unfolding registers_def using grown_trans by blast

lemma expand_registers:
  assumes "expand a container fresh oid st = (r, st')"
  shows "registers st st'"
proof (cases "dict_get (st_heap st) a")
  case None
  then show ?thesis
    using assms by (simp add: expand_def)
next
  case (Some e)
  obtain e' where x: "session st' = session st" "st_new st' = st_new st" "st_alloc st' = st_alloc st"
    "\<And>b. dict_get (st_heap st') b = (if b = a then Some e' else dict_get (st_heap st) b)"
    "same_content e e'" "en_oid e' = en_oid e" "en_store e' = en_store e"
    using expand_effect [OF assms Some] by metis
  have d: "st_dirty st' = st_dirty st"
    using session_eqD [OF x(1)] by simp
  show ?thesis
    unfolding registers_def
  proof (intro impI conjI)
    assume ok: "ids_ok st"
    show "ids_ok st'"
    proof (rule ids_ok_same [OF ok])
      show "map_option en_oid (dict_get (st_heap st') b) = map_option en_oid (dict_get (st_heap st) b)" for b
        using x(4,6) Some by simp
    qed (use x(2,3) d ids_okD(3) [OF ok] in auto)
    have "entity_grown (dict_get (st_heap st) b) (dict_get (st_heap st') b)" for b
      using x(4-7) Some by (cases "b = a"; cases "dict_get (st_heap st) b") auto
    then show "grown st st'"
      using new_below [OF ok] x(1) unfolding grown_def new_grown_def x(2,3)
      by (auto dest: new_below [OF ok] simp flip: linorder_not_less)
  qed
qed


lemma adopt_registers:
  assumes "adopt_unregistered env a e st = (r, st')" and "dict_get (st_heap st) a = Some e" and "en_oid e = None"
    and "\<not> en_twin e"
  shows "registers st st'"
proof (cases r)
  case (Inl err)
  then show ?thesis
    using adopt_effect [OF assms(1)] by simp
next
  case (Inr oid)
  let ?e = "stamp oid (se_self env) (en_state e) e"
  have x: "oid = next_oid_of (st_alloc st)" "next_oid_of (st_alloc st') = oid + 1"
    "st_new st' = AList.update oid a (st_new st)" "session st' = session st"
    "\<And>b. dict_get (st_heap st') b = (if b = a then Some ?e else dict_get (st_heap st) b)"
    using adopt_effect [OF assms(1)] Inr by auto
  have d: "st_dirty st' = st_dirty st"
    using session_eqD [OF x(4)] by simp
  have se: "en_oid ?e = Some oid" "same_content e ?e"
    by (simp_all add: stamp_def same_content_def)
  show ?thesis
    unfolding registers_def
  proof (intro impI conjI)
    assume ok: "ids_ok st"
    show "ids_ok st'"
    proof (rule ids_okI)
      fix b f k
      assume f: "dict_get (st_heap st') b = Some f" "en_oid f = Some k"
      then show "k < next_oid_of (st_alloc st')"
        using x se(1) ids_okD(1) [OF ok, of b f k] by (cases "b = a") auto
      fix c g
      assume g: "dict_get (st_heap st') c = Some g" "en_oid g = Some k"
      have fresh: "k' \<noteq> oid" if "dict_get (st_heap st) y = Some h" "en_oid h = Some k'" for y h k'
        using ids_okD(1) [OF ok that] x(1) by simp
      show "b = c"
        using f g x(5) se(1) fresh ids_okD(2) [OF ok, of b f c g k] by (cases "b = a"; cases "c = a") auto
    next
      fix b k
      assume "dict_get (st_new st') k = Some b \<or> dict_get (st_dirty st') k = Some b"
      then have "k = oid \<and> b = a \<or> dict_get (st_new st) k = Some b \<or> dict_get (st_dirty st) k = Some b"
        using d x(3) by (auto split: if_splits)
      then show "\<exists>f. dict_get (st_heap st') b = Some f \<and> en_oid f = Some k"
      proof
        assume "k = oid \<and> b = a"
        then show ?thesis using x(5) se(1) by simp
      next
        assume "dict_get (st_new st) k = Some b \<or> dict_get (st_dirty st) k = Some b"
        then obtain f where "dict_get (st_heap st) b = Some f" "en_oid f = Some k"
          using ids_okD(3) [OF ok] by blast
        then show ?thesis
          using x(5) assms(2,3) by (cases "b = a") auto
      qed
    qed
    have "entity_grown (dict_get (st_heap st) b) (dict_get (st_heap st') b)" for b
      using x(5) se(2) assms(2,3) by (cases "b = a"; cases "dict_get (st_heap st) b") auto
    moreover have "new_grown (st_heap st) (next_oid_of (st_alloc st)) (st_new st) (st_new st')"
      using x(1,3) assms(2-4) new_below [OF ok] by (fastforce simp: new_grown_def split: if_splits)
    ultimately show "grown st st'"
      using x(1,2,4) by (simp add: grown_def)
  qed
qed

lemma register_step_registers:
  assumes "register_step env a container walked st = (r, st')"
  shows "registers st st'"
proof (cases "dict_get (st_heap st) a")
  case None
  then show ?thesis
    using assms by (simp add: register_step_def)
next
  case (Some e)
  note step = assms [unfolded register_step_def Some option.case]
  show ?thesis
  proof (rule bind_act_rel [where R = registers, OF step])
    show "lift_act (\<lambda>_. require_storable e) st = (r1, st1) \<Longrightarrow> registers st st1" for r1 st1
      by simp
  next
    fix u st1 r2 st2
    assume l: "lift_act (\<lambda>_. require_storable e) st = (Inr u, st1)"
    then have st1: "st1 = st" and tw: "\<not> en_twin e"
      by (auto simp: require_storable_def split: if_splits)
    assume "bind_act (case en_oid e of Some oid \<Rightarrow> return_act oid | None \<Rightarrow> adopt_unregistered env a e)
      (\<lambda>oid. if oid \<in> walked then return_act ([], walked)
        else bind_act (expand a container (en_oid e = None) oid) (\<lambda>found. return_act (found, insert oid walked))) st1 = (r2, st2)"
    then show "registers st1 st2"
    proof (rule bind_act_rel [where R = registers])
      show "registers st1 st3" if "(case en_oid e of Some oid \<Rightarrow> return_act oid | None \<Rightarrow> adopt_unregistered env a e) st1 = (r3, st3)"
        for r3 st3
        using that adopt_registers [of env a e st r3 st3] Some st1 tw by (auto split: option.splits)
    next
      show "registers st3 st4" if "(if oid \<in> walked then return_act ([], walked)
          else bind_act (expand a container (en_oid e = None) oid) (\<lambda>found. return_act (found, insert oid walked))) st3 = (r4, st4)"
        for oid st3 r4 st4
        using that expand_registers by (fastforce simp: bind_act_def split: if_splits sum.splits prod.splits)
    qed (rule registers_trans)
  qed (rule registers_trans)
qed

lemma register_loop_registers: "register_loop env queue walked st = (r, st') \<Longrightarrow> registers st st'"
proof (induction env queue walked st rule: register_loop.induct)
  case (1 env walked st)
  then show ?case by simp
next
  case (2 env a container queue walked st)
  obtain r1 st1 where s: "register_step env a container walked st = (r1, st1)"
    by fastforce
  show ?case
  proof (cases r1)
    case (Inl err)
    then show ?thesis
      using 2(2) s register_step_registers [OF s] by simp
  next
    case (Inr fw)
    obtain found walked' where fw: "fw = (found, walked')"
      by fastforce
    have "registers st1 st'"
      using 2(1) [OF s [symmetric] Inr fw [symmetric]] 2(2) s Inr fw by simp
    then show ?thesis
      using registers_trans register_step_registers [OF s] by blast
  qed
qed

lemma register_graph_registers: "register_graph env a walked st = (r, st') \<Longrightarrow> registers st st'"
  unfolding register_graph_def by (rule register_loop_registers)

lemma discover_registers:
  assumes "discover_new_graphs env st = (r, st')"
  shows "registers st st'"
  using assms unfolding discover_new_graphs_def
proof (rule fold_act_rel [where R = registers])
  show "registers s s'" if "register_graph env a w s = (q, s')" for a w s q s'
    by (rule register_graph_registers [OF that])
qed (simp, rule registers_trans)

section \<open>Nothing in reach stays unregistered\<close>

text \<open>
  \<open>closed_upto W A st\<close>: whatever a walked, buffered entity refers to is registered and walked, or
  registered and not buffered, or still in \<open>A\<close>.
\<close>

definition met :: "nat set \<Rightarrow> ('s, 'c) store \<Rightarrow> nat \<Rightarrow> bool" where
  "met W st c \<longleftrightarrow> (\<exists>e oid. dict_get (st_heap st) c = Some e \<and> en_oid e = Some oid \<and> (oid \<in> W \<or> \<not> buffered st oid))"

definition closed_upto :: "nat set \<Rightarrow> nat set \<Rightarrow> ('s, 'c) store \<Rightarrow> bool" where
  "closed_upto W A st \<longleftrightarrow> (\<forall>oid \<in> W. oid < next_oid_of (st_alloc st)) \<and>
     (\<forall>a e oid. dict_get (st_heap st) a = Some e \<longrightarrow> en_oid e = Some oid \<longrightarrow> oid \<in> W \<longrightarrow> buffered st oid \<longrightarrow>
        (\<forall>c \<in> entity_refs e. met W st c \<or> c \<in> A))"

lemma closed_uptoD:
  assumes "closed_upto W A st"
  shows "oid \<in> W \<Longrightarrow> oid < next_oid_of (st_alloc st)"
    and "dict_get (st_heap st) a = Some e \<Longrightarrow> en_oid e = Some oid \<Longrightarrow> oid \<in> W \<Longrightarrow> buffered st oid \<Longrightarrow>
      c \<in> entity_refs e \<Longrightarrow> met W st c \<or> c \<in> A"
  using assms unfolding closed_upto_def by blast+

text \<open>Registration never buffers an OID that was in use and not buffered.\<close>

lemma grown_buffered:
  assumes "grown st st'" and "oid < next_oid_of (st_alloc st)"
  shows "buffered st' oid \<longleftrightarrow> buffered st oid"
  using grownD(4) [OF assms] session_eqD(2) [OF grownD(1) [OF assms(1)]] by (simp add: buffered_def)

lemma met_grown:
  assumes "ids_ok st" and "grown st st'" and "met W st c" and "W \<subseteq> W'"
  shows "met W' st' c"
proof -
  obtain e oid where e: "dict_get (st_heap st) c = Some e" "en_oid e = Some oid" "oid \<in> W \<or> \<not> buffered st oid"
    using assms(3) by (auto simp: met_def)
  then have "oid < next_oid_of (st_alloc st)"
    using ids_okD(1) [OF assms(1)] by blast
  then have "buffered st' oid \<longleftrightarrow> buffered st oid"
    by (rule grown_buffered [OF assms(2)])
  then show ?thesis
    using e assms(4) grownD(3) [OF assms(2), of c] by (auto simp: met_def)
qed

text \<open>One round, seen as its effect on the entity it was called for.\<close>

lemma register_step_effect:
  assumes "register_step env a container walked st = (Inr (found, walked'), st')"
  obtains e e' oid where "dict_get (st_heap st) a = Some e" and "dict_get (st_heap st') a = Some e'"
    and "\<And>b. b \<noteq> a \<Longrightarrow> dict_get (st_heap st') b = dict_get (st_heap st) b"
    and "same_content e e'" and "en_oid e' = Some oid"
    and "en_oid e = Some oid \<and> st_new st' = st_new st \<or>
      en_oid e = None \<and> oid = next_oid_of (st_alloc st) \<and> st_new st' = AList.update oid a (st_new st)"
    and "oid \<in> walked \<and> walked' = walked \<and> found = [] \<or> oid \<notin> walked \<and> walked' = insert oid walked \<and>
      (if buffered st' oid then queue_field_entities st' a e' [] = Inr found else found = [])"
proof -
  obtain e where e: "dict_get (st_heap st) a = Some e"
    using assms by (auto simp: register_step_def split: option.splits)
  let ?adopt = "case en_oid e of Some oid \<Rightarrow> return_act oid | None \<Rightarrow> adopt_unregistered env a e"
  obtain oid st1 where s: "?adopt st = (Inr oid, st1)"
    and r: "(if oid \<in> walked then return_act ([], walked)
       else bind_act (expand a container (en_oid e = None) oid) (\<lambda>found. return_act (found, insert oid walked))) st1 =
      (Inr (found, walked'), st')"
    using assms e by (auto simp: register_step_def bind_act_Inr)
  obtain e1 where e1: "dict_get (st_heap st1) a = Some e1" "\<And>b. b \<noteq> a \<Longrightarrow> dict_get (st_heap st1) b = dict_get (st_heap st) b"
    "same_content e e1" "en_oid e1 = Some oid"
    and n: "en_oid e = Some oid \<and> st_new st1 = st_new st \<or>
      en_oid e = None \<and> oid = next_oid_of (st_alloc st) \<and> st_new st1 = AList.update oid a (st_new st)"
  proof (cases "en_oid e")
    case None
    then have "adopt_unregistered env a e st = (Inr oid, st1)"
      using s by simp
    from adopt_effect [OF this] show thesis
      using that [of "stamp oid (se_self env) (en_state e) e"] None by (simp add: stamp_def same_content_def)
  next
    case (Some k)
    then show thesis
      using that [of e] s e by simp
  qed
  show thesis
  proof (cases "oid \<in> walked")
    case True
    then have "st' = st1" "found = []" "walked' = walked"
      using r by auto
    then show thesis
      using that [of e e1 oid] e e1 n True by auto
  next
    case False
    obtain x where x: "expand a container (en_oid e = None) oid st1 = (x, st')" "x = Inr found" "walked' = insert oid walked"
      using r False by (auto simp: bind_act_Inr)
    obtain e' where e': "st_new st' = st_new st1" "\<And>b. dict_get (st_heap st') b = (if b = a then Some e' else dict_get (st_heap st1) b)"
      "same_content e1 e'" "en_oid e' = en_oid e1" "session st' = session st1"
      "x = (if buffered st1 oid then queue_field_entities st' a e' [] else Inr [])"
      using expand_effect [OF x(1) e1(1)] by metis
    have b: "buffered st' oid = buffered st1 oid"
      using e'(1) session_eqD(2) [OF e'(5)] by (simp add: buffered_def)
    have "same_content e e'"
      using e1(3) e'(3) by (simp add: same_content_def)
    then show thesis
      using that [OF e, of e' oid] e1 e' n False x b by auto
  qed
qed


text \<open>The loop's invariant: \<open>covers n\<close> says that what was adopted since the watermark \<open>n\<close> is walked.\<close>

definition covers :: "nat \<Rightarrow> nat set \<Rightarrow> ('s, 'c) store \<Rightarrow> bool" where
  "covers n W st \<longleftrightarrow> (\<forall>oid. n \<le> oid \<longrightarrow> buffered st oid \<longrightarrow> oid \<in> W)"

definition in_walk :: "nat set \<Rightarrow> ('s, 'c) store \<Rightarrow> nat \<Rightarrow> bool" where
  "in_walk W st c \<longleftrightarrow> (\<exists>e oid. dict_get (st_heap st) c = Some e \<and> en_oid e = Some oid \<and> oid \<in> W)"

lemma in_walk_met: "in_walk W st c \<Longrightarrow> met W st c"
  by (auto simp: in_walk_def met_def)

lemma in_walk_grown: "grown st st' \<Longrightarrow> W \<subseteq> W' \<Longrightarrow> in_walk W st c \<Longrightarrow> in_walk W' st' c"
  using grownD(3) [of st st' c] by (auto simp: in_walk_def subset_iff)

lemma closed_step:
  assumes ok: "ids_ok st" and cl: "closed_upto W (insert a A) st" and co: "covers n W st"
    and step: "register_step env a container W st = (Inr (found, W'), st')"
  shows "closed_upto W' (A \<union> fst ` set found) st'" and "covers n W' st'" and "in_walk W' st' a" and "W \<subseteq> W'"
proof -
  obtain e e' oid where x: "dict_get (st_heap st) a = Some e" "dict_get (st_heap st') a = Some e'"
    "\<And>b. b \<noteq> a \<Longrightarrow> dict_get (st_heap st') b = dict_get (st_heap st) b" "same_content e e'" "en_oid e' = Some oid"
    and n: "en_oid e = Some oid \<and> st_new st' = st_new st \<or>
      en_oid e = None \<and> oid = next_oid_of (st_alloc st) \<and> st_new st' = AList.update oid a (st_new st)"
    and w0: "oid \<in> W \<and> W' = W \<and> found = [] \<or> oid \<notin> W \<and> W' = insert oid W \<and>
      (if buffered st' oid then queue_field_entities st' a e' [] = Inr found else found = [])"
    by (rule register_step_effect [OF step]) (rule that)
  have w: "oid \<in> W \<and> W' = W \<and> found = [] \<or> oid \<notin> W \<and> W' = insert oid W \<and>
      (buffered st' oid \<longrightarrow> queue_field_entities st' a e' [] = Inr found)"
    using w0 by (auto split: if_splits)
  have g: "ids_ok st'" "grown st st'"
    using register_step_registers [OF step] ok by (auto simp: registers_def)
  show sub: "W \<subseteq> W'"
    using w by auto
  show walk: "in_walk W' st' a"
    using x(2,5) w by (auto simp: in_walk_def)
  have below: "k < next_oid_of (st_alloc st)" if "k \<in> W" for k
    by (rule closed_uptoD(1) [OF cl that])
  have keep: "met W' st' c \<or> c \<in> A" if "met W st c \<or> c \<in> insert a A" for c
    using that met_grown [OF ok g(2) _ sub] in_walk_met [OF walk] by blast
  have refs: "entity_refs e' = entity_refs e"
    using x(4) by (intro entity_refs_cong) (auto simp: same_content_def)
  show "covers n W' st'"
    unfolding covers_def
  proof (intro allI impI)
    fix k
    assume k: "n \<le> k" "buffered st' k"
    then have "k = oid \<or> buffered st k"
      using n session_eqD(2) [OF grownD(1) [OF g(2)]] by (auto simp: buffered_def split: if_splits)
    then show "k \<in> W'"
      using co k(1) w by (auto simp: covers_def)
  qed
  show "closed_upto W' (A \<union> fst ` set found) st'"
    unfolding closed_upto_def
  proof (intro conjI ballI allI impI)
    fix k
    assume "k \<in> W'"
    then show "k < next_oid_of (st_alloc st')"
      using w below grownD(2) [OF g(2)] ids_okD(1) [OF g(1) x(2,5)] by fastforce
  next
    fix b f k c
    assume f: "dict_get (st_heap st') b = Some f" "en_oid f = Some k" "k \<in> W'" "buffered st' k" "c \<in> entity_refs f"
    show "met W' st' c \<or> c \<in> A \<union> fst ` set found"
    proof (cases "b = a \<and> oid \<notin> W")
      case True
      then have "queued st' (entity_refs f) found"
        using f x w queue_field_entities_queued [of st' a e' found] by auto
      then show ?thesis
        using f(5) by (auto simp: queued_def settled_ref_def met_def)
    next
      case False
      have k: "k \<in> W"
        using False f x(2,5) w ids_okD(2) [OF g(1) f(1) x(2)] by auto
      obtain h where h: "dict_get (st_heap st) b = Some h" "en_oid h = Some k" "entity_refs h = entity_refs f"
      proof (cases "b = a")
        case True
        then have "f = e'" "k = oid"
          using f x by auto
        moreover have "en_oid e = Some oid"
          using n below [OF k] \<open>k = oid\<close> by auto
        ultimately show thesis
          using that [of e] True x refs by simp
      next
        case False
        then show thesis
          using that [of f] f x(3) by simp
      qed
      have "buffered st k"
        using grown_buffered [OF g(2) below [OF k]] f(4) by simp
      then show ?thesis
        using keep [OF closed_uptoD(2) [OF cl h(1,2) k _]] f(5) h(3) by blast
    qed
  qed
qed

lemma closed_mono: "closed_upto W A st \<Longrightarrow> A \<subseteq> B \<Longrightarrow> closed_upto W B st"
  unfolding closed_upto_def by blast

lemma closed_loop:
  assumes "register_loop env queue W st = (Inr W', st')"
    and "ids_ok st" and "closed_upto W (fst ` set queue) st" and "covers n W st"
  shows "closed_upto W' {} st' \<and> covers n W' st' \<and> W \<subseteq> W' \<and> (\<forall>c \<in> fst ` set queue. in_walk W' st' c)"
  using assms
proof (induction env queue W st rule: register_loop.induct)
  case (1 env walked st)
  then show ?case by simp
next
  case (2 env a container queue W st)
  obtain found W1 st1 where s: "register_step env a container W st = (Inr (found, W1), st1)"
    and l: "register_loop env (queue @ found) W1 st1 = (Inr W', st')"
    using 2(2) by (auto split: prod.splits sum.splits)
  have c: "closed_upto W (insert a (fst ` set queue)) st"
    using 2(4) by simp
  note st1 = closed_step [OF 2(3) c 2(5) s]
  have g: "ids_ok st1"
    using register_step_registers [OF s] 2(3) by (auto simp: registers_def)
  have "closed_upto W1 (fst ` set (queue @ found)) st1"
    using st1(1) by (simp add: image_Un)
  then have r: "closed_upto W' {} st' \<and> covers n W' st' \<and> W1 \<subseteq> W' \<and> (\<forall>c \<in> fst ` set (queue @ found). in_walk W' st' c)"
    using 2(1) [OF s [symmetric] refl refl l g _ st1(2)] by blast
  have "grown st1 st'"
    using register_loop_registers [OF l] g by (simp add: registers_def)
  then have "in_walk W' st' a"
    using in_walk_grown st1(3) r by blast
  then show ?case
    using r st1(4) by auto
qed

lemma closed_roots:
  assumes "fold_act (register_graph env) roots W st = (Inr W', st')"
    and "ids_ok st" and "closed_upto W {} st" and "covers n W st"
  shows "closed_upto W' {} st' \<and> covers n W' st' \<and> W \<subseteq> W' \<and> (\<forall>c \<in> set roots. in_walk W' st' c)"
  using assms
proof (induction roots arbitrary: W st)
  case Nil
  then show ?case by simp
next
  case (Cons a roots)
  obtain W1 st1 where s: "register_graph env a W st = (Inr W1, st1)"
    and l: "fold_act (register_graph env) roots W1 st1 = (Inr W', st')"
    using Cons.prems(1) by (auto simp: bind_act_Inr)
  have "closed_upto W (fst ` set [(a, None :: nat option)]) st"
    by (rule closed_mono [OF Cons.prems(3)]) simp
  then have c: "closed_upto W1 {} st1 \<and> covers n W1 st1 \<and> W \<subseteq> W1 \<and> in_walk W1 st1 a"
    using closed_loop [OF s [unfolded register_graph_def] Cons.prems(2) _ Cons.prems(4)] by simp
  have g: "ids_ok st1"
    using register_graph_registers [OF s] Cons.prems(2) by (auto simp: registers_def)
  note r = Cons.IH [OF l g conjunct1 [OF c] conjunct1 [OF conjunct2 [OF c]]]
  have "grown st1 st'"
    using fold_act_rel [where R = registers, OF l register_graph_registers registers_refl registers_trans] g
    by (auto simp: registers_def)
  then have "in_walk W' st' a"
    using in_walk_grown [of st1 st' W1 W' a] c r by blast
  then show ?case
    using r c by auto
qed

text \<open>After discovery, everything a buffered entity refers to has an OID.\<close>

lemma discover_closed:
  assumes d: "discover_new_graphs env st = (Inr W, st')" and ok: "ids_ok st"
    and b: "buffered st' oid" and e: "dict_get (st_heap st') a = Some e" "en_oid e = Some oid" and c: "c \<in> entity_refs e"
  shows "\<exists>f k. dict_get (st_heap st') c = Some f \<and> en_oid f = Some k"
proof -
  let ?n = "next_oid_of (st_alloc st)"
  have "closed_upto {} {} st"
    by (simp add: closed_upto_def)
  moreover have "covers ?n {} st"
    using buffered_below [OF ok] by (fastforce simp: covers_def)
  ultimately have r: "closed_upto W {} st'" "covers ?n W st'"
    "\<forall>x \<in> set (map snd (st_new st) @ map snd (st_dirty st)). in_walk W st' x"
    using closed_roots [OF d [unfolded discover_new_graphs_def] ok] by blast+
  have g: "ids_ok st'" "grown st st'"
    using discover_registers [OF d] ok by (auto simp: registers_def)
  have "oid \<in> W"
  proof (cases "oid < ?n")
    case True
    then have "buffered st oid"
      using grown_buffered [OF g(2)] b by simp
    then obtain x where x: "dict_get (st_new st) oid = Some x \<or> dict_get (st_dirty st) oid = Some x"
      by (auto simp: buffered_def)
    then have "in_walk W st' x"
      using r(3) by (force dest: map_of_SomeD)
    moreover obtain h where h: "dict_get (st_heap st) x = Some h" "en_oid h = Some oid"
      using ids_okD(3) [OF ok x] by blast
    then have "\<exists>h'. dict_get (st_heap st') x = Some h' \<and> en_oid h' = Some oid"
      using grownD(3) [OF g(2), of x] by auto
    ultimately show ?thesis
      by (auto simp: in_walk_def)
  next
    case False
    then show ?thesis
      using r(2) b by (simp add: covers_def)
  qed
  then have "met W st' c"
    using closed_uptoD(2) [OF r(1) e _ b c] by simp
  then show ?thesis
    by (auto simp: met_def)
qed

end
