(* ===== verification/Store_Ops.thy ===== *)
theory Store_Ops
  imports Store_Walk Index_Cache
begin

text \<open>
  The operations of a session that only touch its buffers (\<open>_store.py\<close>, \<open>_state.py\<close> and the
  write hooks of \<open>_entity.py\<close>): storing, writing a field, marking dirty, deleting, discarding, and
  the derivation of the boot-time state from the backend.

  \<^item> A new entity comes into the heap with \<open>create\<close>, which is the constructor of its class.
  \<^item> A field write replaces a value; a change inside a persistent container is a write of the changed
    container, since the container's hook is the same \<open>touch\<close>.
\<close>

section \<open>Constructing, storing, writing\<close>

definition create :: "nat \<Rightarrow> typeinfo \<Rightarrow> row \<Rightarrow> labels \<Rightarrow> ('s, 'c) store \<Rightarrow> ('s, 'c) store" where
  "create a ti vals l st =
     put_entity a \<lparr>en_ti = ti, en_vals = vals, en_labels = l, en_oid = None, en_store = None,
       en_state = STATE_NEW, en_twin = False\<rparr> st"

definition with_entity :: "nat \<Rightarrow> (entity \<Rightarrow> (('s, 'c) store, 'a) act) \<Rightarrow> (('s, 'c) store, 'a) act" where
  "with_entity a f = bind_act (lift_act (entity_at a)) f"

definition store_entity :: "('s, 'c) senv \<Rightarrow> nat \<Rightarrow> (('s, 'c) store, nat) act" where
  "store_entity env a =
     bind_act (lift_act guard) (\<lambda>_.
     bind_act (register_graph env a {}) (\<lambda>_. lift_act (registered_oid a)))"

definition set_state :: "estate \<Rightarrow> nat \<Rightarrow> ('s, 'c) store \<Rightarrow> ('s, 'c) store" where
  "set_state s = map_entity (\<lambda>e. e\<lparr>en_state := s\<rparr>)"

definition on_first_write :: "nat \<Rightarrow> (('s, 'c) store, unit) act" where
  "on_first_write a st =
     (if st_closed st then (Inl StoreClosedError, st)
      else let st1 = set_state STATE_DIRTY a st in
        case bind_res (entity_at a st1) (\<lambda>e. Inr (en_oid e)) of
          Inr (Some oid) \<Rightarrow> (Inr (), st1\<lparr>st_dirty := AList.update oid a (st_dirty st1)\<rparr>)
        | Inr None \<Rightarrow> (Inl PyAssertionError, st1)
        | Inl err \<Rightarrow> (Inl err, st1))"

text \<open>\<open>touch\<close>; an entity whose store is gone, or is another store, is not of this session's concern.\<close>

definition touch_entity :: "('s, 'c) senv \<Rightarrow> nat \<Rightarrow> (('s, 'c) store, unit) act" where
  "touch_entity env a =
     with_entity a (\<lambda>e.
       if en_state e = STATE_DELETED then raise_act DeletedEntityError
       else if en_state e = STATE_CLEAN then
         (if en_store e = Some (se_self env) then on_first_write a
          else update_act (set_state STATE_DIRTY a))
       else return_act ())"

definition set_attr :: "('s, 'c) senv \<Rightarrow> nat \<Rightarrow> string \<Rightarrow> pyval \<Rightarrow> (('s, 'c) store, unit) act" where
  "set_attr env a name v =
     with_entity a (\<lambda>e.
       if en_twin e then raise_act ReadDeniedError
       else if ti_frozen (en_ti e) then raise_act FrozenEntityError
       else bind_act (touch_entity env a) (\<lambda>_.
         update_act (map_entity (\<lambda>e. e\<lparr>en_vals := AList.update name v (en_vals e)\<rparr>) a)))"

text \<open>A write of the label columns, as the verbs \<open>share\<close>, \<open>unshare\<close>, \<open>protect\<close> make it.\<close>

definition set_label_columns ::
    "('s, 'c) senv \<Rightarrow> nat \<Rightarrow> (labels \<Rightarrow> labels) \<Rightarrow> (('s, 'c) store, unit) act" where
  "set_label_columns env a f =
     with_entity a (\<lambda>e.
       if en_twin e then raise_act ReadDeniedError
       else if ti_frozen (en_ti e) then raise_act FrozenEntityError
       else bind_act (touch_entity env a) (\<lambda>_.
         update_act (map_entity (\<lambda>e. e\<lparr>en_labels := f (en_labels e)\<rparr>) a)))"

definition forbid_redacted :: "entity \<Rightarrow> unit res" where
  "forbid_redacted e = (if en_twin e then Inl ReadDeniedError else Inr ())"

definition mark_dirty :: "('s, 'c) senv \<Rightarrow> nat \<Rightarrow> (('s, 'c) store, unit) act" where
  "mark_dirty env a =
     bind_act (lift_act guard) (\<lambda>_.
     with_entity a (\<lambda>e.
     bind_act (lift_act (\<lambda>_. forbid_redacted e)) (\<lambda>_.
       if en_state e = STATE_DELETED then raise_act DeletedEntityError
       else case en_oid e of
         None \<Rightarrow> bind_act (register_graph env a {}) (\<lambda>_. return_act ())
       | Some oid \<Rightarrow>
           if en_state e = STATE_CLEAN
           then update_act (\<lambda>st. let st1 = set_state STATE_DIRTY a st in
                  st1\<lparr>st_dirty := AList.update oid a (st_dirty st1)\<rparr>)
           else return_act ())))"

section \<open>Deleting\<close>

definition cancel_insert :: "nat \<Rightarrow> nat \<Rightarrow> ('s, 'c) store \<Rightarrow> ('s, 'c) store" where
  "cancel_insert a oid st =
     set_state STATE_DELETED a
       (st\<lparr>st_new := AList.delete oid (st_new st), st_dirty := AList.delete oid (st_dirty st),
           st_cancelled_new := AList.update oid a (st_cancelled_new st)\<rparr>)"

definition buffer_delete :: "nat option \<Rightarrow> nat \<Rightarrow> typeinfo \<Rightarrow> ('s, 'c) store \<Rightarrow> ('s, 'c) store" where
  "buffer_delete obj oid ti st =
     (let st1 = st\<lparr>st_dirty := AList.delete oid (st_dirty st)\<rparr>;
          st2 = (case obj of None \<Rightarrow> st1 | Some a \<Rightarrow> set_state STATE_DELETED a st1)
      in st2\<lparr>st_deleted := AList.update oid (ti, obj) (st_deleted st2)\<rparr>)"

definition is_new :: "nat option \<Rightarrow> ('s, 'c) store \<Rightarrow> bool" where
  "is_new obj st \<longleftrightarrow>
     (case obj of None \<Rightarrow> False
      | Some a \<Rightarrow> (case dict_get (st_heap st) a of None \<Rightarrow> False | Some e \<Rightarrow> en_state e = STATE_NEW))"

definition delete_oid :: "nat option \<Rightarrow> nat \<Rightarrow> typeinfo \<Rightarrow> (('s, 'c) store, bool) act" where
  "delete_oid obj oid ti st =
     (if Some oid = st_root_oid st then (Inl DataCrystalError, st)
      else if is_new obj st then (Inr True, cancel_insert (the obj) oid st)
      else (Inr True, buffer_delete obj oid ti st))"

definition delete_instance :: "('s, 'c) senv \<Rightarrow> nat \<Rightarrow> (('s, 'c) store, bool) act" where
  "delete_instance env a =
     bind_act (lift_act guard) (\<lambda>_.
     with_entity a (\<lambda>e.
     bind_act (lift_act (\<lambda>_. forbid_redacted e)) (\<lambda>_.
       case en_oid e of
         None \<Rightarrow> return_act False
       | Some oid \<Rightarrow>
           if en_state e = STATE_DELETED then return_act False
           else if en_store e \<noteq> Some (se_self env) then raise_act DataCrystalError
           else delete_oid (Some a) oid (en_ti e))))"

text \<open>An index the manager builds on the way stays built.\<close>

definition ensure_index :: "('s, 'c) senv \<Rightarrow> typeinfo \<Rightarrow> (('s, 'c) store, class_indexes) act" where
  "ensure_index env ti st =
     (case im_ensure (index_env env st) ti (st_index st) of
        Inl err \<Rightarrow> (Inl err, st)
      | Inr (ci, im) \<Rightarrow> (Inr ci, st\<lparr>st_index := im\<rparr>))"

text \<open>\<open>ci.unique[field].get(value)\<close>\<close>

definition unique_holder :: "class_indexes \<Rightarrow> string \<Rightarrow> pyval \<Rightarrow> nat option res" where
  "unique_holder ci f v =
     (case dict_get (ci_unique ci) f of
        None \<Rightarrow> Inl PyKeyError
      | Some held \<Rightarrow> bind_res (hash_key v) (\<lambda>k. Inr (dict_get held k)))"

definition require_unique :: "typeinfo \<Rightarrow> string \<Rightarrow> unit res" where
  "require_unique ti f =
     (case ti_spec ti f of
        None \<Rightarrow> Inl QueryError
      | Some s \<Rightarrow> if fs_unique s then Inr () else Inl QueryError)"

definition delete_by_key :: "('s, 'c) senv \<Rightarrow> typeinfo \<Rightarrow> (string, pyval) dict \<Rightarrow> (('s, 'c) store, bool) act" where
  "delete_by_key env ti unique_key =
     bind_act (lift_act guard) (\<lambda>_.
       case unique_key of
         [(field, v)] \<Rightarrow>
           bind_act (lift_act (\<lambda>_. require_unique ti field)) (\<lambda>_ st.
             if dict_get (st_cid_by_typename st) (ti_name ti) = None then (Inr False, st)
             else bind_act (ensure_index env ti) (\<lambda>ci.
               bind_act (lift_act (\<lambda>_. unique_holder ci field v)) (\<lambda>holder st1.
                 case holder of
                   None \<Rightarrow> (Inr False, st1)
                 | Some oid \<Rightarrow>
                     if dict_get (st_deleted st1) oid \<noteq> None then (Inr False, st1)
                     else delete_oid (dict_get (st_registry st1) oid) oid ti st1)) st)
       | _ \<Rightarrow> raise_act PyTypeError)"

section \<open>Boot-time state\<close>

definition meta_int :: "(string, string) dict \<Rightarrow> string \<Rightarrow> nat \<Rightarrow> nat res" where
  "meta_int meta k d =
     (case dict_get meta k of None \<Rightarrow> Inr d | Some s \<Rightarrow> bind_res (int_of_text s) (\<lambda>i. Inr (nat i)))"

definition boot_root :: "(string, string) dict \<Rightarrow> nat option res" where
  "boot_root meta =
     (case dict_get meta ''root_oid'' of
        None \<Rightarrow> Inr None
      | Some s \<Rightarrow> if s = [] then Inr None else bind_res (int_of_text s) (\<lambda>i. Inr (Some (nat i))))"

definition learn_type :: "type_row \<Rightarrow> ('s, 'c) store \<Rightarrow> ('s, 'c) store" where
  "learn_type row st =
     (case row of (cid, tn, fs) \<Rightarrow>
        st\<lparr>st_cid_by_typename := AList.update tn cid (st_cid_by_typename st),
           st_cids_by_typename :=
             AList.update tn (dict_getd (st_cids_by_typename st) tn [] @ [cid]) (st_cids_by_typename st),
           st_typename_by_cid := AList.update cid tn (st_typename_by_cid st),
           st_persisted_fields := AList.update cid fs (st_persisted_fields st),
           st_durable_cids := insert cid (st_durable_cids st)\<rparr>)"

definition forget_types :: "('s, 'c) store \<Rightarrow> ('s, 'c) store" where
  "forget_types st =
     st\<lparr>st_cid_by_typename := [], st_cids_by_typename := [], st_typename_by_cid := [],
        st_persisted_fields := [], st_durable_cids := {}\<rparr>"

text \<open>\<open>_load_state\<close>, with the two halves of a usable sidecar as its argument.\<close>

definition load_state ::
    "('s, 'c) senv \<Rightarrow> (string, bytes index_blob) dict option \<Rightarrow> reverse_blob option \<Rightarrow> (('s, 'c) store, unit) act" where
  "load_state env cache rblob st =
     (case se_boot env (st_backend st) of
        (Inl err, b) \<Rightarrow> (Inl err, st\<lparr>st_backend := b\<rparr>)
      | (Inr boot, b) \<Rightarrow>
          (let st1 = st\<lparr>st_backend := b\<rparr>; meta = bi_meta boot in
           bind_act (lift_act (\<lambda>_. meta_int meta ''next_oid'' OID_BASE)) (\<lambda>no.
           bind_act (lift_act (\<lambda>_. meta_int meta ''next_cid'' 1)) (\<lambda>nc.
           bind_act (lift_act (\<lambda>_. meta_int meta ''next_tid'' TID_BASE)) (\<lambda>nt.
           bind_act (update_act (\<lambda>st. st\<lparr>st_alloc := \<lparr>next_oid_of = no, next_cid_of = nc, next_tid_of = nt\<rparr>,
               st_last_tid := nt - 1\<rparr>)) (\<lambda>_.
           bind_act (lift_act (\<lambda>_. boot_root meta)) (\<lambda>rt.
           update_act (\<lambda>st. (fold learn_type (bi_types boot) (forget_types (st\<lparr>st_root_oid := rt\<rparr>)))
               \<lparr>st_index := new_manager cache rblob\<rparr>)))))) st1))"

definition refresh_from_backend :: "('s, 'c) senv \<Rightarrow> (('s, 'c) store, unit) act" where
  "refresh_from_backend env =
     bind_act (update_act (\<lambda>st. st\<lparr>st_registry := [], st_root_holder := None, st_new := [], st_dirty := [],
       st_birth_labels := [], st_prestamp_labels := [], st_cancelled_new := [], st_deleted := [],
       st_pending_upserts := []\<rparr>)) (\<lambda>_. load_state env None None)"

section \<open>Discarding\<close>

definition restore_prestamp_labels :: "nat \<Rightarrow> nat \<Rightarrow> ('s, 'c) store \<Rightarrow> ('s, 'c) store" where
  "restore_prestamp_labels oid a st =
     (case dict_get (st_prestamp_labels st) oid of
        None \<Rightarrow> st
      | Some l \<Rightarrow>
          map_entity (\<lambda>e. e\<lparr>en_labels := l\<rparr>) a
            (st\<lparr>st_prestamp_labels := AList.delete oid (st_prestamp_labels st)\<rparr>))"

text \<open>\<open>detach\<close> deletes the OID slot, which raises when an entity has none.\<close>

definition discard_new :: "nat \<times> nat \<Rightarrow> unit \<Rightarrow> (('s, 'c) store, unit) act" where
  "discard_new entry u st =
     (case entry of (oid, a) \<Rightarrow>
        (case dict_get (st_heap st) a of
           None \<Rightarrow> (Inl PyKeyError, st)
         | Some e \<Rightarrow>
             if en_oid e = None then (Inl PyAttributeError, st)
             else (Inr (), restore_prestamp_labels oid a (put_entity a (detach e) st))))"

definition discard :: "('s, 'c) senv \<Rightarrow> (('s, 'c) store, nat) act" where
  "discard env =
     bind_act (lift_act guard) (\<lambda>_.
     bind_act (\<lambda>st. fold_act discard_new (st_new st @ st_cancelled_new st) () st) (\<lambda>_.
     bind_act (refresh_from_backend env) (\<lambda>_. lift_act (\<lambda>st. Inr (st_last_tid st)))))"

section \<open>Session identity, consumers\<close>

definition push_scope :: "principal \<Rightarrow> ('s, 'c) store \<Rightarrow> ('s, 'c) store" where
  "push_scope p st = st\<lparr>st_acting := st_acting st @ [p]\<rparr>"

definition pop_scope :: "('s, 'c) store \<Rightarrow> ('s, 'c) store" where
  "pop_scope st = st\<lparr>st_acting := butlast (st_acting st)\<rparr>"


definition attach :: "('s, 'c) senv \<Rightarrow> nat \<Rightarrow> 'c \<Rightarrow> (('s, 'c) store, unit) act" where
  "attach env i c =
     bind_act (lift_act guard) (\<lambda>_ st.
       if se_watermark env c < st_last_tid st then (Inl DeltaGapError, st)
       else if se_watermark env c > st_last_tid st then (Inl DeltaGapError, st)
       else if dict_get (st_consumers st) i \<noteq> None then (Inl DataCrystalError, st)
       else (Inr (), st\<lparr>st_consumers := st_consumers st @ [(i, c)]\<rparr>))"

definition detach_consumer :: "nat \<Rightarrow> (('s, 'c) store, unit) act" where
  "detach_consumer i =
     bind_act (lift_act guard) (\<lambda>_ st.
       if dict_get (st_consumers st) i = None then (Inl DataCrystalError, st)
       else (Inr (), st\<lparr>st_consumers := AList.delete i (st_consumers st)\<rparr>))"

end
