(* ===== verification/Store_Commit.thy ===== *)
theory Store_Commit
  imports Store_Ops Maintenance
begin

text \<open>
  The commit of \<open>_store.py\<close> in its three phases: P1 discovers, validates, encodes and captures, P2
  applies the batch to the backend, P3 folds the durable batch into the indexes and delivers its
  delta; a failed P2 is compensated.

  \<^item> \<open>fault\<close> is an error of P2 before the backend was reached (the I/O executor).
  \<^item> A fold of P3 that raises leaves the index manager half updated in the source; here it stays as it
    was before the folds, and what it answers after such a raise is not modelled.
  \<^item> The dangling-delete check is modelled as \<open>strict_deletes\<close> arms it; \<open>debug=True\<close> alone warns.
\<close>

section \<open>Encoding\<close>

record encoded_batch =
  eb_types :: "type_row list"
  eb_records :: "(nat \<times> nat \<times> bytes) list"
  eb_blobs :: "(nat \<times> nat \<times> bytes \<times> bytes) list"
  eb_streams :: "(nat \<times> nat \<times> bytes \<times> bytes list) list"
  eb_swaps :: "(nat \<times> string \<times> nat \<times> nat \<times> bytes) list"

definition empty_batch :: encoded_batch where
  "empty_batch = \<lparr>eb_types = [], eb_records = [], eb_blobs = [], eb_streams = [], eb_swaps = []\<rparr>"

definition hash_blob_source :: "(bytes \<Rightarrow> bytes) \<Rightarrow> nat \<Rightarrow> bytes list \<Rightarrow> bytes res" where
  "hash_blob_source sha n chunks =
     (if sum_list (map length chunks) \<noteq> n then Inl PyValueError else Inr (sha (concat chunks)))"

definition sink_blob :: "(bytes \<Rightarrow> bytes) \<Rightarrow> (id_alloc \<times> encoded_batch) blob_sink" where
  "sink_blob sha v s =
     (case s of (alloc, out) \<Rightarrow>
        (case next_oid alloc of (boid, alloc') \<Rightarrow>
           (case v of
              PSource n first again \<Rightarrow>
                (case hash_blob_source sha n first of
                   Inl e \<Rightarrow> (Inl e, (alloc', out))
                 | Inr digest \<Rightarrow>
                     (Inr (boid, n, digest), (alloc', out\<lparr>eb_streams := eb_streams out @ [(boid, n, digest, again)]\<rparr>)))
            | PBytes data \<Rightarrow>
                (Inr (boid, length data, sha data),
                 (alloc', out\<lparr>eb_blobs := eb_blobs out @ [(boid, length data, sha data, data)]\<rparr>))
            | _ \<Rightarrow> (Inl PyTypeError, (alloc', out)))))"

definition blob_position :: "typeinfo \<Rightarrow> nat \<Rightarrow> bool" where
  "blob_position ti i \<longleftrightarrow> i < length (ti_specs ti) \<and> fs_blob (ti_specs ti ! i)"

definition fresh_cid :: "typeinfo \<Rightarrow> ('s, 'c) store \<Rightarrow> nat \<times> ('s, 'c) store" where
  "fresh_cid ti st =
     (case next_cid (st_alloc st) of (cid, alloc) \<Rightarrow>
        (cid,
         st\<lparr>st_alloc := alloc,
            st_cid_by_typename := AList.update (ti_name ti) cid (st_cid_by_typename st),
            st_cids_by_typename := AList.update (ti_name ti)
              (dict_getd (st_cids_by_typename st) (ti_name ti) [] @ [cid]) (st_cids_by_typename st),
            st_typename_by_cid := AList.update cid (ti_name ti) (st_typename_by_cid st),
            st_persisted_fields := AList.update cid (ti_field_names ti) (st_persisted_fields st)\<rparr>))"

definition current_cid :: "typeinfo \<Rightarrow> ('s, 'c) store \<Rightarrow> nat option" where
  "current_cid ti st =
     (case dict_get (st_cid_by_typename st) (ti_name ti) of
        None \<Rightarrow> None
      | Some cid \<Rightarrow> if dict_getd (st_persisted_fields st) cid [] = ti_field_names ti then Some cid else None)"

definition cid_for ::
    "typeinfo \<Rightarrow> type_row list \<Rightarrow> ('s, 'c) store \<Rightarrow> (nat \<times> type_row list) \<times> ('s, 'c) store" where
  "cid_for ti new_types st =
     (case (case current_cid ti st of Some cid \<Rightarrow> (cid, st) | None \<Rightarrow> fresh_cid ti st) of
        (cid, st1) \<Rightarrow>
          ((cid,
            if cid \<notin> st_durable_cids st1 \<and> cid \<notin> fst ` set new_types
            then new_types @ [(cid, ti_name ti, ti_field_names ti)] else new_types), st1))"

definition is_blob_input :: "pyval \<Rightarrow> bool" where
  "is_blob_input v \<longleftrightarrow> (case v of PSource n a b \<Rightarrow> True | PBytes b \<Rightarrow> True | _ \<Rightarrow> False)"

definition swap_of :: "nat \<Rightarrow> typeinfo \<Rightarrow> pyval list \<Rightarrow> nat \<Rightarrow> (nat \<times> string \<times> nat \<times> nat \<times> bytes) res" where
  "swap_of a ti toks i =
     bind_res (nth_res toks i) (\<lambda>tok.
       case tok of PBlobTok boid n h \<Rightarrow> Inr (a, ti_field_names ti ! i, boid, n, h) | _ \<Rightarrow> Inl PyAttributeError)"

definition note_streamed_swaps ::
    "('s, 'c) senv \<Rightarrow> nat \<Rightarrow> typeinfo \<Rightarrow> pyval list \<Rightarrow> bytes \<Rightarrow> encoded_batch \<Rightarrow> encoded_batch res" where
  "note_streamed_swaps env a ti vals payload out =
     (let positions = filter (\<lambda>i. blob_position ti i \<and> is_blob_input (vals ! i)) [0..<length vals] in
      if positions = [] then Inr out
      else bind_res (decode_fields env payload) (\<lambda>toks.
           bind_res (map_res (swap_of a ti toks) positions) (\<lambda>swaps.
             Inr (out\<lparr>eb_swaps := eb_swaps out @ swaps\<rparr>))))"

definition encode_entity ::
    "('s, 'c) senv \<Rightarrow> nat \<times> nat \<Rightarrow> encoded_batch \<Rightarrow> (('s, 'c) store, encoded_batch) act" where
  "encode_entity env entry out =
     (case entry of (oid, a) \<Rightarrow>
        with_entity a (\<lambda>e st.
          (case cid_for (en_ti e) (eb_types out) st of
             ((cid, types), st1) \<Rightarrow>
               (case encode_payload (se_enc env) (se_forms env) (oid_for_encode st1) (blob_position (en_ti e))
                       (sink_blob (se_sha env)) (en_values e) (st_alloc st1, out\<lparr>eb_types := types\<rparr>) of
                  (Inl err, (alloc, out1)) \<Rightarrow> (Inl err, st1\<lparr>st_alloc := alloc\<rparr>)
                | (Inr payload, (alloc, out1)) \<Rightarrow>
                    (note_streamed_swaps env a (en_ti e) (en_values e) payload
                       (out1\<lparr>eb_records := eb_records out1 @ [(oid, cid, payload)]\<rparr>), st1\<lparr>st_alloc := alloc\<rparr>)))))"

definition encode_pending :: "('s, 'c) senv \<Rightarrow> buffer \<Rightarrow> (('s, 'c) store, encoded_batch) act" where
  "encode_pending env pending = fold_act (encode_entity env) pending empty_batch"

section \<open>Validation\<close>

type_synonym doomed = "(nat \<times> typeinfo \<times> nat option) list"

definition doomed_of :: "('s, 'c) store \<Rightarrow> doomed" where
  "doomed_of st = st_deleted st"

definition pending_of :: "('s, 'c) store \<Rightarrow> buffer" where
  "pending_of st =
     dict_pop_all (dict_keys (st_deleted st)) (fold (\<lambda>(oid, a). AList.update oid a) (st_dirty st) (st_new st))"

function (sequential) live_refs :: "('s, 'c) store \<Rightarrow> pyval \<Rightarrow> nat set" where
  "live_refs st (PEnt a) = (case entity_at a st of Inl e \<Rightarrow> {} | Inr e \<Rightarrow> set_option (en_oid e))"
| "live_refs st (PLazy i oid target) =
     (case oid of
        Some k \<Rightarrow> {k}
      | None \<Rightarrow> (case target of None \<Rightarrow> {}
          | Some a \<Rightarrow> (case entity_at a st of Inl e \<Rightarrow> {} | Inr e \<Rightarrow> set_option (en_oid e))))"
| "live_refs st (PList xs) = (\<Union>x \<in> set xs. live_refs st x)"
| "live_refs st (PTuple xs) = (\<Union>x \<in> set xs. live_refs st x)"
| "live_refs st (PDict d) = (\<Union>x \<in> set (map snd d). live_refs st x)"
| "live_refs st v = {}"
  by pat_completeness auto
termination
proof (relation "measure (\<lambda>(st, v). size v)", goal_cases)
  case 1
  then show ?case by simp
next
  case (2 st xs x)
  then show ?case using size_list_values [of xs] member_le_sum_list [of "size x" "map size xs"] by auto
next
  case (3 st xs x)
  then show ?case using size_list_values [of xs] member_le_sum_list [of "size x" "map size xs"] by auto
next
  case (4 st d x)
  then have "size x \<le> sum_list (map size (map snd d))"
    by (intro member_le_sum_list) auto
  then show ?case using size_dict_values [of d] by simp
qed

definition harvest_live_refs :: "('s, 'c) store \<Rightarrow> entity \<Rightarrow> nat set" where
  "harvest_live_refs st e = (\<Union>v \<in> set (en_values e). live_refs st v)"

definition still_referring :: "postings \<Rightarrow> (nat \<times> nat set) list \<Rightarrow> nat set \<Rightarrow> nat \<Rightarrow> nat set" where
  "still_referring rv ref_entries deleted dead =
     fold (\<lambda>(referrer, targets) rs. if dead \<in> targets then insert referrer rs else rs - {referrer})
       ref_entries (dict_getd rv dead {}) - deleted"

definition check_dangling_deletes ::
    "('s, 'c) senv \<Rightarrow> doomed \<Rightarrow> (nat \<times> nat set) list \<Rightarrow> (('s, 'c) store, unit) act" where
  "check_dangling_deletes env deletes ref_entries st =
     (case ensure_reverse (index_env env st) (st_index st) of
        Inl err \<Rightarrow> (Inl err, st)
      | Inr (rv, im) \<Rightarrow>
          (if (\<exists>dead \<in> set (map fst deletes). still_referring rv ref_entries (set (map fst deletes)) dead \<noteq> {})
           then Inl DanglingRefError else Inr (), st\<lparr>st_index := im\<rparr>))"

definition ACTOR :: string where "ACTOR = ''datacrystal._actors:Actor''"

definition gate_entry_of :: "nat \<Rightarrow> entity \<Rightarrow> gate_entry" where
  "gate_entry_of oid e =
     \<lparr>ge_oid = oid, ge_labels = en_labels e,
      ge_actor = (if ti_name (en_ti e) = ACTOR then Some (en_field e ''memberships'') else None)\<rparr>"

definition check_store_gate ::
    "('s, 'c) senv \<Rightarrow> (nat \<times> entity) list \<Rightarrow> nat list \<Rightarrow> ('s, 'c) store \<Rightarrow> (nat, stored_record) dict res" where
  "check_store_gate env prot_pending prot_deletes st =
     (if prot_pending = [] \<and> prot_deletes = [] then Inr []
      else check_write_gate (acting st) (decode_fields env) (st_persisted_fields st)
             (\<lambda>oids. se_load env oids (st_backend st)) (set (dict_keys (st_new st))) (st_birth_labels st)
             (map (\<lambda>(oid, e). gate_entry_of oid e) prot_pending) prot_deletes)"

record validated =
  va_entries :: "index_entry list"
  va_refs :: "(nat \<times> nat set) list"
  va_gate :: "(nat, stored_record) dict"

definition pending_entities :: "buffer \<Rightarrow> ('s, 'c) store \<Rightarrow> (nat \<times> entity) list res" where
  "pending_entities pending st =
     map_res (\<lambda>(oid, a). bind_res (entity_at a st) (\<lambda>e. Inr (oid, e))) pending"

definition armed :: "('s, 'c) senv \<Rightarrow> doomed \<Rightarrow> bool" where
  "armed env deletes \<longleftrightarrow> se_strict_deletes env \<and> deletes \<noteq> []"

definition arm_reverse :: "('s, 'c) senv \<Rightarrow> doomed \<Rightarrow> (('s, 'c) store, unit) act" where
  "arm_reverse env deletes st =
     (if armed env deletes
      then (case ensure_reverse (index_env env st) (st_index st) of
              Inl err \<Rightarrow> (Inl err, st) | Inr (rv, im) \<Rightarrow> (Inr (), st\<lparr>st_index := im\<rparr>))
      else (Inr (), st))"

definition check_unique_act ::
    "('s, 'c) senv \<Rightarrow> index_entry list \<Rightarrow> nat set \<Rightarrow> (('s, 'c) store, unit) act" where
  "check_unique_act env entries deleted st =
     (case im_check_unique (index_env env st) entries deleted (st_index st) of (r, im) \<Rightarrow> (r, st\<lparr>st_index := im\<rparr>))"

definition validate_before_tid ::
    "('s, 'c) senv \<Rightarrow> buffer \<Rightarrow> doomed \<Rightarrow> (('s, 'c) store, validated) act" where
  "validate_before_tid env pending deletes =
     bind_act (lift_act (pending_entities pending)) (\<lambda>ents.
     bind_act (arm_reverse env deletes) (\<lambda>_ st.
       (let entries = collect_index_entries (map (\<lambda>(oid, e). (oid, en_ti e, en_row e)) ents);
            refs = (if reverse_built (st_index st) then map (\<lambda>(oid, e). (oid, harvest_live_refs st e)) ents else [])
        in bind_act (if armed env deletes then check_dangling_deletes env deletes refs else return_act ()) (\<lambda>_.
           bind_act (check_unique_act env entries (set (map fst deletes))) (\<lambda>_.
           bind_act (lift_act (\<lambda>st. im_check_sorted_temporal entries (st_index st))) (\<lambda>_.
           bind_act (lift_act (check_store_gate env
               (filter (\<lambda>(oid, e). ti_protected (en_ti e)) ents)
               (map fst (filter (\<lambda>(oid, ti, obj). ti_protected ti) deletes)))) (\<lambda>gate.
             return_act \<lparr>va_entries = entries, va_refs = refs, va_gate = gate\<rparr>)))) st)))"

section \<open>P1: capture\<close>

definition take_priors ::
    "(nat, stored_record) dict \<Rightarrow> nat list \<Rightarrow> doomed \<Rightarrow> ((nat, bytes) dict \<times> (nat \<times> nat \<times> bytes) list) res" where
  "take_priors recs persisted deletes =
     bind_res (map_res (\<lambda>oid. case dict_get recs oid of
         None \<Rightarrow> Inl DataCrystalError | Some r \<Rightarrow> Inr (oid, sr_payload r)) persisted) (\<lambda>priors.
     bind_res (map_res (\<lambda>(oid, ti, obj). case dict_get recs oid of
         None \<Rightarrow> Inl DataCrystalError | Some r \<Rightarrow> Inr (oid, sr_cid r, sr_payload r)) deletes) (\<lambda>dels.
       Inr (priors, dels)))"

definition read_delta_priors ::
    "('s, 'c) senv \<Rightarrow> buffer \<Rightarrow> doomed \<Rightarrow> (nat, stored_record) dict \<Rightarrow> ('s, 'c) store \<Rightarrow>
       ((nat, bytes) dict \<times> (nat \<times> nat \<times> bytes) list) res" where
  "read_delta_priors env pending deletes gate st =
     (if st_consumers st = [] then Inr ([], [])
      else
        let persisted = filter (\<lambda>oid. dict_get (st_new st) oid = None) (dict_keys pending);
            missing = filter (\<lambda>oid. dict_get gate oid = None) (persisted @ map fst deletes)
        in bind_res (if missing = [] then Inr gate
             else bind_res (se_load env missing (st_backend st)) (\<lambda>recs.
               Inr (fold (\<lambda>(oid, r). AList.update oid r) recs gate))) (\<lambda>recs.
           take_priors recs persisted deletes))"

definition batch_meta_of :: "('s, 'c) store \<Rightarrow> (string, string) dict" where
  "batch_meta_of st =
     [(''next_oid'', str_of_nat (next_oid_of (st_alloc st))),
      (''next_cid'', str_of_nat (next_cid_of (st_alloc st))),
      (''next_tid'', str_of_nat (next_tid_of (st_alloc st))),
      (''root_oid'', case st_root_oid st of None \<Rightarrow> [] | Some r \<Rightarrow> str_of_nat r),
      (''format_version'', str_of_nat FORMAT_VERSION)]"

definition stamp_records :: "nat \<Rightarrow> encoded_batch \<Rightarrow> stored_record list" where
  "stamp_records tid enc =
     map (\<lambda>(oid, cid, payload). \<lparr>sr_oid = oid, sr_cid = cid, sr_tid = tid, sr_payload = payload\<rparr>) (eb_records enc)"

definition build_batch :: "nat \<Rightarrow> encoded_batch \<Rightarrow> doomed \<Rightarrow> ('s, 'c) store \<Rightarrow> commit_batch" where
  "build_batch tid enc deletes st =
     \<lparr>cb_tid = tid, cb_records = stamp_records tid enc, cb_types = eb_types enc, cb_meta = batch_meta_of st,
      cb_deletes = map fst deletes,
      cb_blobs = map (\<lambda>(boid, n, h, data). \<lparr>bl_oid = boid, bl_tid = tid, bl_size = n, bl_hash = h, bl_data = data\<rparr>)
        (eb_blobs enc),
      cb_streams = map (\<lambda>(boid, n, h, chunks). \<lparr>ss_oid = boid, ss_tid = tid, ss_size = n, ss_hash = h,
        ss_chunks = chunks, ss_fault = None\<rparr>) (eb_streams enc)\<rparr>"

definition flip_one ::
    "nat \<times> nat \<Rightarrow> (nat \<times> nat \<times> estate) list \<Rightarrow> (('s, 'c) store, (nat \<times> nat \<times> estate) list) act" where
  "flip_one entry flipped =
     (case entry of (oid, a) \<Rightarrow>
        with_entity a (\<lambda>e.
          bind_act (update_act (\<lambda>st. (set_state STATE_CLEAN a st)\<lparr>st_registry := AList.update oid a (st_registry st)\<rparr>))
            (\<lambda>_. return_act (flipped @ [(oid, a, en_state e)]))))"

definition flip_captured :: "buffer \<Rightarrow> (('s, 'c) store, (nat \<times> nat \<times> estate) list) act" where
  "flip_captured pending = fold_act flip_one pending []"

record capture =
  ca_tid :: nat
  ca_batch :: commit_batch
  ca_entries :: "index_entry list"
  ca_refs :: "(nat \<times> nat set) list"
  ca_flipped :: "(nat \<times> nat \<times> estate) list"
  ca_delta :: "delta option"
  ca_deletes :: doomed
  ca_swaps :: "(nat \<times> string \<times> nat \<times> nat \<times> bytes) list"

definition clear_buffers :: "('s, 'c) store \<Rightarrow> ('s, 'c) store" where
  "clear_buffers st =
     st\<lparr>st_new := [], st_dirty := [], st_deleted := [], st_birth_labels := [], st_cancelled_new := []\<rparr>"

definition delta_of ::
    "('s, 'c) senv \<Rightarrow> nat \<Rightarrow> encoded_batch \<Rightarrow> (nat, bytes) dict \<times> (nat \<times> nat \<times> bytes) list \<Rightarrow> ('s, 'c) store \<Rightarrow> delta option" where
  "delta_of env tid enc priors st =
     (if st_consumers st = [] then None
      else Some (build_delta tid (stamp_records tid enc) (eb_types enc) (st_root_oid st) (fst priors) (snd priors)
        (nat (uid (acting st))) (se_clock env)))"

definition allocate_tid :: "(('s, 'c) store, nat) act" where
  "allocate_tid st = (case next_tid (st_alloc st) of (tid, alloc) \<Rightarrow> (Inr tid, st\<lparr>st_alloc := alloc\<rparr>))"

definition capture_batch ::
    "('s, 'c) senv \<Rightarrow> buffer \<Rightarrow> doomed \<Rightarrow> (('s, 'c) store, capture) act" where
  "capture_batch env pending deletes =
     bind_act (validate_before_tid env pending deletes) (\<lambda>va.
     bind_act (encode_pending env pending) (\<lambda>enc.
     bind_act (lift_act (read_delta_priors env pending deletes (va_gate va))) (\<lambda>priors.
     bind_act allocate_tid (\<lambda>tid.
     bind_act (lift_act (\<lambda>st. Inr (build_batch tid enc deletes st, delta_of env tid enc priors st))) (\<lambda>bd.
     bind_act (flip_captured pending) (\<lambda>flipped.
     bind_act (update_act clear_buffers) (\<lambda>_.
       return_act \<lparr>ca_tid = tid, ca_batch = fst bd, ca_entries = va_entries va, ca_refs = va_refs va,
         ca_flipped = flipped, ca_delta = snd bd, ca_deletes = deletes, ca_swaps = eb_swaps enc\<rparr>)))))))"

definition p1_capture :: "('s, 'c) senv \<Rightarrow> (('s, 'c) store, capture option) act" where
  "p1_capture env =
     bind_act (lift_act assert_lease_held) (\<lambda>_.
     bind_act (discover_new_graphs env) (\<lambda>_ st.
       (let pending = pending_of st; deletes = doomed_of st in
        if pending = [] \<and> deletes = [] then (Inr None, st)
        else bind_act (capture_batch env pending deletes) (\<lambda>c. return_act (Some c)) st)))"

section \<open>P2: backend I/O\<close>

definition run_p2 :: "('s, 'c) senv \<Rightarrow> error option \<Rightarrow> commit_batch \<Rightarrow> (('s, 'c) store, unit) act" where
  "run_p2 env fault batch st =
     (case fault of
        Some err \<Rightarrow> (Inl err, st)
      | None \<Rightarrow> (case se_apply env batch (st_backend st) of (r, b) \<Rightarrow> (r, st\<lparr>st_backend := b\<rparr>)))"

definition rebuffer :: "nat \<times> nat \<times> estate \<Rightarrow> ('s, 'c) store \<Rightarrow> ('s, 'c) store" where
  "rebuffer entry st =
     (case entry of (oid, a, prior) \<Rightarrow>
        if prior = STATE_NEW
        then (set_state STATE_NEW a st)\<lparr>st_dirty := AList.delete oid (st_dirty st), st_new := AList.update oid a (st_new st)\<rparr>
        else (set_state STATE_DIRTY a st)\<lparr>st_dirty := AList.update oid a (st_dirty st)\<rparr>)"

definition p2_rollback :: "capture \<Rightarrow> ('s, 'c) store \<Rightarrow> ('s, 'c) store" where
  "p2_rollback c st =
     (let st1 = fold rebuffer (ca_flipped c) (st\<lparr>st_alloc := (st_alloc st)\<lparr>next_tid_of := ca_tid c\<rparr>\<rparr>)
      in st1\<lparr>st_deleted := fold (\<lambda>(oid, d). AList.update oid d) (ca_deletes c) (st_deleted st1)\<rparr>)"

section \<open>P3: finalize\<close>

definition bury :: "nat \<times> typeinfo \<times> nat option \<Rightarrow> ('s, 'c) store \<Rightarrow> ('s, 'c) store" where
  "bury d st =
     (case d of (oid, ti, obj) \<Rightarrow>
        (let live = (case obj of Some a \<Rightarrow> Some a | None \<Rightarrow> dict_get (st_registry st) oid);
             st1 = (case live of None \<Rightarrow> st | Some a \<Rightarrow> set_state STATE_DELETED a st)
         in st1\<lparr>st_registry := AList.delete oid (st_registry st1)\<rparr>))"

definition swap_blob :: "nat \<times> string \<times> nat \<times> nat \<times> bytes \<Rightarrow> ('s, 'c) store \<Rightarrow> ('s, 'c) store" where
  "swap_blob w st =
     (case w of (a, f, boid, n, h) \<Rightarrow>
        map_entity (\<lambda>e. e\<lparr>en_vals := AList.update f (PHandle boid n h) (en_vals e)\<rparr>) a st)"

definition deliver_one :: "('s, 'c) senv \<Rightarrow> delta \<Rightarrow> nat \<times> 'c \<Rightarrow> (nat, 'c) dict \<Rightarrow> (nat, 'c) dict" where
  "deliver_one env d consumer cs =
     (case consumer of (i, c) \<Rightarrow>
        (case se_feed env d c of
           (Inl err, c') \<Rightarrow> AList.delete i cs
         | (Inr applied, c') \<Rightarrow>
             if Some (se_watermark env c') \<noteq> dl_tid d then AList.delete i cs else AList.update i c' cs))"

definition deliver :: "('s, 'c) senv \<Rightarrow> delta \<Rightarrow> ('s, 'c) store \<Rightarrow> ('s, 'c) store" where
  "deliver env d st = st\<lparr>st_consumers := fold (deliver_one env d) (st_consumers st) (st_consumers st)\<rparr>"

definition settle_durable :: "capture \<Rightarrow> ('s, 'c) store \<Rightarrow> ('s, 'c) store" where
  "settle_durable c st =
     (let st1 = fold bury (ca_deletes c) st;
          st2 = st1\<lparr>st_pending_upserts := [],
                    st_prestamp_labels := dict_pop_all (map fst (ca_flipped c)) (st_prestamp_labels st1),
                    st_durable_cids := st_durable_cids st1 \<union> fst ` set (cb_types (ca_batch c))\<rparr>
      in (fold swap_blob (ca_swaps c) st2)\<lparr>st_last_tid := ca_tid c\<rparr>)"

definition p3_finalize :: "('s, 'c) senv \<Rightarrow> capture \<Rightarrow> (('s, 'c) store, nat) act" where
  "p3_finalize env c st =
     (case commit_folds (ca_entries c) (ca_refs c) (map (\<lambda>(oid, ti, obj). (oid, ti)) (ca_deletes c)) (st_index st) of
        Inl err \<Rightarrow> (Inl err, st)
      | Inr im \<Rightarrow>
          (let st1 = settle_durable c (st\<lparr>st_index := im\<rparr>)
           in (Inr (ca_tid c), case ca_delta c of None \<Rightarrow> st1 | Some d \<Rightarrow> deliver env d st1)))"

section \<open>The commit\<close>

definition finish_commit :: "('s, 'c) senv \<Rightarrow> error option \<Rightarrow> capture \<Rightarrow> (('s, 'c) store, nat) act" where
  "finish_commit env fault c st =
     (case run_p2 env fault (ca_batch c) st of
        (Inl err, st1) \<Rightarrow> (Inl err, p2_rollback c st1)
      | (Inr u, st1) \<Rightarrow> p3_finalize env c st1)"

definition commit :: "('s, 'c) senv \<Rightarrow> error option \<Rightarrow> (('s, 'c) store, nat option) act" where
  "commit env fault =
     bind_act (lift_act guard) (\<lambda>_.
     bind_act (p1_capture env) (\<lambda>captured.
       case captured of
         None \<Rightarrow> return_act None
       | Some c \<Rightarrow> bind_act (finish_commit env fault c) (\<lambda>tid. return_act (Some tid))))"

end
