(* ===== verification/Store_Phases.thy ===== *)
theory Store_Phases
  imports Store_Commit
begin

text \<open>
  What the phases of a commit change: a first phase that raises keeps the buffers, the TID and the
  backend; a captured batch holds one record per pending OID with the encoding of its entity; the
  compensation of a failed second phase restores the buffers and the TID.
\<close>

section \<open>Validation and encoding stage nothing\<close>

text \<open>All of a session but the index manager, the type lineage and the OID and CID watermarks.\<close>

definition stage :: "('s, 'c) store \<Rightarrow> ('s, 'c) store" where
  "stage st = st\<lparr>st_index := new_manager None None,
     st_alloc := (st_alloc st)\<lparr>next_oid_of := 0, next_cid_of := 0\<rparr>,
     st_cid_by_typename := [], st_cids_by_typename := [], st_typename_by_cid := [], st_persisted_fields := []\<rparr>"

definition staged :: "('s, 'c) store \<Rightarrow> ('s, 'c) store \<Rightarrow> bool" where
  "staged st st' \<longleftrightarrow> stage st' = stage st \<and> next_oid_of (st_alloc st) \<le> next_oid_of (st_alloc st')
     \<and> next_cid_of (st_alloc st) \<le> next_cid_of (st_alloc st')"

lemma staged_refl [simp]: "staged st st"
  by (simp add: staged_def)

lemma staged_trans: "staged a b \<Longrightarrow> staged b c \<Longrightarrow> staged a c"
  by (auto simp: staged_def)

lemma stage_eqD:
  assumes "stage st' = stage st"
  shows "st_heap st' = st_heap st" "st_backend st' = st_backend st" "st_new st' = st_new st"
    "st_dirty st' = st_dirty st" "st_deleted st' = st_deleted st" "st_cancelled_new st' = st_cancelled_new st"
    "st_registry st' = st_registry st" "st_last_tid st' = st_last_tid st" "st_consumers st' = st_consumers st"
    "st_birth_labels st' = st_birth_labels st" "st_prestamp_labels st' = st_prestamp_labels st"
    "st_root_oid st' = st_root_oid st" "st_durable_cids st' = st_durable_cids st"
    "next_tid_of (st_alloc st') = next_tid_of (st_alloc st)" "st_closed st' = st_closed st"
    "st_lease_lost st' = st_lease_lost st" "acting st' = acting st" "st_pending_upserts st' = st_pending_upserts st"
proof -
  have *: "f (stage st') = f (stage st)" for f :: "('a, 'b) store \<Rightarrow> 'x"
    using assms by simp
  show "st_heap st' = st_heap st" "st_backend st' = st_backend st" "st_new st' = st_new st"
    "st_dirty st' = st_dirty st" "st_deleted st' = st_deleted st" "st_cancelled_new st' = st_cancelled_new st"
    "st_registry st' = st_registry st" "st_last_tid st' = st_last_tid st" "st_consumers st' = st_consumers st"
    "st_birth_labels st' = st_birth_labels st" "st_prestamp_labels st' = st_prestamp_labels st"
    "st_root_oid st' = st_root_oid st" "st_durable_cids st' = st_durable_cids st"
    "next_tid_of (st_alloc st') = next_tid_of (st_alloc st)" "st_closed st' = st_closed st"
    "st_lease_lost st' = st_lease_lost st" "acting st' = acting st" "st_pending_upserts st' = st_pending_upserts st"
    using * [of st_heap] * [of st_backend] * [of st_new] * [of st_dirty] * [of st_deleted] * [of st_cancelled_new]
      * [of st_registry] * [of st_last_tid] * [of st_consumers] * [of st_birth_labels] * [of st_prestamp_labels]
      * [of st_root_oid] * [of st_durable_cids] * [of "\<lambda>s. next_tid_of (st_alloc s)"] * [of st_closed]
      * [of st_lease_lost] * [of st_acting] * [of st_principal] * [of st_pending_upserts]
    by (simp_all add: stage_def acting_def)
qed

lemma stagedD: "staged st st' \<Longrightarrow> stage st' = stage st"
  by (simp add: staged_def)

lemma staged_index [simp]: "staged st (st\<lparr>st_index := im\<rparr>)"
  by (simp add: staged_def stage_def)

lemma arm_reverse_staged: "arm_reverse env deletes st = (r, st') \<Longrightarrow> staged st st'"
  by (auto simp: arm_reverse_def split: if_splits sum.splits prod.splits)

lemma check_dangling_staged: "check_dangling_deletes env deletes refs st = (r, st') \<Longrightarrow> staged st st'"
  by (auto simp: check_dangling_deletes_def split: sum.splits prod.splits)

lemma check_unique_act_staged: "check_unique_act env entries deleted st = (r, st') \<Longrightarrow> staged st st'"
  by (auto simp: check_unique_act_def split: prod.splits)

lemma lift_staged: "lift_act f st = (r, st') \<Longrightarrow> staged st st'"
  by simp

lemma staged_bind:
  assumes "bind_act m f st = (r, st'')" and "\<And>r1 st1. m st = (r1, st1) \<Longrightarrow> staged st st1"
    and "\<And>x st1 r2 st2. m st = (Inr x, st1) \<Longrightarrow> f x st1 = (r2, st2) \<Longrightarrow> staged st1 st2"
  shows "staged st st''"
  by (rule bind_act_rel [where R = staged, OF assms(1)]) (erule assms(2), erule (1) assms(3), erule (1) staged_trans)

lemma validate_staged:
  assumes "validate_before_tid env pending deletes st = (r, st')"
  shows "staged st st'"
  using assms unfolding validate_before_tid_def Let_def
proof (rule staged_bind [OF _ lift_staged])
  fix ents st1 r2 st2
  assume "bind_act (arm_reverse env deletes) (\<lambda>_ st.
      (bind_act (if armed env deletes then check_dangling_deletes env deletes
          (if reverse_built (st_index st) then map (\<lambda>(oid, e). (oid, harvest_live_refs st e)) ents else []) else return_act ()) (\<lambda>_.
        bind_act (check_unique_act env (collect_index_entries (map (\<lambda>(oid, e). (oid, en_ti e, en_row e)) ents)) (set (map fst deletes))) (\<lambda>_.
        bind_act (lift_act (\<lambda>st. im_check_sorted_temporal (collect_index_entries (map (\<lambda>(oid, e). (oid, en_ti e, en_row e)) ents)) (st_index st))) (\<lambda>_.
        bind_act (lift_act (check_store_gate env (filter (\<lambda>(oid, e). ti_protected (en_ti e)) ents)
            (map fst (filter (\<lambda>(oid, ti, obj). ti_protected ti) deletes)))) (\<lambda>gate.
          return_act \<lparr>va_entries = collect_index_entries (map (\<lambda>(oid, e). (oid, en_ti e, en_row e)) ents),
            va_refs = if reverse_built (st_index st) then map (\<lambda>(oid, e). (oid, harvest_live_refs st e)) ents else [],
            va_gate = gate\<rparr>))))) st) st1 = (r2, st2)"
  then show "staged st1 st2"
    apply (rule staged_bind)
     apply (erule arm_reverse_staged)
    apply (erule staged_bind)
     apply (auto split: if_splits intro: check_dangling_staged)[1]
    apply (erule staged_bind)
     apply (erule check_unique_act_staged)
    apply (erule staged_bind)
     apply simp
    apply (erule staged_bind)
     apply simp
    apply simp
    done
qed

lemma cid_for_staged:
  assumes "cid_for ti types st = (r, st')"
  shows "staged st st'"
  using assms
  by (auto simp: cid_for_def fresh_cid_def next_cid_def staged_def stage_def split: option.splits prod.splits if_splits)

text \<open>The blob sink takes OIDs and nothing else from the allocator.\<close>

lemma sink_blob_alloc:
  assumes "sink_blob sha v (alloc, out) = (r, (alloc', out'))"
  shows "alloc' = alloc\<lparr>next_oid_of := Suc (next_oid_of alloc)\<rparr> \<and> eb_records out' = eb_records out \<and>
    eb_types out' = eb_types out \<and> eb_swaps out' = eb_swaps out"
  using assms by (auto simp: sink_blob_def next_oid_def split: pyval.splits sum.splits prod.splits)

definition blob_grown :: "id_alloc \<times> encoded_batch \<Rightarrow> id_alloc \<times> encoded_batch \<Rightarrow> bool" where
  "blob_grown s s' \<longleftrightarrow> next_oid_of (fst s) \<le> next_oid_of (fst s') \<and> next_cid_of (fst s') = next_cid_of (fst s)
     \<and> next_tid_of (fst s') = next_tid_of (fst s) \<and> eb_records (snd s') = eb_records (snd s)
     \<and> eb_types (snd s') = eb_types (snd s) \<and> eb_swaps (snd s') = eb_swaps (snd s)"

lemma encode_values_grown:
  "encode_values tf oid_for blobs (sink_blob sha) i vs s = (r, s') \<Longrightarrow> blob_grown s s'"
proof (induction vs arbitrary: i s r)
  case Nil
  then show ?case by (simp add: blob_grown_def)
next
  case (Cons v vs)
  obtain w s1 where w: "(if blobs i \<and> v \<noteq> PNone then encode_blob_value (sink_blob sha) v s else (swizzle tf oid_for v, s)) = (w, s1)"
    using prod.exhaust by blast
  have g: "blob_grown s s1"
  proof (cases "blobs i \<and> v \<noteq> PNone \<and> (\<nexists>o' n h. v = PHandle o' n h)")
    case True
    obtain alloc out where s: "s = (alloc, out)"
      by fastforce
    obtain q alloc' out' where q: "sink_blob sha v s = (q, (alloc', out'))"
      by (metis prod.collapse)
    then have "s1 = (alloc', out')"
      using w True by (auto simp: encode_blob_value_def split: pyval.splits sum.splits prod.splits)
    then show ?thesis
      using sink_blob_alloc [OF q [unfolded s]] by (simp add: blob_grown_def s)
  next
    case False
    then have "s1 = s"
      using w by (auto simp: encode_blob_value_def split: if_splits)
    then show ?thesis by (simp add: blob_grown_def)
  qed
  show ?case
  proof (cases w)
    case (Inl e)
    then show ?thesis
      using Cons.prems w g by simp
  next
    case (Inr u)
    obtain r2 s2 where r2: "encode_values tf oid_for blobs (sink_blob sha) (Suc i) vs s1 = (r2, s2)"
      using prod.exhaust by blast
    have "s' = s2"
      using Cons.prems w Inr r2 by (cases r2) auto
    then show ?thesis
      using Cons.IH [of "Suc i" s1 r2] r2 g by (auto simp: blob_grown_def)
  qed
qed

lemma encode_payload_grown:
  "encode_payload enc tf oid_for blobs (sink_blob sha) vs s = (r, s') \<Longrightarrow> blob_grown s s'"
  by (auto simp: encode_payload_def split: prod.splits sum.splits dest: encode_values_grown)

lemma alloc_staged:
  assumes "next_oid_of (st_alloc st) \<le> next_oid_of alloc" and "next_cid_of alloc = next_cid_of (st_alloc st)"
    and "next_tid_of alloc = next_tid_of (st_alloc st)"
  shows "staged st (st\<lparr>st_alloc := alloc\<rparr>)"
  using assms by (cases alloc; cases "st_alloc st") (simp add: staged_def stage_def)

text \<open>What encoding one entity adds to the batch.\<close>

lemma encode_entity_effect:
  assumes "encode_entity env (oid, a) out st = (r, st')"
  shows "staged st st'"
    and "r = Inr out' \<Longrightarrow> \<exists>e cid payload s s'. dict_get (st_heap st) a = Some e \<and>
      eb_records out' = eb_records out @ [(oid, cid, payload)] \<and>
      encode_payload (se_enc env) (se_forms env) (oid_for_encode st') (blob_position (en_ti e)) (sink_blob (se_sha env))
        (en_values e) s = (Inr payload, s')"
proof -
  have main: "staged st st' \<and> (r = Inr out' \<longrightarrow> (\<exists>e cid payload s s'. dict_get (st_heap st) a = Some e \<and>
      eb_records out' = eb_records out @ [(oid, cid, payload)] \<and>
      encode_payload (se_enc env) (se_forms env) (oid_for_encode st') (blob_position (en_ti e)) (sink_blob (se_sha env))
        (en_values e) s = (Inr payload, s')))"
  proof (cases "dict_get (st_heap st) a")
    case None
    then show ?thesis
      using assms by (auto simp: encode_entity_def with_entity_def bind_act_def entity_at_def)
  next
    case (Some e)
    obtain cid types st1 where c: "cid_for (en_ti e) (eb_types out) st = ((cid, types), st1)"
      by (metis prod.collapse)
    obtain p alloc out1 where p: "encode_payload (se_enc env) (se_forms env) (oid_for_encode st1) (blob_position (en_ti e))
        (sink_blob (se_sha env)) (en_values e) (st_alloc st1, out\<lparr>eb_types := types\<rparr>) = (p, (alloc, out1))"
      by (metis prod.collapse)
    have g: "blob_grown (st_alloc st1, out\<lparr>eb_types := types\<rparr>) (alloc, out1)"
      by (rule encode_payload_grown [OF p])
    have st': "st' = st1\<lparr>st_alloc := alloc\<rparr>"
      using assms Some c p
      by (cases p) (auto simp: encode_entity_def with_entity_def bind_act_def entity_at_def)
    have s: "staged st st'"
      unfolding st' using cid_for_staged [OF c] alloc_staged [of st1 alloc] g
      by (auto simp: blob_grown_def intro: staged_trans)
    have o: "oid_for_encode st' = oid_for_encode st1"
      by (simp add: st' oid_for_encode_def entity_at_def fun_eq_iff)
    have "\<exists>payload. p = Inr payload \<and> eb_records out' = eb_records out @ [(oid, cid, payload)]" if r: "r = Inr out'"
      using assms Some c p g r
      by (cases p) (auto simp: encode_entity_def with_entity_def bind_act_def entity_at_def note_streamed_swaps_def
          Let_def bind_res_Inr blob_grown_def split: if_splits)
    then show ?thesis
      using s Some p o by metis
  qed
  then show "staged st st'" and "r = Inr out' \<Longrightarrow> \<exists>e cid payload s s'. dict_get (st_heap st) a = Some e \<and>
      eb_records out' = eb_records out @ [(oid, cid, payload)] \<and>
      encode_payload (se_enc env) (se_forms env) (oid_for_encode st') (blob_position (en_ti e)) (sink_blob (se_sha env))
        (en_values e) s = (Inr payload, s')"
    by auto
qed

lemma encode_pending_staged:
  assumes "encode_pending env pending st = (r, st')"
  shows "staged st st'"
  using assms unfolding encode_pending_def
proof (rule fold_act_rel [where R = staged])
  fix x a s r s'
  show "encode_entity env x a s = (r, s') \<Longrightarrow> staged s s'"
    using encode_entity_effect(1) by (cases x) fastforce
qed (simp, rule staged_trans)


text \<open>One record per pending OID, in order, with the encoding of its entity as it stands.\<close>

definition encodes ::
    "('s, 'c) senv \<Rightarrow> ('s, 'c) store \<Rightarrow> nat \<times> nat \<Rightarrow> nat \<times> nat \<times> bytes \<Rightarrow> bool" where
  "encodes env st entry rec \<longleftrightarrow>
     (case (entry, rec) of ((oid, a), (oid', cid, payload)) \<Rightarrow>
        oid' = oid \<and> (\<exists>e s s'. dict_get (st_heap st) a = Some e \<and>
          encode_payload (se_enc env) (se_forms env) (oid_for_encode st) (blob_position (en_ti e)) (sink_blob (se_sha env))
            (en_values e) s = (Inr payload, s')))"

lemma encodes_heap:
  assumes "st_heap st' = st_heap st"
  shows "encodes env st' = encodes env st"
proof -
  have "oid_for_encode st' = oid_for_encode st"
    by (rule ext) (simp add: oid_for_encode_def entity_at_def assms)
  then show ?thesis
    by (intro ext) (simp only: encodes_def assms)
qed

lemma encode_fold_records:
  assumes "fold_act (encode_entity env) pending out st = (Inr out', st')"
  shows "\<exists>recs. eb_records out' = eb_records out @ recs \<and> list_all2 (encodes env st) pending recs"
  using assms
proof (induction pending arbitrary: out st)
  case Nil
  then show ?case by simp
next
  case (Cons p pending)
  obtain oid a where p: "p = (oid, a)"
    by fastforce
  obtain out1 st1 where s: "encode_entity env (oid, a) out st = (Inr out1, st1)"
    "fold_act (encode_entity env) pending out1 st1 = (Inr out', st')"
    using Cons.prems by (auto simp: bind_act_Inr p)
  have g: "st_heap st1 = st_heap st"
    using stage_eqD(1) stagedD encode_entity_effect(1) [OF s(1)] by blast
  obtain e cid payload q q' where e: "dict_get (st_heap st) a = Some e" "eb_records out1 = eb_records out @ [(oid, cid, payload)]"
    "encode_payload (se_enc env) (se_forms env) (oid_for_encode st1) (blob_position (en_ti e)) (sink_blob (se_sha env))
        (en_values e) q = (Inr payload, q')"
    using encode_entity_effect(2) [OF s(1) refl] by blast
  have "oid_for_encode st1 = oid_for_encode st"
    by (simp add: oid_for_encode_def entity_at_def g fun_eq_iff)
  then have "encodes env st p (oid, cid, payload)"
    using e unfolding encodes_def p prod.case by metis
  moreover obtain recs where "eb_records out' = eb_records out1 @ recs" "list_all2 (encodes env st1) pending recs"
    using Cons.IH [OF s(2)] by blast
  ultimately show ?case
    using e(2) encodes_heap [OF g, of env] by (intro exI [of _ "(oid, cid, payload) # recs"]) auto
qed

lemma encode_pending_records:
  assumes "encode_pending env pending st = (Inr out, st')"
  shows "list_all2 (encodes env st) pending (eb_records out)"
  using encode_fold_records [OF assms [unfolded encode_pending_def]] by (simp add: empty_batch_def)

lemma encodes_oids: "list_all2 (encodes env st) pending recs \<Longrightarrow> map fst recs = map fst pending"
  by (induction rule: list_all2_induct) (auto simp: encodes_def)

section \<open>The flip and its compensation\<close>

definition with_state :: "estate \<Rightarrow> entity \<Rightarrow> entity" where
  "with_state s e = e\<lparr>en_state := s\<rparr>"

lemma with_state_simps [simp]:
  "en_ti (with_state s e) = en_ti e" "en_vals (with_state s e) = en_vals e" "en_oid (with_state s e) = en_oid e"
  "en_store (with_state s e) = en_store e" "en_state (with_state s e) = s" "en_labels (with_state s e) = en_labels e"
  "en_twin (with_state s e) = en_twin e" "with_state s (with_state t e) = with_state s e"
  by (simp_all add: with_state_def)

lemma with_state_id [simp]: "en_state e = s \<Longrightarrow> with_state s e = e"
  by (auto simp: with_state_def)

lemma set_state_heap [simp]:
  "dict_get (st_heap (set_state s a st)) b =
     (if b = a then map_option (with_state s) (dict_get (st_heap st) a) else dict_get (st_heap st) b)"
  by (simp add: set_state_def map_entity_def with_state_def split: option.split)

text \<open>A state that differs from another in its heap only.\<close>

lemma set_state_frame: "set_state s a st = st\<lparr>st_heap := st_heap (set_state s a st)\<rparr>"
  by (simp add: set_state_def map_entity_def put_entity_def split: option.split)

lemma set_state_simps [simp]:
  "st_new (set_state s a st) = st_new st" "st_dirty (set_state s a st) = st_dirty st"
  "st_deleted (set_state s a st) = st_deleted st" "st_alloc (set_state s a st) = st_alloc st"
  "st_registry (set_state s a st) = st_registry st" "st_backend (set_state s a st) = st_backend st"
  "st_last_tid (set_state s a st) = st_last_tid st" "st_consumers (set_state s a st) = st_consumers st"
  "st_index (set_state s a st) = st_index st" "st_cancelled_new (set_state s a st) = st_cancelled_new st"
  "st_root_oid (set_state s a st) = st_root_oid st" "st_durable_cids (set_state s a st) = st_durable_cids st"
  "st_closed (set_state s a st) = st_closed st" "st_birth_labels (set_state s a st) = st_birth_labels st"
  by (subst set_state_frame, simp)+

definition calm :: "('s, 'c) store \<Rightarrow> ('s, 'c) store" where
  "calm st = st\<lparr>st_heap := [], st_registry := []\<rparr>"

lemma calm_set_state [simp]: "calm (set_state s a st) = calm st"
  by (subst set_state_frame) (simp add: calm_def)

lemma calm_registry [simp]: "calm (st\<lparr>st_registry := r\<rparr>) = calm st"
  by (simp add: calm_def)

lemma calm_eqD:
  assumes "calm st' = calm st"
  shows "st_backend st' = st_backend st" "st_new st' = st_new st" "st_dirty st' = st_dirty st"
    "st_deleted st' = st_deleted st" "st_cancelled_new st' = st_cancelled_new st" "st_index st' = st_index st"
    "st_last_tid st' = st_last_tid st" "st_consumers st' = st_consumers st" "st_alloc st' = st_alloc st"
    "st_birth_labels st' = st_birth_labels st" "st_prestamp_labels st' = st_prestamp_labels st"
    "st_root_oid st' = st_root_oid st" "st_durable_cids st' = st_durable_cids st" "st_closed st' = st_closed st"
    "st_persisted_fields st' = st_persisted_fields st" "st_cid_by_typename st' = st_cid_by_typename st"
    "st_typename_by_cid st' = st_typename_by_cid st" "st_cids_by_typename st' = st_cids_by_typename st"
    "acting st' = acting st" "st_lease_lost st' = st_lease_lost st"
proof -
  have *: "f (calm st') = f (calm st)" for f :: "('a, 'b) store \<Rightarrow> 'x"
    using assms by simp
  show "st_backend st' = st_backend st" "st_new st' = st_new st" "st_dirty st' = st_dirty st"
    "st_deleted st' = st_deleted st" "st_cancelled_new st' = st_cancelled_new st" "st_index st' = st_index st"
    "st_last_tid st' = st_last_tid st" "st_consumers st' = st_consumers st" "st_alloc st' = st_alloc st"
    "st_birth_labels st' = st_birth_labels st" "st_prestamp_labels st' = st_prestamp_labels st"
    "st_root_oid st' = st_root_oid st" "st_durable_cids st' = st_durable_cids st" "st_closed st' = st_closed st"
    "st_persisted_fields st' = st_persisted_fields st" "st_cid_by_typename st' = st_cid_by_typename st"
    "st_typename_by_cid st' = st_typename_by_cid st" "st_cids_by_typename st' = st_cids_by_typename st"
    "acting st' = acting st" "st_lease_lost st' = st_lease_lost st"
    using * [of st_backend] * [of st_new] * [of st_dirty] * [of st_deleted] * [of st_cancelled_new] * [of st_index]
      * [of st_last_tid] * [of st_consumers] * [of st_alloc] * [of st_birth_labels] * [of st_prestamp_labels]
      * [of st_root_oid] * [of st_durable_cids] * [of st_closed] * [of st_persisted_fields] * [of st_cid_by_typename]
      * [of st_typename_by_cid] * [of st_cids_by_typename] * [of st_acting] * [of st_principal] * [of st_lease_lost]
    by (simp_all add: calm_def acting_def)
qed

definition flip_result :: "buffer \<Rightarrow> ('s, 'c) store \<Rightarrow> ('s, 'c) store \<Rightarrow> bool" where
  "flip_result pending st st' \<longleftrightarrow> calm st' = calm st \<and>
     (\<forall>b. dict_get (st_heap st') b =
        (if b \<in> snd ` set pending then map_option (with_state STATE_CLEAN) (dict_get (st_heap st) b)
         else dict_get (st_heap st) b)) \<and>
     (\<forall>oid a. dict_get (st_registry st') oid = Some a \<longrightarrow> (oid, a) \<in> set pending \<or> dict_get (st_registry st) oid = Some a)"

definition prior_states :: "('s, 'c) store \<Rightarrow> buffer \<Rightarrow> (nat \<times> nat \<times> estate) list" where
  "prior_states st pending =
     map (\<lambda>(oid, a). (oid, a, case dict_get (st_heap st) a of None \<Rightarrow> STATE_NEW | Some e \<Rightarrow> en_state e)) pending"

lemma flip_fold:
  assumes "\<forall>(oid, a) \<in> set pending. dict_get (st_heap st) a \<noteq> None" and "distinct (map snd pending)"
  shows "\<exists>st'. fold_act flip_one pending acc st = (Inr (acc @ prior_states st pending), st') \<and> flip_result pending st st'"
  using assms
proof (induction pending arbitrary: acc st)
  case Nil
  then show ?case by (simp add: prior_states_def flip_result_def)
next
  case (Cons p pending)
  obtain oid a where p: "p = (oid, a)"
    by fastforce
  obtain e where e: "dict_get (st_heap st) a = Some e"
    using Cons.prems(1) p by auto
  define st1 where "st1 = (set_state STATE_CLEAN a st)\<lparr>st_registry := AList.update oid a (st_registry st)\<rparr>"
  have f: "flip_one p acc st = (Inr (acc @ [(oid, a, en_state e)]), st1)"
    by (simp add: flip_one_def p with_entity_def bind_act_def entity_at_def e st1_def)
  have "\<forall>(oid, b) \<in> set pending. dict_get (st_heap st1) b \<noteq> None"
    using Cons.prems(1) by (auto simp: st1_def)
  then obtain st' where st': "fold_act flip_one pending (acc @ [(oid, a, en_state e)]) st1 =
      (Inr ((acc @ [(oid, a, en_state e)]) @ prior_states st1 pending), st')" "flip_result pending st1 st'"
    using Cons.IH [of st1 "acc @ [(oid, a, en_state e)]"] Cons.prems(2) by auto
  have h: "dict_get (st_heap st1) b = dict_get (st_heap st) b" if "b \<in> snd ` set pending" for b
    using that Cons.prems(2) by (auto simp: st1_def p)
  have "prior_states st1 pending = prior_states st pending"
    unfolding prior_states_def
  proof (rule map_cong [OF refl])
    fix x
    assume "x \<in> set pending"
    then have "dict_get (st_heap st1) (snd x) = dict_get (st_heap st) (snd x)"
      by (intro h) simp
    then show "(case x of (oid, a) \<Rightarrow> (oid, a, case dict_get (st_heap st1) a of None \<Rightarrow> STATE_NEW | Some e \<Rightarrow> en_state e)) =
        (case x of (oid, a) \<Rightarrow> (oid, a, case dict_get (st_heap st) a of None \<Rightarrow> STATE_NEW | Some e \<Rightarrow> en_state e))"
      by (cases x) simp
  qed
  moreover have "flip_result (p # pending) st st'"
    unfolding flip_result_def
  proof (intro conjI allI)
    show "calm st' = calm st"
      using st'(2) by (simp add: flip_result_def st1_def)
    show "dict_get (st_heap st') b =
        (if b \<in> snd ` set (p # pending) then map_option (with_state STATE_CLEAN) (dict_get (st_heap st) b)
         else dict_get (st_heap st) b)" for b
      using st'(2) Cons.prems(2) by (auto simp: flip_result_def st1_def p)
    show "dict_get (st_registry st') k = Some b \<longrightarrow> (k, b) \<in> set (p # pending) \<or> dict_get (st_registry st) k = Some b" for k b
      using st'(2) by (auto simp: flip_result_def st1_def p split: if_splits)
  qed
  ultimately show ?case
    using st'(1) f by (auto simp: bind_act_def prior_states_def p e)
qed

lemma flip_captured_total:
  assumes "\<forall>(oid, a) \<in> set pending. dict_get (st_heap st) a \<noteq> None" and "distinct (map snd pending)"
  obtains st' where "flip_captured pending st = (Inr (prior_states st pending), st')" and "flip_result pending st st'"
  using flip_fold [OF assms, of "[]"] by (auto simp: flip_captured_def)


section \<open>A capture\<close>

definition take_tid :: "('s, 'c) store \<Rightarrow> ('s, 'c) store" where
  "take_tid st = st\<lparr>st_alloc := (st_alloc st)\<lparr>next_tid_of := next_tid_of (st_alloc st) + 1\<rparr>\<rparr>"

lemma allocate_tid_eq: "allocate_tid st = (Inr (next_tid_of (st_alloc st)), take_tid st)"
  by (simp add: allocate_tid_def next_tid_def take_tid_def)

lemma take_tid_simps [simp]:
  "st_heap (take_tid st) = st_heap st" "st_backend (take_tid st) = st_backend st" "st_new (take_tid st) = st_new st"
  "st_dirty (take_tid st) = st_dirty st" "st_deleted (take_tid st) = st_deleted st"
  "st_consumers (take_tid st) = st_consumers st" "st_last_tid (take_tid st) = st_last_tid st"
  "st_index (take_tid st) = st_index st" "st_registry (take_tid st) = st_registry st" "acting (take_tid st) = acting st"
  "next_tid_of (st_alloc (take_tid st)) = next_tid_of (st_alloc st) + 1"
  "next_oid_of (st_alloc (take_tid st)) = next_oid_of (st_alloc st)"
  "next_cid_of (st_alloc (take_tid st)) = next_cid_of (st_alloc st)"
  "st_root_oid (take_tid st) = st_root_oid st" "st_durable_cids (take_tid st) = st_durable_cids st"
  "st_birth_labels (take_tid st) = st_birth_labels st" "st_prestamp_labels (take_tid st) = st_prestamp_labels st"
  "st_persisted_fields (take_tid st) = st_persisted_fields st" "st_typename_by_cid (take_tid st) = st_typename_by_cid st"
  by (simp_all add: take_tid_def acting_def)

lemma pending_entities_Inr:
  assumes "pending_entities pending st = Inr ents"
  shows "map fst ents = map fst pending" and "\<forall>(oid, a) \<in> set pending. dict_get (st_heap st) a \<noteq> None"
    and "ents = map (\<lambda>(oid, a). (oid, the (dict_get (st_heap st) a))) pending"
proof -
  have *: "list_all2 (\<lambda>(oid, a) (oid', e). oid' = oid \<and> dict_get (st_heap st) a = Some e) pending ents"
    using assms unfolding pending_entities_def
    by (induction pending arbitrary: ents) (auto simp: entity_at_def bind_res_Inr split: sum.splits option.splits)
  show "map fst ents = map fst pending"
    using * by (induction rule: list_all2_induct) auto
  show "\<forall>(oid, a) \<in> set pending. dict_get (st_heap st) a \<noteq> None"
    using * by (induction rule: list_all2_induct) auto
  show "ents = map (\<lambda>(oid, a). (oid, the (dict_get (st_heap st) a))) pending"
    using * by (induction rule: list_all2_induct) auto
qed

lemma validate_entities:
  assumes "validate_before_tid env pending deletes st = (Inr va, st')"
  obtains ents where "pending_entities pending st = Inr ents"
  using assms unfolding validate_before_tid_def by (auto simp: bind_act_Inr)

definition captured ::
    "('s, 'c) senv \<Rightarrow> buffer \<Rightarrow> doomed \<Rightarrow> ('s, 'c) store \<Rightarrow> validated \<Rightarrow> encoded_batch \<Rightarrow> ('s, 'c) store \<Rightarrow>
       capture \<Rightarrow> ('s, 'c) store \<Rightarrow> bool" where
  "captured env pending deletes st va enc st1 c st' \<longleftrightarrow>
     (\<exists>stv. validate_before_tid env pending deletes st = (Inr va, stv) \<and> encode_pending env pending stv = (Inr enc, st1)) \<and>
     (\<exists>priors. read_delta_priors env pending deletes (va_gate va) st1 = Inr priors \<and>
        ca_delta c = delta_of env (ca_tid c) enc priors (take_tid st1)) \<and>
     ca_tid c = next_tid_of (st_alloc st1) \<and> ca_batch c = build_batch (ca_tid c) enc deletes (take_tid st1) \<and>
     ca_entries c = va_entries va \<and> ca_refs c = va_refs va \<and> ca_flipped c = prior_states st1 pending \<and>
     ca_deletes c = deletes \<and> ca_swaps c = eb_swaps enc \<and>
     (\<exists>st3. flip_result pending (take_tid st1) st3 \<and> st' = clear_buffers st3)"

lemma prior_states_take [simp]: "prior_states (take_tid st) pending = prior_states st pending"
  by (simp add: prior_states_def)

lemma capture_batch_cases:
  assumes "capture_batch env pending deletes st = (r, st')" and d: "distinct (map snd pending)"
  shows "(\<exists>err. r = Inl err) \<and> staged st st' \<or>
    (\<exists>c va enc st1. r = Inr c \<and> staged st st1 \<and> captured env pending deletes st va enc st1 c st')"
proof -
  obtain r1 s1 where v: "validate_before_tid env pending deletes st = (r1, s1)"
    using prod.exhaust by blast
  note sv = validate_staged [OF v]
  show ?thesis
  proof (cases r1)
    case (Inl e)
    then have "r = Inl e" "st' = s1"
      using assms(1) v by (simp_all add: capture_batch_def bind_act_def)
    then show ?thesis
      using sv by simp
  next
    case (Inr va)
    obtain r2 s2 where e: "encode_pending env pending s1 = (r2, s2)"
      using prod.exhaust by blast
    have st2: "staged st s2"
      by (rule staged_trans [OF sv encode_pending_staged [OF e]])
    show ?thesis
    proof (cases r2)
      case (Inl err)
      then have "r = Inl err" "st' = s2"
        using assms(1) v Inr e by (simp_all add: capture_batch_def bind_act_def)
      then show ?thesis
        using st2 by simp
    next
      case enc: (Inr enc)
      show ?thesis
      proof (cases "read_delta_priors env pending deletes (va_gate va) s2")
        case (Inl err)
        then have "r = Inl err" "st' = s2"
          using assms(1) v Inr e enc by (simp_all add: capture_batch_def bind_act_def)
        then show ?thesis
          using st2 by simp
      next
        case pr: (Inr priors)
        obtain ents where "pending_entities pending st = Inr ents"
          using validate_entities v Inr by blast
        then have h: "\<forall>(oid, a) \<in> set pending. dict_get (st_heap (take_tid s2)) a \<noteq> None"
          using pending_entities_Inr(2) stage_eqD(1) [OF stagedD [OF st2]] by simp
        obtain st3 where f: "flip_captured pending (take_tid s2) = (Inr (prior_states s2 pending), st3)"
          "flip_result pending (take_tid s2) st3"
          using flip_captured_total [OF h d] by auto
        let ?t = "next_tid_of (st_alloc s2)"
        let ?c = "\<lparr>ca_tid = ?t, ca_batch = build_batch ?t enc deletes (take_tid s2), ca_entries = va_entries va,
          ca_refs = va_refs va, ca_flipped = prior_states s2 pending, ca_delta = delta_of env ?t enc priors (take_tid s2),
          ca_deletes = deletes, ca_swaps = eb_swaps enc\<rparr>"
        have "r = Inr ?c" "st' = clear_buffers st3"
          using assms(1) v Inr e enc pr f(1)
          by (simp_all add: capture_batch_def bind_act_def allocate_tid_eq)
        moreover have "captured env pending deletes st va enc s2 ?c (clear_buffers st3)"
          using v Inr e enc pr f(2) unfolding captured_def by auto
        ultimately show ?thesis
          using st2 by blast
      qed
    qed
  qed
qed

section \<open>The compensation\<close>

lemma rebuffer_one [simp]:
  "dict_get (st_new (rebuffer (k, a, s) st)) oid = (if oid = k \<and> s = STATE_NEW then Some a else dict_get (st_new st) oid)"
  "dict_get (st_dirty (rebuffer (k, a, s) st)) oid =
     (if oid = k then (if s = STATE_NEW then None else Some a) else dict_get (st_dirty st) oid)"
  "dict_get (st_heap (rebuffer (k, a, s) st)) b =
     (if b = a then map_option (with_state (if s = STATE_NEW then STATE_NEW else STATE_DIRTY)) (dict_get (st_heap st) a)
      else dict_get (st_heap st) b)"
  by (auto simp: rebuffer_def)

lemma rebuffer_frame [simp]:
  "st_deleted (rebuffer f st) = st_deleted st" "st_alloc (rebuffer f st) = st_alloc st"
  "st_backend (rebuffer f st) = st_backend st" "st_last_tid (rebuffer f st) = st_last_tid st"
  "st_consumers (rebuffer f st) = st_consumers st" "st_closed (rebuffer f st) = st_closed st"
  "st_index (rebuffer f st) = st_index st" "st_root_oid (rebuffer f st) = st_root_oid st"
  "st_durable_cids (rebuffer f st) = st_durable_cids st" "st_birth_labels (rebuffer f st) = st_birth_labels st"
  "st_cancelled_new (rebuffer f st) = st_cancelled_new st"
  by (simp_all add: rebuffer_def split: prod.split)

lemma rebuffers_frame [simp]:
  "st_deleted (fold rebuffer fl st) = st_deleted st" "st_alloc (fold rebuffer fl st) = st_alloc st"
  "st_backend (fold rebuffer fl st) = st_backend st" "st_last_tid (fold rebuffer fl st) = st_last_tid st"
  "st_consumers (fold rebuffer fl st) = st_consumers st" "st_closed (fold rebuffer fl st) = st_closed st"
  "st_index (fold rebuffer fl st) = st_index st" "st_root_oid (fold rebuffer fl st) = st_root_oid st"
  "st_durable_cids (fold rebuffer fl st) = st_durable_cids st" "st_birth_labels (fold rebuffer fl st) = st_birth_labels st"
  "st_cancelled_new (fold rebuffer fl st) = st_cancelled_new st"
  by (induction fl arbitrary: st) simp_all

lemma rebuffers_new:
  "distinct (map fst fl) \<Longrightarrow> dict_get (st_new (fold rebuffer fl st)) oid =
     (case dict_get fl oid of Some (a, s) \<Rightarrow> if s = STATE_NEW then Some a else dict_get (st_new st) oid
      | None \<Rightarrow> dict_get (st_new st) oid)"
proof (induction fl arbitrary: st)
  case (Cons f fl)
  obtain k a s where f: "f = (k, a, s)"
    by (cases f) auto
  have "dict_get fl k = None"
    using Cons.prems by (simp add: f map_of_eq_None_iff)
  then show ?case
    using Cons.IH [of "rebuffer f st"] Cons.prems by (simp add: f split: option.split)
qed simp

lemma rebuffers_dirty:
  "distinct (map fst fl) \<Longrightarrow> dict_get (st_dirty (fold rebuffer fl st)) oid =
     (case dict_get fl oid of Some (a, s) \<Rightarrow> if s = STATE_NEW then None else Some a
      | None \<Rightarrow> dict_get (st_dirty st) oid)"
proof (induction fl arbitrary: st)
  case (Cons f fl)
  obtain k a s where f: "f = (k, a, s)"
    by (cases f) auto
  have "dict_get fl k = None"
    using Cons.prems by (simp add: f map_of_eq_None_iff)
  then show ?case
    using Cons.IH [of "rebuffer f st"] Cons.prems by (simp add: f split: option.split)
qed simp

lemma rebuffers_heap:
  "distinct (map (fst \<circ> snd) fl) \<Longrightarrow> dict_get (st_heap (fold rebuffer fl st)) b =
     (case dict_get (map snd fl) b of None \<Rightarrow> dict_get (st_heap st) b
      | Some s \<Rightarrow> map_option (with_state (if s = STATE_NEW then STATE_NEW else STATE_DIRTY)) (dict_get (st_heap st) b))"
proof (induction fl arbitrary: st)
  case (Cons f fl)
  obtain k a s where f: "f = (k, a, s)"
    by (cases f) auto
  have "a \<notin> fst ` set (map snd fl)"
    using Cons.prems by (simp add: f image_image)
  then have "dict_get (map snd fl) a = None"
    by (simp only: map_of_eq_None_iff not_False_eq_True)
  then show ?case
    using Cons.IH [of "rebuffer f st"] Cons.prems by (simp add: f split: option.split)
qed simp

end
