(* ===== verification/Store_Session.thy ===== *)
theory Store_Session
  imports Store_Phases
begin

text \<open>
  The invariant of a session and what a commit makes of it, over any backend that keeps the laws of
  \<open>storage_backend\<close>: a commit that fails before its batch is durable is as if it had not been tried,
  a commit that succeeds makes exactly its batch durable.
\<close>

section \<open>The invariant\<close>

text \<open>A buffered entity's state says which buffer holds it; what was never registered is NEW.\<close>

definition states_ok :: "('s, 'c) store \<Rightarrow> bool" where
  "states_ok st \<longleftrightarrow>
     (\<forall>oid a e. dict_get (st_new st) oid = Some a \<longrightarrow> dict_get (st_heap st) a = Some e \<longrightarrow> en_state e = STATE_NEW) \<and>
     (\<forall>oid a e. dict_get (st_dirty st) oid = Some a \<longrightarrow> dict_get (st_heap st) a = Some e \<longrightarrow> en_state e = STATE_DIRTY) \<and>
     (\<forall>a e. dict_get (st_heap st) a = Some e \<longrightarrow> en_oid e = None \<longrightarrow> \<not> en_twin e \<longrightarrow> en_state e = STATE_NEW)"

definition bufs_wf :: "('s, 'c) store \<Rightarrow> bool" where
  "bufs_wf st \<longleftrightarrow> dict_wf (st_new st) \<and> dict_wf (st_dirty st) \<and> dict_wf (st_deleted st)"

text \<open>The registry and the delete buffer name an instance that bears the OID.\<close>

definition names_ok :: "('s, 'c) store \<Rightarrow> bool" where
  "names_ok st \<longleftrightarrow>
     (\<forall>oid a ti. dict_get (st_registry st) oid = Some a \<or> dict_get (st_deleted st) oid = Some (ti, Some a) \<longrightarrow>
        (\<exists>e. dict_get (st_heap st) a = Some e \<and> en_oid e = Some oid))"

definition session_ok :: "('s, 'c) store \<Rightarrow> bool" where
  "session_ok st \<longleftrightarrow> ids_ok st \<and> states_ok st \<and> bufs_wf st \<and> names_ok st"

lemma names_okD:
  assumes "names_ok st"
  shows "dict_get (st_registry st) oid = Some a \<Longrightarrow> \<exists>e. dict_get (st_heap st) a = Some e \<and> en_oid e = Some oid"
    and "dict_get (st_deleted st) oid = Some (ti, Some a) \<Longrightarrow> \<exists>e. dict_get (st_heap st) a = Some e \<and> en_oid e = Some oid"
  using assms unfolding names_ok_def by blast+

lemma names_ok_heap:
  assumes "names_ok st" and "\<And>a e oid. dict_get (st_heap st) a = Some e \<Longrightarrow> en_oid e = Some oid \<Longrightarrow>
      \<exists>e'. dict_get (st_heap st') a = Some e' \<and> en_oid e' = Some oid"
    and "\<And>oid a. dict_get (st_registry st') oid = Some a \<Longrightarrow> dict_get (st_registry st) oid = Some a"
    and "\<And>oid d. dict_get (st_deleted st') oid = Some d \<Longrightarrow> dict_get (st_deleted st) oid = Some d"
  shows "names_ok st'"
  unfolding names_ok_def
proof (intro allI impI)
  fix oid a ti
  assume "dict_get (st_registry st') oid = Some a \<or> dict_get (st_deleted st') oid = Some (ti, Some a)"
  then have "dict_get (st_registry st) oid = Some a \<or> dict_get (st_deleted st) oid = Some (ti, Some a)"
    using assms(3,4) by blast
  then show "\<exists>e. dict_get (st_heap st') a = Some e \<and> en_oid e = Some oid"
    using names_okD [OF assms(1)] assms(2) by blast
qed

lemma states_okD:
  assumes "states_ok st"
  shows "dict_get (st_new st) oid = Some a \<Longrightarrow> dict_get (st_heap st) a = Some e \<Longrightarrow> en_state e = STATE_NEW"
    and "dict_get (st_dirty st) oid = Some a \<Longrightarrow> dict_get (st_heap st) a = Some e \<Longrightarrow> en_state e = STATE_DIRTY"
    and "dict_get (st_heap st) a = Some e \<Longrightarrow> en_oid e = None \<Longrightarrow> \<not> en_twin e \<Longrightarrow> en_state e = STATE_NEW"
  using assms unfolding states_ok_def by blast+

lemma grown_states:
  assumes g: "grown st st'" and ids: "ids_ok st" and ok: "states_ok st"
  shows "states_ok st'"
  unfolding states_ok_def
proof (intro conjI allI impI)
  have back_e: "\<exists>f. dict_get (st_heap st) a = Some f \<and> same_content f e \<and> (en_oid f \<noteq> None \<longrightarrow> en_oid e = en_oid f)"
    if "dict_get (st_heap st') a = Some e" for a e
    using grownD(3) [OF g, of a] that by (cases "dict_get (st_heap st) a") auto
  fix a e
  assume e: "dict_get (st_heap st') a = Some e"
  then obtain f where f: "dict_get (st_heap st) a = Some f" "same_content f e" "en_oid f \<noteq> None \<longrightarrow> en_oid e = en_oid f"
    using back_e by blast
  show "en_state e = STATE_NEW" if "en_oid e = None" "\<not> en_twin e"
    using that f states_okD(3) [OF ok f(1)] by (auto simp: same_content_def)
  show "en_state e = STATE_DIRTY" if "dict_get (st_dirty st') oid = Some a" for oid
    using that f states_okD(2) [OF ok _ f(1)] session_eqD(2) [OF grownD(1) [OF g]] by (auto simp: same_content_def)
  show "en_state e = STATE_NEW" if n: "dict_get (st_new st') oid = Some a" for oid
  proof (cases "oid < next_oid_of (st_alloc st)")
    case True
    then show ?thesis
      using grownD(4) [OF g True] n states_okD(1) [OF ok _ f(1)] f(2) by (auto simp: same_content_def)
  next
    case False
    then show ?thesis
      using grownD(5) [OF g n False] states_okD(3) [OF ok f(1)] f by (auto simp: same_content_def)
  qed
qed

text \<open>Registration keeps the invariant; only its buffers' shape needs the code.\<close>

lemma adopt_new_wf: "adopt_unregistered env a e st = (r, st') \<Longrightarrow> dict_wf (st_new st) \<Longrightarrow> dict_wf (st_new st')"
  by (auto simp: adopt_unregistered_def next_oid_def put_entity_def split: if_splits)

definition wf_kept :: "('s, 'c) store \<Rightarrow> ('s, 'c) store \<Rightarrow> bool" where
  "wf_kept st st' \<longleftrightarrow> (dict_wf (st_new st) \<longrightarrow> dict_wf (st_new st'))"

lemma wf_kept_refl [simp]: "wf_kept st st"
  by (simp add: wf_kept_def)

lemma wf_kept_trans: "wf_kept a b \<Longrightarrow> wf_kept b c \<Longrightarrow> wf_kept a c"
  by (simp add: wf_kept_def)

lemma expand_new: "expand a container fresh oid st = (r, st') \<Longrightarrow> st_new st' = st_new st"
  by (auto simp: expand_def Let_def split: option.splits if_splits)

lemma register_step_wf:
  assumes "register_step env a container walked st = (r, st')"
  shows "wf_kept st st'"
proof (cases "dict_get (st_heap st) a")
  case None
  then show ?thesis
    using assms by (simp add: register_step_def)
next
  case (Some e)
  have ad: "wf_kept s s'" if "(case en_oid e of Some oid \<Rightarrow> return_act oid | None \<Rightarrow> adopt_unregistered env a e) s = (q, s')" for q s s'
    using that adopt_new_wf [of env a e s q s'] by (auto simp: wf_kept_def split: option.splits)
  have ex: "wf_kept s s'" if "(if oid \<in> walked then return_act ([], walked)
      else bind_act (expand a container (en_oid e = None) oid) (\<lambda>found. return_act (found, insert oid walked))) s = (q, s')"
    for oid q s s'
    using that expand_new by (fastforce simp: wf_kept_def bind_act_def split: if_splits sum.splits prod.splits)
  note step = assms [unfolded register_step_def Some option.case]
  show ?thesis
    apply (rule bind_act_rel [where R = wf_kept, OF step])
      apply simp
     apply (erule bind_act_rel [where R = wf_kept])
       apply (erule ad)
      apply (erule ex)
     apply (erule (1) wf_kept_trans)
    apply (erule (1) wf_kept_trans)
    done
qed

lemma register_loop_wf: "register_loop env queue walked st = (r, st') \<Longrightarrow> wf_kept st st'"
proof (induction env queue walked st rule: register_loop.induct)
  case (1 env walked st)
  then show ?case by simp
next
  case (2 env a container queue walked st)
  obtain r1 st1 where s: "register_step env a container walked st = (r1, st1)"
    using prod.exhaust by blast
  show ?case
  proof (cases r1)
    case (Inl err)
    then show ?thesis
      using 2(2) s register_step_wf [OF s] by simp
  next
    case (Inr fw)
    obtain found walked' where fw: "fw = (found, walked')"
      by fastforce
    have "wf_kept st1 st'"
      using 2(1) [OF s [symmetric] Inr fw [symmetric]] 2(2) s Inr fw by simp
    then show ?thesis
      using wf_kept_trans register_step_wf [OF s] by blast
  qed
qed

lemma registers_session:
  assumes "registers st st'" and "wf_kept st st'" and "session_ok st"
  shows "session_ok st' \<and> grown st st'"
proof -
  have g: "ids_ok st'" "grown st st'"
    using assms(1,3) by (auto simp: registers_def session_ok_def)
  have "names_ok st'"
  proof (rule names_ok_heap)
    show "names_ok st"
      using assms(3) by (simp add: session_ok_def)
    show "\<exists>e'. dict_get (st_heap st') a = Some e' \<and> en_oid e' = Some oid"
      if "dict_get (st_heap st) a = Some e" "en_oid e = Some oid" for a e oid
      using that grownD(3) [OF g(2), of a] by auto
  qed (simp_all add: session_eqD [OF grownD(1) [OF g(2)]])
  then show ?thesis
    using g assms(2,3) grown_states session_eqD(2,3) [OF grownD(1) [OF g(2)]]
    by (auto simp: session_ok_def bufs_wf_def wf_kept_def)
qed

lemma register_graph_session:
  assumes "register_graph env a walked st = (r, st')" and "session_ok st"
  shows "session_ok st' \<and> grown st st'"
  using registers_session [OF register_graph_registers [OF assms(1)] register_loop_wf [OF assms(1) [unfolded register_graph_def]] assms(2)] .

lemma discover_session:
  assumes "discover_new_graphs env st = (r, st')" and "session_ok st"
  shows "session_ok st' \<and> grown st st'"
proof -
  have "wf_kept st st'"
    using assms(1) unfolding discover_new_graphs_def
  proof (rule fold_act_rel [where R = wf_kept])
    show "wf_kept s s'" if "register_graph env a w s = (q, s')" for a w s q s'
      using register_loop_wf that by (simp add: register_graph_def del: register_loop.simps)
  qed (simp, erule (1) wf_kept_trans)
  then show ?thesis
    using registers_session [OF discover_registers [OF assms(1)] _ assms(2)] by blast
qed

lemma staged_session: "staged st st' \<Longrightarrow> session_ok st \<Longrightarrow> session_ok st'"
proof -
  assume s: "staged st st'" and ok: "session_ok st"
  note d = stage_eqD [OF stagedD [OF s]]
  have "ids_ok st"
    using ok by (simp add: session_ok_def)
  moreover have "next_oid_of (st_alloc st) \<le> next_oid_of (st_alloc st')"
    using s by (simp add: staged_def)
  ultimately have "ids_ok st'"
    using ids_okD(3) [of st] by (intro ids_ok_same [of st st']) (simp_all only: d)
  then show ?thesis
    using ok by (simp add: session_ok_def states_ok_def bufs_wf_def names_ok_def d)
qed

section \<open>The pending set\<close>

lemma get_merge: "dict_wf d \<Longrightarrow> dict_get (fold (\<lambda>(oid, a). AList.update oid a) d acc) k =
    (case dict_get d k of None \<Rightarrow> dict_get acc k | Some a \<Rightarrow> Some a)"
proof (induction d arbitrary: acc)
  case (Cons p d)
  obtain oid a where p: "p = (oid, a)"
    by fastforce
  have "dict_get d oid = None"
    using Cons.prems by (simp add: p dict_wf_def map_of_eq_None_iff)
  moreover have "dict_wf d"
    using Cons.prems by (simp add: dict_wf_def)
  ultimately show ?case
    using Cons.IH [of "AList.update oid a acc"] by (simp add: p split: option.split)
qed simp

lemma wf_merge: "dict_wf acc \<Longrightarrow> dict_wf (fold (\<lambda>(oid, a). AList.update oid a) d acc)"
  by (induction d arbitrary: acc) (auto split: prod.split)

lemma wf_merge_any: "dict_wf (fold (\<lambda>(oid, x). AList.update oid x) d [])"
proof -
  have "dict_wf acc \<Longrightarrow> dict_wf (fold (\<lambda>(oid, x). AList.update oid x) d acc)" for acc
    by (induction d arbitrary: acc) (auto split: prod.split)
  then show ?thesis
    by simp
qed

lemma pending_wf [simp]: "bufs_wf st \<Longrightarrow> dict_wf (pending_of st)"
  by (simp add: pending_of_def bufs_wf_def wf_merge)

lemma pending_get:
  assumes "bufs_wf st"
  shows "dict_get (pending_of st) oid =
    (if dict_get (st_deleted st) oid \<noteq> None then None
     else case dict_get (st_dirty st) oid of None \<Rightarrow> dict_get (st_new st) oid | Some a \<Rightarrow> Some a)"
  using assms by (auto simp: pending_of_def bufs_wf_def dict_simps get_merge map_of_eq_None_iff)

lemma pending_entity:
  assumes "session_ok st" and "(oid, a) \<in> set (pending_of st)"
  shows "\<exists>e. dict_get (st_heap st) a = Some e \<and> en_oid e = Some oid"
    and "dict_get (st_new st) oid = Some a \<or> dict_get (st_dirty st) oid = Some a"
proof -
  have "dict_get (pending_of st) oid = Some a"
    using assms dict_wf_in_set [of "pending_of st"] by (auto simp: session_ok_def)
  then show b: "dict_get (st_new st) oid = Some a \<or> dict_get (st_dirty st) oid = Some a"
    using assms(1) by (auto simp: session_ok_def pending_get split: if_splits option.splits)
  show "\<exists>e. dict_get (st_heap st) a = Some e \<and> en_oid e = Some oid"
    using ids_okD(3) [OF _ b] assms(1) by (simp add: session_ok_def)
qed

lemma pending_addresses:
  assumes "session_ok st"
  shows "distinct (map snd (pending_of st))"
proof -
  have "dict_wf (pending_of st)"
    using assms by (simp add: session_ok_def)
  then have d: "distinct (pending_of st)" "inj_on fst (set (pending_of st))"
    by (auto simp: dict_wf_def distinct_map)
  have "inj_on snd (set (pending_of st))"
  proof (rule inj_onI)
    fix x y
    assume x: "x \<in> set (pending_of st)" and y: "y \<in> set (pending_of st)" and eq: "snd x = snd y"
    obtain e where e: "dict_get (st_heap st) (snd x) = Some e" "en_oid e = Some (fst x)"
      using pending_entity(1) [OF assms, of "fst x" "snd x"] x by auto
    obtain f where f: "dict_get (st_heap st) (snd y) = Some f" "en_oid f = Some (fst y)"
      using pending_entity(1) [OF assms, of "fst y" "snd y"] y by auto
    have "fst x = fst y"
      using e f eq by simp
    then show "x = y"
      using eq by (simp add: prod_eq_iff)
  qed
  then show ?thesis
    using d(1) by (simp add: distinct_map)
qed

section \<open>The first phase\<close>

lemma p1_cases:
  assumes "p1_capture env st = (r, st')" and ok: "session_ok st"
  obtains (refused) err st0 where "r = Inl err" and "session_ok st0" and "grown st st0" and "staged st0 st'"
    | (idle) "r = Inr None" and "session_ok st'" and "grown st st'" and "pending_of st' = []" and "st_deleted st' = []"
    | (captured) c W st0 va enc st1 where "r = Inr (Some c)" and "discover_new_graphs env st = (Inr W, st0)"
        and "session_ok st0" and "grown st st0" and "staged st0 st1"
        and "captured env (pending_of st0) (st_deleted st0) st0 va enc st1 c st'"
proof (cases "assert_lease_held st")
  case (Inl err)
  then have "r = Inl err" "st' = st"
    using assms(1) by (simp_all add: p1_capture_def bind_act_def)
  then show thesis
    using refused [of err st] ok by (simp add: session_ok_def)
next
  case l: (Inr u)
  obtain r0 st0 where d: "discover_new_graphs env st = (r0, st0)"
    using prod.exhaust by blast
  note g = discover_session [OF d ok]
  show thesis
  proof (cases r0)
    case (Inl err)
    then have "r = Inl err" "st' = st0"
      using assms(1) l d by (simp_all add: p1_capture_def bind_act_def)
    then show thesis
      using refused [of err st0] g by simp
  next
    case (Inr W)
    show thesis
    proof (cases "pending_of st0 = [] \<and> st_deleted st0 = []")
      case True
      then have "r = Inr None" "st' = st0"
        using assms(1) l d Inr by (simp_all add: p1_capture_def bind_act_def doomed_of_def)
      then show thesis
        using idle g True by simp
    next
      case False
      obtain r2 where c: "capture_batch env (pending_of st0) (st_deleted st0) st0 = (r2, st')"
        and r: "r = map_sum id Some r2"
        using assms(1) l d Inr False
        by (cases "capture_batch env (pending_of st0) (st_deleted st0) st0")
          (auto simp: p1_capture_def bind_act_def doomed_of_def Let_def split: sum.splits)
      from capture_batch_cases [OF c pending_addresses] g show thesis
        using refused [of _ st0] captured [of _ W st0] r d Inr by fastforce
    qed
  qed
qed


section \<open>A failed second phase\<close>

definition state_at :: "('s, 'c) store \<Rightarrow> nat \<Rightarrow> estate" where
  "state_at st a = (case dict_get (st_heap st) a of None \<Rightarrow> STATE_NEW | Some e \<Rightarrow> en_state e)"

lemma prior_states_simps [simp]:
  "map fst (prior_states st p) = map fst p" "map (fst \<circ> snd) (prior_states st p) = map snd p"
  by (auto simp: prior_states_def)

lemma prior_states_get: "dict_get (prior_states st p) oid = map_option (\<lambda>a. (a, state_at st a)) (dict_get p oid)"
  by (induction p) (auto simp: prior_states_def state_at_def)

lemma prior_states_by_address:
  "dict_get (map snd (prior_states st p)) b = (if b \<in> snd ` set p then Some (state_at st b) else None)"
  by (induction p) (auto simp: prior_states_def state_at_def)

text \<open>The session before and after agree on what is buffered and on every live entity.\<close>

definition as_before :: "('s, 'c) store \<Rightarrow> ('s, 'c) store \<Rightarrow> bool" where
  "as_before st st' \<longleftrightarrow>
     (\<forall>a. dict_get (st_heap st') a = dict_get (st_heap st) a) \<and>
     (\<forall>oid. dict_get (st_deleted st') oid = dict_get (st_deleted st) oid) \<and>
     (\<forall>oid. dict_get (st_deleted st) oid = None \<longrightarrow>
        dict_get (st_new st') oid = dict_get (st_new st) oid \<and> dict_get (st_dirty st') oid = dict_get (st_dirty st) oid) \<and>
     next_tid_of (st_alloc st') = next_tid_of (st_alloc st) \<and> st_last_tid st' = st_last_tid st \<and>
     st_consumers st' = st_consumers st"

lemma captured_state:
  assumes "captured env pending deletes st va enc st1 c st2" and "staged st st1"
  shows "\<And>b. dict_get (st_heap st2) b = (if b \<in> snd ` set pending
      then map_option (with_state STATE_CLEAN) (dict_get (st_heap st) b) else dict_get (st_heap st) b)"
    and "st_new st2 = []" "st_dirty st2 = []" "st_deleted st2 = []" "st_backend st2 = st_backend st"
    "st_last_tid st2 = st_last_tid st" "st_consumers st2 = st_consumers st"
    "next_tid_of (st_alloc st2) = next_tid_of (st_alloc st) + 1" "st_index st2 = st_index st1"
    "ca_tid c = next_tid_of (st_alloc st)" "ca_flipped c = prior_states st pending" "ca_deletes c = deletes"
    "next_oid_of (st_alloc st2) = next_oid_of (st_alloc st1)" "st_root_oid st2 = st_root_oid st"
    "st_durable_cids st2 = st_durable_cids st" "acting st2 = acting st"
    "\<And>oid a. dict_get (st_registry st2) oid = Some a \<Longrightarrow> (oid, a) \<in> set pending \<or> dict_get (st_registry st) oid = Some a"
proof -
  note d = stage_eqD [OF stagedD [OF assms(2)]]
  obtain st3 where st3: "flip_result pending (take_tid st1) st3" "st2 = clear_buffers st3"
    using assms(1) by (auto simp: captured_def)
  have k: "calm st3 = calm (take_tid st1)"
    using st3(1) by (simp add: flip_result_def)
  note f = calm_eqD [OF k]
  show "\<And>b. dict_get (st_heap st2) b = (if b \<in> snd ` set pending
      then map_option (with_state STATE_CLEAN) (dict_get (st_heap st) b) else dict_get (st_heap st) b)"
    using st3 d(1) by (simp add: flip_result_def clear_buffers_def)
  show "st_new st2 = []" "st_dirty st2 = []" "st_deleted st2 = []" "st_backend st2 = st_backend st"
    "st_last_tid st2 = st_last_tid st" "st_consumers st2 = st_consumers st"
    "next_tid_of (st_alloc st2) = next_tid_of (st_alloc st) + 1" "st_index st2 = st_index st1"
    "next_oid_of (st_alloc st2) = next_oid_of (st_alloc st1)" "st_root_oid st2 = st_root_oid st"
    "st_durable_cids st2 = st_durable_cids st"
    by (simp_all add: st3(2) clear_buffers_def f d)
  have "acting (clear_buffers st3) = acting st3"
    by (simp add: clear_buffers_def acting_def)
  then show "acting st2 = acting st"
    using f(19) d(17) by (simp add: st3(2))
  show "dict_get (st_registry st2) oid = Some a \<Longrightarrow> (oid, a) \<in> set pending \<or> dict_get (st_registry st) oid = Some a" for oid a
    using st3 d(7) by (simp add: flip_result_def clear_buffers_def)
  show "ca_tid c = next_tid_of (st_alloc st)" "ca_deletes c = deletes"
    using assms(1) d by (auto simp: captured_def)
  show "ca_flipped c = prior_states st pending"
    using assms(1) d(1) by (simp add: captured_def prior_states_def)
qed

lemma get_merge_doomed: "dict_wf d \<Longrightarrow> dict_get (fold (\<lambda>(oid, x). AList.update oid x) d []) k = dict_get d k"
proof -
  have "dict_wf d \<Longrightarrow> dict_get (fold (\<lambda>(oid, x). AList.update oid x) d acc) k =
      (case dict_get d k of None \<Rightarrow> dict_get acc k | Some x \<Rightarrow> Some x)" for acc
  proof (induction d arbitrary: acc)
    case (Cons p d)
    obtain oid x where p: "p = (oid, x)"
      by fastforce
    have "dict_get d oid = None" "dict_wf d"
      using Cons.prems by (simp_all add: p dict_wf_def map_of_eq_None_iff)
    then show ?case
      using Cons.IH [of "AList.update oid x acc"] by (simp add: p split: option.split)
  qed simp
  then show "dict_wf d \<Longrightarrow> ?thesis"
    by (simp split: option.split)
qed

lemma rollback_exact:
  assumes cap: "captured env (pending_of st) (st_deleted st) st va enc st1 c st2" and st: "staged st st1" and ok: "session_ok st"
  shows "as_before st (p2_rollback c (st2\<lparr>st_backend := b\<rparr>))"
    and "st_backend (p2_rollback c (st2\<lparr>st_backend := b\<rparr>)) = b"
    and "st_root_oid (p2_rollback c (st2\<lparr>st_backend := b\<rparr>)) = st_root_oid st"
    and "st_durable_cids (p2_rollback c (st2\<lparr>st_backend := b\<rparr>)) = st_durable_cids st"
proof -
  note c = captured_state [OF cap st]
  let ?p = "pending_of st"
  let ?s = "st2\<lparr>st_backend := b, st_alloc := (st_alloc st2)\<lparr>next_tid_of := ca_tid c\<rparr>\<rparr>"
  let ?t = "fold rebuffer (ca_flipped c) ?s"
  let ?r = "p2_rollback c (st2\<lparr>st_backend := b\<rparr>)"
  have wf: "bufs_wf st" "ids_ok st" "states_ok st"
    using ok by (auto simp: session_ok_def)
  have r: "?r = ?t\<lparr>st_deleted := fold (\<lambda>(oid, d). AList.update oid d) (st_deleted st) []\<rparr>"
    using c(4,12) by (simp add: p2_rollback_def Let_def)
  have dk: "distinct (map fst (ca_flipped c))" "distinct (map (fst \<circ> snd) (ca_flipped c))"
    using pending_wf [OF wf(1)] pending_addresses [OF ok] by (simp_all add: c(11) dict_wf_def)
  have kind: "state_at st a = (if dict_get (st_new st) oid = Some a then STATE_NEW else STATE_DIRTY)"
    if "(oid, a) \<in> set ?p" for oid a
    using pending_entity [OF ok that] states_okD(1,2) [OF wf(3)] by (auto simp: state_at_def)
  have heap: "dict_get (st_heap ?t) a = dict_get (st_heap st) a" for a
  proof (cases "a \<in> snd ` set ?p")
    case True
    then obtain oid where o': "(oid, a) \<in> set ?p"
      by auto
    then obtain e where e: "dict_get (st_heap st) a = Some e"
      using pending_entity(1) [OF ok] by blast
    have "state_at st a = STATE_NEW \<or> state_at st a = STATE_DIRTY"
      using kind [OF o'] by simp
    then show ?thesis
      using True e rebuffers_heap [OF dk(2), of ?s a] by (auto simp: c(1,11) prior_states_by_address state_at_def)
  next
    case False
    then show ?thesis
      using rebuffers_heap [OF dk(2), of ?s a] by (simp add: c(1,11) prior_states_by_address)
  qed
  have get: "dict_get ?p oid = (case dict_get (st_dirty st) oid of None \<Rightarrow> dict_get (st_new st) oid | Some a \<Rightarrow> Some a)"
    if "dict_get (st_deleted st) oid = None" for oid
    using pending_get [OF wf(1), of oid] that by simp
  have bufs: "dict_get (st_new ?t) oid = dict_get (st_new st) oid \<and> dict_get (st_dirty ?t) oid = dict_get (st_dirty st) oid"
    if d: "dict_get (st_deleted st) oid = None" for oid
  proof (cases "dict_get ?p oid")
    case None
    then show ?thesis
      using get [OF d] rebuffers_new [OF dk(1), of ?s oid] rebuffers_dirty [OF dk(1), of ?s oid]
      by (simp add: c(2,3,11) prior_states_get split: option.splits)
  next
    case (Some a)
    then have m: "(oid, a) \<in> set ?p"
      by (rule map_of_SomeD)
    obtain e where e: "dict_get (st_heap st) a = Some e"
      using pending_entity(1) [OF ok m] by blast
    have excl: "\<not> (dict_get (st_new st) oid = Some a \<and> dict_get (st_dirty st) oid = Some a)"
      using states_okD(1,2) [OF wf(3) _ e] by fastforce
    have same: "dict_get (st_new st) oid = None" if y: "dict_get (st_dirty st) oid = Some a"
    proof (cases "dict_get (st_new st) oid")
      case x: (Some x)
      then have "x = a"
        using ids_okD(2,3) [OF wf(2)] y by metis
      then show ?thesis
        using excl x y by simp
    qed
    show ?thesis
      using Some get [OF d] kind [OF m] excl same pending_entity(2) [OF ok m]
        rebuffers_new [OF dk(1), of ?s oid] rebuffers_dirty [OF dk(1), of ?s oid]
      by (auto simp: c(2,3,11) prior_states_get split: option.splits)
  qed
  show "as_before st ?r"
    unfolding as_before_def r using heap bufs get_merge_doomed wf(1)
    by (auto simp: bufs_wf_def c(6,7,10))
  show "st_backend ?r = b" "st_root_oid ?r = st_root_oid st" "st_durable_cids ?r = st_durable_cids st"
    by (simp_all add: r c(14,15))
qed


lemma as_before_session:
  assumes a: "as_before st st'" and ok: "session_ok st" and n: "next_oid_of (st_alloc st) \<le> next_oid_of (st_alloc st')"
    and wf: "bufs_wf st'"
    and dead: "\<And>oid. dict_get (st_deleted st) oid \<noteq> None \<Longrightarrow> dict_get (st_new st') oid = None \<and> dict_get (st_dirty st') oid = None"
    and reg: "\<And>oid a. dict_get (st_registry st') oid = Some a \<Longrightarrow> (oid, a) \<in> set (pending_of st) \<or> dict_get (st_registry st) oid = Some a"
  shows "session_ok st'"
proof -
  have i: "ids_ok st" and s: "states_ok st"
    using ok by (auto simp: session_ok_def)
  have h: "dict_get (st_heap st') a = dict_get (st_heap st) a" for a
    using a by (simp add: as_before_def)
  have b: "dict_get (st_new st') oid = Some x \<Longrightarrow> dict_get (st_new st) oid = Some x"
    "dict_get (st_dirty st') oid = Some x \<Longrightarrow> dict_get (st_dirty st) oid = Some x" for oid x
    using a dead [of oid] by (cases "dict_get (st_deleted st) oid"; auto simp: as_before_def)+
  have "ids_ok st'"
    using b ids_okD(3) [OF i] by (intro ids_ok_same [OF i _ n]) (auto simp: h)
  moreover have "states_ok st'"
    unfolding states_ok_def h using b states_okD [OF s] by blast
  moreover have "names_ok st'"
    unfolding names_ok_def h
  proof (intro allI impI)
    fix oid x ti
    assume "dict_get (st_registry st') oid = Some x \<or> dict_get (st_deleted st') oid = Some (ti, Some x)"
    then have "(oid, x) \<in> set (pending_of st) \<or> dict_get (st_registry st) oid = Some x \<or> dict_get (st_deleted st) oid = Some (ti, Some x)"
      using reg a by (auto simp: as_before_def)
    then show "\<exists>e. dict_get (st_heap st) x = Some e \<and> en_oid e = Some oid"
      using pending_entity(1) [OF ok] names_okD [of st] ok by (auto simp: session_ok_def)
  qed
  ultimately show ?thesis
    using wf by (simp add: session_ok_def)
qed

lemma rebuffer_wf: "dict_wf (st_new st) \<and> dict_wf (st_dirty st) \<Longrightarrow> dict_wf (st_new (rebuffer f st)) \<and> dict_wf (st_dirty (rebuffer f st))"
  by (auto simp: rebuffer_def split: prod.split)

lemma rebuffers_wf:
  "dict_wf (st_new st) \<and> dict_wf (st_dirty st) \<Longrightarrow> dict_wf (st_new (fold rebuffer fl st)) \<and> dict_wf (st_dirty (fold rebuffer fl st))"
proof (induction fl arbitrary: st)
  case (Cons f fl)
  then show ?case
    using rebuffer_wf [of st f] by simp
qed simp

lemma rollback_dead:
  assumes cap: "captured env (pending_of st) (st_deleted st) st va enc st1 c st2" and st: "staged st st1" and ok: "session_ok st"
    and dead: "dict_get (st_deleted st) oid \<noteq> None"
  shows "dict_get (st_new (p2_rollback c (st2\<lparr>st_backend := b\<rparr>))) oid = None \<and>
      dict_get (st_dirty (p2_rollback c (st2\<lparr>st_backend := b\<rparr>))) oid = None"
proof -
  note c = captured_state [OF cap st]
  let ?s = "st2\<lparr>st_backend := b, st_alloc := (st_alloc st2)\<lparr>next_tid_of := ca_tid c\<rparr>\<rparr>"
  have wf: "bufs_wf st"
    using ok by (simp add: session_ok_def)
  have "dict_get (pending_of st) oid = None"
    using pending_get [OF wf, of oid] dead by simp
  then have n: "dict_get (ca_flipped c) oid = None"
    by (simp add: c(11) prior_states_get)
  have dk: "distinct (map fst (ca_flipped c))"
    using pending_wf [OF wf] by (simp add: c(11) dict_wf_def)
  show ?thesis
    using n rebuffers_new [OF dk, of ?s oid] rebuffers_dirty [OF dk, of ?s oid] c(2,3)
    by (simp add: p2_rollback_def Let_def)
qed

lemma rollback_session:
  assumes cap: "captured env (pending_of st) (st_deleted st) st va enc st1 c st2" and st: "staged st st1" and ok: "session_ok st"
  shows "session_ok (p2_rollback c (st2\<lparr>st_backend := b\<rparr>))"
proof (rule as_before_session [OF rollback_exact(1) [OF assms] ok])
  note c = captured_state [OF cap st]
  let ?s = "st2\<lparr>st_backend := b, st_alloc := (st_alloc st2)\<lparr>next_tid_of := ca_tid c\<rparr>\<rparr>"
  have wf: "bufs_wf st"
    using ok by (simp add: session_ok_def)
  show "next_oid_of (st_alloc st) \<le> next_oid_of (st_alloc (p2_rollback c (st2\<lparr>st_backend := b\<rparr>)))"
    using st c(13) by (simp add: p2_rollback_def Let_def staged_def)
  have "dict_wf (fold (\<lambda>(oid, d). AList.update oid d) (st_deleted st) [])"
    by (rule wf_merge_any)
  then show "bufs_wf (p2_rollback c (st2\<lparr>st_backend := b\<rparr>))"
    using rebuffers_wf [of ?s "ca_flipped c"] c(2-4,12) by (simp add: bufs_wf_def p2_rollback_def Let_def)
  have reg: "st_registry (fold rebuffer fl s) = st_registry s" for fl and s :: "('a, 'b) store"
    by (induction fl arbitrary: s) (auto simp: rebuffer_def split: prod.splits)
  show "(oid, a) \<in> set (pending_of st) \<or> dict_get (st_registry st) oid = Some a"
    if "dict_get (st_registry (p2_rollback c (st2\<lparr>st_backend := b\<rparr>))) oid = Some a" for oid a
    using that c(17) by (simp add: p2_rollback_def Let_def reg)
qed (rule rollback_dead [OF assms])

section \<open>The outcomes of a commit\<close>

text \<open>Every write that was buffered still is, with the values it had.\<close>

definition buffers_kept :: "('s, 'c) store \<Rightarrow> ('s, 'c) store \<Rightarrow> bool" where
  "buffers_kept st st' \<longleftrightarrow>
     (\<forall>oid. dict_get (st_deleted st') oid = dict_get (st_deleted st) oid) \<and>
     (\<forall>oid a. dict_get (st_deleted st) oid = None \<longrightarrow>
        (dict_get (st_new st) oid = Some a \<longrightarrow> dict_get (st_new st') oid = Some a) \<and>
        dict_get (st_dirty st') oid = dict_get (st_dirty st) oid) \<and>
     (\<forall>a e. dict_get (st_heap st) a = Some e \<longrightarrow> (\<exists>e'. dict_get (st_heap st') a = Some e' \<and> same_content e e'))"

lemma grown_kept:
  assumes g: "grown st st0" and i: "ids_ok st"
  shows "buffers_kept st st0"
  unfolding buffers_kept_def
proof (intro conjI allI impI)
  note d = session_eqD [OF grownD(1) [OF g]]
  show "dict_get (st_deleted st0) oid = dict_get (st_deleted st) oid"
    "dict_get (st_dirty st0) oid = dict_get (st_dirty st) oid" for oid
    by (simp_all add: d)
  show "dict_get (st_new st0) oid = Some a" if "dict_get (st_new st) oid = Some a" for oid a
    using grownD(4) [OF g new_below [OF i that]] that by simp
  show "\<exists>e'. dict_get (st_heap st0) a = Some e' \<and> same_content e e'" if "dict_get (st_heap st) a = Some e" for a e
    using grownD(3) [OF g, of a] that by auto
qed

lemma same_content_trans: "same_content a b \<Longrightarrow> same_content b c \<Longrightarrow> same_content a c"
  by (simp add: same_content_def)

lemma kept_trans_staged: "buffers_kept st st0 \<Longrightarrow> staged st0 st' \<Longrightarrow> buffers_kept st st'"
  using stage_eqD(1,3-5) [OF stagedD, of st0 st'] by (simp add: buffers_kept_def)

lemma kept_trans_before:
  assumes "buffers_kept st st0" and "as_before st0 st'"
  shows "buffers_kept st st'"
  using assms unfolding buffers_kept_def as_before_def by auto

text \<open>What a session is while a batch is being made durable, and what the batch holds.\<close>

definition durable_effect ::
    "('s, 'c) senv \<Rightarrow> ('s, 'c) store \<Rightarrow> nat \<Rightarrow> (nat \<Rightarrow> stored_record option) \<Rightarrow> (nat \<Rightarrow> stored_record option) \<Rightarrow> bool" where
  "durable_effect env st tid before after \<longleftrightarrow>
     (\<forall>oid. case dict_get (st_deleted st) oid of
        Some _ \<Rightarrow> after oid = None
      | None \<Rightarrow>
          (case dict_get (pending_of st) oid of
             None \<Rightarrow> after oid = before oid
           | Some a \<Rightarrow> (\<exists>rec. after oid = Some rec \<and> sr_tid rec = tid \<and> sr_oid rec = oid \<and>
               encodes env st (oid, a) (oid, sr_cid rec, sr_payload rec))))"

lemma stamp_oids: "map sr_oid (stamp_records tid enc) = map fst (eb_records enc)"
  by (auto simp: stamp_records_def)

lemma captured_effect:
  assumes cap: "captured env (pending_of st) (st_deleted st) st va enc st1 c st2" and st: "staged st st1" and ok: "session_ok st"
  shows "durable_effect env st (ca_tid c) before (\<lambda>oid. batch_effect (ca_batch c) oid (before oid))"
  unfolding durable_effect_def
proof (intro allI)
  fix oid
  have wf: "bufs_wf st"
    using ok by (simp add: session_ok_def)
  obtain stv where e: "encode_pending env (pending_of st) stv = (Inr enc, st1)" "validate_before_tid env (pending_of st) (st_deleted st) st = (Inr va, stv)"
    and b: "ca_batch c = build_batch (ca_tid c) enc (st_deleted st) (take_tid st1)"
    using cap by (auto simp: captured_def)
  have "encodes env stv = encodes env st"
    using stage_eqD(1) [OF stagedD [OF validate_staged [OF e(2)]]] by (rule encodes_heap)
  then have recs: "list_all2 (encodes env st) (pending_of st) (eb_records enc)"
    using encode_pending_records [OF e(1)] by simp
  have oids: "map sr_oid (cb_records (ca_batch c)) = map fst (pending_of st)"
    using encodes_oids [OF recs] by (simp add: b build_batch_def stamp_oids)
  have dist: "distinct (map sr_oid (cb_records (ca_batch c)))"
    using pending_wf [OF wf] by (simp add: oids dict_wf_def)
  have dels: "set (cb_deletes (ca_batch c)) = {oid. dict_get (st_deleted st) oid \<noteq> None}"
    by (auto simp: b build_batch_def map_of_eq_None_iff)
  show "case dict_get (st_deleted st) oid of
      Some _ \<Rightarrow> batch_effect (ca_batch c) oid (before oid) = None
    | None \<Rightarrow> (case dict_get (pending_of st) oid of
        None \<Rightarrow> batch_effect (ca_batch c) oid (before oid) = before oid
      | Some a \<Rightarrow> (\<exists>rec. batch_effect (ca_batch c) oid (before oid) = Some rec \<and> sr_tid rec = ca_tid c \<and> sr_oid rec = oid \<and>
          encodes env st (oid, a) (oid, sr_cid rec, sr_payload rec)))"
  proof (cases "dict_get (st_deleted st) oid")
    case (Some d)
    then show ?thesis
      by (simp add: batch_effect_def dels)
  next
    case None
    then have nd: "oid \<notin> set (cb_deletes (ca_batch c))"
      by (simp add: dels)
    show ?thesis
    proof (cases "dict_get (pending_of st) oid")
      case n: None
      then have "oid \<notin> fst ` set (pending_of st)"
        by (simp add: map_of_eq_None_iff)
      then have "last_with sr_oid (cb_records (ca_batch c)) oid = None"
        using oids by (metis last_with_None set_map)
      then show ?thesis
        using None n nd by (simp add: batch_effect_def)
    next
      case a: (Some a)
      then have "(oid, a) \<in> set (pending_of st)"
        by (rule map_of_SomeD)
      then obtain i where i: "i < length (pending_of st)" "pending_of st ! i = (oid, a)"
        by (auto simp: in_set_conv_nth)
      obtain o' cid payload where r: "eb_records enc ! i = (o', cid, payload)"
        by (cases "eb_records enc ! i") auto
      have en: "encodes env st (oid, a) (o', cid, payload)"
        using list_all2_nthD [OF recs i(1)] i(2) r by simp
      then have o': "o' = oid"
        by (simp add: encodes_def)
      let ?rec = "\<lparr>sr_oid = oid, sr_cid = cid, sr_tid = ca_tid c, sr_payload = payload\<rparr>"
      have "i < length (eb_records enc)"
        using i(1) list_all2_lengthD [OF recs] by simp
      then have "(oid, cid, payload) \<in> set (eb_records enc)"
        using nth_mem r o' by metis
      then have "?rec \<in> set (cb_records (ca_batch c))"
        unfolding b build_batch_def stamp_records_def by force
      then have "last_with sr_oid (cb_records (ca_batch c)) oid = Some ?rec"
        using last_with_distinct [OF dist, of ?rec] by simp
      then show ?thesis
        using None a nd en o' by (simp add: batch_effect_def)
    qed
  qed
qed

end
