(* ===== verification/Store_Outcome.thy ===== *)
theory Store_Outcome
  imports Store_Session
begin

text \<open>
  The last phase, and the outcomes of a whole commit over a backend that keeps the laws of
  \<open>storage_backend\<close>. The locale \<open>session_backend\<close> is that contract together with a session's
  environment that uses the backend; the memory and the SQLite backend are its interpretations.
\<close>

section \<open>The last phase\<close>

text \<open>Changes of the heap that keep every OID and every buffer.\<close>

definition same_oids :: "('s, 'c) store \<Rightarrow> ('s, 'c) store \<Rightarrow> bool" where
  "same_oids st st' \<longleftrightarrow> st_new st' = st_new st \<and> st_dirty st' = st_dirty st \<and> st_deleted st' = st_deleted st \<and>
     st_alloc st' = st_alloc st \<and> st_backend st' = st_backend st \<and> st_last_tid st' = st_last_tid st \<and>
     st_consumers st' = st_consumers st \<and> st_index st' = st_index st \<and> st_root_oid st' = st_root_oid st \<and>
     (\<forall>b. map_option en_oid (dict_get (st_heap st') b) = map_option en_oid (dict_get (st_heap st) b)) \<and>
     (\<forall>oid a. dict_get (st_registry st') oid = Some a \<longrightarrow> dict_get (st_registry st) oid = Some a)"

lemma same_oids_refl [simp]: "same_oids st st"
  by (simp add: same_oids_def)

lemma same_oids_trans: "same_oids a b \<Longrightarrow> same_oids b c \<Longrightarrow> same_oids a c"
  by (auto simp: same_oids_def)

lemma bury_same: "same_oids st (bury d st)"
  by (cases d) (auto simp: bury_def same_oids_def Let_def option.map_comp o_def split: option.splits)

lemma swap_same: "same_oids st (swap_blob w st)"
  by (cases w) (auto simp: swap_blob_def same_oids_def map_entity_def put_entity_def split: option.splits)

lemma fold_same:
  assumes "\<And>x st. same_oids st (f x st)"
  shows "same_oids st (fold f xs st)"
proof (induction xs arbitrary: st)
  case (Cons x xs)
  then show ?case
    by simp (rule same_oids_trans [OF assms Cons.IH])
qed simp

lemma settle_same:
  obtains st1 where "same_oids st st1" and "settle_durable c st = st1\<lparr>st_last_tid := ca_tid c\<rparr>"
proof -
  let ?s1 = "fold bury (ca_deletes c) st"
  let ?s2 = "?s1\<lparr>st_pending_upserts := [],
     st_prestamp_labels := dict_pop_all (map fst (ca_flipped c)) (st_prestamp_labels ?s1),
     st_durable_cids := st_durable_cids ?s1 \<union> fst ` set (cb_types (ca_batch c))\<rparr>"
  have "same_oids st ?s1"
    by (rule fold_same [OF bury_same])
  moreover have "same_oids ?s1 ?s2"
    by (simp add: same_oids_def)
  moreover have "same_oids ?s2 (fold swap_blob (ca_swaps c) ?s2)"
    by (rule fold_same [OF swap_same])
  ultimately have "same_oids st (fold swap_blob (ca_swaps c) ?s2)"
    using same_oids_trans by blast
  then show thesis
    using that by (simp add: settle_durable_def Let_def)
qed

text \<open>With empty buffers, OIDs and the registry are all the invariant speaks of, but for unregistered entities.\<close>

definition unborn_new :: "('s, 'c) store \<Rightarrow> bool" where
  "unborn_new st \<longleftrightarrow>
     (\<forall>a e. dict_get (st_heap st) a = Some e \<longrightarrow> en_oid e = None \<longrightarrow> \<not> en_twin e \<longrightarrow> en_state e = STATE_NEW)"

definition born :: "('s, 'c) store \<Rightarrow> nat \<Rightarrow> bool" where
  "born st a \<longleftrightarrow> (\<exists>e k. dict_get (st_heap st) a = Some e \<and> en_oid e = Some k)"

lemma empty_session_ok:
  assumes "ids_ok st" and "names_ok st" and "unborn_new st" and "st_new st = []" and "st_dirty st = []" and "st_deleted st = []"
  shows "session_ok st"
  using assms by (auto simp: session_ok_def states_ok_def bufs_wf_def unborn_new_def)

lemma bury_unborn:
  assumes "unborn_new st"
    and "\<And>a. (case obj of Some a \<Rightarrow> Some a | None \<Rightarrow> dict_get (st_registry st) oid) = Some a \<Longrightarrow>
      born st a"
  shows "unborn_new (bury (oid, ti, obj) st)"
  using assms
  by (fastforce simp: bury_def unborn_new_def born_def Let_def split: option.splits if_splits)

lemma buries_unborn:
  assumes "unborn_new st" and "\<And>oid a. dict_get (st_registry st) oid = Some a \<Longrightarrow> born st a"
    and "\<And>oid ti a. (oid, ti, Some a) \<in> set ds \<Longrightarrow> born st a"
  shows "unborn_new (fold bury ds st)"
  using assms
proof (induction ds arbitrary: st)
  case (Cons d ds)
  obtain oid ti obj where d: "d = (oid, ti, obj)"
    by (cases d) auto
  have s: "same_oids st (bury d st)"
    by (rule bury_same)
  have k: "born (bury d st) a"
    if "born st a" for a
  proof -
    have "map_option en_oid (dict_get (st_heap (bury d st)) a) = map_option en_oid (dict_get (st_heap st) a)"
      using s by (simp add: same_oids_def)
    then show ?thesis
      using that by (auto simp: born_def)
  qed
  have "unborn_new (bury d st)"
    unfolding d
  proof (rule bury_unborn [OF Cons.prems(1)])
    fix a
    assume "(case obj of None \<Rightarrow> dict_get (st_registry st) oid | Some a \<Rightarrow> Some a) = Some a"
    then have "dict_get (st_registry st) oid = Some a \<or> obj = Some a"
      by (auto split: option.splits)
    then show "born st a"
      using Cons.prems(2) [of oid a] Cons.prems(3) [of oid ti a] d by auto
  qed
  moreover have "born (bury d st) a"
    if r: "dict_get (st_registry (bury d st)) oid = Some a" for oid a
  proof (rule k)
    have "dict_get (st_registry st) oid = Some a"
      using s r by (simp add: same_oids_def)
    then show "born st a"
      by (rule Cons.prems(2))
  qed
  moreover have "born (bury d st) a"
    if "(oid, ti, Some a) \<in> set ds" for oid ti a
    using that Cons.prems(3) by (intro k) auto
  ultimately show ?case
    using Cons.IH by simp
qed simp

lemma unborn_new_last: "unborn_new (st\<lparr>st_last_tid := t\<rparr>) = unborn_new st"
  by (simp add: unborn_new_def)

lemma swaps_unborn: "unborn_new st \<Longrightarrow> unborn_new (fold swap_blob ws st)"
proof (induction ws arbitrary: st)
  case (Cons w ws)
  have "unborn_new (swap_blob w st)"
    using Cons.prems by (cases w) (auto simp: swap_blob_def map_entity_def unborn_new_def split: option.splits if_splits)
  then show ?case
    using Cons.IH by simp
qed simp

lemma same_oids_ids:
  assumes "same_oids st st'" and "ids_ok st" and "names_ok st"
  shows "ids_ok st'" and "names_ok st'"
proof -
  show "ids_ok st'"
    using assms ids_okD(3) [OF assms(2)] by (intro ids_ok_same [OF assms(2)]) (auto simp: same_oids_def)
  show "names_ok st'"
  proof (rule names_ok_heap [OF assms(3)])
    show "\<exists>e'. dict_get (st_heap st') a = Some e' \<and> en_oid e' = Some oid"
      if "dict_get (st_heap st) a = Some e" "en_oid e = Some oid" for a e oid
    proof -
      have "map_option en_oid (dict_get (st_heap st') a) = Some (Some oid)"
        using assms(1) that by (simp add: same_oids_def)
      then show ?thesis
        by auto
    qed
  qed (use assms(1) in \<open>auto simp: same_oids_def\<close>)
qed

text \<open>What the last phase returns with.\<close>

lemma p3_finalize_Inr:
  assumes "p3_finalize env c st = (Inr tid, st')"
  obtains im st1 where "commit_folds (ca_entries c) (ca_refs c) (map (\<lambda>(oid, ti, obj). (oid, ti)) (ca_deletes c)) (st_index st) = Inr im"
    and "tid = ca_tid c" and "st1 = settle_durable c (st\<lparr>st_index := im\<rparr>)"
    and "st' = (case ca_delta c of None \<Rightarrow> st1 | Some d \<Rightarrow> deliver env d st1)"
  using assms by (auto simp: p3_finalize_def Let_def split: sum.splits)

lemma deliver_frame [simp]:
  "st_heap (deliver env d st) = st_heap st" "st_new (deliver env d st) = st_new st"
  "st_dirty (deliver env d st) = st_dirty st" "st_deleted (deliver env d st) = st_deleted st"
  "st_alloc (deliver env d st) = st_alloc st" "st_backend (deliver env d st) = st_backend st"
  "st_last_tid (deliver env d st) = st_last_tid st" "st_registry (deliver env d st) = st_registry st"
  "st_index (deliver env d st) = st_index st" "st_root_oid (deliver env d st) = st_root_oid st"
  by (simp_all add: deliver_def)

lemma deliver_session: "session_ok (deliver env d st) = session_ok st"
  by (simp add: session_ok_def ids_ok_def states_ok_def bufs_wf_def names_ok_def)

lemma captured_session:
  assumes cap: "captured env (pending_of st) (st_deleted st) st va enc st1 c st2" and st: "staged st st1" and ok: "session_ok st"
  shows "session_ok (st2\<lparr>st_backend := b\<rparr>)" and "unborn_new st2" and "names_ok st2" and "ids_ok st2"
    and "(oid, ti, Some a) \<in> set (ca_deletes c) \<Longrightarrow> born st2 a"
proof -
  note c = captured_state [OF cap st]
  have wf: "ids_ok st" "states_ok st" "bufs_wf st" "names_ok st"
    using ok by (auto simp: session_ok_def)
  have oids: "map_option en_oid (dict_get (st_heap st2) x) = map_option en_oid (dict_get (st_heap st) x)" for x
    by (simp add: c(1) option.map_comp o_def)
  have keep: "\<exists>e'. dict_get (st_heap st2) x = Some e' \<and> en_oid e' = Some k"
    if "\<exists>e. dict_get (st_heap st) x = Some e \<and> en_oid e = Some k" for x k
    using that oids [of x] by auto
  have n: "next_oid_of (st_alloc st) \<le> next_oid_of (st_alloc st2)"
    using st c(13) by (simp add: staged_def)
  show i: "ids_ok st2"
    by (rule ids_ok_same [OF wf(1) oids n]) (simp add: c(2,3))
  show nm: "names_ok st2"
    unfolding names_ok_def
  proof (intro allI impI keep)
    fix oid a ti
    assume "dict_get (st_registry st2) oid = Some a \<or> dict_get (st_deleted st2) oid = Some (ti, Some a)"
    then have "(oid, a) \<in> set (pending_of st) \<or> dict_get (st_registry st) oid = Some a"
      using c(4,17) by auto
    then show "\<exists>e. dict_get (st_heap st) a = Some e \<and> en_oid e = Some oid"
      using pending_entity(1) [OF ok] names_okD(1) [OF wf(4)] by blast
  qed
  show un: "unborn_new st2"
    unfolding unborn_new_def
  proof (intro allI impI)
    fix a e
    assume e: "dict_get (st_heap st2) a = Some e" "en_oid e = None" "\<not> en_twin e"
    have "a \<notin> snd ` set (pending_of st)"
    proof
      assume "a \<in> snd ` set (pending_of st)"
      then obtain oid where "(oid, a) \<in> set (pending_of st)"
        by auto
      then show False
        using keep [OF pending_entity(1) [OF ok]] e by fastforce
    qed
    then show "en_state e = STATE_NEW"
      using e c(1) [of a] states_okD(3) [OF wf(2)] by simp
  qed
  show "session_ok (st2\<lparr>st_backend := b\<rparr>)"
    using i nm un c(2-4) by (intro empty_session_ok) (simp_all add: ids_ok_def names_ok_def unborn_new_def)
  show "born st2 a" if d: "(oid, ti, Some a) \<in> set (ca_deletes c)"
  proof -
    have "dict_get (st_deleted st) oid = Some (ti, Some a)"
      using d c(12) wf(3) dict_wf_in_set by (fastforce simp: bufs_wf_def)
    then show ?thesis
      using keep names_okD(2) [OF wf(4)] unfolding born_def by blast
  qed
qed

lemma p3_session:
  assumes cap: "captured env (pending_of st) (st_deleted st) st va enc st1 c st2" and st: "staged st st1" and ok: "session_ok st"
    and p3: "p3_finalize env c (st2\<lparr>st_backend := b\<rparr>) = (Inr tid, st')"
  shows "session_ok st'" and "tid = ca_tid c" and "st_backend st' = b" and "st_last_tid st' = tid"
    and "st_alloc st' = st_alloc st2" and "st_new st' = []" and "st_dirty st' = []" and "st_deleted st' = []"
    and "st_root_oid st' = st_root_oid st"
proof -
  note c = captured_state [OF cap st] and k = captured_session [OF cap st ok]
  obtain im where p: "tid = ca_tid c"
    "st' = (case ca_delta c of None \<Rightarrow> settle_durable c (st2\<lparr>st_backend := b, st_index := im\<rparr>)
       | Some d \<Rightarrow> deliver env d (settle_durable c (st2\<lparr>st_backend := b, st_index := im\<rparr>)))"
    using p3_finalize_Inr [OF p3] by metis
  let ?s = "st2\<lparr>st_backend := b, st_index := im\<rparr>"
  let ?t = "settle_durable c ?s"
  obtain u where u: "same_oids ?s u" "?t = u\<lparr>st_last_tid := ca_tid c\<rparr>"
    by (rule settle_same)
  have i: "ids_ok ?s" "names_ok ?s" "unborn_new ?s"
    using k by (simp_all add: ids_ok_def names_ok_def unborn_new_def)
  have "unborn_new (fold bury (ca_deletes c) ?s)"
  proof (rule buries_unborn [OF i(3)])
    show "born ?s a" if "dict_get (st_registry ?s) oid = Some a" for oid a
      using names_okD(1) [OF i(2) that] by (auto simp: born_def)
    show "born ?s a" if "(oid, ti, Some a) \<in> set (ca_deletes c)" for oid ti a
      using k(5) [OF that] by (simp add: born_def)
  qed
  then have "unborn_new ?t"
    unfolding settle_durable_def Let_def unborn_new_last
    by (intro swaps_unborn) (simp add: unborn_new_def)
  moreover have "ids_ok ?t" "names_ok ?t"
    using same_oids_ids [OF u(1) i(1,2)] by (simp_all add: u(2) ids_ok_def names_ok_def)
  moreover have b: "st_new ?t = []" "st_dirty ?t = []" "st_deleted ?t = []" "st_backend ?t = b" "st_last_tid ?t = ca_tid c"
    "st_alloc ?t = st_alloc st2" "st_root_oid ?t = st_root_oid st"
    using u c(2-4,14) by (simp_all add: same_oids_def)
  ultimately have "session_ok ?t"
    by (intro empty_session_ok)
  then show "session_ok st'" "tid = ca_tid c" "st_backend st' = b" "st_last_tid st' = tid"
    "st_alloc st' = st_alloc st2" "st_new st' = []" "st_dirty st' = []" "st_deleted st' = []" "st_root_oid st' = st_root_oid st"
    using b p by (simp_all add: deliver_session split: option.split)
qed

section \<open>The type rows of a batch\<close>

text \<open>Field names that a row of the types table can hold: Python identifiers are.\<close>

definition plain_fields :: "string list \<Rightarrow> bool" where
  "plain_fields fs \<longleftrightarrow> (\<forall>f \<in> set fs. f \<noteq> [] \<and> char_of (31 :: nat) \<notin> set f)"

definition plain_names :: "('s, 'c) store \<Rightarrow> bool" where
  "plain_names st \<longleftrightarrow> (\<forall>a e. dict_get (st_heap st) a = Some e \<longrightarrow> plain_fields (ti_field_names (en_ti e)))"

lemma plain_types_rows: "plain_types ts \<longleftrightarrow> (\<forall>row \<in> set ts. plain_fields (snd (snd row)))"
  by (simp add: plain_types_def plain_fields_def case_prod_unfold)

lemma cid_for_types:
  assumes "cid_for ti types st = ((cid, types'), st')"
  shows "types' = types \<or> types' = types @ [(cid, ti_name ti, ti_field_names ti)]"
  using assms by (auto simp: cid_for_def split: option.splits prod.splits if_splits)

lemma encode_entity_types:
  assumes "encode_entity env (oid, a) out st = (Inr out', st')"
  shows "\<exists>e cid. dict_get (st_heap st) a = Some e \<and>
    (eb_types out' = eb_types out \<or> eb_types out' = eb_types out @ [(cid, ti_name (en_ti e), ti_field_names (en_ti e))])"
proof -
  obtain e where e: "dict_get (st_heap st) a = Some e"
    using assms by (cases "dict_get (st_heap st) a") (auto simp: encode_entity_def with_entity_def bind_act_def entity_at_def)
  obtain cid types st1 where c: "cid_for (en_ti e) (eb_types out) st = ((cid, types), st1)"
    by (metis prod.collapse)
  obtain p alloc out1 where p: "encode_payload (se_enc env) (se_forms env) (oid_for_encode st1) (blob_position (en_ti e))
      (sink_blob (se_sha env)) (en_values e) (st_alloc st1, out\<lparr>eb_types := types\<rparr>) = (p, (alloc, out1))"
    by (metis prod.collapse)
  have "eb_types out1 = types"
    using encode_payload_grown [OF p] by (simp add: blob_grown_def)
  then have "eb_types out' = types"
    using assms e c p
    by (cases p) (auto simp: encode_entity_def with_entity_def bind_act_def entity_at_def note_streamed_swaps_def
        Let_def bind_res_Inr split: if_splits)
  then show ?thesis
    using cid_for_types [OF c] e by blast
qed

lemma encode_pending_types:
  assumes "fold_act (encode_entity env) pending out st = (Inr out', st')" and "plain_names st" and "plain_types (eb_types out)"
  shows "plain_types (eb_types out')"
  using assms
proof (induction pending arbitrary: out st)
  case (Cons x pending)
  obtain oid a where x: "x = (oid, a)"
    by fastforce
  obtain out1 st1 where s: "encode_entity env (oid, a) out st = (Inr out1, st1)"
    and f: "fold_act (encode_entity env) pending out1 st1 = (Inr out', st')"
    using Cons.prems(1) by (auto simp: x bind_act_Inr)
  have h: "st_heap st1 = st_heap st"
    by (rule stage_eqD(1) [OF stagedD [OF encode_entity_effect(1) [OF s]]])
  have "plain_types (eb_types out1)"
    using encode_entity_types [OF s] Cons.prems(2,3) by (auto simp: plain_types_rows plain_names_def)
  moreover have "plain_names st1"
    using Cons.prems(2) by (simp only: plain_names_def h)
  ultimately show ?case
    by (intro Cons.IH [OF f])
qed simp

lemma captured_plain:
  assumes cap: "captured env (pending_of st) (st_deleted st) st va enc st1 c st2" and "plain_names st"
  shows "plain_batch (ca_batch c)"
proof -
  obtain stv where v: "validate_before_tid env (pending_of st) (st_deleted st) st = (Inr va, stv)"
    and e: "encode_pending env (pending_of st) stv = (Inr enc, st1)"
    and b: "ca_batch c = build_batch (ca_tid c) enc (st_deleted st) (take_tid st1)"
    using cap by (auto simp: captured_def)
  have "st_heap stv = st_heap st"
    by (rule stage_eqD(1) [OF stagedD [OF validate_staged [OF v]]])
  then have "plain_names stv"
    using assms(2) by (simp only: plain_names_def)
  then have "plain_types (eb_types enc)"
    using encode_pending_types [OF e [unfolded encode_pending_def]] by (simp add: empty_batch_def plain_types_def)
  then show ?thesis
    by (simp add: b plain_batch_def build_batch_def)
qed

lemma plain_grown:
  assumes g: "grown st st'" and p: "plain_names st"
  shows "plain_names st'"
  unfolding plain_names_def
proof (intro allI impI)
  fix a e
  assume "dict_get (st_heap st') a = Some e"
  then obtain x where "dict_get (st_heap st) a = Some x" "same_content x e"
    using grownD(3) [OF g, of a] by (cases "dict_get (st_heap st) a") auto
  then show "plain_fields (ti_field_names (en_ti e))"
    using p by (simp add: same_content_def plain_names_def)
qed

lemma plain_tis:
  assumes "\<And>b. map_option en_ti (dict_get (st_heap st') b) = map_option en_ti (dict_get (st_heap st) b)" and "plain_names st"
  shows "plain_names st'"
  unfolding plain_names_def
proof (intro allI impI)
  fix a e
  assume "dict_get (st_heap st') a = Some e"
  then obtain x where "dict_get (st_heap st) a = Some x" "en_ti e = en_ti x"
    using assms(1) [of a] by (cases "dict_get (st_heap st) a") auto
  then show "plain_fields (ti_field_names (en_ti e))"
    using assms(2) by (simp add: plain_names_def)
qed

lemma plain_heap: "st_heap st' = st_heap st \<Longrightarrow> plain_names st \<Longrightarrow> plain_names st'"
  by (simp add: plain_names_def)

text \<open>The last phase changes no class of any entity.\<close>

definition tis_kept :: "('s, 'c) store \<Rightarrow> ('s, 'c) store \<Rightarrow> bool" where
  "tis_kept st st' \<longleftrightarrow> (\<forall>b. map_option en_ti (dict_get (st_heap st') b) = map_option en_ti (dict_get (st_heap st) b))"

lemma bury_tis: "tis_kept st (bury d st)"
  by (cases d) (auto simp: bury_def tis_kept_def Let_def option.map_comp o_def split: option.splits)

lemma swap_tis: "tis_kept st (swap_blob w st)"
  by (cases w) (auto simp: swap_blob_def tis_kept_def map_entity_def put_entity_def split: option.splits)

lemma fold_tis: "(\<And>x st. tis_kept st (f x st)) \<Longrightarrow> tis_kept st (fold f xs st)"
proof (induction xs arbitrary: st)
  case (Cons x xs)
  then show ?case
    using Cons.prems [of st x] by (simp add: tis_kept_def)
qed (simp add: tis_kept_def)

lemma settle_tis: "tis_kept st (settle_durable c st)"
proof -
  let ?s = "(fold bury (ca_deletes c) st)\<lparr>st_pending_upserts := [],
     st_prestamp_labels := dict_pop_all (map fst (ca_flipped c)) (st_prestamp_labels (fold bury (ca_deletes c) st)),
     st_durable_cids := st_durable_cids (fold bury (ca_deletes c) st) \<union> fst ` set (cb_types (ca_batch c))\<rparr>"
  have "tis_kept st (fold bury (ca_deletes c) st)" "tis_kept ?s (fold swap_blob (ca_swaps c) ?s)"
    by (rule fold_tis, rule bury_tis, rule fold_tis, rule swap_tis)
  then show ?thesis
    by (simp add: tis_kept_def settle_durable_def Let_def)
qed

lemma p3_plain:
  assumes "p3_finalize env c st = (r, st')" and "plain_names st"
  shows "plain_names st'"
proof (cases r)
  case (Inl e)
  then have "st' = st"
    using assms(1) by (auto simp: p3_finalize_def Let_def split: sum.splits)
  then show ?thesis
    using assms(2) by simp
next
  case (Inr tid)
  obtain im where "st' = (case ca_delta c of None \<Rightarrow> settle_durable c (st\<lparr>st_index := im\<rparr>)
       | Some d \<Rightarrow> deliver env d (settle_durable c (st\<lparr>st_index := im\<rparr>)))"
    using p3_finalize_Inr [OF assms(1) [unfolded Inr]] by metis
  then have "st_heap st' = st_heap (settle_durable c (st\<lparr>st_index := im\<rparr>))"
    by (simp split: option.split)
  moreover have "tis_kept (st\<lparr>st_index := im\<rparr>) (settle_durable c (st\<lparr>st_index := im\<rparr>))"
    by (rule settle_tis)
  ultimately show ?thesis
    by (intro plain_tis [OF _ assms(2)]) (simp add: tis_kept_def)
qed

section \<open>The outcomes of a commit\<close>

lemma run_p2_cases:
  "\<exists>r b. run_p2 env fault batch st = (r, st\<lparr>st_backend := b\<rparr>) \<and>
    (fault = None \<and> se_apply env batch (st_backend st) = (r, b) \<or> (\<exists>err. fault = Some err \<and> r = Inl err \<and> b = st_backend st))"
proof (cases fault)
  case None
  obtain r b where "se_apply env batch (st_backend st) = (r, b)"
    using prod.exhaust by blast
  then show ?thesis
    using None by (auto simp: run_p2_def)
qed (auto simp: run_p2_def)

text \<open>What may happen to OIDs, types and the root outside a durable commit.\<close>

definition onward :: "('s, 'c) store \<Rightarrow> ('s, 'c) store \<Rightarrow> bool" where
  "onward st st' \<longleftrightarrow> st_durable_cids st' = st_durable_cids st \<and> st_root_oid st' = st_root_oid st \<and>
     next_oid_of (st_alloc st) \<le> next_oid_of (st_alloc st') \<and>
     (\<forall>oid. dict_get (st_new st') oid \<noteq> None \<longrightarrow> dict_get (st_new st) oid \<noteq> None \<or> next_oid_of (st_alloc st) \<le> oid)"

lemma onward_refl [simp]: "onward st st"
  by (simp add: onward_def)

lemma onward_trans: "onward a b \<Longrightarrow> onward b c \<Longrightarrow> onward a c"
  unfolding onward_def by (metis le_trans)

lemma onward_grown:
  assumes g: "grown st st'"
  shows "onward st st'"
proof -
  have "dict_get (st_new st) oid \<noteq> None \<or> next_oid_of (st_alloc st) \<le> oid" if "dict_get (st_new st') oid \<noteq> None" for oid
    using grownD(4) [OF g, of oid] that by (cases "oid < next_oid_of (st_alloc st)") auto
  then show ?thesis
    using grownD(2) [OF g] session_eqD [OF grownD(1) [OF g]] by (simp add: onward_def)
qed

lemma onward_staged: "staged st st' \<Longrightarrow> onward st st'"
  using stage_eqD [OF stagedD, of st st'] by (simp add: onward_def staged_def)

lemma onward_rollback:
  assumes cap: "captured env (pending_of st) (st_deleted st) st va enc st1 c st2" and st: "staged st st1" and ok: "session_ok st"
  shows "onward st (p2_rollback c (st2\<lparr>st_backend := b\<rparr>))"
proof -
  note r = rollback_exact [OF assms, of b]
  let ?t = "p2_rollback c (st2\<lparr>st_backend := b\<rparr>)"
  have "dict_get (st_new st) oid \<noteq> None" if "dict_get (st_new ?t) oid \<noteq> None" for oid
  proof (cases "dict_get (st_deleted st) oid = None")
    case True
    then show ?thesis
      using r(1) that by (auto simp: as_before_def)
  next
    case False
    then show ?thesis
      using rollback_dead [OF assms False, of b] that by simp
  qed
  moreover have "next_oid_of (st_alloc st) \<le> next_oid_of (st_alloc ?t)"
    using st captured_state(13) [OF cap st] by (simp add: p2_rollback_def Let_def staged_def)
  ultimately show ?thesis
    using r(3,4) by (auto simp: onward_def)
qed

text \<open>A commit over any backend whose failed batches change nothing.\<close>

lemma commit_split:
  assumes cm: "Store_Commit.commit env fault st = (r, st')" and ok: "session_ok st"
    and atomic: "\<And>b e t. se_apply env b (st_backend st) = (Inl e, t) \<Longrightarrow> t = st_backend st"
  obtains (undone) err where "r = Inl err" and "session_ok st'" and "buffers_kept st st'" and "st_backend st' = st_backend st"
      and "next_tid_of (st_alloc st') = next_tid_of (st_alloc st)" and "st_last_tid st' = st_last_tid st"
      and "st_consumers st' = st_consumers st" and "plain_names st \<Longrightarrow> plain_names st'" and "onward st st'"
    | (idle) "r = Inr None" and "session_ok st'" and "grown st st'" and "pending_of st' = []" and "st_deleted st' = []"
    | (durable) c W st0 va enc st1 s1 b r3 where "discover_new_graphs env st = (Inr W, st0)" and "session_ok st0"
      and "grown st st0" and "staged st0 st1" and "captured env (pending_of st0) (st_deleted st0) st0 va enc st1 c s1"
      and "se_apply env (ca_batch c) (st_backend st) = (Inr (), b)"
      and "p3_finalize env c (s1\<lparr>st_backend := b\<rparr>) = (r3, st')" and "r = map_sum id Some r3"
proof (cases "guard st")
  case (Inl err)
  then have "r = Inl err" "st' = st"
    using cm by (simp_all add: Store_Commit.commit_def bind_act_def)
  then show thesis
    using undone ok grown_kept [OF grown_refl, of st] by (simp add: session_ok_def)
next
  case g: (Inr u)
  have k0: "buffers_kept st st0" if "grown st st0" for st0
    using grown_kept [OF that] ok by (simp add: session_ok_def)
  obtain r1 s1 where p1: "p1_capture env st = (r1, s1)"
    using prod.exhaust by blast
  show thesis
  using p1 ok
  proof (cases rule: p1_cases)
    case (refused err st0)
    then have "r = Inl err" "st' = s1"
      using cm g p1 by (simp_all add: Store_Commit.commit_def bind_act_def)
    moreover note d = stage_eqD [OF stagedD [OF refused(4)]] session_eqD [OF grownD(1) [OF refused(3)]]
    ultimately show thesis
      using undone kept_trans_staged [OF k0 [OF refused(3)] refused(4)] staged_session [OF refused(4,2)]
        plain_heap [of s1 st0] plain_grown [OF refused(3)]
        onward_trans [OF onward_grown [OF refused(3)] onward_staged [OF refused(4)]] by simp
  next
    case idle0: idle
    then have "r = Inr None" "st' = s1"
      using cm g p1 by (simp_all add: Store_Commit.commit_def bind_act_def)
    then show thesis
      using idle idle0(2-5) by simp
  next
    case (captured c W st0 va enc st1)
    note cap = captured(6) and st1 = captured(5) and ok0 = captured(3)
    have f: "bind_act (finish_commit env fault c) (\<lambda>tid. return_act (Some tid)) s1 = (r, st')"
      using cm g p1 captured(1) by (simp add: Store_Commit.commit_def bind_act_def)
    note s0 = session_eqD [OF grownD(1) [OF captured(4)]]
    have b: "st_backend s1 = st_backend st"
      using captured_state(5) [OF cap st1] s0 by simp
    obtain r2 b2 where p2: "run_p2 env fault (ca_batch c) s1 = (r2, s1\<lparr>st_backend := b2\<rparr>)"
      and o: "fault = None \<and> se_apply env (ca_batch c) (st_backend st) = (r2, b2) \<or>
        (\<exists>err. fault = Some err \<and> r2 = Inl err \<and> b2 = st_backend st)"
      using run_p2_cases [of env fault "ca_batch c" s1] unfolding b by blast
    show thesis
    proof (cases r2)
      case (Inl err)
      let ?t = "p2_rollback c (s1\<lparr>st_backend := b2\<rparr>)"
      have "finish_commit env fault c s1 = (Inl err, ?t)"
        using p2 Inl by (simp add: finish_commit_def)
      then have "r = Inl err" "st' = ?t"
        using f by (simp_all add: bind_act_def)
      moreover note rb = rollback_exact [OF cap st1 ok0, of b2]
      moreover have "b2 = st_backend st"
        using o atomic [of "ca_batch c"] Inl by auto
      moreover have "next_tid_of (st_alloc ?t) = next_tid_of (st_alloc st)" "st_last_tid ?t = st_last_tid st"
        "st_consumers ?t = st_consumers st"
        using rb(1) s0 by (simp_all add: as_before_def)
      ultimately show thesis
        using undone rollback_session [OF cap st1 ok0, of b2] kept_trans_before [OF k0 [OF captured(4)] rb(1)]
          plain_tis [of ?t st0] plain_grown [OF captured(4)] rb(1)
          onward_trans [OF onward_grown [OF captured(4)] onward_rollback [OF cap st1 ok0, of b2]] by (simp add: as_before_def)
    next
      case (Inr u2)
      have ap: "se_apply env (ca_batch c) (st_backend st) = (Inr (), b2)"
        using o Inr by auto
      obtain r3 s3 where p3: "p3_finalize env c (s1\<lparr>st_backend := b2\<rparr>) = (r3, s3)"
        using prod.exhaust by blast
      have "finish_commit env fault c s1 = (r3, s3)"
        using p2 Inr p3 by (simp add: finish_commit_def)
      then have "r = map_sum id Some r3" "st' = s3"
        using f by (cases r3; simp add: bind_act_def)+
      then show thesis
        using durable [OF captured(2) ok0 captured(4) st1 cap ap] p3 by simp
    qed
  qed
qed

text \<open>An environment whose backend operations keep the laws of a storage backend.\<close>

locale session_backend =
  storage_backend inv find blob meta_at type_set "se_load env" "se_scan env" "se_apply env"
  for inv :: "'s \<Rightarrow> bool" and find blob meta_at type_set and env :: "('s, 'c) senv"
begin

text \<open>What the last phase leaves when it raised: a durable batch, and indexes as they were.\<close>

lemma durable_facts:
  assumes g: "grown st st0" and ok: "session_ok st0" and st1: "staged st0 st1"
    and cap: "captured env (pending_of st0) (st_deleted st0) st0 va enc st1 c s1"
    and ap: "se_apply env (ca_batch c) (st_backend st) = (Inr (), b)"
    and p3: "p3_finalize env c (s1\<lparr>st_backend := b\<rparr>) = (r3, st')"
    and i: "inv (st_backend st)" and pl: "plain_names st"
  shows "durable_effect env st0 (next_tid_of (st_alloc st)) (find (st_backend st)) (find (st_backend st'))"
    and "inv (st_backend st')" and "st_backend st' = b" and "plain_batch (ca_batch c)" and "ca_tid c = next_tid_of (st_alloc st)"
    and "next_tid_of (st_alloc st') = next_tid_of (st_alloc st) + 1" and "session_ok st'"
    and "st_new st' = []" and "st_dirty st' = []" and "st_deleted st' = []" and "plain_names st'"
    and "r3 = Inr (next_tid_of (st_alloc st)) \<and> st_last_tid st' = next_tid_of (st_alloc st) \<or>
        (\<exists>err. r3 = Inl err \<and> st_last_tid st' = st_last_tid st)"
proof -
  note s0 = session_eqD [OF grownD(1) [OF g]]
  note c = captured_state [OF cap st1]
  show tid: "ca_tid c = next_tid_of (st_alloc st)"
    using c s0 by simp
  show pb: "plain_batch (ca_batch c)"
    by (rule captured_plain [OF cap plain_grown [OF g pl]])
  have fb: "find b = (\<lambda>oid. batch_effect (ca_batch c) oid (find (st_backend st) oid))"
    by (rule ext) (rule commit_find [OF i pb ap])
  have eff: "durable_effect env st0 (next_tid_of (st_alloc st)) (find (st_backend st)) (find b)"
    using captured_effect [OF cap st1 ok, of "find (st_backend st)"] unfolding fb tid .
  have inv2: "inv b"
    by (rule commit_inv [OF i pb ap])
  show "plain_names st'"
  proof (rule p3_plain [OF p3], rule plain_tis [OF _ plain_grown [OF g pl]])
    show "map_option en_ti (dict_get (st_heap (s1\<lparr>st_backend := b\<rparr>)) k) = map_option en_ti (dict_get (st_heap st0) k)" for k
      by (simp add: c(1) option.map_comp o_def)
  qed
  have "st_backend st' = b \<and> next_tid_of (st_alloc st') = next_tid_of (st_alloc st) + 1 \<and> session_ok st' \<and>
      st_new st' = [] \<and> st_dirty st' = [] \<and> st_deleted st' = [] \<and>
      (r3 = Inr (next_tid_of (st_alloc st)) \<and> st_last_tid st' = next_tid_of (st_alloc st) \<or>
        (\<exists>err. r3 = Inl err \<and> st_last_tid st' = st_last_tid st))"
  proof (cases r3)
    case (Inl err)
    then have "st' = s1\<lparr>st_backend := b\<rparr>"
      using p3 by (auto simp: p3_finalize_def Let_def split: sum.splits)
    then show ?thesis
      using captured_session(1) [OF cap st1 ok, of b] c Inl s0 by simp
  next
    case (Inr tid)
    then show ?thesis
      using p3_session [OF cap st1 ok p3 [unfolded Inr]] c s0 by simp
  qed
  then show "durable_effect env st0 (next_tid_of (st_alloc st)) (find (st_backend st)) (find (st_backend st'))"
    "inv (st_backend st')" "st_backend st' = b" "next_tid_of (st_alloc st') = next_tid_of (st_alloc st) + 1" "session_ok st'"
    "st_new st' = []" "st_dirty st' = []" "st_deleted st' = []"
    "r3 = Inr (next_tid_of (st_alloc st)) \<and> st_last_tid st' = next_tid_of (st_alloc st) \<or>
        (\<exists>err. r3 = Inl err \<and> st_last_tid st' = st_last_tid st)"
    using eff inv2 by simp_all
qed

lemma commit_cases:
  assumes cm: "Store_Commit.commit env fault st = (r, st')" and ok: "session_ok st" and i: "inv (st_backend st)"
    and pl: "plain_names st"
  obtains (undone) err where "r = Inl err" and "buffers_kept st st'" and "st_backend st' = st_backend st"
      and "next_tid_of (st_alloc st') = next_tid_of (st_alloc st)" and "st_last_tid st' = st_last_tid st"
    | (idle) "r = Inr None" and "buffers_kept st st'" and "st_backend st' = st_backend st"
      and "next_tid_of (st_alloc st') = next_tid_of (st_alloc st)" and "st_last_tid st' = st_last_tid st"
      and "pending_of st' = []" and "st_deleted st' = []"
    | (durable) W st0 where "discover_new_graphs env st = (Inr W, st0)" and "r = Inr (Some (next_tid_of (st_alloc st))) \<and> st_last_tid st' = next_tid_of (st_alloc st) \<or>
        (\<exists>err. r = Inl err \<and> st_last_tid st' = st_last_tid st)"
      and "buffers_kept st st0"
      and "durable_effect env st0 (next_tid_of (st_alloc st)) (find (st_backend st)) (find (st_backend st'))"
      and "next_tid_of (st_alloc st') = next_tid_of (st_alloc st) + 1"
      and "st_new st' = []" and "st_dirty st' = []" and "st_deleted st' = []"
proof -
  have at: "se_apply env b (st_backend st) = (Inl e, t) \<Longrightarrow> t = st_backend st" for b e t
    by (rule commit_fails [OF i])
  show thesis
  proof (rule commit_split [OF cm ok at])
    fix err
    assume "r = Inl err" "buffers_kept st st'" "st_backend st' = st_backend st"
      "next_tid_of (st_alloc st') = next_tid_of (st_alloc st)" "st_last_tid st' = st_last_tid st"
    then show thesis
      by (rule undone)
  next
    assume d: "r = Inr None" "grown st st'" "pending_of st' = []" "st_deleted st' = []"
    have "buffers_kept st st'"
      using grown_kept [OF d(2)] ok by (simp add: session_ok_def)
    then show thesis
      using idle d session_eqD [OF grownD(1) [OF d(2)]] by simp
  next
    fix c W st0 va enc st1 s1 b r3
    assume w: "discover_new_graphs env st = (Inr W, st0)"
      and d: "session_ok st0" "grown st st0" "staged st0 st1" "captured env (pending_of st0) (st_deleted st0) st0 va enc st1 c s1"
      "se_apply env (ca_batch c) (st_backend st) = (Inr (), b)" "p3_finalize env c (s1\<lparr>st_backend := b\<rparr>) = (r3, st')"
      and r: "r = map_sum id Some r3"
    note f = durable_facts [OF d(2,1,3-6) i pl]
    have "buffers_kept st st0"
      using grown_kept [OF d(2)] ok by (simp add: session_ok_def)
    moreover have "r = Inr (Some (next_tid_of (st_alloc st))) \<and> st_last_tid st' = next_tid_of (st_alloc st) \<or>
          (\<exists>err. r = Inl err \<and> st_last_tid st' = st_last_tid st)"
      using f(12) r by auto
    ultimately show thesis
      using durable w f(1,6,8-10) by blast
  qed
qed

end

text \<open>The environment over each backend.\<close>

definition over_memory :: "(mem_backend, 'c) senv \<Rightarrow> (mem_backend, 'c) senv" where
  "over_memory env = env\<lparr>se_boot := (\<lambda>m. (mem_boot m, m)), se_load := (\<lambda>oids m. Inr (mem_load_many oids m)),
     se_scan := (\<lambda>cid m. Inr (mem_scan_type cid m)), se_apply := mem_apply (se_sha env)\<rparr>"

definition over_sqlite :: "(sqlite_db, 'c) senv \<Rightarrow> (sqlite_db, 'c) senv" where
  "over_sqlite env = env\<lparr>se_boot := sq_boot, se_load := sq_load_many, se_scan := sq_scan_type,
     se_apply := sq_apply (se_sha env)\<rparr>"

interpretation over_mem: session_backend mem_ok "\<lambda>m. dict_get (mb_objects m)" "\<lambda>m. dict_get (mb_blobs m)"
  "\<lambda>m. dict_get (mb_meta m)" "\<lambda>m. set (mb_types m)" "over_memory env"
  for env
  unfolding session_backend_def over_memory_def by simp (rule mem.storage_backend_axioms)

interpretation over_sq: session_backend db_ok sq_find sq_blob "\<lambda>db. dict_get (db_meta db)" sq_types "over_sqlite env"
  for env
  unfolding session_backend_def over_sqlite_def by simp (rule sq.storage_backend_axioms)

end
