(* ===== verification/Store_Run.thy ===== *)
theory Store_Run
  imports Store_Outcome
begin

text \<open>
  Runs of a session: any sequence of its operations and of commits, with faults anywhere. A run keeps
  the session invariant, so its commits take consecutive TIDs, and every consumer that is still
  attached stands at the last of them.
\<close>

section \<open>One entity changes\<close>

lemma session_change:
  assumes ok: "session_ok st" and e: "dict_get (st_heap st) a = Some e"
    and heap: "\<And>b. dict_get (st_heap st') b = (if b = a then Some e' else dict_get (st_heap st) b)"
    and same: "en_oid e' = en_oid e" "en_twin e' = en_twin e" "st_alloc st' = st_alloc st" "st_registry st' = st_registry st"
    and new: "\<And>oid b. dict_get (st_new st') oid = Some b \<Longrightarrow> dict_get (st_new st) oid = Some b \<and> (b = a \<longrightarrow> en_state e' = STATE_NEW)"
    and dirty: "\<And>oid b. dict_get (st_dirty st') oid = Some b \<Longrightarrow>
      (if b = a then en_oid e = Some oid \<and> en_state e' = STATE_DIRTY else dict_get (st_dirty st) oid = Some b)"
    and deleted: "\<And>oid ti b. dict_get (st_deleted st') oid = Some (ti, Some b) \<Longrightarrow>
      dict_get (st_deleted st) oid = Some (ti, Some b) \<or> b = a \<and> en_oid e = Some oid"
    and unborn: "en_oid e = None \<Longrightarrow> \<not> en_twin e \<Longrightarrow> en_state e' = STATE_NEW"
    and wf: "bufs_wf st'"
  shows "session_ok st'"
proof -
  have ids: "ids_ok st" and sts: "states_ok st" and nms: "names_ok st"
    using ok by (auto simp: session_ok_def)
  have oids: "map_option en_oid (dict_get (st_heap st') b) = map_option en_oid (dict_get (st_heap st) b)" for b
    using e same(1) by (simp add: heap)
  have bears: "\<exists>f. dict_get (st_heap st) b = Some f \<and> en_oid f = Some oid"
    if "dict_get (st_new st') oid = Some b \<or> dict_get (st_dirty st') oid = Some b" for oid b
    using that new [of oid b] dirty [of oid b] ids_okD(3) [OF ids] e by (metis (full_types))
  have "ids_ok st'"
    by (rule ids_ok_same [OF ids oids]) (use bears same(3) in auto)
  moreover have "states_ok st'"
    unfolding states_ok_def
  proof (intro conjI allI impI)
    fix oid b f
    assume f: "dict_get (st_heap st') b = Some f"
    show "en_state f = STATE_NEW" if "dict_get (st_new st') oid = Some b"
      using new [OF that] f states_okD(1) [OF sts] by (auto simp: heap split: if_splits)
    show "en_state f = STATE_DIRTY" if "dict_get (st_dirty st') oid = Some b"
      using dirty [OF that] f states_okD(2) [OF sts] by (auto simp: heap split: if_splits)
    show "en_state f = STATE_NEW" if "en_oid f = None" "\<not> en_twin f"
      using that f same(1,2) unborn states_okD(3) [OF sts, of b f] by (auto simp: heap split: if_splits)
  qed
  moreover have "names_ok st'"
    unfolding names_ok_def
  proof (intro allI impI)
    fix oid b ti
    assume "dict_get (st_registry st') oid = Some b \<or> dict_get (st_deleted st') oid = Some (ti, Some b)"
    then have "\<exists>f. dict_get (st_heap st) b = Some f \<and> en_oid f = Some oid"
      using deleted [of oid ti b] names_okD [OF nms] e same(4) by metis
    then show "\<exists>f. dict_get (st_heap st') b = Some f \<and> en_oid f = Some oid"
      using oids [of b] by auto
  qed
  ultimately show ?thesis
    using wf by (simp add: session_ok_def)
qed

text \<open>What an operation outside a commit keeps.\<close>

definition keeps :: "('s, 'c) store \<Rightarrow> ('s, 'c) store \<Rightarrow> bool" where
  "keeps st st' \<longleftrightarrow> (session_ok st \<longrightarrow> session_ok st' \<and> (plain_names st \<longrightarrow> plain_names st') \<and>
     st_backend st' = st_backend st \<and> next_tid_of (st_alloc st') = next_tid_of (st_alloc st) \<and>
     st_last_tid st' = st_last_tid st \<and> st_consumers st' = st_consumers st \<and> onward st st')"

lemma keeps_refl [simp]: "keeps st st"
  by (simp add: keeps_def)

lemma keeps_trans: "keeps a b \<Longrightarrow> keeps b c \<Longrightarrow> keeps a c"
  unfolding keeps_def using onward_trans by fastforce

lemma keeps_change:
  assumes e: "dict_get (st_heap st) a = Some e"
    and heap: "\<And>b. dict_get (st_heap st') b = (if b = a then Some e' else dict_get (st_heap st) b)"
    and ti: "en_ti e' = en_ti e" and ok: "session_ok st \<Longrightarrow> session_ok st'"
    and same: "st_backend st' = st_backend st" "st_alloc st' = st_alloc st" "st_last_tid st' = st_last_tid st"
      "st_consumers st' = st_consumers st" "st_durable_cids st' = st_durable_cids st" "st_root_oid st' = st_root_oid st"
    and new: "\<And>oid. dict_get (st_new st') oid \<noteq> None \<Longrightarrow> dict_get (st_new st) oid \<noteq> None"
  shows "keeps st st'"
  using assms by (auto simp: keeps_def plain_names_def onward_def)

lemma keeps_bind:
  assumes "bind_act m f st = (r, st'')" and "\<And>r1 st1. m st = (r1, st1) \<Longrightarrow> keeps st st1"
    and "\<And>x st1 r2 st2. m st = (Inr x, st1) \<Longrightarrow> f x st1 = (r2, st2) \<Longrightarrow> keeps st1 st2"
  shows "keeps st st''"
  by (rule bind_act_rel [where R = keeps, OF assms(1)]) (erule assms(2), erule (1) assms(3), erule (1) keeps_trans)

lemma keeps_with:
  assumes "with_entity a f st = (r, st')" and "\<And>e. dict_get (st_heap st) a = Some e \<Longrightarrow> f e st = (r, st') \<Longrightarrow> keeps st st'"
  shows "keeps st st'"
  using assms by (auto simp: with_entity_def bind_act_def entity_at_def split: option.splits)

section \<open>The operations\<close>

lemma create_keeps:
  assumes "dict_get (st_heap st) a = None" and "plain_fields (ti_field_names ti)"
  shows "keeps st (create a ti vals l st)"
proof -
  have "session_ok (create a ti vals l st)" if ok: "session_ok st"
  proof -
    have w: "ids_ok st" "states_ok st" "bufs_wf st" "names_ok st"
      using ok by (auto simp: session_ok_def)
    have n: "dict_get (st_new st) oid \<noteq> Some a" "dict_get (st_dirty st) oid \<noteq> Some a" for oid
      using ids_okD(3) [OF w(1), of oid a] assms(1) by auto
    have "ids_ok (create a ti vals l st)"
      using w(1) assms(1) n unfolding ids_ok_def create_def by (auto split: if_splits)
    moreover have "states_ok (create a ti vals l st)"
      using w(2) n by (auto simp: states_ok_def create_def split: if_splits)
    moreover have "names_ok (create a ti vals l st)"
      by (rule names_ok_heap [OF w(4)]) (use assms(1) in \<open>auto simp: create_def put_entity_def\<close>)
    ultimately show ?thesis
      using w(3) by (simp add: session_ok_def bufs_wf_def create_def)
  qed
  then show ?thesis
    using assms by (auto simp: keeps_def create_def plain_names_def put_entity_def onward_def)
qed

lemma register_keeps: "register_graph env a W st = (r, st') \<Longrightarrow> keeps st st'"
  using register_graph_session [of env a W st r st'] plain_grown [of st st'] session_eqD [OF grownD(1), of st st'] onward_grown [of st st']
  by (auto simp: keeps_def)

lemma store_keeps: "store_entity env a st = (r, st') \<Longrightarrow> keeps st st'"
  unfolding store_entity_def
  by (erule keeps_bind, simp, erule keeps_bind, erule register_keeps, simp)

lemma write_keeps:
  assumes "\<And>e. en_oid (f e) = en_oid e \<and> en_state (f e) = en_state e \<and> en_twin (f e) = en_twin e \<and> en_ti (f e) = en_ti e"
  shows "keeps st (map_entity f a st)"
proof (cases "dict_get (st_heap st) a")
  case None
  then show ?thesis by (simp add: map_entity_def)
next
  case (Some e)
  have m: "map_entity f a st = put_entity a (f e) st"
    using Some by (simp add: map_entity_def)
  have "session_ok (put_entity a (f e) st)" if ok: "session_ok st"
  proof (rule session_change [OF ok Some])
    have w: "ids_ok st" "states_ok st" "bufs_wf st"
      using ok by (auto simp: session_ok_def)
    show "bufs_wf (put_entity a (f e) st)"
      using w(3) by (simp add: bufs_wf_def)
    fix oid b
    show "dict_get (st_new (put_entity a (f e) st)) oid = Some b \<Longrightarrow>
        dict_get (st_new st) oid = Some b \<and> (b = a \<longrightarrow> en_state (f e) = STATE_NEW)"
      using states_okD(1) [OF w(2)] Some assms by auto
    show "dict_get (st_dirty (put_entity a (f e) st)) oid = Some b \<Longrightarrow>
        if b = a then en_oid e = Some oid \<and> en_state (f e) = STATE_DIRTY else dict_get (st_dirty st) oid = Some b"
      using states_okD(2) [OF w(2)] ids_okD(3) [OF w(1)] Some assms by fastforce
    show "en_oid e = None \<Longrightarrow> \<not> en_twin e \<Longrightarrow> en_state (f e) = STATE_NEW"
      using states_okD(3) [OF w(2) Some] assms by simp
  qed (use assms in \<open>auto simp: put_entity_def\<close>)
  then show ?thesis
    unfolding m by (intro keeps_change [OF Some, where e' = "f e"]) (use assms in \<open>auto simp: put_entity_def\<close>)
qed

lemma fields_keep [simp]:
  "keeps st (map_entity (\<lambda>e. e\<lparr>en_vals := g e\<rparr>) a st)" "keeps st (map_entity (\<lambda>e. e\<lparr>en_labels := h e\<rparr>) a st)"
  by (rule write_keeps, simp)+

text \<open>A clean entity becomes dirty and is buffered; a foreign one is not buffered.\<close>

definition buffer_dirty :: "nat \<Rightarrow> nat \<Rightarrow> ('s, 'c) store \<Rightarrow> ('s, 'c) store" where
  "buffer_dirty oid a st = (set_state STATE_DIRTY a st)\<lparr>st_dirty := AList.update oid a (st_dirty st)\<rparr>"

lemma clean_unbuffered:
  assumes "session_ok st" and "dict_get (st_heap st) a = Some e" and "en_state e = STATE_CLEAN"
  shows "dict_get (st_new st) oid \<noteq> Some a" and "dict_get (st_dirty st) oid \<noteq> Some a"
  using assms states_okD(1,2) [of st] by (force simp: session_ok_def)+

lemma set_state_keeps:
  assumes e: "dict_get (st_heap st) a = Some e" and c: "en_state e = STATE_CLEAN"
  shows "keeps st (set_state s a st)"
proof -
  have "session_ok (set_state s a st)" if ok: "session_ok st"
  proof (rule session_change [OF ok e, where e' = "with_state s e"])
    note n = clean_unbuffered [OF ok e c]
    fix oid b
    show "dict_get (st_new (set_state s a st)) oid = Some b \<Longrightarrow>
        dict_get (st_new st) oid = Some b \<and> (b = a \<longrightarrow> en_state (with_state s e) = STATE_NEW)"
      using n by auto
    show "dict_get (st_dirty (set_state s a st)) oid = Some b \<Longrightarrow>
        if b = a then en_oid e = Some oid \<and> en_state (with_state s e) = STATE_DIRTY else dict_get (st_dirty st) oid = Some b"
      using n by auto
    show "en_oid e = None \<Longrightarrow> \<not> en_twin e \<Longrightarrow> en_state (with_state s e) = STATE_NEW"
      using states_okD(3) [OF _ e] ok c by (auto simp: session_ok_def)
    show "bufs_wf (set_state s a st)"
      using ok by (simp add: session_ok_def bufs_wf_def)
  qed (use e in auto)
  then show ?thesis
    by (intro keeps_change [OF e, where e' = "with_state s e"]) (use e in auto)
qed

lemma buffer_dirty_keeps:
  assumes e: "dict_get (st_heap st) a = Some e" and c: "en_state e = STATE_CLEAN" and o: "en_oid e = Some oid"
  shows "keeps st (buffer_dirty oid a st)"
proof -
  have "session_ok (buffer_dirty oid a st)" if ok: "session_ok st"
  proof (rule session_change [OF ok e, where e' = "with_state STATE_DIRTY e"])
    note n = clean_unbuffered [OF ok e c]
    fix k b
    show "dict_get (st_new (buffer_dirty oid a st)) k = Some b \<Longrightarrow>
        dict_get (st_new st) k = Some b \<and> (b = a \<longrightarrow> en_state (with_state STATE_DIRTY e) = STATE_NEW)"
      using n by (auto simp: buffer_dirty_def)
    show "dict_get (st_dirty (buffer_dirty oid a st)) k = Some b \<Longrightarrow>
        if b = a then en_oid e = Some k \<and> en_state (with_state STATE_DIRTY e) = STATE_DIRTY else dict_get (st_dirty st) k = Some b"
      using n o by (auto simp: buffer_dirty_def split: if_splits)
    show "bufs_wf (buffer_dirty oid a st)"
      using ok by (simp add: session_ok_def bufs_wf_def buffer_dirty_def)
  qed (use e o in \<open>auto simp: buffer_dirty_def\<close>)
  then show ?thesis
    by (intro keeps_change [OF e, where e' = "with_state STATE_DIRTY e"]) (use e in \<open>auto simp: buffer_dirty_def\<close>)
qed

lemma first_write_keeps:
  assumes e: "dict_get (st_heap st) a = Some e" and c: "en_state e = STATE_CLEAN" and "on_first_write a st = (r, st')"
  shows "keeps st st'"
proof -
  have "st' = st \<or> st' = set_state STATE_DIRTY a st \<or> (\<exists>oid. en_oid e = Some oid \<and> st' = buffer_dirty oid a st)"
    using assms(3) e
    by (auto simp: on_first_write_def buffer_dirty_def entity_at_def Let_def split: if_splits option.splits sum.splits)
  then show ?thesis
    using set_state_keeps [OF e c] buffer_dirty_keeps [OF e c] by auto
qed

lemma touch_keeps: "touch_entity env a st = (r, st') \<Longrightarrow> keeps st st'"
  unfolding touch_entity_def
  by (erule keeps_with) (auto split: if_splits intro: first_write_keeps set_state_keeps)

lemma set_attr_keeps: "set_attr env a f v st = (r, st') \<Longrightarrow> keeps st st'"
  unfolding set_attr_def
  by (erule keeps_with) (auto split: if_splits elim!: keeps_bind intro: touch_keeps)

lemma set_labels_keeps: "set_label_columns env a f st = (r, st') \<Longrightarrow> keeps st st'"
  unfolding set_label_columns_def
  by (erule keeps_with) (auto split: if_splits elim!: keeps_bind intro: touch_keeps)

lemma mark_dirty_keeps: 
  assumes "mark_dirty env a st = (r, st')"
  shows "keeps st st'"
  using assms unfolding mark_dirty_def
proof (rule keeps_bind)
  fix u s r2 s2
  assume "with_entity a (\<lambda>e. bind_act (lift_act (\<lambda>_. forbid_redacted e)) (\<lambda>_.
      if en_state e = STATE_DELETED then raise_act DeletedEntityError
      else case en_oid e of
        None \<Rightarrow> bind_act (register_graph env a {}) (\<lambda>_. return_act ())
      | Some oid \<Rightarrow> if en_state e = STATE_CLEAN
          then update_act (\<lambda>st. let st1 = set_state STATE_DIRTY a st in st1\<lparr>st_dirty := AList.update oid a (st_dirty st1)\<rparr>)
          else return_act ())) s = (r2, s2)"
  then show "keeps s s2"
  proof (rule keeps_with)
    fix e
    assume e: "dict_get (st_heap s) a = Some e" and "bind_act (lift_act (\<lambda>_. forbid_redacted e)) (\<lambda>_.
      if en_state e = STATE_DELETED then raise_act DeletedEntityError
      else case en_oid e of
        None \<Rightarrow> bind_act (register_graph env a {}) (\<lambda>_. return_act ())
      | Some oid \<Rightarrow> if en_state e = STATE_CLEAN
          then update_act (\<lambda>st. let st1 = set_state STATE_DIRTY a st in st1\<lparr>st_dirty := AList.update oid a (st_dirty st1)\<rparr>)
          else return_act ()) s = (r2, s2)"
    then show "keeps s s2"
      using buffer_dirty_keeps [OF e]
      by (elim keeps_bind; cases "en_oid e")
        (auto simp: buffer_dirty_def Let_def split: if_splits elim!: keeps_bind intro: register_keeps)
  qed
qed simp

section \<open>Deleting\<close>

lemma new_names: "session_ok st \<Longrightarrow> dict_get (st_new st) oid = Some a \<Longrightarrow>
    \<exists>e. dict_get (st_heap st) a = Some e \<and> en_oid e = Some oid \<and> en_state e = STATE_NEW"
  using ids_okD(3) states_okD(1) by (fastforce simp: session_ok_def)

lemma dirty_names: "session_ok st \<Longrightarrow> dict_get (st_dirty st) oid = Some a \<Longrightarrow>
    \<exists>e. dict_get (st_heap st) a = Some e \<and> en_oid e = Some oid \<and> en_state e = STATE_DIRTY"
  using ids_okD(3) states_okD(2) by (fastforce simp: session_ok_def)

lemma cancel_keeps:
  assumes e: "dict_get (st_heap st) a = Some e" and o: "en_oid e = Some oid"
  shows "keeps st (cancel_insert a oid st)"
proof -
  have "session_ok (cancel_insert a oid st)" if ok: "session_ok st"
  proof (rule session_change [OF ok e, where e' = "with_state STATE_DELETED e"])
    fix k b
    show "dict_get (st_new (cancel_insert a oid st)) k = Some b \<Longrightarrow>
        dict_get (st_new st) k = Some b \<and> (b = a \<longrightarrow> en_state (with_state STATE_DELETED e) = STATE_NEW)"
      using new_names [OF ok, of k b] e o by (auto simp: cancel_insert_def split: if_splits)
    show "dict_get (st_dirty (cancel_insert a oid st)) k = Some b \<Longrightarrow>
        if b = a then en_oid e = Some k \<and> en_state (with_state STATE_DELETED e) = STATE_DIRTY else dict_get (st_dirty st) k = Some b"
      using dirty_names [OF ok, of k b] e o by (auto simp: cancel_insert_def split: if_splits)
    show "bufs_wf (cancel_insert a oid st)"
      using ok by (simp add: session_ok_def bufs_wf_def cancel_insert_def)
  qed (use e o in \<open>auto simp: cancel_insert_def\<close>)
  then show ?thesis
    by (intro keeps_change [OF e, where e' = "with_state STATE_DELETED e"]) (use e in \<open>auto simp: cancel_insert_def split: if_splits\<close>)
qed

lemma delete_live_keeps:
  assumes e: "dict_get (st_heap st) a = Some e" and o: "en_oid e = Some oid" and n: "en_state e \<noteq> STATE_NEW"
  shows "keeps st (buffer_delete (Some a) oid ti st)"
proof -
  let ?t = "buffer_delete (Some a) oid ti st"
  have "session_ok ?t" if ok: "session_ok st"
  proof (rule session_change [OF ok e, where e' = "with_state STATE_DELETED e"])
    fix k b tj
    show "dict_get (st_new ?t) k = Some b \<Longrightarrow>
        dict_get (st_new st) k = Some b \<and> (b = a \<longrightarrow> en_state (with_state STATE_DELETED e) = STATE_NEW)"
      using new_names [OF ok, of k b] e n by (auto simp: buffer_delete_def)
    show "dict_get (st_dirty ?t) k = Some b \<Longrightarrow>
        if b = a then en_oid e = Some k \<and> en_state (with_state STATE_DELETED e) = STATE_DIRTY else dict_get (st_dirty st) k = Some b"
      using dirty_names [OF ok, of k b] e o by (auto simp: buffer_delete_def split: if_splits)
    show "dict_get (st_deleted ?t) k = Some (tj, Some b) \<Longrightarrow>
        dict_get (st_deleted st) k = Some (tj, Some b) \<or> b = a \<and> en_oid e = Some k"
      using o by (auto simp: buffer_delete_def split: if_splits)
    show "bufs_wf ?t"
      using ok by (simp add: session_ok_def bufs_wf_def buffer_delete_def)
  qed (use e o in \<open>auto simp: buffer_delete_def\<close>)
  then show ?thesis
    by (intro keeps_change [OF e, where e' = "with_state STATE_DELETED e"]) (use e in \<open>auto simp: buffer_delete_def\<close>)
qed

lemma delete_unseen_keeps: "keeps st (buffer_delete None oid ti st)"
proof -
  have "session_ok (buffer_delete None oid ti st)" if ok: "session_ok st"
  proof -
    have w: "ids_ok st" "states_ok st" "bufs_wf st" "names_ok st"
      using ok by (auto simp: session_ok_def)
    have "ids_ok (buffer_delete None oid ti st)"
      using ids_okD(3) [OF w(1)] by (intro ids_ok_same [OF w(1)]) (auto simp: buffer_delete_def split: if_splits)
    moreover have "states_ok (buffer_delete None oid ti st)"
      using w(2) by (auto simp: states_ok_def buffer_delete_def)
    moreover have "names_ok (buffer_delete None oid ti st)"
      using w(4) by (auto simp: names_ok_def buffer_delete_def)
    ultimately show ?thesis
      using w(3) by (simp add: session_ok_def bufs_wf_def buffer_delete_def)
  qed
  then show ?thesis
    by (auto simp: keeps_def plain_names_def buffer_delete_def onward_def)
qed

lemma delete_oid_keeps:
  assumes "delete_oid obj oid ti st = (r, st')"
    and "\<And>a. obj = Some a \<Longrightarrow> \<exists>e. dict_get (st_heap st) a = Some e \<and> en_oid e = Some oid"
  shows "keeps st st'"
proof (cases obj)
  case None
  then show ?thesis
    using assms(1) delete_unseen_keeps by (auto simp: delete_oid_def is_new_def split: if_splits)
next
  case (Some a)
  then obtain e where "dict_get (st_heap st) a = Some e" "en_oid e = Some oid"
    using assms(2) by blast
  then show ?thesis
    using assms(1) Some cancel_keeps delete_live_keeps by (auto simp: delete_oid_def is_new_def split: if_splits)
qed

lemma delete_instance_keeps: "delete_instance env a st = (r, st') \<Longrightarrow> keeps st st'"
  unfolding delete_instance_def
  apply (erule keeps_bind)
   apply simp
  apply (erule keeps_with)
  apply (erule keeps_bind)
   apply simp
  apply (auto split: option.splits if_splits intro: delete_oid_keeps)
  done

lemma index_keeps [simp]: "keeps st (st\<lparr>st_index := im\<rparr>)"
  using staged_session [OF staged_index [of st im]] by (simp add: keeps_def plain_names_def onward_def)

lemma ensure_index_keeps: "ensure_index env ti st = (r, st') \<Longrightarrow> keeps st st'"
  by (auto simp: ensure_index_def split: sum.splits prod.splits)

lemma delete_by_key_keeps:
  assumes "delete_by_key env ti key st = (r, st')"
  shows "keeps st st'"
proof -
  have last: "keeps s s2"
    if "(case holder of None \<Rightarrow> (Inr False, s)
        | Some oid \<Rightarrow> if dict_get (st_deleted s) oid \<noteq> None then (Inr False, s)
            else delete_oid (dict_get (st_registry s) oid) oid ti s) = (q, s2)" for holder s q s2
  proof (cases "session_ok s")
    case True
    then have "\<exists>e. dict_get (st_heap s) a = Some e \<and> en_oid e = Some oid" if "dict_get (st_registry s) oid = Some a" for oid a
      using names_okD(1) [OF _ that] by (simp add: session_ok_def)
    then show ?thesis
      using that delete_oid_keeps by (fastforce split: option.splits if_splits)
  qed (simp add: keeps_def)
  show ?thesis
    using assms unfolding delete_by_key_def
    apply (rule keeps_bind)
     apply simp
    apply (auto split: list.splits prod.splits)
    apply (erule keeps_bind)
     apply simp
    apply (auto split: if_splits)
    apply (erule keeps_bind)
     apply (erule ensure_index_keeps)
    apply (erule keeps_bind)
     apply simp
    apply (erule last)
    done
qed

section \<open>Consumers\<close>

text \<open>What becomes of one consumer: the state it reports the new TID from, or detached.\<close>

definition fed :: "('s, 'c) senv \<Rightarrow> delta \<Rightarrow> 'c \<Rightarrow> 'c option" where
  "fed env d c =
     (case se_feed env d c of
        (Inl e, c') \<Rightarrow> None
      | (Inr ok, c') \<Rightarrow> if Some (se_watermark env c') = dl_tid d then Some c' else None)"

lemma deliver_one_get: "dict_get (deliver_one env d (i, c) cs) k = (if k = i then fed env d c else dict_get cs k)"
  by (auto simp: deliver_one_def fed_def split: prod.split sum.split)

lemma deliver_one_wf: "dict_wf cs \<Longrightarrow> dict_wf (deliver_one env d x cs)"
  by (auto simp: deliver_one_def split: prod.split sum.split)

lemma delivered_get:
  "dict_wf xs \<Longrightarrow> dict_get (fold (deliver_one env d) xs cs) k =
     (case dict_get xs k of None \<Rightarrow> dict_get cs k | Some c \<Rightarrow> fed env d c)"
proof (induction xs arbitrary: cs)
  case (Cons x xs)
  obtain i c where x: "x = (i, c)"
    by fastforce
  have "dict_get xs i = None" "dict_wf xs"
    using Cons.prems by (simp_all add: x dict_wf_def map_of_eq_None_iff)
  then show ?case
    using Cons.IH [of "deliver_one env d (i, c) cs"] by (simp add: x deliver_one_get split: option.split)
qed simp

lemma delivered_wf: "dict_wf cs \<Longrightarrow> dict_wf (fold (deliver_one env d) xs cs)"
  by (induction xs arbitrary: cs) (simp_all add: deliver_one_wf)

definition consumers_at :: "('s, 'c) senv \<Rightarrow> ('s, 'c) store \<Rightarrow> bool" where
  "consumers_at env st \<longleftrightarrow> dict_wf (st_consumers st) \<and>
     (\<forall>k c. dict_get (st_consumers st) k = Some c \<longrightarrow> se_watermark env c = st_last_tid st)"

text \<open>What the last phase of a captured commit does to the consumers.\<close>

definition delta_built :: "('s, 'c) senv \<Rightarrow> ('s, 'c) store \<Rightarrow> capture \<Rightarrow> (nat, bytes) dict \<times> (nat \<times> nat \<times> bytes) list \<Rightarrow> delta" where
  "delta_built env st c priors =
     build_delta (ca_tid c) (cb_records (ca_batch c)) (cb_types (ca_batch c)) (st_root_oid st) (fst priors) (snd priors)
       (nat (uid (acting st))) (se_clock env)"

lemma p3_consumers:
  assumes cap: "captured env (pending_of st) (st_deleted st) st va enc st1 c st2" and st: "staged st st1" and ok: "session_ok st"
    and p3: "p3_finalize env c (st2\<lparr>st_backend := b\<rparr>) = (Inr tid, st')"
  shows "st_consumers st = [] \<and> st_consumers st' = [] \<or>
    (\<exists>priors. read_delta_priors env (pending_of st) (st_deleted st) (va_gate va) st1 = Inr priors \<and>
       st_consumers st' = fold (deliver_one env (delta_built env st c priors)) (st_consumers st) (st_consumers st))"
proof -
  note c = captured_state [OF cap st] and d = stage_eqD [OF stagedD [OF st]]
  obtain im where st': "st' = (case ca_delta c of None \<Rightarrow> settle_durable c (st2\<lparr>st_backend := b, st_index := im\<rparr>)
       | Some d \<Rightarrow> deliver env d (settle_durable c (st2\<lparr>st_backend := b, st_index := im\<rparr>)))"
    using p3_finalize_Inr [OF p3] by metis
  let ?t = "settle_durable c (st2\<lparr>st_backend := b, st_index := im\<rparr>)"
  obtain u where "same_oids (st2\<lparr>st_backend := b, st_index := im\<rparr>) u" "?t = u\<lparr>st_last_tid := ca_tid c\<rparr>"
    by (rule settle_same)
  then have t: "st_consumers ?t = st_consumers st"
    using c(7) by (simp add: same_oids_def)
  obtain priors where pr: "read_delta_priors env (pending_of st) (st_deleted st) (va_gate va) st1 = Inr priors"
    "ca_delta c = delta_of env (ca_tid c) enc priors (take_tid st1)"
    and b: "ca_batch c = build_batch (ca_tid c) enc (st_deleted st) (take_tid st1)"
    using cap by (auto simp: captured_def)
  show ?thesis
  proof (cases "st_consumers st = []")
    case True
    then show ?thesis
      using pr(2) d t by (simp add: st' delta_of_def)
  next
    case False
    then have "ca_delta c = Some (delta_built env st c priors)"
      using pr(2) d b by (simp add: delta_of_def delta_built_def build_batch_def)
    then have "st_consumers st' = fold (deliver_one env (delta_built env st c priors)) (st_consumers st) (st_consumers st)"
      using t by (simp add: st' deliver_def)
    then show ?thesis
      using pr(1) by blast
  qed
qed

lemma p3_consumers_at:
  assumes cap: "captured env (pending_of st) (st_deleted st) st va enc st1 c st2" and st: "staged st st1" and ok: "session_ok st"
    and p3: "p3_finalize env c (st2\<lparr>st_backend := b\<rparr>) = (Inr tid, st')" and w: "dict_wf (st_consumers st)"
  shows "consumers_at env st'"
  using p3_consumers [OF cap st ok p3]
proof
  assume "\<exists>priors. read_delta_priors env (pending_of st) (st_deleted st) (va_gate va) st1 = Inr priors \<and>
      st_consumers st' = fold (deliver_one env (delta_built env st c priors)) (st_consumers st) (st_consumers st)"
  then obtain priors where "st_consumers st' = fold (deliver_one env (delta_built env st c priors)) (st_consumers st) (st_consumers st)"
    by blast
  then show ?thesis
    using w p3_session(2,4) [OF cap st ok p3]
    by (auto simp: consumers_at_def delivered_wf delivered_get fed_def delta_built_def build_delta_def
        split: option.splits prod.splits sum.splits if_splits)
qed (simp add: consumers_at_def)

lemma attach_at:
  assumes "attach env i c st = (r, st')" and "consumers_at env st"
  shows "consumers_at env st'"
proof -
  have "dict_wf (st_consumers st @ [(i, c)])" if "dict_get (st_consumers st) i = None"
    using assms(2) that by (simp add: consumers_at_def dict_wf_def map_of_eq_None_iff)
  moreover have "dict_get (st_consumers st @ [(i, c)]) k = (case dict_get (st_consumers st) k of Some x \<Rightarrow> Some x | None \<Rightarrow> dict_get [(i, c)] k)" for k
    by (simp add: map_add_def split: option.split)
  ultimately show ?thesis
    using assms by (auto simp: attach_def bind_act_def consumers_at_def split: if_splits sum.splits option.splits)
qed

lemma detach_at: "detach_consumer i st = (r, st') \<Longrightarrow> consumers_at env st \<Longrightarrow> consumers_at env st'"
  by (auto simp: detach_consumer_def bind_act_def consumers_at_def split: if_splits sum.splits)

section \<open>Runs\<close>

text \<open>
  One operation of a session, with the TID it reported. The allocator and the backend are shared by
  every operation; \<open>admits\<close> is what the application makes sure of before it attaches a consumer. A
  commit whose index folds raised after the batch was durable is not a step: the session is broken.
\<close>

inductive session_step ::
    "('s, 'c) senv \<Rightarrow> ('s \<Rightarrow> 'c \<Rightarrow> bool) \<Rightarrow> ('s, 'c) store \<Rightarrow> nat list \<Rightarrow> ('s, 'c) store \<Rightarrow> bool"
  for env :: "('s, 'c) senv" and admits :: "'s \<Rightarrow> 'c \<Rightarrow> bool" where
  creating: "dict_get (st_heap st) a = None \<Longrightarrow> plain_fields (ti_field_names ti) \<Longrightarrow>
     session_step env admits st [] (create a ti vals l st)"
| storing: "store_entity env a st = (r, st') \<Longrightarrow> session_step env admits st [] st'"
| writing: "set_attr env a f v st = (r1, st') \<Longrightarrow> session_step env admits st [] st'"
| relabel: "set_label_columns env a g st = (r1, st') \<Longrightarrow> session_step env admits st [] st'"
| marking: "mark_dirty env a st = (r1, st') \<Longrightarrow> session_step env admits st [] st'"
| deleting: "delete_instance env a st = (r2, st') \<Longrightarrow> session_step env admits st [] st'"
| deleting_key: "delete_by_key env ti key st = (r2, st') \<Longrightarrow> session_step env admits st [] st'"
| entering: "session_step env admits st [] (push_scope p st)"
| leaving: "session_step env admits st [] (pop_scope st)"
| attaching: "attach env i c st = (r1, st') \<Longrightarrow> admits (st_backend st) c \<Longrightarrow> session_step env admits st [] st'"
| detaching: "detach_consumer i st = (r1, st') \<Longrightarrow> session_step env admits st [] st'"
| refusing: "Store_Commit.commit env fault st = (Inl err, st') \<Longrightarrow>
     next_tid_of (st_alloc st') = next_tid_of (st_alloc st) \<Longrightarrow> session_step env admits st [] st'"
| resting: "Store_Commit.commit env fault st = (Inr None, st') \<Longrightarrow> session_step env admits st [] st'"
| committing: "Store_Commit.commit env fault st = (Inr (Some tid), st') \<Longrightarrow> session_step env admits st [tid] st'"

inductive session_run ::
    "('s, 'c) senv \<Rightarrow> ('s \<Rightarrow> 'c \<Rightarrow> bool) \<Rightarrow> ('s, 'c) store \<Rightarrow> nat list \<Rightarrow> ('s, 'c) store \<Rightarrow> bool"
  for env :: "('s, 'c) senv" and admits :: "'s \<Rightarrow> 'c \<Rightarrow> bool" where
  start: "session_run env admits st [] st"
| more_steps: "session_run env admits st ts st1 \<Longrightarrow> session_step env admits st1 us st2 \<Longrightarrow> session_run env admits st (ts @ us) st2"

text \<open>Every step is one of: a quiet operation, a change of the consumers, a commit.\<close>

definition same_but_consumers :: "('s, 'c) store \<Rightarrow> ('s, 'c) store \<Rightarrow> bool" where
  "same_but_consumers st st' \<longleftrightarrow> (\<exists>cs. st' = st\<lparr>st_consumers := cs\<rparr>)"

lemma attach_same: "attach env i c st = (r, st') \<Longrightarrow> same_but_consumers st st'"
  unfolding same_but_consumers_def
  by (auto simp: attach_def bind_act_def split: if_splits sum.splits intro: exI [of _ "st_consumers st"])

lemma detach_same: "detach_consumer i st = (r, st') \<Longrightarrow> same_but_consumers st st'"
  unfolding same_but_consumers_def
  by (auto simp: detach_consumer_def bind_act_def split: if_splits sum.splits intro: exI [of _ "st_consumers st"])

lemma scope_keeps: "keeps st (push_scope p st)" "keeps st (pop_scope st)"
  by (simp_all add: keeps_def push_scope_def pop_scope_def session_ok_def ids_ok_def states_ok_def bufs_wf_def names_ok_def plain_names_def onward_def)

definition commit_step :: "('s, 'c) senv \<Rightarrow> ('s, 'c) store \<Rightarrow> nat list \<Rightarrow> ('s, 'c) store \<Rightarrow> bool" where
  "commit_step env st ts st' \<longleftrightarrow> (\<exists>fault r. Store_Commit.commit env fault st = (r, st') \<and>
      (case r of Inl err \<Rightarrow> ts = [] \<and> next_tid_of (st_alloc st') = next_tid_of (st_alloc st)
         | Inr t \<Rightarrow> ts = (case t of None \<Rightarrow> [] | Some tid \<Rightarrow> [tid])))"

lemma session_step_split:
  assumes "session_step env admits st ts st'"
  shows "ts = [] \<and> keeps st st' \<or>
    ts = [] \<and> same_but_consumers st st' \<and> ((\<exists>i r. detach_consumer i st = (r, st')) \<or>
      (\<exists>i c r. attach env i c st = (r, st') \<and> admits (st_backend st) c)) \<or>
    commit_step env st ts st'"
  using assms
proof cases
  case (creating a ti vals l)
  then show ?thesis using create_keeps by blast
next
  case (attaching i c r1)
  then show ?thesis using attach_same [OF attaching(2)] by auto
next
  case (detaching i r1)
  then show ?thesis using detach_same [OF detaching(2)] by auto
next
  case (refusing fault err)
  then have "commit_step env st ts st'"
    unfolding commit_step_def by (intro exI [of _ fault] exI [of _ "Inl err"]) simp
  then show ?thesis by blast
next
  case (resting fault)
  then have "commit_step env st ts st'"
    unfolding commit_step_def by (intro exI [of _ fault] exI [of _ "Inr None"]) simp
  then show ?thesis by blast
next
  case (committing fault tid)
  then have "commit_step env st ts st'"
    unfolding commit_step_def by (intro exI [of _ fault] exI [of _ "Inr (Some tid)"]) simp
  then show ?thesis by blast
qed (blast intro: store_keeps set_attr_keeps set_labels_keeps mark_dirty_keeps delete_instance_keeps delete_by_key_keeps scope_keeps)+

text \<open>What a run keeps.\<close>

definition running :: "('s, 'c) senv \<Rightarrow> ('s \<Rightarrow> bool) \<Rightarrow> ('s, 'c) store \<Rightarrow> bool" where
  "running env good st \<longleftrightarrow> session_ok st \<and> plain_names st \<and> good (st_backend st) \<and> consumers_at env st \<and>
     next_tid_of (st_alloc st) = st_last_tid st + 1"

lemma same_running: "same_but_consumers st st' \<Longrightarrow> running env good st \<Longrightarrow> consumers_at env st' \<Longrightarrow> running env good st'"
  by (auto simp: same_but_consumers_def running_def session_ok_def ids_ok_def states_ok_def bufs_wf_def names_ok_def plain_names_def)

context session_backend
begin

lemma durable_running:
  assumes d: "session_ok st0" "grown st st0" "staged st0 st1" "captured env (pending_of st0) (st_deleted st0) st0 va enc st1 c s1"
      "se_apply env (ca_batch c) (st_backend st) = (Inr (), b)" "p3_finalize env c (s1\<lparr>st_backend := b\<rparr>) = (Inr tid, st')"
    and r: "running env inv st"
  shows "running env inv st' \<and> tid = next_tid_of (st_alloc st) \<and> next_tid_of (st_alloc st') = next_tid_of (st_alloc st) + 1"
proof -
  have i: "inv (st_backend st)" "plain_names st" "dict_wf (st_consumers st)"
    using r by (auto simp: running_def consumers_at_def)
  note f = durable_facts [OF d(2,1,3-6) i(1,2)]
  have "dict_wf (st_consumers st0)"
    using i(3) session_eqD(10) [OF grownD(1) [OF d(2)]] by simp
  then have "consumers_at env st'"
    by (rule p3_consumers_at [OF d(4,3,1,6)])
  then show ?thesis
    using f by (simp add: running_def)
qed

lemma step_running:
  assumes s: "session_step env admits st ts st'" and r: "running env inv st"
  shows "running env inv st' \<and> ts = [next_tid_of (st_alloc st)..<next_tid_of (st_alloc st')] \<and>
    next_tid_of (st_alloc st) \<le> next_tid_of (st_alloc st')"
proof -
  have ok: "session_ok st" and i: "inv (st_backend st)" and pl: "plain_names st" and at: "consumers_at env st"
    using r by (auto simp: running_def)
  have quiet: "running env inv st' \<and> next_tid_of (st_alloc st') = next_tid_of (st_alloc st)" if "keeps st st'"
    using that r by (auto simp: keeps_def running_def consumers_at_def)
  consider (quiet) "ts = []" "keeps st st'" | (consumers) "ts = []" "same_but_consumers st st'" "consumers_at env st'"
    | (comm) fault q where "Store_Commit.commit env fault st = (q, st')"
       "case q of Inl err \<Rightarrow> ts = [] \<and> next_tid_of (st_alloc st') = next_tid_of (st_alloc st)
         | Inr t \<Rightarrow> ts = (case t of None \<Rightarrow> [] | Some tid \<Rightarrow> [tid])"
    using session_step_split [OF s] attach_at [OF _ at] detach_at [OF _ at] unfolding commit_step_def by blast
  then show ?thesis
  proof cases
    case consumers
    then show ?thesis
      using same_running [OF _ r] by (auto simp: same_but_consumers_def)
  next
    case comm
    have atom: "se_apply env b (st_backend st) = (Inl e, t) \<Longrightarrow> t = st_backend st" for b e t
      by (rule commit_fails [OF i])
    show ?thesis
    proof (rule commit_split [OF comm(1) ok atom])
      fix err
      assume a: "q = Inl err" "session_ok st'" "buffers_kept st st'" "st_backend st' = st_backend st"
        "next_tid_of (st_alloc st') = next_tid_of (st_alloc st)" "st_last_tid st' = st_last_tid st" "st_consumers st' = st_consumers st"
        "plain_names st \<Longrightarrow> plain_names st'"
      then show ?thesis
        using a comm(2) r by (simp add: running_def consumers_at_def)
    next
      assume a: "q = Inr None" "session_ok st'" "grown st st'"
      then show ?thesis
        using comm(2) r plain_grown [OF a(3) pl] session_eqD [OF grownD(1) [OF a(3)]] by (simp add: running_def consumers_at_def)
    next
      fix c W st0 va enc st1 s1 b r3
      assume d: "session_ok st0" "grown st st0" "staged st0 st1" "captured env (pending_of st0) (st_deleted st0) st0 va enc st1 c s1"
        "se_apply env (ca_batch c) (st_backend st) = (Inr (), b)" "p3_finalize env c (s1\<lparr>st_backend := b\<rparr>) = (r3, st')"
        and q: "q = map_sum id Some r3"
      note f = durable_facts [OF d(2,1,3-6) i pl]
      obtain tid where t: "r3 = Inr tid"
        using f(6,12) comm(2) q by (cases r3) auto
      then show ?thesis
        using durable_running [OF d(1-5) d(6) [unfolded t] r] comm(2) q by simp
    qed
  qed (use quiet in auto)
qed

lemma upt_join: "i \<le> j \<Longrightarrow> j \<le> k \<Longrightarrow> [i..<j] @ [j..<k] = [i..<k]"
  using upt_add_eq_append [of i j "k - j"] by simp

lemma run_running:
  assumes "session_run env admits st ts st'" and "running env inv st"
  shows "running env inv st' \<and> ts = [next_tid_of (st_alloc st)..<next_tid_of (st_alloc st')] \<and>
    next_tid_of (st_alloc st) \<le> next_tid_of (st_alloc st')"
  using assms
proof (induction rule: session_run.induct)
  case (more_steps st ts st1 us st2)
  then have s: "running env inv st1" "ts = [next_tid_of (st_alloc st)..<next_tid_of (st_alloc st1)]"
    "next_tid_of (st_alloc st) \<le> next_tid_of (st_alloc st1)"
    by auto
  show ?case
    using step_running [OF more_steps.hyps(2) s(1)] s(2,3) by (simp add: upt_join)
qed simp

end

end
