(* ===== verification/Store_Mirror.thy ===== *)
theory Store_Mirror
  imports Store_Run
begin

text \<open>
  A watched session: what a commit must guarantee of its batch for a consumer of its deltas (one op
  per OID, types before their records, priors as stored) holds on every run, so the reference applier
  mirrors the store after every commit and is never detached.
\<close>

section \<open>The type lineage\<close>

definition lineage_ok :: "(nat \<Rightarrow> stored_record option) \<Rightarrow> type_row set \<Rightarrow> ('s, 'c) store \<Rightarrow> bool" where
  "lineage_ok f T st \<longleftrightarrow>
     st_durable_cids st = fst ` T \<and> inj_on fst T \<and> (\<forall>oid r. f oid = Some r \<longrightarrow> sr_cid r \<in> fst ` T) \<and>
     (\<forall>oid. f oid \<noteq> None \<longrightarrow> oid < next_oid_of (st_alloc st)) \<and> (\<forall>oid. dict_get (st_new st) oid \<noteq> None \<longrightarrow> f oid = None)"

lemma lineage_onward:
  assumes l: "lineage_ok f T st" and o: "onward st st'"
  shows "lineage_ok f T st'"
proof -
  have "f oid = None" if "dict_get (st_new st') oid \<noteq> None" for oid
  proof (cases "dict_get (st_new st) oid")
    case None
    then have "next_oid_of (st_alloc st) \<le> oid"
      using o that by (auto simp: onward_def)
    then show ?thesis
      using l by (auto simp: lineage_ok_def)
  next
    case (Some a)
    then show ?thesis
      using l by (simp add: lineage_ok_def)
  qed
  moreover have "oid < next_oid_of (st_alloc st')" if "f oid \<noteq> None" for oid
    using l o that unfolding lineage_ok_def onward_def by (meson order_less_le_trans)
  ultimately show ?thesis
    using l o by (simp add: lineage_ok_def onward_def)
qed

text \<open>The rows a batch carries are new, and every record has its row.\<close>

definition types_fit :: "nat set \<Rightarrow> encoded_batch \<Rightarrow> bool" where
  "types_fit durable out \<longleftrightarrow> distinct (map fst (eb_types out)) \<and> fst ` set (eb_types out) \<inter> durable = {} \<and>
     (\<forall>(oid, cid, payload) \<in> set (eb_records out). cid \<in> durable \<union> fst ` set (eb_types out))"

lemma cid_for_fits:
  assumes "cid_for ti types st = ((cid, types'), st')"
    and "distinct (map fst types)" and "fst ` set types \<inter> st_durable_cids st = {}"
  shows "distinct (map fst types')" and "fst ` set types' \<inter> st_durable_cids st = {}"
    and "cid \<in> st_durable_cids st \<union> fst ` set types'" and "set types \<subseteq> set types'"
proof -
  have d: "st_durable_cids st' = st_durable_cids st"
    by (rule stage_eqD [OF stagedD [OF cid_for_staged [OF assms(1)]]])
  have "types' = (if cid \<notin> st_durable_cids st' \<and> cid \<notin> fst ` set types then types @ [(cid, ti_name ti, ti_field_names ti)] else types)"
  proof -
    obtain k s where "(case current_cid ti st of Some cid \<Rightarrow> (cid, st) | None \<Rightarrow> fresh_cid ti st) = (k, s)"
      by fastforce
    then show ?thesis
      using assms(1) unfolding cid_for_def by (simp only: prod.case prod.inject) blast
  qed
  then show "distinct (map fst types')" "fst ` set types' \<inter> st_durable_cids st = {}"
    "cid \<in> st_durable_cids st \<union> fst ` set types'" "set types \<subseteq> set types'"
    using assms(2,3) by (auto simp: d split: if_splits)
qed

lemma note_streamed_keeps:
  assumes "note_streamed_swaps env a ti vals payload out = Inr out'"
  shows "eb_types out' = eb_types out" and "eb_records out' = eb_records out"
  using assms by (auto simp: note_streamed_swaps_def Let_def bind_res_Inr split: if_splits)

lemma encode_entity_fits:
  assumes "encode_entity env x out st = (Inr out', st')" and "types_fit (st_durable_cids st) out"
  shows "types_fit (st_durable_cids st') out'"
proof -
  obtain oid a where x: "x = (oid, a)"
    by fastforce
  obtain e where e: "dict_get (st_heap st) a = Some e"
    using assms by (cases "dict_get (st_heap st) a") (auto simp: x encode_entity_def with_entity_def bind_act_def entity_at_def)
  obtain cid types st1 where c: "cid_for (en_ti e) (eb_types out) st = ((cid, types), st1)"
    by (metis prod.collapse)
  obtain p alloc out1 where p: "encode_payload (se_enc env) (se_forms env) (oid_for_encode st1) (blob_position (en_ti e))
      (sink_blob (se_sha env)) (en_values e) (st_alloc st1, out\<lparr>eb_types := types\<rparr>) = (p, (alloc, out1))"
    by (metis prod.collapse)
  have g: "eb_types out1 = types" "eb_records out1 = eb_records out"
    using encode_payload_grown [OF p] by (simp_all add: blob_grown_def)
  obtain payload where "note_streamed_swaps env a (en_ti e) (en_values e) payload
      (out1\<lparr>eb_records := eb_records out1 @ [(oid, cid, payload)]\<rparr>) = Inr out'"
    using assms(1) e c p by (cases p) (auto simp: x encode_entity_def with_entity_def bind_act_def entity_at_def)
  from note_streamed_keeps [OF this] have o: "eb_types out' = types" "\<exists>payload. eb_records out' = eb_records out @ [(oid, cid, payload)]"
    using g by auto
  have d: "st_durable_cids st' = st_durable_cids st"
    by (rule stage_eqD [OF stagedD [OF encode_entity_effect(1) [OF assms(1) [unfolded x]]]])
  note t = cid_for_fits [OF c]
  obtain payload where r: "eb_records out' = eb_records out @ [(oid, cid, payload)]"
    using o(2) by blast
  have "distinct (map fst (eb_types out))" "fst ` set (eb_types out) \<inter> st_durable_cids st = {}"
    using assms(2) by (auto simp: types_fit_def)
  note t = t [OF this]
  have old: "fst (snd y) \<in> st_durable_cids st \<union> fst ` set types" if "y \<in> set (eb_records out)" for y
  proof -
    have "fst (snd y) \<in> st_durable_cids st \<union> fst ` set (eb_types out)"
      using assms(2) that by (simp add: types_fit_def case_prod_unfold)
    then show ?thesis
      using t(4) by (meson UnE UnI1 UnI2 image_mono subsetD)
  qed
  have "\<forall>y \<in> set (eb_records out'). fst (snd y) \<in> st_durable_cids st \<union> fst ` set types"
    using old t(3) by (simp add: r)
  then show ?thesis
    using t(1,2) by (simp only: types_fit_def d o(1) case_prod_unfold)
qed

lemma encode_pending_fits:
  assumes "fold_act (encode_entity env) pending out st = (Inr out', st')" and "types_fit (st_durable_cids st) out"
  shows "types_fit (st_durable_cids st') out'"
  using assms
proof (induction pending arbitrary: out st)
  case (Cons x pending)
  obtain out1 st1 where s: "encode_entity env x out st = (Inr out1, st1)" "fold_act (encode_entity env) pending out1 st1 = (Inr out', st')"
    using Cons.prems(1) by (auto simp: bind_act_Inr)
  show ?case
    by (rule Cons.IH [OF s(2) encode_entity_fits [OF s(1) Cons.prems(2)]])
qed simp

lemma captured_batch:
  assumes cap: "captured env (pending_of st) (st_deleted st) st va enc st1 c st2" and ok: "session_ok st"
  shows "map sr_oid (cb_records (ca_batch c)) = map fst (pending_of st)" and "cb_deletes (ca_batch c) = map fst (st_deleted st)"
    and "cb_tid (ca_batch c) = ca_tid c" and "distinct (map fst (cb_types (ca_batch c)))"
    and "fst ` set (cb_types (ca_batch c)) \<inter> st_durable_cids st = {}"
    and "\<forall>r \<in> set (cb_records (ca_batch c)). sr_cid r \<in> st_durable_cids st \<union> fst ` set (cb_types (ca_batch c))"
proof -
  obtain stv where e: "encode_pending env (pending_of st) stv = (Inr enc, st1)" "validate_before_tid env (pending_of st) (st_deleted st) st = (Inr va, stv)"
    and b: "ca_batch c = build_batch (ca_tid c) enc (st_deleted st) (take_tid st1)"
    using cap by (auto simp: captured_def)
  have dv: "st_durable_cids stv = st_durable_cids st"
    by (rule stage_eqD [OF stagedD [OF validate_staged [OF e(2)]]])
  have d1: "st_durable_cids st1 = st_durable_cids stv"
    by (rule stage_eqD [OF stagedD [OF encode_pending_staged [OF e(1)]]])
  have "types_fit (st_durable_cids stv) empty_batch"
    by (simp add: types_fit_def empty_batch_def)
  then have fit: "types_fit (st_durable_cids st) enc"
    using encode_pending_fits [OF e(1) [unfolded encode_pending_def]] d1 dv by simp
  show "map sr_oid (cb_records (ca_batch c)) = map fst (pending_of st)"
    using encodes_oids [OF encode_pending_records [OF e(1)]] by (simp add: b build_batch_def stamp_oids)
  show "cb_deletes (ca_batch c) = map fst (st_deleted st)" "cb_tid (ca_batch c) = ca_tid c"
    by (simp_all add: b build_batch_def)
  show "distinct (map fst (cb_types (ca_batch c)))" "fst ` set (cb_types (ca_batch c)) \<inter> st_durable_cids st = {}"
    using fit by (simp_all add: b build_batch_def types_fit_def)
  show "\<forall>r \<in> set (cb_records (ca_batch c)). sr_cid r \<in> st_durable_cids st \<union> fst ` set (cb_types (ca_batch c))"
    using fit by (auto simp: b build_batch_def stamp_records_def types_fit_def)
qed

lemma captured_wf:
  assumes cap: "captured env (pending_of st) (st_deleted st) st va enc st1 c st2" and ok: "session_ok st" and l: "lineage_ok f T st"
  shows "batch_wf f T (ca_batch c)"
proof -
  note b = captured_batch [OF cap ok]
  have wf: "bufs_wf st"
    using ok by (simp add: session_ok_def)
  have T: "st_durable_cids st = fst ` T" "inj_on fst T"
    using l by (auto simp: lineage_ok_def)
  have "distinct (map sr_oid (cb_records (ca_batch c)))"
    using pending_wf [OF wf] by (simp add: b(1) dict_wf_def)
  moreover have "distinct (cb_deletes (ca_batch c))"
    using wf by (simp add: b(2) bufs_wf_def dict_wf_def)
  moreover have "oid \<notin> set (cb_deletes (ca_batch c))" if "oid \<in> sr_oid ` set (cb_records (ca_batch c))" for oid
  proof -
    have "oid \<in> fst ` set (pending_of st)"
      using that b(1) by (metis set_map)
    then have "dict_get (pending_of st) oid \<noteq> None"
      by (simp only: map_of_eq_None_iff not_not)
    then have "dict_get (st_deleted st) oid = None"
      using pending_get [OF wf, of oid] by (cases "dict_get (st_deleted st) oid") simp_all
    then show ?thesis
      by (simp add: b(2) map_of_eq_None_iff)
  qed
  moreover have "inj_on fst (T \<union> set (cb_types (ca_batch c)))"
  proof -
    have "inj_on fst (set (cb_types (ca_batch c)))"
      using b(4) by (simp add: distinct_map)
    moreover have "fst ` set (cb_types (ca_batch c)) \<inter> fst ` T = {}"
      using b(5) T(1) by simp
    ultimately show ?thesis
      using T(2) by (auto simp: inj_on_Un)
  qed
  ultimately show ?thesis
    using b(4,6) T(1) l unfolding batch_wf_def by (auto simp: image_Un lineage_ok_def)
qed

section \<open>The priors of a batch\<close>

definition reads_of :: "(nat \<Rightarrow> stored_record option) \<Rightarrow> (nat, stored_record) dict \<Rightarrow> bool" where
  "reads_of f recs \<longleftrightarrow> (\<forall>oid r. dict_get recs oid = Some r \<longrightarrow> f oid = Some r)"

lemma take_priors_Inr:
  assumes "take_priors recs persisted dels = Inr (priors, tombs)"
  shows "\<forall>oid. dict_get priors oid = (if oid \<in> set persisted then map_option sr_payload (dict_get recs oid) else None)"
    and "\<forall>oid \<in> set persisted. dict_get recs oid \<noteq> None" and "map fst tombs = map fst dels"
    and "\<forall>(oid, cid, prior) \<in> set tombs. \<exists>r. dict_get recs oid = Some r \<and> sr_cid r = cid \<and> sr_payload r = prior"
proof -
  obtain ps ds where p: "map_res (\<lambda>oid. case dict_get recs oid of None \<Rightarrow> Inl DataCrystalError | Some r \<Rightarrow> Inr (oid, sr_payload r)) persisted = Inr ps"
    and d: "map_res (\<lambda>(oid, ti, obj). case dict_get recs oid of None \<Rightarrow> Inl DataCrystalError | Some r \<Rightarrow> Inr (oid, sr_cid r, sr_payload r)) dels = Inr ds"
    and e: "ps = priors" "ds = tombs"
    using assms by (auto simp: take_priors_def bind_res_Inr)
  show "\<forall>oid. dict_get priors oid = (if oid \<in> set persisted then map_option sr_payload (dict_get recs oid) else None)"
    using p unfolding e(1) by (induction persisted arbitrary: priors) (auto split: sum.splits option.splits)
  show "\<forall>oid \<in> set persisted. dict_get recs oid \<noteq> None"
    using p by (induction persisted arbitrary: ps) (auto split: sum.splits option.splits)
  show "map fst tombs = map fst dels"
    using d unfolding e(2) by (induction dels arbitrary: tombs) (auto split: sum.splits option.splits)
  show "\<forall>(oid, cid, prior) \<in> set tombs. \<exists>r. dict_get recs oid = Some r \<and> sr_cid r = cid \<and> sr_payload r = prior"
    using d unfolding e(2) by (induction dels arbitrary: tombs) (auto split: sum.splits option.splits)
qed

lemma get_overlay: "dict_get (fold (\<lambda>(oid, r). AList.update oid r) recs gate) oid =
    (case last_with fst recs oid of None \<Rightarrow> dict_get gate oid | Some (k, r) \<Rightarrow> Some r)"
proof (induction recs arbitrary: gate)
  case (Cons p recs)
  obtain k r where p: "p = (k, r)"
    by fastforce
  show ?case
    using Cons.IH [of "AList.update k r gate"] by (auto simp: p last_with_Cons split: option.splits)
qed simp

context storage_backend
begin

lemma load_reads: "inv s \<Longrightarrow> load_many oids s = Inr recs \<Longrightarrow> reads_of (find s) recs"
  using load_many_find [of s oids] unfolding reads_of_def by (metis Inr_inject option.distinct(1))

lemma gate_reads:
  assumes "check_write_gate p decode shapes (\<lambda>oids. load_many oids s) new birth pending deletes = Inr records" and "inv s"
  shows "reads_of (find s) records"
proof (cases "is_root p")
  case True
  then show ?thesis
    using assms(1) by (simp add: check_write_gate_def reads_of_def)
next
  case False
  show ?thesis
  proof (rule check_write_gate_Inr [OF assms(1) False])
    let ?oids = "map ge_oid (filter (\<lambda>e. ge_oid e \<notin> new) pending) @ deletes"
    assume "?oids = [] \<and> records = [] \<or> load_many ?oids s = Inr records"
    then show ?thesis
      using load_reads [OF assms(2), of ?oids records] by (auto simp: reads_of_def)
  qed
qed

end

lemma overlay_reads:
  assumes "reads_of f recs" and "reads_of f gate" and "dict_wf recs"
  shows "reads_of f (fold (\<lambda>(oid, r). AList.update oid r) recs gate)"
  using assms(1,2) unfolding reads_of_def by (simp add: get_merge [OF assms(3)] split: option.splits)

text \<open>Validation touches the index manager only, and the gate ran on the session as it stands.\<close>

definition reindexed :: "('s, 'c) store \<Rightarrow> ('s, 'c) store \<Rightarrow> bool" where
  "reindexed st st' \<longleftrightarrow> (\<exists>im. st' = st\<lparr>st_index := im\<rparr>)"

lemma reindexed_refl [simp]: "reindexed st st"
  unfolding reindexed_def by (rule exI [of _ "st_index st"]) simp

lemma reindexed_trans: "reindexed a b \<Longrightarrow> reindexed b c \<Longrightarrow> reindexed a c"
  by (auto simp: reindexed_def)

lemma reindexed_update [simp]: "reindexed st (st\<lparr>st_index := im\<rparr>)"
  by (auto simp: reindexed_def)

lemma arm_reindexed: "arm_reverse env deletes st = (r, st') \<Longrightarrow> reindexed st st'"
  by (auto simp: arm_reverse_def split: if_splits sum.splits prod.splits)

lemma dangling_reindexed: "check_dangling_deletes env deletes refs st = (r, st') \<Longrightarrow> reindexed st st'"
  by (auto simp: check_dangling_deletes_def split: sum.splits prod.splits)

lemma unique_reindexed: "check_unique_act env entries deleted st = (r, st') \<Longrightarrow> reindexed st st'"
  by (auto simp: check_unique_act_def split: prod.splits)

lemma validate_gate:
  assumes "validate_before_tid env pending deletes st = (Inr va, st')"
  obtains ents s where "pending_entities pending st = Inr ents" and "reindexed st s"
    and "check_store_gate env (filter (\<lambda>(oid, e). ti_protected (en_ti e)) ents)
      (map fst (filter (\<lambda>(oid, ti, obj). ti_protected ti) deletes)) s = Inr (va_gate va)"
proof -
  obtain ents s1 s2 s3 where p: "pending_entities pending st = Inr ents" and a: "arm_reverse env deletes st = (Inr (), s1)"
    and d: "(if armed env deletes then check_dangling_deletes env deletes
        (if reverse_built (st_index s1) then map (\<lambda>(oid, e). (oid, harvest_live_refs s1 e)) ents else []) else return_act ()) s1 = (Inr (), s2)"
    and u: "check_unique_act env (collect_index_entries (map (\<lambda>(oid, e). (oid, en_ti e, en_row e)) ents)) (set (map fst deletes)) s2 = (Inr (), s3)"
    and g: "check_store_gate env (filter (\<lambda>(oid, e). ti_protected (en_ti e)) ents)
      (map fst (filter (\<lambda>(oid, ti, obj). ti_protected ti) deletes)) s3 = Inr (va_gate va)"
    using assms unfolding validate_before_tid_def Let_def by (auto simp: bind_act_Inr)
  have "reindexed s1 s2"
    using d dangling_reindexed by (auto split: if_splits)
  then have "reindexed st s3"
    using arm_reindexed [OF a] unique_reindexed [OF u] reindexed_trans by blast
  then show thesis
    using that p g by blast
qed

lemma read_priors_split:
  assumes "read_delta_priors env pending deletes gate st = Inr priors" and "st_consumers st \<noteq> []"
  shows "\<exists>recs missing. (missing = [] \<and> recs = gate \<or> (\<exists>loaded. se_load env missing (st_backend st) = Inr loaded \<and>
      recs = fold (\<lambda>(oid, r). AList.update oid r) loaded gate)) \<and>
    take_priors recs (filter (\<lambda>oid. dict_get (st_new st) oid = None) (dict_keys pending)) deletes = Inr priors"
proof -
  let ?missing = "filter (\<lambda>oid. dict_get gate oid = None) (filter (\<lambda>oid. dict_get (st_new st) oid = None) (dict_keys pending) @ map fst deletes)"
  obtain recs where r: "(if ?missing = [] then Inr gate
      else bind_res (se_load env ?missing (st_backend st)) (\<lambda>recs. Inr (fold (\<lambda>(oid, r). AList.update oid r) recs gate))) = Inr recs"
    and t: "take_priors recs (filter (\<lambda>oid. dict_get (st_new st) oid = None) (dict_keys pending)) deletes = Inr priors"
    using assms unfolding read_delta_priors_def Let_def by (simp only: if_False bind_res_Inr) blast
  have "?missing = [] \<and> recs = gate \<or> (\<exists>loaded. se_load env ?missing (st_backend st) = Inr loaded \<and>
      recs = fold (\<lambda>(oid, r). AList.update oid r) loaded gate)"
  proof (cases "?missing = []")
    case False
    then show ?thesis
      using r by (simp only: if_False bind_res_Inr Inr_inject) blast
  qed (use r in simp)
  then show ?thesis
    using t by blast
qed

context session_backend
begin

lemma validated_reads:
  assumes "validate_before_tid env pending deletes st = (Inr va, st')" and "inv (st_backend st)"
  shows "reads_of (find (st_backend st)) (va_gate va)"
proof (rule validate_gate [OF assms(1)])
  fix ents :: "(nat \<times> entity) list" and s
  let ?p = "filter (\<lambda>(oid, e). ti_protected (en_ti e)) ents" and ?d = "map fst (filter (\<lambda>(oid, ti, obj). ti_protected ti) deletes)"
  assume s: "reindexed st s" and g: "check_store_gate env ?p ?d s = Inr (va_gate va)"
  have b: "st_backend s = st_backend st"
    using s by (auto simp: reindexed_def)
  show ?thesis
  proof (cases "?p = [] \<and> ?d = []")
    case True
    then show ?thesis
      using g by (simp add: check_store_gate_def reads_of_def)
  next
    case False
    then have "check_write_gate (acting s) (decode_fields env) (st_persisted_fields s)
       (\<lambda>oids. se_load env oids (st_backend st)) (set (dict_keys (st_new s))) (st_birth_labels s)
       (map (\<lambda>(oid, e). gate_entry_of oid e) ?p) ?d = Inr (va_gate va)"
      using g b by (simp only: check_store_gate_def if_False)
    then show ?thesis
      by (rule gate_reads [OF _ assms(2)])
  qed
qed

lemma priors_correct:
  assumes cap: "captured env (pending_of st) (st_deleted st) st va enc st1 c st2" and st: "staged st st1" and ok: "session_ok st"
    and i: "inv (st_backend st)" and l: "lineage_ok (find (st_backend st)) T st"
    and pr: "read_delta_priors env (pending_of st) (st_deleted st) (va_gate va) st1 = Inr priors" and w: "st_consumers st \<noteq> []"
  shows "priors_read (find (st_backend st)) (ca_batch c) (fst priors)"
    and "tombstones_read (find (st_backend st)) (ca_batch c) (snd priors)"
proof -
  let ?f = "find (st_backend st)"
  note b = captured_batch [OF cap ok] and d = stage_eqD [OF stagedD [OF st]]
  obtain stv where "validate_before_tid env (pending_of st) (st_deleted st) st = (Inr va, stv)"
    using cap by (auto simp: captured_def)
  then have gate: "reads_of ?f (va_gate va)"
    using validated_reads i by blast
  let ?persisted = "filter (\<lambda>oid. dict_get (st_new st) oid = None) (dict_keys (pending_of st))"
  obtain recs missing where m: "missing = [] \<and> recs = va_gate va \<or> (\<exists>loaded. se_load env missing (st_backend st) = Inr loaded \<and>
      recs = fold (\<lambda>(oid, r). AList.update oid r) loaded (va_gate va))"
    and take: "take_priors recs ?persisted (st_deleted st) = Inr (fst priors, snd priors)"
    using read_priors_split [OF pr] w unfolding d prod.collapse by blast
  have reads: "reads_of ?f recs"
    using m
  proof
    assume "\<exists>loaded. se_load env missing (st_backend st) = Inr loaded \<and>
      recs = fold (\<lambda>(oid, r). AList.update oid r) loaded (va_gate va)"
    then obtain loaded where "se_load env missing (st_backend st) = Inr loaded"
      "recs = fold (\<lambda>(oid, r). AList.update oid r) loaded (va_gate va)"
      by blast
    then show ?thesis
      using overlay_reads [OF load_reads [OF i] gate load_many_wf] by blast
  qed (use gate in simp)
  note t = take_priors_Inr [OF take]
  show "priors_read ?f (ca_batch c) (fst priors)"
    unfolding priors_read_def
  proof
    fix r
    assume "r \<in> set (cb_records (ca_batch c))"
    then have k: "sr_oid r \<in> set (dict_keys (pending_of st))"
      using b(1) by (metis image_eqI set_map)
    show "dict_get (fst priors) (sr_oid r) = map_option sr_payload (?f (sr_oid r))"
    proof (cases "dict_get (st_new st) (sr_oid r) = None")
      case True
      then obtain x where "dict_get recs (sr_oid r) = Some x" "sr_oid r \<in> set ?persisted"
        using t(2) k by auto
      then show ?thesis
        using t(1) reads by (simp add: reads_of_def)
    next
      case False
      then have "?f (sr_oid r) = None"
        using l by (auto simp: lineage_ok_def)
      then show ?thesis
        using t(1) False by auto
    qed
  qed
  show "tombstones_read ?f (ca_batch c) (snd priors)"
    using t(3,4) reads b(2) unfolding tombstones_read_def reads_of_def by fastforce
qed

end

section \<open>A watched session\<close>

lemma bury_durable [simp]: "st_durable_cids (bury d st) = st_durable_cids st"
  by (cases d) (simp add: bury_def Let_def split: option.split)

lemma swap_durable [simp]: "st_durable_cids (swap_blob w st) = st_durable_cids st"
  by (cases w) (simp add: swap_blob_def map_entity_def put_entity_def split: option.split)

lemma p3_durable:
  assumes "p3_finalize env c st = (Inr tid, st')"
  shows "st_durable_cids st' = st_durable_cids st \<union> fst ` set (cb_types (ca_batch c))"
proof -
  have b: "st_durable_cids (fold bury ds s) = st_durable_cids s" for ds and s :: "('a, 'b) store"
    by (induction ds arbitrary: s) simp_all
  have w: "st_durable_cids (fold swap_blob ws s) = st_durable_cids s" for ws and s :: "('a, 'b) store"
    by (induction ws arbitrary: s) simp_all
  have d: "st_durable_cids (deliver env d s) = st_durable_cids s" for d s
    by (simp add: deliver_def)
  obtain im where "st' = (case ca_delta c of None \<Rightarrow> settle_durable c (st\<lparr>st_index := im\<rparr>)
       | Some d \<Rightarrow> deliver env d (settle_durable c (st\<lparr>st_index := im\<rparr>)))"
    using p3_finalize_Inr [OF assms] by metis
  then show ?thesis
    by (simp add: settle_durable_def Let_def b w d split: option.split)
qed

definition watched ::
    "('s \<Rightarrow> bool) \<Rightarrow> ('s \<Rightarrow> nat \<Rightarrow> stored_record option) \<Rightarrow> ('s \<Rightarrow> type_row set) \<Rightarrow>
       ('s, applier) senv \<Rightarrow> ('s, applier) store \<Rightarrow> bool" where
  "watched good look types env st \<longleftrightarrow>
     running env good st \<and> lineage_ok (look (st_backend st)) (types (st_backend st)) st \<and>
     (\<forall>k a. dict_get (st_consumers st) k = Some a \<longrightarrow> mirrors (look (st_backend st)) (types (st_backend st)) a)"

definition boots_mirror ::
    "('s \<Rightarrow> nat \<Rightarrow> stored_record option) \<Rightarrow> ('s \<Rightarrow> type_row set) \<Rightarrow> 's \<Rightarrow> applier \<Rightarrow> bool" where
  "boots_mirror look types s a \<longleftrightarrow> mirrors (look s) (types s) a"

locale watched_session =
  session_backend inv find blob meta_at type_set env
  for inv :: "'s \<Rightarrow> bool" and find blob meta_at type_set and env :: "('s, applier) senv" +
  assumes feeds: "se_feed env = ap_apply" and stands: "se_watermark env = ap_watermark"
begin

lemma durable_lineage:
  assumes d: "session_ok st0" "grown st st0" "staged st0 st1" "captured env (pending_of st0) (st_deleted st0) st0 va enc st1 c s1"
      "se_apply env (ca_batch c) (st_backend st) = (Inr (), b)" "p3_finalize env c (s1\<lparr>st_backend := b\<rparr>) = (Inr tid, st')"
    and i: "inv (st_backend st)" and pb: "plain_batch (ca_batch c)"
    and l: "lineage_ok (find (st_backend st)) (type_set (st_backend st)) st0"
  shows "lineage_ok (find b) (type_set b) st'"
proof -
  let ?f = "find (st_backend st)" and ?T = "type_set (st_backend st)"
  note c = captured_state [OF d(4,3)] and cb = captured_batch [OF d(4,1)] and p = p3_session [OF d(4,3,1,6)]
  have wf: "batch_wf ?f ?T (ca_batch c)"
    by (rule captured_wf [OF d(4,1) l])
  have T: "type_set b = ?T \<union> set (cb_types (ca_batch c))"
    by (rule commit_types [OF i pb d(5)])
  have f: "find b oid = batch_effect (ca_batch c) oid (?f oid)" for oid
    by (rule commit_find [OF i pb d(5)])
  have recs: "r \<in> set (cb_records (ca_batch c)) \<or> ?f oid = Some r" if "find b oid = Some r" for oid r
    using that last_with_Some by (fastforce simp: f batch_effect_def split: if_splits option.splits)
  have "st_durable_cids st' = fst ` type_set b"
    using p3_durable [OF d(6)] c(15) l by (simp add: T image_Un lineage_ok_def)
  moreover have "sr_cid r \<in> fst ` type_set b" if "find b oid = Some r" for oid r
    using recs [OF that] wf l by (auto simp: T batch_wf_def lineage_ok_def)
  moreover have "oid < next_oid_of (st_alloc st')" if "find b oid \<noteq> None" for oid
  proof -
    have n: "next_oid_of (st_alloc st0) \<le> next_oid_of (st_alloc st')"
      using d(3) c(13) p(5) by (simp add: staged_def)
    have "?f oid \<noteq> None \<or> oid \<in> set (map sr_oid (cb_records (ca_batch c)))"
      using that last_with_None [of sr_oid "cb_records (ca_batch c)" oid] by (auto simp: f batch_effect_def split: if_splits option.splits)
    then have "oid < next_oid_of (st_alloc st0)"
    proof
      assume "oid \<in> set (map sr_oid (cb_records (ca_batch c)))"
      then obtain a where "(oid, a) \<in> set (pending_of st0)"
        unfolding cb(1) by auto
      then show ?thesis
        using pending_entity(1) [OF d(1)] ids_okD(1) d(1) unfolding session_ok_def by blast
    qed (use l in \<open>auto simp: lineage_ok_def\<close>)
    then show ?thesis
      using n by simp
  qed
  ultimately show ?thesis
    using wf p(6) by (simp add: lineage_ok_def T batch_wf_def)
qed

text \<open>A durable commit feeds every applier, which takes the delta.\<close>

lemma durable_watched:
  assumes d: "session_ok st0" "grown st st0" "staged st0 st1" "captured env (pending_of st0) (st_deleted st0) st0 va enc st1 c s1"
      "se_apply env (ca_batch c) (st_backend st) = (Inr (), b)" "p3_finalize env c (s1\<lparr>st_backend := b\<rparr>) = (Inr tid, st')"
    and w: "watched inv find type_set env st"
  shows "watched inv find type_set env st'" and "dict_get (st_consumers st) k \<noteq> None \<Longrightarrow> dict_get (st_consumers st') k \<noteq> None"
proof -
  have r: "running env inv st" and i: "inv (st_backend st)" "plain_names st" "dict_wf (st_consumers st)"
    using w by (auto simp: watched_def running_def consumers_at_def)
  note f = durable_facts [OF d(2,1,3-6) i(1,2)] and s0 = session_eqD [OF grownD(1) [OF d(2)]]
  note cb = captured_batch [OF d(4,1)]
  have l0: "lineage_ok (find (st_backend st)) (type_set (st_backend st)) st0"
    using lineage_onward [OF _ onward_grown [OF d(2)]] w by (auto simp: watched_def)
  have run: "running env inv st'"
    using durable_running [OF d r] by blast
  have lin: "lineage_ok (find (st_backend st')) (type_set (st_backend st')) st'"
    using durable_lineage [OF d i(1) f(4) l0] f(3) by simp
  have fedc: "\<exists>a'. dict_get (st_consumers st') j = Some a' \<and> mirrors (find (st_backend st')) (type_set (st_backend st')) a'"
    if a: "dict_get (st_consumers st) j = Some a" for j a
  proof -
    have n: "st_consumers st0 \<noteq> []"
      using a s0 by auto
    obtain priors where pr: "read_delta_priors env (pending_of st0) (st_deleted st0) (va_gate va) st1 = Inr priors"
      and cs: "st_consumers st' = fold (deliver_one env (delta_built env st0 c priors)) (st_consumers st0) (st_consumers st0)"
      using p3_consumers [OF d(4,3,1,6)] n by blast
    have i0: "inv (st_backend st0)" and l1: "lineage_ok (find (st_backend st0)) (type_set (st_backend st0)) st0"
      using i(1) l0 s0 by simp_all
    note q = priors_correct [OF d(4,3,1) i0 l1 pr n]
    have m: "mirrors (find (st_backend st)) (type_set (st_backend st)) a" and at: "ap_watermark a = st_last_tid st"
      using w a stands by (auto simp: watched_def running_def consumers_at_def)
    have tid: "cb_tid (ca_batch c) = ap_watermark a + 1"
      using r at f(5) cb(3) by (simp add: running_def)
    have wf: "batch_wf (find (st_backend st)) (type_set (st_backend st)) (ca_batch c)"
      by (rule captured_wf [OF d(4,1) l0])
    obtain a' where a': "ap_apply (build_delta (cb_tid (ca_batch c)) (cb_records (ca_batch c)) (cb_types (ca_batch c)) (st_root_oid st0)
        (fst priors) (snd priors) (nat (uid (acting st0))) (se_clock env)) a = (Inr True, a')"
      "mirrors (find b) (type_set b) a'" "ap_watermark a' = cb_tid (ca_batch c)"
      using mirror_commit [OF i(1) f(4) d(5) m wf tid] q s0(1) by metis
    have "fed env (delta_built env st0 c priors) a = Some a'"
      using a'(1,3) by (simp add: fed_def delta_built_def feeds stands cb(3)) (simp add: build_delta_def)
    then have "dict_get (st_consumers st') j = Some a'"
      using a i(3) s0 by (simp add: cs delivered_get)
    then show ?thesis
      using a'(2) f(3) by simp
  qed
  have was: "dict_get (st_consumers st) j \<noteq> None" if "dict_get (st_consumers st') j \<noteq> None" for j
    using p3_consumers [OF d(4,3,1,6)] that i(3) s0 by (auto simp: delivered_get split: option.splits)
  show "watched inv find type_set env st'"
    unfolding watched_def using run lin fedc was by fastforce
  show "dict_get (st_consumers st) k \<noteq> None \<Longrightarrow> dict_get (st_consumers st') k \<noteq> None"
    using fedc by auto
qed

lemma commit_watched:
  assumes cm: "Store_Commit.commit env fault st = (r, st')" and w: "watched inv find type_set env st"
    and folds: "isl r \<Longrightarrow> next_tid_of (st_alloc st') = next_tid_of (st_alloc st)"
  shows "watched inv find type_set env st' \<and> (\<forall>k. dict_get (st_consumers st) k \<noteq> None \<longrightarrow> dict_get (st_consumers st') k \<noteq> None)"
proof -
  have ok: "session_ok st" and i: "inv (st_backend st)" and pl: "plain_names st" and run: "running env inv st"
    using w by (auto simp: watched_def running_def)
  have atom: "se_apply env b (st_backend st) = (Inl e, t) \<Longrightarrow> t = st_backend st" for b e t
    by (rule commit_fails [OF i])
  have step: "running env inv st'" if "isl r \<longrightarrow> next_tid_of (st_alloc st') = next_tid_of (st_alloc st)"
  proof -
    have "session_step env (\<lambda>_ _. True) st (case r of Inl _ \<Rightarrow> [] | Inr None \<Rightarrow> [] | Inr (Some t) \<Rightarrow> [t]) st'"
      using cm that by (cases r) (auto intro: session_step.intros split: option.split)
    then show ?thesis
      using step_running run by blast
  qed
  show ?thesis
  proof (rule commit_split [OF cm ok atom])
    fix err
    assume "r = Inl err" "st_backend st' = st_backend st" "next_tid_of (st_alloc st') = next_tid_of (st_alloc st)"
      "st_consumers st' = st_consumers st" "onward st st'"
    then show ?thesis
      using w step lineage_onward by (auto simp: watched_def)
  next
    assume a: "r = Inr None" "grown st st'"
    then show ?thesis
      using w step lineage_onward [OF _ onward_grown [OF a(2)]] session_eqD [OF grownD(1) [OF a(2)]] by (auto simp: watched_def)
  next
    fix c W st0 va enc st1 s1 b r3
    assume d: "session_ok st0" "grown st st0" "staged st0 st1" "captured env (pending_of st0) (st_deleted st0) st0 va enc st1 c s1"
      "se_apply env (ca_batch c) (st_backend st) = (Inr (), b)" "p3_finalize env c (s1\<lparr>st_backend := b\<rparr>) = (r3, st')"
      and r: "r = map_sum id Some r3"
    obtain tid where "r3 = Inr tid"
      using durable_facts(6,12) [OF d(2,1,3-6) i pl] folds r by (cases r3) auto
    then show ?thesis
      using durable_watched [OF d(1-5) _ w] d(6) by blast
  qed
qed

lemma step_watched:
  assumes s: "session_step env (boots_mirror find type_set) st ts st'" and w: "watched inv find type_set env st"
  shows "watched inv find type_set env st'"
proof -
  have run: "running env inv st'" and at: "consumers_at env st"
    using step_running [OF s] w by (auto simp: watched_def running_def)
  consider (quiet) "keeps st st'" | (off) i r where "detach_consumer i st = (r, st')" "same_but_consumers st st'"
    | (on) i c r where "attach env i c st = (r, st')" "boots_mirror find type_set (st_backend st) c" "same_but_consumers st st'"
    | (comm) "commit_step env st ts st'"
    using session_step_split [OF s] by blast
  then show ?thesis
  proof cases
    case quiet
    then have "st_backend st' = st_backend st" "st_consumers st' = st_consumers st" "onward st st'"
      using w by (auto simp: keeps_def watched_def running_def)
    then show ?thesis
      using run w lineage_onward by (auto simp: watched_def)
  next
    case off
    then have "dict_get (st_consumers st') k = Some a \<Longrightarrow> dict_get (st_consumers st) k = Some a" for k a
      by (auto simp: detach_consumer_def bind_act_def split: if_splits sum.splits)
    moreover have "onward st st'" "st_backend st' = st_backend st"
      using off(2) by (auto simp: same_but_consumers_def onward_def)
    ultimately show ?thesis
      using run w lineage_onward unfolding watched_def by metis
  next
    case on
    have "dict_get (st_consumers st @ [(i, c)]) k = Some a \<Longrightarrow> dict_get (st_consumers st) k = Some a \<or> a = c" for k a
      by (auto simp: map_add_def split: option.splits if_splits)
    then have "dict_get (st_consumers st') k = Some a \<Longrightarrow> dict_get (st_consumers st) k = Some a \<or> a = c" for k a
      using on(1) by (auto simp: attach_def bind_act_def split: if_splits sum.splits)
    moreover have "onward st st'" "st_backend st' = st_backend st"
      using on(3) by (auto simp: same_but_consumers_def onward_def)
    ultimately show ?thesis
      using run w lineage_onward on(2) unfolding watched_def boots_mirror_def by metis
  next
    case comm
    then obtain fault r where c: "Store_Commit.commit env fault st = (r, st')"
      and k: "case r of Inl err \<Rightarrow> ts = [] \<and> next_tid_of (st_alloc st') = next_tid_of (st_alloc st)
         | Inr t \<Rightarrow> ts = (case t of None \<Rightarrow> [] | Some tid \<Rightarrow> [tid])"
      unfolding commit_step_def by blast
    have "next_tid_of (st_alloc st') = next_tid_of (st_alloc st)" if "isl r"
      using k that by (cases r) auto
    then show ?thesis
      using commit_watched [OF c w] by blast
  qed
qed

lemma run_watched:
  assumes "session_run env (boots_mirror find type_set) st ts st'" and "watched inv find type_set env st"
  shows "watched inv find type_set env st'"
  using assms by (induction rule: session_run.induct) (auto dest: step_watched)

end

definition with_appliers :: "('s, applier) senv \<Rightarrow> ('s, applier) senv" where
  "with_appliers env = env\<lparr>se_feed := ap_apply, se_watermark := ap_watermark\<rparr>"

interpretation watch_sq: watched_session db_ok sq_find sq_blob "\<lambda>db. dict_get (db_meta db)" sq_types "over_sqlite (with_appliers env)"
  for env
  by (rule watched_session.intro [OF over_sq.session_backend_axioms]) (unfold_locales, simp_all add: with_appliers_def over_sqlite_def)

interpretation watch_mem: watched_session mem_ok "\<lambda>m. dict_get (mb_objects m)" "\<lambda>m. dict_get (mb_blobs m)"
  "\<lambda>m. dict_get (mb_meta m)" "\<lambda>m. set (mb_types m)" "over_memory (with_appliers env)"
  for env
  by (rule watched_session.intro [OF over_mem.session_backend_axioms]) (unfold_locales, simp_all add: with_appliers_def over_memory_def)

end
