(* ===== verification/Store_Fence.thy ===== *)
theory Store_Fence
  imports Store_Mirror
begin

text \<open>
  The write gate at the level of a commit: whatever a commit made durable under a principal other
  than root was admitted record by record, against the labels the records had in the backend.
\<close>

text \<open>A write of a persisted record, a deletion, a new record, as the gate of a commit admitted them.\<close>

definition fenced_write :: "('s, 'c) senv \<Rightarrow> ('s, 'c) store \<Rightarrow> stored_record \<Rightarrow> entity \<Rightarrow> bool" where
  "fenced_write env st rec e \<longleftrightarrow>
     (\<exists>prior. prior_labels (decode_fields env) (st_persisted_fields st) rec = Inr prior \<and>
        lb_write prior \<le> authority_towards (acting st) (lb_owner prior) (lb_groups prior) \<and>
        write_admitted (acting st) (en_labels e) prior)"

definition fenced_delete :: "('s, 'c) senv \<Rightarrow> ('s, 'c) store \<Rightarrow> stored_record \<Rightarrow> bool" where
  "fenced_delete env st rec \<longleftrightarrow>
     (\<exists>prior. prior_labels (decode_fields env) (st_persisted_fields st) rec = Inr prior \<and>
        lb_write prior \<le> authority_towards (acting st) (lb_owner prior) (lb_groups prior))"

text \<open>No membership of an \<open>Actor\<close> rises above what the committer holds, unless it was there before.\<close>

definition fenced_actor :: "('s, 'c) senv \<Rightarrow> ('s, 'c) store \<Rightarrow> stored_record option \<Rightarrow> (int, int) dict \<Rightarrow> bool" where
  "fenced_actor env st rec ms \<longleftrightarrow>
     (\<forall>(g, lvl) \<in> set ms. lvl \<le> level (acting st) g \<or>
        (\<exists>r old. rec = Some r \<and> prior_actor_memberships (decode_fields env) (st_persisted_fields st) r = Inr old \<and>
           dict_get old g = Some lvl))"

lemma prior_Some:
  assumes "read_priors decode shapes records = Inr priors" and "dict_get records oid = Some rec"
  obtains l where "prior_labels decode shapes rec = Inr l" and "dict_get priors oid = Some l"
  using read_priors_get(1) [OF assms] by blast

lemma gate_oids:
  "oid \<in> set (map ge_oid (filter (\<lambda>e. ge_oid e \<notin> N) (map (\<lambda>(oid, e). gate_entry_of oid e)
       (filter (\<lambda>(oid, e). ti_protected (en_ti e)) ents)))) \<longleftrightarrow>
     (\<exists>e. (oid, e) \<in> set ents \<and> ti_protected (en_ti e) \<and> oid \<notin> N)"
proof -
  have "map ge_oid (filter (\<lambda>e. ge_oid e \<notin> N) (map (\<lambda>(oid, e). gate_entry_of oid e) xs)) = map fst (filter (\<lambda>x. fst x \<notin> N) xs)" for xs
    by (induction xs) (auto simp: gate_entry_of_def)
  then show ?thesis
    by force
qed

lemma doomed_oids:
  "oid \<in> set (map fst (filter (\<lambda>(oid, ti, obj). ti_protected ti) deletes)) \<longleftrightarrow>
     (\<exists>ti obj. (oid, ti, obj) \<in> set deletes \<and> ti_protected ti)"
  by (force simp: image_iff)

context session_backend
begin

lemma load_get:
  assumes "inv s" and "xs = [] \<and> recs = [] \<or> se_load env xs s = Inr recs"
  shows "dict_get recs oid = (if oid \<in> set xs then find s oid else None)"
  using assms(2)
proof
  assume "se_load env xs s = Inr recs"
  then show ?thesis
    using load_many_find [OF assms(1), of xs] by auto
qed simp

lemma commit_gate:
  assumes v: "validate_before_tid env pending deletes st = (Inr va, st')" and i: "inv (st_backend st)" and nr: "\<not> is_root (acting st)"
    and x: "(\<exists>e. (oid, e) \<in> set ents \<and> ti_protected (en_ti e)) \<or> (\<exists>ti obj. (oid, ti, obj) \<in> set deletes \<and> ti_protected ti)"
    and ents: "pending_entities pending st = Inr ents"
  obtains records priors where "read_priors (decode_fields env) (st_persisted_fields st) records = Inr priors"
    and "reads_of (find (st_backend st)) records"
    and "\<And>e. (oid, e) \<in> set ents \<Longrightarrow> ti_protected (en_ti e) \<Longrightarrow>
      gate_record (acting st) (decode_fields env) (st_persisted_fields st) records priors (st_birth_labels st) (gate_entry_of oid e) = Inr ()"
    and "\<And>ti obj. (oid, ti, obj) \<in> set deletes \<Longrightarrow> ti_protected ti \<Longrightarrow> gate_deleted (acting st) priors oid = Inr ()"
    and "dict_get records oid = (if dict_get (st_new st) oid = None \<or> (\<exists>ti obj. (oid, ti, obj) \<in> set deletes \<and> ti_protected ti)
      then find (st_backend st) oid else None)"
proof (rule validate_gate [OF v])
  fix ents' s
  let ?p = "filter (\<lambda>(oid, e). ti_protected (en_ti e)) ents" and ?d = "map fst (filter (\<lambda>(oid, ti, obj). ti_protected ti) deletes)"
  let ?g = "map (\<lambda>(oid, e). gate_entry_of oid e) ?p"
  let ?oids = "map ge_oid (filter (\<lambda>e. ge_oid e \<notin> set (dict_keys (st_new st))) ?g) @ ?d"
  assume "pending_entities pending st = Inr ents'" and s: "reindexed st s"
    and "check_store_gate env (filter (\<lambda>(oid, e). ti_protected (en_ti e)) ents') ?d s = Inr (va_gate va)"
  then have "check_store_gate env ?p ?d s = Inr (va_gate va)"
    using ents by simp
  moreover have "\<not> (?p = [] \<and> ?d = [])"
    using x by (auto simp: filter_empty_conv)
  moreover have same: "acting s = acting st" "st_persisted_fields s = st_persisted_fields st" "st_backend s = st_backend st"
    "st_new s = st_new st" "st_birth_labels s = st_birth_labels st"
    using s by (auto simp: reindexed_def acting_def)
  ultimately have g: "check_write_gate (acting st) (decode_fields env) (st_persisted_fields st) (\<lambda>oids. se_load env oids (st_backend st))
      (set (dict_keys (st_new st))) (st_birth_labels st) ?g ?d = Inr (va_gate va)"
    by (simp only: check_store_gate_def if_False)
  show thesis
  proof (rule check_write_gate_Inr [OF g nr])
    fix priors
    assume pr: "read_priors (decode_fields env) (st_persisted_fields st) (va_gate va) = Inr priors"
      and w: "\<forall>e \<in> set ?g. gate_record (acting st) (decode_fields env) (st_persisted_fields st) (va_gate va) priors (st_birth_labels st) e = Inr ()"
      and d: "\<forall>oid \<in> set ?d. gate_deleted (acting st) priors oid = Inr ()"
      and l: "?oids = [] \<and> va_gate va = [] \<or> se_load env ?oids (st_backend st) = Inr (va_gate va)"
    have get: "dict_get (va_gate va) oid = (if oid \<in> set ?oids then find (st_backend st) oid else None)"
      by (rule load_get [OF i l])
    have member: "oid \<in> set ?oids \<longleftrightarrow> (\<exists>e. (oid, e) \<in> set ents \<and> ti_protected (en_ti e) \<and> dict_get (st_new st) oid = None) \<or>
        (\<exists>ti obj. (oid, ti, obj) \<in> set deletes \<and> ti_protected ti)"
      unfolding set_append Un_iff gate_oids doomed_oids by (auto simp: map_of_eq_None_iff)
    have one: "gate_record (acting st) (decode_fields env) (st_persisted_fields st) (va_gate va) priors (st_birth_labels st) (gate_entry_of oid e) = Inr ()"
      if "(oid, e) \<in> set ents" "ti_protected (en_ti e)" for e
    proof -
      have "gate_entry_of oid e \<in> set ?g"
        using that by force
      then show ?thesis
        using w by blast
    qed
    have dead: "gate_deleted (acting st) priors oid = Inr ()" if "(oid, ti, obj) \<in> set deletes" "ti_protected ti" for ti obj
    proof -
      have "oid \<in> set ?d"
        using that by force
      then show ?thesis
        using d by blast
    qed
    show thesis
    proof (rule that [OF pr validated_reads [OF v i] one dead])
      show "dict_get (va_gate va) oid = (if dict_get (st_new st) oid = None \<or> (\<exists>ti obj. (oid, ti, obj) \<in> set deletes \<and> ti_protected ti)
          then find (st_backend st) oid else None)"
        using x unfolding get member by (cases "dict_get (st_new st) oid"; cases "\<exists>ti obj. (oid, ti, obj) \<in> set deletes \<and> ti_protected ti") auto
    qed
  qed
qed

text \<open>What the gate admitted of a captured batch.\<close>

lemma captured_fence:
  assumes cap: "captured env (pending_of st) (st_deleted st) st va enc st1 c st2" and i: "inv (st_backend st)" and nr: "\<not> is_root (acting st)"
  shows "\<And>oid a e rec. (oid, a) \<in> set (pending_of st) \<Longrightarrow> dict_get (st_heap st) a = Some e \<Longrightarrow> ti_protected (en_ti e) \<Longrightarrow>
      dict_get (st_new st) oid = None \<Longrightarrow> find (st_backend st) oid = Some rec \<Longrightarrow> fenced_write env st rec e"
    and "\<And>oid ti obj rec. (oid, ti, obj) \<in> set (st_deleted st) \<Longrightarrow> ti_protected ti \<Longrightarrow> find (st_backend st) oid = Some rec \<Longrightarrow>
      fenced_delete env st rec"
    and "\<And>oid a e b. (oid, a) \<in> set (pending_of st) \<Longrightarrow> dict_get (st_heap st) a = Some e \<Longrightarrow> ti_protected (en_ti e) \<Longrightarrow>
      dict_get (st_new st) oid \<noteq> None \<Longrightarrow> dict_get (st_deleted st) oid = None \<Longrightarrow> dict_get (st_birth_labels st) oid = Some b \<Longrightarrow>
      uid (acting st) \<noteq> 0 \<and> write_admitted (acting st) (en_labels e) b"
    and "\<And>oid a e ms. (oid, a) \<in> set (pending_of st) \<Longrightarrow> dict_get (st_heap st) a = Some e \<Longrightarrow> ti_protected (en_ti e) \<Longrightarrow>
      ti_name (en_ti e) = ACTOR \<Longrightarrow> memberships_of (en_field e ''memberships'') = Inr ms \<Longrightarrow> dict_get (st_deleted st) oid = None \<Longrightarrow>
      fenced_actor env st (if dict_get (st_new st) oid = None then find (st_backend st) oid else None) ms"
proof -
  obtain stv where v: "validate_before_tid env (pending_of st) (st_deleted st) st = (Inr va, stv)"
    using cap by (auto simp: captured_def)
  obtain ents where ents: "pending_entities (pending_of st) st = Inr ents"
    by (rule validate_entities [OF v])
  have in_ents: "(oid, e) \<in> set ents" if "(oid, a) \<in> set (pending_of st)" "dict_get (st_heap st) a = Some e" for oid a e
    using that pending_entities_Inr(3) [OF ents] by force
  fix oid
  show "fenced_write env st rec e"
    if p: "(oid, a) \<in> set (pending_of st)" "dict_get (st_heap st) a = Some e" "ti_protected (en_ti e)"
      "dict_get (st_new st) oid = None" "find (st_backend st) oid = Some rec" for a e rec
  proof (rule commit_gate [OF v i nr _ ents, of oid])
    fix records priors
    assume r: "read_priors (decode_fields env) (st_persisted_fields st) records = Inr priors"
      "\<And>e. (oid, e) \<in> set ents \<Longrightarrow> ti_protected (en_ti e) \<Longrightarrow>
        gate_record (acting st) (decode_fields env) (st_persisted_fields st) records priors (st_birth_labels st) (gate_entry_of oid e) = Inr ()"
      "dict_get records oid = (if dict_get (st_new st) oid = None \<or> (\<exists>ti obj. (oid, ti, obj) \<in> set (st_deleted st) \<and> ti_protected ti)
        then find (st_backend st) oid else None)"
    have "dict_get records oid = Some rec"
      using r(3) p(4,5) by simp
    then obtain prior where l: "prior_labels (decode_fields env) (st_persisted_fields st) rec = Inr prior" "dict_get priors oid = Some prior"
      using prior_Some [OF r(1)] by blast
    show "fenced_write env st rec e"
      using gate_record_persisted [OF r(2) [OF in_ents [OF p(1,2)] p(3)], of prior] l
      by (auto simp: fenced_write_def gate_entry_of_def)
  qed (use in_ents [OF p(1,2)] p(3) in blast)
  show "fenced_delete env st rec"
    if d: "(oid, ti, obj) \<in> set (st_deleted st)" "ti_protected ti" "find (st_backend st) oid = Some rec" for ti obj rec
  proof (rule commit_gate [OF v i nr _ ents, of oid])
    fix records priors
    assume r: "read_priors (decode_fields env) (st_persisted_fields st) records = Inr priors"
      "\<And>ti obj. (oid, ti, obj) \<in> set (st_deleted st) \<Longrightarrow> ti_protected ti \<Longrightarrow> gate_deleted (acting st) priors oid = Inr ()"
      "dict_get records oid = (if dict_get (st_new st) oid = None \<or> (\<exists>ti obj. (oid, ti, obj) \<in> set (st_deleted st) \<and> ti_protected ti)
        then find (st_backend st) oid else None)"
    have "dict_get records oid = Some rec"
      using r(3) d by auto
    then obtain prior where l: "prior_labels (decode_fields env) (st_persisted_fields st) rec = Inr prior" "dict_get priors oid = Some prior"
      using prior_Some [OF r(1)] by blast
    show "fenced_delete env st rec"
      using r(2) [OF d(1,2)] l by (auto simp: fenced_delete_def gate_deleted_def gate_delete_Inr)
  qed (use d in blast)
  show "uid (acting st) \<noteq> 0 \<and> write_admitted (acting st) (en_labels e) b"
    if p: "(oid, a) \<in> set (pending_of st)" "dict_get (st_heap st) a = Some e" "ti_protected (en_ti e)"
      "dict_get (st_new st) oid \<noteq> None" "dict_get (st_deleted st) oid = None" "dict_get (st_birth_labels st) oid = Some b" for a e b
  proof (rule commit_gate [OF v i nr _ ents, of oid])
    fix records priors
    assume r: "read_priors (decode_fields env) (st_persisted_fields st) records = Inr priors"
      "\<And>e. (oid, e) \<in> set ents \<Longrightarrow> ti_protected (en_ti e) \<Longrightarrow>
        gate_record (acting st) (decode_fields env) (st_persisted_fields st) records priors (st_birth_labels st) (gate_entry_of oid e) = Inr ()"
      "dict_get records oid = (if dict_get (st_new st) oid = None \<or> (\<exists>ti obj. (oid, ti, obj) \<in> set (st_deleted st) \<and> ti_protected ti)
        then find (st_backend st) oid else None)"
    have "dict_get records oid = None"
      using r(3) p(4,5) by (auto simp: map_of_eq_None_iff image_iff)
    then have "dict_get priors oid = None"
      by (rule read_priors_get(2) [OF r(1)])
    then show "uid (acting st) \<noteq> 0 \<and> write_admitted (acting st) (en_labels e) b"
      using gate_record_new [OF r(2) [OF in_ents [OF p(1,2)] p(3)], of b] p(6) by (simp add: gate_entry_of_def)
  qed (use in_ents [OF p(1,2)] p(3) in blast)
  show "fenced_actor env st (if dict_get (st_new st) oid = None then find (st_backend st) oid else None) ms"
    if p: "(oid, a) \<in> set (pending_of st)" "dict_get (st_heap st) a = Some e" "ti_protected (en_ti e)"
      "ti_name (en_ti e) = ACTOR" "memberships_of (en_field e ''memberships'') = Inr ms" 
      "dict_get (st_deleted st) oid = None" for a e ms
  proof (rule commit_gate [OF v i nr _ ents, of oid])
    fix records priors
    assume r: "\<And>e. (oid, e) \<in> set ents \<Longrightarrow> ti_protected (en_ti e) \<Longrightarrow>
        gate_record (acting st) (decode_fields env) (st_persisted_fields st) records priors (st_birth_labels st) (gate_entry_of oid e) = Inr ()"
      "dict_get records oid = (if dict_get (st_new st) oid = None \<or> (\<exists>ti obj. (oid, ti, obj) \<in> set (st_deleted st) \<and> ti_protected ti)
        then find (st_backend st) oid else None)"
    have g: "dict_get records oid = (if dict_get (st_new st) oid = None then find (st_backend st) oid else None)"
      using r(2) p(6) by (auto simp: map_of_eq_None_iff image_iff)
    have "lvl \<le> level (acting st) g \<or> (\<exists>rec old. dict_get records oid = Some rec \<and>
        prior_actor_memberships (decode_fields env) (st_persisted_fields st) rec = Inr old \<and> dict_get old g = Some lvl)"
      if "(g, lvl) \<in> set ms" for g lvl
      using gate_record_actor [OF r(1) [OF in_ents [OF p(1,2)] p(3)] _ p(5) that] p(4)
      by (cases "level (acting st) g < lvl") (auto simp: gate_entry_of_def)
    then show "fenced_actor env st (if dict_get (st_new st) oid = None then find (st_backend st) oid else None) ms"
      unfolding fenced_actor_def g by blast
  qed (use in_ents [OF p(1,2)] p(3) in blast)
qed

text \<open>A commit that took a TID captured exactly what discovery left in the buffers.\<close>

lemma commit_captured:
  assumes cm: "Store_Commit.commit env fault st = (r, st')" and t: "next_tid_of (st_alloc st') \<noteq> next_tid_of (st_alloc st)"
    and ok: "session_ok st" and i: "inv (st_backend st)" and d: "discover_new_graphs env st = (Inr W, st0)"
  obtains va enc st1 c s1 where "captured env (pending_of st0) (st_deleted st0) st0 va enc st1 c s1"
    and "st_backend st0 = st_backend st" and "acting st0 = acting st" and "grown st st0" and "session_ok st0"
proof (rule commit_split [OF cm ok commit_fails [OF i]])
  fix c W' st1' va enc st1 s1
  assume "discover_new_graphs env st = (Inr W', st1')" "grown st st1'" "session_ok st1'"
    "captured env (pending_of st1') (st_deleted st1') st1' va enc st1 c s1"
  then show thesis
    using that [of va enc st1 c s1] d session_eqD [of st st0] grownD(1) [of st st0] by (auto simp: acting_def)
next
  assume "grown st st'"
  then show thesis
    using t session_eqD(14) [OF grownD(1), of st st'] by simp
qed (use t in simp)+

end

end
