(* ===== verification/Store_Rounds.thy ===== *)
theory Store_Rounds
  imports Store_Walk
begin

text \<open>
  How long a registration runs: each round of the loop takes one queue entry and expands an entity at
  most once, so the rounds are bounded by the queue and by the references the unwalked entities hold.
\<close>

section \<open>References in a value, with multiplicity\<close>

function (sequential) value_width :: "pyval \<Rightarrow> nat" where
  "value_width (PEnt a) = 1"
| "value_width (PLazy i oid target) = (case target of None \<Rightarrow> 0 | Some t \<Rightarrow> 1)"
| "value_width (PList xs) = sum_list (map value_width xs)"
| "value_width (PTuple xs) = sum_list (map value_width xs)"
| "value_width (PDict d) = sum_list (map value_width (map snd d))"
| "value_width v = 0"
  by pat_completeness auto
termination
proof (relation "measure size", goal_cases)
  case 1
  then show ?case by simp
next
  case (2 xs x)
  then show ?case using size_list_values [of xs] member_le_sum_list [of "size x" "map size xs"] by auto
next
  case (3 xs x)
  then show ?case using size_list_values [of xs] member_le_sum_list [of "size x" "map size xs"] by auto
next
  case (4 d x)
  then have "size x \<le> sum_list (map size (map snd d))"
    by (intro member_le_sum_list) auto
  then show ?case using size_dict_values [of d] by simp
qed

definition entity_width :: "entity \<Rightarrow> nat" where
  "entity_width e =
     (if has_entity_refs (en_ti e) then sum_list (map (\<lambda>s. value_width (en_field e (fs_name s))) (ti_specs (en_ti e))) else 0)"

lemma width_label [simp]: "value_width (label_field l name) = 0"
proof -
  have "sum_list (map value_width (map PInt is)) = 0" for "is"
    by (induction "is") auto
  then show ?thesis
    by (simp add: label_field_def)
qed

lemma entity_width_cong:
  assumes "en_ti e' = en_ti e" and "en_vals e' = en_vals e"
  shows "entity_width e' = entity_width e"
proof -
  have "value_width (en_field e' n) = value_width (en_field e n)" for n
    by (simp add: en_field_def assms)
  then show ?thesis
    by (simp add: entity_width_def assms)
qed

lemma queue_entity_width: "queue_entity st container eager a queue = Inr q \<Longrightarrow> length q \<le> length queue + 1"
  by (auto simp: queue_entity_def split: option.splits if_splits)

lemma fold_width:
  assumes "fold_res f xs queue = Inr q" and "\<And>x r s. x \<in> set xs \<Longrightarrow> f x r = Inr s \<Longrightarrow> length s \<le> length r + w x"
  shows "length q \<le> length queue + sum_list (map w xs)"
  using assms
proof (induction xs arbitrary: queue)
  case (Cons x xs)
  obtain r where r: "f x queue = Inr r" "fold_res f xs r = Inr q"
    using Cons.prems(1) by (auto split: sum.splits)
  show ?case
    using Cons.IH [OF r(2)] Cons.prems(2) [OF _ r(1)] Cons.prems(2) by fastforce
qed simp

lemma walk_value_width:
  "walk_value st container eager v queue = Inr q \<Longrightarrow> length q \<le> length queue + value_width v"
proof (induction st container eager v queue arbitrary: q rule: walk_value.induct)
  case (2 st container eager i oid target queue)
  then show ?case
    using queue_entity_width by (fastforce split: option.splits)
next
  case (3 st container eager xs queue)
  then show ?case
    using fold_width [of "walk_value st container eager" xs queue q value_width] by (metis value_width.simps(3) walk_value.simps(3))
next
  case (4 st container eager xs queue)
  then show ?case
    using fold_width [of "walk_value st container eager" xs queue q value_width] by (metis value_width.simps(4) walk_value.simps(4))
next
  case (5 st container eager d queue)
  then show ?case
    using fold_width [of "walk_value st container eager" "map snd d" queue q value_width] by (metis value_width.simps(5) walk_value.simps(5))
qed (auto dest: queue_entity_width)

lemma queue_field_entities_width:
  assumes "queue_field_entities st a e [] = Inr q"
  shows "length q \<le> entity_width e"
proof (cases "has_entity_refs (en_ti e)")
  case True
  have "length q \<le> length ([] :: work) + sum_list (map (\<lambda>s. value_width (en_field e (fs_name s))) (ti_specs (en_ti e)))"
    using assms True unfolding queue_field_entities_def
    by (intro fold_width [of "\<lambda>spec. walk_value st (if ti_protected (en_ti e) then Some a else None)
          (\<not> fs_lazy_refs spec) (en_field e (fs_name spec))"] walk_value_width) auto
  then show ?thesis
    using True by (simp add: entity_width_def)
qed (use assms in \<open>simp add: queue_field_entities_def\<close>)

section \<open>The bound\<close>

definition width_at :: "('s, 'c) store \<Rightarrow> nat \<Rightarrow> nat" where
  "width_at st a = (case dict_get (st_heap st) a of None \<Rightarrow> 0 | Some e \<Rightarrow> entity_width e)"

definition walk_bound :: "work \<Rightarrow> nat set \<Rightarrow> ('s, 'c) store \<Rightarrow> nat" where
  "walk_bound queue walked st = length queue + (\<Sum>a \<in> unwalked walked st. width_at st a)"

lemma register_step_bound:
  assumes "register_step env a container walked st = (Inr (found, walked'), st')"
  shows "walk_bound (queue @ found) walked' st' + 1 \<le> walk_bound ((a, container) # queue) walked st"
proof (rule register_step_effect [OF assms])
  fix e e' oid
  assume h: "dict_get (st_heap st) a = Some e" "dict_get (st_heap st') a = Some e'"
      "\<And>b. b \<noteq> a \<Longrightarrow> dict_get (st_heap st') b = dict_get (st_heap st) b" "same_content e e'" "en_oid e' = Some oid"
    and o: "en_oid e = Some oid \<and> st_new st' = st_new st \<or>
      en_oid e = None \<and> oid = next_oid_of (st_alloc st) \<and> st_new st' = AList.update oid a (st_new st)"
    and w: "oid \<in> walked \<and> walked' = walked \<and> found = [] \<or> oid \<notin> walked \<and> walked' = insert oid walked \<and>
      (if buffered st' oid then queue_field_entities st' a e' [] = Inr found else found = [])"
  have width: "width_at st' b = width_at st b" for b
    using h entity_width_cong [of e' e] by (cases "b = a") (auto simp: width_at_def same_content_def)
  have sub: "unwalked walked' st' \<subseteq> unwalked walked st"
    using register_step_unwalked [OF assms] by auto
  have le: "(\<Sum>b \<in> unwalked walked' st'. width_at st' b) \<le> (\<Sum>b \<in> unwalked walked st. width_at st b)"
    unfolding width by (rule sum_mono2 [OF finite_unwalked sub]) simp
  show ?thesis
  proof (cases "oid \<in> walked")
    case True
    then show ?thesis
      using w le by (simp add: walk_bound_def)
  next
    case False
    have a: "a \<in> unwalked walked st" "a \<notin> unwalked walked' st'"
      using h(1,2,5) o w False by (auto simp: unwalked_def)
    have "(\<Sum>b \<in> unwalked walked' st'. width_at st' b) \<le> (\<Sum>b \<in> unwalked walked st - {a}. width_at st b)"
      unfolding width by (rule sum_mono2) (use sub a in auto)
    moreover have "(\<Sum>b \<in> unwalked walked st. width_at st b) = width_at st a + (\<Sum>b \<in> unwalked walked st - {a}. width_at st b)"
      using a(1) by (rule sum.remove [OF finite_unwalked])
    moreover have "length found \<le> width_at st a"
      using w False queue_field_entities_width [of st' a e' found] h entity_width_cong [of e' e]
      by (auto simp: width_at_def same_content_def split: if_splits)
    ultimately show ?thesis
      by (simp add: walk_bound_def)
  qed
qed

text \<open>The loop with a budget of rounds.\<close>

fun register_within ::
    "nat \<Rightarrow> ('s, 'c) senv \<Rightarrow> work \<Rightarrow> nat set \<Rightarrow> ('s, 'c) store \<Rightarrow> (nat set res \<times> ('s, 'c) store) option" where
  "register_within n env [] walked st = Some (Inr walked, st)"
| "register_within 0 env (w # queue) walked st = None"
| "register_within (Suc n) env ((a, container) # queue) walked st =
     (case register_step env a container walked st of
        (Inl e, st') \<Rightarrow> Some (Inl e, st')
      | (Inr (found, walked'), st') \<Rightarrow> register_within n env (queue @ found) walked' st')"

lemma register_within_enough:
  "walk_bound queue walked st \<le> n \<Longrightarrow> register_within n env queue walked st = Some (register_loop env queue walked st)"
proof (induction n env queue walked st rule: register_within.induct)
  case (2 env w queue walked st)
  then show ?case by (simp add: walk_bound_def)
next
  case (3 n env a container queue walked st)
  obtain r st' where s: "register_step env a container walked st = (r, st')"
    by fastforce
  show ?case
  proof (cases r)
    case (Inl e)
    then show ?thesis using s by simp
  next
    case (Inr fw)
    obtain found walked' where fw: "fw = (found, walked')"
      by fastforce
    have "walk_bound (queue @ found) walked' st' \<le> n"
      using register_step_bound [of env a container walked st found walked' st' queue] 3(2) s Inr fw by simp
    then show ?thesis
      using 3(1) [OF s [symmetric] Inr fw [symmetric]] s Inr fw by simp
  qed
qed simp

end
