(* ===== verification/Store_Samples.thy ===== *)
theory Store_Samples
  imports Store_Fence Store_Rounds Durability
begin

text \<open>
  A small concrete session over an empty SQLite database: a plain class \<open>Note\<close> and a protected class
  \<open>Memo\<close>, each with a title and a reference. The closed instances of the session's properties and the
  findings evaluate on it.
\<close>

definition note_ti :: typeinfo where
  "note_ti = \<lparr>ti_name = ''Note'', ti_field_names = [''title'', ''next''], ti_frozen = False, ti_protected = False,
     ti_specs = [plain_spec ''title'', (plain_spec ''next'')\<lparr>fs_entity_ref := True\<rparr>], ti_defaults = []\<rparr>"

definition memo_ti :: typeinfo where
  "memo_ti = \<lparr>ti_name = ''Memo'', ti_field_names = [''title'', ''next''] @ PERM_FIELDS, ti_frozen = False, ti_protected = True,
     ti_specs = [plain_spec ''title'', (plain_spec ''next'')\<lparr>fs_entity_ref := True, fs_lazy_refs := True\<rparr>] @ map plain_spec PERM_FIELDS,
     ti_defaults = []\<rparr>"

text \<open>A codec for the sample records: the title of a record decides its payload.\<close>

definition desk_enc :: "pyval \<Rightarrow> bytes res" where
  "desk_enc v = (case v of PList (PStr t # vs) \<Rightarrow> Inr (if t = ''box'' then [1] else [2]) | _ \<Rightarrow> Inl MsgspecError)"

definition desk_dec :: "bytes \<Rightarrow> pyval res" where
  "desk_dec b = Inr (PList [PStr (if b = [1] then ''box'' else ''leaf''), PNone, PInt 7, PList [], PInt 0, PInt 0])"

definition desk_env :: "('s, applier) senv" where
  "desk_env = with_appliers
     \<lparr>se_self = 1, se_enc = desk_enc, se_dec = desk_dec, se_forms = plain_forms, se_sha = length_hash, se_types = [],
      se_boot = (\<lambda>s. (Inl DataCrystalError, s)), se_load = (\<lambda>oids s. Inr []), se_scan = (\<lambda>cid s. Inr []),
      se_apply = (\<lambda>b s. (Inl DataCrystalError, s)),
      se_feed = ap_apply, se_watermark = ap_watermark, se_ser = (\<lambda>b. []), se_deser = (\<lambda>b. {}), se_clock = 0,
      se_strict_deletes = True\<rparr>"

definition root_user :: principal where "root_user = \<lparr>uid = 1, memberships = [(WORLD, EXECUTIVE)]\<rparr>"

definition clerk :: principal where "clerk = \<lparr>uid = 7, memberships = [(5, AGENT)]\<rparr>"

definition desk :: "'s \<Rightarrow> ('s, applier) store" where
  "desk b = \<lparr>st_heap = [], st_backend = b, st_alloc = \<lparr>next_oid_of = 10, next_cid_of = 1, next_tid_of = 1\<rparr>,
     st_registry = [], st_new = [], st_dirty = [], st_deleted = [], st_cancelled_new = [], st_birth_labels = [],
     st_prestamp_labels = [], st_pending_upserts = [], st_index = new_manager None None, st_root_oid = None,
     st_root_holder = None, st_last_tid = 0, st_principal = root_user, st_acting = [], st_consumers = [],
     st_cid_by_typename = [], st_cids_by_typename = [], st_typename_by_cid = [], st_persisted_fields = [],
     st_durable_cids = {}, st_closed = False, st_lease_lost = False\<rparr>"

definition no_labels :: labels where "no_labels = \<lparr>lb_owner = 0, lb_groups = [], lb_read = 0, lb_write = 0\<rparr>"

definition shared_labels :: labels where "shared_labels = \<lparr>lb_owner = 0, lb_groups = [5, 6], lb_read = 0, lb_write = 0\<rparr>"

text \<open>Two notes, one referring to the other, both constructed; the first stored.\<close>

definition desk_notes :: "'s \<Rightarrow> ('s, applier) store" where
  "desk_notes b =
     create 2 note_ti [(''title'', PStr ''leaf''), (''next'', PNone)] no_labels
       (create 1 note_ti [(''title'', PStr ''box''), (''next'', PEnt 2)] no_labels (desk b))"

definition desk_stored :: "'s \<Rightarrow> ('s, applier) store" where
  "desk_stored b = snd (store_entity desk_env 1 (desk_notes b))"

text \<open>A memo the clerk stored, in a new session; an \<open>Actor\<close> the clerk stored; a database that a session booted from.\<close>

definition desk_memo :: "'s \<Rightarrow> ('s, applier) store" where
  "desk_memo b = snd (store_entity desk_env 3
     (create 3 memo_ti [(''title'', PStr ''leaf''), (''next'', PNone)] no_labels (push_scope clerk (desk b))))"

definition actor_ti :: typeinfo where
  "actor_ti = \<lparr>ti_name = ACTOR, ti_field_names = [''title'', ''memberships''] @ PERM_FIELDS, ti_frozen = False, ti_protected = True,
     ti_specs = [plain_spec ''title'', plain_spec ''memberships''] @ map plain_spec PERM_FIELDS, ti_defaults = []\<rparr>"

definition desk_actor :: "int \<Rightarrow> 's \<Rightarrow> ('s, applier) store" where
  "desk_actor lvl b = snd (store_entity desk_env 5
     (create 5 actor_ti [(''title'', PStr ''leaf''), (''memberships'', PDict [(PInt 5, PInt lvl)])] no_labels (push_scope clerk (desk b))))"

definition booted_mem :: mem_backend where
  "booted_mem = empty_mem\<lparr>mb_meta := [(''format_version'', ''2''), (''next_oid'', ''10''), (''next_cid'', ''1''), (''next_tid'', ''1'')]\<rparr>"

lemma plain_sample_names: "plain_fields (ti_field_names note_ti)" "plain_fields (ti_field_names memo_ti)" "plain_fields (ti_field_names actor_ti)"
  by (simp_all add: plain_fields_def note_ti_def memo_ti_def actor_ti_def PERM_FIELDS_def char_of_def)

lemma desk_session: "session_ok (desk b)" "plain_names (desk b)"
  by (simp_all add: desk_def session_ok_def ids_ok_def states_ok_def bufs_wf_def names_ok_def plain_names_def dict_wf_def)

lemma desk_notes_keeps: "keeps (desk b) (desk_notes b)"
proof -
  let ?d = "create 1 note_ti [(''title'', PStr ''box''), (''next'', PEnt 2)] no_labels (desk b)"
  have "keeps (desk b) ?d" "keeps ?d (desk_notes b)"
    unfolding desk_notes_def
    by (rule create_keeps; simp add: desk_def create_def plain_sample_names)+
  then show ?thesis
    by (rule keeps_trans)
qed

lemma desk_stored_keeps: "keeps (desk b) (desk_stored b)"
proof -
  obtain r st where "store_entity desk_env 1 (desk_notes b) = (r, st)"
    using prod.exhaust by blast
  then show ?thesis
    using keeps_trans [OF desk_notes_keeps store_keeps] by (simp add: desk_stored_def)
qed

lemma desk_clerk_keeps:
  assumes "plain_fields (ti_field_names ti)"
  shows "keeps (desk b) (snd (store_entity desk_env a (create a ti vals no_labels (push_scope clerk (desk b)))))"
proof -
  let ?d = "push_scope clerk (desk b)"
  let ?c = "create a ti vals no_labels ?d"
  have "keeps (desk b) ?d"
    by (rule scope_keeps)
  moreover have "keeps ?d ?c"
    by (rule create_keeps; simp add: desk_def push_scope_def assms)
  ultimately have "keeps (desk b) ?c"
    by (rule keeps_trans)
  moreover obtain r st where st: "store_entity desk_env a ?c = (r, st)"
    using prod.exhaust by blast
  ultimately have "keeps (desk b) st"
    using keeps_trans store_keeps by blast
  then show ?thesis
    by (simp add: st)
qed

lemma desk_sessions:
  "session_ok (desk_stored b)" "plain_names (desk_stored b)" "st_backend (desk_stored b) = b"
  "session_ok (desk_memo b)" "plain_names (desk_memo b)" "st_backend (desk_memo b) = b"
  "session_ok (desk_actor l b)" "plain_names (desk_actor l b)" "st_backend (desk_actor l b) = b"
  using desk_stored_keeps [of b] desk_clerk_keeps [OF plain_sample_names(2), of b] desk_clerk_keeps [OF plain_sample_names(3), of b]
    desk_session [of b]
  by (simp_all add: keeps_def desk_memo_def desk_actor_def) (simp_all add: desk_def)

text \<open>The session is one that runs are about, with and without a consumer.\<close>

lemma desk_running: "good b \<Longrightarrow> running env good (desk b)"
  using desk_session [of b] by (simp add: running_def consumers_at_def) (simp add: desk_def dict_wf_def)

end
