(* ===== verification/Store_Claims.thy ===== *)
theory Store_Claims
  imports Store_Samples
begin

text \<open>
  The properties of a session: what a commit did when it returns or raises, the TIDs of a run, the
  consumers of its deltas, the write gate, and registration.
\<close>

text \<open>
  C1: a commit over SQLite has one of two outcomes. Either nothing happened to the database: the TID
  and the watermark are as before, and every buffered write, insert and deletion is still buffered
  with its values, whether the commit was refused in validation, had nothing to do, or failed in the
  backend. Or its batch is durable under the next TID: the buffers are empty, every deleted OID is
  gone, every pending entity's record is the encoding of the entity as it stood, and no other record
  changed; then it returned that TID, unless an index fold raised after the fact.
\<close>

theorem commit_outcomes:
  assumes "session_ok st" and "plain_names st" and "db_ok (st_backend st)"
    and "Store_Commit.commit (over_sqlite env) fault st = (r, st')"
  shows "st_backend st' = st_backend st \<and> next_tid_of (st_alloc st') = next_tid_of (st_alloc st) \<and> st_last_tid st' = st_last_tid st
      \<and> buffers_kept st st' \<and> (isl r \<or> r = Inr None \<and> pending_of st' = [] \<and> st_deleted st' = [])
    \<or> (\<exists>W st0. discover_new_graphs (over_sqlite env) st = (Inr W, st0) \<and> buffers_kept st st0
      \<and> durable_effect (over_sqlite env) st0 (next_tid_of (st_alloc st)) (sq_find (st_backend st)) (sq_find (st_backend st'))
      \<and> next_tid_of (st_alloc st') = next_tid_of (st_alloc st) + 1 \<and> st_new st' = [] \<and> st_dirty st' = [] \<and> st_deleted st' = []
      \<and> (r = Inr (Some (next_tid_of (st_alloc st))) \<and> st_last_tid st' = next_tid_of (st_alloc st)
         \<or> isl r \<and> st_last_tid st' = st_last_tid st))"
proof (rule over_sq.commit_cases [OF assms(4,1,3,2)])
  fix err
  assume "r = Inl err" "buffers_kept st st'" "st_backend st' = st_backend st"
    "next_tid_of (st_alloc st') = next_tid_of (st_alloc st)" "st_last_tid st' = st_last_tid st"
  then show ?thesis
    by simp
next
  assume "r = Inr None" "buffers_kept st st'" "st_backend st' = st_backend st"
    "next_tid_of (st_alloc st') = next_tid_of (st_alloc st)" "st_last_tid st' = st_last_tid st"
    "pending_of st' = []" "st_deleted st' = []"
  then show ?thesis
    by simp
next
  fix W st0
  assume "discover_new_graphs (over_sqlite env) st = (Inr W, st0)"
    "r = Inr (Some (next_tid_of (st_alloc st))) \<and> st_last_tid st' = next_tid_of (st_alloc st) \<or>
      (\<exists>err. r = Inl err \<and> st_last_tid st' = st_last_tid st)"
    "buffers_kept st st0"
    "durable_effect (over_sqlite env) st0 (next_tid_of (st_alloc st)) (sq_find (st_backend st)) (sq_find (st_backend st'))"
    "next_tid_of (st_alloc st') = next_tid_of (st_alloc st) + 1"
    "st_new st' = []" "st_dirty st' = []" "st_deleted st' = []"
  then show ?thesis
    by auto
qed

definition failed_commit :: "(sqlite_db, applier) store" where
  "failed_commit = snd (Store_Commit.commit (over_sqlite desk_env) (Some DataCrystalError) (desk_stored empty_db))"

theorem commit_outcomes_witness:
  "st_backend failed_commit = empty_db \<and> buffers_kept (desk_stored empty_db) failed_commit
    \<or> next_tid_of (st_alloc failed_commit) = next_tid_of (st_alloc (desk_stored empty_db)) + 1 \<and> st_new failed_commit = []"
proof -
  obtain r where "Store_Commit.commit (over_sqlite desk_env) (Some DataCrystalError) (desk_stored empty_db) = (r, failed_commit)"
    by (metis failed_commit_def prod.collapse)
  from commit_outcomes [OF desk_sessions(1,2) _ this] show ?thesis
    using empty_ok(1) by (auto simp: desk_sessions)
qed










end
