(* ===== verification/Store_Access.thy ===== *)
theory Store_Access
  imports Store_Samples
begin

text \<open>
  The properties of a session that concern access and registration: the write gate and the membership
  ceiling at the level of a commit, what discovery registers and that it ends, and two ways a failed
  commit forgets what it must remember.
\<close>



























text \<open>
  C18: registration ends. Run with a budget of rounds, the walk over the graph of an entity gives its
  result as soon as the budget is one more than the number of references held by the entities on the
  heap, whatever cycles the graph has and whatever error it meets.
\<close>

theorem registration_ends:
  "register_within (Suc (\<Sum>b \<in> set (dict_keys (st_heap st)). width_at st b) + k) env [(a, None)] walked st =
     Some (register_graph env a walked st)"
proof -
  have "(\<Sum>b \<in> unwalked walked st. width_at st b) \<le> (\<Sum>b \<in> set (dict_keys (st_heap st)). width_at st b)"
    by (rule sum_mono2) (force simp: unwalked_def dest: map_of_SomeD)+
  then have "walk_bound [(a, None)] walked st \<le> Suc (\<Sum>b \<in> set (dict_keys (st_heap st)). width_at st b) + k"
    by (simp add: walk_bound_def)
  then show ?thesis
    by (simp only: register_within_enough register_graph_def)
qed

end
