(* ===== verification/Store_Read.thy ===== *)
theory Store_Read
  imports Store_Ops
begin

text \<open>
  The read side of a session (\<open>_store.py\<close>): how a record becomes an entity, and who gets it.

  \<^item> \<open>hydration_plan\<close> binds every field of the live class to a position of the persisted shape, to the
    position of the name it was renamed from, to its \<open>Glue\<close> function or to its default. The source
    memoizes it per CID, which a pure function of the shape and the class does not need.
  \<^item> \<open>materialize_graph\<close> loads an entity and the closure of its eager references with an explicit
    queue. \<open>loading\<close> is the state of one such call: the session, the OIDs it registered, the shells
    still to fill, and the next fresh identity for a shell or a lazy handle. The loop is a partial
    function: not returning is \<open>None\<close>.
  \<^item> \<open>load_oid_deref\<close> is the checked dereference of a principal: an instance, a redacted twin, or an
    error.
  \<^item> Not modelled: the debug fingerprints, the lazy manager's tracking, and the owner OID that a blob
    handle of a protected entity carries for its own read gate.
\<close>

section \<open>The hydration plan\<close>

definition ti_for_cid :: "('s, 'c) senv \<Rightarrow> nat \<Rightarrow> ('s, 'c) store \<Rightarrow> typeinfo res" where
  "ti_for_cid env cid st =
     (case dict_get (st_typename_by_cid st) cid of
        None \<Rightarrow> Inl DataCrystalError
      | Some name \<Rightarrow> (case dict_get (se_types env) name of None \<Rightarrow> Inl UnregisteredTypeError | Some ti \<Rightarrow> Inr ti))"

datatype field_source = FromRecord nat | FromGlue "row \<Rightarrow> pyval res" | FromFactory pyval

text \<open>\<open>{name: i for i, name in enumerate(persisted)}\<close>: of equal names the last one counts.\<close>

definition position_of :: "string list \<Rightarrow> string \<Rightarrow> nat option" where
  "position_of persisted name = dict_get (rev (zip persisted [0..<length persisted])) name"

definition plan_source :: "typeinfo \<Rightarrow> string list \<Rightarrow> fieldspec \<Rightarrow> field_source res" where
  "plan_source ti persisted spec =
     (case (case position_of persisted (fs_name spec) of
              Some i \<Rightarrow> Some i
            | None \<Rightarrow> (case fs_renamed_from spec of None \<Rightarrow> None | Some old \<Rightarrow> position_of persisted old)) of
        Some i \<Rightarrow> Inr (FromRecord i)
      | None \<Rightarrow>
          (case fs_glue spec of
             Some glue \<Rightarrow> Inr (FromGlue glue)
           | None \<Rightarrow>
               (case (if ti_protected ti then legacy_fill (fs_name spec) else None) of
                  Some v \<Rightarrow> Inr (FromFactory v)
                | None \<Rightarrow>
                    (case dict_get (ti_defaults ti) (fs_name spec) of
                       None \<Rightarrow> Inl SchemaMismatchError
                     | Some v \<Rightarrow> Inr (FromFactory v)))))"

definition hydration_plan :: "typeinfo \<Rightarrow> string list \<Rightarrow> (fieldspec \<times> field_source) list res" where
  "hydration_plan ti persisted =
     map_res (\<lambda>spec. bind_res (plan_source ti persisted spec) (\<lambda>src. Inr (spec, src))) (ti_specs ti)"

definition shape_of :: "('s, 'c) store \<Rightarrow> nat \<Rightarrow> string list" where
  "shape_of st cid = dict_getd (st_persisted_fields st) cid []"

definition source_value :: "row \<Rightarrow> pyval list \<Rightarrow> field_source \<Rightarrow> pyval res" where
  "source_value by_name values src =
     (case src of FromRecord i \<Rightarrow> nth_res values i | FromGlue glue \<Rightarrow> glue by_name | FromFactory v \<Rightarrow> Inr v)"

text \<open>\<open>_decode_check\<close>, the probe of \<open>verify\<close>: decode to the current shape without an entity.\<close>

definition decode_check :: "('s, 'c) senv \<Rightarrow> stored_record \<Rightarrow> typeinfo \<Rightarrow> ('s, 'c) store \<Rightarrow> unit res" where
  "decode_check env rec ti st =
     (let persisted = shape_of st (sr_cid rec) in
      bind_res (hydration_plan ti persisted) (\<lambda>hplan.
      bind_res (decode_fields env (sr_payload rec)) (\<lambda>values.
        if length values \<noteq> length persisted then Inl SchemaMismatchError
        else fold_res (\<lambda>(spec, src) u.
               case src of FromGlue glue \<Rightarrow> bind_res (glue (zip persisted values)) (\<lambda>_. Inr ()) | _ \<Rightarrow> Inr ()) hplan ())))"

section \<open>Filling an entity\<close>

record ('s, 'c) loading =
  ld_store :: "('s, 'c) store"
  ld_registered :: "nat list"
  ld_queue :: "(nat \<times> stored_record) list"
  ld_next :: nat

definition unloaded_handle :: "nat \<Rightarrow> (('s, 'c) loading, pyval) act" where
  "unloaded_handle oid ld = (Inr (PLazy (ld_next ld) (Some oid) None), ld\<lparr>ld_next := ld_next ld + 1\<rparr>)"

definition loaded_handle :: "nat \<Rightarrow> nat \<Rightarrow> (('s, 'c) loading, pyval) act" where
  "loaded_handle a oid ld = (Inr (PLazy (ld_next ld) (Some oid) (Some a)), ld\<lparr>ld_next := ld_next ld + 1\<rparr>)"

definition fetch_record ::
    "('s, 'c) senv \<Rightarrow> (nat, stored_record) dict \<Rightarrow> nat \<Rightarrow> ('s, 'c) store \<Rightarrow> stored_record res" where
  "fetch_record env cache oid st =
     (case dict_get cache oid of
        Some rec \<Rightarrow> Inr rec
      | None \<Rightarrow> bind_res (se_load env [oid] (st_backend st)) (\<lambda>recs.
          case dict_get recs oid of None \<Rightarrow> Inl DanglingRefError | Some rec \<Rightarrow> Inr rec))"

text \<open>\<open>object.__new__\<close>, \<open>stamp\<close>, and the registration that breaks cycles.\<close>

definition new_shell ::
    "('s, 'c) senv \<Rightarrow> typeinfo \<Rightarrow> nat \<Rightarrow> stored_record \<Rightarrow> (('s, 'c) loading, pyval) act" where
  "new_shell env ti oid rec ld =
     (let a = ld_next ld; st = ld_store ld;
          e = stamp oid (se_self env) STATE_CLEAN
                \<lparr>en_ti = ti, en_vals = [], en_labels = legacy_labels, en_oid = None, en_store = None,
                 en_state = STATE_NEW, en_twin = False\<rparr>
      in (Inr (PEnt a),
          ld\<lparr>ld_store := (put_entity a e st)\<lparr>st_registry := AList.update oid a (st_registry st)\<rparr>,
             ld_registered := ld_registered ld @ [oid], ld_queue := ld_queue ld @ [(a, rec)], ld_next := a + 1\<rparr>))"

definition link ::
    "('s, 'c) senv \<Rightarrow> (nat, stored_record) dict \<Rightarrow> bool \<Rightarrow> nat \<Rightarrow> (('s, 'c) loading, pyval) act" where
  "link env cache is_top oid ld =
     (case dict_get (st_registry (ld_store ld)) oid of
        Some a \<Rightarrow>
          (case dict_get (st_heap (ld_store ld)) a of
             None \<Rightarrow> (Inl PyKeyError, ld)
           | Some e \<Rightarrow> if \<not> is_top \<and> ti_protected (en_ti e) then unloaded_handle oid ld else (Inr (PEnt a), ld))
      | None \<Rightarrow>
          (case fetch_record env cache oid (ld_store ld) of
             Inl err \<Rightarrow> (Inl err, ld)
           | Inr rec \<Rightarrow>
               (case ti_for_cid env (sr_cid rec) (ld_store ld) of
                  Inl err \<Rightarrow> (Inl err, ld)
                | Inr ti \<Rightarrow>
                    if \<not> is_top \<and> ti_protected ti then unloaded_handle oid ld else new_shell env ti oid rec ld)))"

text \<open>\<open>_resolve\<close> on a decoded value: blob descriptors, references, containers; the rest is itself.\<close>

definition resolve_ref ::
    "('s, 'c) senv \<Rightarrow> (nat, stored_record) dict \<Rightarrow> bool \<Rightarrow> nat \<Rightarrow> (('s, 'c) loading, pyval) act" where
  "resolve_ref env cache lazy oid ld =
     (if lazy
      then (case dict_get (st_registry (ld_store ld)) oid of
              None \<Rightarrow> unloaded_handle oid ld
            | Some a \<Rightarrow>
                (case dict_get (st_heap (ld_store ld)) a of
                   None \<Rightarrow> (Inl PyKeyError, ld)
                 | Some e \<Rightarrow> if ti_protected (en_ti e) then unloaded_handle oid ld else loaded_handle a oid ld))
      else link env cache False oid ld)"

function (sequential) resolve ::
    "('s, 'c) senv \<Rightarrow> (nat, stored_record) dict \<Rightarrow> bool \<Rightarrow> pyval \<Rightarrow> (('s, 'c) loading, pyval) act"
  and resolve_list ::
    "('s, 'c) senv \<Rightarrow> (nat, stored_record) dict \<Rightarrow> bool \<Rightarrow> pyval list \<Rightarrow> (('s, 'c) loading, pyval list) act"
  and resolve_items ::
    "('s, 'c) senv \<Rightarrow> (nat, stored_record) dict \<Rightarrow> bool \<Rightarrow> (pyval \<times> pyval) list \<Rightarrow> (('s, 'c) loading, (pyval \<times> pyval) list) act" where
  "resolve env cache lazy (PBlobTok boid n h) ld = (Inr (PHandle boid n h), ld)"
| "resolve env cache lazy (PRef oid) ld = resolve_ref env cache lazy oid ld"
| "resolve env cache lazy (PList xs) ld =
     (case resolve_list env cache lazy xs ld of (Inl e, ld') \<Rightarrow> (Inl e, ld') | (Inr ys, ld') \<Rightarrow> (Inr (PList ys), ld'))"
| "resolve env cache lazy (PDict d) ld =
     (case resolve_items env cache lazy d ld of (Inl e, ld') \<Rightarrow> (Inl e, ld') | (Inr d', ld') \<Rightarrow> (Inr (PDict d'), ld'))"
| "resolve env cache lazy v ld = (Inr v, ld)"
| "resolve_list env cache lazy [] ld = (Inr [], ld)"
| "resolve_list env cache lazy (x # xs) ld =
     (case resolve env cache lazy x ld of
        (Inl e, ld') \<Rightarrow> (Inl e, ld')
      | (Inr y, ld') \<Rightarrow>
          (case resolve_list env cache lazy xs ld' of (Inl e, ld'') \<Rightarrow> (Inl e, ld'') | (Inr ys, ld'') \<Rightarrow> (Inr (y # ys), ld'')))"
| "resolve_items env cache lazy [] ld = (Inr [], ld)"
| "resolve_items env cache lazy (kv # d) ld =
     (case resolve env cache lazy (snd kv) ld of
        (Inl e, ld') \<Rightarrow> (Inl e, ld')
      | (Inr y, ld') \<Rightarrow>
          (case resolve_items env cache lazy d ld' of
             (Inl e, ld'') \<Rightarrow> (Inl e, ld'') | (Inr d', ld'') \<Rightarrow> (Inr ((fst kv, y) # d'), ld'')))"
  by pat_completeness auto
termination
  by (relation "measure (\<lambda>x. case x of
        Inl (_, _, _, v, _) \<Rightarrow> size v
      | Inr (Inl (_, _, _, xs, _)) \<Rightarrow> size_list size xs
      | Inr (Inr (_, _, _, d, _)) \<Rightarrow> size_list (\<lambda>kv. size (fst kv) + size (snd kv) + 1) d)")
     (auto simp: size_prod_simp less_Suc_eq_le intro: size_list_estimation')

text \<open>A field is set: a label column of a protected class goes to the labels, any other to the values.\<close>

definition set_label :: "string \<Rightarrow> pyval \<Rightarrow> labels \<Rightarrow> labels res" where
  "set_label name v l =
     (if name = ''_dc_owner'' then bind_res (as_int v) (\<lambda>i. Inr (l\<lparr>lb_owner := i\<rparr>))
      else if name = ''_dc_groups'' then bind_res (as_list v) (\<lambda>gs. bind_res (map_res as_int gs) (\<lambda>ns. Inr (l\<lparr>lb_groups := ns\<rparr>)))
      else if name = ''_dc_read_floor'' then bind_res (as_int v) (\<lambda>i. Inr (l\<lparr>lb_read := i\<rparr>))
      else bind_res (as_int v) (\<lambda>i. Inr (l\<lparr>lb_write := i\<rparr>)))"

definition set_field :: "string \<Rightarrow> pyval \<Rightarrow> entity \<Rightarrow> entity res" where
  "set_field name v e =
     (if ti_protected (en_ti e) \<and> name \<in> set PERM_FIELDS
      then bind_res (set_label name v (en_labels e)) (\<lambda>l. Inr (e\<lparr>en_labels := l\<rparr>))
      else Inr (e\<lparr>en_vals := AList.update name v (en_vals e)\<rparr>))"

definition fill_one ::
    "('s, 'c) senv \<Rightarrow> (nat, stored_record) dict \<Rightarrow> nat \<Rightarrow> row \<Rightarrow> pyval list \<Rightarrow> fieldspec \<times> field_source \<Rightarrow> unit \<Rightarrow>
       (('s, 'c) loading, unit) act" where
  "fill_one env cache a by_name values entry u =
     (case entry of (spec, src) \<Rightarrow>
        bind_act (lift_act (\<lambda>_. source_value by_name values src)) (\<lambda>raw.
        bind_act (resolve env cache (fs_lazy_refs spec) raw) (\<lambda>v.
        bind_act (lift_act (\<lambda>ld. bind_res (entity_at a (ld_store ld)) (set_field (fs_name spec) v))) (\<lambda>e.
          update_act (\<lambda>ld. ld\<lparr>ld_store := put_entity a e (ld_store ld)\<rparr>)))))"

definition fill_entity ::
    "('s, 'c) senv \<Rightarrow> (nat, stored_record) dict \<Rightarrow> nat \<Rightarrow> stored_record \<Rightarrow> (('s, 'c) loading, unit) act" where
  "fill_entity env cache a rec =
     bind_act (lift_act (\<lambda>ld. ti_for_cid env (sr_cid rec) (ld_store ld))) (\<lambda>ti ld.
       (let persisted = shape_of (ld_store ld) (sr_cid rec) in
        bind_act (lift_act (\<lambda>_. hydration_plan ti persisted)) (\<lambda>hplan.
        bind_act (lift_act (\<lambda>_. decode_fields env (sr_payload rec))) (\<lambda>values.
          if length values \<noteq> length persisted then raise_act SchemaMismatchError
          else fold_act (fill_one env cache a (zip persisted values) values) hplan ())) ld))"

section \<open>Loading a graph\<close>

partial_function (option) fill_loop ::
    "('s, 'c) senv \<Rightarrow> (nat, stored_record) dict \<Rightarrow> ('s, 'c) loading \<Rightarrow> (unit res \<times> ('s, 'c) loading) option" where
  "fill_loop env cache ld =
     (case ld_queue ld of
        [] \<Rightarrow> Some (Inr (), ld)
      | (a, rec) # queue \<Rightarrow>
          (case fill_entity env cache a rec (ld\<lparr>ld_queue := queue\<rparr>) of
             (Inl err, ld') \<Rightarrow> Some (Inl err, ld')
           | (Inr u, ld') \<Rightarrow> fill_loop env cache ld'))"

declare fill_loop.simps [code]

text \<open>
  A failed load forgets every shell it registered. No reference to a shell survives the call, so the
  shells leave the heap with their registry entries.
\<close>

definition forget_shells :: "('s, 'c) loading \<Rightarrow> ('s, 'c) store" where
  "forget_shells ld =
     (let st = ld_store ld; shells = List.map_filter (dict_get (st_registry st)) (ld_registered ld)
      in st\<lparr>st_heap := dict_pop_all shells (st_heap st),
            st_registry := dict_pop_all (ld_registered ld) (st_registry st)\<rparr>)"

definition materialize_graph ::
    "('s, 'c) senv \<Rightarrow> (nat, stored_record) dict \<Rightarrow> nat \<Rightarrow> nat \<Rightarrow> ('s, 'c) store \<Rightarrow> (pyval res \<times> ('s, 'c) store) option" where
  "materialize_graph env cache fresh oid st =
     (case link env cache True oid \<lparr>ld_store = st, ld_registered = [], ld_queue = [], ld_next = fresh\<rparr> of
        (Inl err, ld) \<Rightarrow> Some (Inl err, forget_shells ld)
      | (Inr target, ld) \<Rightarrow>
          (case fill_loop env cache ld of
             None \<Rightarrow> None
           | Some (Inl err, ld') \<Rightarrow> Some (Inl err, forget_shells ld')
           | Some (Inr u, ld') \<Rightarrow> Some (Inr target, ld_store ld')))"

definition load_oid ::
    "('s, 'c) senv \<Rightarrow> (nat, stored_record) dict \<Rightarrow> nat \<Rightarrow> nat \<Rightarrow> ('s, 'c) store \<Rightarrow> (pyval res \<times> ('s, 'c) store) option" where
  "load_oid env cache fresh oid st =
     (case guard st of
        Inl err \<Rightarrow> Some (Inl err, st)
      | Inr u \<Rightarrow>
          (case dict_get (st_registry st) oid of
             Some a \<Rightarrow> Some (Inr (PEnt a), st)
           | None \<Rightarrow> materialize_graph env cache fresh oid st))"

section \<open>The checked dereference\<close>

text \<open>A redacted twin is an entity of its own at a fresh address, without engine slots.\<close>

definition make_twin :: "typeinfo \<Rightarrow> nat \<Rightarrow> ('s, 'c) store \<Rightarrow> pyval res \<times> ('s, 'c) store" where
  "make_twin ti fresh st =
     (Inr (PEnt fresh), put_entity fresh \<lparr>en_ti = ti, en_vals = [], en_labels = legacy_labels, en_oid = None,
        en_store = None, en_state = STATE_NEW, en_twin = True\<rparr> st)"

definition index_labels ::
    "('s, 'c) senv \<Rightarrow> typeinfo \<Rightarrow> nat \<Rightarrow> (('s, 'c) store, (int \<times> int list \<times> int) option) act" where
  "index_labels env ti oid st =
     (case im_ensure (index_env env st) ti (st_index st) of
        Inl err \<Rightarrow> (Inl err, st)
      | Inr (ci, im) \<Rightarrow>
          (case committed_labels ci oid of
             Inl err \<Rightarrow> (Inl err, st\<lparr>st_index := im\<rparr>)
           | Inr (l, ci') \<Rightarrow> (Inr l, st\<lparr>st_index := im\<lparr>im_by_cls := AList.update (ti_name ti) ci' (im_by_cls im)\<rparr>\<rparr>)))"

definition row_readable :: "principal \<Rightarrow> (int \<times> int list \<times> int) option \<Rightarrow> bool" where
  "row_readable p l = (case l of None \<Rightarrow> False | Some (owner, groups, read_floor) \<Rightarrow> can_read_row p owner groups read_floor)"

text \<open>The answer for a registry hit: the instance, a twin, or \<open>None\<close> to ask the record.\<close>

definition check_registered ::
    "('s, 'c) senv \<Rightarrow> nat \<Rightarrow> nat \<Rightarrow> nat \<Rightarrow> (('s, 'c) store, pyval option) act" where
  "check_registered env fresh a oid st =
     (case dict_get (st_heap st) a of
        None \<Rightarrow> (Inl PyKeyError, st)
      | Some e \<Rightarrow>
          if \<not> ti_protected (en_ti e) \<or> is_root (acting st) then (Inr (Some (PEnt a)), st)
          else
            bind_act (index_labels env (en_ti e) oid) (\<lambda>l st.
              case l of
                None \<Rightarrow> (Inr None, st)
              | Some x \<Rightarrow>
                  if row_readable (acting st) (Some x) then (Inr (Some (PEnt a)), st)
                  else bind_act (make_twin (en_ti e) fresh) (\<lambda>v. return_act (Some v)) st) st)"

definition twin_if_unreadable ::
    "('s, 'c) senv \<Rightarrow> nat \<Rightarrow> stored_record \<Rightarrow> (('s, 'c) store, pyval option) act" where
  "twin_if_unreadable env fresh rec st =
     (case ti_for_cid env (sr_cid rec) st of
        Inl err \<Rightarrow> (Inl err, st)
      | Inr ti \<Rightarrow>
          if \<not> ti_protected ti \<or> is_root (acting st) then (Inr None, st)
          else
            (case prior_labels (decode_fields env) (st_persisted_fields st) rec of
               Inl err \<Rightarrow> (Inl err, st)
             | Inr l \<Rightarrow>
                 if can_read_row (acting st) (lb_owner l) (lb_groups l) (lb_read l) then (Inr None, st)
                 else bind_act (make_twin ti fresh) (\<lambda>v. return_act (Some v)) st))"

definition load_checked_record ::
    "('s, 'c) senv \<Rightarrow> (nat, stored_record) dict option \<Rightarrow> nat \<Rightarrow> nat \<Rightarrow> ('s, 'c) store \<Rightarrow> (pyval res \<times> ('s, 'c) store) option" where
  "load_checked_record env cache fresh oid st =
     (case fetch_record env (case cache of None \<Rightarrow> [] | Some c \<Rightarrow> c) oid st of
        Inl err \<Rightarrow> Some (Inl err, st)
      | Inr rec \<Rightarrow>
          (case twin_if_unreadable env fresh rec st of
             (Inl err, st') \<Rightarrow> Some (Inl err, st')
           | (Inr (Some twin), st') \<Rightarrow> Some (Inr twin, st')
           | (Inr None, st') \<Rightarrow>
               materialize_graph env (case cache of None \<Rightarrow> [(oid, rec)] | Some c \<Rightarrow> c) fresh oid st'))"

definition load_oid_deref ::
    "('s, 'c) senv \<Rightarrow> (nat, stored_record) dict option \<Rightarrow> nat \<Rightarrow> nat \<Rightarrow> ('s, 'c) store \<Rightarrow> (pyval res \<times> ('s, 'c) store) option" where
  "load_oid_deref env cache fresh oid st =
     (case guard st of
        Inl err \<Rightarrow> Some (Inl err, st)
      | Inr u \<Rightarrow>
          (case dict_get (st_registry st) oid of
             None \<Rightarrow> load_checked_record env cache fresh oid st
           | Some a \<Rightarrow>
               (case check_registered env fresh a oid st of
                  (Inl err, st') \<Rightarrow> Some (Inl err, st')
                | (Inr (Some v), st') \<Rightarrow> Some (Inr v, st')
                | (Inr None, st') \<Rightarrow> load_checked_record env cache fresh oid st')))"

text \<open>The target of a handle made by \<open>Lazy.of\<close>: judged on its live labels before its first commit.\<close>

definition deref_cached_protected ::
    "('s, 'c) senv \<Rightarrow> nat \<Rightarrow> nat \<Rightarrow> nat \<Rightarrow> ('s, 'c) store \<Rightarrow> (pyval res \<times> ('s, 'c) store) option" where
  "deref_cached_protected env fresh a oid st =
     (if dict_get (st_new st) oid \<noteq> None
      then (case dict_get (st_heap st) a of
              None \<Rightarrow> Some (Inl PyKeyError, st)
            | Some e \<Rightarrow>
                if can_read_row (acting st) (lb_owner (en_labels e)) (lb_groups (en_labels e)) (lb_read (en_labels e))
                then Some (Inr (PEnt a), st) else Some (make_twin (en_ti e) fresh st))
      else load_oid_deref env None fresh oid st)"

end
