(* ===== verification/Store_Query.thy ===== *)
theory Store_Query
  imports Store_Read Planner Store_Commit
begin

text \<open>
  The queries of a session (\<open>_store.py\<close>).

  \<^item> \<open>count\<close> and \<open>pluck\<close> decode records (\<open>raw_row\<close>) and build no entity; \<open>query\<close>, \<open>get\<close>, \<open>get_many\<close>
    and \<open>incoming\<close> hydrate. An operation that hydrates is partial, since loading a graph is.
  \<^item> A generator is its list of results: \<open>_iter_raw\<close> and \<open>_matching_rows\<close> load a chunk, then decode
    and judge its rows one by one, and the first error ends them.
  \<^item> A load takes its fresh addresses past every address of the heap.
  \<^item> The public \<open>Ref\<close> of \<open>pluck\<close> is the token of the record, so \<open>_publish\<close> is the identity here.
    The warning about a type never committed is not modelled.
\<close>

section \<open>Partial actions\<close>

type_synonym ('st, 'a) pact = "'st \<Rightarrow> ('a res \<times> 'st) option"

definition run_act :: "('st, 'a) act \<Rightarrow> ('st, 'a) pact" where "run_act m st = Some (m st)"

definition bind_pact :: "('st, 'a) pact \<Rightarrow> ('a \<Rightarrow> ('st, 'b) pact) \<Rightarrow> ('st, 'b) pact" where
  "bind_pact m f st =
     (case m st of
        None \<Rightarrow> None
      | Some (Inl e, st') \<Rightarrow> Some (Inl e, st')
      | Some (Inr x, st') \<Rightarrow> f x st')"

fun fold_pact :: "('x \<Rightarrow> 'a \<Rightarrow> ('st, 'a) pact) \<Rightarrow> 'x list \<Rightarrow> 'a \<Rightarrow> ('st, 'a) pact" where
  "fold_pact f [] a = run_act (return_act a)"
| "fold_pact f (x # xs) a = bind_pact (f x a) (fold_pact f xs)"

definition map_pact :: "('x \<Rightarrow> ('st, 'a) pact) \<Rightarrow> 'x list \<Rightarrow> ('st, 'a list) pact" where
  "map_pact f xs = fold_pact (\<lambda>x ys. bind_pact (f x) (\<lambda>y. run_act (return_act (ys @ [y])))) xs []"

section \<open>Targets and candidates\<close>

datatype query_arg = QClass typeinfo | QCond cond | QValue pyval

definition query_target :: "('s, 'c) senv \<Rightarrow> query_arg \<Rightarrow> (typeinfo \<times> cond option) res" where
  "query_target env t =
     (case t of
        QClass ti \<Rightarrow> Inr (ti, None)
      | QCond c \<Rightarrow> bind_res (entity_class c) (\<lambda>name.
          case dict_get (se_types env) name of None \<Rightarrow> Inl NotAnEntityError | Some ti \<Rightarrow> Inr (ti, Some c))
      | QValue v \<Rightarrow> Inl PyTypeError)"

definition never_committed :: "typeinfo \<Rightarrow> ('s, 'c) store \<Rightarrow> bool" where
  "never_committed ti st \<longleftrightarrow> dict_get (st_cid_by_typename st) (ti_name ti) = None"

definition fence_candidates :: "typeinfo \<Rightarrow> principal \<Rightarrow> class_indexes \<Rightarrow> bitmap \<Rightarrow> bitmap res" where
  "fence_candidates ti p ci candidate =
     (if ti_protected ti
      then bind_res (readable_bitmap p ci) (\<lambda>rb. Inr (case rb of None \<Rightarrow> candidate | Some b \<Rightarrow> candidate \<inter> b))
      else Inr candidate)"

definition candidates :: "typeinfo \<Rightarrow> class_indexes \<Rightarrow> cond option \<Rightarrow> principal \<Rightarrow> (bitmap \<times> cond option) res" where
  "candidates ti ci cnd p =
     bind_res (case cnd of None \<Rightarrow> Inr (None, None) | Some c \<Rightarrow> plan c ci) (\<lambda>(bm, residual).
     bind_res (fence_candidates ti p ci (case bm of None \<Rightarrow> ci_extent ci | Some b \<Rightarrow> b)) (\<lambda>cs.
       Inr (cs, residual)))"

definition oid_at :: "('s, 'c) store \<Rightarrow> nat \<Rightarrow> nat option" where
  "oid_at st a = (case dict_get (st_heap st) a of None \<Rightarrow> None | Some e \<Rightarrow> en_oid e)"

section \<open>Decoded rows\<close>

definition RAW_CHUNK :: nat where "RAW_CHUNK = 8192"

function chunked :: "nat \<Rightarrow> 'a list \<Rightarrow> 'a list list" where
  "chunked n xs = (if xs = [] \<or> n = 0 then [] else take n xs # chunked n (drop n xs))"
  by pat_completeness auto
termination
  by (relation "measure (\<lambda>(_, xs). length xs)") auto

declare chunked.simps [simp del]

definition raw_row :: "('s, 'c) senv \<Rightarrow> typeinfo \<Rightarrow> ('s, 'c) store \<Rightarrow> stored_record \<Rightarrow> row res" where
  "raw_row env ti st rec =
     bind_res (hydration_plan ti (shape_of st (sr_cid rec))) (\<lambda>hplan.
     bind_res (decode_fields env (sr_payload rec)) (\<lambda>values.
       map_res (\<lambda>(spec, src).
         bind_res (source_value (zip (shape_of st (sr_cid rec)) values) values src) (\<lambda>v. Inr (fs_name spec, v))) hplan))"

definition matching_row ::
    "('s, 'c) senv \<Rightarrow> typeinfo \<Rightarrow> ('s, 'c) store \<Rightarrow> cond option \<Rightarrow> (nat, stored_record) dict \<Rightarrow> nat \<Rightarrow> (nat \<times> row) list res" where
  "matching_row env ti st raw_cond records oid =
     (case dict_get records oid of
        None \<Rightarrow> Inl DataCrystalError
      | Some rec \<Rightarrow>
          bind_res (raw_row env ti st rec) (\<lambda>row.
          bind_res (case raw_cond of None \<Rightarrow> Inr True | Some c \<Rightarrow> evaluate c row) (\<lambda>b.
            Inr (if b then [(oid, row)] else []))))"

definition matching_chunk ::
    "('s, 'c) senv \<Rightarrow> typeinfo \<Rightarrow> ('s, 'c) store \<Rightarrow> cond option \<Rightarrow> nat list \<Rightarrow> (nat \<times> row) list res" where
  "matching_chunk env ti st raw_cond oids =
     bind_res (se_load env oids (st_backend st)) (\<lambda>records.
     bind_res (map_res (matching_row env ti st raw_cond records) oids) (\<lambda>rss. Inr (concat rss)))"

definition matching_rows ::
    "('s, 'c) senv \<Rightarrow> typeinfo \<Rightarrow> ('s, 'c) store \<Rightarrow> cond option \<Rightarrow> nat list \<Rightarrow> (nat \<times> row) list res" where
  "matching_rows env ti st raw_cond oids =
     bind_res (map_res (matching_chunk env ti st raw_cond) (chunked RAW_CHUNK oids)) (\<lambda>rss. Inr (concat rss))"

abbreviation iter_raw :: "('s, 'c) senv \<Rightarrow> typeinfo \<Rightarrow> ('s, 'c) store \<Rightarrow> nat list \<Rightarrow> (nat \<times> row) list res" where
  "iter_raw env ti st \<equiv> matching_rows env ti st None"

definition raw_residual :: "('s, 'c) store \<Rightarrow> cond option \<Rightarrow> cond option res" where
  "raw_residual st residual =
     (case residual of None \<Rightarrow> Inr None | Some c \<Rightarrow> bind_res (raw_condition (oid_at st) c) (\<lambda>r. Inr (Some r)))"

section \<open>explain, count, pluck\<close>

definition explain :: "('s, 'c) senv \<Rightarrow> query_arg \<Rightarrow> (('s, 'c) store, query_plan) act" where
  "explain env target =
     bind_act (lift_act guard) (\<lambda>_.
     bind_act (lift_act (\<lambda>_. query_target env target)) (\<lambda>(ti, cnd) st.
       if never_committed ti st
       then (Inr \<lparr>qp_typename = ti_name ti, qp_condition = cnd, qp_indexed = False, qp_residual = None,
                  qp_candidates = 0, qp_extent = 0\<rparr>, st)
       else bind_act (ensure_index env ti) (\<lambda>ci. lift_act (\<lambda>st.
              bind_res (if ti_protected ti then readable_bitmap (acting st) ci else Inr None) (\<lambda>readable.
                explain_plan (ti_name ti) ci cnd readable))) st))"

definition count_matches :: "('s, 'c) senv \<Rightarrow> typeinfo \<Rightarrow> class_indexes \<Rightarrow> cond option \<Rightarrow> ('s, 'c) store \<Rightarrow> nat res" where
  "count_matches env ti ci cnd st =
     (case cnd of
        None \<Rightarrow>
          if ti_protected ti
          then bind_res (readable_bitmap (acting st) ci) (\<lambda>rb. Inr (case rb of None \<Rightarrow> card (ci_extent ci) | Some b \<Rightarrow> card b))
          else Inr (card (ci_extent ci))
      | Some c \<Rightarrow>
          bind_res (plan c ci) (\<lambda>(bm, residual).
          bind_res (fence_candidates ti (acting st) ci (case bm of None \<Rightarrow> ci_extent ci | Some b \<Rightarrow> b)) (\<lambda>cs.
            case residual of
              None \<Rightarrow> Inr (card cs)
            | Some r \<Rightarrow>
                bind_res (raw_condition (oid_at st) r) (\<lambda>raw.
                bind_res (matching_rows env ti st (Some raw) (bm_iter cs)) (\<lambda>rows. Inr (length rows))))))"

definition count :: "('s, 'c) senv \<Rightarrow> query_arg \<Rightarrow> (('s, 'c) store, nat) act" where
  "count env target =
     bind_act (lift_act guard) (\<lambda>_.
     bind_act (lift_act (\<lambda>_. query_target env target)) (\<lambda>(ti, cnd) st.
       if never_committed ti st then (Inr 0, st)
       else bind_act (ensure_index env ti) (\<lambda>ci. lift_act (count_matches env ti ci cnd)) st))"

definition require_persisted_fields :: "typeinfo \<Rightarrow> string list \<Rightarrow> unit res" where
  "require_persisted_fields ti fs = (if list_all (\<lambda>f. f \<in> set (ti_field_names ti)) fs then Inr () else Inl QueryError)"

definition project :: "string list \<Rightarrow> row \<Rightarrow> pyval" where
  "project fs row = (case fs of [f] \<Rightarrow> dict_getd row f PNone | _ \<Rightarrow> PTuple (map (\<lambda>f. dict_getd row f PNone) fs))"

definition pluck_rows ::
    "('s, 'c) senv \<Rightarrow> typeinfo \<Rightarrow> class_indexes \<Rightarrow> cond option \<Rightarrow> order_arg option \<Rightarrow> nat option \<Rightarrow> nat \<Rightarrow> ('s, 'c) store
       \<Rightarrow> (nat \<times> row) list res" where
  "pluck_rows env ti ci cnd order_by limit offset st =
     bind_res (candidates ti ci cnd (acting st)) (\<lambda>(cs, residual).
     bind_res (raw_residual st residual) (\<lambda>raw.
       case order_by of
         Some ob \<Rightarrow>
           bind_res (parse_order_by ob ti) (\<lambda>(f, descending).
           if residual = None \<and> dict_get (ci_eq ci) f \<noteq> None
           then bind_res (windowed_index_order ci cs f descending limit offset) (iter_raw env ti st)
           else bind_res (matching_rows env ti st raw (bm_iter cs)) (\<lambda>rows.
                bind_res (order_rows rows f descending) (\<lambda>ordered. Inr (apply_window ordered limit offset))))
       | None \<Rightarrow>
           if residual = None then matching_rows env ti st raw (window_iter (bm_iter cs) limit offset)
           else bind_res (matching_rows env ti st raw (bm_iter cs)) (\<lambda>rows. Inr (apply_window rows limit offset))))"

definition pluck ::
    "('s, 'c) senv \<Rightarrow> query_arg \<Rightarrow> string list \<Rightarrow> pyval \<Rightarrow> pyval \<Rightarrow> order_arg option \<Rightarrow> (('s, 'c) store, pyval list) act" where
  "pluck env target fs limit offset order_by =
     bind_act (lift_act guard) (\<lambda>_.
     bind_act (lift_act (\<lambda>_. validate_window limit offset)) (\<lambda>(lim, off).
       if fs = [] then raise_act PyTypeError
       else
         bind_act (lift_act (\<lambda>_. query_target env target)) (\<lambda>(ti, cnd).
         bind_act (lift_act (\<lambda>_. require_persisted_fields ti fs)) (\<lambda>_ st.
           if never_committed ti st then (Inr [], st)
           else bind_act (ensure_index env ti) (\<lambda>ci. lift_act (\<lambda>st.
                  bind_res (pluck_rows env ti ci cnd order_by lim off st) (\<lambda>rows.
                    Inr (map (\<lambda>(oid, row). project fs row) rows)))) st))))"

section \<open>Hydrating reads\<close>

definition past :: "('s, 'c) store \<Rightarrow> nat" where
  "past st = fold max (map fst (st_heap st)) 0 + 1"

definition missing_oids :: "nat list \<Rightarrow> ('s, 'c) store \<Rightarrow> nat list" where
  "missing_oids oids st = filter (\<lambda>oid. dict_get (st_registry st) oid = None) oids"

definition load_missing :: "('s, 'c) senv \<Rightarrow> nat list \<Rightarrow> (('s, 'c) store, (nat, stored_record) dict) act" where
  "load_missing env oids =
     lift_act (\<lambda>st. let missing = missing_oids oids st in
       if missing = [] then Inr [] else se_load env missing (st_backend st))"

definition load_cached :: "('s, 'c) senv \<Rightarrow> (nat, stored_record) dict \<Rightarrow> nat \<Rightarrow> (('s, 'c) store, pyval) pact" where
  "load_cached env cache oid st = load_oid env cache (past st) oid st"

definition get_many_unchecked :: "('s, 'c) senv \<Rightarrow> nat list \<Rightarrow> (('s, 'c) store, pyval list) pact" where
  "get_many_unchecked env oids =
     bind_pact (run_act (load_missing env oids)) (\<lambda>cache. map_pact (load_cached env cache) oids)"

definition live_row :: "pyval \<Rightarrow> ('s, 'c) store \<Rightarrow> row res" where
  "live_row v st = (case v of PEnt a \<Rightarrow> bind_res (entity_at a st) (\<lambda>e. Inr (en_row e)) | _ \<Rightarrow> Inl PyAttributeError)"

text \<open>\<open>[o for o in objs if residual.evaluate(o)]\<close>\<close>

definition satisfying :: "cond \<Rightarrow> pyval list \<Rightarrow> (('s, 'c) store, pyval list) act" where
  "satisfying c objs =
     lift_act (\<lambda>st. bind_res (map_res (\<lambda>v. bind_res (bind_res (live_row v st) (evaluate c)) (\<lambda>b. Inr (if b then [v] else []))) objs)
       (\<lambda>vss. Inr (concat vss)))"

text \<open>\<open>_order_by_attr\<close>: the objects that have a value sorted on it, the others behind them.\<close>

definition order_by_attr :: "string \<Rightarrow> bool \<Rightarrow> pyval list \<Rightarrow> (('s, 'c) store, pyval list) act" where
  "order_by_attr f descending objs =
     lift_act (\<lambda>st.
       bind_res (map_res (\<lambda>v. bind_res (bind_res (live_row v st) (\<lambda>r. get_attr r f)) (\<lambda>x. Inr (v, x))) objs) (\<lambda>pairs.
       bind_res (sort_vals snd descending (filter (\<lambda>(v, x). x \<noteq> PNone) pairs)) (\<lambda>present.
         Inr (map fst (present @ filter (\<lambda>(v, x). x = PNone) pairs)))))"

definition ordered_window ::
    "('s, 'c) senv \<Rightarrow> typeinfo \<Rightarrow> class_indexes \<Rightarrow> bitmap \<Rightarrow> string \<Rightarrow> bool \<Rightarrow> nat option \<Rightarrow> nat \<Rightarrow> ('s, 'c) store \<Rightarrow> nat list res" where
  "ordered_window env ti ci matched f descending limit offset st =
     (if dict_get (ci_eq ci) f \<noteq> None then windowed_index_order ci matched f descending limit offset
      else
        bind_res (iter_raw env ti st (bm_iter matched)) (\<lambda>rows.
        bind_res (map_res (\<lambda>(oid, row). case dict_get row f of None \<Rightarrow> Inl PyKeyError | Some v \<Rightarrow> Inr (oid, v)) rows) (\<lambda>vals.
        bind_res (order_by_values (bm_iter matched) (\<lambda>oid. dict_getd vals oid PNone) descending) (\<lambda>ordered.
          Inr (apply_window ordered limit offset)))))"

definition query_hits ::
    "('s, 'c) senv \<Rightarrow> typeinfo \<Rightarrow> class_indexes \<Rightarrow> cond option \<Rightarrow> order_arg option \<Rightarrow> nat option \<Rightarrow> nat \<Rightarrow> (('s, 'c) store, pyval list) pact" where
  "query_hits env ti ci cnd order_by limit offset =
     bind_pact (run_act (lift_act (\<lambda>st. candidates ti ci cnd (acting st)))) (\<lambda>(cs, residual).
       case order_by of
         Some ob \<Rightarrow>
           bind_pact (run_act (lift_act (\<lambda>_. parse_order_by ob ti))) (\<lambda>(f, descending).
             case residual of
               None \<Rightarrow> bind_pact (run_act (lift_act (ordered_window env ti ci cs f descending limit offset))) (get_many_unchecked env)
             | Some r \<Rightarrow>
                 bind_pact (get_many_unchecked env (bm_iter cs)) (\<lambda>objs.
                 bind_pact (run_act (satisfying r objs)) (\<lambda>hits.
                 bind_pact (run_act (order_by_attr f descending hits)) (\<lambda>ordered.
                   run_act (return_act (apply_window ordered limit offset))))))
       | None \<Rightarrow>
           (case residual of
              None \<Rightarrow> get_many_unchecked env (window_iter (bm_iter cs) limit offset)
            | Some r \<Rightarrow>
                bind_pact (get_many_unchecked env (bm_iter cs)) (\<lambda>objs.
                bind_pact (run_act (satisfying r objs)) (\<lambda>hits. run_act (return_act (apply_window hits limit offset))))))"

definition query ::
    "('s, 'c) senv \<Rightarrow> query_arg \<Rightarrow> pyval \<Rightarrow> pyval \<Rightarrow> order_arg option \<Rightarrow> (('s, 'c) store, pyval list) pact" where
  "query env target limit offset order_by =
     bind_pact (run_act (lift_act guard)) (\<lambda>_.
     bind_pact (run_act (lift_act (\<lambda>_. validate_window limit offset))) (\<lambda>(lim, off).
     bind_pact (run_act (lift_act (\<lambda>_. query_target env target))) (\<lambda>(ti, cnd) st.
       if never_committed ti st then Some (Inr [], st)
       else bind_pact (run_act (ensure_index env ti)) (\<lambda>ci. query_hits env ti ci cnd order_by lim off) st)))"

text \<open>\<open>query_iter\<close>, the stream pulled to its end; the principal is the one of the call.\<close>

definition stream_chunk ::
    "('s, 'c) senv \<Rightarrow> cond option \<Rightarrow> nat list \<Rightarrow> pyval list \<Rightarrow> (('s, 'c) store, pyval list) pact" where
  "stream_chunk env residual oids out =
     bind_pact (run_act (lift_act guard)) (\<lambda>_.
     bind_pact (get_many_unchecked env oids) (\<lambda>objs.
       case residual of
         None \<Rightarrow> run_act (return_act (out @ objs))
       | Some r \<Rightarrow> bind_pact (run_act (satisfying r objs)) (\<lambda>hits. run_act (return_act (out @ hits)))))"

definition query_iter_stream :: "('s, 'c) senv \<Rightarrow> typeinfo \<Rightarrow> cond option \<Rightarrow> principal \<Rightarrow> (('s, 'c) store, pyval list) pact" where
  "query_iter_stream env ti cnd p st =
     (if never_committed ti st then Some (Inr [], st)
      else
        bind_pact (run_act (ensure_index env ti)) (\<lambda>ci.
        bind_pact (run_act (lift_act (\<lambda>_. candidates ti ci cnd p))) (\<lambda>(cs, residual).
          fold_pact (stream_chunk env residual) (chunked RAW_CHUNK (bm_iter cs)) [])) st)"

definition query_iter :: "('s, 'c) senv \<Rightarrow> query_arg \<Rightarrow> (('s, 'c) store, pyval list) pact" where
  "query_iter env target =
     bind_pact (run_act (lift_act guard)) (\<lambda>_.
     bind_pact (run_act (lift_act (\<lambda>_. query_target env target))) (\<lambda>(ti, cnd) st.
       query_iter_stream env ti cnd (acting st) st))"

section \<open>Lookups\<close>

text \<open>The fence of a lookup: a row the principal may not read is a row that is not there.\<close>

definition hidden_row :: "('s, 'c) senv \<Rightarrow> typeinfo \<Rightarrow> nat \<Rightarrow> (('s, 'c) store, bool) act" where
  "hidden_row env ti oid st =
     (if ti_protected ti \<and> \<not> is_root (acting st)
      then bind_act (index_labels env ti oid) (\<lambda>l. lift_act (\<lambda>st. Inr (\<not> row_readable (acting st) l))) st
      else (Inr False, st))"

definition get :: "('s, 'c) senv \<Rightarrow> typeinfo \<Rightarrow> (string, pyval) dict \<Rightarrow> (('s, 'c) store, pyval) pact" where
  "get env ti unique_key =
     bind_pact (run_act (lift_act guard)) (\<lambda>_.
       case unique_key of
         [(field, v)] \<Rightarrow>
           bind_pact (run_act (lift_act (\<lambda>_. require_unique ti field))) (\<lambda>_ st.
             if never_committed ti st then Some (Inr PNone, st)
             else bind_pact (run_act (ensure_index env ti)) (\<lambda>ci.
                  bind_pact (run_act (lift_act (\<lambda>_. unique_holder ci field v))) (\<lambda>found.
                    case found of
                      None \<Rightarrow> run_act (return_act PNone)
                    | Some oid \<Rightarrow>
                        bind_pact (run_act (hidden_row env ti oid)) (\<lambda>hide.
                          if hide then run_act (return_act PNone) else load_cached env [] oid))) st)
       | _ \<Rightarrow> run_act (raise_act PyTypeError))"

definition slot_of ::
    "('s, 'c) senv \<Rightarrow> typeinfo \<Rightarrow> (nat, stored_record) dict \<Rightarrow> nat option \<Rightarrow> (('s, 'c) store, pyval) pact" where
  "slot_of env ti cache found =
     (case found of
        None \<Rightarrow> run_act (return_act PNone)
      | Some oid \<Rightarrow>
          bind_pact (run_act (hidden_row env ti oid)) (\<lambda>hide.
            if hide then run_act (return_act PNone) else load_cached env cache oid))"

definition get_many_by_key ::
    "('s, 'c) senv \<Rightarrow> typeinfo \<Rightarrow> (string, pyval list) dict \<Rightarrow> (('s, 'c) store, pyval list) pact" where
  "get_many_by_key env ti unique_key =
     (case unique_key of
        [(field, vs)] \<Rightarrow>
          bind_pact (run_act (lift_act (\<lambda>_. require_unique ti field))) (\<lambda>_ st.
            if never_committed ti st then Some (Inr (replicate (length vs) PNone), st)
            else bind_pact (run_act (ensure_index env ti)) (\<lambda>ci.
                 bind_pact (run_act (lift_act (\<lambda>_. map_res (unique_holder ci field) vs))) (\<lambda>oids.
                 bind_pact (run_act (load_missing env (List.map_filter (\<lambda>x. x) oids))) (\<lambda>cache.
                   map_pact (slot_of env ti cache) oids))) st)
      | _ \<Rightarrow> run_act (raise_act PyTypeError))"

text \<open>\<open>Lazy.get\<close> on a loaded handle: a protected target bound to a store is checked again.\<close>

definition lazy_get_loaded :: "('s, 'c) senv \<Rightarrow> nat \<Rightarrow> (('s, 'c) store, pyval) pact" where
  "lazy_get_loaded env a st =
     (case dict_get (st_heap st) a of
        None \<Rightarrow> Some (Inl PyKeyError, st)
      | Some e \<Rightarrow>
          if ti_protected (en_ti e)
          then (case en_oid e of
                  None \<Rightarrow> Some (Inr (PEnt a), st)
                | Some oid \<Rightarrow> if en_store e = None then Some (Inr (PEnt a), st) else deref_cached_protected env (past st) a oid st)
          else Some (Inr (PEnt a), st))"

text \<open>\<open>Lazy.get\<close>: the handle that answers, and whether it keeps the target.\<close>

definition lazy_get :: "('s, 'c) senv \<Rightarrow> nat option \<Rightarrow> nat option \<Rightarrow> (('s, 'c) store, pyval \<times> nat option) pact" where
  "lazy_get env lazy_oid target =
     (case target of
        Some a \<Rightarrow> bind_pact (lazy_get_loaded env a) (\<lambda>v. run_act (return_act (v, Some a)))
      | None \<Rightarrow>
          (case lazy_oid of
             None \<Rightarrow> run_act (raise_act StoreClosedError)
           | Some oid \<Rightarrow>
               bind_pact (\<lambda>st. load_oid_deref env None (past st) oid st) (\<lambda>v.
                 run_act (lift_act (\<lambda>st. Inr (v, case v of
                   PEnt a \<Rightarrow> (case dict_get (st_heap st) a of
                                 None \<Rightarrow> None | Some e \<Rightarrow> if ti_protected (en_ti e) then None else Some a)
                 | _ \<Rightarrow> None))))))"

definition deref_item :: "('s, 'c) senv \<Rightarrow> (nat, stored_record) dict \<Rightarrow> pyval \<Rightarrow> (('s, 'c) store, pyval) pact" where
  "deref_item env cache item =
     (case item of
        PLazy i lazy_oid target \<Rightarrow>
          (case (target, lazy_oid) of
             (None, Some oid) \<Rightarrow> (\<lambda>st. load_oid_deref env (Some cache) (past st) oid st)
           | _ \<Rightarrow> bind_pact (lazy_get env lazy_oid target) (\<lambda>(v, kept). run_act (return_act v)))
      | PInt i \<Rightarrow> (\<lambda>st. if i < 0 then Some (Inl DanglingRefError, st) else load_oid_deref env (Some cache) (past st) (nat i) st)
      | PBool b \<Rightarrow> (\<lambda>st. load_oid_deref env (Some cache) (past st) (if b then 1 else 0) st)
      | PRef oid \<Rightarrow> (\<lambda>st. load_oid_deref env (Some cache) (past st) oid st)
      | _ \<Rightarrow> run_act (return_act item))"

definition wanted_oid :: "pyval \<Rightarrow> nat list res" where
  "wanted_oid item =
     (case item of
        PLazy i lazy_oid target \<Rightarrow> Inr (case (target, lazy_oid) of (None, Some oid) \<Rightarrow> [oid] | _ \<Rightarrow> [])
      | PInt i \<Rightarrow> Inr (if i < 0 then [] else [nat i])
      | PBool b \<Rightarrow> Inr [if b then 1 else 0]
      | PRef oid \<Rightarrow> Inr [oid]
      | PEnt a \<Rightarrow> Inr []
      | _ \<Rightarrow> Inl NotAnEntityError)"

definition get_many :: "('s, 'c) senv \<Rightarrow> pyval list \<Rightarrow> (('s, 'c) store, pyval list) pact" where
  "get_many env items =
     bind_pact (run_act (lift_act guard)) (\<lambda>_.
     bind_pact (run_act (lift_act (\<lambda>_. map_res wanted_oid items))) (\<lambda>wanted.
     bind_pact (run_act (load_missing env (concat wanted))) (\<lambda>cache.
       map_pact (deref_item env cache) items)))"

end
