(* ===== verification/Store_Surface.thy ===== *)
theory Store_Surface
  imports Store_Query
begin

text \<open>
  The rest of the public surface of a session (\<open>_store.py\<close>): backlinks, the schema checks \<open>verify\<close>
  and \<open>migrate\<close>, blob reads with their gate, the root, and \<open>upsert\<close>.

  A blob handle carries its owner's OID only when the owner is protected; here that OID is an
  argument of the read.
\<close>

section \<open>Backlinks\<close>

definition reverse_index :: "('s, 'c) senv \<Rightarrow> (('s, 'c) store, postings) act" where
  "reverse_index env st =
     (case ensure_reverse (index_env env st) (st_index st) of
        Inl err \<Rightarrow> (Inl err, st)
      | Inr (rv, im) \<Rightarrow> (Inr rv, st\<lparr>st_index := im\<rparr>))"

definition sort_registered ::
    "('s, 'c) senv \<Rightarrow> nat \<Rightarrow> nat list \<times> nat list \<Rightarrow> (('s, 'c) store, nat list \<times> nat list) act" where
  "sort_registered env oid acc =
     (case acc of (survivors, to_load) \<Rightarrow>
        (\<lambda>st.
          case dict_get (st_registry st) oid of
            None \<Rightarrow> (Inr (survivors, to_load @ [oid]), st)
          | Some a \<Rightarrow>
              (case dict_get (st_heap st) a of
                 None \<Rightarrow> (Inl PyKeyError, st)
               | Some e \<Rightarrow>
                   if \<not> ti_protected (en_ti e) then (Inr (survivors @ [oid], to_load), st)
                   else bind_act (index_labels env (en_ti e) oid) (\<lambda>l. lift_act (\<lambda>st.
                          Inr (if row_readable (acting st) l then survivors @ [oid] else survivors, to_load))) st)))"

definition readable_registered :: "('s, 'c) senv \<Rightarrow> nat list \<Rightarrow> (('s, 'c) store, nat list \<times> nat list) act" where
  "readable_registered env oids = fold_act (sort_registered env) oids ([], [])"

definition judge_unregistered ::
    "('s, 'c) senv \<Rightarrow> (nat, stored_record) dict \<Rightarrow> principal \<Rightarrow> ('s, 'c) store \<Rightarrow> nat \<Rightarrow> nat list res" where
  "judge_unregistered env cache p st oid =
     (case dict_get cache oid of
        None \<Rightarrow> Inr []
      | Some rec \<Rightarrow>
          bind_res (ti_for_cid env (sr_cid rec) st) (\<lambda>ti.
            if \<not> ti_protected ti then Inr [oid]
            else bind_res (prior_labels (decode_fields env) (st_persisted_fields st) rec) (\<lambda>l.
                   Inr (if can_read_row p (lb_owner l) (lb_groups l) (lb_read l) then [oid] else []))))"

definition readable_unregistered ::
    "('s, 'c) senv \<Rightarrow> nat list \<Rightarrow> (nat, stored_record) dict \<Rightarrow> principal \<Rightarrow> ('s, 'c) store \<Rightarrow> nat list res" where
  "readable_unregistered env to_load cache p st =
     bind_res (map_res (judge_unregistered env cache p st) to_load) (\<lambda>oss. Inr (concat oss))"

definition readable_referrers :: "('s, 'c) senv \<Rightarrow> nat list \<Rightarrow> (('s, 'c) store, nat list \<times> (nat, stored_record) dict) act" where
  "readable_referrers env oids =
     bind_act (readable_registered env oids) (\<lambda>(survivors, to_load).
     bind_act (lift_act (\<lambda>st. if to_load = [] then Inr [] else se_load env to_load (st_backend st))) (\<lambda>cache.
     bind_act (lift_act (\<lambda>st. readable_unregistered env to_load cache (acting st) st)) (\<lambda>more.
       return_act (sort (survivors @ more), cache))))"

definition incoming :: "('s, 'c) senv \<Rightarrow> pyval \<Rightarrow> (('s, 'c) store, pyval list) pact" where
  "incoming env v =
     bind_pact (run_act (lift_act guard)) (\<lambda>_.
       case v of
         PEnt a \<Rightarrow>
           bind_pact (run_act (lift_act (entity_at a))) (\<lambda>e.
             case en_oid e of
               None \<Rightarrow> run_act (return_act [])
             | Some oid \<Rightarrow>
                 bind_pact (run_act (reverse_index env)) (\<lambda>rv st.
                   case dict_get rv oid of
                     None \<Rightarrow> Some (Inr [], st)
                   | Some referrers \<Rightarrow>
                       if is_root (acting st) then get_many_unchecked env (bm_iter referrers) st
                       else bind_pact (run_act (readable_referrers env (bm_iter referrers))) (\<lambda>(survivors, cache).
                              map_pact (load_cached env cache) survivors) st))
       | _ \<Rightarrow> run_act (raise_act NotAnEntityError))"

section \<open>verify, migrate\<close>

definition caught_by_verify :: "error \<Rightarrow> bool" where
  "caught_by_verify err \<longleftrightarrow> err \<in> {SchemaMismatchError, PyValueError, PyKeyError, PyTypeError, PyIndexError}"

definition verify_record ::
    "('s, 'c) senv \<Rightarrow> ('s, 'c) store \<Rightarrow> string \<Rightarrow> stored_record \<Rightarrow> (string \<times> nat) list \<Rightarrow> (string \<times> nat) list res" where
  "verify_record env st typename rec failures =
     (case (case dict_get (se_types env) typename of None \<Rightarrow> Inl SchemaMismatchError | Some ti \<Rightarrow> decode_check env rec ti st) of
        Inr u \<Rightarrow> Inr failures
      | Inl err \<Rightarrow> if caught_by_verify err then Inr (failures @ [(typename, sr_oid rec)]) else Inl err)"

definition verify_cid ::
    "('s, 'c) senv \<Rightarrow> ('s, 'c) store \<Rightarrow> string \<Rightarrow> nat \<Rightarrow> (string \<times> nat) list \<Rightarrow> (string \<times> nat) list res" where
  "verify_cid env st typename cid failures =
     bind_res (se_scan env cid (st_backend st)) (\<lambda>recs. fold_res (verify_record env st typename) recs failures)"

definition verify_all :: "('s, 'c) senv \<Rightarrow> ('s, 'c) store \<Rightarrow> (string \<times> nat) list res" where
  "verify_all env st =
     fold_res (\<lambda>typename. fold_res (verify_cid env st typename) (dict_getd (st_cids_by_typename st) typename []))
       (dict_keys (st_cids_by_typename st)) []"

definition verify :: "('s, 'c) senv \<Rightarrow> (('s, 'c) store, (string \<times> nat) list) act" where
  "verify env = bind_act (lift_act guard) (\<lambda>_. lift_act (verify_all env))"

definition stale_cids :: "typeinfo \<Rightarrow> ('s, 'c) store \<Rightarrow> nat list" where
  "stale_cids ti st =
     (let lineage = dict_getd (st_cids_by_typename st) (ti_name ti) [];
          current = List.find (\<lambda>c. dict_get (st_persisted_fields st) c = Some (ti_field_names ti)) lineage
      in filter (\<lambda>c. Some c \<noteq> current) lineage)"

definition mark_item :: "('s, 'c) senv \<Rightarrow> pyval \<Rightarrow> unit \<Rightarrow> (('s, 'c) store, unit) act" where
  "mark_item env v u = (case v of PEnt a \<Rightarrow> mark_dirty env a | _ \<Rightarrow> raise_act NotAnEntityError)"

definition migrate_chunk :: "('s, 'c) senv \<Rightarrow> nat list \<Rightarrow> nat \<Rightarrow> (('s, 'c) store, nat) pact" where
  "migrate_chunk env oids migrated =
     bind_pact (get_many_unchecked env oids) (\<lambda>objs.
     bind_pact (run_act (fold_act (mark_item env) objs ())) (\<lambda>_.
     bind_pact (run_act (Store_Commit.commit env None)) (\<lambda>tid.
       run_act (return_act (migrated + length objs)))))"

definition migrate_type :: "('s, 'c) senv \<Rightarrow> nat \<Rightarrow> string \<Rightarrow> nat \<Rightarrow> (('s, 'c) store, nat) pact" where
  "migrate_type env batch typename migrated st =
     (case dict_get (se_types env) typename of
        None \<Rightarrow> Some (Inr migrated, st)
      | Some ti \<Rightarrow>
          bind_pact (run_act (lift_act (\<lambda>st.
              bind_res (map_res (\<lambda>c. se_scan env c (st_backend st)) (stale_cids ti st)) (\<lambda>rss. Inr (map sr_oid (concat rss))))))
            (\<lambda>oids. fold_pact (migrate_chunk env) (chunked batch oids) migrated) st)"

text \<open>\<open>range(0, n, batch)\<close> raises for a batch of 0 and is empty for a negative one.\<close>

definition migrate :: "('s, 'c) senv \<Rightarrow> nat \<Rightarrow> (('s, 'c) store, nat) pact" where
  "migrate env batch =
     bind_pact (run_act (lift_act guard)) (\<lambda>_ st.
       fold_pact (\<lambda>typename migrated st'.
           if batch = 0 \<and> (case dict_get (se_types env) typename of None \<Rightarrow> False | Some ti \<Rightarrow> stale_cids ti st' \<noteq> [])
           then Some (Inl PyValueError, st') else migrate_type env batch typename migrated st')
         (dict_keys (st_cids_by_typename st)) 0 st)"

section \<open>Blobs\<close>

definition blob_read_gate :: "('s, 'c) senv \<Rightarrow> nat \<Rightarrow> (('s, 'c) store, unit) act" where
  "blob_read_gate env owner_oid st =
     (if is_root (acting st) then (Inr (), st)
      else
        (case dict_get (st_registry st) owner_oid of
           Some a \<Rightarrow>
             (case dict_get (st_heap st) a of
                None \<Rightarrow> (Inl PyKeyError, st)
              | Some e \<Rightarrow>
                  bind_act (index_labels env (en_ti e) owner_oid) (\<lambda>l st.
                    (if row_readable (acting st) l then Inr () else Inl ReadDeniedError, st)) st)
         | None \<Rightarrow>
             (case se_load env [owner_oid] (st_backend st) of
                Inl err \<Rightarrow> (Inl err, st)
              | Inr recs \<Rightarrow>
                  (case dict_get recs owner_oid of
                     None \<Rightarrow> (Inl ReadDeniedError, st)
                   | Some rec \<Rightarrow>
                       (case prior_labels (decode_fields env) (st_persisted_fields st) rec of
                          Inl err \<Rightarrow> (Inl err, st)
                        | Inr l \<Rightarrow>
                            (if can_read_row (acting st) (lb_owner l) (lb_groups l) (lb_read l) then Inr () else Inl ReadDeniedError, st))))))"

definition load_blob_bytes :: "(nat \<Rightarrow> 's \<Rightarrow> stored_blob option res) \<Rightarrow> nat \<Rightarrow> (('s, 'c) store, bytes) act" where
  "load_blob_bytes load boid =
     bind_act (lift_act guard) (\<lambda>_. lift_act (\<lambda>st.
       bind_res (load boid (st_backend st)) (\<lambda>stored.
         case stored of None \<Rightarrow> Inl DanglingRefError | Some bl \<Rightarrow> Inr (bl_data bl))))"

text \<open>\<open>BlobHandle.bytes\<close>: the gate before the cache, the cache before the backend.\<close>

definition handle_bytes ::
    "('s, 'c) senv \<Rightarrow> (nat \<Rightarrow> 's \<Rightarrow> stored_blob option res) \<Rightarrow> nat option \<Rightarrow> nat \<Rightarrow> bytes option \<Rightarrow> (('s, 'c) store, bytes) act" where
  "handle_bytes env load owner_oid boid cached =
     bind_act (case owner_oid of None \<Rightarrow> return_act () | Some oid \<Rightarrow> blob_read_gate env oid) (\<lambda>_.
       case cached of Some b \<Rightarrow> return_act b | None \<Rightarrow> load_blob_bytes load boid)"

datatype blob_stream = BackendStream nat | BytesStream bytes

definition open_blob :: "('s, 'c) senv \<Rightarrow> nat \<Rightarrow> string \<Rightarrow> (('s, 'c) store, blob_stream) act" where
  "open_blob env a field =
     bind_act (lift_act guard) (\<lambda>_.
     with_entity a (\<lambda>e.
       case ti_spec (en_ti e) field of
         None \<Rightarrow> raise_act QueryError
       | Some spec \<Rightarrow>
           if \<not> fs_blob spec then raise_act PyTypeError
           else (case en_field e field of
                   PNone \<Rightarrow> raise_act PyValueError
                 | PHandle boid n h \<Rightarrow>
                     bind_act (case (ti_protected (en_ti e), en_oid e) of
                                 (True, Some oid) \<Rightarrow> blob_read_gate env oid | _ \<Rightarrow> return_act ()) (\<lambda>_.
                       return_act (BackendStream boid))
                 | PBytes b \<Rightarrow> return_act (BytesStream b)
                 | PSource i n b \<Rightarrow> raise_act PyValueError
                 | _ \<Rightarrow> raise_act PyTypeError)))"

section \<open>The root\<close>

definition root_ti :: typeinfo where
  "root_ti =
     \<lparr>ti_name = ''datacrystal._store:_Root'', ti_field_names = [''value''], ti_frozen = False, ti_protected = False,
      ti_specs = [\<lparr>fs_name = ''value'', fs_lazy_refs = False, fs_indexed = False, fs_unique = False, fs_fulltext = False,
        fs_fulltext_language = None, fs_multivalued = False, fs_renamed_from = None, fs_glue = None,
        fs_sorted = False, fs_blob = False, fs_entity_ref = True, fs_decimal = False\<rparr>],
      ti_defaults = [(''value'', PNone)]\<rparr>"

definition root_value :: "nat \<Rightarrow> (('s, 'c) store, pyval) act" where
  "root_value a = lift_act (\<lambda>st. bind_res (entity_at a st) (\<lambda>e. Inr (en_field e ''value'')))"

definition hold_root :: "nat \<Rightarrow> ('s, 'c) store \<Rightarrow> ('s, 'c) store" where
  "hold_root a st = st\<lparr>st_root_holder := Some a\<rparr>"

definition root :: "('s, 'c) senv \<Rightarrow> (('s, 'c) store, pyval) pact" where
  "root env =
     bind_pact (run_act (lift_act guard)) (\<lambda>_ st.
       case st_root_oid st of
         None \<Rightarrow> Some (Inr PNone, st)
       | Some oid \<Rightarrow>
           (case st_root_holder st of
              Some a \<Rightarrow> Some (root_value a st)
            | None \<Rightarrow>
                bind_pact (load_cached env [] oid) (\<lambda>v.
                  case v of
                    PEnt a \<Rightarrow> bind_pact (run_act (update_act (hold_root a))) (\<lambda>_. run_act (root_value a))
                  | _ \<Rightarrow> run_act (raise_act PyAttributeError)) st))"

text \<open>A new holder is registered with everything the value reaches; then its OID is the root's.\<close>

definition new_root :: "('s, 'c) senv \<Rightarrow> pyval \<Rightarrow> (('s, 'c) store, unit) act" where
  "new_root env v st =
     (let a = past st in
      bind_act (register_graph env a {}) (\<lambda>_.
      bind_act (lift_act (registered_oid a)) (\<lambda>oid.
        update_act (\<lambda>st. hold_root a (st\<lparr>st_root_oid := Some oid\<rparr>))))
        (create a root_ti [(''value'', v)] birth_defaults st))"

definition assign_root :: "('s, 'c) senv \<Rightarrow> pyval \<Rightarrow> nat \<Rightarrow> (('s, 'c) store, unit) act" where
  "assign_root env v a =
     bind_act (set_attr env a ''value'' v) (\<lambda>_.
     bind_act (register_graph env a {}) (\<lambda>_. update_act (hold_root a)))"

definition set_root :: "('s, 'c) senv \<Rightarrow> pyval \<Rightarrow> (('s, 'c) store, unit) pact" where
  "set_root env v =
     bind_pact (run_act (lift_act guard)) (\<lambda>_ st.
       case st_root_oid st of
         None \<Rightarrow> Some (new_root env v st)
       | Some oid \<Rightarrow>
           (case st_root_holder st of
              Some a \<Rightarrow> Some (assign_root env v a st)
            | None \<Rightarrow>
                (case load_cached env [] oid st of
                   None \<Rightarrow> None
                 | Some (Inl err, st1) \<Rightarrow>
                     if err = DanglingRefError
                     then Some (new_root env v (st1\<lparr>st_deleted := AList.update oid (root_ti, None) (st_deleted st1)\<rparr>))
                     else Some (Inl err, st1)
                 | Some (Inr w, st1) \<Rightarrow>
                     (case w of PEnt a \<Rightarrow> Some (assign_root env v a st1) | _ \<Rightarrow> Some (Inl PyAttributeError, st1)))))"

section \<open>upsert\<close>

definition ref_target_oid :: "('s, 'c) store \<Rightarrow> pyval \<Rightarrow> nat option" where
  "ref_target_oid st v =
     (case v of
        PEnt a \<Rightarrow> oid_at st a
      | PLazy i lazy_oid target \<Rightarrow>
          (case lazy_oid of
             Some oid \<Rightarrow> Some oid
           | None \<Rightarrow> (case target of None \<Rightarrow> None | Some a \<Rightarrow> oid_at st a))
      | _ \<Rightarrow> None)"

definition blob_hash :: "('s, 'c) senv \<Rightarrow> pyval \<Rightarrow> bytes option" where
  "blob_hash env v = (case v of PHandle boid n h \<Rightarrow> Some h | PBytes b \<Rightarrow> Some (se_sha env b) | _ \<Rightarrow> None)"

definition blob_or_source :: "pyval \<Rightarrow> bool" where
  "blob_or_source v \<longleftrightarrow> (case v of PHandle boid n h \<Rightarrow> True | PSource i n b \<Rightarrow> True | _ \<Rightarrow> False)"

text \<open>\<open>cur.__class__ is new.__class__\<close>; a persistent container counts as the plain one.\<close>

definition same_class :: "pyval \<Rightarrow> pyval \<Rightarrow> bool" where
  "same_class u v \<longleftrightarrow>
     (case (u, v) of
        (PNone, PNone) \<Rightarrow> True | (PBool a, PBool b) \<Rightarrow> True | (PInt a, PInt b) \<Rightarrow> True | (PFloat a, PFloat b) \<Rightarrow> True
      | (PStr a, PStr b) \<Rightarrow> True | (PBytes a, PBytes b) \<Rightarrow> True | (PDec a, PDec b) \<Rightarrow> True
      | (PDateTime w a, PDateTime x b) \<Rightarrow> True | (PDate a, PDate b) \<Rightarrow> True | (PTime w a, PTime x b) \<Rightarrow> True
      | (PList a, PList b) \<Rightarrow> True | (PTuple a, PTuple b) \<Rightarrow> True | (PDict a, PDict b) \<Rightarrow> True | (PSet a, PSet b) \<Rightarrow> True
      | (PEnt a, PEnt b) \<Rightarrow> a = b | (PLazy i a b, PLazy j c d) \<Rightarrow> i = j
      | _ \<Rightarrow> False)"

definition equivalent :: "('s, 'c) senv \<Rightarrow> ('s, 'c) store \<Rightarrow> pyval \<Rightarrow> pyval \<Rightarrow> bool" where
  "equivalent env st cur new =
     (if (case (cur, new) of (PSource i a b, PSource j c d) \<Rightarrow> i = j | _ \<Rightarrow> False) then True
      else if blob_or_source cur \<or> blob_or_source new then blob_hash env cur = blob_hash env new \<and> blob_hash env cur \<noteq> None
      else if ref_target_oid st cur \<noteq> None \<or> ref_target_oid st new \<noteq> None
      then ref_target_oid st cur = ref_target_oid st new
      else same_class cur new \<and> py_eq cur new)"

definition natural_key_field :: "typeinfo \<Rightarrow> string option \<Rightarrow> string res" where
  "natural_key_field ti key =
     (let uniques = map fs_name (filter fs_unique (ti_specs ti)) in
      case key of
        None \<Rightarrow> (case uniques of [f] \<Rightarrow> Inr f | _ \<Rightarrow> Inl PyTypeError)
      | Some f \<Rightarrow> if f \<in> set uniques then Inr f else Inl QueryError)"

definition merge_field :: "('s, 'c) senv \<Rightarrow> nat \<Rightarrow> nat \<Rightarrow> string \<Rightarrow> unit \<Rightarrow> (('s, 'c) store, unit) act" where
  "merge_field env existing probe name u =
     with_entity probe (\<lambda>n. with_entity existing (\<lambda>c st.
       if equivalent env st (en_field c name) (en_field n name) then (Inr (), st)
       else set_attr env existing name (en_field n name) st))"

definition merge_data_fields :: "('s, 'c) senv \<Rightarrow> nat \<Rightarrow> nat \<Rightarrow> typeinfo \<Rightarrow> (('s, 'c) store, unit) act" where
  "merge_data_fields env existing probe ti = fold_act (merge_field env existing probe) (data_field_names ti) ()"

text \<open>The committed holder of a key, unless it is being deleted or the principal may not read it.\<close>

definition committed_survivor :: "('s, 'c) senv \<Rightarrow> typeinfo \<Rightarrow> string \<Rightarrow> pyval \<Rightarrow> (('s, 'c) store, nat option) act" where
  "committed_survivor env ti field v st =
     (if never_committed ti st then (Inr None, st)
      else
        bind_act (ensure_index env ti) (\<lambda>ci.
        bind_act (lift_act (\<lambda>_. unique_holder ci field v)) (\<lambda>found st.
          case found of
            None \<Rightarrow> (Inr None, st)
          | Some oid \<Rightarrow>
              if dict_get (st_deleted st) oid \<noteq> None then (Inr None, st)
              else bind_act (hidden_row env ti oid) (\<lambda>hide.
                     if hide then raise_act ReadDeniedError else return_act (Some oid)) st)) st)"

definition pending_survivor :: "typeinfo \<Rightarrow> string \<Rightarrow> pyval \<Rightarrow> (('s, 'c) store, nat option) act" where
  "pending_survivor ti field v =
     bind_act (lift_act (\<lambda>_. hash_key v)) (\<lambda>k st.
       let slot = (ti_name ti, field, k) in
       case dict_get (st_pending_upserts st) slot of
         None \<Rightarrow> (Inr None, st)
       | Some a \<Rightarrow>
           (case dict_get (st_heap st) a of
              None \<Rightarrow> (Inl PyKeyError, st)
            | Some e \<Rightarrow>
                if en_state e \<noteq> STATE_DELETED \<and> py_eq (en_field e field) v then (Inr (Some a), st)
                else (Inr None, st\<lparr>st_pending_upserts := AList.delete slot (st_pending_upserts st)\<rparr>)))"

definition find_by_key :: "('s, 'c) senv \<Rightarrow> typeinfo \<Rightarrow> string \<Rightarrow> pyval \<Rightarrow> (('s, 'c) store, nat option) pact" where
  "find_by_key env ti field v =
     bind_pact (run_act (committed_survivor env ti field v)) (\<lambda>found.
       case found of
         Some oid \<Rightarrow>
           bind_pact (load_cached env [] oid) (\<lambda>w.
             case w of PEnt a \<Rightarrow> run_act (return_act (Some a)) | _ \<Rightarrow> run_act (raise_act PyAttributeError))
       | None \<Rightarrow> run_act (pending_survivor ti field v))"

definition insert_upsert :: "('s, 'c) senv \<Rightarrow> nat \<Rightarrow> typeinfo \<Rightarrow> string \<Rightarrow> pyval \<Rightarrow> (('s, 'c) store, nat) act" where
  "insert_upsert env a ti field v =
     bind_act (store_entity env a) (\<lambda>_.
     bind_act (lift_act (\<lambda>_. hash_key v)) (\<lambda>k.
     bind_act (update_act (\<lambda>st. st\<lparr>st_pending_upserts := AList.update (ti_name ti, field, k) a (st_pending_upserts st)\<rparr>)) (\<lambda>_.
       return_act a)))"

definition upsert :: "('s, 'c) senv \<Rightarrow> nat \<Rightarrow> string option \<Rightarrow> (('s, 'c) store, nat) pact" where
  "upsert env a key =
     bind_pact (run_act (lift_act guard)) (\<lambda>_.
     bind_pact (run_act (lift_act (entity_at a))) (\<lambda>e.
     bind_pact (run_act (lift_act (\<lambda>_. forbid_redacted e))) (\<lambda>_.
     bind_pact (run_act (lift_act (\<lambda>_. natural_key_field (en_ti e) key))) (\<lambda>field.
       let v = en_field e field in
       if v = PNone then run_act (raise_act QueryError)
       else
         bind_pact (find_by_key env (en_ti e) field v) (\<lambda>found.
           case found of
             None \<Rightarrow> run_act (insert_upsert env a (en_ti e) field v)
           | Some b \<Rightarrow>
               if b = a then run_act (return_act a)
               else if en_oid e \<noteq> None then run_act (raise_act UniqueViolationError)
               else bind_pact (run_act (merge_data_fields env b a (en_ti e))) (\<lambda>_. run_act (return_act b)))))))"

text \<open>\<open>_payload_digest\<close>: the hash of the persisted bytes of the holder of a key.\<close>

definition payload_digest :: "('s, 'c) senv \<Rightarrow> typeinfo \<Rightarrow> string \<Rightarrow> pyval \<Rightarrow> (('s, 'c) store, bytes option) act" where
  "payload_digest env ti field v st =
     (if never_committed ti st then (Inr None, st)
      else
        bind_act (ensure_index env ti) (\<lambda>ci.
        bind_act (lift_act (\<lambda>_. unique_holder ci field v)) (\<lambda>found. lift_act (\<lambda>st.
          case found of
            None \<Rightarrow> Inr None
          | Some oid \<Rightarrow> bind_res (se_load env [oid] (st_backend st)) (\<lambda>recs.
              Inr (map_option (\<lambda>rec. se_sha env (sr_payload rec)) (dict_get recs oid)))))) st)"

end
