(* ===== verification/Store_Load.thy ===== *)
theory Store_Load
  imports Store_Read Store_Session
begin

text \<open>
  What loading guarantees. The queue-driven load of an entity graph ends, registers at most one shell
  per record, touches no entity that was live before, gives every loaded field the value its record
  holds, never puts an instance of a protected class into a shared parent, and forgets its shells when
  it fails.
\<close>

section \<open>Live values and their records\<close>

text \<open>The persisted form of a live value, references as tokens of the OIDs they name.\<close>

function (sequential) tokens :: "heap \<Rightarrow> pyval \<Rightarrow> pyval"
  and token_items :: "heap \<Rightarrow> (pyval \<times> pyval) list \<Rightarrow> (pyval \<times> pyval) list" where
  "tokens h (PEnt a) =
     (case dict_get h a of
        None \<Rightarrow> PEnt a | Some e \<Rightarrow> (case en_oid e of None \<Rightarrow> PEnt a | Some oid \<Rightarrow> PRef oid))"
| "tokens h (PLazy i lazy_oid target) = (case lazy_oid of None \<Rightarrow> PLazy i lazy_oid target | Some oid \<Rightarrow> PRef oid)"
| "tokens h (PHandle boid n hash) = PBlobTok boid n hash"
| "tokens h (PList xs) = PList (map (tokens h) xs)"
| "tokens h (PDict d) = PDict (token_items h d)"
| "tokens h v = v"
| "token_items h [] = []"
| "token_items h (kv # d) = (fst kv, tokens h (snd kv)) # token_items h d"
  by pat_completeness auto
termination
  by (relation "measure (\<lambda>x. case x of
        Inl (_, v) \<Rightarrow> size v
      | Inr (_, d) \<Rightarrow> size_list (\<lambda>kv. size (fst kv) + size (snd kv) + 1) d)")
     (auto simp: size_prod_simp less_Suc_eq_le intro: size_list_estimation')

text \<open>What decoding can give: no live reference, no handle, no tuple.\<close>

function (sequential) loadable :: "pyval \<Rightarrow> bool"
  and loadable_items :: "(pyval \<times> pyval) list \<Rightarrow> bool" where
  "loadable (PEnt a) = False"
| "loadable (PLazy i lazy_oid target) = False"
| "loadable (PHandle boid n hash) = False"
| "loadable (PTuple xs) = False"
| "loadable (PList xs) = (\<forall>x \<in> set xs. loadable x)"
| "loadable (PDict d) = loadable_items d"
| "loadable v = True"
| "loadable_items [] = True"
| "loadable_items (kv # d) = (loadable (snd kv) \<and> loadable_items d)"
  by pat_completeness auto
termination
  by (relation "measure (\<lambda>x. case x of
        Inl v \<Rightarrow> size v
      | Inr d \<Rightarrow> size_list (\<lambda>kv. size (fst kv) + size (snd kv) + 1) d)")
     (auto simp: size_prod_simp less_Suc_eq_le intro: size_list_estimation')

text \<open>Every instance a value holds is on the heap, has an OID, and is of an unprotected class.\<close>

definition open_refs :: "heap \<Rightarrow> pyval \<Rightarrow> bool" where
  "open_refs h v \<longleftrightarrow> (\<forall>c \<in> reached v. \<exists>f. dict_get h c = Some f \<and> en_oid f \<noteq> None \<and> \<not> ti_protected (en_ti f))"

definition restored :: "heap \<Rightarrow> pyval \<Rightarrow> pyval \<Rightarrow> bool" where
  "restored h raw v \<longleftrightarrow> (loadable raw \<longrightarrow> tokens h v = raw \<and> open_refs h v)"

definition later :: "heap \<Rightarrow> heap \<Rightarrow> bool" where
  "later h h' \<longleftrightarrow> (\<forall>a e. dict_get h a = Some e \<longrightarrow>
     (\<exists>e'. dict_get h' a = Some e' \<and> en_ti e' = en_ti e \<and> en_oid e' = en_oid e))"

lemma later_refl [simp]: "later h h"
  by (simp add: later_def)

lemma open_refs_simps [simp]:
  "open_refs h (PList xs) \<longleftrightarrow> (\<forall>x \<in> set xs. open_refs h x)"
  "open_refs h (PDict d) \<longleftrightarrow> (\<forall>x \<in> set (map snd d). open_refs h x)"
  by (auto simp: open_refs_def)

lemma open_refs_later: "open_refs h v \<Longrightarrow> later h h' \<Longrightarrow> open_refs h' v"
  unfolding open_refs_def later_def by metis

lemma tokens_later:
  "open_refs h v \<Longrightarrow> later h h' \<Longrightarrow> tokens h' v = tokens h v"
  "\<forall>x \<in> set (map snd d). open_refs h x \<Longrightarrow> later h h' \<Longrightarrow> token_items h' d = token_items h d"
proof (induction h v and h d rule: tokens_token_items.induct)
  case (1 h a)
  then obtain f where "dict_get h a = Some f" "en_oid f \<noteq> None"
    by (auto simp: open_refs_def)
  moreover from this 1(2) obtain f' where "dict_get h' a = Some f'" "en_oid f' = en_oid f"
    unfolding later_def by blast
  ultimately show ?case
    by auto
next
  case (4 h xs)
  then show ?case
    by (simp only: open_refs_simps tokens.simps) simp
next
  case (5 h d)
  then show ?case
    by (simp only: open_refs_simps tokens.simps)
next
  case (8 h kv d)
  then show ?case
    by (simp only: token_items.simps) simp
qed (simp_all only: tokens.simps token_items.simps)

lemma restored_later: "restored h raw v \<Longrightarrow> later h h' \<Longrightarrow> restored h' raw v"
  unfolding restored_def using tokens_later(1) [of h v h'] open_refs_later [of h v h'] by simp

section \<open>The state of a load\<close>

definition known :: "('s, 'c) senv \<Rightarrow> (nat, stored_record) dict \<Rightarrow> ('s, 'c) store \<Rightarrow> nat set" where
  "known env cache st = {oid. \<exists>rec. fetch_record env cache oid st = Inr rec}"

definition only_heap :: "('s, 'c) store \<Rightarrow> ('s, 'c) store \<Rightarrow> bool" where
  "only_heap st st' \<longleftrightarrow> st' = st\<lparr>st_heap := st_heap st', st_registry := st_registry st'\<rparr>"

definition shell_of :: "('s, 'c) senv \<Rightarrow> nat \<Rightarrow> entity \<Rightarrow> bool" where
  "shell_of env oid e \<longleftrightarrow> en_oid e = Some oid \<and> en_store e = Some (se_self env) \<and> en_state e = STATE_CLEAN \<and> \<not> en_twin e"

text \<open>A shell waits for the record of its OID, in the class of the record's CID.\<close>

definition awaits ::
    "('s, 'c) senv \<Rightarrow> (nat, stored_record) dict \<Rightarrow> ('s, 'c) store \<Rightarrow> entity \<Rightarrow> stored_record \<Rightarrow> bool" where
  "awaits env cache st e rec \<longleftrightarrow> (\<exists>oid. en_oid e = Some oid \<and> fetch_record env cache oid st = Inr rec) \<and>
     ti_for_cid env (sr_cid rec) st = Inr (en_ti e)"

definition loading_ok ::
    "('s, 'c) senv \<Rightarrow> (nat, stored_record) dict \<Rightarrow> ('s, 'c) store \<Rightarrow> ('s, 'c) loading \<Rightarrow> bool" where
  "loading_ok env cache st ld \<longleftrightarrow>
     only_heap st (ld_store ld) \<and>
     (\<forall>a e. dict_get (st_heap st) a = Some e \<longrightarrow> dict_get (st_heap (ld_store ld)) a = Some e) \<and>
     (\<forall>a e. dict_get (st_heap (ld_store ld)) a = Some e \<longrightarrow> a < ld_next ld) \<and>
     (\<forall>a e. dict_get (st_heap (ld_store ld)) a = Some e \<longrightarrow> dict_get (st_heap st) a = None \<longrightarrow>
        (\<exists>oid \<in> set (ld_registered ld). shell_of env oid e \<and> dict_get (st_registry (ld_store ld)) oid = Some a)) \<and>
     (\<forall>oid \<in> set (ld_registered ld). dict_get (st_registry st) oid = None \<and> oid \<in> known env cache st \<and>
        (\<exists>a e. dict_get (st_registry (ld_store ld)) oid = Some a \<and> dict_get (st_heap st) a = None \<and>
           dict_get (st_heap (ld_store ld)) a = Some e \<and> en_oid e = Some oid)) \<and>
     (\<forall>oid. oid \<notin> set (ld_registered ld) \<longrightarrow> dict_get (st_registry (ld_store ld)) oid = dict_get (st_registry st) oid) \<and>
     (\<forall>(a, rec) \<in> set (ld_queue ld). dict_get (st_heap st) a = None \<and>
        (\<exists>e. dict_get (st_heap (ld_store ld)) a = Some e \<and> awaits env cache st e rec)) \<and>
     distinct (map fst (ld_queue ld))"

text \<open>What a step of a load may do to entities other than the one it fills.\<close>

definition advances :: "('s, 'c) loading \<Rightarrow> ('s, 'c) loading \<Rightarrow> bool" where
  "advances ld ld' \<longleftrightarrow>
     (\<forall>a e. dict_get (st_heap (ld_store ld)) a = Some e \<longrightarrow> dict_get (st_heap (ld_store ld')) a = Some e) \<and>
     (\<forall>a. dict_get (st_heap (ld_store ld)) a = None \<longrightarrow> dict_get (st_heap (ld_store ld')) a \<noteq> None \<longrightarrow> a \<in> fst ` set (ld_queue ld')) \<and>
     (\<exists>q. ld_queue ld' = ld_queue ld @ q \<and> (\<forall>x \<in> set q. dict_get (st_heap (ld_store ld)) (fst x) = None)) \<and>
     (\<forall>oid a. dict_get (st_registry (ld_store ld)) oid = Some a \<longrightarrow> dict_get (st_registry (ld_store ld')) oid = Some a)"

definition rounds_left :: "('s, 'c) senv \<Rightarrow> (nat, stored_record) dict \<Rightarrow> ('s, 'c) store \<Rightarrow> ('s, 'c) loading \<Rightarrow> nat" where
  "rounds_left env cache st ld = length (ld_queue ld) + card {oid \<in> known env cache st. dict_get (st_registry (ld_store ld)) oid = None}"

definition load_step ::
    "('s, 'c) senv \<Rightarrow> (nat, stored_record) dict \<Rightarrow> ('s, 'c) store \<Rightarrow> ('s, 'c) loading \<Rightarrow> ('s, 'c) loading \<Rightarrow> bool" where
  "load_step env cache st ld ld' \<longleftrightarrow> loading_ok env cache st ld' \<and> advances ld ld' \<and>
     (finite (known env cache st) \<longrightarrow> rounds_left env cache st ld' \<le> rounds_left env cache st ld)"

lemma advances_refl [simp]: "advances ld ld"
  by (simp add: advances_def)

lemma advances_trans: "advances a b \<Longrightarrow> advances b c \<Longrightarrow> advances a c"
proof -
  assume a: "advances a b" and b: "advances b c"
  have "x \<in> fst ` set (ld_queue c)" if "dict_get (st_heap (ld_store a)) x = None" "dict_get (st_heap (ld_store c)) x \<noteq> None" for x
  proof (cases "dict_get (st_heap (ld_store b)) x")
    case None
    then show ?thesis
      using b that(2) unfolding advances_def by blast
  next
    case (Some e)
    then have "x \<in> fst ` set (ld_queue b)"
      using a that(1) unfolding advances_def by blast
    then show ?thesis
      using b by (auto simp: advances_def)
  qed
  moreover have "\<exists>q. ld_queue c = ld_queue a @ q \<and> (\<forall>x \<in> set q. dict_get (st_heap (ld_store a)) (fst x) = None)"
  proof -
    obtain p q where "ld_queue b = ld_queue a @ p" "ld_queue c = ld_queue b @ q"
        "\<forall>x \<in> set p. dict_get (st_heap (ld_store a)) (fst x) = None" "\<forall>x \<in> set q. dict_get (st_heap (ld_store b)) (fst x) = None"
      using a b unfolding advances_def by blast
    moreover have "dict_get (st_heap (ld_store a)) x = None" if "dict_get (st_heap (ld_store b)) x = None" for x
      using a that unfolding advances_def by (cases "dict_get (st_heap (ld_store a)) x") fastforce+
    ultimately show ?thesis
      by (intro exI [of _ "p @ q"]) auto
  qed
  ultimately show "advances a c"
    using a b unfolding advances_def by blast
qed

lemma advances_later: "advances ld ld' \<Longrightarrow> later (st_heap (ld_store ld)) (st_heap (ld_store ld'))"
  by (simp add: advances_def later_def)

lemma load_step_refl: "loading_ok env cache st ld \<Longrightarrow> load_step env cache st ld ld"
  by (simp add: load_step_def)

lemma load_step_trans: "load_step env cache st a b \<Longrightarrow> load_step env cache st b c \<Longrightarrow> load_step env cache st a c"
  unfolding load_step_def using advances_trans by (metis le_trans)

lemma only_heapI: "only_heap st (st\<lparr>st_heap := h, st_registry := r\<rparr>)"
  by (simp add: only_heap_def)

lemma only_heap_change:
  assumes "only_heap st st1"
  shows "only_heap st (st1\<lparr>st_heap := h, st_registry := r\<rparr>)" "only_heap st (put_entity a e st1)"
proof -
  obtain h1 r1 where "st1 = st\<lparr>st_heap := h1, st_registry := r1\<rparr>"
    using assms unfolding only_heap_def by blast
  then show "only_heap st (st1\<lparr>st_heap := h, st_registry := r\<rparr>)" "only_heap st (put_entity a e st1)"
    by (simp_all add: only_heap_def put_entity_def)
qed

lemma only_heapD:
  assumes "only_heap st st'"
  shows "st_backend st' = st_backend st" "st_typename_by_cid st' = st_typename_by_cid st" "st_persisted_fields st' = st_persisted_fields st"
    "fetch_record env cache oid st' = fetch_record env cache oid st" "ti_for_cid env cid st' = ti_for_cid env cid st"
    "shape_of st' cid = shape_of st cid"
proof -
  have eq: "st' = st\<lparr>st_heap := st_heap st', st_registry := st_registry st'\<rparr>"
    using assms by (simp add: only_heap_def)
  show *: "st_backend st' = st_backend st" "st_typename_by_cid st' = st_typename_by_cid st" "st_persisted_fields st' = st_persisted_fields st"
    using arg_cong [OF eq, of st_backend] arg_cong [OF eq, of st_typename_by_cid] arg_cong [OF eq, of st_persisted_fields] by simp_all
  show "fetch_record env cache oid st' = fetch_record env cache oid st" "ti_for_cid env cid st' = ti_for_cid env cid st"
    "shape_of st' cid = shape_of st cid"
    by (simp_all only: fetch_record_def ti_for_cid_def shape_of_def *)
qed

lemma loading_okD:
  assumes "loading_ok env cache st ld"
  shows "only_heap st (ld_store ld)"
    and "dict_get (st_heap st) a = Some e \<Longrightarrow> dict_get (st_heap (ld_store ld)) a = Some e"
    and "dict_get (st_heap (ld_store ld)) a = Some e \<Longrightarrow> a < ld_next ld"
    and "dict_get (st_heap (ld_store ld)) a = Some e \<Longrightarrow> dict_get (st_heap st) a = None \<Longrightarrow>
      \<exists>oid \<in> set (ld_registered ld). shell_of env oid e \<and> dict_get (st_registry (ld_store ld)) oid = Some a"
    and "oid \<in> set (ld_registered ld) \<Longrightarrow> dict_get (st_registry st) oid = None \<and> oid \<in> known env cache st \<and>
      (\<exists>a e. dict_get (st_registry (ld_store ld)) oid = Some a \<and> dict_get (st_heap st) a = None \<and>
        dict_get (st_heap (ld_store ld)) a = Some e \<and> en_oid e = Some oid)"
    and "oid \<notin> set (ld_registered ld) \<Longrightarrow> dict_get (st_registry (ld_store ld)) oid = dict_get (st_registry st) oid"
    and "(a, rec) \<in> set (ld_queue ld) \<Longrightarrow> dict_get (st_heap st) a = None \<and>
      (\<exists>e. dict_get (st_heap (ld_store ld)) a = Some e \<and> awaits env cache st e rec)"
    and "distinct (map fst (ld_queue ld))"
  using assms unfolding loading_ok_def by blast+

text \<open>Handles take an identity and nothing else.\<close>

lemma handle_step:
  assumes "loading_ok env cache st ld"
  shows "unloaded_handle oid ld = (r, ld') \<Longrightarrow> load_step env cache st ld ld'"
    and "loaded_handle a oid ld = (r, ld') \<Longrightarrow> load_step env cache st ld ld'"
proof -
  have "loading_ok env cache st (ld\<lparr>ld_next := ld_next ld + 1\<rparr>)"
    using assms unfolding loading_ok_def by (simp add: less_Suc_eq)
  moreover have "advances ld (ld\<lparr>ld_next := ld_next ld + 1\<rparr>)"
    by (simp add: advances_def)
  ultimately have *: "load_step env cache st ld (ld\<lparr>ld_next := ld_next ld + 1\<rparr>)"
    by (simp add: load_step_def rounds_left_def)
  show "unloaded_handle oid ld = (r, ld') \<Longrightarrow> load_step env cache st ld ld'"
    "loaded_handle a oid ld = (r, ld') \<Longrightarrow> load_step env cache st ld ld'"
    using * by (auto simp: unloaded_handle_def loaded_handle_def)
qed

text \<open>A shell takes a fresh address, an OID that was not registered, and the end of the queue.\<close>

lemma new_shell_step:
  assumes ok: "loading_ok env cache st ld" and reg: "dict_get (st_registry (ld_store ld)) oid = None"
    and rec: "fetch_record env cache oid st = Inr rec" and ti: "ti_for_cid env (sr_cid rec) st = Inr ti"
    and new: "new_shell env ti oid rec ld = (r, ld')"
  shows "load_step env cache st ld ld'"
    and "\<exists>a e. r = Inr (PEnt a) \<and> dict_get (st_heap (ld_store ld')) a = Some e \<and> en_oid e = Some oid \<and> en_ti e = ti \<and>
      dict_get (st_registry (ld_store ld')) oid = Some a \<and> dict_get (st_heap st) a = None"
proof -
  note D = loading_okD [OF ok]
  let ?a = "ld_next ld" and ?H = "st_heap (ld_store ld)" and ?R = "st_registry (ld_store ld)"
  obtain e where e: "shell_of env oid e" "en_ti e = ti" "en_oid e = Some oid"
    and ld': "ld' = ld\<lparr>ld_store := (put_entity ?a e (ld_store ld))\<lparr>st_registry := AList.update oid ?a ?R\<rparr>,
       ld_registered := ld_registered ld @ [oid], ld_queue := ld_queue ld @ [(?a, rec)], ld_next := ?a + 1\<rparr>" and r: "r = Inr (PEnt ?a)"
    using new that [of "stamp oid (se_self env) STATE_CLEAN \<lparr>en_ti = ti, en_vals = [], en_labels = legacy_labels, en_oid = None,
       en_store = None, en_state = STATE_NEW, en_twin = False\<rparr>"] by (simp add: new_shell_def Let_def stamp_def shell_of_def)
  have fresh: "dict_get ?H ?a = None"
    using D(3) [of ?a] by (cases "dict_get ?H ?a") auto
  then have fresh0: "dict_get (st_heap st) ?a = None"
    using D(2) [of ?a] by (cases "dict_get (st_heap st) ?a") auto
  have h: "dict_get (st_heap (ld_store ld')) b = (if b = ?a then Some e else dict_get ?H b)" for b
    by (simp add: ld')
  have reg': "dict_get (st_registry (ld_store ld')) k = (if k = oid then Some ?a else dict_get ?R k)" for k
    by (simp add: ld')
  have nreg: "oid \<notin> set (ld_registered ld)"
    using D(5) [of oid] reg by auto
  have reg0: "dict_get (st_registry st) oid = None"
    using D(6) [OF nreg] reg by simp
  have kn: "oid \<in> known env cache st"
    using rec by (auto simp: known_def)
  have q: "?a \<notin> fst ` set (ld_queue ld)"
    using D(7) fresh by force
  have "loading_ok env cache st ld'"
    unfolding loading_ok_def
  proof (intro conjI allI impI ballI)
    show "only_heap st (ld_store ld')"
      using only_heap_change(1) [OF D(1)] by (simp add: ld' put_entity_def)
  next
    fix b f assume "dict_get (st_heap st) b = Some f"
    then show "dict_get (st_heap (ld_store ld')) b = Some f"
      using D(2) fresh0 unfolding h by auto
  next
    fix b f assume "dict_get (st_heap (ld_store ld')) b = Some f"
    then show "b < ld_next ld'"
      using D(3) [of b f] unfolding h by (auto simp: ld' split: if_splits)
  next
    fix b f assume b: "dict_get (st_heap (ld_store ld')) b = Some f" "dict_get (st_heap st) b = None"
    show "\<exists>k \<in> set (ld_registered ld'). shell_of env k f \<and> dict_get (st_registry (ld_store ld')) k = Some b"
    proof (cases "b = ?a")
      case True
      then show ?thesis
        using b(1) e(1) unfolding h reg' by (auto simp: ld')
    next
      case False
      then obtain k where "k \<in> set (ld_registered ld)" "shell_of env k f" "dict_get ?R k = Some b"
        using D(4) [of b f] b unfolding h by auto
      then show ?thesis
        using nreg unfolding reg' by (auto simp: ld')
    qed
  next
    fix k assume k: "k \<in> set (ld_registered ld')"
    show "dict_get (st_registry st) k = None" "k \<in> known env cache st"
      using k D(5) [of k] reg0 kn by (auto simp: ld')
    show "\<exists>a e. dict_get (st_registry (ld_store ld')) k = Some a \<and> dict_get (st_heap st) a = None \<and>
        dict_get (st_heap (ld_store ld')) a = Some e \<and> en_oid e = Some k"
    proof (cases "k = oid")
      case True
      then show ?thesis
        using fresh0 e(3) unfolding reg' h by auto
    next
      case False
      then obtain b f where "dict_get ?R k = Some b" "dict_get (st_heap st) b = None" "dict_get ?H b = Some f" "en_oid f = Some k"
        using k D(5) [of k] by (auto simp: ld')
      moreover from this have "b \<noteq> ?a"
        using fresh by auto
      ultimately show ?thesis
        using False unfolding reg' h by auto
    qed
  next
    fix k assume "k \<notin> set (ld_registered ld')"
    then show "dict_get (st_registry (ld_store ld')) k = dict_get (st_registry st) k"
      using D(6) unfolding reg' by (simp add: ld')
  next
    fix x assume "x \<in> set (ld_queue ld')"
    then show "case x of (b, rc) \<Rightarrow> dict_get (st_heap st) b = None \<and>
        (\<exists>e. dict_get (st_heap (ld_store ld')) b = Some e \<and> awaits env cache st e rc)"
      using D(7) fresh fresh0 e rec ti unfolding h by (force simp: ld' awaits_def)
  next
    show "distinct (map fst (ld_queue ld'))"
      using D(8) q by (simp add: ld')
  qed
  moreover have "advances ld ld'"
    unfolding advances_def h reg'
  proof (intro conjI allI impI)
    show "\<exists>q. ld_queue ld' = ld_queue ld @ q \<and> (\<forall>x \<in> set q. dict_get ?H (fst x) = None)"
      using fresh by (simp add: ld')
  qed (use fresh reg in \<open>auto simp: ld'\<close>)
  moreover have "rounds_left env cache st ld' \<le> rounds_left env cache st ld" if "finite (known env cache st)"
  proof -
    let ?u = "{k \<in> known env cache st. dict_get ?R k = None}"
    have "{k \<in> known env cache st. dict_get (st_registry (ld_store ld')) k = None} = ?u - {oid}"
      unfolding reg' by auto
    moreover have "finite ?u" "oid \<in> ?u"
      using that kn reg by auto
    ultimately have "card {k \<in> known env cache st. dict_get (st_registry (ld_store ld')) k = None} + 1 = card ?u"
      using card_Suc_Diff1 [of ?u oid] by simp
    then show ?thesis
      by (simp add: rounds_left_def ld')
  qed
  ultimately show "load_step env cache st ld ld'"
    by (simp add: load_step_def)
  show "\<exists>a e. r = Inr (PEnt a) \<and> dict_get (st_heap (ld_store ld')) a = Some e \<and> en_oid e = Some oid \<and> en_ti e = ti \<and>
      dict_get (st_registry (ld_store ld')) oid = Some a \<and> dict_get (st_heap st) a = None"
    using e r fresh0 unfolding h reg' by auto
qed

lemma registry_names:
  assumes "loading_ok env cache st ld" and "names_ok st" and "dict_get (st_registry (ld_store ld)) oid = Some a"
  shows "\<exists>e. dict_get (st_heap (ld_store ld)) a = Some e \<and> en_oid e = Some oid"
proof (cases "oid \<in> set (ld_registered ld)")
  case True
  then show ?thesis
    using loading_okD(5) [OF assms(1) True] assms(3) by auto
next
  case False
  then have "dict_get (st_registry st) oid = Some a"
    using loading_okD(6) [OF assms(1) False] assms(3) by simp
  then show ?thesis
    using names_okD(1) [OF assms(2)] loading_okD(2) [OF assms(1)] by blast
qed

lemma handle_restored:
  assumes "unloaded_handle oid ld = (Inr v, ld')"
  shows "restored h (PRef oid) v"
  using assms by (auto simp: unloaded_handle_def restored_def open_refs_def)

text \<open>Linking a child: a registered instance, an unloaded handle for a protected one, or a new shell.\<close>

lemma link_step:
  assumes ok: "loading_ok env cache st ld" and names: "names_ok st" and l: "link env cache is_top oid ld = (r, ld')"
  shows "load_step env cache st ld ld'"
    and "r = Inr v \<Longrightarrow> \<not> is_top \<Longrightarrow> restored (st_heap (ld_store ld')) (PRef oid) v"
    and "r = Inr v \<Longrightarrow> is_top \<Longrightarrow> \<exists>a. v = PEnt a \<and> dict_get (st_registry (ld_store ld')) oid = Some a"
proof -
  have "load_step env cache st ld ld' \<and> (\<forall>v. r = Inr v \<longrightarrow>
      (if is_top then \<exists>a. v = PEnt a \<and> dict_get (st_registry (ld_store ld')) oid = Some a
       else restored (st_heap (ld_store ld')) (PRef oid) v))"
  proof (cases "dict_get (st_registry (ld_store ld)) oid")
    case (Some a)
    then obtain e where e: "dict_get (st_heap (ld_store ld)) a = Some e" "en_oid e = Some oid"
      using registry_names [OF ok names] by blast
    show ?thesis
    proof (cases "\<not> is_top \<and> ti_protected (en_ti e)")
      case True
      then have "unloaded_handle oid ld = (r, ld')"
        using l Some e(1) by (simp add: link_def)
      then show ?thesis
        using handle_step(1) [OF ok] handle_restored [of oid ld _ ld'] True by auto
    next
      case False
      then have "r = Inr (PEnt a)" "ld' = ld"
        using l Some e(1) by (auto simp: link_def)
      then show ?thesis
        using load_step_refl [OF ok] Some e False by (auto simp: restored_def open_refs_def)
    qed
  next
    case None
    note same = only_heapD(4,5) [OF loading_okD(1) [OF ok]]
    show ?thesis
    proof (cases "fetch_record env cache oid st")
      case (Inl err)
      then show ?thesis
        using l None same load_step_refl [OF ok] by (auto simp: link_def)
    next
      case rec: (Inr rec)
      show ?thesis
      proof (cases "ti_for_cid env (sr_cid rec) st")
        case (Inl err)
        then show ?thesis
          using l None same rec load_step_refl [OF ok] by (auto simp: link_def)
      next
        case (Inr ti)
        show ?thesis
        proof (cases "\<not> is_top \<and> ti_protected ti")
          case True
          then have "unloaded_handle oid ld = (r, ld')"
            using l None same rec Inr by (simp add: link_def)
          then show ?thesis
            using handle_step(1) [OF ok] handle_restored [of oid ld _ ld'] True by auto
        next
          case False
          then have "new_shell env ti oid rec ld = (r, ld')"
            using l None same rec Inr by (auto simp: link_def)
          from new_shell_step [OF ok None rec Inr this] False show ?thesis
            by (auto simp: restored_def open_refs_def)
        qed
      qed
    qed
  qed
  then show "load_step env cache st ld ld'"
    "r = Inr v \<Longrightarrow> \<not> is_top \<Longrightarrow> restored (st_heap (ld_store ld')) (PRef oid) v"
    "r = Inr v \<Longrightarrow> is_top \<Longrightarrow> \<exists>a. v = PEnt a \<and> dict_get (st_registry (ld_store ld')) oid = Some a"
    by auto
qed

lemma resolve_ref_step:
  assumes ok: "loading_ok env cache st ld" and names: "names_ok st" and l: "resolve_ref env cache lazy oid ld = (r, ld')"
  shows "load_step env cache st ld ld'"
    and "r = Inr v \<Longrightarrow> restored (st_heap (ld_store ld')) (PRef oid) v"
proof -
  have "load_step env cache st ld ld' \<and> (\<forall>v. r = Inr v \<longrightarrow> restored (st_heap (ld_store ld')) (PRef oid) v)"
  proof (cases lazy)
    case False
    then show ?thesis
      using l link_step(1,2) [OF ok names, of False oid r ld'] by (simp add: resolve_ref_def)
  next
    case lz: True
    show ?thesis
    proof (cases "dict_get (st_registry (ld_store ld)) oid")
      case None
      then have "unloaded_handle oid ld = (r, ld')"
        using l lz by (simp add: resolve_ref_def)
      then show ?thesis
        using handle_step(1) [OF ok] handle_restored by blast
    next
      case (Some a)
      then obtain e where e: "dict_get (st_heap (ld_store ld)) a = Some e" "en_oid e = Some oid"
        using registry_names [OF ok names] by blast
      show ?thesis
      proof (cases "ti_protected (en_ti e)")
        case True
        then have "unloaded_handle oid ld = (r, ld')"
          using l lz Some e by (simp add: resolve_ref_def)
        then show ?thesis
          using handle_step(1) [OF ok] handle_restored by blast
      next
        case False
        then have h: "loaded_handle a oid ld = (r, ld')"
          using l lz Some e by (simp add: resolve_ref_def)
        then have "restored (st_heap (ld_store ld')) (PRef oid) v" if "r = Inr v" for v
          using that e False by (auto simp: loaded_handle_def restored_def open_refs_def)
        then show ?thesis
          using handle_step(2) [OF ok h] by blast
      qed
    qed
  qed
  then show "load_step env cache st ld ld'" "r = Inr v \<Longrightarrow> restored (st_heap (ld_store ld')) (PRef oid) v"
    by auto
qed

text \<open>Resolving a value, by induction on it.\<close>

lemma load_stepD:
  assumes "load_step env cache st ld ld'"
  shows "loading_ok env cache st ld'" and "later (st_heap (ld_store ld)) (st_heap (ld_store ld'))"
  using assms advances_later by (auto simp: load_step_def)

lemma restored_leaf: "loadable raw \<Longrightarrow> tokens h raw = raw \<Longrightarrow> reached raw = {} \<Longrightarrow> restored h raw raw"
  by (simp add: restored_def open_refs_def)

lemma resolve_step:
  "loading_ok env cache st ld \<Longrightarrow> names_ok st \<Longrightarrow> resolve env cache lazy raw ld = (r, ld') \<Longrightarrow>
     load_step env cache st ld ld' \<and> (\<forall>v. r = Inr v \<longrightarrow> restored (st_heap (ld_store ld')) raw v)"
  "loading_ok env cache st ld \<Longrightarrow> names_ok st \<Longrightarrow> resolve_list env cache lazy raws ld = (rs, ld') \<Longrightarrow>
     load_step env cache st ld ld' \<and> (\<forall>vs. rs = Inr vs \<longrightarrow> list_all2 (restored (st_heap (ld_store ld'))) raws vs)"
  "loading_ok env cache st ld \<Longrightarrow> names_ok st \<Longrightarrow> resolve_items env cache lazy d ld = (rd, ld') \<Longrightarrow>
     load_step env cache st ld ld' \<and> (\<forall>d'. rd = Inr d' \<longrightarrow>
       list_all2 (\<lambda>x y. fst y = fst x \<and> restored (st_heap (ld_store ld')) (snd x) (snd y)) d d')"
proof (induction env cache lazy raw ld and env cache lazy raws ld and env cache lazy d ld
    arbitrary: r ld' and rs ld' and rd ld' rule: resolve_resolve_list_resolve_items.induct)
  case (2 env cache lazy oid ld)
  then show ?case
    using resolve_ref_step by (simp only: resolve.simps) blast
next
  case (3 env cache lazy xs ld)
  obtain rs ld1 where l: "resolve_list env cache lazy xs ld = (rs, ld1)"
    by fastforce
  have "restored h (PList xs) (PList ys)" if "list_all2 (restored h) xs ys" for h ys
    using that by (induction rule: list_all2_induct) (auto simp: restored_def)
  then show ?case
    using 3(1) [OF 3(2,3) l] 3(4) l by (auto split: sum.splits)
next
  case (4 env cache lazy d ld)
  obtain rd ld1 where l: "resolve_items env cache lazy d ld = (rd, ld1)"
    by fastforce
  have "restored h (PDict d) (PDict d')" if "list_all2 (\<lambda>x y. fst y = fst x \<and> restored h (snd x) (snd y)) d d'" for h d'
    using that by (induction rule: list_all2_induct) (auto simp: restored_def)
  then show ?case
    using 4(1) [OF 4(2,3) l] 4(4) l by (auto split: sum.splits)
next
  case (7 env cache lazy x xs ld)
  obtain r1 ld1 where one: "resolve env cache lazy x ld = (r1, ld1)"
    by fastforce
  note s1 = 7(1) [OF 7(3,4) one]
  show ?case
  proof (cases r1)
    case (Inl e)
    then show ?thesis
      using 7(5) one s1 by auto
  next
    case (Inr y)
    obtain r2 ld2 where two: "resolve_list env cache lazy xs ld1 = (r2, ld2)"
      by fastforce
    note s2 = 7(2) [OF one [unfolded Inr, symmetric] refl load_stepD(1) [OF conjunct1 [OF s1]] 7(4) two]
    have "restored (st_heap (ld_store ld2)) x y"
      using s1 Inr restored_later load_stepD(2) [OF conjunct1 [OF s2]] by blast
    moreover have "load_step env cache st ld ld2"
      using load_step_trans s1 s2 by blast
    ultimately show ?thesis
      using 7(5) one two Inr s2 by (cases r2) auto
  qed
next
  case (9 env cache lazy kv d ld)
  obtain r1 ld1 where one: "resolve env cache lazy (snd kv) ld = (r1, ld1)"
    by fastforce
  note s1 = 9(1) [OF 9(3,4) one]
  show ?case
  proof (cases r1)
    case (Inl e)
    then show ?thesis
      using 9(5) one s1 by auto
  next
    case (Inr y)
    obtain r2 ld2 where two: "resolve_items env cache lazy d ld1 = (r2, ld2)"
      by fastforce
    note s2 = 9(2) [OF one [unfolded Inr, symmetric] refl load_stepD(1) [OF conjunct1 [OF s1]] 9(4) two]
    have "restored (st_heap (ld_store ld2)) (snd kv) y"
      using s1 Inr restored_later load_stepD(2) [OF conjunct1 [OF s2]] by blast
    moreover have "load_step env cache st ld ld2"
      using load_step_trans s1 s2 by blast
    ultimately show ?thesis
      using 9(5) one two Inr s2 by (cases r2) auto
  qed
qed (auto intro: load_step_refl simp: restored_def open_refs_def)

end
