(* ===== verification/Store_Hydrate.thy ===== *)
theory Store_Hydrate
  imports Store_Load
begin

text \<open>
  Filling the shells: the fields of one entity, then the queue. The loop ends within as many rounds as
  there are records, and leaves every entity it loaded with the values of its record.
\<close>

section \<open>One field\<close>

lemma as_intE: "as_int v = Inr i \<Longrightarrow> v = PInt i"
  by (simp add: as_int_def split: pyval.splits)

lemma as_intsE: "map_res as_int vs = Inr is \<Longrightarrow> vs = map PInt is"
  by (induction vs arbitrary: "is") (auto simp: bind_res_Inr split: sum.splits dest: as_intE)

lemma as_listE: "as_list v = Inr vs \<Longrightarrow> v = PList vs"
  by (simp add: as_list_def split: pyval.splits)

lemma set_label_field:
  assumes "set_label name v l = Inr l'" and "name \<in> set PERM_FIELDS"
  shows "label_field l' name = v \<and> (name' \<noteq> name \<longrightarrow> name' \<in> set PERM_FIELDS \<longrightarrow> label_field l' name' = label_field l name')"
proof -
  consider (own) "name = ''_dc_owner''" | (gr) "name = ''_dc_groups''" | (rd) "name = ''_dc_read_floor''" | (wr) "name = ''_dc_write_floor''"
    using assms(2) by (auto simp: PERM_FIELDS_def)
  then show ?thesis
  proof cases
    case own
    then obtain i where "v = PInt i" "l' = l\<lparr>lb_owner := i\<rparr>"
      using assms(1) by (auto simp: set_label_def bind_res_Inr dest: as_intE)
    then show ?thesis
      by (simp add: label_field_def own)
  next
    case gr
    then obtain gs where "as_list v = Inr (map PInt gs)" "l' = l\<lparr>lb_groups := gs\<rparr>"
      using assms(1) by (auto simp: set_label_def bind_res_Inr dest: as_intsE)
    then show ?thesis
      using as_listE [of v] by (simp add: label_field_def gr)
  next
    case rd
    then obtain i where "v = PInt i" "l' = l\<lparr>lb_read := i\<rparr>"
      using assms(1) by (auto simp: set_label_def bind_res_Inr dest: as_intE)
    then show ?thesis
      by (simp add: label_field_def rd)
  next
    case wr
    then obtain i where "v = PInt i" "l' = l\<lparr>lb_write := i\<rparr>"
      using assms(1) by (auto simp: set_label_def bind_res_Inr dest: as_intE)
    then show ?thesis
      by (simp add: label_field_def wr PERM_FIELDS_def)
  qed
qed

lemma set_field_effect:
  assumes "set_field name v e = Inr e'"
  shows "en_field e' name = v" and "name' \<noteq> name \<Longrightarrow> en_field e' name' = en_field e name'"
    and "en_ti e' = en_ti e" and "en_oid e' = en_oid e" and "shell_of env oid e' \<longleftrightarrow> shell_of env oid e"
proof -
  have "en_field e' name = v \<and> (name' \<noteq> name \<longrightarrow> en_field e' name' = en_field e name') \<and> en_ti e' = en_ti e \<and> en_oid e' = en_oid e \<and>
      (shell_of env oid e' \<longleftrightarrow> shell_of env oid e)"
  proof (cases "ti_protected (en_ti e) \<and> name \<in> set PERM_FIELDS")
    case True
    then obtain l where "set_label name v (en_labels e) = Inr l" "e' = e\<lparr>en_labels := l\<rparr>"
      using assms by (auto simp: set_field_def bind_res_Inr)
    then show ?thesis
      using set_label_field [of name v "en_labels e" l name'] True by (auto simp: en_field_def shell_of_def)
  next
    case False
    then have "e' = e\<lparr>en_vals := AList.update name v (en_vals e)\<rparr>"
      using assms by (auto simp: set_field_def)
    then show ?thesis
      using False by (auto simp: en_field_def shell_of_def dict_getd_def)
  qed
  then show "en_field e' name = v" "name' \<noteq> name \<Longrightarrow> en_field e' name' = en_field e name'" "en_ti e' = en_ti e" "en_oid e' = en_oid e"
    "shell_of env oid e' \<longleftrightarrow> shell_of env oid e"
    by auto
qed

text \<open>A step that fills the entity at \<open>a\<close>.\<close>

definition touches :: "nat \<Rightarrow> ('s, 'c) loading \<Rightarrow> ('s, 'c) loading \<Rightarrow> bool" where
  "touches a ld ld' \<longleftrightarrow>
     (\<forall>b e. b \<noteq> a \<longrightarrow> dict_get (st_heap (ld_store ld)) b = Some e \<longrightarrow> dict_get (st_heap (ld_store ld')) b = Some e) \<and>
     later (st_heap (ld_store ld)) (st_heap (ld_store ld')) \<and>
     (\<forall>b. dict_get (st_heap (ld_store ld)) b = None \<longrightarrow> dict_get (st_heap (ld_store ld')) b \<noteq> None \<longrightarrow> b \<in> fst ` set (ld_queue ld')) \<and>
     (\<exists>q. ld_queue ld' = ld_queue ld @ q \<and> (\<forall>x \<in> set q. dict_get (st_heap (ld_store ld)) (fst x) = None)) \<and>
     (\<forall>oid b. dict_get (st_registry (ld_store ld)) oid = Some b \<longrightarrow> dict_get (st_registry (ld_store ld')) oid = Some b)"

definition fill_step ::
    "('s, 'c) senv \<Rightarrow> (nat, stored_record) dict \<Rightarrow> ('s, 'c) store \<Rightarrow> nat \<Rightarrow> ('s, 'c) loading \<Rightarrow> ('s, 'c) loading \<Rightarrow> bool" where
  "fill_step env cache st a ld ld' \<longleftrightarrow> loading_ok env cache st ld' \<and> touches a ld ld' \<and>
     (finite (known env cache st) \<longrightarrow> rounds_left env cache st ld' \<le> rounds_left env cache st ld)"

lemma later_trans: "later a b \<Longrightarrow> later b c \<Longrightarrow> later a c"
  unfolding later_def by metis

lemma touches_advances: "advances ld ld' \<Longrightarrow> touches a ld ld'"
  using advances_later unfolding touches_def advances_def by blast

lemma touches_refl: "touches a ld ld"
  by (simp add: touches_def)

lemma later_none: "later h h' \<Longrightarrow> dict_get h' a = None \<Longrightarrow> dict_get h a = None"
  unfolding later_def by (cases "dict_get h a") fastforce+

lemma touches_trans:
  assumes x: "touches a l1 l2" and y: "touches a l2 l3"
  shows "touches a l1 l3"
proof -
  have "b \<in> fst ` set (ld_queue l3)" if "dict_get (st_heap (ld_store l1)) b = None" "dict_get (st_heap (ld_store l3)) b \<noteq> None" for b
  proof (cases "dict_get (st_heap (ld_store l2)) b")
    case None
    then show ?thesis
      using y that(2) unfolding touches_def by blast
  next
    case (Some e)
    then have "b \<in> fst ` set (ld_queue l2)"
      using x that(1) unfolding touches_def by blast
    then show ?thesis
      using y by (auto simp: touches_def)
  qed
  moreover obtain p q where "ld_queue l2 = ld_queue l1 @ p" "ld_queue l3 = ld_queue l2 @ q"
      "\<forall>x \<in> set p. dict_get (st_heap (ld_store l1)) (fst x) = None" "\<forall>x \<in> set q. dict_get (st_heap (ld_store l2)) (fst x) = None"
    using x y unfolding touches_def by blast
  then have "\<exists>q. ld_queue l3 = ld_queue l1 @ q \<and> (\<forall>x \<in> set q. dict_get (st_heap (ld_store l1)) (fst x) = None)"
    using later_none x unfolding touches_def by (intro exI [of _ "p @ q"]) auto
  moreover have "later (st_heap (ld_store l1)) (st_heap (ld_store l3))"
    using later_trans x y unfolding touches_def by blast
  ultimately show ?thesis
    using x y unfolding touches_def by blast
qed

lemma fill_step_trans: "fill_step env cache st a l1 l2 \<Longrightarrow> fill_step env cache st a l2 l3 \<Longrightarrow> fill_step env cache st a l1 l3"
  unfolding fill_step_def using touches_trans by (metis le_trans)

lemma load_fill_step: "load_step env cache st ld ld' \<Longrightarrow> fill_step env cache st a ld ld'"
  by (simp add: load_step_def fill_step_def touches_advances)

text \<open>Writing a filled shell back.\<close>

lemma put_registry [simp]: "st_registry (put_entity a e st) = st_registry st"
  by (simp add: put_entity_def)

lemma put_step:
  assumes ok: "loading_ok env cache st ld" and a: "dict_get (st_heap (ld_store ld)) a = Some e" "dict_get (st_heap st) a = None"
    and same: "en_ti e' = en_ti e" "en_oid e' = en_oid e" "\<And>oid. shell_of env oid e' \<longleftrightarrow> shell_of env oid e"
  shows "fill_step env cache st a ld (ld\<lparr>ld_store := put_entity a e' (ld_store ld)\<rparr>)"
proof -
  let ?ld = "ld\<lparr>ld_store := put_entity a e' (ld_store ld)\<rparr>"
  have reg: "st_registry (ld_store ?ld) = st_registry (ld_store ld)"
    by (simp add: put_entity_def)
  have h: "dict_get (st_heap (ld_store ?ld)) b = (if b = a then Some e' else dict_get (st_heap (ld_store ld)) b)" for b
    by simp
  have aw: "awaits env cache st e' rec \<longleftrightarrow> awaits env cache st e rec" for rec
    by (simp add: awaits_def same)
  note D = loading_okD [OF ok]
  have "loading_ok env cache st ?ld"
    unfolding loading_ok_def
  proof (intro conjI allI impI ballI)
    show "only_heap st (ld_store ?ld)"
      using only_heap_change(2) [OF D(1)] by simp
  next
    fix b f assume "dict_get (st_heap st) b = Some f"
    then show "dict_get (st_heap (ld_store ?ld)) b = Some f"
      using D(2) a(2) unfolding h by auto
  next
    fix b f assume "dict_get (st_heap (ld_store ?ld)) b = Some f"
    then show "b < ld_next ?ld"
      using D(3) [of b] a(1) unfolding h by (auto split: if_splits)
  next
    fix b f assume b: "dict_get (st_heap (ld_store ?ld)) b = Some f" "dict_get (st_heap st) b = None"
    then show "\<exists>oid \<in> set (ld_registered ?ld). shell_of env oid f \<and> dict_get (st_registry (ld_store ?ld)) oid = Some b"
      using D(4) [of b] a(1) same(3) unfolding h reg by (auto split: if_splits)
  next
    fix k assume "k \<in> set (ld_registered ?ld)"
    then have k: "k \<in> set (ld_registered ld)"
      by simp
    show "dict_get (st_registry st) k = None" "k \<in> known env cache st"
      using D(5) [OF k] by auto
    obtain b f where b: "dict_get (st_registry (ld_store ld)) k = Some b" "dict_get (st_heap st) b = None"
        "dict_get (st_heap (ld_store ld)) b = Some f" "en_oid f = Some k"
      using D(5) [OF k] by blast
    show "\<exists>a e. dict_get (st_registry (ld_store ?ld)) k = Some a \<and> dict_get (st_heap st) a = None \<and>
        dict_get (st_heap (ld_store ?ld)) a = Some e \<and> en_oid e = Some k"
      using b a(1) same(2) unfolding h reg by (intro exI [of _ b]) auto
  next
    fix k assume "k \<notin> set (ld_registered ?ld)"
    then show "dict_get (st_registry (ld_store ?ld)) k = dict_get (st_registry st) k"
      using D(6) unfolding reg by simp
  next
    fix x assume "x \<in> set (ld_queue ?ld)"
    then show "case x of (b, rc) \<Rightarrow> dict_get (st_heap st) b = None \<and>
        (\<exists>e. dict_get (st_heap (ld_store ?ld)) b = Some e \<and> awaits env cache st e rc)"
      using D(7) a(1) aw unfolding h by fastforce
  next
    show "distinct (map fst (ld_queue ?ld))"
      using D(8) by simp
  qed
  moreover have "touches a ld ?ld"
    unfolding touches_def later_def h reg using a(1) same by auto
  moreover have "rounds_left env cache st ?ld = rounds_left env cache st ld"
    by (simp add: rounds_left_def)
  ultimately show ?thesis
    by (simp add: fill_step_def)
qed

section \<open>One entity\<close>

definition field_ok :: "heap \<Rightarrow> entity \<Rightarrow> row \<Rightarrow> pyval list \<Rightarrow> fieldspec \<times> field_source \<Rightarrow> bool" where
  "field_ok h e by_name values x \<longleftrightarrow>
     (\<exists>raw. source_value by_name values (snd x) = Inr raw \<and> restored h raw (en_field e (fs_name (fst x))))"

lemma field_ok_later: "field_ok h e by_name values x \<Longrightarrow> later h h' \<Longrightarrow> field_ok h' e by_name values x"
  unfolding field_ok_def using restored_later by blast

lemma touches_same: "touches a ld ld' \<Longrightarrow> dict_get (st_heap (ld_store ld)) a = Some e \<Longrightarrow>
    \<exists>e'. dict_get (st_heap (ld_store ld')) a = Some e' \<and> en_ti e' = en_ti e \<and> en_oid e' = en_oid e"
  by (simp add: touches_def later_def)

lemma fill_one_step:
  assumes ok: "loading_ok env cache st ld" and names: "names_ok st"
    and a: "dict_get (st_heap (ld_store ld)) a = Some e" "dict_get (st_heap st) a = None"
    and f: "fill_one env cache a by_name values x u ld = (r, ld')"
  shows "fill_step env cache st a ld ld'"
    and "r = Inr w \<Longrightarrow> \<exists>e'. dict_get (st_heap (ld_store ld')) a = Some e' \<and> field_ok (st_heap (ld_store ld')) e' by_name values x \<and>
      (\<forall>name. name \<noteq> fs_name (fst x) \<longrightarrow> en_field e' name = en_field e name)"
proof -
  obtain spec src where x: "x = (spec, src)"
    by fastforce
  have "fill_step env cache st a ld ld' \<and> (r = Inr () \<longrightarrow> (\<exists>e'. dict_get (st_heap (ld_store ld')) a = Some e' \<and>
      field_ok (st_heap (ld_store ld')) e' by_name values x \<and> (\<forall>name. name \<noteq> fs_name spec \<longrightarrow> en_field e' name = en_field e name)))"
  proof (cases "source_value by_name values src")
    case (Inl err)
    then show ?thesis
      using f x load_fill_step [OF load_step_refl [OF ok]] by (auto simp: fill_one_def bind_act_def)
  next
    case raw: (Inr raw)
    obtain r1 ld1 where one: "resolve env cache (fs_lazy_refs spec) raw ld = (r1, ld1)"
      by fastforce
    have s1: "load_step env cache st ld ld1" and v1: "\<And>v. r1 = Inr v \<Longrightarrow> restored (st_heap (ld_store ld1)) raw v"
      using resolve_step(1) [OF ok names one] by auto
    have a1: "dict_get (st_heap (ld_store ld1)) a = Some e"
      using s1 a(1) by (simp add: load_step_def advances_def)
    show ?thesis
    proof (cases "\<exists>v e'. r1 = Inr v \<and> set_field (fs_name spec) v e = Inr e'")
      case False
      then have "ld' = ld1 \<and> r \<noteq> Inr ()"
        using f x raw one a1 by (cases r1) (auto simp: fill_one_def bind_act_def entity_at_def split: sum.splits)
      then show ?thesis
        using load_fill_step [OF s1] by auto
    next
      case True
      then obtain v e' where v: "r1 = Inr v" and e': "set_field (fs_name spec) v e = Inr e'"
        by blast
      note eff = set_field_effect [OF e']
      have ld': "ld' = ld1\<lparr>ld_store := put_entity a e' (ld_store ld1)\<rparr>"
        using f x raw one a1 v e' by (auto simp: fill_one_def bind_act_def entity_at_def)
      have p: "fill_step env cache st a ld1 ld'"
        unfolding ld' using put_step [OF load_stepD(1) [OF s1] a1 a(2) eff(3,4)] eff(5) by blast
      have "restored (st_heap (ld_store ld')) raw v"
        using restored_later [OF v1 [OF v]] p by (auto simp: fill_step_def touches_def)
      then have "field_ok (st_heap (ld_store ld')) e' by_name values x"
        using raw eff(1) x by (auto simp: field_ok_def)
      then show ?thesis
        using fill_step_trans [OF load_fill_step [OF s1] p] eff(2) by (auto simp: ld')
    qed
  qed
  then show "fill_step env cache st a ld ld'"
    "r = Inr w \<Longrightarrow> \<exists>e'. dict_get (st_heap (ld_store ld')) a = Some e' \<and> field_ok (st_heap (ld_store ld')) e' by_name values x \<and>
      (\<forall>name. name \<noteq> fs_name (fst x) \<longrightarrow> en_field e' name = en_field e name)"
    using x by auto
qed

lemma field_ok_cong: "en_field e' (fs_name (fst x)) = en_field e (fs_name (fst x)) \<Longrightarrow> field_ok h e' b vs x = field_ok h e b vs x"
  by (simp add: field_ok_def)

lemma fill_fields_step:
  assumes "fold_act (fill_one env cache a by_name values) hplan u ld = (r, ld')"
    and "loading_ok env cache st ld" and "names_ok st"
    and "dict_get (st_heap (ld_store ld)) a = Some e" and "dict_get (st_heap st) a = None"
    and "distinct (map (fs_name \<circ> fst) hplan)"
  shows "fill_step env cache st a ld ld' \<and> (r = Inr () \<longrightarrow> (\<exists>e'. dict_get (st_heap (ld_store ld')) a = Some e' \<and>
    (\<forall>x \<in> set hplan. field_ok (st_heap (ld_store ld')) e' by_name values x) \<and>
    (\<forall>name. name \<notin> fs_name ` fst ` set hplan \<longrightarrow> en_field e' name = en_field e name)))"
  using assms
proof (induction hplan arbitrary: u ld e)
  case Nil
  then show ?case
    by (auto intro!: load_fill_step load_step_refl)
next
  case (Cons x hplan)
  obtain r1 ld1 where one: "fill_one env cache a by_name values x u ld = (r1, ld1)"
    by fastforce
  note s1 = fill_one_step [OF Cons.prems(2-5) one]
  show ?case
  proof (cases r1)
    case (Inl err)
    then have "ld' = ld1" "r = Inl err"
      using Cons.prems(1) one by (simp_all add: bind_act_def)
    then show ?thesis
      using s1(1) by simp
  next
    case (Inr w)
    obtain e1 where e1: "dict_get (st_heap (ld_store ld1)) a = Some e1" "field_ok (st_heap (ld_store ld1)) e1 by_name values x"
        "\<And>name. name \<noteq> fs_name (fst x) \<Longrightarrow> en_field e1 name = en_field e name"
      using s1(2) [OF Inr] by blast
    have rest: "fold_act (fill_one env cache a by_name values) hplan w ld1 = (r, ld')"
      using Cons.prems(1) one Inr by (simp add: bind_act_def)
    have ok1: "loading_ok env cache st ld1"
      using s1(1) by (simp add: fill_step_def)
    have d: "distinct (map (fs_name \<circ> fst) hplan)" and n: "fs_name (fst x) \<notin> fs_name ` fst ` set hplan"
      using Cons.prems(6) by (auto simp: image_image comp_def)
    note s2 = Cons.IH [OF rest ok1 Cons.prems(3) e1(1) Cons.prems(5) d]
    have s: "fill_step env cache st a ld ld'"
      using fill_step_trans [OF s1(1)] s2 by blast
    have later: "later (st_heap (ld_store ld1)) (st_heap (ld_store ld'))"
      using s2 by (simp add: fill_step_def touches_def)
    have "\<exists>e'. dict_get (st_heap (ld_store ld')) a = Some e' \<and>
        (\<forall>x \<in> set (x # hplan). field_ok (st_heap (ld_store ld')) e' by_name values x) \<and>
        (\<forall>name. name \<notin> fs_name ` fst ` set (x # hplan) \<longrightarrow> en_field e' name = en_field e name)" if "r = Inr ()"
    proof -
      obtain e' where e': "dict_get (st_heap (ld_store ld')) a = Some e'"
          "\<forall>x \<in> set hplan. field_ok (st_heap (ld_store ld')) e' by_name values x"
          "\<forall>name. name \<notin> fs_name ` fst ` set hplan \<longrightarrow> en_field e' name = en_field e1 name"
        using s2 \<open>r = Inr ()\<close> by blast
      have "field_ok (st_heap (ld_store ld')) e' by_name values x"
        using field_ok_later [OF e1(2) later] e'(3) n field_ok_cong [of e' x e1] by blast
      then show ?thesis
        using e' e1(3) by (intro exI [of _ e']) auto
    qed
    then show ?thesis
      using s by blast
  qed
qed

text \<open>A loaded entity has the values of its record.\<close>

definition loaded_entity ::
    "('s, 'c) senv \<Rightarrow> (nat, stored_record) dict \<Rightarrow> ('s, 'c) store \<Rightarrow> heap \<Rightarrow> entity \<Rightarrow> bool" where
  "loaded_entity env cache st h e \<longleftrightarrow>
     (\<exists>oid rec hplan values. en_oid e = Some oid \<and> fetch_record env cache oid st = Inr rec \<and>
        ti_for_cid env (sr_cid rec) st = Inr (en_ti e) \<and> hydration_plan (en_ti e) (shape_of st (sr_cid rec)) = Inr hplan \<and>
        decode_fields env (sr_payload rec) = Inr values \<and> length values = length (shape_of st (sr_cid rec)) \<and>
        (\<forall>x \<in> set hplan. field_ok h e (zip (shape_of st (sr_cid rec)) values) values x))"

lemma loaded_entity_later: "loaded_entity env cache st h e \<Longrightarrow> later h h' \<Longrightarrow> loaded_entity env cache st h' e"
  unfolding loaded_entity_def using field_ok_later by blast

definition classes_wf :: "('s, 'c) senv \<Rightarrow> bool" where
  "classes_wf env \<longleftrightarrow> (\<forall>name ti. dict_get (se_types env) name = Some ti \<longrightarrow> typeinfo_wf ti)"

lemma ti_for_cid_wf: "ti_for_cid env cid st = Inr ti \<Longrightarrow> classes_wf env \<Longrightarrow> typeinfo_wf ti"
  by (auto simp: ti_for_cid_def classes_wf_def split: option.splits)

lemma hydration_plan_names:
  assumes "hydration_plan ti persisted = Inr hplan"
  shows "map (fs_name \<circ> fst) hplan = map fs_name (ti_specs ti)"
proof -
  have "map_res (\<lambda>spec. bind_res (f spec) (\<lambda>src. Inr (spec, src))) specs = Inr hp \<Longrightarrow> map (fs_name \<circ> fst) hp = map fs_name specs" for f specs hp
    by (induction specs arbitrary: hp) (auto simp: bind_res_Inr split: sum.splits)
  then show ?thesis
    using assms unfolding hydration_plan_def by blast
qed

lemma fill_entity_step:
  assumes f: "fill_entity env cache a rec ld = (r, ld')" and ok: "loading_ok env cache st ld" and names: "names_ok st" and wf: "classes_wf env"
    and a: "dict_get (st_heap (ld_store ld)) a = Some e" "dict_get (st_heap st) a = None" and aw: "awaits env cache st e rec"
  shows "fill_step env cache st a ld ld'"
    and "r = Inr u \<Longrightarrow> \<exists>e'. dict_get (st_heap (ld_store ld')) a = Some e' \<and> loaded_entity env cache st (st_heap (ld_store ld')) e'"
proof -
  note same = only_heapD(5,6) [OF loading_okD(1) [OF ok]]
  let ?shape = "shape_of st (sr_cid rec)"
  have ti: "ti_for_cid env (sr_cid rec) (ld_store ld) = Inr (en_ti e)"
    using aw same(1) by (simp add: awaits_def)
  have stay: "fill_step env cache st a ld ld"
    by (rule load_fill_step [OF load_step_refl [OF ok]])
  have "fill_step env cache st a ld ld' \<and> (r = Inr () \<longrightarrow>
      (\<exists>e'. dict_get (st_heap (ld_store ld')) a = Some e' \<and> loaded_entity env cache st (st_heap (ld_store ld')) e'))"
  proof (cases "\<exists>hplan vals. hydration_plan (en_ti e) ?shape = Inr hplan \<and> decode_fields env (sr_payload rec) = Inr vals \<and> length vals = length ?shape")
    case False
    then have "ld' = ld" "r \<noteq> Inr ()"
      using f ti same(2) by (auto simp: fill_entity_def bind_act_def Let_def split: sum.splits if_splits)
    then show ?thesis
      using stay by simp
  next
    case True
    then obtain hplan vals where p: "hydration_plan (en_ti e) ?shape = Inr hplan" "decode_fields env (sr_payload rec) = Inr vals"
        "length vals = length ?shape"
      by blast
    have fold: "fold_act (fill_one env cache a (zip ?shape vals) vals) hplan () ld = (r, ld')"
      using f ti same(2) p by (simp add: fill_entity_def bind_act_def Let_def)
    have "distinct (map (fs_name \<circ> fst) hplan)"
      using hydration_plan_names [OF p(1)] ti_for_cid_wf [OF ti wf] by (simp add: typeinfo_wf_def)
    note s = fill_fields_step [OF fold ok names a this]
    have "\<exists>e'. dict_get (st_heap (ld_store ld')) a = Some e' \<and> loaded_entity env cache st (st_heap (ld_store ld')) e'" if "r = Inr ()"
    proof -
      obtain e' where e': "dict_get (st_heap (ld_store ld')) a = Some e'"
          "\<forall>x \<in> set hplan. field_ok (st_heap (ld_store ld')) e' (zip ?shape vals) vals x"
        using s \<open>r = Inr ()\<close> by blast
      moreover have "en_ti e' = en_ti e" "en_oid e' = en_oid e"
        using touches_same [of a ld ld' e] s a(1) e'(1) by (auto simp: fill_step_def)
      ultimately show ?thesis
        using aw p unfolding loaded_entity_def awaits_def by (intro exI [of _ e']) auto
    qed
    then show ?thesis
      using s by blast
  qed
  then show "fill_step env cache st a ld ld'"
    "r = Inr u \<Longrightarrow> \<exists>e'. dict_get (st_heap (ld_store ld')) a = Some e' \<and> loaded_entity env cache st (st_heap (ld_store ld')) e'"
    by auto
qed

section \<open>The queue\<close>

definition all_loaded :: "('s, 'c) senv \<Rightarrow> (nat, stored_record) dict \<Rightarrow> ('s, 'c) store \<Rightarrow> ('s, 'c) loading \<Rightarrow> bool" where
  "all_loaded env cache st ld \<longleftrightarrow>
     (\<forall>a e. dict_get (st_heap (ld_store ld)) a = Some e \<longrightarrow> dict_get (st_heap st) a = None \<longrightarrow> a \<notin> fst ` set (ld_queue ld) \<longrightarrow>
        loaded_entity env cache st (st_heap (ld_store ld)) e)"

lemma pop_ok:
  assumes "loading_ok env cache st ld" and "ld_queue ld = (a, rec) # queue"
  shows "loading_ok env cache st (ld\<lparr>ld_queue := queue\<rparr>)"
    and "rounds_left env cache st (ld\<lparr>ld_queue := queue\<rparr>) < rounds_left env cache st ld"
  using assms unfolding loading_ok_def rounds_left_def by auto

lemma fill_loop_total:
  assumes "finite (known env cache st)" and "names_ok st" and "classes_wf env"
    and "loading_ok env cache st ld" and "all_loaded env cache st ld"
  shows "\<exists>r ld'. fill_loop env cache ld = Some (r, ld') \<and> loading_ok env cache st ld' \<and>
    (\<forall>oid b. dict_get (st_registry (ld_store ld)) oid = Some b \<longrightarrow> dict_get (st_registry (ld_store ld')) oid = Some b) \<and>
    (r = Inr () \<longrightarrow> all_loaded env cache st ld' \<and> ld_queue ld' = [])"
  using assms(4,5)
proof (induction "rounds_left env cache st ld" arbitrary: ld rule: less_induct)
  case less
  show ?case
  proof (cases "ld_queue ld")
    case Nil
    then have "fill_loop env cache ld = Some (Inr (), ld)"
      by (simp add: fill_loop.simps)
    then show ?thesis
      using less.prems Nil by simp
  next
    case (Cons x queue)
    obtain a rec where x: "x = (a, rec)"
      by fastforce
    let ?ld1 = "ld\<lparr>ld_queue := queue\<rparr>"
    note q = Cons [unfolded x]
    note pop = pop_ok [OF less.prems(1) q]
    obtain r ld2 where fill: "fill_entity env cache a rec ?ld1 = (r, ld2)"
      by fastforce
    obtain e where e: "dict_get (st_heap (ld_store ld)) a = Some e" "awaits env cache st e rec" "dict_get (st_heap st) a = None"
      using loading_okD(7) [OF less.prems(1), of a rec] q by auto
    have e1: "dict_get (st_heap (ld_store ?ld1)) a = Some e"
      using e(1) by simp
    note s = fill_entity_step [OF fill pop(1) assms(2,3) e1 e(3,2)]
    have t: "touches a ?ld1 ld2" and ok2: "loading_ok env cache st ld2"
      using s(1) by (auto simp: fill_step_def)
    have reg: "dict_get (st_registry (ld_store ld)) oid = Some b \<Longrightarrow> dict_get (st_registry (ld_store ld2)) oid = Some b" for oid b
      using t by (simp add: touches_def)
    show ?thesis
    proof (cases r)
      case (Inl err)
      then have "fill_loop env cache ld = Some (Inl err, ld2)"
        using q fill by (simp add: fill_loop.simps [of _ _ ld])
      then show ?thesis
        using ok2 reg by blast
    next
      case (Inr u)
      have loop: "fill_loop env cache ld = fill_loop env cache ld2"
        using q fill Inr by (simp add: fill_loop.simps [of _ _ ld])
      have smaller: "rounds_left env cache st ld2 < rounds_left env cache st ld"
        using s(1) pop(2) assms(1) by (auto simp: fill_step_def)
      have "all_loaded env cache st ld2"
        unfolding all_loaded_def
      proof (intro allI impI)
        fix b f
        assume b: "dict_get (st_heap (ld_store ld2)) b = Some f" "dict_get (st_heap st) b = None" "b \<notin> fst ` set (ld_queue ld2)"
        show "loaded_entity env cache st (st_heap (ld_store ld2)) f"
        proof (cases "b = a")
          case True
          then show ?thesis
            using s(2) [OF Inr] b(1) by auto
        next
          case False
          have "dict_get (st_heap (ld_store ?ld1)) b \<noteq> None"
            using t b(1,3) unfolding touches_def by auto
          then have old: "dict_get (st_heap (ld_store ld)) b = Some f"
            using t b(1) False unfolding touches_def by fastforce
          moreover have "set queue \<subseteq> set (ld_queue ld2)"
            using t by (auto simp: touches_def)
          then have "b \<notin> fst ` set (ld_queue ld)"
            using b(3) False q by auto
          ultimately have "loaded_entity env cache st (st_heap (ld_store ld)) f"
            using less.prems(2) b(2) unfolding all_loaded_def by blast
          moreover have "later (st_heap (ld_store ld)) (st_heap (ld_store ld2))"
            using t by (simp add: touches_def)
          ultimately show ?thesis
            by (rule loaded_entity_later)
        qed
      qed
      then show ?thesis
        using less.hyps [OF smaller ok2] reg unfolding loop by blast
    qed
  qed
qed

section \<open>The whole load\<close>

definition same_maps :: "('s, 'c) store \<Rightarrow> ('s, 'c) store \<Rightarrow> bool" where
  "same_maps st st' \<longleftrightarrow> only_heap st st' \<and> dict_get (st_heap st') = dict_get (st_heap st) \<and>
     dict_get (st_registry st') = dict_get (st_registry st)"

text \<open>What a load that returned has done: every new entity is registered and has its record's values.\<close>

definition loaded_graph ::
    "('s, 'c) senv \<Rightarrow> (nat, stored_record) dict \<Rightarrow> nat \<Rightarrow> nat \<Rightarrow> ('s, 'c) store \<Rightarrow> ('s, 'c) store \<Rightarrow> bool" where
  "loaded_graph env cache oid a st st' \<longleftrightarrow>
     only_heap st st' \<and> dict_get (st_registry st') oid = Some a \<and>
     (\<forall>b e. dict_get (st_heap st) b = Some e \<longrightarrow> dict_get (st_heap st') b = Some e) \<and>
     (\<forall>k b. dict_get (st_registry st) k = Some b \<longrightarrow> dict_get (st_registry st') k = Some b) \<and>
     (\<forall>k b. dict_get (st_registry st') k = Some b \<longrightarrow> dict_get (st_registry st) k = None \<longrightarrow>
        k \<in> known env cache st \<and> dict_get (st_heap st) b = None) \<and>
     (\<forall>k b. dict_get (st_registry st') k = Some b \<longrightarrow> (\<exists>e. dict_get (st_heap st') b = Some e \<and> en_oid e = Some k)) \<and>
     (\<forall>b e. dict_get (st_heap st') b = Some e \<longrightarrow> dict_get (st_heap st) b = None \<longrightarrow>
        loaded_entity env cache st (st_heap st') e \<and>
        (\<exists>k \<in> known env cache st. shell_of env k e \<and> dict_get (st_registry st) k = None \<and> dict_get (st_registry st') k = Some b))"

lemma dict_get_forget:
  assumes "loading_ok env cache st ld"
  shows "same_maps st (forget_shells ld)"
proof -
  note D = loading_okD [OF assms]
  let ?shells = "List.map_filter (dict_get (st_registry (ld_store ld))) (ld_registered ld)"
  have mem: "b \<in> set ?shells \<longleftrightarrow> (\<exists>k \<in> set (ld_registered ld). dict_get (st_registry (ld_store ld)) k = Some b)" for b
    by (force simp: List.map_filter_def)
  have "(if b \<in> set ?shells then None else dict_get (st_heap (ld_store ld)) b) = dict_get (st_heap st) b" for b
  proof (cases "dict_get (st_heap st) b")
    case None
    then show ?thesis
      using D(4) [of b] unfolding mem by (cases "dict_get (st_heap (ld_store ld)) b") auto
  next
    case (Some e)
    have "b \<notin> set ?shells"
      using D(5) Some unfolding mem by fastforce
    then show ?thesis
      using D(2) [OF Some] Some by simp
  qed
  moreover have "(if k \<in> set (ld_registered ld) then None else dict_get (st_registry (ld_store ld)) k) = dict_get (st_registry st) k" for k
    using D(5) [of k] D(6) [of k] by auto
  moreover have "only_heap st (forget_shells ld)"
    using only_heap_change(1) [OF D(1)] by (simp add: forget_shells_def Let_def)
  ultimately show ?thesis
    by (auto simp: same_maps_def forget_shells_def Let_def dict_get_pop_all fun_eq_iff)
qed

lemma materialize_total:
  assumes fin: "finite (known env cache st)" and names: "names_ok st" and wf: "classes_wf env"
    and fresh: "\<And>a e. dict_get (st_heap st) a = Some e \<Longrightarrow> a < fresh"
  obtains (loaded) a st' where "materialize_graph env cache fresh oid st = Some (Inr (PEnt a), st')" "loaded_graph env cache oid a st st'"
    | (failed) err st' where "materialize_graph env cache fresh oid st = Some (Inl err, st')" "same_maps st st'"
proof -
  let ?ld0 = "\<lparr>ld_store = st, ld_registered = [], ld_queue = [], ld_next = fresh\<rparr>"
  have ok0: "loading_ok env cache st ?ld0"
    using fresh by (simp add: loading_ok_def only_heap_def)
  obtain r ld where l: "link env cache True oid ?ld0 = (r, ld)"
    by fastforce
  note s = link_step [OF ok0 names l]
  have ok: "loading_ok env cache st ld"
    using s(1) by (simp add: load_step_def)
  show thesis
  proof (cases r)
    case (Inl err)
    then have "materialize_graph env cache fresh oid st = Some (Inl err, forget_shells ld)"
      using l by (simp add: materialize_graph_def)
    then show thesis
      by (rule failed) (rule dict_get_forget [OF ok])
  next
    case (Inr v)
    obtain a where a: "v = PEnt a" "dict_get (st_registry (ld_store ld)) oid = Some a"
      using s(3) [OF Inr] by auto
    have "all_loaded env cache st ld"
      using s(1) unfolding all_loaded_def load_step_def advances_def by fastforce
    from fill_loop_total [OF fin names wf ok this] obtain r' ld' where f: "fill_loop env cache ld = Some (r', ld')"
      and ok': "loading_ok env cache st ld'" and reg: "dict_get (st_registry (ld_store ld')) oid = Some a"
      and all: "r' = Inr () \<Longrightarrow> all_loaded env cache st ld' \<and> ld_queue ld' = []"
      using a(2) by blast
    show thesis
    proof (cases r')
      case (Inl err)
      then have "materialize_graph env cache fresh oid st = Some (Inl err, forget_shells ld')"
        using l Inr f by (simp add: materialize_graph_def)
      then show thesis
        by (rule failed) (rule dict_get_forget [OF ok'])
    next
      case (Inr u)
      have "materialize_graph env cache fresh oid st = Some (Inr (PEnt a), ld_store ld')"
        using l \<open>r = Inr v\<close> f Inr a(1) by (simp add: materialize_graph_def)
      moreover have "loaded_graph env cache oid a st (ld_store ld')"
        unfolding loaded_graph_def
      proof (intro conjI allI impI)
        note D = loading_okD [OF ok']
        show "only_heap st (ld_store ld')" "dict_get (st_registry (ld_store ld')) oid = Some a"
          using D(1) reg by auto
        show "dict_get (st_heap st) b = Some e \<Longrightarrow> dict_get (st_heap (ld_store ld')) b = Some e" for b e
          by (rule D(2))
        show "dict_get (st_registry st) k = Some b \<Longrightarrow> dict_get (st_registry (ld_store ld')) k = Some b" for k b
          using D(5,6) [of k] by auto
        show "dict_get (st_registry (ld_store ld')) k = Some b \<Longrightarrow> dict_get (st_registry st) k = None \<Longrightarrow> k \<in> known env cache st"
          "dict_get (st_registry (ld_store ld')) k = Some b \<Longrightarrow> dict_get (st_registry st) k = None \<Longrightarrow> dict_get (st_heap st) b = None" for k b
          using D(5,6) [of k] by auto
        show "dict_get (st_registry (ld_store ld')) k = Some b \<Longrightarrow> \<exists>e. dict_get (st_heap (ld_store ld')) b = Some e \<and> en_oid e = Some k" for k b
          by (rule registry_names [OF ok' names])
        show "loaded_entity env cache st (st_heap (ld_store ld')) e"
          if "dict_get (st_heap (ld_store ld')) b = Some e" "dict_get (st_heap st) b = None" for b e
          using all Inr that by (auto simp: all_loaded_def)
        show "\<exists>k \<in> known env cache st. shell_of env k e \<and> dict_get (st_registry st) k = None \<and> dict_get (st_registry (ld_store ld')) k = Some b"
          if "dict_get (st_heap (ld_store ld')) b = Some e" "dict_get (st_heap st) b = None" for b e
          using D(4) [OF that] D(5) by blast
      qed
      ultimately show thesis
        by (rule loaded)
    qed
  qed
qed

end
