(* ===== verification/Store_Fetch.thy ===== *)
theory Store_Fetch
  imports Store_Hydrate Store_Samples
begin

text \<open>
  Loading over a database: the session invariant through a load, the fields of a stored record as they
  come back, and the read fences.
\<close>

section \<open>The session through a load\<close>

text \<open>A live instance of a stored record is in the registry, and stored OIDs are below the watermark.\<close>

definition homed :: "(nat \<Rightarrow> stored_record option) \<Rightarrow> ('s, 'c) store \<Rightarrow> bool" where
  "homed look st \<longleftrightarrow>
     (\<forall>a e oid. dict_get (st_heap st) a = Some e \<longrightarrow> en_oid e = Some oid \<longrightarrow> look oid \<noteq> None \<longrightarrow> dict_get (st_registry st) oid \<noteq> None) \<and>
     (\<forall>oid. look oid \<noteq> None \<longrightarrow> oid < next_oid_of (st_alloc st))"

lemma homedD:
  assumes "homed look st"
  shows "dict_get (st_heap st) a = Some e \<Longrightarrow> en_oid e = Some oid \<Longrightarrow> look oid \<noteq> None \<Longrightarrow> dict_get (st_registry st) oid \<noteq> None"
    and "look oid \<noteq> None \<Longrightarrow> oid < next_oid_of (st_alloc st)"
  using assms unfolding homed_def by blast+

lemma loaded_session_ok:
  assumes ok: "session_ok st" and l: "loaded_graph env cache oid a st st'" and h: "homed look st"
    and kn: "\<And>k. k \<in> known env cache st \<Longrightarrow> look k \<noteq> None"
  shows "session_ok st' \<and> homed look st'"
proof -
  obtain hp rg where st': "st' = st\<lparr>st_heap := hp, st_registry := rg\<rparr>"
    using l unfolding loaded_graph_def only_heap_def by blast
  let ?H = "dict_get (st_heap st')" and ?G = "dict_get (st_heap st)"
  have old: "?G b = Some e \<Longrightarrow> ?H b = Some e" for b e
    using l unfolding loaded_graph_def by blast
  have new: "\<exists>k. look k \<noteq> None \<and> shell_of env k e \<and> dict_get (st_registry st) k = None \<and> dict_get (st_registry st') k = Some b"
    if be: "?H b = Some e" "?G b = None" for b e
  proof -
    obtain k where k: "k \<in> known env cache st" "shell_of env k e" "dict_get (st_registry st) k = None" "dict_get (st_registry st') k = Some b"
      using l be unfolding loaded_graph_def by blast
    show ?thesis
      using k(2-4) kn [OF k(1)] by (intro exI [of _ k]) (intro conjI)
  qed
  have new_oid: "look k \<noteq> None \<and> dict_get (st_registry st) k = None \<and> dict_get (st_registry st') k = Some b"
    if be: "?H b = Some e" "?G b = None" "en_oid e = Some k" for b e k
  proof -
    obtain j where "look j \<noteq> None" "shell_of env j e" "dict_get (st_registry st) j = None" "dict_get (st_registry st') j = Some b"
      using new [OF be(1,2)] by blast
    moreover from this(2) be(3) have "j = k"
      by (simp add: shell_of_def)
    ultimately show ?thesis
      by simp
  qed
  have reg: "dict_get (st_registry st) k = Some b \<Longrightarrow> dict_get (st_registry st') k = Some b" for k b
    using l unfolding loaded_graph_def by blast
  have named: "dict_get (st_registry st') k = Some b \<Longrightarrow> \<exists>e. ?H b = Some e \<and> en_oid e = Some k" for k b
    using l unfolding loaded_graph_def by blast
  have ids: "ids_ok st" and sts: "states_ok st" and bw: "bufs_wf st" and nm: "names_ok st"
    using ok by (simp_all add: session_ok_def)
  have alloc: "st_alloc st' = st_alloc st" "st_new st' = st_new st" "st_dirty st' = st_dirty st" "st_deleted st' = st_deleted st"
    by (simp_all add: st')
  have homed': "dict_get (st_registry st') k \<noteq> None" if "?H b = Some e" "en_oid e = Some k" "look k \<noteq> None" for b e k
  proof (cases "?G b")
    case None
    then show ?thesis
      using new [OF that(1) None] that(2) by (auto simp: shell_of_def)
  next
    case (Some e0)
    then have "dict_get (st_registry st) k \<noteq> None"
      using h old [OF Some] that unfolding homed_def by auto
    then show ?thesis
      using reg by auto
  qed
  have same: "?G b = Some e" if "?H b = Some e" "en_oid e = Some k" "dict_get (st_registry st') k \<noteq> Some b" for b e k
  proof (cases "?G b")
    case None
    then show ?thesis
      using new [OF that(1) None] that(2,3) by (auto simp: shell_of_def)
  next
    case (Some e0)
    then show ?thesis
      using old [OF Some] that(1) by simp
  qed
  have "ids_ok st'"
  proof (rule ids_okI)
    fix b e k
    assume b: "?H b = Some e" "en_oid e = Some k"
    show "k < next_oid_of (st_alloc st')"
    proof (cases "?G b")
      case None
      then show ?thesis
        using new [OF b(1) None] b(2) h unfolding homed_def alloc by (auto simp: shell_of_def)
    next
      case (Some e0)
      then show ?thesis
        using ids_okD(1) [OF ids] old [OF Some] b unfolding alloc by auto
    qed
  next
    fix b c e f k
    assume b: "?H b = Some e" "?H c = Some f" "en_oid e = Some k" "en_oid f = Some k"
    show "b = c"
    proof (cases "?G b = None \<or> ?G c = None")
      case True
      then have k: "look k \<noteq> None \<and> dict_get (st_registry st) k = None"
        using new_oid [OF b(1) _ b(3)] new_oid [OF b(2) _ b(4)] by blast
      have none: "?G d = None" if d: "?H d = Some g" "en_oid g = Some k" for d g
      proof (cases "?G d")
        case (Some g')
        then show ?thesis
          using old [OF Some] d homedD(1) [OF h Some, of k] k by simp
      qed simp
      show ?thesis
        using new_oid [OF b(1) none [OF b(1,3)] b(3)] new_oid [OF b(2) none [OF b(2,4)] b(4)] by simp
    next
      case False
      then show ?thesis
        using ids_okD(2) [OF ids] old b by (metis not_None_eq option.inject)
    qed
  next
    fix b k
    assume "dict_get (st_new st') k = Some b \<or> dict_get (st_dirty st') k = Some b"
    then show "\<exists>e. ?H b = Some e \<and> en_oid e = Some k"
      using ids_okD(3) [OF ids] old unfolding alloc by blast
  qed
  moreover have "states_ok st'"
    unfolding states_ok_def
  proof (intro conjI allI impI)
    have buf: "\<exists>e. ?G b = Some e" if "dict_get (st_new st) k = Some b \<or> dict_get (st_dirty st) k = Some b" for k b
      using ids_okD(3) [OF ids that] by blast
    show "en_state e = STATE_NEW" if "dict_get (st_new st') k = Some b" "?H b = Some e" for k b e
      using sts buf [of k b] old [of b] that unfolding states_ok_def alloc by fastforce
    show "en_state e = STATE_DIRTY" if "dict_get (st_dirty st') k = Some b" "?H b = Some e" for k b e
      using sts buf [of k b] old [of b] that unfolding states_ok_def alloc by fastforce
    show "en_state e = STATE_NEW" if "?H b = Some e" "en_oid e = None" "\<not> en_twin e" for b e
    proof (cases "?G b")
      case None
      then show ?thesis
        using new [OF that(1) None] that(2) by (auto simp: shell_of_def)
    next
      case (Some e0)
      then show ?thesis
        using sts old [OF Some] that unfolding states_ok_def by auto
    qed
  qed
  moreover have "bufs_wf st'"
    using bw by (simp add: bufs_wf_def alloc)
  moreover have "names_ok st'"
    unfolding names_ok_def alloc using named names_okD(2) [OF nm] old by blast
  moreover have "homed look st'"
    unfolding homed_def alloc using homed' h unfolding homed_def by blast
  ultimately show ?thesis
    by (simp add: session_ok_def)
qed

text \<open>What an environment over a backend knows is what the backend holds.\<close>

context session_backend
begin

lemma known_stored: "inv (st_backend st) \<Longrightarrow> known env [] st = {oid. find (st_backend st) oid \<noteq> None}"
proof -
  assume i: "inv (st_backend st)"
  have "fetch_record env [] oid st = (case find (st_backend st) oid of None \<Rightarrow> Inl DanglingRefError | Some rec \<Rightarrow> Inr rec)" for oid
    using load_many_find [OF i, of "[oid]"] by (auto simp: fetch_record_def)
  then show ?thesis
    by (auto simp: known_def split: option.splits)
qed

lemma fetch_stored: "inv (st_backend st) \<Longrightarrow>
    fetch_record env [] oid st = (case find (st_backend st) oid of None \<Rightarrow> Inl DanglingRefError | Some rec \<Rightarrow> Inr rec)"
  using load_many_find [of "st_backend st" "[oid]"] by (auto simp: fetch_record_def)

lemma load_oid_total:
  assumes fin: "finite {oid. find (st_backend st) oid \<noteq> None}" and i: "inv (st_backend st)" and ok: "session_ok st"
    and h: "homed (find (st_backend st)) st" and wf: "classes_wf env" and open_st: "guard st = Inr ()"
    and fresh: "\<And>a e. dict_get (st_heap st) a = Some e \<Longrightarrow> a < fresh"
  obtains (hit) a where "load_oid env [] fresh oid st = Some (Inr (PEnt a), st)" "dict_get (st_registry st) oid = Some a"
    | (loaded) a st' where "load_oid env [] fresh oid st = Some (Inr (PEnt a), st')" "loaded_graph env [] oid a st st'"
        "session_ok st'" "homed (find (st_backend st)) st'" "dict_get (st_registry st) oid = None"
    | (failed) err st' where "load_oid env [] fresh oid st = Some (Inl err, st')" "same_maps st st'"
proof (cases "dict_get (st_registry st) oid")
  case (Some a)
  then show thesis
    using hit open_st by (simp add: load_oid_def)
next
  case None
  have k: "known env [] st = {oid. find (st_backend st) oid \<noteq> None}"
    by (rule known_stored [OF i])
  have names: "names_ok st"
    using ok by (simp add: session_ok_def)
  have fin': "finite (known env [] st)"
    using fin k by simp
  have l: "load_oid env [] fresh oid st = materialize_graph env [] fresh oid st"
    using None open_st by (simp add: load_oid_def)
  show thesis
  proof (rule materialize_total [OF fin' names wf fresh, where oid = oid])
    fix a st'
    assume m: "materialize_graph env [] fresh oid st = Some (Inr (PEnt a), st')" "loaded_graph env [] oid a st st'"
    have "session_ok st' \<and> homed (find (st_backend st)) st'"
      by (rule loaded_session_ok [OF ok m(2) h]) (simp add: k)
    then show thesis
      using loaded [of a st'] m l None by simp
  next
    fix err st'
    assume "materialize_graph env [] fresh oid st = Some (Inl err, st')" "same_maps st st'"
    then show thesis
      using failed l by simp
  qed
qed

end

end
