(* ===== verification/Fetch_Claims.thy ===== *)
theory Fetch_Claims
  imports Store_Fetch
begin

text \<open>
  The properties of the read side: a load ends and keeps the session, a stored record comes back with
  its values, and the two read fences.
\<close>

section \<open>Loading\<close>

lemma same_maps_session:
  assumes "same_maps st st'" and "session_ok st" and "homed look st"
  shows "session_ok st' \<and> homed look st'"
proof -
  obtain h r where st': "st' = st\<lparr>st_heap := h, st_registry := r\<rparr>"
    using assms(1) unfolding same_maps_def only_heap_def by blast
  have "dict_get h = dict_get (st_heap st)" "dict_get r = dict_get (st_registry st)"
    using assms(1) by (simp_all add: same_maps_def st')
  then show ?thesis
    using assms(2,3) by (simp add: st' session_ok_def ids_ok_def states_ok_def bufs_wf_def names_ok_def homed_def)
qed

text \<open>
  C8: a load ends, and keeps the session. Whatever cycles the stored graph has, loading an OID
  returns. It raises and leaves every entity and registry entry as it was; or it answers the one live
  instance registered under the OID, every entity that was live before is untouched, and the session
  invariant holds, in particular one live instance per OID.
\<close>

theorem load_ends:
  assumes "session_ok st" and "mem_ok (st_backend st)" and "homed (dict_get (mb_objects (st_backend st))) st" and "classes_wf env"
    and "\<And>a e. dict_get (st_heap st) a = Some e \<Longrightarrow> a < fresh"
  shows "\<exists>r st'. load_oid (over_memory env) [] fresh oid st = Some (r, st') \<and>
    session_ok st' \<and> homed (dict_get (mb_objects (st_backend st))) st' \<and>
    (case r of
       Inl err \<Rightarrow> same_maps st st'
     | Inr v \<Rightarrow> \<exists>a. v = PEnt a \<and> dict_get (st_registry st') oid = Some a \<and>
         (\<forall>b e. dict_get (st_heap st) b = Some e \<longrightarrow> dict_get (st_heap st') b = Some e) \<and>
         (\<forall>k b. dict_get (st_registry st) k = Some b \<longrightarrow> dict_get (st_registry st') k = Some b))"
proof (cases "guard st")
  case (Inl err)
  then have "load_oid (over_memory env) [] fresh oid st = Some (Inl err, st)"
    by (simp add: load_oid_def)
  then show ?thesis
    using assms(1,3) by (simp add: same_maps_def only_heap_def)
next
  case (Inr u)
  have fin: "finite {oid. dict_get (mb_objects (st_backend st)) oid \<noteq> None}"
    using finite_dom_map_of [of "mb_objects (st_backend st)"] by (simp add: dom_def)
  have wf: "classes_wf (over_memory env)" and g: "guard st = Inr ()"
    using assms(4) Inr by (simp_all add: classes_wf_def over_memory_def)
  show ?thesis
  proof (rule over_mem.load_oid_total [OF fin assms(2,1,3) wf g assms(5), where oid = oid])
    fix a st'
    assume "load_oid (over_memory env) [] fresh oid st = Some (Inr (PEnt a), st')" "loaded_graph (over_memory env) [] oid a st st'"
      "session_ok st'" "homed (dict_get (mb_objects (st_backend st))) st'"
    then show ?thesis
      unfolding loaded_graph_def by auto
  next
    fix err st'
    assume "load_oid (over_memory env) [] fresh oid st = Some (Inl err, st')" and s: "same_maps st st'"
    then show ?thesis
      using same_maps_session [OF s assms(1,3)] by auto
  qed (use assms(1,3) in auto)
qed

text \<open>Two stored notes that refer to each other, and a session that has loaded neither.\<close>

definition pair_dec :: "bytes \<Rightarrow> pyval res" where
  "pair_dec b = Inr (if b = [1] then PList [PStr ''box'', PExt 1 [0, 0, 0, 0, 0, 0, 0, 11]]
     else PList [PStr ''leaf'', PExt 1 [0, 0, 0, 0, 0, 0, 0, 10]])"

definition pair_enc :: "pyval \<Rightarrow> bytes res" where
  "pair_enc v = (if v = PList [PStr ''box'', PExt 1 [0, 0, 0, 0, 0, 0, 0, 11]] then Inr [1]
     else if v = PList [PStr ''leaf'', PExt 1 [0, 0, 0, 0, 0, 0, 0, 10]] then Inr [2] else Inl MsgspecError)"

definition pair_env :: "(mem_backend, applier) senv" where
  "pair_env = desk_env\<lparr>se_enc := pair_enc, se_dec := pair_dec, se_types := [(''Note'', note_ti)]\<rparr>"

definition pair_mem :: mem_backend where
  "pair_mem = empty_mem\<lparr>mb_types := [(1, ''Note'', [''title'', ''next''])],
     mb_objects := [(10, \<lparr>sr_oid = 10, sr_cid = 1, sr_tid = 1, sr_payload = [1]\<rparr>), (11, \<lparr>sr_oid = 11, sr_cid = 1, sr_tid = 1, sr_payload = [2]\<rparr>)]\<rparr>"

definition pair_desk :: "(mem_backend, applier) store" where
  "pair_desk = (desk pair_mem)\<lparr>st_alloc := \<lparr>next_oid_of = 12, next_cid_of = 2, next_tid_of = 2\<rparr>, st_last_tid := 1,
     st_typename_by_cid := [(1, ''Note'')], st_persisted_fields := [(1, [''title'', ''next''])]\<rparr>"

definition pair_loaded :: "(pyval res \<times> (mem_backend, applier) store) option" where
  "pair_loaded = load_oid (over_memory pair_env) [] 20 10 pair_desk"

lemma pair_ok:
  "session_ok pair_desk" "mem_ok (st_backend pair_desk)" "homed (dict_get (mb_objects (st_backend pair_desk))) pair_desk"
  "classes_wf pair_env" "dict_get (st_heap pair_desk) a = None"
proof -
  show "session_ok pair_desk" "mem_ok (st_backend pair_desk)" "homed (dict_get (mb_objects (st_backend pair_desk))) pair_desk"
    "dict_get (st_heap pair_desk) a = None"
    by (auto simp: pair_desk_def desk_def session_ok_def ids_ok_def states_ok_def bufs_wf_def names_ok_def dict_wf_def mem_ok_def
        pair_mem_def empty_mem_def homed_def split: if_splits)
  show "classes_wf pair_env"
    by (simp add: classes_wf_def pair_env_def typeinfo_wf_def note_ti_def spec_wf_def plain_spec_def)
qed

theorem load_ends_witness:
  "\<exists>st'. pair_loaded = Some (Inr (PEnt 20), st') \<and> session_ok st' \<and> dict_get (st_registry st') 10 = Some 20"
proof -
  have "map_option fst pair_loaded = Some (Inr (PEnt 20))"
    by code_simp
  then obtain st' where l: "pair_loaded = Some (Inr (PEnt 20), st')"
    by auto
  then show ?thesis
    using load_ends [OF pair_ok(1-4), of 20 10] pair_ok(5) unfolding pair_loaded_def [symmetric] l by auto
qed

section \<open>What comes back\<close>

lemma swizzled_loadable:
  "swizzle tf oid_for v = Inr w \<Longrightarrow> loadable (decoded oid_for v)"
  "swizzle_items tf oid_for d = Inr e \<Longrightarrow> loadable_items (decoded_items oid_for d)"
proof (induction tf oid_for v and tf oid_for d arbitrary: w and e rule: swizzle_swizzle_items.induct)
  case (9 tf oid_for xs)
  have "\<forall>x \<in> set xs. \<exists>y. swizzle tf oid_for x = Inr y" if "map_res (swizzle tf oid_for) xs = Inr ys" for ys
    using that by (induction xs arbitrary: ys) (auto split: sum.splits)
  then show ?case
    using 9 by (auto simp: bind_res_Inr)
next
  case (10 tf oid_for xs)
  have "\<forall>x \<in> set xs. \<exists>y. swizzle tf oid_for x = Inr y" if "map_res (swizzle tf oid_for) xs = Inr ys" for ys
    using that by (induction xs arbitrary: ys) (auto split: sum.splits)
  then show ?case
    using 10 by (auto simp: bind_res_Inr)
qed (auto simp: bind_res_Inr lazy_ref_ext_def split: option.splits sum.splits)

lemma encoded_swizzled:
  "encode_values tf oid_for blobs sink i vs s = (Inr ws, s') \<Longrightarrow>
     \<forall>j < length vs. blobs (i + j) \<and> vs ! j \<noteq> PNone \<or> (\<exists>w. swizzle tf oid_for (vs ! j) = Inr w)"
proof (induction tf oid_for blobs sink i vs s arbitrary: ws s' rule: encode_values.induct)
  case (2 tf oid_for blobs sink i v vs s)
  show ?case
  proof (intro allI impI)
    fix j
    assume j: "j < length (v # vs)"
    show "blobs (i + j) \<and> (v # vs) ! j \<noteq> PNone \<or> (\<exists>w. swizzle tf oid_for ((v # vs) ! j) = Inr w)"
    proof (cases j)
      case 0
      then show ?thesis
        using 2(2) by (auto split: if_splits prod.splits sum.splits)
    next
      case (Suc k)
      obtain w s1 ws1 s2 where "(if blobs i \<and> v \<noteq> PNone then encode_blob_value sink v s else (swizzle tf oid_for v, s)) = (Inr w, s1)"
          "encode_values tf oid_for blobs sink (Suc i) vs s1 = (Inr ws1, s2)"
        using 2(2) by (auto split: prod.splits sum.splits)
      from 2(1) [OF this(1) [symmetric] refl this(2)] show ?thesis
        using j Suc by auto
    qed
  qed
qed simp

lemma stored_field_loadable:
  assumes "stored_field oid_for blobs sink i v u" and "blobs i \<and> v \<noteq> PNone \<or> (\<exists>w. swizzle tf oid_for v = Inr w)"
  shows "loadable u"
proof (cases "blobs i \<and> v \<noteq> PNone")
  case True
  then show ?thesis
    using assms(1) by (auto simp: stored_field_def split: pyval.splits)
next
  case False
  then show ?thesis
    using assms swizzled_loadable(1) by (auto simp: stored_field_def)
qed

lemma position_of_nth:
  assumes "distinct names" and "i < length names"
  shows "position_of names (names ! i) = Some i"
proof -
  have "distinct (map fst (rev (zip names [0..<length names])))"
    using assms(1) by (simp add: rev_map [symmetric])
  moreover have "(names ! i, i) \<in> set (rev (zip names [0..<length names]))"
    using assms(2) by (auto simp: set_zip)
  ultimately show ?thesis
    by (simp add: position_of_def)
qed

lemma hydration_plan_member:
  assumes "hydration_plan ti persisted = Inr hplan" and "spec \<in> set (ti_specs ti)"
  shows "\<exists>src. plan_source ti persisted spec = Inr src \<and> (spec, src) \<in> set hplan"
proof -
  have "spec \<in> set specs \<Longrightarrow> map_res (\<lambda>spec. bind_res (f spec) (\<lambda>src. Inr (spec, src))) specs = Inr hp \<Longrightarrow>
      \<exists>src. f spec = Inr src \<and> (spec, src) \<in> set hp" for f specs hp
    by (induction specs arbitrary: hp) (auto simp: bind_res_Inr split: sum.splits)
  then show ?thesis
    using assms unfolding hydration_plan_def by blast
qed

lemma loaded_field:
  assumes e: "loaded_entity env cache st h e" and oid: "en_oid e = Some oid" and rec: "fetch_record env cache oid st = Inr rec"
    and wf: "typeinfo_wf (en_ti e)" and shape: "shape_of st (sr_cid rec) = ti_field_names (en_ti e)"
    and us: "decode_fields env (sr_payload rec) = Inr us" and i: "i < length us" and l: "loadable (us ! i)"
  shows "tokens h (en_field e (ti_field_names (en_ti e) ! i)) = us ! i"
proof -
  let ?names = "ti_field_names (en_ti e)"
  have d: "distinct ?names" "map fs_name (ti_specs (en_ti e)) = ?names"
    using wf by (simp_all add: typeinfo_wf_def)
  obtain hplan where p: "hydration_plan (en_ti e) ?names = Inr hplan" "length us = length ?names"
      "\<forall>x \<in> set hplan. field_ok h e (zip ?names us) us x"
    using e oid rec shape us by (auto simp: loaded_entity_def)
  have j: "i < length (ti_specs (en_ti e))"
    using i p(2) d(2) by (metis length_map)
  let ?spec = "ti_specs (en_ti e) ! i"
  have name: "fs_name ?spec = ?names ! i"
    using d(2) j by (metis nth_map)
  have "position_of ?names (fs_name ?spec) = Some i"
    using position_of_nth [OF d(1)] i p(2) name by simp
  then have "plan_source (en_ti e) ?names ?spec = Inr (FromRecord i)"
    by (simp add: plan_source_def)
  then have "(?spec, FromRecord i) \<in> set hplan"
    using hydration_plan_member [OF p(1), of ?spec] j by auto
  then have "field_ok h e (zip ?names us) us (?spec, FromRecord i)"
    using p(3) by blast
  then show ?thesis
    using i l name by (simp add: field_ok_def source_value_def nth_res_def restored_def)
qed

text \<open>
  C9: what was stored is what is loaded. A record that was encoded from the values of an entity and is
  loaded in another session becomes an instance of the class of its type id, each of whose fields
  holds the stored value: references denote the instances that bear the stored OIDs (or handles on
  them), blobs are handles with the stored descriptor, containers hold the same items.
\<close>

theorem stored_then_loaded:
  assumes "text_ok (se_forms env)" and "\<forall>w bs. wire_native w \<longrightarrow> se_enc env w = Inr bs \<longrightarrow> se_dec env bs = Inr w"
    and "encode_payload (se_enc env) (se_forms env) oid_for blobs sink vs s = (Inr (sr_payload rec), s')"
    and "\<forall>i < length vs. blobs i \<and> vs ! i \<noteq> PNone \<or> persistable (vs ! i)"
    and "session_ok st" and "mem_ok (st_backend st)" and "homed (dict_get (mb_objects (st_backend st))) st" and "classes_wf env"
    and "\<And>b e. dict_get (st_heap st) b = Some e \<Longrightarrow> b < fresh"
    and "dict_get (mb_objects (st_backend st)) oid = Some rec" and "dict_get (st_registry st) oid = None"
    and "ti_for_cid env (sr_cid rec) st = Inr ti" and "shape_of st (sr_cid rec) = ti_field_names ti"
    and "load_oid (over_memory env) [] fresh oid st = Some (Inr (PEnt a), st')"
  shows "\<exists>e. dict_get (st_heap st') a = Some e \<and> en_oid e = Some oid \<and> en_ti e = ti \<and>
    (\<forall>i < length vs. stored_field oid_for blobs sink i (vs ! i) (tokens (st_heap st') (en_field e (ti_field_names ti ! i))))"
proof -
  let ?e = "over_memory env"
  have same: "se_dec ?e = se_dec env" "se_forms ?e = se_forms env" "se_types ?e = se_types env"
    by (simp_all add: over_memory_def)
  have cls: "ti_for_cid ?e cid x = ti_for_cid env cid x" for cid x
    unfolding ti_for_cid_def same ..
  obtain us where dec: "decode_payload (se_dec env) (se_forms env) (sr_payload rec) = Inr (PList us)" and len: "length us = length vs"
    and st: "\<forall>i < length vs. stored_field oid_for blobs sink i (vs ! i) (us ! i)"
    using payload_round [OF assms(1-4)] by blast
  have us: "decode_fields ?e (sr_payload rec) = Inr us"
    using dec by (simp add: decode_fields_def same as_list_def)
  have fin: "finite {oid. dict_get (mb_objects (st_backend st)) oid \<noteq> None}"
    using finite_dom_map_of [of "mb_objects (st_backend st)"] by (simp add: dom_def)
  have wf: "classes_wf ?e" and open_st: "guard st = Inr ()"
    using assms(8,14) by (auto simp: classes_wf_def over_memory_def load_oid_def split: sum.splits)
  show ?thesis
  proof (rule over_mem.load_oid_total [OF fin assms(6,5,7) wf open_st assms(9), where oid = oid])
    fix b st1
    assume "load_oid ?e [] fresh oid st = Some (Inr (PEnt b), st1)" and g: "loaded_graph ?e [] oid b st st1"
    then have eq: "b = a" "st1 = st'"
      using assms(14) by simp_all
    have reg: "dict_get (st_registry st') oid = Some a" and new: "dict_get (st_heap st) a = None"
      using g assms(11) unfolding loaded_graph_def eq by blast+
    obtain e where e: "dict_get (st_heap st') a = Some e" "en_oid e = Some oid"
      using g reg unfolding loaded_graph_def eq by blast
    have l: "loaded_entity ?e [] st (st_heap st') e"
      using g e(1) new unfolding loaded_graph_def eq by blast
    have rec: "fetch_record ?e [] oid st = Inr rec"
      using over_mem.fetch_stored [OF assms(6)] assms(10) by simp
    then have ti: "en_ti e = ti"
      using l e(2) assms(12) by (auto simp: loaded_entity_def cls)
    have "typeinfo_wf ti"
      using ti_for_cid_wf [OF assms(12,8)] .
    have "stored_field oid_for blobs sink i (vs ! i) (tokens (st_heap st') (en_field e (ti_field_names ti ! i)))" if i: "i < length vs" for i
    proof -
      obtain ws s1 where "encode_values (se_forms env) oid_for blobs sink 0 vs s = (Inr ws, s1)"
        using assms(3) by (auto simp: encode_payload_def split: prod.splits sum.splits)
      then have "loadable (us ! i)"
        using encoded_swizzled stored_field_loadable st i by fastforce
      then have "tokens (st_heap st') (en_field e (ti_field_names (en_ti e) ! i)) = us ! i"
        using loaded_field [OF l e(2) rec _ _ us] \<open>typeinfo_wf ti\<close> assms(13) ti i len by simp
      then show ?thesis
        using st i ti by simp
    qed
    then show ?thesis
      using e ti by blast
  qed (use assms(11,14) in auto)
qed

theorem stored_then_loaded_witness:
  "\<exists>st' e. pair_loaded = Some (Inr (PEnt 20), st') \<and> dict_get (st_heap st') 20 = Some e \<and>
     tokens (st_heap st') (en_field e ''title'') = PStr ''box'' \<and> tokens (st_heap st') (en_field e ''next'') = PRef 11"
proof -
  let ?vs = "[PStr ''box'', PEnt 2]" and ?oid_for = "\<lambda>a::nat. (Inr 11 :: nat res)" and ?sink = "\<lambda>v s. (Inl PyTypeError :: (nat \<times> nat \<times> bytes) res, s :: nat)"
  let ?rec = "\<lparr>sr_oid = 10, sr_cid = 1, sr_tid = 1, sr_payload = [1]\<rparr> :: stored_record"
  have "map_option fst pair_loaded = Some (Inr (PEnt 20))"
    by code_simp
  then obtain st' where l: "load_oid (over_memory pair_env) [] 20 10 pair_desk = Some (Inr (PEnt 20), st')"
    by (auto simp: pair_loaded_def)
  have forms: "text_ok (se_forms pair_env)"
    using plain_forms_ok by (simp add: pair_env_def desk_env_def with_appliers_def)
  have codec: "\<forall>w bs. wire_native w \<longrightarrow> se_enc pair_env w = Inr bs \<longrightarrow> se_dec pair_env bs = Inr w"
    by (auto simp: pair_env_def pair_enc_def pair_dec_def split: if_splits)
  have "be_bytes 8 11 = [0, 0, 0, 0, 0, 0, 0, 11]"
    by code_simp
  then have enc: "encode_payload (se_enc pair_env) (se_forms pair_env) ?oid_for (\<lambda>i. False) ?sink ?vs 0 = (Inr (sr_payload ?rec), 0)"
    by (simp add: encode_payload_def ref_ext_def pack_q_def ext_codes pair_env_def pair_enc_def desk_env_def with_appliers_def)
  have vs: "\<forall>i < length ?vs. False \<and> ?vs ! i \<noteq> PNone \<or> persistable (?vs ! i)"
    by (simp add: less_Suc_eq)
  have st: "dict_get (mb_objects (st_backend pair_desk)) 10 = Some ?rec" "dict_get (st_registry pair_desk) 10 = None"
      "ti_for_cid pair_env (sr_cid ?rec) pair_desk = Inr note_ti" "shape_of pair_desk (sr_cid ?rec) = ti_field_names note_ti"
    by (simp_all add: pair_desk_def desk_def pair_mem_def ti_for_cid_def pair_env_def shape_of_def note_ti_def dict_getd_def)
  obtain e where e: "dict_get (st_heap st') 20 = Some e"
      "\<forall>i < length ?vs. stored_field ?oid_for (\<lambda>i. False) ?sink i (?vs ! i) (tokens (st_heap st') (en_field e (ti_field_names note_ti ! i)))"
    using stored_then_loaded [OF forms codec enc vs pair_ok(1-4) _ st l] pair_ok(5) by auto
  from e(2)[rule_format, of 0] e(2)[rule_format, of 1] show ?thesis
    using e(1) l by (simp add: stored_field_def note_ti_def pair_loaded_def)
qed

section \<open>The read fences\<close>

text \<open>Records, defaults and glue functions give data: no live instance and no handle.\<close>

definition data_sources :: "('s, 'c) senv \<Rightarrow> bool" where
  "data_sources env \<longleftrightarrow>
     (\<forall>payload us. decode_fields env payload = Inr us \<longrightarrow> (\<forall>u \<in> set us. loadable u)) \<and>
     (\<forall>name ti. dict_get (se_types env) name = Some ti \<longrightarrow>
        (\<forall>(n, v) \<in> set (ti_defaults ti). loadable v) \<and>
        (\<forall>spec \<in> set (ti_specs ti). \<forall>glue r v. fs_glue spec = Some glue \<longrightarrow> glue r = Inr v \<longrightarrow> loadable v))"

lemma legacy_fill_loadable: "legacy_fill name = Some v \<Longrightarrow> loadable v"
  by (auto simp: legacy_fill_def split: if_splits)

lemma source_loadable:
  assumes d: "data_sources env" and ti: "ti_for_cid env cid st = Inr ti" and spec: "spec \<in> set (ti_specs ti)"
    and src: "plan_source ti persisted spec = Inr src" and us: "decode_fields env payload = Inr us"
    and raw: "source_value by_name us src = Inr raw"
  shows "loadable raw"
proof -
  obtain name where ti: "dict_get (se_types env) name = Some ti"
    using ti by (auto simp: ti_for_cid_def split: option.splits)
  then have defaults: "\<And>n v. dict_get (ti_defaults ti) n = Some v \<Longrightarrow> loadable v"
    and glue: "\<And>g r v. fs_glue spec = Some g \<Longrightarrow> g r = Inr v \<Longrightarrow> loadable v"
    using d spec unfolding data_sources_def by (fastforce dest: map_of_SomeD)+
  have vals: "\<forall>u \<in> set us. loadable u"
    using d us unfolding data_sources_def by blast
  show ?thesis
    using src raw vals defaults glue legacy_fill_loadable
    by (auto simp: plan_source_def source_value_def nth_res_def split: option.splits if_splits)
qed

lemma hydration_plan_sound:
  assumes "hydration_plan ti persisted = Inr hplan" and "(spec, src) \<in> set hplan"
  shows "spec \<in> set (ti_specs ti) \<and> plan_source ti persisted spec = Inr src"
proof -
  have "map_res (\<lambda>spec. bind_res (f spec) (\<lambda>src. Inr (spec, src))) specs = Inr hp \<Longrightarrow> (spec, src) \<in> set hp \<Longrightarrow>
      spec \<in> set specs \<and> f spec = Inr src" for f specs hp
    by (induction specs arbitrary: hp) (auto simp: bind_res_Inr split: sum.splits)
  then show ?thesis
    using assms unfolding hydration_plan_def by blast
qed

lemma loaded_entity_open:
  assumes d: "data_sources env" and l: "loaded_entity env cache st h e" and spec: "spec \<in> set (ti_specs (en_ti e))"
  shows "open_refs h (en_field e (fs_name spec))"
proof -
  obtain rec :: stored_record and hplan us where ti: "ti_for_cid env (sr_cid rec) st = Inr (en_ti e)"
    and hp: "hydration_plan (en_ti e) (shape_of st (sr_cid rec)) = Inr hplan" and us: "decode_fields env (sr_payload rec) = Inr us"
    and ok: "\<forall>x \<in> set hplan. field_ok h e (zip (shape_of st (sr_cid rec)) us) us x"
    using l unfolding loaded_entity_def by blast
  obtain src where src: "plan_source (en_ti e) (shape_of st (sr_cid rec)) spec = Inr src" "(spec, src) \<in> set hplan"
    using hydration_plan_member [OF hp spec] by blast
  then obtain raw where raw: "source_value (zip (shape_of st (sr_cid rec)) us) us src = Inr raw" "restored h raw (en_field e (fs_name spec))"
    using ok by (fastforce simp: field_ok_def)
  show ?thesis
    using source_loadable [OF d ti spec src(1) us raw(1)] raw(2) by (simp add: restored_def)
qed

lemma data_sources_over [simp]: "data_sources (over_memory env) = data_sources env"
  by (simp add: data_sources_def decode_fields_def over_memory_def)

text \<open>
  C29: a shared parent never holds a protected instance. Whatever is loaded, and by whom, no field of
  an entity the load created holds, directly or inside containers and handles, an instance of a
  protected class: such a target is a handle to be dereferenced, and checked, by each reader.
\<close>

theorem no_shared_protected:
  assumes "session_ok st" and "mem_ok (st_backend st)" and "homed (dict_get (mb_objects (st_backend st))) st" and "classes_wf env"
    and "\<And>a e. dict_get (st_heap st) a = Some e \<Longrightarrow> a < fresh" and "data_sources env"
    and "load_oid (over_memory env) [] fresh oid st = Some (Inr v, st')"
    and "dict_get (st_heap st') b = Some e" and "dict_get (st_heap st) b = None" and "spec \<in> set (ti_specs (en_ti e))"
    and "c \<in> reached (en_field e (fs_name spec))"
  shows "\<exists>f. dict_get (st_heap st') c = Some f \<and> \<not> ti_protected (en_ti f)"
proof -
  let ?e = "over_memory env"
  have fin: "finite {oid. dict_get (mb_objects (st_backend st)) oid \<noteq> None}"
    using finite_dom_map_of [of "mb_objects (st_backend st)"] by (simp add: dom_def)
  have wf: "classes_wf ?e" and open_st: "guard st = Inr ()"
    using assms(4,7) by (auto simp: classes_wf_def over_memory_def load_oid_def split: sum.splits)
  show ?thesis
  proof (rule over_mem.load_oid_total [OF fin assms(2,1,3) wf open_st assms(5), where oid = oid])
    fix a st1
    assume "load_oid ?e [] fresh oid st = Some (Inr (PEnt a), st1)" and g: "loaded_graph ?e [] oid a st st1"
    then have "loaded_entity ?e [] st (st_heap st') e"
      using assms(7-9) by (auto simp: loaded_graph_def)
    then have "open_refs (st_heap st') (en_field e (fs_name spec))"
      using loaded_entity_open [of ?e] assms(6,10) by simp
    then show ?thesis
      using assms(11) by (auto simp: open_refs_def)
  qed (use assms(7-9) in \<open>auto simp: same_maps_def\<close>)
qed

text \<open>A session over two notes and two memos of owners 7 and 9 that both demand \<open>AGENT\<close> to read.\<close>

definition fence_dec :: "bytes \<Rightarrow> pyval res" where
  "fence_dec b = Inr (if b = [1] then PList [PStr ''box'', PExt 1 [0, 0, 0, 0, 0, 0, 0, 11]]
     else PList [PStr ''leaf'', PNone, PInt (if b = [2] then 7 else 9), PList [], PInt 300, PInt 300])"

definition fence_env :: "(mem_backend, applier) senv" where
  "fence_env = desk_env\<lparr>se_dec := fence_dec, se_types := [(''Note'', note_ti), (''Memo'', memo_ti)]\<rparr>"

definition fence_mem :: mem_backend where
  "fence_mem = empty_mem\<lparr>mb_types := [(1, ''Note'', ti_field_names note_ti), (2, ''Memo'', ti_field_names memo_ti)],
     mb_objects := [(10, \<lparr>sr_oid = 10, sr_cid = 1, sr_tid = 1, sr_payload = [1]\<rparr>), (11, \<lparr>sr_oid = 11, sr_cid = 2, sr_tid = 1, sr_payload = [2]\<rparr>),
       (12, \<lparr>sr_oid = 12, sr_cid = 2, sr_tid = 1, sr_payload = [3]\<rparr>)]\<rparr>"

definition fence_desk :: "(mem_backend, applier) store" where
  "fence_desk = (desk fence_mem)\<lparr>st_alloc := \<lparr>next_oid_of = 13, next_cid_of = 3, next_tid_of = 2\<rparr>, st_last_tid := 1,
     st_typename_by_cid := [(1, ''Note''), (2, ''Memo'')],
     st_persisted_fields := [(1, ti_field_names note_ti), (2, ti_field_names memo_ti)], st_principal := clerk\<rparr>"

lemma fence_ok:
  "session_ok fence_desk" "mem_ok (st_backend fence_desk)" "homed (dict_get (mb_objects (st_backend fence_desk))) fence_desk"
  "classes_wf fence_env" "dict_get (st_heap fence_desk) a = None" "\<not> is_root (acting fence_desk)"
proof -
  show "session_ok fence_desk" "mem_ok (st_backend fence_desk)" "homed (dict_get (mb_objects (st_backend fence_desk))) fence_desk"
    "dict_get (st_heap fence_desk) a = None"
    by (auto simp: fence_desk_def desk_def session_ok_def ids_ok_def states_ok_def bufs_wf_def names_ok_def dict_wf_def mem_ok_def
        fence_mem_def empty_mem_def homed_def split: if_splits)
  show "classes_wf fence_env"
    by (simp add: classes_wf_def fence_env_def typeinfo_wf_def note_ti_def memo_ti_def spec_wf_def plain_spec_def PERM_FIELDS_def)
  show "\<not> is_root (acting fence_desk)"
    by code_simp
qed

lemma fence_data: "data_sources fence_env"
proof -
  have hook: "ext_hook plain_forms 1 [0, 0, 0, 0, 0, 0, 0, 11] = Inr (PRef 11)"
    by code_simp
  have "decode_fields fence_env b = Inr us \<Longrightarrow> \<forall>u \<in> set us. loadable u" for b us
    by (auto simp: decode_fields_def decode_payload_def fence_env_def desk_env_def with_appliers_def fence_dec_def as_list_def hook split: if_splits)
  then show ?thesis
    by (auto simp: data_sources_def fence_env_def note_ti_def memo_ti_def plain_spec_def PERM_FIELDS_def)
qed

theorem no_shared_protected_witness:
  "\<exists>st' e. load_oid (over_memory fence_env) [] 20 10 fence_desk = Some (Inr (PEnt 20), st') \<and> dict_get (st_heap st') 20 = Some e \<and>
     en_field e ''next'' = PLazy 21 (Some 11) None \<and>
     (\<forall>c \<in> reached (en_field e ''next''). \<exists>f. dict_get (st_heap st') c = Some f \<and> \<not> ti_protected (en_ti f))"
proof -
  let ?l = "load_oid (over_memory fence_env) [] 20 10 fence_desk"
  have "map_option (\<lambda>(r, st'). (r, map_option (\<lambda>e. (en_field e ''next'', fs_name (ti_specs (en_ti e) ! 1), length (ti_specs (en_ti e)))) (dict_get (st_heap st') 20))) ?l =
      Some (Inr (PEnt 20), Some (PLazy 21 (Some 11) None, ''next'', 2))"
    by code_simp
  then obtain st' e where l: "?l = Some (Inr (PEnt 20), st')" and e: "dict_get (st_heap st') 20 = Some e"
      "en_field e ''next'' = PLazy 21 (Some 11) None" "fs_name (ti_specs (en_ti e) ! 1) = ''next''" "length (ti_specs (en_ti e)) = 2"
    by auto
  have "ti_specs (en_ti e) ! 1 \<in> set (ti_specs (en_ti e))"
    using e(4) by simp
  then show ?thesis
    using no_shared_protected [OF fence_ok(1-4) _ fence_data l e(1) fence_ok(5) _] fence_ok(5) l e(1-3) by fastforce
qed

lemma make_twinE:
  assumes "make_twin ti fresh st = (r, st')"
  shows "r = Inr (PEnt fresh) \<and> (\<exists>e. dict_get (st_heap st') fresh = Some e \<and> en_twin e \<and> en_vals e = [] \<and> en_oid e = None)"
  using assms by (auto simp: make_twin_def put_entity_def)

lemma index_labels_store:
  assumes "index_labels env ti oid st = (r, st')"
  shows "\<exists>im. st' = st\<lparr>st_index := im\<rparr>"
proof (cases "im_ensure (index_env env st) ti (st_index st)")
  case (Inl err)
  then show ?thesis
    using assms by (intro exI [of _ "st_index st"]) (simp add: index_labels_def)
next
  case (Inr x)
  then show ?thesis
    using assms by (auto simp: index_labels_def split: sum.splits prod.splits)
qed

text \<open>The labels of the stored record let the principal in.\<close>

definition record_readable :: "('s, 'c) senv \<Rightarrow> stored_record \<Rightarrow> ('s, 'c) store \<Rightarrow> bool" where
  "record_readable env rec st \<longleftrightarrow>
     (\<exists>l. prior_labels (decode_fields env) (st_persisted_fields st) rec = Inr l \<and> can_read_row (acting st) (lb_owner l) (lb_groups l) (lb_read l))"

lemma twin_if_unreadableE:
  assumes "twin_if_unreadable env fresh rec st = (Inr r, st')" and "\<not> is_root (acting st)"
  obtains (twin) e where "r = Some (PEnt fresh)" "dict_get (st_heap st') fresh = Some e" "en_twin e" "en_vals e = []" "en_oid e = None"
    | (granted) ti where "r = None" "st' = st" "ti_for_cid env (sr_cid rec) st = Inr ti" "ti_protected ti \<longrightarrow> record_readable env rec st"
proof -
  obtain ti where ti: "ti_for_cid env (sr_cid rec) st = Inr ti"
    using assms(1) by (cases "ti_for_cid env (sr_cid rec) st") (simp_all add: twin_if_unreadable_def)
  show ?thesis
  proof (cases "ti_protected ti")
    case False
    have "r = None" and "st' = st"
      using assms(1) ti False by (simp_all add: twin_if_unreadable_def)
    then show ?thesis
      using granted ti False by simp
  next
    case True
    then obtain l where l: "prior_labels (decode_fields env) (st_persisted_fields st) rec = Inr l"
      using assms ti by (cases "prior_labels (decode_fields env) (st_persisted_fields st) rec") (simp_all add: twin_if_unreadable_def)
    show ?thesis
    proof (cases "can_read_row (acting st) (lb_owner l) (lb_groups l) (lb_read l)")
      case True
      then have "r = None" and "st' = st"
        using assms ti l \<open>ti_protected ti\<close> by (simp_all add: twin_if_unreadable_def)
      moreover have "record_readable env rec st"
        using l True by (simp add: record_readable_def)
      ultimately show ?thesis
        using granted ti by simp
    next
      case False
      then have m: "bind_act (make_twin ti fresh) (\<lambda>v. return_act (Some v)) st = (Inr r, st')"
        using assms ti l \<open>ti_protected ti\<close> by (simp add: twin_if_unreadable_def)
      show ?thesis
        by (rule twin) (use m in \<open>auto simp: make_twin_def bind_act_def return_act_def put_entity_def\<close>)
    qed
  qed
qed

definition classed :: "('s, 'c) senv \<Rightarrow> (nat \<Rightarrow> stored_record option) \<Rightarrow> ('s, 'c) store \<Rightarrow> bool" where
  "classed env look st \<longleftrightarrow>
     (\<forall>a e oid rec. dict_get (st_heap st) a = Some e \<longrightarrow> en_oid e = Some oid \<longrightarrow> look oid = Some rec \<longrightarrow>
        ti_for_cid env (sr_cid rec) st = Inr (en_ti e))"

text \<open>What a principal was given: an empty twin, or an instance whose committed labels let it in.\<close>

definition fenced :: "(mem_backend, 'c) senv \<Rightarrow> nat \<Rightarrow> nat \<Rightarrow> entity \<Rightarrow> (mem_backend, 'c) store \<Rightarrow> bool" where
  "fenced env oid a e st \<longleftrightarrow>
     en_twin e \<and> en_vals e = [] \<and> en_oid e = None \<or>
     dict_get (st_registry st) oid = Some a \<and> (\<exists>l st1. index_labels env (en_ti e) oid st = (Inr l, st1) \<and> row_readable (acting st) l) \<or>
     (\<exists>rec. dict_get (mb_objects (st_backend st)) oid = Some rec \<and> record_readable env rec st)"

lemma ti_for_cid_over [simp]: "ti_for_cid (over_memory env) cid st = ti_for_cid env cid st"
proof -
  have "se_types (over_memory env) = se_types env"
    by (simp add: over_memory_def)
  then show ?thesis
    unfolding ti_for_cid_def by (rule arg_cong)
qed

lemma load_checked_fenced:
  assumes names: "names_ok st" and mem: "mem_ok (st_backend st)" and wf: "classes_wf env" and fresh: "\<And>a e. dict_get (st_heap st) a = Some e \<Longrightarrow> a < fresh"
    and cl: "classed env (dict_get (mb_objects (st_backend st))) st" and nr: "\<not> is_root (acting st)"
    and l: "load_checked_record (over_memory env) None fresh oid st = Some (Inr (PEnt a), st')"
    and e: "dict_get (st_heap st') a = Some e" "ti_protected (en_ti e)"
  shows "en_twin e \<and> en_vals e = [] \<and> en_oid e = None \<or>
    (\<exists>rec. dict_get (mb_objects (st_backend st)) oid = Some rec \<and> record_readable (over_memory env) rec st)"
proof -
  let ?e = "over_memory env" and ?look = "dict_get (mb_objects (st_backend st))"
  have wf': "classes_wf ?e" and cl': "classed ?e ?look st"
    using wf cl by (simp_all add: classed_def) (simp add: classes_wf_def over_memory_def)
  obtain rec where f: "fetch_record ?e [] oid st = Inr rec"
    using l by (auto simp: load_checked_record_def split: sum.splits)
  have look: "?look oid = Some rec"
    using f over_mem.fetch_stored [OF mem, where oid = oid] by (auto split: option.splits)
  obtain t st1 where t: "twin_if_unreadable ?e fresh rec st = (Inr t, st1)"
    using l f by (auto simp: load_checked_record_def split: sum.splits prod.splits)
  from t nr show ?thesis
  proof (cases rule: twin_if_unreadableE)
    case (twin e1)
    then have "a = fresh" "st' = st1"
      using l f t by (simp_all add: load_checked_record_def)
    then show ?thesis
      using twin e(1) by simp
  next
    case (granted ti)
    have "fetch_record ?e [(oid, rec)] k st = fetch_record ?e [] k st" for k
      using f by (auto simp: fetch_record_def)
    then have k: "known ?e [(oid, rec)] st = {oid. ?look oid \<noteq> None}"
      using over_mem.known_stored [OF mem] by (simp add: known_def)
    have fin: "finite (known ?e [(oid, rec)] st)"
      using finite_dom_map_of [of "mb_objects (st_backend st)"] by (simp add: k dom_def)
    have m: "materialize_graph ?e [(oid, rec)] fresh oid st = Some (Inr (PEnt a), st')"
      using l f t granted by (simp add: load_checked_record_def)
    have g: "loaded_graph ?e [(oid, rec)] oid a st st'"
      by (rule materialize_total [OF fin names wf' fresh, where oid = oid]) (use m in auto)
    then have oid: "en_oid e = Some oid"
      using e(1) by (fastforce simp: loaded_graph_def)
    have "en_ti e = ti"
    proof (cases "dict_get (st_heap st) a")
      case None
      then have "loaded_entity ?e [(oid, rec)] st (st_heap st') e"
        using g e(1) unfolding loaded_graph_def by blast
      then show ?thesis
        using oid granted(3) by (auto simp: loaded_entity_def fetch_record_def)
    next
      case (Some e0)
      then have "e0 = e"
        using g e(1) unfolding loaded_graph_def by fastforce
      then show ?thesis
        using cl' Some oid look granted(3) unfolding classed_def by fastforce
    qed
    then show ?thesis
      using granted(4) e(2) look by blast
  qed
qed

text \<open>
  C4: the dereference is fenced. When a principal other than root dereferences an OID and gets an
  instance of a protected class, then either it is a redacted twin, an instance without values and
  without identity, or the committed labels of the row, those of the label index for a live instance
  or those of the stored record, let the principal read it.
\<close>

theorem deref_fence:
  assumes "session_ok st" and "mem_ok (st_backend st)" and "classes_wf env" and "classed env (dict_get (mb_objects (st_backend st))) st"
    and "\<And>a e. dict_get (st_heap st) a = Some e \<Longrightarrow> a < fresh" and "\<not> is_root (acting st)"
    and "load_oid_deref (over_memory env) None fresh oid st = Some (Inr (PEnt a), st')"
    and "dict_get (st_heap st') a = Some e" and "ti_protected (en_ti e)"
  shows "fenced (over_memory env) oid a e st"
proof -
  let ?e = "over_memory env"
  have names: "names_ok st" and open_st: "guard st = Inr ()"
    using assms(1,7) by (auto simp: session_ok_def load_oid_deref_def split: sum.splits)
  show ?thesis
  proof (cases "dict_get (st_registry st) oid")
    case None
    then have "load_checked_record ?e None fresh oid st = Some (Inr (PEnt a), st')"
      using assms(7) open_st by (simp add: load_oid_deref_def)
    from load_checked_fenced [OF names assms(2,3) _ assms(4,6) this assms(8,9)] show ?thesis
      unfolding fenced_def using assms(5) by blast
  next
    case (Some c)
    obtain x st1 where x: "check_registered ?e fresh c oid st = (Inr x, st1)"
      using assms(7) open_st Some by (auto simp: load_oid_deref_def split: sum.splits prod.splits)
    obtain f where f: "dict_get (st_heap st) c = Some f"
      using x by (auto simp: check_registered_def split: option.splits)
    consider (plain) "x = Some (PEnt c)" "st1 = st" "\<not> ti_protected (en_ti f)"
      | (labels) l st2 where "index_labels ?e (en_ti f) oid st = (Inr l, st2)"
          "(case l of None \<Rightarrow> x = None \<and> st1 = st2
             | Some y \<Rightarrow> if row_readable (acting st2) l then x = Some (PEnt c) \<and> st1 = st2
                 else make_twin (en_ti f) fresh st2 = (Inr (the x), st1) \<and> x \<noteq> None)"
      using x f assms(6) by (force simp: check_registered_def bind_act_def return_act_def make_twin_def split: if_splits prod.splits sum.splits option.splits)
    then show ?thesis
    proof cases
      case plain
      then show ?thesis
        using assms(7-9) open_st Some x f by (simp add: load_oid_deref_def)
    next
      case labels
      obtain im where st2: "st2 = st\<lparr>st_index := im\<rparr>"
        using index_labels_store [OF labels(1)] by blast
      have same: "acting st2 = acting st" "st_backend st2 = st_backend st" "names_ok st2" "st_heap st2 = st_heap st"
          "classed env (dict_get (mb_objects (st_backend st2))) st2" "record_readable ?e rec st2 = record_readable ?e rec st" for rec
        using names assms(4) by (simp_all add: st2 acting_def names_ok_def classed_def record_readable_def ti_for_cid_def)
      show ?thesis
      proof (cases l)
        case None
        then have "load_checked_record ?e None fresh oid st2 = Some (Inr (PEnt a), st')"
          using labels(2) assms(7) open_st Some x by (simp add: load_oid_deref_def)
        from load_checked_fenced [OF same(3) _ assms(3) _ same(5) _ this assms(8,9)] show ?thesis
          unfolding fenced_def same using assms(2,5,6) by blast
      next
        case l: (Some y)
        show ?thesis
        proof (cases "row_readable (acting st) l")
          case True
          then have "a = c" "st' = st2"
            using l labels(2) assms(7) open_st Some x by (simp_all add: load_oid_deref_def same)
          then have "e = f"
            using assms(8) f same(4) by simp
          then show ?thesis
            using True labels(1) Some \<open>a = c\<close> by (auto simp: fenced_def)
        next
          case False
          then have "make_twin (en_ti f) fresh st2 = (Inr (PEnt a), st')"
            using l labels(2) assms(7) open_st Some x by (auto simp: load_oid_deref_def same)
          from make_twinE [OF this] show ?thesis
            using assms(8) by (auto simp: fenced_def)
        qed
      qed
    qed
  qed
qed

definition clerk_deref :: "nat \<Rightarrow> (pyval res \<times> (mem_backend, applier) store) option" where
  "clerk_deref oid = load_oid_deref (over_memory fence_env) None 20 oid fence_desk"

definition clerk_got :: "nat \<Rightarrow> (pyval res \<times> (bool \<times> bool) option) option" where
  "clerk_got oid = map_option (\<lambda>(r, st'). (r, map_option (\<lambda>e. (en_twin e, ti_protected (en_ti e))) (dict_get (st_heap st') 20))) (clerk_deref oid)"

lemma clerk_gotE:
  assumes "clerk_got oid = Some (Inr (PEnt 20), Some (t, p))"
  obtains st' e where "load_oid_deref (over_memory fence_env) None 20 oid fence_desk = Some (Inr (PEnt 20), st')"
    "dict_get (st_heap st') 20 = Some e" "en_twin e = t" "ti_protected (en_ti e) = p"
  using assms by (auto simp: clerk_got_def clerk_deref_def)

theorem deref_fence_witness:
  "(\<exists>st' e. clerk_deref 11 = Some (Inr (PEnt 20), st') \<and> dict_get (st_heap st') 20 = Some e \<and> \<not> en_twin e \<and>
      fenced (over_memory fence_env) 11 20 e fence_desk) \<and>
   (\<exists>st' e. clerk_deref 12 = Some (Inr (PEnt 20), st') \<and> dict_get (st_heap st') 20 = Some e \<and> en_twin e \<and>
      fenced (over_memory fence_env) 12 20 e fence_desk)"
proof -
  have cl: "classed fence_env (dict_get (mb_objects (st_backend fence_desk))) fence_desk"
    using fence_ok(5) by (simp add: classed_def)
  note fence = deref_fence [OF fence_ok(1,2,4) cl _ fence_ok(6)]
  have "clerk_got 11 = Some (Inr (PEnt 20), Some (False, True))" "clerk_got 12 = Some (Inr (PEnt 20), Some (True, True))"
    by code_simp+
  then show ?thesis
    unfolding clerk_deref_def by (auto elim!: clerk_gotE intro!: fence simp: fence_ok(5))
qed

end
