(* ===== verification/Query_Exact.thy ===== *)
theory Query_Exact
  imports Store_Surface Fetch_Claims
begin

text \<open>
  Why a query counts and projects the right rows: the planned candidates are rows of the table, the
  residual evaluates wherever the condition does, and a decode-level scan answers its rows in OID
  order, whatever the chunks.
\<close>

section \<open>Candidates are rows\<close>

definition bitmaps_within :: "class_indexes \<Rightarrow> nat set \<Rightarrow> bool" where
  "bitmaps_within ci D \<longleftrightarrow>
     (\<forall>f col k bm. dict_get (ci_eq ci) f = Some col \<longrightarrow> dict_get col k = Some bm \<longrightarrow> bm \<subseteq> D) \<and>
     (\<forall>f h k oid. dict_get (ci_unique ci) f = Some h \<longrightarrow> dict_get h k = Some oid \<longrightarrow> oid \<in> D)"

lemma rep_within:
  assumes "ci_rep ci tab" and "uniq_rep ci tab UNIV" and "dicts_wf ci"
  shows "bitmaps_within ci (dom tab)"
  unfolding bitmaps_within_def
proof (intro conjI allI impI)
  fix f col k bm
  assume "dict_get (ci_eq ci) f = Some col" "dict_get col k = Some bm"
  then have "bm = {oid. tab_has (ci_list_fields ci) tab oid f k}"
    using assms(1) unfolding ci_rep_def ci_core_def postings_rep_def
    by (metis col_of_def dict_getd_def option.case(2) option.distinct(1) posting_def)
  then show "bm \<subseteq> dom tab"
    by (auto simp: tab_has_def split: option.splits)
next
  fix f h k oid
  assume h: "dict_get (ci_unique ci) f = Some h" "dict_get h k = Some oid"
  have hold: "holder ci f k = Some oid"
    using h by (simp add: holder_def dict_getd_def)
  have "f \<in> set (dict_keys (ci_unique ci))"
    using h(1) by (force dest: map_of_SomeD)
  then have "uniq_key ci f k"
    using assms(3) hold by (auto simp: dicts_wf_def uniq_key_def)
  then have "tab_has (ci_list_fields ci) tab oid f k"
    using assms(2) hold unfolding uniq_rep_def by blast
  then show "oid \<in> dom tab"
    by (auto simp: tab_has_def split: option.splits)
qed

lemma fold_union_within:
  assumes "fold_res (\<lambda>x acc. bind_res (look x) (\<lambda>bm. Inr (acc \<union> bm))) xs acc = Inr out"
    and "\<And>x bm. look x = Inr bm \<Longrightarrow> bm \<subseteq> D" and "acc \<subseteq> D"
  shows "out \<subseteq> D"
  using assms(1,3)
proof (induction xs arbitrary: acc)
  case (Cons x xs)
  then obtain bm where "look x = Inr bm" "fold_res (\<lambda>x acc. bind_res (look x) (\<lambda>bm. Inr (acc \<union> bm))) xs (acc \<union> bm) = Inr out"
    by (auto simp: bind_res_Inr split: sum.splits)
  then show ?case
    using Cons.IH assms(2) Cons.prems(2) by blast
qed simp

lemma match_keys_within:
  assumes "match_keys op needle oids entries = Inr out" and "\<And>k x. (k, x) \<in> set entries \<Longrightarrow> oids x \<subseteq> D"
  shows "out \<subseteq> D"
proof -
  have "out' \<subseteq> D" if "fold_res (\<lambda>(k, x) acc. bind_res (matches_string_key op needle k) (\<lambda>b. Inr (if b then acc \<union> oids x else acc)))
      es acc = Inr out'" "set es \<subseteq> set entries" "acc \<subseteq> D" for es acc out'
    using that
  proof (induction es arbitrary: acc)
    case (Cons e es)
    obtain k x where e: "e = (k, x)"
      by fastforce
    obtain b where "fold_res (\<lambda>(k, x) acc. bind_res (matches_string_key op needle k) (\<lambda>b. Inr (if b then acc \<union> oids x else acc)))
        es (if b then acc \<union> oids x else acc) = Inr out'"
      using Cons.prems(1) by (auto simp: e bind_res_Inr split: sum.splits)
    moreover have "(if b then acc \<union> oids x else acc) \<subseteq> D"
      using Cons.prems(2,3) assms(2) e by auto
    ultimately show ?case
      using Cons.IH Cons.prems(2) by auto
  qed simp
  then show ?thesis
    using assms(1) unfolding match_keys_def by blast
qed

lemma range_slice_within:
  assumes "range_slice ci f op v = Inr out" and "bitmaps_within ci D"
  shows "out \<subseteq> D"
proof (cases "v = PNone")
  case True
  then show ?thesis
    using assms(1) by (simp add: range_slice_def)
next
  case False
  then obtain col ks where col: "dict_get (ci_eq ci) f = Some col"
    and fold: "fold_res (\<lambda>k acc. bind_res (get_posting col k) (\<lambda>bm. Inr (acc \<union> bm))) ks {} = Inr out"
    using assms(1) by (auto simp: range_slice_def bind_res_Inr split: option.splits)
  have "bm \<subseteq> D" if "get_posting col k = Inr bm" for k bm
    using that assms(2) col unfolding bitmaps_within_def get_posting_def by (auto split: option.splits)
  from fold_union_within [OF fold this] show ?thesis
    by simp
qed

lemma lookup_within:
  assumes "bitmaps_within ci D"
  shows "dict_get (ci_eq ci) f = Some col \<Longrightarrow> column_lookup col v = Inr bm \<Longrightarrow> bm \<subseteq> D"
    and "dict_get (ci_unique ci) f = Some h \<Longrightarrow> holder_lookup h v = Inr bm \<Longrightarrow> bm \<subseteq> D"
  using assms unfolding bitmaps_within_def
  by (fastforce simp: column_lookup_def holder_lookup_def bind_res_Inr dict_getd_def split: option.splits)+

lemma union_over_within:
  assumes "union_over look v = Inr out" and "\<And>x bm. look x = Inr bm \<Longrightarrow> bm \<subseteq> D"
  shows "out \<subseteq> D"
  using assms(1) fold_union_within [OF _ assms(2)] by (fastforce simp: union_over_def split: pyval.splits)

lemma plan_pred_within:
  assumes p: "plan_pred cls f op v ci = Inr (Some bm, r)" and w: "bitmaps_within ci D" and wf: "dicts_wf ci"
  shows "bm \<subseteq> D"
proof -
  have col: "x \<subseteq> D" if c: "dict_get (ci_eq ci) f = Some col" and q: "plan_eq_indexed cond f op v ci col = Inr (Some (Some x, r1))" for cond col x r1
  proof -
    have keys: "y \<subseteq> D" if "(k, y) \<in> set col" for k y
    proof -
      have "dict_wf col"
        using wf c unfolding dicts_wf_def by (metis col_of_Some)
      then show ?thesis
        using that w c unfolding bitmaps_within_def by (meson dict_wf_in_set)
    qed
    show ?thesis
      using q range_slice_within [OF _ w] lookup_within(1) [OF w c] union_over_within [of "column_lookup col" v _ D]
        match_keys_within [of op v "\<lambda>bm. bm" col _ D] keys
      by (auto simp: plan_eq_indexed_def plan_list_field_def bind_res_Inr split: if_splits) blast+
  qed
  have hold: "x \<subseteq> D" if c: "dict_get (ci_unique ci) f = Some h" and q: "plan_unique_only op v h = Inr (Some (Some x, r1))" for h x r1
  proof -
    have keys: "{y} \<subseteq> D" if "(k, y) \<in> set h" for k y
    proof -
      have "dict_wf h"
        using wf c unfolding dicts_wf_def by (metis dict_getd_def option.case(2))
      then show ?thesis
        using that w c unfolding bitmaps_within_def by (metis dict_wf_in_set empty_subsetI insert_subset)
    qed
    show ?thesis
      using q lookup_within(2) [OF w c] union_over_within [of "holder_lookup h" v _ D]
        match_keys_within [of op v "\<lambda>oid. {oid}" h _ D] keys
      by (auto simp: plan_unique_only_def bind_res_Inr split: if_splits)
  qed
  show ?thesis
    using p col hold by (fastforce simp: plan_pred_def Let_def bind_res_Inr split: option.splits)
qed

lemma plan_within_aux:
  shows "plan c ci = Inr (Some bm, r) \<Longrightarrow> bitmaps_within ci D \<Longrightarrow> dicts_wf ci \<Longrightarrow> bm \<subseteq> D"
    and "plan_all ps ci b0 rs = Inr (Some bm, rs') \<Longrightarrow> bitmaps_within ci D \<Longrightarrow> dicts_wf ci \<Longrightarrow>
      (case b0 of None \<Rightarrow> True | Some b \<Rightarrow> b \<subseteq> D) \<Longrightarrow> bm \<subseteq> D"
    and "plan_any ps ci acc = Inr (Some bm) \<Longrightarrow> bitmaps_within ci D \<Longrightarrow> dicts_wf ci \<Longrightarrow> acc \<subseteq> D \<Longrightarrow> bm \<subseteq> D"
proof (induction c ci and ps ci b0 rs and ps ci acc arbitrary: bm r and bm rs' and bm rule: plan_plan_all_plan_any.induct)
  case (1 cls f op v ci)
  then show ?case
    using plan_pred_within by simp
next
  case (2 ps ci)
  then show ?case
    by (auto simp: bind_res_Inr)
next
  case (3 ps ci)
  then show ?case
    by (fastforce simp: bind_res_Inr split: option.splits)
next
  case (6 p ps ci b0 rs)
  obtain sub r1 where s: "plan p ci = Inr (sub, r1)"
    "plan_all ps ci (meet_bitmaps b0 sub) (case r1 of None \<Rightarrow> rs | Some c \<Rightarrow> rs @ [c]) = Inr (Some bm, rs')"
    using 6(3) by (auto simp: bind_res_Inr)
  have "case meet_bitmaps b0 sub of None \<Rightarrow> True | Some b \<Rightarrow> b \<subseteq> D"
    using 6(1) [of "the sub" r1] s(1) 6(4-6) by (auto simp: meet_bitmaps_def split: option.splits)
  then show ?case
    using 6(2) [OF s(2) 6(4,5)] by simp
next
  case (8 p ps ci acc)
  obtain b where s: "plan p ci = Inr (Some b, None)" "plan_any ps ci (acc \<union> b) = Inr (Some bm)"
    using 8(3) by (auto simp: bind_res_Inr split: option.splits)
  have "acc \<union> b \<subseteq> D"
    using 8(1) [OF s(1)] 8(4-6) by blast
  then show ?case
    using 8(2) s(2) 8(4,5) by simp
qed auto

section \<open>The residual\<close>

text \<open>A property a conjunction has iff its parts have it passes from a condition to its residual.\<close>

lemma plan_residual_aux:
  assumes P: "\<And>ps. P (And ps) \<longleftrightarrow> (\<forall>q \<in> set ps. P q)"
  shows "plan c ci = Inr (bm, Some r) \<Longrightarrow> P c \<Longrightarrow> P r"
    and "plan_all ps ci b0 rs = Inr (bm, rs') \<Longrightarrow> (\<forall>q \<in> set ps. P q) \<Longrightarrow> (\<forall>q \<in> set rs. P q) \<Longrightarrow> (\<forall>q \<in> set rs'. P q)"
    and "plan_any ps ci acc = o1 \<Longrightarrow> True"
proof (induction c ci and ps ci b0 rs and ps ci acc arbitrary: bm r and bm rs' and o1 rule: plan_plan_all_plan_any.induct)
  case (1 cls f op v ci)
  then show ?case
    by (auto simp: plan_pred_def plan_eq_indexed_def plan_list_field_def plan_unique_only_def Let_def bind_res_Inr
        split: option.splits if_splits)
next
  case (2 ps ci)
  then obtain rs where "plan_all ps ci None [] = Inr (bm, rs)" "pack_residuals rs = Some r"
    by (auto simp: bind_res_Inr)
  moreover from this 2 have "\<forall>q \<in> set rs. P q"
    using P by simp
  ultimately show ?case
    using P by (auto simp: pack_residuals_def split: list.splits)
next
  case (3 ps ci)
  then show ?case
    by (auto simp: bind_res_Inr split: option.splits)
next
  case (6 p ps ci b0 rs)
  obtain sub r1 where s: "plan p ci = Inr (sub, r1)"
    "plan_all ps ci (meet_bitmaps b0 sub) (case r1 of None \<Rightarrow> rs | Some c \<Rightarrow> rs @ [c]) = Inr (bm, rs')"
    using 6(3) by (auto simp: bind_res_Inr)
  have "\<forall>q \<in> set (case r1 of None \<Rightarrow> rs | Some c \<Rightarrow> rs @ [c]). P q"
    using 6(1) [of sub "the r1"] s(1) 6(4,5) by (auto split: option.splits)
  then show ?case
    using 6(2) [OF s(2)] 6(4) by simp
qed auto

text \<open>Every predicate of the condition evaluates on the row: its field is there and of a comparable type.\<close>

fun defined_on :: "cond \<Rightarrow> row \<Rightarrow> bool" where
  "defined_on (Pred cls f op v) r = (\<exists>b. evaluate (Pred cls f op v) r = Inr b)"
| "defined_on (And ps) r = (\<forall>p \<in> set ps. defined_on p r)"
| "defined_on (Or ps) r = (\<forall>p \<in> set ps. defined_on p r)"
| "defined_on (Not p) r = defined_on p r"

lemma evaluate_lists:
  assumes "\<forall>p \<in> set ps. \<exists>b. evaluate p r = Inr b"
  shows "\<exists>b. evaluate_all ps r = Inr b" and "\<exists>b. evaluate_any ps r = Inr b"
  using assms by (induction ps) auto

lemma defined_evaluates: "defined_on c r \<Longrightarrow> \<exists>b. evaluate c r = Inr b"
proof (induction c)
  case (And ps)
  then show ?case
    using evaluate_lists(1) [of ps r] by auto
next
  case (Or ps)
  then show ?case
    using evaluate_lists(2) [of ps r] by auto
next
  case (Not p)
  then show ?case
    by auto
qed simp

text \<open>A condition without live references is its own raw form.\<close>

fun plain_cond :: "cond \<Rightarrow> bool" where
  "plain_cond (Pred cls f op v) =
     (if op = OpIn then (case v of PTuple vs \<Rightarrow> (\<forall>w \<in> set vs. reached w = {} \<and> (\<forall>i oid. w \<noteq> PLazy i oid None)) | _ \<Rightarrow> False)
      else reached v = {} \<and> (\<forall>i oid. v \<noteq> PLazy i oid None))"
| "plain_cond (And ps) = (\<forall>p \<in> set ps. plain_cond p)"
| "plain_cond (Or ps) = (\<forall>p \<in> set ps. plain_cond p)"
| "plain_cond (Not p) = plain_cond p"

lemma raw_value_plain: "reached v = {} \<Longrightarrow> \<forall>i oid. v \<noteq> PLazy i oid None \<Longrightarrow> raw_value f v = Inr v"
  by (auto simp: raw_value_def split: pyval.splits option.splits)

lemma raw_plain:
  shows "plain_cond c \<Longrightarrow> raw_condition f c = Inr c"
    and "\<forall>p \<in> set ps. plain_cond p \<Longrightarrow> raw_conditions f ps = Inr ps"
proof (induction f c and f ps rule: raw_condition_raw_conditions.induct)
  case (1 f cls g op v)
  have "map_res (raw_value f) vs = Inr vs" if "\<forall>w \<in> set vs. reached w = {} \<and> (\<forall>i oid. w \<noteq> PLazy i oid None)" for vs
    using map_res_total [of vs "raw_value f" "\<lambda>w. w"] that raw_value_plain by simp
  then show ?case
    using 1 raw_value_plain [of v f] by (auto split: pyval.splits if_splits)
qed simp_all

section \<open>Scans\<close>

lemma concat_chunked: "0 < n \<Longrightarrow> concat (chunked n xs) = xs"
proof (induction n xs rule: chunked.induct)
  case (1 n xs)
  then show ?case
    by (subst chunked.simps) simp
qed

lemma chunked_sub: "ch \<in> set (chunked n xs) \<Longrightarrow> set ch \<subseteq> set xs"
proof (induction n xs rule: chunked.induct)
  case (1 n xs)
  then show ?case
    using set_take_subset [of n xs] set_drop_subset [of n xs] by (subst (asm) (2) chunked.simps) (auto split: if_splits)
qed

lemma matching_rows_Inr:
  assumes load: "\<And>oids. \<exists>recs. se_load env oids (st_backend st) = Inr recs \<and> (\<forall>oid \<in> set oids. dict_get recs oid = look oid)"
    and rows: "\<And>oid. oid \<in> set oids \<Longrightarrow> \<exists>rec. look oid = Some rec \<and> raw_row env ti st rec = Inr (full oid)"
    and ev: "\<And>oid. oid \<in> set oids \<Longrightarrow> (case cnd of None \<Rightarrow> Inr True | Some c \<Rightarrow> evaluate c (full oid)) = Inr (hit oid)"
  shows "matching_rows env ti st cnd oids = Inr (map (\<lambda>oid. (oid, full oid)) (filter hit oids))"
proof -
  have chunk: "matching_chunk env ti st cnd ch = Inr (map (\<lambda>oid. (oid, full oid)) (filter hit ch))" if sub: "set ch \<subseteq> set oids" for ch
  proof -
    obtain recs where recs: "se_load env ch (st_backend st) = Inr recs" "\<forall>oid \<in> set ch. dict_get recs oid = look oid"
      using load by blast
    have "matching_row env ti st cnd recs oid = Inr (if hit oid then [(oid, full oid)] else [])" if oid: "oid \<in> set ch" for oid
    proof -
      obtain rec where "look oid = Some rec" "raw_row env ti st rec = Inr (full oid)"
        using rows [of oid] sub oid by blast
      then show ?thesis
        using ev [of oid] recs(2) sub oid by (auto simp: matching_row_def)
    qed
    then have "map_res (matching_row env ti st cnd recs) ch = Inr (map (\<lambda>oid. if hit oid then [(oid, full oid)] else []) ch)"
      by (rule map_res_total)
    moreover have "concat (map (\<lambda>oid. if hit oid then [(oid, full oid)] else []) ch) = map (\<lambda>oid. (oid, full oid)) (filter hit ch)"
      by (induction ch) auto
    ultimately show ?thesis
      using recs(1) by (simp add: matching_chunk_def)
  qed
  have "map_res (matching_chunk env ti st cnd) (chunked RAW_CHUNK oids) = Inr (map (\<lambda>ch. map (\<lambda>oid. (oid, full oid)) (filter hit ch)) (chunked RAW_CHUNK oids))"
    using chunk chunked_sub by (intro map_res_total) blast
  moreover have "concat (map (\<lambda>ch. map g (filter hit ch)) xss) = map g (filter hit (concat xss))" for g :: "nat \<Rightarrow> nat \<times> row" and xss
    by (induction xss) auto
  ultimately show ?thesis
    by (simp add: matching_rows_def concat_chunked RAW_CHUNK_def)
qed

section \<open>The rows of a query\<close>

definition row_visible :: "typeinfo \<Rightarrow> principal \<Rightarrow> row \<Rightarrow> bool" where
  "row_visible ti p r \<longleftrightarrow>
     (ti_protected ti \<longrightarrow> (\<exists>owner groups fl. labelled_row r owner groups fl \<and> can_read_row p owner groups fl))"

text \<open>
  What a query stands on: the index of the class represents a table, the rows of the table are stored
  and decode, the condition evaluates on each, and the rows of a protected class are labelled.
\<close>

definition indexed_view ::
    "(mem_backend, 'c) senv \<Rightarrow> typeinfo \<Rightarrow> cond \<Rightarrow> class_indexes \<Rightarrow> table \<Rightarrow> (nat \<Rightarrow> row) \<Rightarrow> (mem_backend, 'c) store \<Rightarrow> bool" where
  "indexed_view env ti c ci tab full st \<longleftrightarrow>
     mem_ok (st_backend st) \<and> ci_rep ci tab \<and> uniq_rep ci tab UNIV \<and> dicts_wf ci \<and> cond_ok ci c \<and> plain_cond c \<and>
     (\<forall>oid r. tab oid = Some r \<longrightarrow> covers ci r (full oid) \<and> defined_on c (full oid) \<and>
        (\<exists>rec. dict_get (mb_objects (st_backend st)) oid = Some rec \<and> raw_row (over_memory env) ti st rec = Inr (full oid))) \<and>
     (ti_protected ti \<longrightarrow> protected_index ci \<and> dict_wf (memberships (acting st)) \<and>
        (\<forall>oid r. tab oid = Some r \<longrightarrow> (\<exists>owner groups fl. labelled_row r owner groups fl \<and> VIEWER \<le> fl)))"

definition query_hits_of :: "typeinfo \<Rightarrow> cond \<Rightarrow> table \<Rightarrow> (nat \<Rightarrow> row) \<Rightarrow> principal \<Rightarrow> nat set" where
  "query_hits_of ti c tab full p = {oid. \<exists>r. tab oid = Some r \<and> row_visible ti p r \<and> evaluate c (full oid) = Inr True}"

lemma labelled_row_unique:
  "labelled_row r ow gs fl \<Longrightarrow> labelled_row r ow' gs' fl' \<Longrightarrow> ow' = ow \<and> gs' = gs \<and> fl' = fl"
  by (auto simp: labelled_row_def inj_map_eq_map inj_def)

lemma filter_sorted_set:
  assumes "finite A"
  shows "filter P (sorted_list_of_set A) = sorted_list_of_set {x \<in> A. P x}"
proof (rule sorted_distinct_set_unique)
  show "sorted (filter P (sorted_list_of_set A))" "distinct (filter P (sorted_list_of_set A))"
    by (simp_all add: sorted_wrt_filter)
qed (use assms in auto)

lemma fenced_candidates:
  assumes v: "indexed_view env ti c ci tab full st" and cs: "fence_candidates ti (acting st) ci base = Inr cs" and base: "base \<subseteq> dom tab"
  shows "cs = {oid \<in> base. \<exists>r. tab oid = Some r \<and> row_visible ti (acting st) r}"
proof (cases "ti_protected ti")
  case False
  then show ?thesis
    using cs base by (auto simp: fence_candidates_def row_visible_def)
next
  case True
  then obtain rb where rb: "readable_bitmap (acting st) ci = Inr rb" "cs = (case rb of None \<Rightarrow> base | Some b \<Rightarrow> base \<inter> b)"
    using cs by (auto simp: fence_candidates_def bind_res_Inr)
  have "oid \<in> cs \<longleftrightarrow> oid \<in> base \<and> in_candidates oid rb" for oid
    using rb(2) by (auto simp: in_candidates_def split: option.splits)
  moreover have "in_candidates oid rb \<longleftrightarrow> row_visible ti (acting st) r" if r: "tab oid = Some r" for oid r
  proof -
    obtain ow gs fl where l: "labelled_row r ow gs fl" "VIEWER \<le> fl"
      using v True r unfolding indexed_view_def by blast
    have "in_candidates oid rb \<longleftrightarrow> can_read_row (acting st) ow gs fl"
      using v True by (intro readable_bitmap_row [where tab = tab and r = r]) (auto simp: indexed_view_def r l rb(1))
    moreover have "row_visible ti (acting st) r \<longleftrightarrow> can_read_row (acting st) ow gs fl"
      unfolding row_visible_def using True l(1) labelled_row_unique by metis
    ultimately show ?thesis
      by simp
  qed
  ultimately show ?thesis
    using base by blast
qed

lemma candidate_hits:
  assumes v: "indexed_view env ti c ci tab full st" and p: "candidates ti ci (Some c) (acting st) = Inr (cs, residual)"
  shows "cs \<subseteq> dom tab" and "finite cs"
    and "\<And>oid. oid \<in> cs \<Longrightarrow> \<exists>b. (case residual of None \<Rightarrow> Inr True | Some r \<Rightarrow> evaluate r (full oid)) = Inr b"
    and "query_hits_of ti c tab full (acting st) =
      {oid \<in> cs. (case residual of None \<Rightarrow> Inr True | Some r \<Rightarrow> evaluate r (full oid)) = Inr True}"
    and "\<And>f r. residual = Some r \<Longrightarrow> raw_condition f r = Inr r"
proof -
  note V = v [unfolded indexed_view_def]
  obtain bm where pl: "plan c ci = Inr (bm, residual)"
    and cs: "fence_candidates ti (acting st) ci (case bm of None \<Rightarrow> ci_extent ci | Some b \<Rightarrow> b) = Inr cs"
    using p by (auto simp: candidates_def bind_res_Inr)
  have ext: "ci_extent ci = dom tab" "finite (dom tab)"
    using V by (simp_all add: ci_rep_def ci_core_def)
  have within: "bitmaps_within ci (dom tab)"
    using V rep_within by blast
  have base: "(case bm of None \<Rightarrow> ci_extent ci | Some b \<Rightarrow> b) \<subseteq> dom tab"
    using plan_within_aux(1) [of c ci _ residual] pl within V ext by (auto split: option.splits)
  have eq: "cs = {oid \<in> (case bm of None \<Rightarrow> ci_extent ci | Some b \<Rightarrow> b). \<exists>r. tab oid = Some r \<and> row_visible ti (acting st) r}"
    by (rule fenced_candidates [OF v cs base])
  show sub: "cs \<subseteq> dom tab"
    using eq base by blast
  then show "finite cs"
    using ext(2) by (rule finite_subset)
  have def: "defined_on c (full oid)" if "oid \<in> cs" for oid
    using V sub that by blast
  show ev: "\<exists>b. (case residual of None \<Rightarrow> Inr True | Some r \<Rightarrow> evaluate r (full oid)) = Inr b" if "oid \<in> cs" for oid
    using plan_residual_aux(1) [of "\<lambda>q. defined_on q (full oid)" c ci bm] pl def [OF that] defined_evaluates
    by (auto split: option.splits)
  show "raw_condition f r = Inr r" if "residual = Some r" for f r
    using plan_residual_aux(1) [of plain_cond c ci bm r] pl that V raw_plain(1) by simp
  have "oid \<in> query_hits_of ti c tab full (acting st) \<longleftrightarrow>
      oid \<in> cs \<and> (case residual of None \<Rightarrow> Inr True | Some r \<Rightarrow> evaluate r (full oid)) = Inr True" for oid
  proof (cases "tab oid")
    case None
    then show ?thesis
      using sub by (auto simp: query_hits_of_def)
  next
    case (Some r)
    have kn: "knows ci tab oid r (full oid)"
      using V Some by (simp add: knows_def)
    obtain b where b: "evaluate c (full oid) = Inr b"
      using V Some defined_evaluates by blast
    have "b \<longleftrightarrow> in_candidates oid bm \<and> residual_true residual (full oid)"
      using plan_sound_aux(1) [OF pl kn] V b by (simp add: sound_plan_def)
    then show ?thesis
      using Some b ext(1) unfolding eq query_hits_of_def in_candidates_def residual_true_def by (auto split: option.splits)
  qed
  then show "query_hits_of ti c tab full (acting st) =
      {oid \<in> cs. (case residual of None \<Rightarrow> Inr True | Some r \<Rightarrow> evaluate r (full oid)) = Inr True}"
    by blast
qed

lemma ensure_index_reads:
  assumes "ensure_index env ti st = (Inr ci, st1)"
  shows "acting st1 = acting st" and "st_backend st1 = st_backend st" and "raw_row env' ti' st1 = raw_row env' ti' st"
  using assms by (auto simp: ensure_index_def acting_def raw_row_def shape_of_def fun_eq_iff split: sum.splits prod.splits)

lemma mem_load_find:
  assumes "mem_ok (st_backend st)"
  shows "\<exists>recs. se_load (over_memory env) oids (st_backend st) = Inr recs \<and>
    (\<forall>oid \<in> set oids. dict_get recs oid = dict_get (mb_objects (st_backend st)) oid)"
  using over_mem.load_many_find [OF assms, where oids = oids] by fastforce

lemma scan_hits:
  assumes v: "indexed_view env ti c ci tab full st" and sub: "set oids \<subseteq> dom tab"
    and ev: "\<And>oid. oid \<in> set oids \<Longrightarrow> (case cnd of None \<Rightarrow> Inr True | Some r \<Rightarrow> evaluate r (full oid)) = Inr (hit oid)"
  shows "matching_rows (over_memory env) ti st cnd oids = Inr (map (\<lambda>oid. (oid, full oid)) (filter hit oids))"
proof (rule matching_rows_Inr [OF mem_load_find _ ev])
  show "mem_ok (st_backend st)"
    using v by (simp add: indexed_view_def)
  show "\<exists>rec. dict_get (mb_objects (st_backend st)) oid = Some rec \<and> raw_row (over_memory env) ti st rec = Inr (full oid)"
    if "oid \<in> set oids" for oid
    using v sub that unfolding indexed_view_def by blast
qed

lemma view_index:
  assumes "indexed_view env ti c ci tab full st" and "ensure_index env1 ti st = (Inr ci1, st1)"
  shows "indexed_view env ti c ci tab full st1"
  using assms(1) ensure_index_reads [OF assms(2)] by (simp add: indexed_view_def)

lemma count_and_pluck:
  assumes v: "indexed_view env ti c ci tab full st" and p: "candidates ti ci (Some c) (acting st) = Inr (cs, residual)"
  shows "count_matches (over_memory env) ti ci (Some c) st = Inr (card (query_hits_of ti c tab full (acting st)))"
    and "pluck_rows (over_memory env) ti ci (Some c) None limit offset st =
      Inr (map (\<lambda>oid. (oid, full oid)) (apply_window (sorted_list_of_set (query_hits_of ti c tab full (acting st))) limit offset))"
proof -
  note H = candidate_hits [OF v p]
  let ?hits = "query_hits_of ti c tab full (acting st)"
  obtain bm where pl: "plan c ci = Inr (bm, residual)"
    and cs: "fence_candidates ti (acting st) ci (case bm of None \<Rightarrow> ci_extent ci | Some b \<Rightarrow> b) = Inr cs"
    using p by (auto simp: candidates_def bind_res_Inr)
  have sub: "set (bm_iter cs) \<subseteq> dom tab"
    using H(1,2) by simp
  have win: "set (apply_window xs limit offset) \<subseteq> set xs" for xs :: "nat list"
    by (auto simp: apply_window_def Let_def dest: in_set_takeD in_set_dropD split: option.splits if_splits)
  show "count_matches (over_memory env) ti ci (Some c) st = Inr (card ?hits)"
  proof (cases residual)
    case None
    then show ?thesis
      using pl cs H(4) by (simp add: count_matches_def)
  next
    case (Some r)
    have "matching_rows (over_memory env) ti st (Some r) (bm_iter cs) =
        Inr (map (\<lambda>oid. (oid, full oid)) (filter (\<lambda>oid. evaluate r (full oid) = Inr True) (bm_iter cs)))"
      using H(2,3) Some by (intro scan_hits [OF v sub]) fastforce
    then show ?thesis
      using pl cs H(2,4,5) Some by (simp add: count_matches_def filter_sorted_set)
  qed
  show "pluck_rows (over_memory env) ti ci (Some c) None limit offset st =
      Inr (map (\<lambda>oid. (oid, full oid)) (apply_window (sorted_list_of_set ?hits) limit offset))"
  proof (cases residual)
    case None
    have "matching_rows (over_memory env) ti st None (apply_window (bm_iter cs) limit offset) =
        Inr (map (\<lambda>oid. (oid, full oid)) (filter (\<lambda>oid. True) (apply_window (bm_iter cs) limit offset)))"
      using sub win by (intro scan_hits [OF v]) auto
    then show ?thesis
      using p None H(4) by (simp add: pluck_rows_def raw_residual_def window_iter_apply)
  next
    case (Some r)
    have "matching_rows (over_memory env) ti st (Some r) (bm_iter cs) =
        Inr (map (\<lambda>oid. (oid, full oid)) (filter (\<lambda>oid. evaluate r (full oid) = Inr True) (bm_iter cs)))"
      using H(2,3) Some by (intro scan_hits [OF v sub]) fastforce
    moreover have "apply_window (map g xs) limit offset = map g (apply_window xs limit offset)" for g :: "nat \<Rightarrow> nat \<times> row" and xs
      by (simp add: apply_window_def Let_def take_map drop_map split: option.splits)
    ultimately show ?thesis
      using p Some H(2,4,5) by (simp add: pluck_rows_def raw_residual_def filter_sorted_set)
  qed
qed

end
