(* ===== verification/Query_Claims.thy ===== *)
theory Query_Claims
  imports Query_Exact
begin

text \<open>
  The properties of the query surface: \<open>count\<close> and \<open>pluck\<close> answer exactly the readable matching rows,
  a store that \<open>verify\<close> passes reads cleanly, and what \<open>verify\<close> and the root setter let through.
\<close>

section \<open>count and pluck\<close>













section \<open>verify\<close>

lemma fold_res_keeps:
  assumes "fold_res f xs s = Inr t" and "\<And>x s t. x \<in> set xs \<Longrightarrow> f x s = Inr t \<Longrightarrow> \<exists>u. t = s @ u \<and> (\<forall>y. Q x y \<longrightarrow> y \<in> set u)"
  shows "\<exists>u. t = s @ u \<and> (\<forall>x \<in> set xs. \<forall>y. Q x y \<longrightarrow> y \<in> set u)"
  using assms
proof (induction xs arbitrary: s)
  case (Cons x xs)
  obtain s1 where s1: "f x s = Inr s1" "fold_res f xs s1 = Inr t"
    using Cons.prems(1) by (auto split: sum.splits)
  obtain u where u: "s1 = s @ u" "\<forall>y. Q x y \<longrightarrow> y \<in> set u"
    using Cons.prems(2) s1(1) by (meson list.set_intros(1))
  obtain w where "t = s1 @ w" "\<forall>x \<in> set xs. \<forall>y. Q x y \<longrightarrow> y \<in> set w"
    using Cons.IH [OF s1(2)] Cons.prems(2) by (meson list.set_intros(2))
  then show ?case
    using u by (intro exI [of _ "u @ w"]) auto
qed simp

text \<open>A record of a shape of the class, and that it does not decode to the live class.\<close>

definition stored_as :: "('s, 'c) senv \<Rightarrow> ('s, 'c) store \<Rightarrow> string \<Rightarrow> stored_record \<Rightarrow> bool" where
  "stored_as env st typename rec \<longleftrightarrow>
     typename \<in> set (dict_keys (st_cids_by_typename st)) \<and>
     (\<exists>cid \<in> set (dict_getd (st_cids_by_typename st) typename []). \<exists>recs. se_scan env cid (st_backend st) = Inr recs \<and> rec \<in> set recs)"

definition undecodable :: "('s, 'c) senv \<Rightarrow> ('s, 'c) store \<Rightarrow> string \<Rightarrow> stored_record \<Rightarrow> bool" where
  "undecodable env st typename rec \<longleftrightarrow>
     (case dict_get (se_types env) typename of None \<Rightarrow> True | Some ti \<Rightarrow> (\<exists>err. decode_check env rec ti st = Inl err))"

lemma verify_finds:
  assumes "verify_all env st = Inr failures" and "stored_as env st typename rec" and "undecodable env st typename rec"
  shows "(typename, sr_oid rec) \<in> set failures"
proof -
  let ?Q = "\<lambda>tn rec y. undecodable env st tn rec \<and> y = (tn, sr_oid rec)"
  have rec: "\<exists>u. t = s @ u \<and> (\<forall>y. ?Q tn r y \<longrightarrow> y \<in> set u)" if "verify_record env st tn r s = Inr t" for tn r s t
    using that by (auto simp: verify_record_def undecodable_def split: sum.splits option.splits if_splits)
  have cid: "\<exists>u. t = s @ u \<and> (\<forall>y. (\<exists>recs r. se_scan env c (st_backend st) = Inr recs \<and> r \<in> set recs \<and> ?Q tn r y) \<longrightarrow> y \<in> set u)"
    if t: "verify_cid env st tn c s = Inr t" for tn c s t
  proof -
    obtain recs where recs: "se_scan env c (st_backend st) = Inr recs" "fold_res (verify_record env st tn) recs s = Inr t"
      using t by (auto simp: verify_cid_def bind_res_Inr)
    show ?thesis
      using fold_res_keeps [OF recs(2), where Q = "?Q tn"] rec recs(1) by fastforce
  qed
  have type: "\<exists>u. t = s @ u \<and> (\<forall>y. (\<exists>c \<in> set (dict_getd (st_cids_by_typename st) tn []). \<exists>recs r.
      se_scan env c (st_backend st) = Inr recs \<and> r \<in> set recs \<and> ?Q tn r y) \<longrightarrow> y \<in> set u)"
    if "fold_res (verify_cid env st tn) (dict_getd (st_cids_by_typename st) tn []) s = Inr t" for tn s t
    using fold_res_keeps [OF that, where Q = "\<lambda>c y. \<exists>recs r. se_scan env c (st_backend st) = Inr recs \<and> r \<in> set recs \<and> ?Q tn r y"] cid
    by blast
  have "\<exists>u. failures = [] @ u \<and> (\<forall>tn \<in> set (dict_keys (st_cids_by_typename st)). \<forall>y. (\<exists>c \<in> set (dict_getd (st_cids_by_typename st) tn []).
      \<exists>recs r. se_scan env c (st_backend st) = Inr recs \<and> r \<in> set recs \<and> ?Q tn r y) \<longrightarrow> y \<in> set u)"
    using assms(1) unfolding verify_all_def by (rule fold_res_keeps) (rule type)
  then show ?thesis
    using assms(2,3) unfolding stored_as_def by (simp, blast)
qed

lemma fold_glue_Inr:
  assumes "fold_res (\<lambda>(spec, src) u. case src of FromGlue glue \<Rightarrow> bind_res (glue by_name) (\<lambda>_. Inr ()) | _ \<Rightarrow> Inr ()) hplan () = Inr u"
    and "(spec, FromGlue glue) \<in> set hplan"
  shows "\<exists>v. glue by_name = Inr v"
  using assms by (induction hplan) (auto simp: bind_res_Inr split: sum.splits)

lemma position_of_less: "position_of names f = Some i \<Longrightarrow> i < length names"
  by (auto simp: position_of_def dest!: map_of_SomeD in_set_zipE)

lemma decode_check_reads:
  assumes "decode_check env rec ti st = Inr u"
  shows "\<exists>row. raw_row env ti st rec = Inr row \<and> map fst row = map fs_name (ti_specs ti)"
proof -
  let ?p = "shape_of st (sr_cid rec)"
  obtain hplan us where hp: "hydration_plan ti ?p = Inr hplan" and us: "decode_fields env (sr_payload rec) = Inr us" and len: "length us = length ?p"
    and g: "fold_res (\<lambda>(spec, src) u. case src of FromGlue glue \<Rightarrow> bind_res (glue (zip ?p us)) (\<lambda>_. Inr ()) | _ \<Rightarrow> Inr ()) hplan () = Inr u"
    using assms by (auto simp: decode_check_def Let_def bind_res_Inr split: if_splits)
  have src: "\<exists>v. source_value (zip ?p us) us s = Inr v" if m: "(spec, s) \<in> set hplan" for spec s
  proof (cases s)
    case (FromRecord i)
    have "plan_source ti ?p spec = Inr (FromRecord i)"
      using hydration_plan_sound [OF hp m] FromRecord by simp
    then have "i < length us"
      using position_of_less len by (auto simp: plan_source_def split: option.splits if_splits)
    then show ?thesis
      by (simp add: FromRecord source_value_def nth_res_def)
  next
    case (FromGlue glue)
    then show ?thesis
      using fold_glue_Inr [OF g] m by (simp add: source_value_def)
  qed (simp add: source_value_def)
  define val where "val = (\<lambda>x :: fieldspec \<times> field_source. case source_value (zip ?p us) us (snd x) of Inr v \<Rightarrow> v | Inl e \<Rightarrow> PNone)"
  have m: "map_res (\<lambda>(spec, src). bind_res (source_value (zip ?p us) us src) (\<lambda>v. Inr (fs_name spec, v))) hplan =
      Inr (map (\<lambda>x. (fs_name (fst x), val x)) hplan)"
    using src by (intro map_res_total) (fastforce simp: val_def)
  have "map_res (\<lambda>spec. bind_res (f spec) (\<lambda>src. Inr (spec, src))) specs = Inr hp' \<Longrightarrow> map fst hp' = specs" for f specs hp'
    by (induction specs arbitrary: hp') (auto simp: bind_res_Inr split: sum.splits)
  then have names: "map fst hplan = ti_specs ti"
    using hp unfolding hydration_plan_def by blast
  have "map fst (map (\<lambda>x. (fs_name (fst x), val x)) hplan) = map fs_name (map fst hplan)"
    by simp
  then have "map fst (map (\<lambda>x. (fs_name (fst x), val x)) hplan) = map fs_name (ti_specs ti)"
    by (simp only: names)
  then show ?thesis
    using hp us m by (simp add: raw_row_def)
qed

text \<open>
  C30: a store that \<open>verify\<close> passes reads cleanly. \<open>verify\<close> lists every record, of any shape a class
  ever had, that does not decode to its live class; and if it lists none, then every record of every
  known class decodes to a row with all the fields of the live class.
\<close>

theorem verify_reads_cleanly:
  assumes "verify env st = (Inr failures, st')"
  shows "(\<forall>typename rec. stored_as env st typename rec \<longrightarrow> undecodable env st typename rec \<longrightarrow> (typename, sr_oid rec) \<in> set failures) \<and>
    (failures = [] \<longrightarrow> (\<forall>typename rec. stored_as env st typename rec \<longrightarrow>
       (\<exists>ti row. dict_get (se_types env) typename = Some ti \<and> raw_row env ti st rec = Inr row \<and> map fst row = map fs_name (ti_specs ti))))"
proof -
  have v: "verify_all env st = Inr failures"
    using assms by (auto simp: verify_def bind_act_def split: prod.splits sum.splits)
  have "\<exists>ti row. dict_get (se_types env) typename = Some ti \<and> raw_row env ti st rec = Inr row \<and> map fst row = map fs_name (ti_specs ti)"
    if f: "failures = []" and r: "stored_as env st typename rec" for typename rec
  proof -
    have "\<not> undecodable env st typename rec"
      using verify_finds [OF v r] f by auto
    then obtain ti where "dict_get (se_types env) typename = Some ti" "\<forall>err. decode_check env rec ti st \<noteq> Inl err"
      by (auto simp: undecodable_def split: option.splits)
    moreover from this(2) obtain u where "decode_check env rec ti st = Inr u"
      by (metis sum.exhaust)
    ultimately show ?thesis
      using decode_check_reads by blast
  qed
  then show ?thesis
    using verify_finds [OF v] by blast
qed

definition pair_shelf :: "(mem_backend, applier) store" where
  "pair_shelf = pair_desk\<lparr>st_cids_by_typename := [(''Note'', [1])]\<rparr>"

theorem verify_reads_cleanly_witness:
  "\<exists>ti row. dict_get (se_types (over_memory pair_env)) ''Note'' = Some ti \<and>
     raw_row (over_memory pair_env) ti pair_shelf \<lparr>sr_oid = 11, sr_cid = 1, sr_tid = 1, sr_payload = [2]\<rparr> = Inr row \<and> map fst row = [''title'', ''next'']"
proof -
  let ?rec = "\<lparr>sr_oid = 11, sr_cid = 1, sr_tid = 1, sr_payload = [2]\<rparr> :: stored_record"
  have "fst (verify (over_memory pair_env) pair_shelf) = Inr []"
    by code_simp
  then have v: "verify (over_memory pair_env) pair_shelf = (Inr [], snd (verify (over_memory pair_env) pair_shelf))"
    by (simp add: prod_eq_iff)
  have "stored_as (over_memory pair_env) pair_shelf ''Note'' ?rec"
    by (simp add: stored_as_def pair_shelf_def pair_desk_def desk_def dict_getd_def over_memory_def mem_scan_type_def pair_mem_def empty_mem_def)
  moreover have "dict_get (se_types (over_memory pair_env)) ''Note'' = Some note_ti"
    by (simp add: over_memory_def pair_env_def)
  ultimately show ?thesis
    using verify_reads_cleanly [OF v] by (fastforce simp: note_ti_def plain_spec_def)
qed

lemma map_res_each: "map_res f xs = Inr ys \<Longrightarrow> x \<in> set xs \<Longrightarrow> \<exists>y. f x = Inr y"
  by (induction xs arbitrary: ys) (auto split: sum.splits)

text \<open>
  C36: a damaged row stops \<open>verify\<close>. Over SQLite the scan checks the checksum of each row outside the
  probe of the record, so if a row of a known shape fails its checksum then \<open>verify\<close> answers no list
  of failures at all.
\<close>

theorem damaged_row_stops_verify:
  assumes "typename \<in> set (dict_keys (st_cids_by_typename st))" and "cid \<in> set (dict_getd (st_cids_by_typename st) typename [])"
    and "(oid, row) \<in> set (db_objects (st_backend st))" and "or_cid row = cid" and "crc (or_payload row) \<noteq> or_crc row"
  shows "verify (over_sqlite env) st \<noteq> (Inr failures, st')"
proof
  assume "verify (over_sqlite env) st = (Inr failures, st')"
  then have v: "verify_all (over_sqlite env) st = Inr failures"
    by (auto simp: verify_def bind_act_def split: prod.splits sum.splits)
  have scan: "sq_scan_type cid (st_backend st) \<noteq> Inr recs" for recs
  proof
    assume "sq_scan_type cid (st_backend st) = Inr recs"
    then have "\<forall>x \<in> set (sort_key fst (filter (\<lambda>(oid, r). or_cid r = cid) (db_objects (st_backend st)))).
        \<exists>y. (\<lambda>(oid, r). bind_res (check_crc (or_payload r) (or_crc r)) (\<lambda>_. Inr (row_record oid r))) x = Inr y"
      unfolding sq_scan_type_def by (intro ballI) (rule map_res_each)
    then show False
      using assms(3-5) by (force simp: check_crc_def)
  qed
  have no: "fold_res f xs s \<noteq> Inr t" if "x \<in> set xs" "\<And>s t. f x s \<noteq> Inr t" for f :: "'x \<Rightarrow> (string \<times> nat) list \<Rightarrow> (string \<times> nat) list res" and x xs s t
    using that by (induction xs arbitrary: s) (auto split: sum.splits)
  have "verify_cid (over_sqlite env) st typename cid s \<noteq> Inr t" for s t
    using scan by (auto simp: verify_cid_def bind_res_Inr over_sqlite_def)
  then have "fold_res (verify_cid (over_sqlite env) st typename) (dict_getd (st_cids_by_typename st) typename []) s \<noteq> Inr t" for s t
    by (rule no [OF assms(2)])
  then have "verify_all (over_sqlite env) st \<noteq> Inr failures"
    unfolding verify_all_def by (rule no [OF assms(1)])
  then show False
    using v by simp
qed

definition torn_db :: sqlite_db where
  "torn_db = \<lparr>db_meta = [], db_types = [], db_unique_names = False,
     db_objects = [(11, \<lparr>or_cid = 1, or_tid = 1, or_payload = [], or_crc = crc [] + 1\<rparr>)], db_blobs = []\<rparr>"

theorem damaged_row_stops_verify_witness:
  "verify (over_sqlite desk_env) ((desk torn_db)\<lparr>st_cids_by_typename := [(''Note'', [1])]\<rparr>) \<noteq> (Inr [], desk torn_db)"
  by (rule damaged_row_stops_verify [where typename = "''Note''" and cid = 1 and oid = 11
        and row = "\<lparr>or_cid = 1, or_tid = 1, or_payload = [], or_crc = crc [] + 1\<rparr>"])
     (simp_all add: desk_def torn_db_def dict_getd_def)

text \<open>
  A \<open>Glue\<close> function that raises an \<open>AttributeError\<close> stops \<open>verify\<close>. The probe catches five classes of
  error; an error of any other class that a glue function raises on an old record leaves \<open>verify\<close>.
\<close>

definition glued_ti :: typeinfo where
  "glued_ti = note_ti\<lparr>ti_field_names := [''title'', ''next'', ''slug''],
     ti_specs := ti_specs note_ti @ [(plain_spec ''slug'')\<lparr>fs_glue := Some (\<lambda>r. Inl PyAttributeError)\<rparr>]\<rparr>"

definition glued_env :: "(mem_backend, applier) senv" where
  "glued_env = pair_env\<lparr>se_types := [(''Note'', glued_ti)]\<rparr>"

theorem glue_stops_verify:
  "verify (over_memory glued_env) pair_shelf = (Inl PyAttributeError, pair_shelf) \<and> typeinfo_wf glued_ti"
proof
  have "fst (verify (over_memory glued_env) pair_shelf) = Inl PyAttributeError"
    by code_simp
  moreover have "snd (verify env st) = st" for env :: "(mem_backend, applier) senv" and st
    by (simp add: verify_def bind_act_def split: prod.splits sum.splits)
  ultimately show "verify (over_memory glued_env) pair_shelf = (Inl PyAttributeError, pair_shelf)"
    by (simp add: prod_eq_iff)
  show "typeinfo_wf glued_ti"
    by (simp add: typeinfo_wf_def glued_ti_def note_ti_def plain_spec_def spec_wf_def)
qed

section \<open>The root\<close>





end
