(* ===== verification/Lease.thy ===== *)
theory Lease
  imports Prelude
begin

text \<open>
  The single-writer lease (\<open>_storage/lock.py\<close>). A world holds what openers share: the clock, the
  directory entries of the lock file and of its temporary sibling with the files they name, and the
  processes alive; and one record per opener with its place in \<open>acquire\<close>, \<open>_refresh_loop\<close> or
  \<open>release\<close>. One step is one system call, so openers interleave as processes do. An opener that has
  created the lock file writes to that file, whatever the directory names by then.

  Times are integers in one unit. The join of the refresher with a timeout is a join, the write of the
  temporary file is one step, and a file that does not hold a JSON object reads as \<open>None\<close>.
\<close>

section \<open>Lock files\<close>

record lease_doc =
  le_pid :: "int option"
  le_token :: "nat option"
  le_ts :: "int option"
  le_host :: "nat option"

datatype stale_code = UNREADABLE | TTL_EXPIRED | HOLDER_PROCESS_GONE

datatype lease_phase =
    Opening | Reading | Reclaiming stale_code | Writing nat
  | Holding | Refreshing | Staging | Replacing
  | Closing | Dropping | Refused | Released | Crashed

record opener =
  op_token :: nat
  op_host :: nat
  op_pid :: int
  op_phase :: lease_phase
  op_lost :: bool

record lease_world =
  lw_clock :: int
  lw_lock :: "nat option"
  lw_tmp :: "nat option"
  lw_files :: "nat \<Rightarrow> lease_doc option"
  lw_next :: nat
  lw_alive :: "(nat \<times> int) list"
  lw_openers :: "(nat, opener) dict"

definition lease_payload :: "opener \<Rightarrow> lease_world \<Rightarrow> lease_doc" where
  "lease_payload p w = \<lparr>le_pid = Some (op_pid p), le_token = Some (op_token p), le_ts = Some (lw_clock w), le_host = Some (op_host p)\<rparr>"

definition read_lock :: "lease_world \<Rightarrow> lease_doc option" where
  "read_lock w = (case lw_lock w of None \<Rightarrow> None | Some n \<Rightarrow> lw_files w n)"

definition holder_pid_is_dead :: "opener \<Rightarrow> lease_doc \<Rightarrow> lease_world \<Rightarrow> bool" where
  "holder_pid_is_dead p d w =
     (if le_host d \<noteq> Some (op_host p) then False
      else case le_pid d of
             None \<Rightarrow> False
           | Some pid \<Rightarrow> if pid \<le> 0 \<or> pid = op_pid p then False else (op_host p, pid) \<notin> set (lw_alive w))"

definition stale_reason :: "int \<Rightarrow> opener \<Rightarrow> lease_doc \<Rightarrow> lease_world \<Rightarrow> stale_code option" where
  "stale_reason ttl p d w =
     (case le_ts d of
        None \<Rightarrow> Some UNREADABLE
      | Some ts \<Rightarrow>
          if lw_clock w - ts > ttl * 2 then Some TTL_EXPIRED
          else if holder_pid_is_dead p d w then Some HOLDER_PROCESS_GONE else None)"

section \<open>Steps of one opener\<close>

text \<open>\<open>acquire\<close>: create exclusively, else read and judge, else unlink and try again.\<close>

definition acquire_step :: "int \<Rightarrow> opener \<Rightarrow> lease_world \<Rightarrow> opener \<times> lease_world" where
  "acquire_step ttl p w =
     (case op_phase p of
        Opening \<Rightarrow>
          (case lw_lock w of
             None \<Rightarrow> (p\<lparr>op_phase := Writing (lw_next w)\<rparr>,
                      w\<lparr>lw_lock := Some (lw_next w), lw_files := (lw_files w)(lw_next w := None), lw_next := lw_next w + 1\<rparr>)
           | Some n \<Rightarrow> (p\<lparr>op_phase := Reading\<rparr>, w))
      | Reading \<Rightarrow>
          (case (case read_lock w of None \<Rightarrow> Some UNREADABLE | Some d \<Rightarrow> stale_reason ttl p d w) of
             None \<Rightarrow> (p\<lparr>op_phase := Refused\<rparr>, w)
           | Some why \<Rightarrow> (p\<lparr>op_phase := Reclaiming why\<rparr>, w))
      | Reclaiming why \<Rightarrow> (p\<lparr>op_phase := Opening\<rparr>, w\<lparr>lw_lock := None\<rparr>)
      | Writing n \<Rightarrow> (p\<lparr>op_phase := Holding\<rparr>, w\<lparr>lw_files := (lw_files w)(n := Some (lease_payload p w))\<rparr>)
      | _ \<Rightarrow> (p, w))"

text \<open>\<open>_refresh_loop\<close>: one round after the wait. A foreign token loses the lease, for good.\<close>

definition foreign :: "opener \<Rightarrow> lease_doc option \<Rightarrow> bool" where
  "foreign p d = (case d of None \<Rightarrow> False | Some x \<Rightarrow> le_token x \<noteq> None \<and> le_token x \<noteq> Some (op_token p))"

definition refresh_step :: "opener \<Rightarrow> lease_world \<Rightarrow> opener \<times> lease_world" where
  "refresh_step p w =
     (case op_phase p of
        Refreshing \<Rightarrow>
          if foreign p (read_lock w) then (p\<lparr>op_phase := Holding, op_lost := True\<rparr>, w)
          else (p\<lparr>op_phase := Staging\<rparr>, w)
      | Staging \<Rightarrow>
          (p\<lparr>op_phase := Replacing\<rparr>,
           w\<lparr>lw_tmp := Some (lw_next w), lw_files := (lw_files w)(lw_next w := Some (lease_payload p w)), lw_next := lw_next w + 1\<rparr>)
      | Replacing \<Rightarrow>
          (p\<lparr>op_phase := Holding\<rparr>, case lw_tmp w of None \<Rightarrow> w | Some n \<Rightarrow> w\<lparr>lw_lock := Some n, lw_tmp := None\<rparr>)
      | _ \<Rightarrow> (p, w))"

definition release_step :: "opener \<Rightarrow> lease_world \<Rightarrow> opener \<times> lease_world" where
  "release_step p w =
     (case op_phase p of
        Closing \<Rightarrow>
          if op_lost p then (p\<lparr>op_phase := Released\<rparr>, w)
          else if (case read_lock w of None \<Rightarrow> False | Some d \<Rightarrow> le_token d = Some (op_token p))
               then (p\<lparr>op_phase := Dropping\<rparr>, w) else (p\<lparr>op_phase := Released\<rparr>, w)
      | Dropping \<Rightarrow> (p\<lparr>op_phase := Released\<rparr>, w\<lparr>lw_lock := None\<rparr>)
      | _ \<Rightarrow> (p, w))"

definition own_step :: "int \<Rightarrow> opener \<Rightarrow> lease_world \<Rightarrow> opener \<times> lease_world" where
  "own_step ttl p w =
     (if op_phase p \<in> {Refreshing, Staging, Replacing} then refresh_step p w
      else if op_phase p \<in> {Closing, Dropping} then release_step p w else acquire_step ttl p w)"

section \<open>Runs\<close>

text \<open>\<open>Wake\<close> ends a wait of the refresher, \<open>Close\<close> is a call of \<open>release\<close>, \<open>Crash\<close> kills a process.\<close>

datatype lease_act = Tick | Step nat | Wake nat | Close nat | Crash nat

definition put_opener :: "nat \<Rightarrow> opener \<Rightarrow> lease_world \<Rightarrow> lease_world" where
  "put_opener i p w = w\<lparr>lw_openers := AList.update i p (lw_openers w)\<rparr>"

inductive lease_step :: "int \<Rightarrow> lease_world \<Rightarrow> lease_act \<Rightarrow> lease_world \<Rightarrow> bool" for ttl where
  tick: "lease_step ttl w Tick (w\<lparr>lw_clock := lw_clock w + 1\<rparr>)"
| own: "dict_get (lw_openers w) i = Some p \<Longrightarrow> op_phase p \<notin> {Holding, Refused, Released, Crashed} \<Longrightarrow>
    own_step ttl p w = (p', w') \<Longrightarrow> lease_step ttl w (Step i) (put_opener i p' w')"
| wake: "dict_get (lw_openers w) i = Some p \<Longrightarrow> op_phase p = Holding \<Longrightarrow> \<not> op_lost p \<Longrightarrow>
    lease_step ttl w (Wake i) (put_opener i (p\<lparr>op_phase := Refreshing\<rparr>) w)"
| close: "dict_get (lw_openers w) i = Some p \<Longrightarrow> op_phase p = Holding \<Longrightarrow>
    lease_step ttl w (Close i) (put_opener i (p\<lparr>op_phase := Closing\<rparr>) w)"
| crash: "dict_get (lw_openers w) i = Some p \<Longrightarrow>
    lease_step ttl w (Crash i) (put_opener i (p\<lparr>op_phase := Crashed\<rparr>) (w\<lparr>lw_alive := filter (\<lambda>x. x \<noteq> (op_host p, op_pid p)) (lw_alive w)\<rparr>))"

inductive_cases lease_stepE: "lease_step ttl w a w'"

inductive lease_run :: "int \<Rightarrow> lease_world \<Rightarrow> lease_act list \<Rightarrow> lease_world \<Rightarrow> bool" for ttl w where
  start: "lease_run ttl w [] w"
| more: "lease_run ttl w as w1 \<Longrightarrow> lease_step ttl w1 a w2 \<Longrightarrow> lease_run ttl w (as @ [a]) w2"

section \<open>Exclusion while nothing is taken over\<close>

definition active :: "opener \<Rightarrow> bool" where
  "active p \<longleftrightarrow> (case op_phase p of Writing n \<Rightarrow> True
     | ph \<Rightarrow> ph \<in> {Holding, Refreshing, Staging, Replacing, Closing, Dropping})"

definition holds_lease :: "opener \<Rightarrow> bool" where
  "holds_lease p \<longleftrightarrow> op_phase p \<in> {Holding, Refreshing, Staging, Replacing} \<and> \<not> op_lost p"

definition opener_at :: "lease_world \<Rightarrow> nat \<Rightarrow> opener \<Rightarrow> bool" where
  "opener_at w i p \<longleftrightarrow> dict_get (lw_openers w) i = Some p"

definition own_lock :: "opener \<Rightarrow> lease_world \<Rightarrow> bool" where
  "own_lock p w \<longleftrightarrow> (\<exists>n. lw_lock w = Some n \<and>
     (case op_phase p of Writing m \<Rightarrow> m = n | _ \<Rightarrow> \<exists>d. lw_files w n = Some d \<and> le_token d = Some (op_token p)))"

definition lease_inv :: "bool \<Rightarrow> lease_world \<Rightarrow> bool" where
  "lease_inv clean w \<longleftrightarrow>
     (\<forall>i j p q. opener_at w i p \<longrightarrow> opener_at w j q \<longrightarrow> op_token p = op_token q \<longrightarrow> i = j) \<and>
     (\<forall>i p. opener_at w i p \<longrightarrow> \<not> op_lost p) \<and>
     (\<forall>i j p q. opener_at w i p \<longrightarrow> opener_at w j q \<longrightarrow> active p \<longrightarrow> active q \<longrightarrow> i = j) \<and>
     (\<forall>i p. opener_at w i p \<longrightarrow> active p \<longrightarrow> own_lock p w) \<and>
     (\<forall>i p. opener_at w i p \<longrightarrow> op_phase p = Replacing \<longrightarrow>
        (\<exists>n d. lw_tmp w = Some n \<and> lw_files w n = Some d \<and> le_token d = Some (op_token p))) \<and>
     (\<forall>n. lw_lock w = Some n \<or> lw_tmp w = Some n \<longrightarrow> n < lw_next w) \<and>
     (clean \<longrightarrow> lw_lock w \<noteq> None \<longrightarrow> (\<exists>i p. opener_at w i p \<and> (active p \<or> op_phase p = Crashed)))"

definition takes_over :: "lease_world \<Rightarrow> lease_act \<Rightarrow> bool" where
  "takes_over w a = (case a of
     Step i \<Rightarrow> (case dict_get (lw_openers w) i of None \<Rightarrow> False | Some p \<Rightarrow> (case op_phase p of Reclaiming why \<Rightarrow> True | _ \<Rightarrow> False))
   | _ \<Rightarrow> False)"

inductive calm_run :: "int \<Rightarrow> lease_world \<Rightarrow> lease_act list \<Rightarrow> lease_world \<Rightarrow> bool" for ttl w where
  start: "calm_run ttl w [] w"
| more: "calm_run ttl w as w1 \<Longrightarrow> lease_step ttl w1 a w2 \<Longrightarrow> \<not> takes_over w1 a \<Longrightarrow> calm_run ttl w (as @ [a]) w2"

lemma lease_invD:
  assumes "lease_inv clean w"
  shows "opener_at w i p \<Longrightarrow> opener_at w j q \<Longrightarrow> op_token p = op_token q \<Longrightarrow> i = j"
    and "opener_at w i p \<Longrightarrow> \<not> op_lost p"
    and "opener_at w i p \<Longrightarrow> opener_at w j q \<Longrightarrow> active p \<Longrightarrow> active q \<Longrightarrow> i = j"
    and "opener_at w i p \<Longrightarrow> active p \<Longrightarrow> own_lock p w"
    and "opener_at w i p \<Longrightarrow> op_phase p = Replacing \<Longrightarrow>
      \<exists>n d. lw_tmp w = Some n \<and> lw_files w n = Some d \<and> le_token d = Some (op_token p)"
    and "lw_lock w = Some n \<or> lw_tmp w = Some n \<Longrightarrow> n < lw_next w"
    and "clean \<Longrightarrow> lw_lock w \<noteq> None \<Longrightarrow> \<exists>i p. opener_at w i p \<and> (active p \<or> op_phase p = Crashed)"
  using assms unfolding lease_inv_def by blast+

text \<open>
  What a step of opener \<open>i\<close> may do: keep its token, not lose the lease, become active only when the
  lock file was absent, and leave the files of the others alone.
\<close>

lemma lease_inv_put:
  assumes inv: "lease_inv clean w" and p: "opener_at w i p"
    and tok: "op_token p' = op_token p" "\<not> op_lost p'"
    and openers: "lw_openers w' = lw_openers w"
    and act: "active p' \<Longrightarrow> own_lock p' w' \<and> (active p \<or> lw_lock w = None)"
    and repl: "op_phase p' = Replacing \<Longrightarrow> \<exists>n d. lw_tmp w' = Some n \<and> lw_files w' n = Some d \<and> le_token d = Some (op_token p)"
    and others: "\<And>j q. j \<noteq> i \<Longrightarrow> opener_at w j q \<Longrightarrow> active q \<Longrightarrow> \<not> active p \<Longrightarrow> own_lock q w \<Longrightarrow>
       own_lock q w' \<and> lw_tmp w' = lw_tmp w \<and> lw_files w' = lw_files w"
    and fresh: "\<And>n. lw_lock w' = Some n \<or> lw_tmp w' = Some n \<Longrightarrow> n < lw_next w'"
    and gone: "lw_lock w' \<noteq> None \<Longrightarrow> active p' \<or> op_phase p' = Crashed \<or> lw_lock w \<noteq> None \<and> \<not> active p \<and> op_phase p \<noteq> Crashed"
  shows "lease_inv clean (put_opener i p' w')"
proof -
  note D = lease_invD [OF inv]
  have at: "opener_at (put_opener i p' w') j q \<longleftrightarrow> (if j = i then q = p' else opener_at w j q)" for j q
    by (auto simp: opener_at_def put_opener_def openers)
  have fields: "lw_lock (put_opener i p' w') = lw_lock w'" "lw_tmp (put_opener i p' w') = lw_tmp w'"
      "lw_files (put_opener i p' w') = lw_files w'" "lw_next (put_opener i p' w') = lw_next w'"
    by (simp_all add: put_opener_def)
  have own: "own_lock q (put_opener i p' w') = own_lock q w'" for q
    unfolding own_lock_def fields ..
  have idle: "\<not> active p'" if "j \<noteq> i" "opener_at w j q" "active q" for j q
  proof
    assume a: "active p'"
    have "own_lock q w"
      by (rule D(4) [OF that(2,3)])
    then show False
      using act [OF a] D(3) [OF p that(2) _ that(3)] that(1) by (auto simp: own_lock_def)
  qed
  have idle0: "\<not> active p" if "j \<noteq> i" "opener_at w j q" "active q" for j q
    using D(3) [OF p that(2) _ that(3)] that(1) by blast
  have keep: "own_lock q w' \<and> lw_tmp w' = lw_tmp w \<and> lw_files w' = lw_files w" if "j \<noteq> i" "opener_at w j q" "active q" for j q
    by (rule others [OF that idle0 [OF that] D(4) [OF that(2,3)]])
  show ?thesis
    unfolding lease_inv_def at own fields
  proof (intro conjI allI impI)
    fix j k q r
    assume a: "if j = i then q = p' else opener_at w j q" "if k = i then r = p' else opener_at w k r" "op_token q = op_token r"
    obtain q1 where "opener_at w j q1" "op_token q1 = op_token q"
      using a(1) p tok(1) by (metis (full_types))
    moreover obtain r1 where "opener_at w k r1" "op_token r1 = op_token r"
      using a(2) p tok(1) by (metis (full_types))
    ultimately show "j = k"
      using D(1) a(3) by metis
  next
    fix j k q r
    assume a: "if j = i then q = p' else opener_at w j q" "if k = i then r = p' else opener_at w k r" "active q" "active r"
    show "j = k"
    proof (rule ccontr)
      assume "j \<noteq> k"
      then show False
        using a idle [of j q] idle [of k r] D(3) [of j q k r] by (metis (full_types))
    qed
  next
    fix j q assume "if j = i then q = p' else opener_at w j q" "active q"
    then show "own_lock q w'"
      using act keep by (auto split: if_splits)
  next
    fix j q assume q: "if j = i then q = p' else opener_at w j q" "op_phase q = Replacing"
    then have "active q"
      by (simp add: active_def)
    then show "\<exists>n d. lw_tmp w' = Some n \<and> lw_files w' n = Some d \<and> le_token d = Some (op_token q)"
      using q repl keep [of j q] D(5) [of j q] tok(1) by (auto split: if_splits)
  next
    fix j q assume "if j = i then q = p' else opener_at w j q"
    then show "\<not> op_lost q"
      using D(2) tok(2) by (auto split: if_splits)
  next
    fix n assume "lw_lock w' = Some n \<or> lw_tmp w' = Some n"
    then show "n < lw_next w'" by (rule fresh)
  next
    assume c: clean and l: "lw_lock w' \<noteq> None"
    show "\<exists>j q. (if j = i then q = p' else opener_at w j q) \<and> (active q \<or> op_phase q = Crashed)"
    proof (cases "active p' \<or> op_phase p' = Crashed")
      case True
      then show ?thesis by auto
    next
      case False
      then obtain j q where "opener_at w j q" "active q \<or> op_phase q = Crashed" "\<not> active p" "op_phase p \<noteq> Crashed"
        using gone [OF l] D(7) [OF c] by blast
      moreover from this p have "j \<noteq> i"
        by (auto simp: opener_at_def)
      ultimately show ?thesis by auto
    qed
  qed
qed

lemma own_lock_same: "lw_lock w' = lw_lock w \<Longrightarrow> lw_files w' = lw_files w \<Longrightarrow> own_lock q w' = own_lock q w"
  by (simp only: own_lock_def)

lemma own_lock_token:
  assumes "own_lock p w" and "\<And>m. op_phase p \<noteq> Writing m"
  shows "\<exists>d. read_lock w = Some d \<and> le_token d = Some (op_token p)"
  using assms(1) assms(2) [of "case op_phase p of Writing m \<Rightarrow> m | _ \<Rightarrow> 0"]
  by (cases "op_phase p") (auto simp: own_lock_def read_lock_def)

lemma own_step_inv:
  assumes inv: "lease_inv clean w" and p: "opener_at w i p"
    and run: "op_phase p \<notin> {Holding, Refused, Released, Crashed}" and calm: "\<And>why. op_phase p \<noteq> Reclaiming why"
    and own: "own_step ttl p w = (p', w')"
  shows "lease_inv clean (put_opener i p' w')"
proof -
  note D = lease_invD [OF inv]
  have lost: "\<not> op_lost p"
    by (rule D(2) [OF p])
  have tok: "\<exists>d. read_lock w = Some d \<and> le_token d = Some (op_token p)" if "active p" "\<And>m. op_phase p \<noteq> Writing m"
    by (rule own_lock_token [OF D(4) [OF p that(1)] that(2)])
  show ?thesis
  proof (cases "op_phase p")
    case Opening
    show ?thesis
      by (rule lease_inv_put [OF inv p]; use own Opening lost D(6) in \<open>auto simp: own_step_def acquire_step_def active_def own_lock_def less_Suc_eq split: option.splits\<close>)
  next
    case Reading
    show ?thesis
      by (rule lease_inv_put [OF inv p]; use own Reading lost D(6) in \<open>auto simp: own_step_def acquire_step_def active_def split: option.splits\<close>)
  next
    case (Writing n)
    then have "lw_lock w = Some n"
      using D(4) [OF p] by (auto simp: own_lock_def active_def)
    then show ?thesis
      by (intro lease_inv_put [OF inv p]; use own Writing lost D(6) in \<open>auto simp: own_step_def acquire_step_def active_def own_lock_def lease_payload_def\<close>)
  next
    case Refreshing
    then have "\<not> foreign p (read_lock w)"
      using tok by (auto simp: active_def foreign_def)
    then show ?thesis
      by (intro lease_inv_put [OF inv p]; use own Refreshing lost D(4) [OF p] D(6) in \<open>auto simp: own_step_def refresh_step_def active_def own_lock_def\<close>)
  next
    case Staging
    then show ?thesis
      by (intro lease_inv_put [OF inv p]; use own lost D(4) [OF p] D(6) in \<open>force simp: own_step_def refresh_step_def active_def own_lock_def lease_payload_def less_Suc_eq\<close>)
  next
    case Replacing
    then obtain n d where "lw_tmp w = Some n" "lw_files w n = Some d" "le_token d = Some (op_token p)"
      using D(5) [OF p] by blast
    then show ?thesis
      by (intro lease_inv_put [OF inv p]; use own Replacing lost D(6) in \<open>auto simp: own_step_def refresh_step_def active_def own_lock_def\<close>)
  next
    case Closing
    then obtain d where "read_lock w = Some d" "le_token d = Some (op_token p)"
      using tok by (auto simp: active_def)
    then show ?thesis
      by (intro lease_inv_put [OF inv p]; use own Closing lost D(4) [OF p] D(6) in \<open>auto simp: own_step_def release_step_def active_def own_lock_def\<close>)
  next
    case Dropping
    then show ?thesis
      by (intro lease_inv_put [OF inv p]; use own lost D(6) in \<open>auto simp: own_step_def release_step_def active_def\<close>)
  qed (use run calm in auto)
qed

lemma lease_step_inv:
  assumes inv: "lease_inv clean w" and step: "lease_step ttl w a w'" and calm: "\<not> takes_over w a"
  shows "lease_inv clean w'"
  using step
proof cases
  case tick
  have "own_lock q w' = own_lock q w" for q
    by (rule own_lock_same) (simp_all add: tick)
  then show ?thesis
    using inv by (simp add: lease_inv_def opener_at_def tick)
next
  case (own i p p' w1)
  then have "op_phase p \<noteq> Reclaiming why" for why
    using calm by (auto simp: takes_over_def)
  then show ?thesis
    using own_step_inv [OF inv _ own(4) _ own(5)] own(2,3) by (simp add: opener_at_def)
next
  case (wake i p)
  have "lease_inv clean (put_opener i (p\<lparr>op_phase := Refreshing\<rparr>) w)"
    using wake(3,4) lease_invD(2,4) [OF inv, of i p] lease_invD(6) [OF inv]
    by (intro lease_inv_put [OF inv]) (auto simp: opener_at_def active_def own_lock_def)
  then show ?thesis
    by (simp add: wake)
next
  case (close i p)
  have "lease_inv clean (put_opener i (p\<lparr>op_phase := Closing\<rparr>) w)"
    using close(3,4) lease_invD(2,4) [OF inv, of i p] lease_invD(6) [OF inv]
    by (intro lease_inv_put [OF inv]) (auto simp: opener_at_def active_def own_lock_def)
  then show ?thesis
    by (simp add: close)
next
  case (crash i p)
  have same: "own_lock q (w\<lparr>lw_alive := l\<rparr>) = own_lock q w" for q l
    by (rule own_lock_same) simp_all
  have "lease_inv clean (put_opener i (p\<lparr>op_phase := Crashed\<rparr>) (w\<lparr>lw_alive := filter (\<lambda>x. x \<noteq> (op_host p, op_pid p)) (lw_alive w)\<rparr>))"
    using crash(3) lease_invD(2) [OF inv, of i p] lease_invD(6) [OF inv]
    by (intro lease_inv_put [OF inv]) (auto simp: opener_at_def active_def same)
  then show ?thesis
    by (simp add: crash)
qed

definition fresh_openers :: "lease_world \<Rightarrow> bool" where
  "fresh_openers w \<longleftrightarrow>
     (\<forall>i j p q. opener_at w i p \<longrightarrow> opener_at w j q \<longrightarrow> op_token p = op_token q \<longrightarrow> i = j) \<and>
     (\<forall>i p. opener_at w i p \<longrightarrow> op_phase p = Opening \<and> \<not> op_lost p) \<and>
     (\<forall>n. lw_lock w = Some n \<or> lw_tmp w = Some n \<longrightarrow> n < lw_next w)"

lemma calm_run_inv:
  assumes "calm_run ttl w as w'" and "fresh_openers w"
  shows "lease_inv (lw_lock w = None) w'"
  using assms(1)
proof induction
  case start
  then show ?case
    using assms(2) by (auto simp: fresh_openers_def lease_inv_def active_def)
next
  case (more as w1 a w2)
  then show ?case
    using lease_step_inv by blast
qed

lemma calm_run_run: "calm_run ttl w as w' \<Longrightarrow> lease_run ttl w as w'"
  by (induction rule: calm_run.induct) (auto intro: lease_run.intros)

text \<open>
  C13: the lease excludes. On any run of any number of openers, with crashes, refreshes, pauses and
  releases in any order, in which no lock file is taken over: at most one opener is between acquiring
  and releasing, the lock file names the holder, no lease is lost, and if the directory held no lock
  file at the start then a lock file is there only while somebody holds it or after a crash.
\<close>

theorem lease_exclusive:
  assumes "calm_run ttl w as w'" and "fresh_openers w"
  shows "(\<forall>i j p q. opener_at w' i p \<longrightarrow> opener_at w' j q \<longrightarrow> active p \<longrightarrow> active q \<longrightarrow> i = j) \<and>
    (\<forall>i p. opener_at w' i p \<longrightarrow> holds_lease p \<longrightarrow> (\<exists>d. read_lock w' = Some d \<and> le_token d = Some (op_token p))) \<and>
    (\<forall>i p. opener_at w' i p \<longrightarrow> \<not> op_lost p) \<and>
    (lw_lock w = None \<longrightarrow> lw_lock w' \<noteq> None \<longrightarrow> (\<exists>i p. opener_at w' i p \<and> (active p \<or> op_phase p = Crashed)))"
proof -
  note D = lease_invD [OF calm_run_inv [OF assms]]
  have "\<exists>d. read_lock w' = Some d \<and> le_token d = Some (op_token p)" if "opener_at w' i p" "holds_lease p" for i p
    using that(2) by (intro own_lock_token [OF D(4) [OF that(1)]]) (auto simp: holds_lease_def active_def)
  then show ?thesis
    using D(2,3,7) by blast
qed

section \<open>A lost lease\<close>

definition actor_of :: "lease_act \<Rightarrow> nat option" where
  "actor_of a = (case a of Tick \<Rightarrow> None | Step i \<Rightarrow> Some i | Wake i \<Rightarrow> Some i | Close i \<Rightarrow> Some i | Crash i \<Rightarrow> Some i)"

definition lost_ok :: "opener \<Rightarrow> bool" where
  "lost_ok p \<longleftrightarrow> (op_lost p \<longrightarrow> op_phase p \<in> {Holding, Closing, Released, Crashed})"

lemma own_step_lost:
  assumes "own_step ttl p w = (p', w')" and "lost_ok p" and "op_phase p \<noteq> Holding"
  shows "lost_ok p'" and "lw_openers w' = lw_openers w"
    and "op_lost p \<Longrightarrow> op_lost p' \<and> w' = w"
  using assms
  by (auto simp: own_step_def acquire_step_def refresh_step_def release_step_def lost_ok_def split: lease_phase.splits if_splits option.splits)

lemma lost_ok_step:
  assumes ok: "\<forall>i p. opener_at w i p \<longrightarrow> lost_ok p" and step: "lease_step ttl w a w'"
  shows "\<forall>i p. opener_at w' i p \<longrightarrow> lost_ok p"
  using step
proof cases
  case (own i p p' w1)
  have "lost_ok p"
    using ok own(3) by (simp add: opener_at_def)
  then show ?thesis
    using ok own own_step_lost(1,2) [OF own(5)] by (auto simp: opener_at_def put_opener_def)
qed (use ok in \<open>auto simp: opener_at_def put_opener_def lost_ok_def\<close>)

text \<open>
  C31: a lost lease stays out. On any run, takeovers included: a holder that found a foreign token in
  the lock file never again creates, replaces or removes a lock file, and its lease stays lost.
\<close>

theorem lost_stays_out:
  assumes "lease_run ttl w as w'" and "fresh_openers w"
    and "opener_at w' i p" and "op_lost p" and "lease_step ttl w' a w''" and "actor_of a = Some i"
  shows "lw_lock w'' = lw_lock w' \<and> lw_tmp w'' = lw_tmp w' \<and> lw_files w'' = lw_files w' \<and>
    (\<exists>p'. opener_at w'' i p' \<and> op_lost p')"
proof -
  have "\<forall>i p. opener_at w' i p \<longrightarrow> lost_ok p"
    using assms(1)
  proof induction
    case start
    then show ?case
      using assms(2) by (auto simp: fresh_openers_def lost_ok_def)
  qed (use lost_ok_step in blast)
  then have ok: "lost_ok p"
    using assms(3) by blast
  show ?thesis
    using assms(5)
  proof cases
    case (own j q q' w1)
    then have "q = p" "j = i"
      using assms(3,6) by (auto simp: opener_at_def actor_of_def)
    then show ?thesis
      using own_step_lost [OF own(5)] ok own(2,4) assms(4) by (auto simp: opener_at_def put_opener_def)
  qed (use assms(3,4,6) in \<open>auto simp: opener_at_def actor_of_def put_opener_def\<close>)
qed

section \<open>Runs by computation\<close>

definition perform :: "int \<Rightarrow> lease_world \<Rightarrow> lease_act \<Rightarrow> lease_world option" where
  "perform ttl w a =
     (case a of
        Tick \<Rightarrow> Some (w\<lparr>lw_clock := lw_clock w + 1\<rparr>)
      | Step i \<Rightarrow>
          (case dict_get (lw_openers w) i of
             None \<Rightarrow> None
           | Some p \<Rightarrow> if op_phase p \<in> {Holding, Refused, Released, Crashed} then None
                       else (case own_step ttl p w of (p', w') \<Rightarrow> Some (put_opener i p' w')))
      | Wake i \<Rightarrow>
          (case dict_get (lw_openers w) i of
             None \<Rightarrow> None
           | Some p \<Rightarrow> if op_phase p = Holding \<and> \<not> op_lost p then Some (put_opener i (p\<lparr>op_phase := Refreshing\<rparr>) w) else None)
      | Close i \<Rightarrow>
          (case dict_get (lw_openers w) i of
             None \<Rightarrow> None
           | Some p \<Rightarrow> if op_phase p = Holding then Some (put_opener i (p\<lparr>op_phase := Closing\<rparr>) w) else None)
      | Crash i \<Rightarrow>
          (case dict_get (lw_openers w) i of
             None \<Rightarrow> None
           | Some p \<Rightarrow> Some (put_opener i (p\<lparr>op_phase := Crashed\<rparr>)
               (w\<lparr>lw_alive := filter (\<lambda>x. x \<noteq> (op_host p, op_pid p)) (lw_alive w)\<rparr>))))"

lemma perform_step: "perform ttl w a = Some w' \<Longrightarrow> lease_step ttl w a w'"
  by (auto simp: perform_def intro: lease_step.intros split: lease_act.splits option.splits if_splits prod.splits)

fun perform_all :: "int \<Rightarrow> lease_world \<Rightarrow> lease_act list \<Rightarrow> lease_world option" where
  "perform_all ttl w [] = Some w"
| "perform_all ttl w (a # as) = (case perform ttl w a of None \<Rightarrow> None | Some w' \<Rightarrow> perform_all ttl w' as)"

fun calm_acts :: "int \<Rightarrow> lease_world \<Rightarrow> lease_act list \<Rightarrow> bool" where
  "calm_acts ttl w [] = True"
| "calm_acts ttl w (a # as) = (\<not> takes_over w a \<and> (case perform ttl w a of None \<Rightarrow> True | Some w' \<Rightarrow> calm_acts ttl w' as))"

lemma run_append: "lease_run ttl w as w1 \<Longrightarrow> perform_all ttl w1 bs = Some w2 \<Longrightarrow> lease_run ttl w (as @ bs) w2"
proof (induction bs arbitrary: as w1)
  case (Cons b bs)
  then obtain w3 where w3: "perform ttl w1 b = Some w3" "perform_all ttl w3 bs = Some w2"
    by (auto split: option.splits)
  have "lease_run ttl w (as @ [b]) w3"
    using Cons.prems(1) perform_step [OF w3(1)] by (rule lease_run.more)
  from Cons.IH [OF this w3(2)] show ?case
    by simp
qed simp

lemma calm_append: "calm_run ttl w as w1 \<Longrightarrow> perform_all ttl w1 bs = Some w2 \<Longrightarrow> calm_acts ttl w1 bs \<Longrightarrow> calm_run ttl w (as @ bs) w2"
proof (induction bs arbitrary: as w1)
  case (Cons b bs)
  then obtain w3 where w3: "perform ttl w1 b = Some w3" "perform_all ttl w3 bs = Some w2" "calm_acts ttl w3 bs" "\<not> takes_over w1 b"
    by (auto split: option.splits)
  have "calm_run ttl w (as @ [b]) w3"
    using Cons.prems(1) perform_step [OF w3(1)] w3(4) by (rule calm_run.more)
  from Cons.IH [OF this w3(2,3)] show ?case
    by simp
qed simp

lemmas run_of = run_append [OF lease_run.start, simplified]
lemmas calm_of = calm_append [OF calm_run.start, simplified]

text \<open>Two processes of one host, on an empty directory and over the lock of a process that died.\<close>

definition two_openers :: lease_world where
  "two_openers = \<lparr>lw_clock = 100, lw_lock = None, lw_tmp = None, lw_files = (\<lambda>n. None), lw_next = 1, lw_alive = [(0, 11), (0, 12)],
     lw_openers = [(1, \<lparr>op_token = 1, op_host = 0, op_pid = 11, op_phase = Opening, op_lost = False\<rparr>),
       (2, \<lparr>op_token = 2, op_host = 0, op_pid = 12, op_phase = Opening, op_lost = False\<rparr>)]\<rparr>"

definition dead_lock :: lease_world where
  "dead_lock = two_openers\<lparr>lw_lock := Some 0,
     lw_files := (\<lambda>n. if n = 0 then Some \<lparr>le_pid = Some 10, le_token = Some 9, le_ts = Some 99, le_host = Some 0\<rparr> else None)\<rparr>"

lemma samples_fresh: "fresh_openers two_openers" "fresh_openers dead_lock"
  by (auto simp: fresh_openers_def opener_at_def two_openers_def dead_lock_def split: if_splits)

definition status_of :: "nat \<Rightarrow> lease_world \<Rightarrow> (lease_phase \<times> bool) option" where
  "status_of i w = map_option (\<lambda>p. (op_phase p, op_lost p)) (dict_get (lw_openers w) i)"

lemma status_ofE:
  assumes "status_of i w = Some (ph, lost)"
  obtains p where "opener_at w i p" "op_phase p = ph" "op_lost p = lost"
  using assms by (auto simp: status_of_def opener_at_def)

definition both :: "lease_world option \<Rightarrow> ((lease_phase \<times> bool) option \<times> (lease_phase \<times> bool) option) option" where
  "both = map_option (\<lambda>w. (status_of 1 w, status_of 2 w))"

text \<open>The first acquires, the second is refused, the first refreshes.\<close>

definition orderly :: "lease_act list" where
  "orderly = [Step 1, Step 1, Tick, Step 2, Step 2, Wake 1, Step 1, Step 1, Step 1]"

theorem lease_exclusive_witness:
  "\<exists>w p q d. calm_run 30 two_openers orderly w \<and> opener_at w 1 p \<and> holds_lease p \<and> opener_at w 2 q \<and> op_phase q = Refused \<and>
     read_lock w = Some d \<and> le_token d = Some (op_token p)"
proof -
  have "both (perform_all 30 two_openers orderly) = Some (Some (Holding, False), Some (Refused, False))" "calm_acts 30 two_openers orderly"
    by code_simp+
  then obtain w where w: "perform_all 30 two_openers orderly = Some w" "status_of 1 w = Some (Holding, False)" "status_of 2 w = Some (Refused, False)"
    by (auto simp: both_def)
  have c: "calm_run 30 two_openers orderly w"
    by (rule calm_of [OF w(1)]) code_simp
  show ?thesis
    using status_ofE [OF w(2)] status_ofE [OF w(3)] lease_exclusive [OF c samples_fresh(1)] c by (metis holds_lease_def insertI1)
qed

text \<open>Both find the dead process's lock stale; the second removes the lock the first has just written.\<close>

definition stale_race :: "lease_act list" where
  "stale_race = [Step 1, Step 1, Step 2, Step 2, Step 1, Step 1, Step 1, Step 2, Step 2, Step 2]"

text \<open>The second reads the lock file between its creation and its first write.\<close>

definition empty_race :: "lease_act list" where
  "empty_race = [Step 1, Step 2, Step 2, Step 1, Step 2, Step 2, Step 2]"

lemma two_holders:
  assumes "both (perform_all ttl w as) = Some (Some (Holding, False), Some (Holding, False))"
  shows "\<exists>w'. lease_run ttl w as w' \<and> (\<exists>p q. opener_at w' 1 p \<and> holds_lease p \<and> opener_at w' 2 q \<and> holds_lease q)"
proof -
  obtain w' where w: "perform_all ttl w as = Some w'" "status_of 1 w' = Some (Holding, False)" "status_of 2 w' = Some (Holding, False)"
    using assms by (auto simp: both_def)
  show ?thesis
    using run_of [OF w(1)] status_ofE [OF w(2)] status_ofE [OF w(3)] by (metis holds_lease_def insertI1)
qed

text \<open>
  C35: a takeover can let two writers in. The unlink of \<open>acquire\<close> removes whatever the directory names by
  then. Two openers that both judged the lock of a dead process stale both acquire, with no time
  passing; and an opener that reads a lock file before its creator has written it takes it over
  although nothing is stale. In both runs both leases are held and neither is marked lost.
\<close>

theorem two_writers:
  "(\<exists>w. lease_run 30 dead_lock stale_race w \<and> (\<exists>p q. opener_at w 1 p \<and> holds_lease p \<and> opener_at w 2 q \<and> holds_lease q)) \<and>
   (\<exists>w. lease_run 30 two_openers empty_race w \<and> (\<exists>p q. opener_at w 1 p \<and> holds_lease p \<and> opener_at w 2 q \<and> holds_lease q))"
proof
  have "both (perform_all 30 dead_lock stale_race) = Some (Some (Holding, False), Some (Holding, False))"
    by code_simp
  then show "\<exists>w. lease_run 30 dead_lock stale_race w \<and> (\<exists>p q. opener_at w 1 p \<and> holds_lease p \<and> opener_at w 2 q \<and> holds_lease q)"
    by (rule two_holders)
  have "both (perform_all 30 two_openers empty_race) = Some (Some (Holding, False), Some (Holding, False))"
    by code_simp
  then show "\<exists>w. lease_run 30 two_openers empty_race w \<and> (\<exists>p q. opener_at w 1 p \<and> holds_lease p \<and> opener_at w 2 q \<and> holds_lease q)"
    by (rule two_holders)
qed

theorem lost_stays_out_witness:
  "\<exists>w p w'. lease_run 30 dead_lock (stale_race @ [Wake 1, Step 1, Close 1]) w \<and> opener_at w 1 p \<and> op_lost p \<and>
     lease_step 30 w (Step 1) w' \<and> lw_lock w' = lw_lock w \<and> lw_files w' = lw_files w"
proof -
  let ?as = "stale_race @ [Wake 1, Step 1, Close 1]"
  have "both (perform_all 30 dead_lock ?as) = Some (Some (Closing, True), Some (Holding, False))"
    by code_simp
  then obtain w where w: "perform_all 30 dead_lock ?as = Some w" "status_of 1 w = Some (Closing, True)"
    by (auto simp: both_def)
  obtain p where p: "opener_at w 1 p" "op_phase p = Closing" "op_lost p"
    using status_ofE [OF w(2)] by auto
  obtain w' where w': "perform 30 w (Step 1) = Some w'"
    using p by (cases "own_step 30 p w") (auto simp: perform_def opener_at_def)
  show ?thesis
    using lost_stays_out [OF run_of [OF w(1)] samples_fresh(2) p(1,3) perform_step [OF w']] run_of [OF w(1)] p perform_step [OF w']
    by (auto simp: actor_of_def)
qed

end
