(* ===== verification/Spec2Isabelle.thy ===== *)
theory Spec2Isabelle
  imports Maintenance Store_Claims Store_Access Query_Claims Lease
begin

text \<open>
  A verification development of datacrystal, an embedded object database for Python
  (\<open>src/src/datacrystal/\<close>). It models the engine: the values and classes the program persists, the
  indexes and the query planner, the session (\<open>Store\<close>) with its registration, three-phase commit, write
  gate, loading and queries, the storage backends, the record codec, the stream of commit deltas with
  its consumers, and the single-writer lease.

  \<^bold>\<open>The parts and how they interact.\<close> A session holds live entities. A write marks an entity new, dirty
  or deleted; \<open>commit\<close> discovers what the buffered entities reach, checks the write gate, the unique
  fields and dangling deletions, encodes the records and builds a batch under the next TID (P1), hands
  the batch to the storage backend (P2), and folds it into the indexes and delivers a delta to every
  consumer (P3). A failed P2 is compensated: the buffers and the TID are as before. Reads go from
  committed state: a query plans over the class index, cuts the candidates to the rows the principal may
  read, and loads or decodes the rest; a dereference is checked against the committed labels.

  \<^bold>\<open>Theories and sources\<close> (paths under \<open>src/src/datacrystal/\<close>).

  \<^item> \<open>Prelude\<close>: the errors of \<open>_errors.py\<close> and of Python as the constructors of \<open>error\<close>; the result type
    \<open>'a res\<close> (\<open>error + 'a\<close>); the action type \<open>('s, 'a) act\<close>, a state passing function that keeps the state
    it reached when it raises; Python dicts as association lists in insertion order; the list and
    dict lemmas all components share.
  \<^item> \<open>Values\<close>: the Python values a store handles (\<open>pyval\<close>), with \<open>==\<close>, hashing and ordering.
  \<^item> \<open>Ids\<close>: \<open>_ids.py\<close>, \<open>_state.py\<close>. \<open>Permissions\<close>: \<open>_permissions.py\<close>, \<open>_actors.py\<close>. \<open>Entity\<close>:
    \<open>_entity.py\<close> (hints, markers, \<open>FieldSpec\<close>, \<open>make_entity\<close>). \<open>Conditions\<close>: \<open>_conditions.py\<close>.
  \<^item> \<open>Indexes\<close>, \<open>Index_Build\<close>, \<open>Planner\<close>, \<open>Index_Manager\<close>: \<open>_indexes.py\<close> (\<open>ClassIndexes\<close>,
    \<open>build_class_indexes\<close>, \<open>plan\<close> and the ordering, \<open>IndexManager\<close>); \<open>Index_Cache\<close>: \<open>_index_cache.py\<close>.
    \<open>Index_Rep\<close>, \<open>Index_Inv\<close>, \<open>Index_Load\<close>, \<open>Planner_Lemmas\<close>, \<open>Plan_Sound\<close> and \<open>Index_Commit\<close> prove what
    an index represents and that each operation keeps it; \<open>Maintenance\<close> states the results on runs.
  \<^item> \<open>Storage\<close>: \<open>_storage/protocol.py\<close>, \<open>_storage/memory.py\<close>; \<open>Sqlite\<close>: \<open>_storage/sqlite.py\<close> over its four
    tables; \<open>Records\<close>: \<open>_records.py\<close>; \<open>Delta\<close>: \<open>_pipeline.py\<close>, \<open>contract/applier.py\<close>; \<open>Delta_Log\<close>:
    \<open>deltalog.py\<close>; \<open>Durability\<close> states their properties.
  \<^item> \<open>Store_Gate\<close>, \<open>Store_State\<close>, \<open>Store_Register\<close>, \<open>Store_Ops\<close>, \<open>Store_Commit\<close>, \<open>Store_Read\<close>, \<open>Store_Query\<close>,
    \<open>Store_Surface\<close>: \<open>_store.py\<close> in this order: the write gate, the state of \<open>Store.__init__\<close> as the record
    \<open>store\<close> with the environment \<open>senv\<close>, the registration walk, the buffering operations, the commit,
    loading and dereference (with \<open>Lazy.get\<close>, \<open>BlobHandle.bytes\<close> of \<open>_lazy.py\<close> and \<open>make_twin\<close> of
    \<open>_redacted.py\<close>), the queries and lookups, and the rest of the public surface (backlinks, \<open>verify\<close>,
    \<open>migrate\<close>, blob reads, the root, \<open>upsert\<close>). A function of the source has a definition of its name
    without the leading underscore.
  \<^item> \<open>Store_Walk\<close>, \<open>Store_Rounds\<close>, \<open>Store_Phases\<close>, \<open>Store_Outcome\<close>, \<open>Store_Session\<close>, \<open>Store_Run\<close>,
    \<open>Store_Mirror\<close>, \<open>Store_Fence\<close> prove the session; \<open>Store_Claims\<close> and \<open>Store_Access\<close> state its properties.
    \<open>Store_Load\<close>, \<open>Store_Hydrate\<close>, \<open>Store_Fetch\<close> prove loading, \<open>Fetch_Claims\<close> states its properties;
    \<open>Query_Exact\<close> and \<open>Query_Claims\<close> do the same for queries and checks.
  \<^item> \<open>Lease\<close>: \<open>_storage/lock.py\<close>, as interleaved steps of openers, with its properties.
  \<^item> \<open>Samples\<close>, \<open>Store_Samples\<close>: the concrete classes and sessions that closed instances evaluate on.

  \<^bold>\<open>Interfaces.\<close> \<open>storage_backend\<close> (what \<open>apply\<close>, \<open>load_many\<close>, \<open>scan_type\<close> promise) is interpreted by both
  backends; \<open>delta_consumer\<close> (watermark, gap refusal, idempotence) by the reference applier and the delta
  log; \<open>session_backend\<close> and \<open>watched_session\<close> extend the first to sessions and are interpreted over both
  backends, so each result on commits and runs is proved once.

  \<^bold>\<open>What the groups of lemmas show.\<close>

  \<^item> Sessions: a commit is all or nothing with its TID and buffers (C1); whatever it made durable was
    admitted record by record (C3, C16); on every run TIDs are gapless, one live instance stands for an
    OID and consumers mirror the store (C7, C15, C17); registration ends and is complete (C18, C19).
  \<^item> Reads: a load ends on any graph and restores what was stored (C8, C9), leaves no protected instance
    in a shared parent (C29); a dereference is fenced (C4); \<open>count\<close> and \<open>pluck\<close> are exact (C5); a store that
    \<open>verify\<close> passes reads cleanly (C30).
  \<^item> Indexes: a plan is equivalent to its condition (C2), the incremental index is the index of the
    table (C10, C11), the built one too (C21), the reverse index answers exactly the referrers (C12), the
    readable bitmap is the read predicate (C23), the cache round trips (C25, C26).
  \<^item> Durability: SQLite refines the in-memory backend (C6), payloads round trip (C22), deltas take a
    consumer from one database to the next (C20), the log replays what it recorded, crashes included
    (C14, C24).
  \<^item> Lease: without a takeover there is one holder (C13), a lost lease stays out (C31).
  \<^item> Inputs for which the code does not do what it says: C27, C28, C33 to C40.

  \<^bold>\<open>Parameters.\<close> Code that is not in the repository is an argument of the definitions that use it: msgspec's
  encoder and decoder (\<open>se_enc\<close>, \<open>se_dec\<close>, which round trip where a property needs it), the text forms of
  dates, times and decimals (\<open>text_ok\<close>: printing then parsing is the identity), SHA-256 (\<open>se_sha\<close>), the
  serialization of roaring bitmaps (bitmaps themselves are finite sets of numbers, iterated in ascending
  order), the consumers of deltas, and the failures a backend, a write or a crash may inject. The lease
  takes the clock, the file system and the processes alive as its world.

  \<^bold>\<open>Termination.\<close> \<open>register_loop\<close> takes a bound, and C18 shows that one more than the references on the
  heap always suffices. \<open>fill_loop\<close> is a partial function; C8 shows that it returns on every stored graph,
  since each round fills a shell and each record gets at most one. The operations that hydrate are
  partial for the same reason only. Every other recursion is structural or has a measure.

  \<^bold>\<open>Simplifications.\<close> A generator is the list of its results and its first error. A persistent container
  is its plain value, so a write through an aliased container is a write of the field. The registry
  keeps every entity, where the source drops clean ones that nobody holds. Memo tables (the hydration
  plan per type id, the class per type id) are pure functions. An error of a scan under an index build
  reads as an empty class. The identity of a lazy handle is fresh within the load that made it. A blob
  handle does not carry the OID of its owner; the read of its bytes takes it as an argument. The uid of
  an actor in a delta is a natural number. A fold of the last phase that raises keeps the index as it was
  before it, where the source may keep a part of the fold. A single NaN of a Decimal is the only one.
  In the lease, the write of the temporary file is one step, and joining the refresher always succeeds.

  \<^bold>\<open>Not modelled.\<close> The owner-thread check, the submission queue and the idle sweep that \<open>_enter\<close> runs; opening
  and closing a session and its cache timer; \<open>sync\<close> and the retry loop of \<open>committing\<close>; snapshots and
  followers; debug fingerprints; warnings, log records and message texts; the consumers over FTS5 and
  Arrow, the web surfaces and the asyncio facade, which are glue to libraries; and persistent containers.
\<close>

section \<open>Queries and indexes\<close>




text \<open>
  C10: a commit keeps the index exact. After the inserts and removals of a batch, one per OID, the
  index represents the updated table (extent, postings, sorted runs, un-index memory) and every unique
  key is held by exactly the OID that has it, in whatever order keys moved between entities, provided
  the resulting table has no duplicate unique key.
\<close>

theorem index_batch_exact:
  assumes "ci_rep ci tab" and "uniq_rep ci tab UNIV" and "fold_res ci_step steps ci = Inr ci'"
    and "\<forall>(oid, ro) \<in> set steps. \<forall>r. ro = Some r \<longrightarrow> row_ok (ci_list_fields ci) r"
    and "distinct (map fst steps)" and "tab_unique ci (tab_steps steps tab)"
  shows "ci_rep ci' (tab_steps steps tab) \<and> uniq_rep ci' (tab_steps steps tab) UNIV"
  using ci_batch [OF assms(1-3) _ assms(5,6)] assms(4) by blast

theorem index_batch_exact_witness:
  "\<exists>ci'. fold_res ci_step [(8, Some sample_row), (7, None)] sample_index = Inr ci' \<and>
     ci_rep ci' (tab_steps [(8, Some sample_row), (7, None)] sample_table) \<and>
     holder ci' ''name'' (KStr ''ada'') = Some 8"
proof -
  let ?steps = "[(8, Some sample_row), (7, None)]"
  let ?ci' = "sample_index\<lparr>ci_extent := {8},
     ci_eq := [(''age'', [(KNum 36, {8}), (KNum 41, {})]), (''tags'', [(KStr ''x'', {8})])],
     ci_unique := [(''name'', [(KStr ''ada'', 8)])], ci_last_values := [(8, sample_row)]\<rparr>"
  have st: "fold_res ci_step ?steps sample_index = Inr ?ci'"
    by (simp add: index_eval sample_index_def sample_row_def sample_row2_def ensure_last_values_def
        ci_remove_def unindex_def unindex_field_def post_discard_def Let_def insert_Diff_if)
  have ok: "\<forall>(oid, ro) \<in> set ?steps. \<forall>r. ro = Some r \<longrightarrow> row_ok (ci_list_fields sample_index) r"
    using sample_rows_ok by (auto simp: sample_index_def)
  have "tab_unique sample_index (tab_steps ?steps sample_table)"
    by (auto simp: tab_unique_def tab_has_def split: if_splits)
  then show ?thesis
    using st index_batch_exact [OF sample_rep(1,2) st ok]
    by (simp add: holder_def dict_getd_def)
qed

text \<open>
  C21: an index built by scanning the lineage of a class, oldest shape first, with the additive
  schema-evolution fill, is the index of the scanned rows.
\<close>

theorem built_index_exact:
  assumes "typeinfo_wf ti" and "build_class_indexes decode ti lineage scan = Inr ci"
    and "lineage_rows decode ti lineage scan = Inr rows" and "distinct (map fst rows)"
    and "\<forall>(oid, ro) \<in> set rows. \<forall>r. ro = Some r \<longrightarrow> row_ok (multivalued_field_names ti) r"
    and "tab_unique (empty_index ti) (tab_steps rows Map.empty)"
  shows "ci_rep ci (tab_steps rows Map.empty) \<and> uniq_rep ci (tab_steps rows Map.empty) UNIV"
  using build_class_indexes_rep [OF assms(1-4) _ assms(6)] assms(5) by blast

definition sample_decode :: "bytes \<Rightarrow> pyval list res" where
  "sample_decode b =
     (if b = [1] then Inr [PStr ''ada'', PInt 36] else Inr [PStr ''bob'', PInt 41, PList [PStr ''x'']])"

definition sample_scan :: "nat \<Rightarrow> (nat \<times> bytes) list" where
  "sample_scan cid = (if cid = 1 then [(7, [1])] else [(8, [2])])"

definition sample_lineage :: "(nat \<times> string list) list" where
  "sample_lineage = [(1, [''name'', ''age'']), (2, [''name'', ''age'', ''tags''])]"

lemmas build_eval = schema_evolution_fill_def fill_field_def record_entry_def Let_def sample_decode_def
  sample_scan_def sample_lineage_def

theorem built_index_exact_witness:
  "\<exists>ci rows. build_class_indexes sample_decode sample_ti sample_lineage sample_scan = Inr ci \<and>
     rows = [(7, Some [(''name'', PStr ''ada''), (''age'', PInt 36), (''tags'', PNone)]),
             (8, Some [(''name'', PStr ''bob''), (''age'', PInt 41), (''tags'', PList [PStr ''x''])])] \<and>
     ci_rep ci (tab_steps rows Map.empty)"
proof -
  let ?r1 = "[(''name'', PStr ''ada''), (''age'', PInt 36), (''tags'', PNone)]"
  let ?r2 = "[(''name'', PStr ''bob''), (''age'', PInt 41), (''tags'', PList [PStr ''x''])]"
  let ?rows = "[(7, Some ?r1), (8, Some ?r2)]"
  have ti: "ti_protected sample_ti = False" "ti_defaults sample_ti = [(''tags'', PNone)]"
    by (simp_all add: sample_ti_def)
  have rows: "lineage_rows sample_decode sample_ti sample_lineage sample_scan = Inr ?rows"
    by (simp add: lineage_rows_def shape_rows_def build_eval ti)
  have build: "\<exists>ci. build_class_indexes sample_decode sample_ti sample_lineage sample_scan = Inr ci"
    by (simp add: build_class_indexes_def build_cid_def build_eval ti index_eval begin_bulk_def
        empty_index_def new_class_indexes_def ensure_last_values_def finalize_build_def derive_runs_def
        sorted_run_def py_sorted_def homogeneous_def)
  have ok: "\<forall>(oid, ro) \<in> set ?rows. \<forall>r. ro = Some r \<longrightarrow> row_ok (multivalued_field_names sample_ti) r"
    by (auto simp: row_ok_def dict_wf_def field_keys_def hash_key_def elem_keys_def)
  have u: "tab_unique (empty_index sample_ti) (tab_steps ?rows Map.empty)"
    by (auto simp: tab_unique_def uniq_key_def tab_has_def row_has_key_def val_has_key_def field_keys_def
        hash_key_def split: if_splits)
  obtain ci where ci: "build_class_indexes sample_decode sample_ti sample_lineage sample_scan = Inr ci"
    using build by blast
  show ?thesis using ci built_index_exact [OF sample_ti_wf ci rows _ ok u] by auto
qed

text \<open>
  C25: the index cache is faithful. An index dumped to the sidecar and loaded back, for a class whose
  markers still match, represents the same table, and its deferred un-index memory is rebuilt to the
  memory that table calls for, so later commits maintain it as they would the original. The bitmap
  serialization is a parameter that is only assumed to round-trip.
\<close>

theorem index_cache_roundtrip:
  assumes "ci_rep ci tab" and "uniq_rep ci tab UNIV" and "dicts_wf ci" and "finite_posts ci"
    and "\<forall>b. finite b \<longrightarrow> deser (ser b) = b" and "blob_matches (ci_dump ser ci) ti"
  shows "\<exists>ci'. ci_load deser (ci_dump ser ci) ti = Inr (Some ci') \<and> ci_rep ci' tab \<and> uniq_rep ci' tab UNIV \<and>
    (\<forall>f k. posting ci' f k = posting ci f k \<and> holder ci' f k = holder ci f k)"
proof -
  have rt: "\<And>b. finite b \<Longrightarrow> deser (ser b) = b" using assms(5) by blast
  show ?thesis
    using load_dump_rep [where deser = deser and ser = ser, OF assms(1-4) rt assms(6)] by blast
qed

theorem index_cache_roundtrip_witness:
  "\<exists>ci'. ci_load (\<lambda>b. b) (ci_dump (\<lambda>b. b) sample_index) sample_ti = Inr (Some ci') \<and> ci_rep ci' sample_table"
proof -
  have fp: "finite_posts sample_index"
    by (simp add: finite_posts_def sample_index_def col_of_def dict_getd_def)
  have m: "blob_matches (ci_dump (\<lambda>b. b) sample_index) sample_ti"
    by (simp add: blob_matches_def ci_dump_def sample_index_def)
  have "\<forall>b :: bitmap. finite b \<longrightarrow> (\<lambda>b. b) ((\<lambda>b. b) b) = b" by simp
  from index_cache_roundtrip [OF sample_rep fp this m] show ?thesis by blast
qed

text \<open>
  C23: the bitmap form of the read predicate is the predicate. On a protected class whose rows carry
  int labels with read floors at or above \<open>VIEWER\<close> (all the label verbs can set), a row is in the
  readable bitmap of a principal iff \<open>can_read_row\<close> admits the principal; \<open>None\<close> is "every row".
\<close>

theorem readable_bitmap_exact:
  assumes "ci_rep ci tab" and "protected_index ci" and "tab oid = Some r"
    and "labelled_row r owner groups read_floor" and "VIEWER \<le> read_floor"
    and "dict_wf (memberships p)" and "readable_bitmap p ci = Inr bm"
  shows "in_candidates oid bm \<longleftrightarrow> can_read_row p owner groups read_floor"
  by (rule readable_bitmap_row [OF assms(1-4,6,5,7)])

definition sample_principal :: principal where
  "sample_principal = \<lparr>uid = 4, memberships = [(3, STAFF)]\<rparr>"

theorem readable_bitmap_exact_witness:
  "readable_bitmap sample_principal guarded_index = Inr (Some {9}) \<and>
   in_candidates 9 (Some {9}) = can_read_row sample_principal 5 [3] 300"
proof -
  have bm: "readable_bitmap sample_principal guarded_index = Inr (Some {9})"
    by (simp add: readable_bitmap_def is_root_def sample_principal_def guarded_index_def ladder_defs Let_def
        dict_getd_def range_slice_def bisect_right_def bisect_by.simps value_order_def comparable_def
        orderable_def get_posting_def)
  have "labelled_row guarded_row 5 [3] 300" by (simp add: labelled_row_def guarded_row_def)
  moreover have "dict_wf (memberships sample_principal)" by (simp add: dict_wf_def sample_principal_def)
  ultimately have "in_candidates 9 (Some {9}) = can_read_row sample_principal 5 [3] 300"
    using readable_bitmap_exact [OF guarded_rep guarded_protected _ _ _ _ bm, of 9 guarded_row 5 "[3]" 300]
    by (simp add: ladder_defs)
  then show ?thesis using bm by simp
qed

text \<open>
  The windowed order is a slice of the full one. Stopping as soon as \<open>offset + limit\<close> OIDs are
  collected gives the same page as ordering everything and slicing.
\<close>

theorem windowed_order_is_slice:
  assumes "order_via_index ci matched f descending = Inr ordered"
  shows "windowed_index_order ci matched f descending limit offset = Inr (apply_window ordered limit offset)"
  by (rule window_is_slice [OF assms])

theorem windowed_order_is_slice_witness:
  "windowed_index_order sample_index {7, 8} ''age'' True (Some 1) 1 = Inr (apply_window [8, 7] (Some 1) 1)"
proof -
  have "order_via_index sample_index {7, 8} ''age'' True = Inr [8, 7]"
    by (simp add: order_via_index_def ordered_keys_def sample_index_def get_posting_def)
  from windowed_order_is_slice [OF this] show ?thesis .
qed

text \<open>
  C38: a query for \<open>None\<close> on a pure-Unique field is answered from the unique map, which never holds
  \<open>None\<close>: the plan is the empty bitmap with no residual, on every index, although the predicate
  is true of every row whose field is \<open>None\<close>.
\<close>

theorem unique_none_query_is_empty:
  assumes "dict_get (ci_eq ci) f = None" and "dict_get (ci_unique ci) f = Some h" and "dict_get h KNone = None"
    and "dict_get full f = Some PNone"
  shows "plan (Pred cls f OpEq PNone) ci = Inr (Some {}, None) \<and>
    evaluate (Pred cls f OpEq PNone) full = Inr True"
  using assms
  by (simp_all add: plan_pred_def plan_unique_only_def holder_lookup_def get_attr_def eval_pred_def
      scalar_eq_def Let_def)

theorem unique_none_query_is_empty_witness:
  "plan (Pred ''Person'' ''name'' OpEq PNone) sample_index = Inr (Some {}, None) \<and>
   evaluate (Pred ''Person'' ''name'' OpEq PNone) [(''name'', PNone)] = Inr True"
  by (rule unique_none_query_is_empty [of sample_index "''name''" "[(KStr ''ada'', 7), (KStr ''bob'', 8)]"])
     (simp_all add: sample_index_def)

text \<open>
  The label verbs never grant less than the ladder allows: after a successful \<open>share\<close> the
  floors are the given levels, both at or above \<open>VIEWER\<close>, the group is listed once more at most, and
  the record is staged; on a deleted record no verb succeeds.
\<close>

theorem share_effect:
  assumes "share fw r grp read write = Inr r'"
  shows "\<exists>g rl wl. grp = PInt g \<and> read = PInt rl \<and> write = PInt wl \<and> VIEWER \<le> rl \<and> VIEWER \<le> wl \<and>
    sr_state r \<noteq> STATE_DELETED \<and> sr_state r' \<in> {STATE_NEW, STATE_DIRTY} \<and>
    sr_labels r' = (sr_labels r)\<lparr>lb_read := rl, lb_write := wl, lb_groups :=
      (if g \<in> set (lb_groups (sr_labels r)) then lb_groups (sr_labels r)
       else lb_groups (sr_labels r) @ [g])\<rparr>"
  by (rule share_Inr [OF assms])

definition sample_staged :: staged_rec where
  "sample_staged = \<lparr>sr_kind = RecEntity, sr_protected = True, sr_frozen = False, sr_state = STATE_CLEAN,
     sr_labels = birth_defaults\<rparr>"

theorem share_effect_witness:
  "\<exists>r'. share (Inr ()) sample_staged (PInt 3) (PInt 0) (PInt 300) = Inr r' \<and>
     lb_write (sr_labels r') = 300 \<and> lb_groups (sr_labels r') = [3]"
proof -
  have "\<exists>r'. share (Inr ()) sample_staged (PInt 3) (PInt 0) (PInt 300) = Inr r'"
    by (simp add: share_def staged_check_def sample_staged_def check_group_def check_level_def VIEWER_def
        set_labels_def touch_def)
  then obtain r' where r': "share (Inr ()) sample_staged (PInt 3) (PInt 0) (PInt 300) = Inr r'" by blast
  show ?thesis
    using r' share_effect [OF r'] by (auto simp: sample_staged_def birth_defaults_def)
qed



text \<open>
  No id is handed out twice, and ids are at or above the persisted watermark and below the new
  one, whatever mix of OIDs, CIDs and TIDs is requested.
\<close>

theorem ids_distinct:
  "distinct (fst (alloc_run a rs)) \<and>
   (\<forall>(q, v) \<in> set (fst (alloc_run a rs)). watermark_of a q \<le> v \<and> v < watermark_of (snd (alloc_run a rs)) q)"
  using alloc_run_distinct alloc_run_ge by fastforce

theorem ids_distinct_witness:
  "distinct (fst (alloc_run fresh_alloc [WantOid, WantTid, WantOid]))"
  using ids_distinct [of fresh_alloc "[WantOid, WantTid, WantOid]"] by blast

end
